(* ===== verification/Prelude.thy ===== *)
theory Prelude
  imports Main "HOL-Library.Word"
begin

text \<open>
  Shared vocabulary of the development: bytes, C buffers and the result type of a C
  computation.

  A C \<open>char\<close> is a \<open>byte\<close> (an 8-bit word), a buffer is the list of its bytes, a
  \<open>size_t\<close> is a 64-bit word, an \<open>int\<close> is an HOL integer where the code cannot make it
  overflow. A pointer into a buffer is the buffer together with an offset. Every read
  and write of the key code goes through \<open>rd\<close>, \<open>wr\<close> and \<open>memcpy\<close>, which fail
  outside the buffer, so a theorem that a function returns also says that it stays
  inside its buffers.

  A computation has type \<open>'a exec\<close>: \<open>None\<close> does not return, \<open>Some (Inl f)\<close> goes
  wrong with the fault \<open>f\<close>, \<open>Some (Inr x)\<close> returns \<open>x\<close>. \<open>xbind\<close> sequences two
  computations; it is declared monotone so that a loop without a termination argument
  can be a \<^theory_text>\<open>partial_function\<close>.
\<close>

unbundle bit_operations_syntax

named_theorems exec_simps
named_theorems byte_arith

subsection \<open>Types\<close>

type_synonym byte = "8 word"
type_synonym bytes = "byte list"
type_synonym size_t = "64 word"

datatype fault =
    Out_Of_Bounds
  | Null_Deref
  | Assert_Failed
  | Out_Of_Memory
  | Uninitialised_Read
  | Bad_Varargs
  | Use_After_Free
  | Signed_Overflow
  | Lua_Error string

type_synonym 'a exec = "(fault + 'a) option"

abbreviation ret :: "'a \<Rightarrow> 'a exec" where
  "ret x \<equiv> Some (Inr x)"

abbreviation throw :: "fault \<Rightarrow> 'a exec" where
  "throw f \<equiv> Some (Inl f)"

definition xbind :: "'a exec \<Rightarrow> ('a \<Rightarrow> 'b exec) \<Rightarrow> 'b exec" where
  "xbind m f = Option.bind m (case_sum (\<lambda>e. Some (Inl e)) f)"

lemma xbind_simps [simp, exec_simps]:
  "xbind None f = None"
  "xbind (throw e) f = throw e"
  "xbind (ret x) f = f x"
  by (simp_all add: xbind_def)

lemma xbind_ret_iff: "xbind m f = ret y \<longleftrightarrow> (\<exists>x. m = ret x \<and> f x = ret y)"
  by (cases m) (auto simp: xbind_def split: sum.splits)

lemma xbind_assoc: "xbind (xbind m f) g = xbind m (\<lambda>x. xbind (f x) g)"
  by (cases m) (auto simp: xbind_def split: sum.splits)

lemma xbind_ret_right [simp]: "xbind m ret = m"
  by (cases m) (auto simp: xbind_def split: sum.splits)

lemma xbind_cong [fundef_cong]:
  "m = m' \<Longrightarrow> (\<And>x. m' = ret x \<Longrightarrow> f x = g x) \<Longrightarrow> xbind m f = xbind m' g"
  by (cases m') (auto simp: xbind_def split: sum.splits)

lemma xbind_mono [partial_function_mono]:
  assumes "mono_option B" and "\<And>y. mono_option (\<lambda>f. C y f)"
  shows "mono_option (\<lambda>f. xbind (B f) (\<lambda>y. C y f))"
proof -
  have "mono_option (\<lambda>f. case_sum (\<lambda>e. Some (Inl e)) (\<lambda>y. C y f) y)" for y
    using assms(2) by (cases y) (simp_all add: partial_function_mono)
  with assms(1) show ?thesis
    unfolding xbind_def by (rule bind_mono)
qed

text \<open>A C \<open>assert\<close>, compiled in because the build never defines \<open>NDEBUG\<close>.\<close>

definition c_assert :: "bool \<Rightarrow> unit exec" where
  "c_assert b = (if b then ret () else throw Assert_Failed)"

lemma c_assert_simps [simp, exec_simps]:
  "c_assert True = ret ()" "c_assert False = throw Assert_Failed"
  by (simp_all add: c_assert_def)

subsection \<open>Buffers\<close>

definition rd :: "bytes \<Rightarrow> size_t \<Rightarrow> byte exec" where
  "rd buf i = (if unat i < length buf then ret (buf ! unat i) else throw Out_Of_Bounds)"

definition wr :: "bytes \<Rightarrow> size_t \<Rightarrow> byte \<Rightarrow> bytes exec" where
  "wr buf i b = (if unat i < length buf then ret (buf[unat i := b]) else throw Out_Of_Bounds)"

text \<open>\<open>*s\<close>, for a pointer given as the list of the bytes from it to the end of its object.\<close>

definition peek :: "bytes \<Rightarrow> byte exec" where
  "peek s = (case s of [] \<Rightarrow> throw Out_Of_Bounds | c # _ \<Rightarrow> ret c)"

lemma peek_simps [simp, exec_simps]: "peek [] = throw Out_Of_Bounds" "peek (c # s) = ret c"
  by (simp_all add: peek_def)

lemma peek_ret_iff: "peek s = ret c \<longleftrightarrow> (\<exists>r. s = c # r)"
  by (cases s) auto

text \<open>\<open>memcpy(&dst[i], src, n)\<close>: both ranges must lie inside their buffers.\<close>

definition memcpy :: "bytes \<Rightarrow> size_t \<Rightarrow> bytes \<Rightarrow> size_t \<Rightarrow> bytes exec" where
  "memcpy dst i src n =
     (if unat i + unat n \<le> length dst \<and> unat n \<le> length src
      then ret (take (unat i) dst @ take (unat n) src @ drop (unat i + unat n) dst)
      else throw Out_Of_Bounds)"

text \<open>A C string, up to its NUL.\<close>

definition c_string :: "bytes \<Rightarrow> bytes exec" where
  "c_string s = (if 0 \<in> set s then ret (takeWhile (\<lambda>c. c \<noteq> 0) s) else throw Out_Of_Bounds)"

lemma c_string_append: "0 \<notin> set s \<Longrightarrow> c_string (s @ 0 # r) = ret s"
  by (auto simp: c_string_def takeWhile_append)

text \<open>
  \<open>memcmp\<close> and \<open>strncmp\<close> on the bytes from two pointers on. The C standard fixes only
  the sign of their result; the models return \<open>-1\<close>, \<open>0\<close> or \<open>1\<close>. Both compare bytes
  as \<open>unsigned char\<close>; \<open>strncmp\<close> stops at a common NUL byte.
\<close>

fun memcmp :: "bytes \<Rightarrow> bytes \<Rightarrow> nat \<Rightarrow> int exec" where
  "memcmp xs ys n =
     (if n = 0 then ret 0
      else case (xs, ys) of
        (x # xs', y # ys') \<Rightarrow>
          (if x < y then ret (- 1) else if y < x then ret 1 else memcmp xs' ys' (n - 1))
      | _ \<Rightarrow> throw Out_Of_Bounds)"

fun strncmp :: "bytes \<Rightarrow> bytes \<Rightarrow> nat \<Rightarrow> int exec" where
  "strncmp xs ys n =
     (if n = 0 then ret 0
      else case (xs, ys) of
        (x # xs', y # ys') \<Rightarrow>
          (if x < y then ret (- 1) else if y < x then ret 1
           else if x = 0 then ret 0 else strncmp xs' ys' (n - 1))
      | _ \<Rightarrow> throw Out_Of_Bounds)"

declare memcmp.simps [simp del] strncmp.simps [simp del]

lemma memcmp_0 [simp]: "memcmp xs ys 0 = ret 0"
  by (simp add: memcmp.simps)

lemma memcmp_Cons [simp]:
  "memcmp (x # xs) (y # ys) (Suc n) =
     (if x < y then ret (- 1) else if y < x then ret 1 else memcmp xs ys n)"
  by (simp add: memcmp.simps)

lemma strncmp_0 [simp]: "strncmp xs ys 0 = ret 0"
  by (simp add: strncmp.simps)

lemma strncmp_Cons [simp]:
  "strncmp (x # xs) (y # ys) (Suc n) =
     (if x < y then ret (- 1) else if y < x then ret 1
      else if x = 0 then ret 0 else strncmp xs ys n)"
  by (simp add: strncmp.simps)

lemma memcmp_eq_0:
  "n \<le> length xs \<Longrightarrow> n \<le> length ys \<Longrightarrow> memcmp xs ys n = ret 0 \<longleftrightarrow> take n xs = take n ys"
proof (induction n arbitrary: xs ys)
  case (Suc n)
  then show ?case by (cases xs; cases ys) auto
qed simp

text \<open>\<open>memcmp\<close> returns whenever both ranges lie inside their buffers.\<close>

lemma memcmp_returns:
  "n \<le> length xs \<Longrightarrow> n \<le> length ys \<Longrightarrow> \<exists>c. memcmp xs ys n = ret c"
proof (induction n arbitrary: xs ys)
  case (Suc n)
  then show ?case by (cases xs; cases ys) auto
qed simp

text \<open>\<open>c >= '0' && c <= '9'\<close>, on a signed or an unsigned character.\<close>

definition is_digit :: "byte \<Rightarrow> bool" where
  "is_digit c \<longleftrightarrow> 0x30 \<le> c \<and> c \<le> 0x39"

text \<open>A property of bytes that holds for the 256 of them; \<open>code_simp\<close> checks the list.\<close>

lemma byte_exhaust: "list_all P (map of_nat [0..<256]) \<Longrightarrow> P (c :: byte)"
proof -
  assume "list_all P (map of_nat [0..<256])"
  moreover have "c = of_nat (unat c)" by simp
  moreover have "unat c \<in> set [0..<256]" using unsigned_less[of c] by simp
  ultimately show "P c" by (metis (no_types, lifting) list.pred_set list.set_map rev_image_eqI)
qed

subsection \<open>Reading a buffer at a known split\<close>

lemma unat_of_nat_size: "n < 2 ^ 64 \<Longrightarrow> unat (of_nat n :: size_t) = n"
  by (simp add: unat_of_nat take_bit_nat_eq_self)

lemma unat_of_nat_byte: "n < 256 \<Longrightarrow> unat (of_nat n :: byte) = n"
  by (simp add: unsigned_of_nat take_bit_nat_eq_self)

lemma rd_append [simp]:
  "length xs < 2 ^ 64 \<Longrightarrow> rd (xs @ y # ys) (of_nat (length xs)) = ret y"
  by (simp add: rd_def unat_of_nat_size)

lemma rd_append_Suc:
  "length xs + 1 < 2 ^ 64 \<Longrightarrow> rd (xs @ y # z # ys) (of_nat (length xs) + 1) = ret z"
  using rd_append[of "xs @ [y]" z ys] by (simp add: add.commute)

text \<open>A non-negative \<open>char\<close> keeps its value when it is widened to \<open>size_t\<close>.\<close>

lemma scast_byte_small:
  assumes "n \<le> 127"
  shows "(scast (of_nat n :: byte) :: size_t) = of_nat n"
proof -
  have "sint (of_nat n :: byte) = int n"
    using assms by (simp add: sint_uint unsigned_of_nat signed_take_bit_int_eq_self take_bit_nat_eq_self)
  then show ?thesis
    by (metis of_int_of_nat_eq scast_eq)
qed

end
