(* ===== verification/LuaDbKey.thy ===== *)
theory LuaDbKey
  imports Prelude
begin

text \<open>
  The key codec of \<open>src/src/lmdb.c\<close>, lines 1456 to 1723. A LuaDB key is the
  concatenation of its segments; a segment is one length byte, one type byte and the data.
  The functions below are the C functions of the same names; a pointer into a key is the
  key with a \<open>size_t\<close> offset, and \<open>malloc\<close> is an argument: \<open>None\<close> when it returns
  \<open>NULL\<close>, \<open>Some junk\<close> when it returns memory whose bytes are the unspecified \<open>junk\<close>.

  \<open>char\<close> is signed on the platforms the build targets (x86-64, no \<open>-funsigned-char\<close>
  in CMakeLists.txt), so \<open>GetSegmentLength\<close> sign-extends the length byte. The loops that
  advance by a segment length are \<^theory_text>\<open>partial_function\<close>s: they need not end.
\<close>

subsection \<open>Constants\<close>

definition LMDB_EMPTY_TYPE :: byte where "LMDB_EMPTY_TYPE = 0x01"
definition LMDB_BOOLEAN_TYPE :: byte where "LMDB_BOOLEAN_TYPE = 0x62" \<comment> \<open>'b'\<close>
definition LMDB_INTEGER_TYPE :: byte where "LMDB_INTEGER_TYPE = 0x69" \<comment> \<open>'i'\<close>
definition LMDB_NUMERIC_TYPE :: byte where "LMDB_NUMERIC_TYPE = 0x6E" \<comment> \<open>'n'\<close>
definition LMDB_STRING_TYPE :: byte where "LMDB_STRING_TYPE = 0x73" \<comment> \<open>'s'\<close>

lemmas lmdb_type_defs =
  LMDB_EMPTY_TYPE_def LMDB_BOOLEAN_TYPE_def LMDB_INTEGER_TYPE_def
  LMDB_NUMERIC_TYPE_def LMDB_STRING_TYPE_def

definition LMDB_MAX_KEY_SEGMENTS :: nat where "LMDB_MAX_KEY_SEGMENTS = 32"
definition LMDB_MAX_KEY_SEG_LENGTH :: nat where "LMDB_MAX_KEY_SEG_LENGTH = 255"

subsection \<open>Memory allocation\<close>

type_synonym alloc = "(nat \<Rightarrow> byte) option"

definition malloc :: "alloc \<Rightarrow> size_t \<Rightarrow> bytes option" where
  "malloc al n = map_option (\<lambda>junk. map junk [0..<unat n]) al"

lemma malloc_simps [simp]:
  "malloc None n = None"
  "malloc (Some junk) n = Some (map junk [0..<unat n])"
  by (simp_all add: malloc_def)

definition mv_size :: "bytes \<Rightarrow> size_t" where
  "mv_size k = of_nat (length k)"

subsection \<open>Reading and writing one segment\<close>

definition GetSegmentLength :: "bytes \<Rightarrow> size_t \<Rightarrow> size_t exec" where
  "GetSegmentLength seg i = xbind (rd seg i) (\<lambda>c. ret (scast c))"

definition GetSegmentType :: "bytes \<Rightarrow> size_t \<Rightarrow> int exec" where
  "GetSegmentType seg i = xbind (rd seg (i + 1)) (\<lambda>c. ret (sint c))"

definition GetSegmentData :: "size_t \<Rightarrow> size_t" where
  "GetSegmentData i = i + 2"

definition SetSegment :: "bytes \<Rightarrow> size_t \<Rightarrow> size_t \<Rightarrow> int \<Rightarrow> bytes \<Rightarrow> bytes exec" where
  "SetSegment dest i len type data =
     xbind (wr dest i (ucast len)) (\<lambda>dest.
     xbind (wr dest (i + 1) (of_int type)) (\<lambda>dest.
     memcpy dest (i + 2) data len))"

subsection \<open>Building a key\<close>

fun GenerateLuaDbKey_loop :: "bytes \<Rightarrow> size_t \<Rightarrow> (bytes \<times> size_t \<times> byte) list \<Rightarrow> bytes exec" where
  "GenerateLuaDbKey_loop tkey keyidx [] = ret tkey"
| "GenerateLuaDbKey_loop tkey keyidx ((key, len, type) # elems) =
     xbind (SetSegment tkey keyidx len (sint type) key) (\<lambda>tkey.
     GenerateLuaDbKey_loop tkey (keyidx + (len + 2)) elems)"

text \<open>The arrays \<open>keys\<close>, \<open>lens\<close> and \<open>types\<close> are one list of triples; the result is
  \<open>(*err, *len, return value)\<close>.\<close>

definition GenerateLuaDbKey ::
    "alloc \<Rightarrow> size_t \<Rightarrow> (bytes \<times> size_t \<times> byte) list \<Rightarrow> (int \<times> size_t \<times> bytes option) exec" where
  "GenerateLuaDbKey al len elems =
     (let len = len + of_nat (length elems) * 2
      in case malloc al len of
           None \<Rightarrow> ret (1, len, None)
         | Some tkey \<Rightarrow>
             xbind (GenerateLuaDbKey_loop tkey 0 elems) (\<lambda>tkey. ret (0, len, Some tkey)))"

subsection \<open>Comparing keys\<close>

partial_function (option) CompareKeys_loop ::
    "bytes \<Rightarrow> bytes \<Rightarrow> size_t \<Rightarrow> size_t \<Rightarrow> int exec" where
  "CompareKeys_loop a b i j =
     (if i < mv_size a \<and> j < mv_size b then
        xbind (GetSegmentLength a i) (\<lambda>aseglen.
        xbind (GetSegmentLength b i) (\<lambda>bseglen.
        xbind (strncmp (drop (unat (GetSegmentData i)) a) (drop (unat (GetSegmentData i)) b)
                 (unat (if bseglen \<le> aseglen then bseglen else aseglen))) (\<lambda>cmp.
        if cmp \<noteq> 0 then ret cmp
        else if bseglen < aseglen then ret 1
        else if aseglen < bseglen then ret (- 1)
        else CompareKeys_loop a b (i + (aseglen + 2)) (j + (bseglen + 2)))))
      else if mv_size b < mv_size a then ret 1
      else if mv_size a < mv_size b then ret (- 1)
      else ret 0)"

definition CompareKeys :: "bytes \<Rightarrow> bytes \<Rightarrow> int exec" where
  "CompareKeys a b = CompareKeys_loop a b 0 0"

subsection \<open>Walking a key\<close>

partial_function (option) FindLastKeySegment_loop ::
    "bytes \<Rightarrow> size_t \<Rightarrow> size_t \<Rightarrow> size_t option \<Rightarrow> (size_t option) exec" where
  "FindLastKeySegment_loop key len i data =
     (if i < len then
        xbind (GetSegmentLength key i) (\<lambda>curlen.
        FindLastKeySegment_loop key len (i + (curlen + 2)) (Some i))
      else ret data)"

definition FindLastKeySegment :: "bytes \<Rightarrow> size_t \<Rightarrow> (size_t option) exec" where
  "FindLastKeySegment key len = FindLastKeySegment_loop key len 0 None"

definition GetKeyPrefix :: "alloc \<Rightarrow> bytes \<Rightarrow> size_t \<Rightarrow> (size_t \<times> bytes option) exec" where
  "GetKeyPrefix al key len =
     xbind (FindLastKeySegment key len) (\<lambda>last.
     case last of
       None \<Rightarrow> ret (0, None)
     | Some pfxlen \<Rightarrow>
         (case malloc al pfxlen of
            None \<Rightarrow> ret (pfxlen, None)
          | Some prefix \<Rightarrow>
              xbind (memcpy prefix 0 key pfxlen) (\<lambda>prefix. ret (pfxlen, Some prefix))))"

definition ReplaceLastKeySegment ::
    "alloc \<Rightarrow> bytes option \<Rightarrow> size_t \<Rightarrow> size_t \<Rightarrow> int \<Rightarrow> bytes \<Rightarrow> size_t \<Rightarrow> (size_t \<times> bytes option) exec" where
  "ReplaceLastKeySegment al key keylen seglen type seg newlen0 =
     (if key = None \<or> keylen = 0 then
        (case malloc al (seglen + 2) of
           None \<Rightarrow> ret (0, None)
         | Some new \<Rightarrow> xbind (SetSegment new 0 seglen type seg) (\<lambda>new. ret (seglen + 2, Some new)))
      else
        xbind (FindLastKeySegment (the key) keylen) (\<lambda>last.
        case last of
          None \<Rightarrow> ret (newlen0, None)
        | Some off \<Rightarrow>
            xbind (GetSegmentLength (the key) off) (\<lambda>lastlen.
            xbind (c_assert (lastlen \<le> keylen)) (\<lambda>_.
            case malloc al ((keylen - lastlen) + seglen) of
              None \<Rightarrow> ret (0, None)
            | Some new \<Rightarrow>
                xbind (memcpy new 0 (the key) (keylen - lastlen)) (\<lambda>new.
                xbind (SetSegment new (keylen - lastlen - 2) seglen type seg) (\<lambda>new.
                ret ((keylen - lastlen) + seglen, Some new)))))))"

definition ComputeNextLexicalValue :: "bytes \<Rightarrow> size_t \<Rightarrow> bytes exec" where
  "ComputeNextLexicalValue val len =
     xbind (c_assert (0 < len)) (\<lambda>_.
     xbind (rd val (len - 1)) (\<lambda>c. wr val (len - 1) (c + 1)))"

text \<open>The result is the offset of the segment data in \<open>key\<close>, \<open>*outlen\<close> and \<open>*type\<close>;
  \<open>None\<close> when the C function returns \<open>NULL\<close>.\<close>

partial_function (option) FindFirstDifferentKeyNode_loop ::
    "bytes \<Rightarrow> size_t \<Rightarrow> bytes \<Rightarrow> size_t \<Rightarrow> ((size_t \<times> size_t \<times> int) option) exec" where
  "FindFirstDifferentKeyNode_loop prefix pfxlen key i =
     (if i < mv_size key then
        if pfxlen \<le> i then
          xbind (GetSegmentLength key i) (\<lambda>outlen.
          xbind (GetSegmentType key i) (\<lambda>type.
          ret (Some (GetSegmentData i, outlen, type))))
        else
          xbind (GetSegmentLength prefix i) (\<lambda>pfxseglen.
          xbind (GetSegmentType prefix i) (\<lambda>pfxtype.
          xbind (GetSegmentLength key i) (\<lambda>seglen.
          xbind (GetSegmentType key i) (\<lambda>segtype.
          if pfxseglen \<noteq> seglen \<or> pfxtype \<noteq> segtype then
            ret (Some (GetSegmentData i, seglen, segtype))
          else
            xbind (memcmp (drop (unat (GetSegmentData i)) prefix)
                     (drop (unat (GetSegmentData i)) key) (unat pfxseglen)) (\<lambda>cmp.
            if cmp \<noteq> 0 then ret (Some (GetSegmentData i, seglen, segtype))
            else FindFirstDifferentKeyNode_loop prefix pfxlen key (i + (seglen + 2)))))))
      else ret None)"

definition FindFirstDifferentKeyNode ::
    "bytes \<Rightarrow> size_t \<Rightarrow> bytes \<Rightarrow> ((size_t \<times> size_t \<times> int) option) exec" where
  "FindFirstDifferentKeyNode prefix pfxlen key = FindFirstDifferentKeyNode_loop prefix pfxlen key 0"


subsection \<open>The abstract view: a key is a list of segments\<close>

type_synonym segment = "byte \<times> bytes"

definition encode_seg :: "segment \<Rightarrow> bytes" where
  "encode_seg s = of_nat (length (snd s)) # fst s # snd s"

definition encode_key :: "segment list \<Rightarrow> bytes" where
  "encode_key segs = concat (map encode_seg segs)"

text \<open>
  The keys the walkers handle: a length byte below 128 (it is read back through a signed
  \<open>char\<close>) and at most \<open>LMDB_MAX_KEY_SEGMENTS\<close> segments.
\<close>

definition wf_seg :: "segment \<Rightarrow> bool" where
  "wf_seg s \<longleftrightarrow> length (snd s) \<le> 127"

definition wf_segs :: "segment list \<Rightarrow> bool" where
  "wf_segs segs \<longleftrightarrow> (\<forall>s \<in> set segs. wf_seg s) \<and> length segs \<le> LMDB_MAX_KEY_SEGMENTS"

lemma encode_key_simps [simp]:
  "encode_key [] = []"
  "encode_key (s # segs) = encode_seg s @ encode_key segs"
  "encode_key (xs @ ys) = encode_key xs @ encode_key ys"
  by (simp_all add: encode_key_def)

lemma length_encode_seg [simp]: "length (encode_seg s) = length (snd s) + 2"
  by (simp add: encode_seg_def)

lemma encode_seg_not_Nil [simp]: "encode_seg s \<noteq> []"
  by (simp add: encode_seg_def)

lemma encode_key_eq_Nil [simp]: "encode_key segs = [] \<longleftrightarrow> segs = []"
  by (cases segs) auto

lemma length_encode_key_le:
  "\<forall>s \<in> set segs. length (snd s) \<le> m \<Longrightarrow> length (encode_key segs) \<le> (m + 2) * length segs"
  by (induction segs) auto

lemma length_wf_key:
  assumes "wf_segs segs"
  shows "length (encode_key segs) \<le> 4128"
proof -
  have "length (encode_key segs) \<le> 129 * length segs"
    using length_encode_key_le[of segs 127] assms by (simp add: wf_segs_def wf_seg_def)
  also have "\<dots> \<le> 129 * 32"
    using assms by (simp add: wf_segs_def LMDB_MAX_KEY_SEGMENTS_def)
  finally show ?thesis by simp
qed

lemma wf_segs_Cons: "wf_segs (s # segs) \<Longrightarrow> wf_seg s \<and> wf_segs segs"
  by (simp add: wf_segs_def)

lemma wf_segs_append: "wf_segs (xs @ ys) \<Longrightarrow> wf_segs xs \<and> wf_segs ys"
  by (simp add: wf_segs_def)

subsection \<open>Reading an encoded key at a segment boundary\<close>

text \<open>
  \<open>at xs\<close> is the offset of the first byte after \<open>xs\<close>. The walkers below are proved with
  the key split there: \<open>xs @ encode_seg s @ ys\<close>.
\<close>

definition at :: "bytes \<Rightarrow> size_t" where
  "at xs = of_nat (length xs)"

lemma at_Nil [simp]: "at [] = 0"
  by (simp add: at_def)

lemma unat_at: "length xs < 2 ^ 64 \<Longrightarrow> unat (at xs) = length xs"
  by (simp add: at_def unat_of_nat_size)

lemma at_plus: "at xs + of_nat n = of_nat (length xs + n)"
  by (simp add: at_def)

lemma at_next [simp]: "at xs + (of_nat (length (snd s)) + 2) = at (xs @ encode_seg s)"
  by (simp add: at_def)

lemma at_less_size:
  assumes "length (xs @ ys) < 2 ^ 64"
  shows "at xs < mv_size (xs @ ys) \<longleftrightarrow> ys \<noteq> []"
proof -
  have "unat (mv_size (xs @ ys)) = length (xs @ ys)" "unat (at xs) = length xs"
    using assms unat_at[of xs] unat_at[of "xs @ ys"] by (simp_all add: at_def mv_size_def)
  then show ?thesis by (simp add: word_less_nat_alt)
qed

lemma GetSegmentLength_at:
  assumes "length xs < 2 ^ 63" and "length (snd s) \<le> 127"
  shows "GetSegmentLength (xs @ encode_seg s @ ys) (at xs) = ret (of_nat (length (snd s)))"
  using assms by (simp add: GetSegmentLength_def encode_seg_def at_def scast_byte_small)

lemma GetSegmentType_at:
  assumes "length xs < 2 ^ 63"
  shows "GetSegmentType (xs @ encode_seg s @ ys) (at xs) = ret (sint (fst s))"
  using assms by (simp add: GetSegmentType_def encode_seg_def at_def rd_append_Suc)

lemma unat_GetSegmentData_at:
  assumes "length xs < 2 ^ 63"
  shows "unat (GetSegmentData (at xs)) = length xs + 2"
proof -
  have "unat (of_nat (length xs + 2) :: size_t) = length xs + 2"
    using assms by (intro unat_of_nat_size) simp
  then show ?thesis by (simp add: GetSegmentData_def at_def add.commute)
qed

lemma drop_GetSegmentData_at:
  assumes "length xs < 2 ^ 63"
  shows "drop (unat (GetSegmentData (at xs))) (xs @ encode_seg s @ ys) = snd s @ ys"
  using assms by (simp add: unat_GetSegmentData_at encode_seg_def)

lemmas seg_at =
  GetSegmentLength_at GetSegmentType_at drop_GetSegmentData_at


lemma unat_mv_size: "length xs < 2 ^ 64 \<Longrightarrow> unat (mv_size xs) = length xs"
  by (simp add: mv_size_def unat_of_nat_size)

lemma mv_size_eq_at: "mv_size xs = at xs"
  by (simp add: mv_size_def at_def)

subsection \<open>The walkers on encoded keys\<close>

definition short_segs :: "segment list \<Rightarrow> bool" where
  "short_segs segs \<longleftrightarrow> (\<forall>s \<in> set segs. length (snd s) \<le> 127)"

lemma short_segs_simps [simp]:
  "short_segs []"
  "short_segs (s # segs) \<longleftrightarrow> length (snd s) \<le> 127 \<and> short_segs segs"
  "short_segs (xs @ ys) \<longleftrightarrow> short_segs xs \<and> short_segs ys"
  by (auto simp: short_segs_def)

lemma wf_segs_short: "wf_segs segs \<Longrightarrow> short_segs segs"
  by (simp add: wf_segs_def wf_seg_def short_segs_def)

lemma FindLastKeySegment_loop_at:
  assumes "short_segs segs" and "length (xs @ encode_key segs) < 2 ^ 63"
  shows "FindLastKeySegment_loop (xs @ encode_key segs) (mv_size (xs @ encode_key segs)) (at xs) d
       = ret (if segs = [] then d else Some (at (xs @ encode_key (butlast segs))))"
  using assms
proof (induction segs arbitrary: xs d)
  case Nil
  then show ?case
    using at_less_size[of xs "[]"] by (simp add: FindLastKeySegment_loop.simps)
next
  case (Cons s segs)
  have less: "at xs < mv_size (xs @ encode_key (s # segs))"
    using Cons.prems at_less_size[of xs "encode_key (s # segs)"] by simp
  have "FindLastKeySegment_loop (xs @ encode_key (s # segs)) (mv_size (xs @ encode_key (s # segs)))
          (at xs) d
      = FindLastKeySegment_loop ((xs @ encode_seg s) @ encode_key segs)
          (mv_size ((xs @ encode_seg s) @ encode_key segs)) (at (xs @ encode_seg s)) (Some (at xs))"
    using Cons.prems less by (subst FindLastKeySegment_loop.simps) (simp add: seg_at)
  also have "\<dots> = ret (if segs = [] then Some (at xs)
      else Some (at ((xs @ encode_seg s) @ encode_key (butlast segs))))"
    using Cons.prems by (intro Cons.IH) simp_all
  finally show ?case by simp
qed

lemma FindLastKeySegment_encode:
  assumes "wf_segs segs"
  shows "FindLastKeySegment (encode_key segs) (mv_size (encode_key segs))
       = ret (if segs = [] then None else Some (at (encode_key (butlast segs))))"
  using FindLastKeySegment_loop_at[of segs "[]" None] wf_segs_short[OF assms] length_wf_key[OF assms]
  by (simp add: FindLastKeySegment_def)

lemma memcpy_prefix:
  assumes "length ys = length xs" and "length xs < 2 ^ 64"
  shows "memcpy ys 0 (xs @ zs) (at xs) = ret xs"
  using assms by (simp add: memcpy_def unat_at)

lemma GetKeyPrefix_encode:
  assumes "wf_segs segs"
  shows "GetKeyPrefix (Some junk) (encode_key segs) (mv_size (encode_key segs))
       = ret (if segs = [] then (0, None)
              else (mv_size (encode_key (butlast segs)), Some (encode_key (butlast segs))))"
proof (cases segs rule: rev_cases)
  case Nil
  then show ?thesis
    using FindLastKeySegment_encode[OF assms] by (simp add: GetKeyPrefix_def)
next
  case (snoc ss s)
  then show ?thesis
    using FindLastKeySegment_encode[OF assms] length_wf_key[OF assms]
    by (simp add: GetKeyPrefix_def memcpy_prefix unat_at mv_size_eq_at)
qed

text \<open>Writing a segment into the unwritten rest of a buffer.\<close>

lemma SetSegment_at:
  assumes "length (xs @ junk) < 2 ^ 63" and "length d + 2 \<le> length junk"
  shows "SetSegment (xs @ junk) (at xs) (of_nat (length d)) (sint t) (d @ rest)
       = ret (xs @ encode_seg (t, d) @ drop (length d + 2) junk)"
proof -
  obtain j0 j1 js where junk: "junk = j0 # j1 # js"
    using assms(2) by (cases junk; cases "tl junk") auto
  have u: "unat (at xs) = length xs" "unat (at xs + 1) = Suc (length xs)"
       "unat (at xs + 2) = length xs + 2" "unat (of_nat (length d) :: size_t) = length d"
    using assms unat_at[of xs] unat_at[of "xs @ [j0]"] unat_at[of "xs @ [j0, j1]"] unat_of_nat_size[of "length d"]
    by (simp_all add: at_def junk add.commute)
  have c: "(ucast (of_nat (length d) :: size_t) :: byte) = of_nat (length d)"
    using assms by (simp add: unsigned_of_nat take_bit_nat_eq_self)
  show ?thesis
    using assms by (simp add: SetSegment_def wr_def memcpy_def u c junk encode_seg_def list_update_append)
qed

definition key_elem :: "segment \<Rightarrow> bytes \<times> size_t \<times> byte" where
  "key_elem s = (snd s, of_nat (length (snd s)), fst s)"

lemma key_elem_simp [simp]: "key_elem (t, d) = (d, of_nat (length d), t)"
  by (simp add: key_elem_def)

lemma GenerateLuaDbKey_loop_at:
  assumes "length junk = length (encode_key segs)" and "length (xs @ junk) < 2 ^ 63"
  shows "GenerateLuaDbKey_loop (xs @ junk) (at xs) (map key_elem segs) = ret (xs @ encode_key segs)"
  using assms
proof (induction segs arbitrary: xs junk)
  case Nil
  then show ?case by simp
next
  case (Cons s segs)
  obtain t d where s: "s = (t, d)" by fastforce
  have "SetSegment (xs @ junk) (at xs) (of_nat (length d)) (sint t) d
      = ret (xs @ encode_seg (t, d) @ drop (length d + 2) junk)"
    using SetSegment_at[of xs junk d t "[]"] Cons.prems s by simp
  moreover have "GenerateLuaDbKey_loop ((xs @ encode_seg s) @ drop (length d + 2) junk)
      (at (xs @ encode_seg s)) (map key_elem segs) = ret ((xs @ encode_seg s) @ encode_key segs)"
    using Cons.prems s by (intro Cons.IH) simp_all
  ultimately show ?case
    using at_next[of xs s] by (simp add: s)
qed

lemma GenerateLuaDbKey_encode:
  assumes "length (encode_key segs) < 2 ^ 63"
  shows "GenerateLuaDbKey (Some junk) (of_nat (sum_list (map (length \<circ> snd) segs))) (map key_elem segs)
       = ret (0, mv_size (encode_key segs), Some (encode_key segs))"
proof -
  have len: "sum_list (map (length \<circ> snd) segs) + length segs * 2 = length (encode_key segs)"
    by (induction segs) auto
  have "of_nat (sum_list (map (length \<circ> snd) segs)) + of_nat (length (map key_elem segs)) * 2
      = mv_size (encode_key segs)"
    unfolding mv_size_def len[symmetric] by simp
  moreover have "GenerateLuaDbKey_loop (map junk [0..<length (encode_key segs)]) 0 (map key_elem segs)
      = ret (encode_key segs)"
    using GenerateLuaDbKey_loop_at[of "map junk [0..<length (encode_key segs)]" segs "[]"] assms by simp
  ultimately show ?thesis
    using assms by (simp add: GenerateLuaDbKey_def unat_mv_size)
qed


text \<open>Replacing the last segment of a key, or starting a key when there is none.\<close>

lemma ReplaceLastKeySegment_NULL:
  assumes "length d \<le> 127"
  shows "ReplaceLastKeySegment (Some junk) None len (of_nat (length d)) (sint t) (d @ rest) n0
       = ret (mv_size (encode_key [(t, d)]), Some (encode_key [(t, d)]))"
proof -
  have l: "unat (of_nat (length d) + 2 :: size_t) = length d + 2"
    using unat_of_nat_size[of "length d + 2"] assms by (simp add: add.commute)
  have "SetSegment (map junk [0..<length d + 2]) 0 (of_nat (length d)) (sint t) (d @ rest)
      = ret (encode_seg (t, d))"
    using SetSegment_at[of "[]" "map junk [0..<length d + 2]" d t rest] assms by simp
  then show ?thesis
    using l by (simp add: ReplaceLastKeySegment_def mv_size_def)
qed

lemma ReplaceLastKeySegment_encode:
  assumes wf: "wf_segs (segs @ [s])" and "length d \<le> 127"
  shows "ReplaceLastKeySegment (Some junk) (Some (encode_key (segs @ [s])))
           (mv_size (encode_key (segs @ [s]))) (of_nat (length d)) (sint t) (d @ rest) n0
       = ret (mv_size (encode_key (segs @ [(t, d)])), Some (encode_key (segs @ [(t, d)])))"
proof -
  let ?p = "encode_key segs"
  let ?k = "?p @ encode_seg s"
  let ?n = "?p @ encode_seg (t, d)"
  have k: "encode_key (segs @ [s]) = ?k" "encode_key (segs @ [(t, d)]) = ?n" by simp_all
  have len: "length ?k \<le> 4128" using length_wf_key[OF wf] by simp
  have s: "length (snd s) \<le> 127" using wf by (simp add: wf_segs_def wf_seg_def)
  define base where "base = (of_nat (length ?p + 2) :: size_t)"
  have sub: "mv_size ?k - of_nat (length (snd s)) = base" by (simp add: base_def mv_size_def)
  have nl: "base + of_nat (length d) = mv_size ?n" by (simp add: base_def mv_size_def)
  have off: "base - 2 = at ?p" by (simp add: base_def at_def)
  have u: "unat base = length ?p + 2" "unat (mv_size ?n) = length ?p + length d + 2"
    using len assms(2) unat_of_nat_size[of "length ?p + 2"] unat_mv_size[of ?n]
    by (simp_all add: base_def)
  have le: "of_nat (length (snd s)) \<le> mv_size ?k"
    using len s unat_mv_size[of ?k] by (simp add: word_le_nat_alt unat_of_nat_size)
  have nz: "mv_size ?k \<noteq> 0"
    using at_less_size[of "[]" ?k] len by auto
  define new where "new = map junk [0..<length ?p + length d + 2]"
  have lnew: "length new = length ?p + length d + 2" by (simp add: new_def)
  have cp: "memcpy new 0 ?k base
      = ret (?p @ [of_nat (length (snd s)), fst s] @ drop (length ?p + 2) new)"
    using u(1) lnew by (simp add: memcpy_def encode_seg_def)
  have set: "SetSegment (?p @ [of_nat (length (snd s)), fst s] @ drop (length ?p + 2) new)
      (at ?p) (of_nat (length d)) (sint t) (d @ rest) = ret ?n"
    using len assms(2) lnew by (subst SetSegment_at) simp_all
  have mal: "malloc (Some junk) (mv_size ?n) = Some new"
    by (simp only: malloc_simps u(2) new_def)
  have find: "FindLastKeySegment ?k (mv_size ?k) = ret (Some (at ?p))"
    using FindLastKeySegment_encode[OF wf] by simp
  have segl: "GetSegmentLength ?k (at ?p) = ret (of_nat (length (snd s)))"
    using GetSegmentLength_at[of ?p s "[]"] len s by simp
  show ?thesis
    unfolding ReplaceLastKeySegment_def k
    using nz le
    by (simp only: find segl sub nl off mal cp set xbind_simps option.sel option.case
        option.simps simp_thms if_False c_assert_simps)
qed

text \<open>Incrementing the last byte: the last data byte, or the type byte of an empty segment.\<close>

lemma ComputeNextLexicalValue_snoc:
  assumes "length xs < 2 ^ 63"
  shows "ComputeNextLexicalValue (xs @ [b]) (mv_size (xs @ [b])) = ret (xs @ [b + 1])"
proof -
  have m: "mv_size (xs @ [b]) - 1 = at xs" by (simp add: mv_size_def at_def)
  have "0 < mv_size (xs @ [b])"
    using at_less_size[of "[]" "xs @ [b]"] assms by simp
  then show ?thesis
    using assms by (simp add: ComputeNextLexicalValue_def m rd_def wr_def unat_at)
qed

subsection \<open>The first segment of a key that leaves a prefix\<close>

fun common_prefix :: "segment list \<Rightarrow> segment list \<Rightarrow> nat" where
  "common_prefix (p # ps) (k # ks) = (if p = k then Suc (common_prefix ps ks) else 0)"
| "common_prefix [] ks = 0"
| "common_prefix (p # ps) [] = 0"

lemma common_prefix_le: "common_prefix ps ks \<le> length ks"
  by (induction ps ks rule: common_prefix.induct) auto

lemma common_prefix_append [simp]: "common_prefix ps (ps @ ks) = length ps"
  by (induction ps) auto

lemma sint_eq_iff: "sint (a :: byte) = sint (b :: byte) \<longleftrightarrow> a = b"
  using signed_word_eqI by blast

lemma FindFirstDifferentKeyNode_loop_at:
  assumes "short_segs ps" and "short_segs ks"
    and "length (xs @ encode_key ps) < 2 ^ 63" and "length (xs @ encode_key ks) < 2 ^ 63"
  shows "FindFirstDifferentKeyNode_loop (xs @ encode_key ps) (mv_size (xs @ encode_key ps))
           (xs @ encode_key ks) (at xs)
       = ret (let n = common_prefix ps ks
              in if n = length ks then None
                 else Some (GetSegmentData (at (xs @ encode_key (take n ks))),
                            of_nat (length (snd (ks ! n))), sint (fst (ks ! n))))"
  using assms
proof (induction ps ks arbitrary: xs rule: common_prefix.induct)
  case (1 p ps k ks)
  have less: "at xs < mv_size (xs @ encode_key (k # ks))" "\<not> mv_size (xs @ encode_key (p # ps)) \<le> at xs"
    using 1 at_less_size[of xs "encode_key (k # ks)"] at_less_size[of xs "encode_key (p # ps)"]
    by (simp_all add: not_le)
  note rds = seg_at[of xs k "encode_key ks"] seg_at[of xs p "encode_key ps"]
  show ?case
  proof (cases "p = k")
    case True
    have "FindFirstDifferentKeyNode_loop (xs @ encode_key (p # ps)) (mv_size (xs @ encode_key (p # ps)))
           (xs @ encode_key (k # ks)) (at xs)
       = FindFirstDifferentKeyNode_loop ((xs @ encode_seg k) @ encode_key ps)
           (mv_size ((xs @ encode_seg k) @ encode_key ps)) ((xs @ encode_seg k) @ encode_key ks)
           (at (xs @ encode_seg k))"
    proof -
      have "memcmp (snd k @ encode_key ps) (snd k @ encode_key ks) (unat (of_nat (length (snd k)) :: size_t)) = ret 0"
        using 1 True by (subst memcmp_eq_0) (simp_all add: unat_of_nat_size)
      then show ?thesis
        using less rds 1(2-5) True by (subst FindFirstDifferentKeyNode_loop.simps) simp
    qed
    also have "\<dots> = ret (let n = common_prefix ps ks
              in if n = length ks then None
                 else Some (GetSegmentData (at ((xs @ encode_seg k) @ encode_key (take n ks))),
                            of_nat (length (snd (ks ! n))), sint (fst (ks ! n))))"
      using 1 True by (intro "1.IH") simp_all
    finally show ?thesis using True by (simp add: Let_def)
  next
    case False
    have "FindFirstDifferentKeyNode_loop (xs @ encode_key (p # ps)) (mv_size (xs @ encode_key (p # ps)))
           (xs @ encode_key (k # ks)) (at xs)
        = ret (Some (GetSegmentData (at xs), of_nat (length (snd k)), sint (fst k)))"
    proof (cases "(of_nat (length (snd p)) :: size_t) = of_nat (length (snd k)) \<and> sint (fst p) = sint (fst k)")
      case True
      have "length (snd p) \<le> 127" "length (snd k) \<le> 127" using 1(2,3) by simp_all
      then have "unat (of_nat (length (snd p)) :: size_t) = length (snd p)"
          "unat (of_nat (length (snd k)) :: size_t) = length (snd k)"
        by (auto intro!: unat_of_nat_size)
      then have eq: "length (snd p) = length (snd k)" using True by metis
      have neq: "snd p \<noteq> snd k"
        using True False by (simp add: sint_eq_iff prod_eq_iff)
      obtain c where c: "memcmp (snd p @ encode_key ps) (snd k @ encode_key ks) (length (snd p)) = ret c"
        using memcmp_returns eq by (metis le_add1 length_append)
      have "c \<noteq> 0"
        using c eq neq memcmp_eq_0[of "length (snd p)" "snd p @ encode_key ps" "snd k @ encode_key ks"]
        by auto
      then show ?thesis
        using less rds 1(2-5) True c[unfolded eq]
        by (subst FindFirstDifferentKeyNode_loop.simps) (simp add: unat_of_nat_size)
    next
      case outer: False
      then show ?thesis
        using less rds 1(2-5) by (subst FindFirstDifferentKeyNode_loop.simps) auto
    qed
    with False show ?thesis by simp
  qed
next
  case (2 ks)
  show ?case
  proof (cases ks)
    case Nil
    then show ?thesis
      using 2 at_less_size[of xs "[]"] by (subst FindFirstDifferentKeyNode_loop.simps) simp
  next
    case (Cons k ks')
    then show ?thesis
      using 2 at_less_size[of xs "encode_key ks"] seg_at[of xs k "encode_key ks'"]
      by (subst FindFirstDifferentKeyNode_loop.simps) (simp add: mv_size_eq_at)
  qed
next
  case (3 p ps)
  then show ?case
    using at_less_size[of xs "[]"] by (subst FindFirstDifferentKeyNode_loop.simps) simp
qed

lemma FindFirstDifferentKeyNode_encode:
  assumes "wf_segs ps" and "wf_segs ks"
  shows "FindFirstDifferentKeyNode (encode_key ps) (mv_size (encode_key ps)) (encode_key ks)
       = ret (let n = common_prefix ps ks
              in if n = length ks then None
                 else Some (GetSegmentData (at (encode_key (take n ks))),
                            of_nat (length (snd (ks ! n))), sint (fst (ks ! n))))"
  using FindFirstDifferentKeyNode_loop_at[of ps ks "[]"] assms
    length_wf_key[OF assms(1)] length_wf_key[OF assms(2)]
  by (simp add: FindFirstDifferentKeyNode_def wf_segs_short Let_def)

subsection \<open>Properties\<close>

lemma FindLastKeySegment_loop_stuck:
  assumes "FindLastKeySegment_loop key len i d = Some y"
  shows "\<not> (rd key 0 = ret 0xFE \<and> 0 < len \<and> i = 0)"
proof -
  have "(scast (0xFE :: byte) :: size_t) + 2 = 0" by code_simp
  with assms show ?thesis
    by - (rule FindLastKeySegment_loop.raw_induct
        [where P = "\<lambda>key len i d y. \<not> (rd key 0 = ret 0xFE \<and> 0 < len \<and> i = 0)"],
      fastforce simp: GetSegmentLength_def, assumption)
qed

text \<open>C25: \<open>FindLastKeySegment\<close> does not return on a key whose first length byte is 254: the
  signed \<open>char\<close> makes \<open>curlen + 2\<close> zero and the loop index never moves. \<open>GetLmdbKeyFromLua\<close>
  accepts such a segment, since it only rejects lengths above 255.\<close>

theorem FindLastKeySegment_254_diverges:
  assumes "length d = 254" and "len > 0"
  shows "FindLastKeySegment (encode_key ((t, d) # segs)) len = None"
proof -
  have "rd (encode_key ((t, d) # segs)) 0 = ret 0xFE"
    using assms(1) by (simp add: rd_def encode_seg_def)
  then show ?thesis
    using FindLastKeySegment_loop_stuck assms(2) unfolding FindLastKeySegment_def
    by (metis option.exhaust)
qed

theorem FindLastKeySegment_254_diverges_witness:
  "FindLastKeySegment (encode_key [(LMDB_STRING_TYPE, replicate 254 0x61)]) 256 = None"
  by (rule FindLastKeySegment_254_diverges) simp_all

text \<open>C21: \<open>ReplaceLastKeySegment\<close> changes only the last segment: the new key is the old key with
  that segment exchanged, whatever the two lengths, and \<open>GetKeyPrefix\<close> of the new key is the
  prefix of the old one.\<close>

theorem ReplaceLastKeySegment_keeps_prefix:
  assumes "wf_segs (segs @ [s])" and "length d \<le> 127"
  shows "ReplaceLastKeySegment (Some junk) (Some (encode_key (segs @ [s])))
           (mv_size (encode_key (segs @ [s]))) (of_nat (length d)) (sint t) (d @ rest) n0
         = ret (mv_size (encode_key (segs @ [(t, d)])), Some (encode_key (segs @ [(t, d)])))
       \<and> GetKeyPrefix (Some junk) (encode_key (segs @ [(t, d)])) (mv_size (encode_key (segs @ [(t, d)])))
         = GetKeyPrefix (Some junk) (encode_key (segs @ [s])) (mv_size (encode_key (segs @ [s])))"
proof -
  have "wf_segs (segs @ [(t, d)])" using assms by (simp add: wf_segs_def wf_seg_def)
  then show ?thesis
    using ReplaceLastKeySegment_encode[OF assms] GetKeyPrefix_encode[of "segs @ [(t, d)]"]
      GetKeyPrefix_encode[OF assms(1)] by simp
qed

theorem ReplaceLastKeySegment_keeps_prefix_witness:
  "ReplaceLastKeySegment (Some (\<lambda>_. 0)) (Some [1, 0x73, 0x61, 2, 0x73, 0x62, 0x62])
     (mv_size [1, 0x73, 0x61, 2, 0x73, 0x62, 0x62]) 1 0x69 [0x35, 0x36] 0
   = ret (mv_size [1, 0x73, 0x61, 1, 0x69, 0x35], Some [1, 0x73, 0x61, 1, 0x69, 0x35])"
proof -
  have "wf_segs ([(0x73, [0x61])] @ [(0x73, [0x62, 0x62 :: byte])])"
    by (simp add: wf_segs_def wf_seg_def LMDB_MAX_KEY_SEGMENTS_def)
  from ReplaceLastKeySegment_keeps_prefix[OF this, of "[0x35]" "\<lambda>_. 0" "0x69" "[0x36]" 0]
  show ?thesis by (simp add: encode_seg_def)
qed

text \<open>on a well-formed key that extends the prefix, \<open>FindFirstDifferentKeyNode\<close> returns the
  data offset, length and type of the first segment after the prefix: the child of the prefix
  the key belongs to.\<close>

theorem FindFirstDifferentKeyNode_child:
  assumes "wf_segs (ps @ k # ks)"
  shows "FindFirstDifferentKeyNode (encode_key ps) (mv_size (encode_key ps)) (encode_key (ps @ k # ks))
       = ret (Some (GetSegmentData (at (encode_key ps)), of_nat (length (snd k)), sint (fst k)))"
proof -
  have "wf_segs ps" using assms wf_segs_append by blast
  from FindFirstDifferentKeyNode_encode[OF this assms] show ?thesis by simp
qed

theorem FindFirstDifferentKeyNode_child_witness:
  "FindFirstDifferentKeyNode [1, 0x73, 0x61] 3 [1, 0x73, 0x61, 2, 0x69, 0x31, 0x32]
   = ret (Some (5, 2, 0x69))"
proof -
  have "wf_segs ([(0x73, [0x61])] @ (0x69, [0x31, 0x32 :: byte]) # [])"
    by (simp add: wf_segs_def wf_seg_def LMDB_MAX_KEY_SEGMENTS_def)
  from FindFirstDifferentKeyNode_child[OF this]
  show ?thesis by (simp add: encode_seg_def mv_size_def at_def GetSegmentData_def)
qed

end
