(* ===== verification/KeyOrder.thy ===== *)
theory KeyOrder
  imports LuaDbKey "HOL-Library.List_Lexorder" "HOL-Library.Product_Lexorder"
begin

text \<open>
  The order \<open>CompareKeys\<close> (\<open>src/src/lmdb.c\<close>) puts on keys. Each segment is ranked by its
  bytes up to the first NUL and by its length; a key is ranked by the list of the ranks
  of its segments. On well-formed keys \<open>CompareKeys\<close> is the three-way comparison of these
  ranks in the lexicographic order, hence a total preorder whose equivalence ignores the
  segment types.
\<close>

subsection \<open>Ranks\<close>

definition cstr :: "bytes \<Rightarrow> bytes" where
  "cstr d = takeWhile (\<lambda>b. b \<noteq> 0) d"

definition seg_rank :: "segment \<Rightarrow> bytes \<times> nat" where
  "seg_rank s = (cstr (snd s), length (snd s))"

definition key_rank :: "segment list \<Rightarrow> (bytes \<times> nat) list" where
  "key_rank segs = map seg_rank segs"

definition cmp3 :: "'a::linorder \<Rightarrow> 'a \<Rightarrow> int" where
  "cmp3 x y = (if x < y then - 1 else if y < x then 1 else 0)"

lemma cstr_simps [simp]:
  "cstr [] = []" "cstr (b # d) = (if b = 0 then [] else b # cstr d)"
  by (simp_all add: cstr_def)

lemma key_rank_simps [simp]:
  "key_rank [] = []" "key_rank (s # segs) = seg_rank s # key_rank segs"
  "key_rank (xs @ ys) = key_rank xs @ key_rank ys" "length (key_rank xs) = length xs"
  by (simp_all add: key_rank_def)

lemma cstr_no_NUL: "0 \<notin> set d \<Longrightarrow> cstr d = d"
  by (induction d) auto

lemma byte_ge_0 [simp]: "\<not> b < (0 :: byte)"
  by (simp add: word_less_nat_alt)

lemma cmp3_self [simp]: "cmp3 x x = 0"
  by (simp add: cmp3_def)

lemma cmp3_Nil [simp]: "cmp3 [] (y # ys) = - 1" "cmp3 (x # xs) [] = 1"
  by (simp_all add: cmp3_def)

lemma cmp3_Cons:
  "cmp3 (x # xs) (y # ys) = (if cmp3 x y = 0 then cmp3 xs ys else cmp3 x y)"
  by (auto simp: cmp3_def)

lemma cmp3_eq_0 [simp]: "cmp3 x y = 0 \<longleftrightarrow> x = y"
  by (auto simp: cmp3_def)

lemma cmp3_le_0: "cmp3 x y \<le> 0 \<longleftrightarrow> x \<le> y"
  by (auto simp: cmp3_def)

lemma cmp3_less_0: "cmp3 x y < 0 \<longleftrightarrow> x < y"
  by (auto simp: cmp3_def)

lemma cmp3_swap: "cmp3 y x = - cmp3 x y"
  by (auto simp: cmp3_def)

subsection \<open>One segment\<close>

text \<open>\<open>strncmp\<close> over the shorter length, then the lengths: the body of the C loop.\<close>

lemma strncmp_segment:
  obtains c where "strncmp (xs @ r) (ys @ r') (min (length xs) (length ys)) = ret c"
    and "(if c \<noteq> 0 then c else if length ys < length xs then 1
          else if length xs < length ys then - 1 else 0)
       = cmp3 (cstr xs, length xs) (cstr ys, length ys)"
proof -
  have "\<exists>c. strncmp (xs @ r) (ys @ r') (min (length xs) (length ys)) = ret c
    \<and> (if c \<noteq> 0 then c else if length ys < length xs then 1
          else if length xs < length ys then - 1 else 0)
       = cmp3 (cstr xs, length xs) (cstr ys, length ys)"
  proof (induction xs arbitrary: ys)
    case Nil
    then show ?case by (cases ys) (auto simp: cmp3_def less_prod_def')
  next
    case (Cons x xs)
    show ?case
    proof (cases ys)
      case Nil
      then show ?thesis by (auto simp: cmp3_def)
    next
      case (Cons y ys')
      from Cons.IH[of ys'] obtain c where c:
        "strncmp (xs @ r) (ys' @ r') (min (length xs) (length ys')) = ret c"
        "(if c \<noteq> 0 then c else if length ys' < length xs then 1
            else if length xs < length ys' then - 1 else 0)
         = cmp3 (cstr xs, length xs) (cstr ys', length ys')" by blast
      have eq: "cmp3 (z # a, Suc n) (z # b, Suc m) = cmp3 (a, n) (b, m)" for z :: byte and a b n m
        by (auto simp: cmp3_def)
      show ?thesis
      proof (cases "x = y \<and> x \<noteq> 0")
        case True
        then have xy: "x = y" "y \<noteq> 0" by auto
        have "strncmp ((x # xs) @ r) (ys @ r') (min (length (x # xs)) (length ys)) = ret c"
          using xy Cons c(1) by simp
        moreover have "(if c \<noteq> 0 then c else if length ys < length (x # xs) then 1
            else if length (x # xs) < length ys then - 1 else 0)
          = cmp3 (cstr (x # xs), length (x # xs)) (cstr ys, length ys)"
          using xy Cons by (simp add: eq c(2)[symmetric])
        ultimately show ?thesis by blast
      next
        case False
        then consider "x < y" | "y < x" | "x = 0" "y = 0"
          by (metis linorder_less_linear)
        then show ?thesis
        proof cases
          case 1
          then have "y \<noteq> 0" by auto
          with 1 show ?thesis using Cons by (auto simp: cmp3_def)
        next
          case 2
          then have "x \<noteq> 0" "\<not> x < y" by auto
          with 2 show ?thesis using Cons by (auto simp: cmp3_def)
        next
          case 3
          then show ?thesis using Cons by (auto simp: cmp3_def)
        qed
      qed
    qed
  qed
  then show thesis using that by blast
qed

subsection \<open>Whole keys\<close>

lemma CompareKeys_loop_at:
  assumes "short_segs as" "short_segs bs" "length xs = length ys"
    and "length (xs @ encode_key as) < 2 ^ 63" and "length (ys @ encode_key bs) < 2 ^ 63"
  shows "CompareKeys_loop (xs @ encode_key as) (ys @ encode_key bs) (at xs) (at ys)
       = ret (cmp3 (key_rank as) (key_rank bs))"
  using assms
proof (induction as arbitrary: xs ys bs)
  case Nil
  have "unat (mv_size xs) = length xs" "unat (mv_size (ys @ encode_key bs)) = length (ys @ encode_key bs)"
    using Nil.prems unat_mv_size[of xs] unat_mv_size[of "ys @ encode_key bs"] by simp_all
  moreover have "\<not> at xs < mv_size xs" by (simp add: at_def mv_size_def)
  ultimately show ?case
    using Nil.prems by (cases bs) (auto simp: CompareKeys_loop.simps[of xs] word_less_nat_alt)
next
  case (Cons a as)
  show ?case
  proof (cases bs)
    case Nil
    have "unat (mv_size ys) = length ys" "unat (mv_size (xs @ encode_key (a # as))) = length (xs @ encode_key (a # as))"
      using Cons.prems Nil unat_mv_size[of ys] unat_mv_size[of "xs @ encode_key (a # as)"] by simp_all
    moreover have "\<not> at ys < mv_size ys" by (simp add: at_def mv_size_def)
    ultimately show ?thesis
      using Cons.prems Nil
      by (auto simp: CompareKeys_loop.simps[of "xs @ encode_seg a @ encode_key as"] word_less_nat_alt)
  next
    case bs: (Cons b bs')
    have less: "at xs < mv_size (xs @ encode_key (a # as))" "at ys < mv_size (ys @ encode_key (b # bs'))"
      using Cons.prems bs at_less_size[of xs "encode_key (a # as)"]
        at_less_size[of ys "encode_key (b # bs')"] by simp_all
    have eq_at: "at xs = at ys" using Cons.prems by (simp add: at_def)
    note rds = seg_at[of xs a "encode_key as"] seg_at[of ys b "encode_key bs'", folded eq_at]
    obtain c where c: "strncmp (snd a @ encode_key as) (snd b @ encode_key bs')
          (min (length (snd a)) (length (snd b))) = ret c"
      "(if c \<noteq> 0 then c else if length (snd b) < length (snd a) then 1
            else if length (snd a) < length (snd b) then - 1 else 0)
         = cmp3 (seg_rank a) (seg_rank b)"
      unfolding seg_rank_def by (rule strncmp_segment)
    have len: "length (snd a) \<le> 127" "length (snd b) \<le> 127" using Cons.prems bs by simp_all
    have un: "unat (of_nat (length (snd a)) :: size_t) = length (snd a)"
         "unat (of_nat (length (snd b)) :: size_t) = length (snd b)"
      using len by (auto intro!: unat_of_nat_size)
    have mn: "unat (if (of_nat (length (snd b)) :: size_t) \<le> of_nat (length (snd a))
        then of_nat (length (snd b)) :: size_t else of_nat (length (snd a)))
        = min (length (snd a)) (length (snd b))"
      by (simp add: word_le_nat_alt un)
    have eq_at2: "at (ys @ encode_seg a) = at (xs @ encode_seg a)"
        "length (snd b) = length (snd a) \<Longrightarrow> at (ys @ encode_seg b) = at (xs @ encode_seg a)"
      using Cons.prems by (simp_all add: at_def)
    have step: "CompareKeys_loop (xs @ encode_key (a # as)) (ys @ encode_key (b # bs')) (at xs) (at ys)
      = (if c \<noteq> 0 then ret c else if length (snd b) < length (snd a) then ret 1
         else if length (snd a) < length (snd b) then ret (- 1)
         else CompareKeys_loop ((xs @ encode_seg a) @ encode_key as) ((ys @ encode_seg b) @ encode_key bs')
                (at (xs @ encode_seg a)) (at (ys @ encode_seg b)))"
      using less rds Cons.prems bs c(1)
      by (subst CompareKeys_loop.simps) (simp add: mn eq_at word_less_nat_alt un eq_at2)
    show ?thesis
    proof (cases "cmp3 (seg_rank a) (seg_rank b) = 0")
      case True
      then have "c = 0" "length (snd a) = length (snd b)"
        using c(2) by (auto split: if_splits)
      moreover have "CompareKeys_loop ((xs @ encode_seg a) @ encode_key as) ((ys @ encode_seg b) @ encode_key bs')
                (at (xs @ encode_seg a)) (at (ys @ encode_seg b)) = ret (cmp3 (key_rank as) (key_rank bs'))"
        using Cons.prems bs calculation by (intro Cons.IH) simp_all
      ultimately show ?thesis using step True bs by (simp add: cmp3_Cons)
    next
      case False
      then show ?thesis using step c(2) bs by (auto simp: cmp3_Cons split: if_splits)
    qed
  qed
qed

lemma CompareKeys_encode:
  assumes "wf_segs as" and "wf_segs bs"
  shows "CompareKeys (encode_key as) (encode_key bs) = ret (cmp3 (key_rank as) (key_rank bs))"
  using CompareKeys_loop_at[of as bs "[]" "[]"] assms length_wf_key[OF assms(1)] length_wf_key[OF assms(2)]
  by (simp add: CompareKeys_def wf_segs_short)


text \<open>
  Two keys compare equal when they have the same segment data, whatever the types. Without
  NUL bytes in the data that is the only way.
\<close>

definition NUL_free :: "segment list \<Rightarrow> bool" where
  "NUL_free segs \<longleftrightarrow> (\<forall>s \<in> set segs. 0 \<notin> set (snd s))"

lemma NUL_free_simps [simp]:
  "NUL_free []" "NUL_free (s # segs) \<longleftrightarrow> 0 \<notin> set (snd s) \<and> NUL_free segs"
  "NUL_free (xs @ ys) \<longleftrightarrow> NUL_free xs \<and> NUL_free ys"
  by (auto simp: NUL_free_def)

lemma seg_rank_NUL_free: "0 \<notin> set (snd s) \<Longrightarrow> seg_rank s = (snd s, length (snd s))"
  by (simp add: seg_rank_def cstr_no_NUL)

lemma key_rank_eq_iff:
  assumes "NUL_free as" and "NUL_free bs"
  shows "key_rank as = key_rank bs \<longleftrightarrow> map snd as = map snd bs"
  using assms
proof (induction as arbitrary: bs)
  case (Cons a as)
  then show ?case by (cases bs) (auto simp: seg_rank_NUL_free)
qed (auto simp: key_rank_def)

subsection \<open>Incrementing the last byte\<close>

lemma list_less_snoc_same:
  "xs @ [b] < xs @ [c] \<longleftrightarrow> b < (c :: byte)"
  by (induction xs) auto

lemma byte_less_Suc: "b \<noteq> - 1 \<Longrightarrow> b < b + (1 :: byte)"
  using inc_less_eq_self_iff_eq[of b] by (auto simp: not_le)

text \<open>Between two strings of one length that differ by one in the last byte there is no third.\<close>

lemma list_le_snoc_Suc:
  fixes d e :: bytes
  assumes "length e = Suc (length d)" and "d @ [b] < e" and "b \<noteq> - 1"
  shows "d @ [b + 1] \<le> e"
  using assms
proof (induction d arbitrary: e)
  case Nil
  then obtain c where "e = [c]" by (auto simp: length_Suc_conv)
  with Nil show ?case using inc_le[of b c] by (auto simp: order_le_less)
next
  case (Cons x d)
  then obtain y e' where "e = y # e'" by (auto simp: length_Suc_conv)
  with Cons show ?case by auto
qed

lemma seg_rank_snoc_Suc:
  assumes "0 \<notin> set d" "b \<noteq> 0" "b \<noteq> - 1"
  shows "seg_rank (t, d @ [b]) < seg_rank (t', d @ [b + 1])"
proof -
  have "b + 1 \<noteq> 0" using assms(3) by (metis add.right_cancel add_eq_0_iff2)
  then have "seg_rank (t, d @ [b]) = (d @ [b], Suc (length d))"
      "seg_rank (t', d @ [b + 1]) = (d @ [b + 1], Suc (length d))"
    using assms by (simp_all add: seg_rank_NUL_free)
  then show ?thesis
    using list_less_snoc_same[of d b "b + 1"] byte_less_Suc[OF assms(3)] by simp
qed

lemma seg_rank_next:
  assumes "0 \<notin> set d" "b \<noteq> 0" "b \<noteq> - 1" and "0 \<notin> set e" "length e = Suc (length d)"
    and "seg_rank (t, d @ [b]) < seg_rank (t', e)"
  shows "seg_rank (t'', d @ [b + 1]) \<le> seg_rank (t', e)"
proof -
  have "b + 1 \<noteq> 0" using assms(3) by (metis add.right_cancel add_eq_0_iff2)
  then have "seg_rank (t, d @ [b]) = (d @ [b], Suc (length d))"
      "seg_rank (t'', d @ [b + 1]) = (d @ [b + 1], Suc (length d))"
      "seg_rank (t', e) = (e, Suc (length d))"
    using assms by (simp_all add: seg_rank_NUL_free)
  then show ?thesis
    using list_le_snoc_Suc[of e d b] assms by (auto simp: less_eq_prod_def)
qed

end
