(* ===== verification/Mdb.thy ===== *)
theory Mdb
  imports Prelude KeyOrder
begin

text \<open>
  The part of LMDB (\<open>src/src/deps/lmdb/mdb.c\<close>) that LuaDB reaches: \<open>mdb_get\<close>, \<open>mdb_put\<close>,
  \<open>mdb_del\<close> and the cursor operations \<open>MDB_SET\<close>, \<open>MDB_SET_RANGE\<close>, \<open>MDB_FIRST\<close> and
  \<open>MDB_NEXT\<close>, on a database whose B+tree is its root leaf page. LuaDB opens the main
  database without \<open>MDB_DUPSORT\<close>, so the duplicate, \<open>LEAF2\<close> and sub-database branches are
  dead; \<open>mc_top\<close> is 0 and the root has no siblings. The comparison function is the
  argument \<open>cmp\<close>, as \<open>md_cmp\<close> is a field of the C handle.

  The pages themselves are not modelled. What the page functions called by a write
  (\<open>mdb_page_spill\<close>, \<open>mdb_page_new\<close> or \<open>mdb_cursor_touch\<close>, \<open>mdb_ovpage_free\<close>, \<open>mdb_node_add\<close> or
  \<open>mdb_page_split\<close>, \<open>mdb_rebalance\<close>) do is an argument \<open>pager\<close> of the write: each succeeds or fails
  with one of LMDB's errors, a full map or transaction, no memory or a failed write among them, and some
  failures mark the transaction with \<open>MDB_TXN_ERROR\<close>. A node that was deleted before such a failure stays
  deleted.

  The locale \<open>key_order\<close> is what LMDB asks of a comparison function: a rank of the keys
  into a linear order whose three-way comparison it computes. The client lemmas, proved
  once in the locale, say that the page stays sorted and is a finite map from ranks to
  values.
\<close>

subsection \<open>State\<close>

type_synonym node = "bytes \<times> bytes"
type_synonym cmp_func = "bytes \<Rightarrow> bytes \<Rightarrow> int exec"

record mdb_cursor =
  mc_initialized :: bool \<comment> \<open>\<open>C_INITIALIZED\<close> in \<open>mc_flags\<close>\<close>
  mc_eof :: bool         \<comment> \<open>\<open>C_EOF\<close> in \<open>mc_flags\<close>\<close>
  mc_ki :: nat           \<comment> \<open>\<open>mc_ki[mc_top]\<close>\<close>

record mdb_txn =
  mt_nodes :: "node list"
  mt_rdonly :: bool      \<comment> \<open>\<open>MDB_TXN_RDONLY\<close>\<close>
  mt_error :: bool       \<comment> \<open>\<open>MDB_TXN_ERROR\<close>\<close>

datatype mdb_page_error =
  MDB_PAGE_NOTFOUND | MDB_CORRUPTED | MDB_MAP_FULL | MDB_TXN_FULL | MDB_CURSOR_FULL | MDB_PAGE_FULL | ENOMEM | EIO | ENOSPC

datatype mdb_rc =
  MDB_SUCCESS | MDB_NOTFOUND | MDB_BAD_VALSIZE | MDB_BAD_TXN | MDB_EINVAL | MDB_EACCES | MDB_PAGE_RC mdb_page_error

datatype mdb_cursor_op = MDB_SET | MDB_SET_RANGE | MDB_FIRST | MDB_NEXT

definition ENV_MAXKEY :: nat where "ENV_MAXKEY = 511"
definition MAXDATASIZE :: nat where "MAXDATASIZE = 0xFFFFFFFF"

text \<open>The outcomes of the page functions in one write: the error, and whether it marked the
  transaction. \<open>pg_big\<close> is \<open>F_BIGDATA\<close> of the node that is found, \<open>pg_in_place\<close> whether its overflow
  pages are large enough and writable.\<close>

type_synonym page_result = "mdb_page_error option \<times> bool"

record pager =
  pg_spill :: page_result
  pg_touch :: page_result
  pg_big :: bool
  pg_in_place :: bool
  pg_ovpage :: page_result
  pg_add :: "mdb_page_error option"

definition mdb_cursor_init :: mdb_cursor where
  "mdb_cursor_init = \<lparr>mc_initialized = False, mc_eof = False, mc_ki = 0\<rparr>"

subsection \<open>Searching the page\<close>

text \<open>The binary search of \<open>mdb_node_search\<close>: \<open>(i, rc)\<close> when the loop is left.\<close>

function mdb_node_search_loop ::
    "cmp_func \<Rightarrow> node list \<Rightarrow> bytes \<Rightarrow> int \<Rightarrow> int \<Rightarrow> int \<Rightarrow> int \<Rightarrow> (int \<times> int) exec" where
  "mdb_node_search_loop cmp nodes key low high i rc =
     (if low \<le> high then
        let i = (low + high) div 2
        in xbind (cmp key (fst (nodes ! nat i))) (\<lambda>rc.
           if rc = 0 then ret (i, rc)
           else if rc > 0 then mdb_node_search_loop cmp nodes key (i + 1) high i rc
           else mdb_node_search_loop cmp nodes key low (i - 1) i rc)
      else ret (i, rc))"
  by pat_completeness auto
termination
  by (relation "measure (\<lambda>(cmp, nodes, key, low, high, i, rc). nat (high + 1 - low))") auto

declare mdb_node_search_loop.simps [simp del]

text \<open>The index stored in \<open>mc_ki\<close> and \<open>*exactp\<close>.\<close>

definition mdb_node_search :: "cmp_func \<Rightarrow> node list \<Rightarrow> bytes \<Rightarrow> (nat \<times> bool) exec" where
  "mdb_node_search cmp nodes key =
     xbind (mdb_node_search_loop cmp nodes key 0 (int (length nodes) - 1) 0 0) (\<lambda>(i, rc).
     let i = (if rc > 0 then i + 1 else i)
     in ret (nat i, rc = 0 \<and> nodes \<noteq> []))"

subsection \<open>Cursors\<close>

definition cursor_set1 :: "mdb_cursor \<Rightarrow> nat \<Rightarrow> (mdb_rc \<times> mdb_cursor) exec" where
  "cursor_set1 mc i = ret (MDB_SUCCESS, mc\<lparr>mc_initialized := True, mc_eof := False, mc_ki := i\<rparr>)"

definition cursor_set2 ::
    "cmp_func \<Rightarrow> node list \<Rightarrow> mdb_cursor \<Rightarrow> bytes \<Rightarrow> bool \<Rightarrow> (mdb_rc \<times> mdb_cursor) exec" where
  "cursor_set2 cmp nodes mc key exactp =
     xbind (mdb_node_search cmp nodes key) (\<lambda>(i, exact).
     if exactp \<and> \<not> exact then ret (MDB_NOTFOUND, mc\<lparr>mc_ki := i\<rparr>)
     else if length nodes \<le> i then ret (MDB_NOTFOUND, mc\<lparr>mc_ki := i\<rparr>)
     else cursor_set1 mc i)"

text \<open>
  \<open>exactp\<close> is true for \<open>MDB_SET\<close>, which passes a pointer, and false for \<open>MDB_SET_RANGE\<close>,
  which passes \<open>NULL\<close>. On success the node is the one at \<open>mc_ki\<close>.
\<close>

definition mdb_cursor_set ::
    "cmp_func \<Rightarrow> node list \<Rightarrow> mdb_cursor \<Rightarrow> bytes \<Rightarrow> bool \<Rightarrow> (mdb_rc \<times> mdb_cursor) exec" where
  "mdb_cursor_set cmp nodes mc key exactp =
     (let nkeys = length nodes
      in if key = [] then ret (MDB_BAD_VALSIZE, mc)
      else if mc_initialized mc then
        if nkeys = 0 then ret (MDB_NOTFOUND, mc\<lparr>mc_ki := 0\<rparr>)
        else
          xbind (cmp key (fst (nodes ! 0))) (\<lambda>rc.
          if rc = 0 then cursor_set1 mc 0
          else if rc > 0 then
            (if nkeys > 1 then
               xbind (cmp key (fst (nodes ! (nkeys - 1)))) (\<lambda>rc.
               if rc = 0 then cursor_set1 mc (nkeys - 1)
               else if rc < 0 then
                 (if mc_ki mc < nkeys then
                    xbind (cmp key (fst (nodes ! mc_ki mc))) (\<lambda>rc.
                    if rc = 0 then cursor_set1 mc (mc_ki mc)
                    else cursor_set2 cmp nodes mc key exactp)
                  else cursor_set2 cmp nodes mc key exactp)
               else ret (MDB_NOTFOUND, mc\<lparr>mc_ki := nkeys\<rparr>))
             else ret (MDB_NOTFOUND, mc\<lparr>mc_ki := nkeys\<rparr>))
          else if \<not> exactp then cursor_set1 mc 0
          else ret (MDB_NOTFOUND, mc\<lparr>mc_ki := 0\<rparr>))
      else if nkeys = 0 then ret (MDB_NOTFOUND, mc)
      else cursor_set2 cmp nodes (mc\<lparr>mc_initialized := True, mc_eof := False\<rparr>) key exactp)"

definition mdb_cursor_first :: "node list \<Rightarrow> mdb_cursor \<Rightarrow> mdb_rc \<times> mdb_cursor" where
  "mdb_cursor_first nodes mc =
     (if nodes = [] then (MDB_NOTFOUND, mc)
      else (MDB_SUCCESS, mc\<lparr>mc_initialized := True, mc_eof := False, mc_ki := 0\<rparr>))"

definition mdb_cursor_next :: "node list \<Rightarrow> mdb_cursor \<Rightarrow> mdb_rc \<times> mdb_cursor" where
  "mdb_cursor_next nodes mc =
     (if mc_eof mc then (MDB_NOTFOUND, mc)
      else if length nodes \<le> mc_ki mc + 1 then (MDB_NOTFOUND, mc\<lparr>mc_eof := True\<rparr>)
      else (MDB_SUCCESS, mc\<lparr>mc_ki := mc_ki mc + 1\<rparr>))"

text \<open>
  \<open>mdb_cursor_get\<close>: the return code, the cursor, \<open>*key\<close> and, on success, the node whose
  value is \<open>*data\<close>. \<open>MDB_SET\<close> leaves \<open>*key\<close> alone, the others store the node's key.
\<close>

definition mdb_cursor_get ::
    "cmp_func \<Rightarrow> mdb_txn \<Rightarrow> mdb_cursor \<Rightarrow> bytes \<Rightarrow> mdb_cursor_op
      \<Rightarrow> (mdb_rc \<times> mdb_cursor \<times> bytes \<times> node option) exec" where
  "mdb_cursor_get cmp txn mc key op =
     (if mt_error txn then ret (MDB_BAD_TXN, mc, key, None)
      else
        let nodes = mt_nodes txn;
            done = (\<lambda>newkey (rc, mc').
              if rc = MDB_SUCCESS
              then ret (rc, mc', if newkey then fst (nodes ! mc_ki mc') else key,
                        Some (nodes ! mc_ki mc'))
              else ret (rc, mc', key, None))
        in case op of
             MDB_SET \<Rightarrow> xbind (mdb_cursor_set cmp nodes mc key True) (done False)
           | MDB_SET_RANGE \<Rightarrow> xbind (mdb_cursor_set cmp nodes mc key False) (done True)
           | MDB_FIRST \<Rightarrow> done True (mdb_cursor_first nodes mc)
           | MDB_NEXT \<Rightarrow>
               done True (if mc_initialized mc then mdb_cursor_next nodes mc
                          else mdb_cursor_first nodes mc))"

subsection \<open>Point operations\<close>

text \<open>The transaction pointer is \<open>NULL\<close> (\<open>None\<close>) after a commit or an abort.\<close>

definition mdb_get :: "cmp_func \<Rightarrow> mdb_txn option \<Rightarrow> bytes \<Rightarrow> (mdb_rc \<times> bytes option) exec" where
  "mdb_get cmp txn key =
     (case txn of
        None \<Rightarrow> ret (MDB_EINVAL, None)
      | Some txn \<Rightarrow>
          if mt_error txn then ret (MDB_BAD_TXN, None)
          else xbind (mdb_cursor_set cmp (mt_nodes txn) mdb_cursor_init key True) (\<lambda>(rc, mc).
               ret (rc, if rc = MDB_SUCCESS then Some (snd (mt_nodes txn ! mc_ki mc)) else None)))"

definition pager_ok :: "pager \<Rightarrow> bool" where
  "pager_ok P \<longleftrightarrow> fst (pg_spill P) = None \<and> fst (pg_touch P) = None \<and> fst (pg_ovpage P) = None \<and> pg_add P = None"

text \<open>Go on after a page function that succeeded, return its error otherwise.\<close>

definition page_step ::
    "page_result \<Rightarrow> mdb_txn \<Rightarrow> (mdb_rc \<times> mdb_txn option) exec \<Rightarrow> (mdb_rc \<times> mdb_txn option) exec" where
  "page_step r t k =
     (case fst r of
        None \<Rightarrow> k
      | Some e \<Rightarrow> ret (MDB_PAGE_RC e, Some (if snd r then t\<lparr>mt_error := True\<rparr> else t)))"

text \<open>The last step of a write: the nodes after it, or those a failure leaves with the transaction marked.\<close>

definition page_finish ::
    "mdb_page_error option \<Rightarrow> mdb_txn \<Rightarrow> node list \<Rightarrow> node list \<Rightarrow> mdb_rc \<times> mdb_txn option" where
  "page_finish r t nodes failed =
     (case r of
        None \<Rightarrow> (MDB_SUCCESS, Some (t\<lparr>mt_nodes := nodes\<rparr>))
      | Some e \<Rightarrow> (MDB_PAGE_RC e, Some (t\<lparr>mt_nodes := failed, mt_error := True\<rparr>)))"

text \<open>
  \<open>mdb_put\<close> without flags and \<open>mdb_cursor_put\<close> below it. A value of the old value's size is copied over it and the old
  key bytes stay, as they do when the value is written into the old value's overflow pages; otherwise the node is
  deleted and added again with the new key bytes.
\<close>

definition mdb_cursor_put ::
    "pager \<Rightarrow> cmp_func \<Rightarrow> mdb_txn \<Rightarrow> bytes \<Rightarrow> bytes \<Rightarrow> (mdb_rc \<times> mdb_txn option) exec" where
  "mdb_cursor_put P cmp t key data =
     (if mt_rdonly t then ret (MDB_EACCES, Some t)
      else if mt_error t then ret (MDB_BAD_TXN, Some t)
      else if key = [] \<or> ENV_MAXKEY < length key then ret (MDB_BAD_VALSIZE, Some t)
      else if MAXDATASIZE < length data then ret (MDB_BAD_VALSIZE, Some t)
      else
        xbind (if mt_nodes t = [] then ret (MDB_NOTFOUND, mdb_cursor_init)
               else mdb_cursor_set cmp (mt_nodes t) mdb_cursor_init key True) (\<lambda>(rc, mc).
        if rc \<noteq> MDB_SUCCESS \<and> rc \<noteq> MDB_NOTFOUND then ret (rc, Some t)
        else
          page_step (pg_spill P) t (page_step (pg_touch P) t (
          let ns = mt_nodes t; i = mc_ki mc;
              replace = page_finish (pg_add P) t (ns[i := (key, data)]) (take i ns @ drop (i + 1) ns)
          in if rc = MDB_NOTFOUND then ret (page_finish (pg_add P) t (take i ns @ (key, data) # drop i ns) ns)
             else if pg_big P then
               page_step (pg_ovpage P) t (
               if pg_in_place P then ret (MDB_SUCCESS, Some (t\<lparr>mt_nodes := ns[i := (fst (ns ! i), data)]\<rparr>))
               else ret replace)
             else if length data = length (snd (ns ! i)) then
               ret (MDB_SUCCESS, Some (t\<lparr>mt_nodes := ns[i := (fst (ns ! i), data)]\<rparr>))
             else ret replace))))"

definition mdb_put ::
    "pager \<Rightarrow> cmp_func \<Rightarrow> mdb_txn option \<Rightarrow> bytes \<Rightarrow> bytes \<Rightarrow> (mdb_rc \<times> mdb_txn option) exec" where
  "mdb_put P cmp txn key data =
     (case txn of None \<Rightarrow> ret (MDB_EINVAL, txn) | Some t \<Rightarrow> mdb_cursor_put P cmp t key data)"

text \<open>\<open>mdb_cursor_del\<close> on the node \<open>mdb_del0\<close> found. An error in freeing overflow pages marks the
  transaction.\<close>

definition mdb_cursor_del :: "pager \<Rightarrow> mdb_txn \<Rightarrow> mdb_cursor \<Rightarrow> mdb_rc \<times> mdb_txn option" where
  "mdb_cursor_del P t mc =
     (let del = take (mc_ki mc) (mt_nodes t) @ drop (mc_ki mc + 1) (mt_nodes t)
      in case fst (pg_ovpage P) of
           Some e \<Rightarrow> if pg_big P then (MDB_PAGE_RC e, Some (t\<lparr>mt_error := True\<rparr>)) else page_finish (pg_add P) t del del
         | None \<Rightarrow> page_finish (pg_add P) t del del)"

definition mdb_del :: "pager \<Rightarrow> cmp_func \<Rightarrow> mdb_txn option \<Rightarrow> bytes \<Rightarrow> (mdb_rc \<times> mdb_txn option) exec" where
  "mdb_del P cmp txn key =
     (case txn of
        None \<Rightarrow> ret (MDB_EINVAL, txn)
      | Some t \<Rightarrow>
          if mt_rdonly t then ret (MDB_EACCES, txn)
          else if mt_error t then ret (MDB_BAD_TXN, txn)
          else
            xbind (mdb_cursor_set cmp (mt_nodes t) mdb_cursor_init key True) (\<lambda>(rc, mc).
            if rc = MDB_SUCCESS then
              page_step (pg_spill P) t (page_step (pg_touch P) t (ret (mdb_cursor_del P t mc)))
            else ret (rc, txn)))"

subsection \<open>The page as a sorted map\<close>

definition page_ok :: "(bytes \<Rightarrow> bool) \<Rightarrow> (bytes \<Rightarrow> 'r::linorder) \<Rightarrow> node list \<Rightarrow> bool" where
  "page_ok valid rank nodes \<longleftrightarrow> (\<forall>n \<in> set nodes. valid (fst n))
     \<and> sorted_wrt (\<lambda>m n. rank (fst m) < rank (fst n)) nodes"

text \<open>The index of the first node whose key is not below \<open>key\<close>.\<close>

definition page_index :: "(bytes \<Rightarrow> 'r::linorder) \<Rightarrow> node list \<Rightarrow> bytes \<Rightarrow> nat" where
  "page_index rank nodes key = length (takeWhile (\<lambda>n. rank (fst n) < rank key) nodes)"

definition page_hit :: "(bytes \<Rightarrow> 'r::linorder) \<Rightarrow> node list \<Rightarrow> bytes \<Rightarrow> bool" where
  "page_hit rank nodes key \<longleftrightarrow> page_index rank nodes key < length nodes
     \<and> rank (fst (nodes ! page_index rank nodes key)) = rank key"

definition page_map :: "(bytes \<Rightarrow> 'r::linorder) \<Rightarrow> node list \<Rightarrow> 'r \<rightharpoonup> bytes" where
  "page_map rank nodes = map_of (map (\<lambda>(k, v). (rank k, v)) nodes)"

lemma page_index_le: "page_index rank nodes key \<le> length nodes"
  by (simp add: page_index_def length_takeWhile_le)

lemma page_index_below: "j < page_index rank nodes key \<Longrightarrow> rank (fst (nodes ! j)) < rank key"
proof -
  let ?P = "\<lambda>n. rank (fst n) < rank key"
  assume "j < page_index rank nodes key"
  then have j: "j < length (takeWhile ?P nodes)" by (simp add: page_index_def)
  from set_takeWhileD[OF nth_mem[OF j]] takeWhile_nth[OF j] show ?thesis by simp
qed

lemma page_ok_nth_less:
  "page_ok valid rank nodes \<Longrightarrow> i < j \<Longrightarrow> j < length nodes
    \<Longrightarrow> rank (fst (nodes ! i)) < rank (fst (nodes ! j))"
  by (simp add: page_ok_def sorted_wrt_iff_nth_less)

lemma page_ok_le:
  "page_ok valid rank nodes \<Longrightarrow> i \<le> j \<Longrightarrow> j < length nodes
    \<Longrightarrow> rank (fst (nodes ! i)) \<le> rank (fst (nodes ! j))"
  using page_ok_nth_less[of valid rank nodes i j] by (cases "i = j") auto

lemma page_ok_valid: "page_ok valid rank nodes \<Longrightarrow> i < length nodes \<Longrightarrow> valid (fst (nodes ! i))"
  by (simp add: page_ok_def)

lemma page_index_above:
  assumes "page_ok valid rank nodes" and "page_index rank nodes key \<le> j" and "j < length nodes"
  shows "rank key \<le> rank (fst (nodes ! j))"
proof -
  let ?i = "page_index rank nodes key"
  have "\<not> rank (fst (nodes ! ?i)) < rank key"
    using assms(2,3) unfolding page_index_def
    by (metis (no_types, lifting) le_less_trans nth_length_takeWhile)
  then show ?thesis
    using assms page_ok_nth_less[OF assms(1), of ?i j] by (cases "?i = j") (auto simp: not_less)
qed

lemma page_index_unique:
  assumes "i \<le> length nodes" and "\<And>j. j < i \<Longrightarrow> rank (fst (nodes ! j)) < rank key"
    and "i < length nodes \<Longrightarrow> rank key \<le> rank (fst (nodes ! i))"
  shows "page_index rank nodes key = i"
proof (rule ccontr)
  let ?p = "page_index rank nodes key"
  assume "?p \<noteq> i"
  then consider "?p < i" | "i < ?p" by linarith
  then show False
  proof cases
    case 1
    then have "\<not> rank (fst (nodes ! ?p)) < rank key"
      using assms(1) nth_length_takeWhile[of "\<lambda>n. rank (fst n) < rank key" nodes]
      by (simp add: page_index_def)
    with assms(2) 1 show False by blast
  next
    case 2
    then show False
      using page_index_below[OF 2] page_index_le[of rank nodes key] assms(3) by force
  qed
qed

lemma page_map_Some_iff:
  assumes "page_ok valid rank nodes"
  shows "page_map rank nodes r = Some v \<longleftrightarrow> (\<exists>n \<in> set nodes. rank (fst n) = r \<and> snd n = v)"
proof -
  have eq: "map fst (map (\<lambda>(k, v). (rank k, v)) nodes) = map (\<lambda>n. rank (fst n)) nodes"
    by (simp add: case_prod_beta comp_def)
  have "sorted_wrt (<) (map (\<lambda>n. rank (fst n)) nodes)"
    using assms by (simp add: page_ok_def sorted_wrt_map)
  then have "distinct (map fst (map (\<lambda>(k, v). (rank k, v)) nodes))"
    unfolding eq by (simp add: strict_sorted_iff)
  then have "page_map rank nodes r = Some v \<longleftrightarrow> (r, v) \<in> set (map (\<lambda>(k, v). (rank k, v)) nodes)"
    unfolding page_map_def by (rule map_of_eq_Some_iff)
  then show ?thesis by force
qed

lemma map_eqI: "(\<And>r v. f r = Some v \<longleftrightarrow> g r = Some v) \<Longrightarrow> f = g"
  by (rule ext) (metis option.exhaust)

text \<open>The page around the index of a key: what is below, the hit if there is one, what is above.\<close>

lemma page_split:
  fixes key :: bytes and rank :: "bytes \<Rightarrow> 'r::linorder"
  assumes "page_ok valid rank nodes"
  defines "i \<equiv> page_index rank nodes key"
  defines "rest \<equiv> drop (if page_hit rank nodes key then Suc i else i) nodes"
  shows "nodes = take i nodes @ (if page_hit rank nodes key then [nodes ! i] else []) @ rest"
    and "\<forall>n \<in> set (take i nodes). rank (fst n) < rank key"
    and "\<forall>n \<in> set rest. rank key < rank (fst n)"
    and "page_hit rank nodes key \<Longrightarrow> rank (fst (nodes ! i)) = rank key"
proof -
  show "nodes = take i nodes @ (if page_hit rank nodes key then [nodes ! i] else []) @ rest"
    using id_take_nth_drop[of i nodes] by (auto simp: rest_def page_hit_def i_def)
  show "\<forall>n \<in> set (take i nodes). rank (fst n) < rank key"
    using page_index_below[of _ rank nodes key] by (fastforce simp: in_set_conv_nth i_def)
  show hit: "rank (fst (nodes ! i)) = rank key" if "page_hit rank nodes key"
    using that by (simp add: page_hit_def i_def)
  have "rank key < rank (fst (nodes ! j))"
    if "(if page_hit rank nodes key then Suc i else i) \<le> j" "j < length nodes" for j
  proof (cases "page_hit rank nodes key")
    case True
    then show ?thesis using that hit page_ok_nth_less[OF assms(1), of i j] by simp
  next
    case False
    have "rank key \<le> rank (fst (nodes ! j))" "rank key \<le> rank (fst (nodes ! i))"
      using that False page_index_above[OF assms(1), of key] by (simp_all add: i_def)
    moreover have "rank key \<noteq> rank (fst (nodes ! i))"
      using False that by (auto simp: page_hit_def i_def)
    ultimately show ?thesis
      using that False page_ok_le[OF assms(1), of i j] by auto
  qed
  moreover have "\<exists>j \<ge> if page_hit rank nodes key then Suc i else i. j < length nodes \<and> n = nodes ! j"
    if n: "n \<in> set rest" for n
  proof -
    from n obtain l where "l < length rest" "n = rest ! l" by (metis in_set_conv_nth)
    then show ?thesis
      by (intro exI[of _ "(if page_hit rank nodes key then Suc i else i) + l"]) (auto simp: rest_def)
  qed
  ultimately show "\<forall>n \<in> set rest. rank key < rank (fst n)" by blast
qed

lemma page_ok_append:
  "page_ok valid rank (xs @ ys) \<longleftrightarrow> page_ok valid rank xs \<and> page_ok valid rank ys
     \<and> (\<forall>x \<in> set xs. \<forall>y \<in> set ys. rank (fst x) < rank (fst y))"
  by (auto simp: page_ok_def sorted_wrt_append)

lemma page_ok_Cons:
  "page_ok valid rank (x # ys) \<longleftrightarrow> valid (fst x) \<and> page_ok valid rank ys
     \<and> (\<forall>y \<in> set ys. rank (fst x) < rank (fst y))"
  by (auto simp: page_ok_def)

lemma page_ok_Nil [simp]: "page_ok valid rank []"
  by (simp add: page_ok_def)

text \<open>Storing under a rank, and removing a rank.\<close>

lemma page_store:
  fixes key d :: bytes and rank :: "bytes \<Rightarrow> 'r::linorder"
  assumes ok: "page_ok valid rank nodes" and "valid k" and "rank k = rank key"
  defines "i \<equiv> page_index rank nodes key"
  defines "new \<equiv> take i nodes @ (k, d) # drop (if page_hit rank nodes key then Suc i else i) nodes"
  shows "page_ok valid rank new" and "page_map rank new = (page_map rank nodes)(rank key \<mapsto> d)"
proof -
  note sp = page_split[OF ok, of key, folded i_def]
  let ?rest = "drop (if page_hit rank nodes key then Suc i else i) nodes"
  have "page_ok valid rank (take i nodes @ (if page_hit rank nodes key then [nodes ! i] else []) @ ?rest)"
    using ok sp(1) by metis
  then have parts: "page_ok valid rank (take i nodes)" "page_ok valid rank ?rest"
      "\<forall>x \<in> set (take i nodes). \<forall>y \<in> set ?rest. rank (fst x) < rank (fst y)"
    by (simp_all add: page_ok_append)
  show new: "page_ok valid rank new"
    using parts sp(2,3) assms(2,3) by (auto simp: new_def page_ok_append page_ok_Cons)
  have "set nodes = set (take i nodes) \<union> (if page_hit rank nodes key then {nodes ! i} else {})
      \<union> set (drop (if page_hit rank nodes key then Suc i else i) nodes)"
    using arg_cong[OF sp(1), of set] by auto
  then have "(\<exists>n \<in> set new. rank (fst n) = r \<and> snd n = v)
      \<longleftrightarrow> (if r = rank key then v = d else \<exists>n \<in> set nodes. rank (fst n) = r \<and> snd n = v)" for r v
  proof (cases "r = rank key")
    case True
    then show ?thesis using sp(2,3) assms(3) by (fastforce simp: new_def)
  next
    case False
    then show ?thesis using sp(4) \<open>set nodes = _\<close> assms(3) by (auto simp: new_def split: if_splits)
  qed
  then show "page_map rank new = (page_map rank nodes)(rank key \<mapsto> d)"
    by (intro map_eqI) (auto simp: page_map_Some_iff[OF new] page_map_Some_iff[OF ok])
qed

lemma page_delete:
  fixes key :: bytes and rank :: "bytes \<Rightarrow> 'r::linorder"
  assumes ok: "page_ok valid rank nodes" and hit: "page_hit rank nodes key"
  defines "i \<equiv> page_index rank nodes key"
  defines "new \<equiv> take i nodes @ drop (Suc i) nodes"
  shows "page_ok valid rank new" and "page_map rank new = (page_map rank nodes)(rank key := None)"
proof -
  note sp = page_split[OF ok, of key, folded i_def]
  have "i < length nodes" using hit by (simp add: page_hit_def i_def)
  then have "page_ok valid rank (take i nodes @ [nodes ! i] @ drop (Suc i) nodes)"
    using ok by (simp add: id_take_nth_drop[symmetric])
  then have parts: "page_ok valid rank (take i nodes)" "page_ok valid rank (drop (Suc i) nodes)"
      "\<forall>x \<in> set (take i nodes). \<forall>y \<in> set (drop (Suc i) nodes). rank (fst x) < rank (fst y)"
    by (simp_all add: page_ok_append page_ok_Cons)
  show new: "page_ok valid rank new"
    using parts by (auto simp: new_def page_ok_append)
  have "set nodes = set (take i nodes) \<union> {nodes ! i} \<union> set (drop (Suc i) nodes)"
    using hit arg_cong[OF sp(1), of set] by auto
  then have "(\<exists>n \<in> set new. rank (fst n) = r \<and> snd n = v)
      \<longleftrightarrow> r \<noteq> rank key \<and> (\<exists>n \<in> set nodes. rank (fst n) = r \<and> snd n = v)" for r v
  proof (cases "r = rank key")
    case True
    then show ?thesis using sp(2,3) hit by (fastforce simp: new_def)
  next
    case False
    then show ?thesis using sp(4)[OF hit] \<open>set nodes = _\<close> by (auto simp: new_def)
  qed
  then show "page_map rank new = (page_map rank nodes)(rank key := None)"
    by (intro map_eqI) (auto simp: page_map_Some_iff[OF new] page_map_Some_iff[OF ok])
qed

lemma page_map_rank:
  assumes ok: "page_ok valid rank nodes"
  shows "page_map rank nodes (rank key)
    = (if page_hit rank nodes key then Some (snd (nodes ! page_index rank nodes key)) else None)"
proof (cases "page_hit rank nodes key")
  case True
  then have "nodes ! page_index rank nodes key \<in> set nodes"
      "rank (fst (nodes ! page_index rank nodes key)) = rank key"
    by (auto simp: page_hit_def)
  then show ?thesis using True page_map_Some_iff[OF ok] by fastforce
next
  case False
  have "page_map rank nodes (rank key) \<noteq> Some v" for v
  proof -
    note sp = page_split[OF ok, of key]
    have "set nodes = set (take (page_index rank nodes key) nodes)
        \<union> set (drop (page_index rank nodes key) nodes)"
      by (metis append_take_drop_id set_append)
    then have "rank (fst n) \<noteq> rank key" if "n \<in> set nodes" for n
      using that sp(2,3) False by auto
    then show ?thesis unfolding page_map_Some_iff[OF ok] by blast
  qed
  then show ?thesis using False by auto
qed

subsection \<open>The interface of a comparison function\<close>

locale key_order =
  fixes cmp :: cmp_func
    and valid :: "bytes \<Rightarrow> bool"
    and rank :: "bytes \<Rightarrow> 'r::linorder"
  assumes cmp_rank: "valid a \<Longrightarrow> valid b \<Longrightarrow> cmp a b = ret (cmp3 (rank a) (rank b))"
begin

lemma node_search_loop:
  assumes "page_ok valid rank nodes" and "valid key"
    and "0 \<le> low" and "high < int (length nodes)" and "low \<le> high + 1"
    and "\<And>j. j < nat low \<Longrightarrow> rank (fst (nodes ! j)) < rank key"
    and "\<And>j. high < int j \<Longrightarrow> j < length nodes \<Longrightarrow> rank key < rank (fst (nodes ! j))"
    and "low \<le> high \<or> rc \<noteq> 0" and "rc > 0 \<Longrightarrow> i = low - 1" and "rc < 0 \<Longrightarrow> i = high + 1"
  shows "\<exists>i' rc'. mdb_node_search_loop cmp nodes key low high i rc = ret (i', rc')
    \<and> nat (if rc' > 0 then i' + 1 else i') = page_index rank nodes key
    \<and> (rc' = 0 \<longleftrightarrow> page_hit rank nodes key)"
  using assms
proof (induction "nat (high + 1 - low)" arbitrary: low high i rc rule: less_induct)
  case less
  show ?case
  proof (cases "low \<le> high")
    case True
    define m where "m = (low + high) div 2"
    have m: "low \<le> m" "m \<le> high" using True by (auto simp: m_def)
    then have mn: "nat m < length nodes" "0 \<le> m" using less.prems(3,4) by auto
    define c where "c = cmp3 (rank key) (rank (fst (nodes ! nat m)))"
    have c: "cmp key (fst (nodes ! nat m)) = ret c"
      unfolding c_def using cmp_rank[OF less.prems(2) page_ok_valid[OF less.prems(1) mn(1)]] .
    have unf: "mdb_node_search_loop cmp nodes key low high i rc
      = (if c = 0 then ret (m, c)
         else if c > 0 then mdb_node_search_loop cmp nodes key (m + 1) high m c
         else mdb_node_search_loop cmp nodes key low (m - 1) m c)"
      using True c by (subst mdb_node_search_loop.simps) (simp add: m_def[symmetric])
    consider (eq) "rank key = rank (fst (nodes ! nat m))" | (lt) "rank key < rank (fst (nodes ! nat m))"
      | (gt) "rank (fst (nodes ! nat m)) < rank key" by (meson linorder_cases)
    then show ?thesis
    proof cases
      case eq
      have "page_index rank nodes key = nat m"
        using mn eq page_ok_nth_less[OF less.prems(1) _ mn(1)] by (intro page_index_unique) auto
      with eq mn unf show ?thesis by (simp add: c_def page_hit_def)
    next
      case lt
      have "c = - 1" using lt by (simp add: c_def cmp3_def)
      moreover have "\<exists>i' rc'. mdb_node_search_loop cmp nodes key low (m - 1) m c = ret (i', rc')
        \<and> nat (if rc' > 0 then i' + 1 else i') = page_index rank nodes key
        \<and> (rc' = 0 \<longleftrightarrow> page_hit rank nodes key)"
      proof (rule less.hyps)
        fix j assume "m - 1 < int j" "j < length nodes"
        then show "rank key < rank (fst (nodes ! j))"
          using lt page_ok_le[OF less.prems(1), of "nat m" j] mn by (auto intro: less_le_trans)
      qed (use less.prems m calculation in auto)
      ultimately show ?thesis using unf by simp
    next
      case gt
      have "c = 1" using gt by (simp add: c_def cmp3_def)
      moreover have "\<exists>i' rc'. mdb_node_search_loop cmp nodes key (m + 1) high m c = ret (i', rc')
        \<and> nat (if rc' > 0 then i' + 1 else i') = page_index rank nodes key
        \<and> (rc' = 0 \<longleftrightarrow> page_hit rank nodes key)"
      proof (rule less.hyps)
        fix j assume "j < nat (m + 1)"
        then show "rank (fst (nodes ! j)) < rank key"
          using gt mn by (intro le_less_trans[OF page_ok_le[OF less.prems(1), of j "nat m"]]) auto
      qed (use less.prems m calculation in auto)
      ultimately show ?thesis using unf by simp
    qed
  next
    case False
    then have hl: "high = low - 1" and rc: "rc \<noteq> 0" using less.prems by auto
    have idx: "page_index rank nodes key = nat low"
      using less.prems hl by (intro page_index_unique) (auto intro!: less_imp_le)
    have "\<not> page_hit rank nodes key"
      using less.prems(7)[of "nat low"] less.prems(3) hl idx by (auto simp: page_hit_def)
    then show ?thesis
      using False less.prems hl rc idx by (subst mdb_node_search_loop.simps) auto
  qed
qed

lemma node_search:
  assumes "page_ok valid rank nodes" and "valid key"
  shows "mdb_node_search cmp nodes key = ret (page_index rank nodes key, page_hit rank nodes key)"
proof (cases "nodes = []")
  case True
  then show ?thesis
    by (simp add: mdb_node_search_def mdb_node_search_loop.simps page_index_def page_hit_def)
next
  case False
  from node_search_loop[OF assms, of 0 "int (length nodes) - 1" 0 0] False
  show ?thesis
    by (auto simp: mdb_node_search_def Let_def)
qed

lemma cursor_set2:
  assumes "page_ok valid rank nodes" and "valid key"
  shows "cursor_set2 cmp nodes mc key exactp
       = (let i = page_index rank nodes key
          in if (if exactp then page_hit rank nodes key else i < length nodes)
             then cursor_set1 mc i
             else ret (MDB_NOTFOUND, mc\<lparr>mc_ki := i\<rparr>))"
  using node_search[OF assms] by (auto simp: cursor_set2_def Let_def page_hit_def)

text \<open>
  Wherever the cursor stands, \<open>MDB_SET\<close> and \<open>MDB_SET_RANGE\<close> leave it on the first node not
  below the key, and find it when it is there and, for \<open>MDB_SET\<close>, has the key's rank.
\<close>

lemma cursor_set:
  assumes ok: "page_ok valid rank nodes" and v: "valid key" and "key \<noteq> []" and ne: "nodes \<noteq> []"
  shows "\<exists>mc'. mdb_cursor_set cmp nodes mc key exactp
       = ret (if (if exactp then page_hit rank nodes key else page_index rank nodes key < length nodes)
              then MDB_SUCCESS else MDB_NOTFOUND, mc')
     \<and> mc_ki mc' = page_index rank nodes key
     \<and> mc_initialized mc' \<and> (\<not> mc_initialized mc \<longrightarrow> \<not> mc_eof mc')
     \<and> ((if exactp then page_hit rank nodes key else page_index rank nodes key < length nodes)
         \<longrightarrow> \<not> mc_eof mc')"
proof -
  let ?n = "length nodes" and ?i = "page_index rank nodes key"
  have cmpn: "cmp key (fst (nodes ! j)) = ret (cmp3 (rank key) (rank (fst (nodes ! j))))"
    if "j < ?n" for j
    using cmp_rank[OF v page_ok_valid[OF ok that]] .
  have at0: "rank key \<le> rank (fst (nodes ! 0)) \<Longrightarrow> ?i = 0"
    using ne by (intro page_index_unique) auto
  have hit: "j < ?n \<Longrightarrow> rank key = rank (fst (nodes ! j)) \<Longrightarrow> ?i = j" for j
    using page_ok_nth_less[OF ok] by (intro page_index_unique) auto
  have end': "rank (fst (nodes ! (?n - 1))) < rank key \<Longrightarrow> ?i = ?n"
  proof (rule page_index_unique)
    fix j assume "rank (fst (nodes ! (?n - 1))) < rank key" "j < ?n"
    then show "rank (fst (nodes ! j)) < rank key"
      by (intro le_less_trans[OF page_ok_le[OF ok, of j "?n - 1"]]) auto
  qed auto
  show ?thesis
  proof (cases "mc_initialized mc")
    case False
    then show ?thesis
      using assms cursor_set2[OF ok v, of "mc\<lparr>mc_initialized := True, mc_eof := False\<rparr>" exactp]
      by (auto simp: mdb_cursor_set_def cursor_set1_def Let_def)
  next
    case True
    note set_def = mdb_cursor_set_def cursor_set1_def Let_def page_hit_def
    consider (lt) "rank key < rank (fst (nodes ! 0))" | (eq) "rank key = rank (fst (nodes ! 0))"
      | (gt) "rank (fst (nodes ! 0)) < rank key" by (meson linorder_cases)
    then show ?thesis
    proof cases
      case lt
      then show ?thesis
        using True ne assms(3) at0 cmpn[of 0] by (auto simp: set_def cmp3_def)
    next
      case eq
      then show ?thesis
        using True ne assms(3) at0 cmpn[of 0] by (auto simp: set_def cmp3_def)
    next
      case gt
      show ?thesis
      proof (cases "?n = 1")
        case n1: True
        then show ?thesis
          using gt True ne assms(3) end' cmpn[of 0] by (auto simp: set_def cmp3_def)
      next
        case False
        then have n: "1 < ?n" using ne by (cases nodes) auto
        consider (l) "rank key < rank (fst (nodes ! (?n - 1)))" | (e) "rank key = rank (fst (nodes ! (?n - 1)))"
          | (g) "rank (fst (nodes ! (?n - 1))) < rank key" by (meson linorder_cases)
        then show ?thesis
        proof cases
          case l
          have step: "mdb_cursor_set cmp nodes mc key exactp
            = (if mc_ki mc < ?n \<and> rank key = rank (fst (nodes ! mc_ki mc)) then cursor_set1 mc (mc_ki mc)
               else cursor_set2 cmp nodes mc key exactp)"
            using gt l n True ne assms(3) cmpn[of 0] cmpn[of "?n - 1"] cmpn[of "mc_ki mc"]
            by (auto simp: mdb_cursor_set_def Let_def cmp3_def)
          show ?thesis
            unfolding step using cursor_set2[OF ok v, of mc exactp] hit[of "mc_ki mc"] True
            by (auto simp: cursor_set1_def page_hit_def Let_def)
        next
          case e
          then show ?thesis
            using gt n True ne assms(3) cmpn[of 0] cmpn[of "?n - 1"] hit[of "?n - 1"]
            by (auto simp: set_def cmp3_def)
        next
          case g
          then show ?thesis
            using gt n True ne assms(3) cmpn[of 0] cmpn[of "?n - 1"] end'
            by (auto simp: set_def cmp3_def)
        qed
      qed
    qed
  qed
qed

text \<open>
  The contract of the three point operations: the page is a finite map from ranks to
  values, which they read, update and restrict.
\<close>

lemma mdb_get_map:
  assumes ok: "page_ok valid rank (mt_nodes t)" and "valid key" "key \<noteq> []" "\<not> mt_error t"
  shows "mdb_get cmp (Some t) key
       = ret (case page_map rank (mt_nodes t) (rank key) of
                None \<Rightarrow> (MDB_NOTFOUND, None) | Some v \<Rightarrow> (MDB_SUCCESS, Some v))"
proof (cases "mt_nodes t = []")
  case True
  then show ?thesis
    using assms by (simp add: mdb_get_def mdb_cursor_set_def mdb_cursor_init_def page_map_def)
next
  case False
  from cursor_set[OF ok assms(2,3) False, of mdb_cursor_init True] assms page_map_rank[OF ok, of key]
  show ?thesis by (auto simp: mdb_get_def)
qed

text \<open>Without an error of the page functions a write succeeds; with one it returns the error, and the
  transaction is as it was or marked.\<close>

lemma put_replace_map:
  assumes ok: "page_ok valid rank ns" and "valid key" and hit: "page_hit rank ns key" and k: "valid k" "rank k = rank key"
  shows "page_ok valid rank (ns[page_index rank ns key := (k, d)])"
    "page_map rank (ns[page_index rank ns key := (k, d)]) = (page_map rank ns)(rank key \<mapsto> d)"
proof -
  let ?i = "page_index rank ns key"
  have "ns[?i := (k, d)] = take ?i ns @ (k, d) # drop (Suc ?i) ns"
    using hit by (simp add: page_hit_def upd_conv_take_nth_drop)
  then show "page_ok valid rank (ns[?i := (k, d)])" "page_map rank (ns[?i := (k, d)]) = (page_map rank ns)(rank key \<mapsto> d)"
    using page_store[OF ok k, of d] hit by simp_all
qed

lemma mdb_put_map:
  assumes ok: "page_ok valid rank (mt_nodes t)" and "valid key" "key \<noteq> []"
    and "length key \<le> ENV_MAXKEY" "length d \<le> MAXDATASIZE" "\<not> mt_error t" "\<not> mt_rdonly t"
  shows "(\<exists>nodes'. mdb_put P cmp (Some t) key d = ret (MDB_SUCCESS, Some (t\<lparr>mt_nodes := nodes'\<rparr>))
       \<and> page_ok valid rank nodes'
       \<and> page_map rank nodes' = (page_map rank (mt_nodes t))(rank key \<mapsto> d))
     \<or> \<not> pager_ok P \<and> (\<exists>e t'. mdb_put P cmp (Some t) key d = ret (MDB_PAGE_RC e, Some t') \<and> (t' = t \<or> mt_error t'))"
proof -
  let ?ns = "mt_nodes t" and ?i = "page_index rank (mt_nodes t) key"
  obtain mc where mc: "(if ?ns = [] then ret (MDB_NOTFOUND, mdb_cursor_init) else mdb_cursor_set cmp ?ns mdb_cursor_init key True)
      = ret (if page_hit rank ?ns key then MDB_SUCCESS else MDB_NOTFOUND, mc)" "mc_ki mc = ?i"
    using cursor_set[OF ok assms(2,3), of mdb_cursor_init True]
    by (cases "?ns = []") (auto simp: page_hit_def page_index_def mdb_cursor_init_def)
  note defs = mdb_put_def mdb_cursor_put_def page_step_def page_finish_def pager_ok_def
  show ?thesis
  proof (cases "page_hit rank ?ns key")
    case True
    then have i: "?i < length ?ns" "valid (fst (?ns ! ?i))" "rank (fst (?ns ! ?i)) = rank key"
      using page_ok_valid[OF ok] by (auto simp: page_hit_def)
    note new = put_replace_map[OF ok assms(2) True assms(2) refl, of d]
      and old = put_replace_map[OF ok assms(2) True i(2,3), of d]
    show ?thesis
      using assms(3-7) mc True new old by (auto simp: defs Let_def split: option.splits)
  next
    case False
    note new = page_store[OF ok assms(2) refl, of d]
    show ?thesis
      using assms(3-7) mc False new by (auto simp: defs Let_def split: option.splits)
  qed
qed

lemma mdb_del_map:
  assumes ok: "page_ok valid rank (mt_nodes t)" and "valid key" "key \<noteq> []"
    and "\<not> mt_error t" "\<not> mt_rdonly t"
  shows "(\<exists>nodes'. mdb_del P cmp (Some t) key
         = ret (if page_map rank (mt_nodes t) (rank key) = None then MDB_NOTFOUND else MDB_SUCCESS,
              Some (t\<lparr>mt_nodes := nodes'\<rparr>))
       \<and> page_ok valid rank nodes'
       \<and> page_map rank nodes' = (page_map rank (mt_nodes t))(rank key := None))
     \<or> \<not> pager_ok P \<and> page_map rank (mt_nodes t) (rank key) \<noteq> None
       \<and> (\<exists>e t'. mdb_del P cmp (Some t) key = ret (MDB_PAGE_RC e, Some t') \<and> (t' = t \<or> mt_error t'))"
proof (cases "mt_nodes t = []")
  case True
  then show ?thesis
    using assms
    by (intro disjI1 exI[of _ "[]"])
      (simp add: mdb_del_def mdb_cursor_set_def mdb_cursor_init_def page_map_def)
next
  case False
  let ?ns = "mt_nodes t" and ?i = "page_index rank (mt_nodes t) key"
  obtain mc where mc: "mdb_cursor_set cmp ?ns mdb_cursor_init key True
      = ret (if page_hit rank ?ns key then MDB_SUCCESS else MDB_NOTFOUND, mc)" "mc_ki mc = ?i"
    using cursor_set[OF ok assms(2,3) False, of mdb_cursor_init True] by auto
  show ?thesis
  proof (cases "page_hit rank ?ns key")
    case True
    then show ?thesis
      using assms False mc page_delete[OF ok True] page_map_rank[OF ok, of key]
      by (auto simp: mdb_del_def mdb_cursor_del_def page_step_def page_finish_def pager_ok_def Let_def split: option.splits)
  next
    case nohit: False
    then show ?thesis
      using assms False mc page_map_rank[OF ok, of key]
      by (intro disjI1 exI[of _ ?ns]) (auto simp: mdb_del_def)
  qed
qed

end

end
