(* ===== verification/LuaDbOrder.thy ===== *)
theory LuaDbOrder
  imports Mdb
begin

text \<open>
  \<open>CompareKeys\<close> meets the contract LMDB has with a comparison function. A stored key is
  valid when it is the encoding of the segments read back from it; its rank is the rank of
  those segments. The interpretation \<open>luadb\<close> turns the locale's lemmas into facts about
  LuaDB databases: a page of valid keys is a finite map from key ranks to values.
\<close>

subsection \<open>Reading the segments of a key back\<close>

fun decode_key :: "bytes \<Rightarrow> segment list" where
  "decode_key (n # t # rest) = (t, take (unat n) rest) # decode_key (drop (unat n) rest)"
| "decode_key _ = []"

definition valid_key :: "bytes \<Rightarrow> bool" where
  "valid_key k \<longleftrightarrow> wf_segs (decode_key k) \<and> encode_key (decode_key k) = k"

definition db_rank :: "bytes \<Rightarrow> (bytes \<times> nat) list" where
  "db_rank k = key_rank (decode_key k)"

lemma unat_byte_small: "n \<le> 127 \<Longrightarrow> unat (of_nat n :: byte) = n"
  by (simp add: unsigned_of_nat take_bit_nat_eq_self)

lemma decode_encode_key: "short_segs segs \<Longrightarrow> decode_key (encode_key segs) = segs"
proof (induction segs)
  case (Cons s segs)
  then show ?case by (cases s) (simp add: encode_seg_def unat_byte_small)
qed simp

lemma valid_key_encode: "wf_segs segs \<Longrightarrow> valid_key (encode_key segs)"
  by (simp add: valid_key_def decode_encode_key wf_segs_short)

lemma valid_key_obtain:
  assumes "valid_key k"
  obtains segs where "wf_segs segs" "k = encode_key segs" "decode_key k = segs"
  using assms by (metis valid_key_def)

lemma db_rank_encode: "wf_segs segs \<Longrightarrow> db_rank (encode_key segs) = key_rank segs"
  by (simp add: db_rank_def decode_encode_key wf_segs_short)

subsection \<open>The contract\<close>

interpretation luadb: key_order CompareKeys valid_key db_rank
proof
  fix a b assume "valid_key a" "valid_key b"
  then show "CompareKeys a b = ret (cmp3 (db_rank a) (db_rank b))"
    unfolding db_rank_def by (metis CompareKeys_encode valid_key_def)
qed

text \<open>The database a transaction sees, by the segments of a key.\<close>

definition db_ok :: "node list \<Rightarrow> bool" where
  "db_ok nodes \<longleftrightarrow> page_ok valid_key db_rank nodes"

definition db_map :: "node list \<Rightarrow> (bytes \<times> nat) list \<rightharpoonup> bytes" where
  "db_map nodes = page_map db_rank nodes"

lemma db_ok_Nil [simp]: "db_ok []"
  by (simp add: db_ok_def)

lemma db_map_Nil [simp]: "db_map [] = Map.empty"
  by (simp add: db_map_def page_map_def)

text \<open>The three point operations on encoded keys.\<close>

lemma encode_key_ok:
  assumes "wf_segs segs" "segs \<noteq> []"
  shows "valid_key (encode_key segs)" "encode_key segs \<noteq> []"
  using assms by (simp_all add: valid_key_encode)

lemma get_encode:
  assumes "db_ok (mt_nodes t)" "wf_segs segs" "segs \<noteq> []" "\<not> mt_error t"
  shows "mdb_get CompareKeys (Some t) (encode_key segs)
       = ret (case db_map (mt_nodes t) (key_rank segs) of
                None \<Rightarrow> (MDB_NOTFOUND, None) | Some v \<Rightarrow> (MDB_SUCCESS, Some v))"
  using luadb.mdb_get_map[of t "encode_key segs"] assms encode_key_ok[OF assms(2,3)]
  by (simp add: db_ok_def db_map_def db_rank_encode)

lemma put_encode:
  assumes "db_ok (mt_nodes t)" "wf_segs segs" "segs \<noteq> []" "length (encode_key segs) \<le> ENV_MAXKEY"
    "length d \<le> MAXDATASIZE" "\<not> mt_error t" "\<not> mt_rdonly t"
  shows "(\<exists>nodes'. mdb_put P CompareKeys (Some t) (encode_key segs) d
         = ret (MDB_SUCCESS, Some (t\<lparr>mt_nodes := nodes'\<rparr>))
       \<and> db_ok nodes' \<and> db_map nodes' = (db_map (mt_nodes t))(key_rank segs \<mapsto> d))
     \<or> \<not> pager_ok P \<and> (\<exists>e t'. mdb_put P CompareKeys (Some t) (encode_key segs) d = ret (MDB_PAGE_RC e, Some t')
         \<and> (t' = t \<or> mt_error t'))"
  using luadb.mdb_put_map[of t "encode_key segs" d P] assms encode_key_ok[OF assms(2,3)]
  by (simp add: db_ok_def db_map_def db_rank_encode)

lemma put_too_long:
  assumes "wf_segs segs" "segs \<noteq> []" "MAXDATASIZE < length d" "\<not> mt_error t" "\<not> mt_rdonly t"
  shows "mdb_put P CompareKeys (Some t) (encode_key segs) d = ret (MDB_BAD_VALSIZE, Some t)"
  using assms encode_key_ok[OF assms(1,2)] by (simp add: mdb_put_def mdb_cursor_put_def)

lemma del_encode:
  assumes "db_ok (mt_nodes t)" "wf_segs segs" "segs \<noteq> []" "\<not> mt_error t" "\<not> mt_rdonly t"
  shows "(\<exists>nodes'. mdb_del P CompareKeys (Some t) (encode_key segs)
       = ret (if db_map (mt_nodes t) (key_rank segs) = None then MDB_NOTFOUND else MDB_SUCCESS,
              Some (t\<lparr>mt_nodes := nodes'\<rparr>))
       \<and> db_ok nodes' \<and> db_map nodes' = (db_map (mt_nodes t))(key_rank segs := None))
     \<or> \<not> pager_ok P \<and> db_map (mt_nodes t) (key_rank segs) \<noteq> None
       \<and> (\<exists>e t'. mdb_del P CompareKeys (Some t) (encode_key segs) = ret (MDB_PAGE_RC e, Some t')
         \<and> (t' = t \<or> mt_error t'))"
  using luadb.mdb_del_map[of t "encode_key segs" P] assms encode_key_ok[OF assms(2,3)]
  by (simp add: db_ok_def db_map_def db_rank_encode)

text \<open>A transaction marked with \<open>MDB_TXN_ERROR\<close> reads nothing.\<close>

lemma mdb_get_error: "mt_error t \<Longrightarrow> mdb_get cmp (Some t) key = ret (MDB_BAD_TXN, None)"
  by (simp add: mdb_get_def)

subsection \<open>Properties\<close>

text \<open>C1: on well-formed keys \<open>CompareKeys\<close> terminates inside its buffers and is the three-way
  comparison of a linear order on the lists of segment ranks (the bytes up to a NUL, then the
  length); a key is below every key it is a proper prefix of.\<close>

theorem CompareKeys_is_order:
  assumes "wf_segs as" and "wf_segs bs"
  shows "CompareKeys (encode_key as) (encode_key bs) = ret (cmp3 (key_rank as) (key_rank bs))
    \<and> (\<exists>c. CompareKeys (encode_key bs) (encode_key as) = ret (- c)
         \<and> CompareKeys (encode_key as) (encode_key bs) = ret c)"
  using CompareKeys_encode[OF assms] CompareKeys_encode[OF assms(2,1)] cmp3_swap
  by (metis)

theorem CompareKeys_is_order_witness:
  "CompareKeys [1, 0x73, 0x61, 1, 0x73, 0x62] [1, 0x73, 0x61, 2, 0x73, 0x62, 0x61] = ret (- 1)"
proof -
  let ?a = "[(0x73, [0x61]), (0x73, [0x62])] :: segment list"
  let ?b = "[(0x73, [0x61]), (0x73, [0x62, 0x61])] :: segment list"
  have "wf_segs ?a" "wf_segs ?b"
    by (simp_all add: wf_segs_def wf_seg_def LMDB_MAX_KEY_SEGMENTS_def)
  from CompareKeys_is_order[OF this] show ?thesis
    by (simp add: encode_seg_def cmp3_def seg_rank_def)
qed

text \<open>Two NUL-free keys compare equal exactly when their segments have the same data: the
  segment types take no part, so the key \<open>"1"\<close> and the key \<open>1\<close> are one key.\<close>

theorem CompareKeys_ignores_types:
  assumes "wf_segs as" "wf_segs bs" "NUL_free as" "NUL_free bs"
  shows "CompareKeys (encode_key as) (encode_key bs) = ret 0 \<longleftrightarrow> map snd as = map snd bs"
  using CompareKeys_encode[OF assms(1,2)] key_rank_eq_iff[OF assms(3,4)] by simp

theorem CompareKeys_ignores_types_witness:
  "CompareKeys [1, 0x73, 0x31] [1, 0x69, 0x31] = ret 0"
proof -
  let ?a = "[(0x73, [0x31])] :: segment list" and ?b = "[(0x69, [0x31])] :: segment list"
  have "wf_segs ?a" "wf_segs ?b" "NUL_free ?a" "NUL_free ?b"
    by (simp_all add: wf_segs_def wf_seg_def LMDB_MAX_KEY_SEGMENTS_def)
  from CompareKeys_ignores_types[OF this] show ?thesis by (simp add: encode_seg_def)
qed

text \<open>C24: \<open>GenerateLuaDbKey\<close> fills the buffer it allocates exactly, and the segments read back
  from the result are the segments it was given.\<close>

theorem GenerateLuaDbKey_roundtrip:
  assumes "wf_segs segs"
  shows "\<exists>k. GenerateLuaDbKey (Some junk) (of_nat (sum_list (map (length \<circ> snd) segs))) (map key_elem segs)
         = ret (0, mv_size k, Some k) \<and> decode_key k = segs \<and> valid_key k"
proof -
  have "length (encode_key segs) < 2 ^ 63" using length_wf_key[OF assms] by simp
  then show ?thesis
    using GenerateLuaDbKey_encode decode_encode_key[OF wf_segs_short[OF assms]] valid_key_encode[OF assms]
    by blast
qed

theorem GenerateLuaDbKey_roundtrip_witness:
  "\<exists>k. GenerateLuaDbKey (Some (\<lambda>_. 0)) 3 [([0x61], 1, 0x73), ([0x31, 0x32], 2, 0x69)]
     = ret (0, mv_size k, Some k) \<and> decode_key k = [(0x73, [0x61]), (0x69, [0x31, 0x32])]"
proof -
  let ?a = "[(0x73, [0x61]), (0x69, [0x31, 0x32])] :: segment list"
  have "wf_segs ?a" by (simp add: wf_segs_def wf_seg_def LMDB_MAX_KEY_SEGMENTS_def)
  from GenerateLuaDbKey_roundtrip[OF this, of "\<lambda>_. 0"] show ?thesis by auto
qed

text \<open>incrementing the last byte of a key moves past it and past no sibling of the same
  length: the new key is above the old one, and at or below every other key with the same
  prefix whose last segment has the old length and is above the old one.\<close>

theorem ComputeNextLexicalValue_adjacent:
  assumes "wf_segs (ps @ [(t, d @ [b])])" and "NUL_free (ps @ [(t, d @ [b])])" and "b \<noteq> - 1"
    and "wf_segs (ps @ [(t', e)])" and "0 \<notin> set e" and "length e = Suc (length d)"
    and "CompareKeys (encode_key (ps @ [(t, d @ [b])])) (encode_key (ps @ [(t', e)])) = ret (- 1)"
  shows "\<exists>k c. ComputeNextLexicalValue (encode_key (ps @ [(t, d @ [b])]))
              (mv_size (encode_key (ps @ [(t, d @ [b])]))) = ret k
       \<and> CompareKeys (encode_key (ps @ [(t, d @ [b])])) k = ret (- 1)
       \<and> CompareKeys k (encode_key (ps @ [(t', e)])) = ret c \<and> c \<le> 0"
proof -
  let ?n = "ps @ [(t, d @ [b + 1])]"
  have wf: "wf_segs ?n" using assms(1) by (simp add: wf_segs_def wf_seg_def)
  have enc: "encode_key (ps @ [(t, d @ [c])])
      = (encode_key ps @ of_nat (Suc (length d)) # t # d) @ [c]" for c
    by (simp add: encode_seg_def)
  have "length (encode_key (ps @ [(t, d @ [b])])) < 2 ^ 63"
    using length_wf_key[OF assms(1)] by simp
  then have next': "ComputeNextLexicalValue (encode_key (ps @ [(t, d @ [b])]))
      (mv_size (encode_key (ps @ [(t, d @ [b])]))) = ret (encode_key ?n)"
    unfolding enc by (intro ComputeNextLexicalValue_snoc) simp
  have d: "0 \<notin> set d" "b \<noteq> 0" using assms(2) by auto
  have pre: "(key_rank ps @ [x] < key_rank ps @ [y]) = (x < y)"
      "(key_rank ps @ [x] \<le> key_rank ps @ [y]) = (x \<le> y)" for x y :: "bytes \<times> nat"
    by (induction ps) auto
  have lt: "seg_rank (t, d @ [b]) < seg_rank (t', e)"
    using assms(7) CompareKeys_encode[OF assms(1,4)] by (simp add: cmp3_def pre split: if_splits)
  have "CompareKeys (encode_key (ps @ [(t, d @ [b])])) (encode_key ?n) = ret (- 1)"
    using CompareKeys_encode[OF assms(1) wf] seg_rank_snoc_Suc[OF d assms(3), of t t]
    by (simp add: cmp3_def pre)
  moreover have "cmp3 (key_rank ?n) (key_rank (ps @ [(t', e)])) \<le> 0"
    using seg_rank_next[OF d assms(3,5,6) lt, of t] by (simp add: cmp3_le_0 pre)
  ultimately show ?thesis
    using next' CompareKeys_encode[OF wf assms(4)] by blast
qed

theorem ComputeNextLexicalValue_adjacent_witness:
  "\<exists>k. ComputeNextLexicalValue [2, 0x73, 0x61, 0x62] 4 = ret k
     \<and> CompareKeys [2, 0x73, 0x61, 0x62] k = ret (- 1)"
proof -
  let ?a = "[] @ [(0x73, [0x61] @ [0x62])] :: segment list"
  let ?b = "[] @ [(0x73, [0x61, 0x63])] :: segment list"
  have wf: "wf_segs ?a" "wf_segs ?b"
    by (simp_all add: wf_segs_def wf_seg_def LMDB_MAX_KEY_SEGMENTS_def)
  have "CompareKeys (encode_key ?a) (encode_key ?b) = ret (- 1)"
    using CompareKeys_encode[OF wf] by (simp add: cmp3_def seg_rank_def)
  from ComputeNextLexicalValue_adjacent[OF wf(1) _ _ wf(2) _ _ this]
  show ?thesis by (auto simp: encode_seg_def mv_size_def)
qed

text \<open>The increment does skip longer siblings. Whatever bytes follow the old last segment's
  bytes, a key with the same prefix whose last segment properly extends it lies between the
  old key and the incremented one, so a range search from the incremented key misses it
  (\<open>"10"\<close> between \<open>"1"\<close> and \<open>"2"\<close>).\<close>

theorem ComputeNextLexicalValue_skips_longer:
  assumes "wf_segs (ps @ [(t, d @ [b])])" and "NUL_free (ps @ [(t, d @ [b])])" and "b \<noteq> - 1"
    and "wf_segs (ps @ [(t', (d @ [b]) @ x # e)])"
  shows "\<exists>k. ComputeNextLexicalValue (encode_key (ps @ [(t, d @ [b])]))
              (mv_size (encode_key (ps @ [(t, d @ [b])]))) = ret k
       \<and> CompareKeys (encode_key (ps @ [(t, d @ [b])])) (encode_key (ps @ [(t', (d @ [b]) @ x # e)])) = ret (- 1)
       \<and> CompareKeys (encode_key (ps @ [(t', (d @ [b]) @ x # e)])) k = ret (- 1)"
proof -
  let ?n = "ps @ [(t, d @ [b + 1])]"
  have wf: "wf_segs ?n" using assms(1) by (simp add: wf_segs_def wf_seg_def)
  have enc: "encode_key (ps @ [(t, d @ [c])])
      = (encode_key ps @ of_nat (Suc (length d)) # t # d) @ [c]" for c
    by (simp add: encode_seg_def)
  have "length (encode_key (ps @ [(t, d @ [b])])) < 2 ^ 63"
    using length_wf_key[OF assms(1)] by simp
  then have next': "ComputeNextLexicalValue (encode_key (ps @ [(t, d @ [b])]))
      (mv_size (encode_key (ps @ [(t, d @ [b])]))) = ret (encode_key ?n)"
    unfolding enc by (intro ComputeNextLexicalValue_snoc) simp
  have d: "0 \<notin> set d" "b \<noteq> 0" using assms(2) by auto
  have b1: "b + 1 \<noteq> 0" using assms(3) by (metis add.right_cancel add_eq_0_iff2)
  have pre: "(key_rank ps @ [x] < key_rank ps @ [y]) = (x < y)" for x y :: "bytes \<times> nat"
    by (induction ps) auto
  have cs: "cstr (d @ [b]) = d @ [b]" "cstr (d @ [b + 1]) = d @ [b + 1]"
      "\<exists>r. cstr ((d @ [b]) @ x # e) = d @ b # r"
    using d b1 by (auto simp: cstr_def takeWhile_append)
  then obtain r where r: "cstr ((d @ [b]) @ x # e) = d @ b # r" by blast
  have "d @ [b] \<le> d @ b # r" "d @ b # r < d @ [b + 1]"
    using byte_less_Suc[OF assms(3)] by (induction d) auto
  then have "seg_rank (t, d @ [b]) < seg_rank (t', (d @ [b]) @ x # e)"
      "seg_rank (t', (d @ [b]) @ x # e) < seg_rank (t, d @ [b + 1])"
    using cs(1,2) r by (auto simp: seg_rank_def less_prod_def' order_le_less)
  then have "CompareKeys (encode_key (ps @ [(t, d @ [b])])) (encode_key (ps @ [(t', (d @ [b]) @ x # e)])) = ret (- 1)"
      "CompareKeys (encode_key (ps @ [(t', (d @ [b]) @ x # e)])) (encode_key ?n) = ret (- 1)"
    using CompareKeys_encode[OF assms(1,4)] CompareKeys_encode[OF assms(4) wf]
    by (simp_all add: cmp3_def pre)
  then show ?thesis using next' by blast
qed

theorem ComputeNextLexicalValue_skips_longer_witness:
  "\<exists>k. ComputeNextLexicalValue [1, 0x69, 0x31] 3 = ret k
     \<and> CompareKeys [1, 0x69, 0x31] [2, 0x69, 0x31, 0x30] = ret (- 1)
     \<and> CompareKeys [2, 0x69, 0x31, 0x30] k = ret (- 1)"
proof -
  let ?a = "[] @ [(0x69, [] @ [0x31])] :: segment list"
  let ?b = "[] @ [(0x69, ([] @ [0x31]) @ 0x30 # [])] :: segment list"
  have wf: "wf_segs ?a" "wf_segs ?b"
    by (simp_all add: wf_segs_def wf_seg_def LMDB_MAX_KEY_SEGMENTS_def)
  from ComputeNextLexicalValue_skips_longer[OF wf(1) _ _ wf(2)]
  show ?thesis by (auto simp: encode_seg_def mv_size_def)
qed

text \<open>C23: a store of a well-formed key no longer than LMDB's 511 bytes, whatever the page functions do. It is
  refused with \<open>MDB_BAD_VALSIZE\<close> exactly when the value is longer than \<open>MAXDATASIZE\<close>. When it succeeds the page
  is sorted, and every well-formed key reads what it read before, except the keys that compare equal to
  the stored one, which read the stored value. It fails otherwise only with the error of a page function that
  failed, and then the transaction is unchanged or reads nothing but \<open>MDB_BAD_TXN\<close>.\<close>

theorem mdb_put_get:
  assumes "db_ok (mt_nodes t)" "\<not> mt_error t" "\<not> mt_rdonly t"
    and "wf_segs ks" "ks \<noteq> []" "length (encode_key ks) \<le> ENV_MAXKEY"
    and "wf_segs ks'" "ks' \<noteq> []"
  shows "\<exists>rc t'. mdb_put P CompareKeys (Some t) (encode_key ks) d = ret (rc, Some t')
       \<and> (rc = MDB_BAD_VALSIZE \<longleftrightarrow> MAXDATASIZE < length d)
       \<and> (case rc of
            MDB_SUCCESS \<Rightarrow>
              db_ok (mt_nodes t')
              \<and> mdb_get CompareKeys (Some t') (encode_key ks')
                = (if CompareKeys (encode_key ks) (encode_key ks') = ret 0 then ret (MDB_SUCCESS, Some d)
                   else mdb_get CompareKeys (Some t) (encode_key ks'))
          | MDB_BAD_VALSIZE \<Rightarrow> t' = t
          | MDB_PAGE_RC e \<Rightarrow>
              \<not> pager_ok P
              \<and> (t' = t \<or> mdb_get CompareKeys (Some t') (encode_key ks') = ret (MDB_BAD_TXN, None))
          | _ \<Rightarrow> False)"
proof (cases "MAXDATASIZE < length d")
  case True
  then show ?thesis using put_too_long[OF assms(4,5) True assms(2,3)] by simp
next
  case False
  then have d: "length d \<le> MAXDATASIZE" by simp
  consider (stored) nodes' where "mdb_put P CompareKeys (Some t) (encode_key ks) d
        = ret (MDB_SUCCESS, Some (t\<lparr>mt_nodes := nodes'\<rparr>))" "db_ok nodes'"
        "db_map nodes' = (db_map (mt_nodes t))(key_rank ks \<mapsto> d)"
    | (failed) e t' where "\<not> pager_ok P" "mdb_put P CompareKeys (Some t) (encode_key ks) d = ret (MDB_PAGE_RC e, Some t')"
        "t' = t \<or> mt_error t'"
    using put_encode[OF assms(1,4,5,6) d assms(2,3)] by blast
  then show ?thesis
  proof cases
    case stored
    then have "mdb_get CompareKeys (Some (t\<lparr>mt_nodes := nodes'\<rparr>)) (encode_key ks')
        = (if CompareKeys (encode_key ks) (encode_key ks') = ret 0 then ret (MDB_SUCCESS, Some d)
           else mdb_get CompareKeys (Some t) (encode_key ks'))"
      using get_encode[of "t\<lparr>mt_nodes := nodes'\<rparr>" ks'] get_encode[of t ks'] assms
        CompareKeys_encode[OF assms(4,7)] by auto
    then show ?thesis using stored d by simp
  next
    case failed
    then show ?thesis using d mdb_get_error by auto
  qed
qed

text \<open>A pager whose functions all succeed, and one whose environment map is full.\<close>

abbreviation pager_fine :: pager where
  "pager_fine \<equiv> \<lparr>pg_spill = (None, False), pg_touch = (None, False), pg_big = False, pg_in_place = False,
     pg_ovpage = (None, False), pg_add = None\<rparr>"

abbreviation pager_full :: pager where
  "pager_full \<equiv> pager_fine\<lparr>pg_touch := (Some MDB_MAP_FULL, True)\<rparr>"

theorem mdb_put_get_witness:
  "(\<exists>t'. mdb_put pager_fine CompareKeys (Some \<lparr>mt_nodes = [], mt_rdonly = False, mt_error = False\<rparr>)
          [1, 0x73, 0x61] [0x76] = ret (MDB_SUCCESS, Some t')
      \<and> mdb_get CompareKeys (Some t') [1, 0x73, 0x61] = ret (MDB_SUCCESS, Some [0x76]))
   \<and> mdb_put pager_full CompareKeys (Some \<lparr>mt_nodes = [], mt_rdonly = False, mt_error = False\<rparr>)
          [1, 0x73, 0x61] [0x76] = ret (MDB_PAGE_RC MDB_MAP_FULL, Some \<lparr>mt_nodes = [], mt_rdonly = False, mt_error = True\<rparr>)"
proof -
  let ?k = "[(0x73, [0x61])] :: segment list" and ?t = "\<lparr>mt_nodes = [], mt_rdonly = False, mt_error = False\<rparr>"
  have "wf_segs ?k" by (simp add: wf_segs_def wf_seg_def LMDB_MAX_KEY_SEGMENTS_def)
  note wf = this
  have "\<exists>t'. mdb_put pager_fine CompareKeys (Some ?t) [1, 0x73, 0x61] [0x76] = ret (MDB_SUCCESS, Some t')
      \<and> mdb_get CompareKeys (Some t') [1, 0x73, 0x61] = ret (MDB_SUCCESS, Some [0x76])"
    using mdb_put_get[OF _ _ _ wf _ _ wf, of ?t pager_fine "[0x76]"] CompareKeys_encode[OF wf wf]
    apply (simp add: encode_seg_def ENV_MAXKEY_def MAXDATASIZE_def)
    apply (elim exE)
    subgoal for rc t' by (cases rc) (auto simp: encode_seg_def pager_ok_def)
    done
  moreover have "mdb_put pager_full CompareKeys (Some ?t) [1, 0x73, 0x61] [0x76]
      = ret (MDB_PAGE_RC MDB_MAP_FULL, Some (?t\<lparr>mt_error := True\<rparr>))"
    by (simp add: mdb_put_def mdb_cursor_put_def page_step_def ENV_MAXKEY_def MAXDATASIZE_def)
  ultimately show ?thesis by simp
qed

text \<open>a delete returns \<open>MDB_NOTFOUND\<close> exactly when the key reads as absent. When it does, or succeeds, the
  page is sorted, the keys that compare equal to the deleted one are absent and every other key reads what
  it read before. It fails otherwise only with the error of a page function that failed, and then the
  transaction is unchanged or reads nothing but \<open>MDB_BAD_TXN\<close>.\<close>

theorem mdb_del_get:
  assumes "db_ok (mt_nodes t)" "\<not> mt_error t" "\<not> mt_rdonly t"
    and "wf_segs ks" "ks \<noteq> []" and "wf_segs ks'" "ks' \<noteq> []"
  shows "\<exists>rc t'. mdb_del P CompareKeys (Some t) (encode_key ks) = ret (rc, Some t')
       \<and> (rc = MDB_NOTFOUND \<longleftrightarrow> mdb_get CompareKeys (Some t) (encode_key ks) = ret (MDB_NOTFOUND, None))
       \<and> (case rc of
            MDB_PAGE_RC e \<Rightarrow>
              \<not> pager_ok P
              \<and> (t' = t \<or> mdb_get CompareKeys (Some t') (encode_key ks') = ret (MDB_BAD_TXN, None))
          | _ \<Rightarrow>
              rc \<in> {MDB_SUCCESS, MDB_NOTFOUND}
              \<and> db_ok (mt_nodes t')
              \<and> mdb_get CompareKeys (Some t') (encode_key ks')
                = (if CompareKeys (encode_key ks) (encode_key ks') = ret 0 then ret (MDB_NOTFOUND, None)
                   else mdb_get CompareKeys (Some t) (encode_key ks')))"
proof -
  have nf: "db_map (mt_nodes t) (key_rank ks) = None
      \<longleftrightarrow> mdb_get CompareKeys (Some t) (encode_key ks) = ret (MDB_NOTFOUND, None)"
    using get_encode[OF assms(1,4,5,2)] by (auto split: option.splits)
  consider (removed) nodes' where "mdb_del P CompareKeys (Some t) (encode_key ks)
        = ret (if db_map (mt_nodes t) (key_rank ks) = None then MDB_NOTFOUND else MDB_SUCCESS,
               Some (t\<lparr>mt_nodes := nodes'\<rparr>))" "db_ok nodes'"
        "db_map nodes' = (db_map (mt_nodes t))(key_rank ks := None)"
    | (failed) e t' where "\<not> pager_ok P" "db_map (mt_nodes t) (key_rank ks) \<noteq> None"
        "mdb_del P CompareKeys (Some t) (encode_key ks) = ret (MDB_PAGE_RC e, Some t')" "t' = t \<or> mt_error t'"
    using del_encode[OF assms(1,4,5,2,3)] by blast
  then show ?thesis
  proof cases
    case removed
    then have "mdb_get CompareKeys (Some (t\<lparr>mt_nodes := nodes'\<rparr>)) (encode_key ks')
        = (if CompareKeys (encode_key ks) (encode_key ks') = ret 0 then ret (MDB_NOTFOUND, None)
           else mdb_get CompareKeys (Some t) (encode_key ks'))"
      using get_encode[of "t\<lparr>mt_nodes := nodes'\<rparr>" ks'] get_encode[of t ks'] assms
        CompareKeys_encode[OF assms(4,6)] by auto
    then show ?thesis using removed nf by (auto split: mdb_rc.splits)
  next
    case failed
    then show ?thesis using nf mdb_get_error by auto
  qed
qed

theorem mdb_del_get_witness:
  "\<exists>t'. mdb_del pager_fine CompareKeys
          (Some \<lparr>mt_nodes = [([1, 0x73, 0x61], [0x76])], mt_rdonly = False, mt_error = False\<rparr>)
          [1, 0x73, 0x61] = ret (MDB_SUCCESS, Some t')
      \<and> mdb_get CompareKeys (Some t') [1, 0x73, 0x61] = ret (MDB_NOTFOUND, None)"
proof -
  let ?k = "[(0x73, [0x61])] :: segment list"
  let ?t = "\<lparr>mt_nodes = [([1, 0x73, 0x61], [0x76])], mt_rdonly = False, mt_error = False\<rparr>"
  have wf: "wf_segs ?k" by (simp add: wf_segs_def wf_seg_def LMDB_MAX_KEY_SEGMENTS_def)
  have e: "encode_key ?k = [1, 0x73, 0x61]" by (simp add: encode_seg_def)
  have ok: "db_ok (mt_nodes ?t)"
    using valid_key_encode[OF wf] unfolding e by (simp add: db_ok_def page_ok_Cons)
  have "db_map (mt_nodes ?t) (key_rank ?k) = Some [0x76]"
    using db_rank_encode[OF wf] unfolding e by (simp add: db_map_def page_map_def)
  then have "mdb_get CompareKeys (Some ?t) (encode_key ?k) = ret (MDB_SUCCESS, Some [0x76])"
    using get_encode[OF ok wf] by simp
  note g = this
  show ?thesis
    using mdb_del_get[OF ok _ _ wf _ wf, of pager_fine] CompareKeys_encode[OF wf wf] g
    apply (simp add: encode_seg_def)
    apply (elim exE)
    subgoal for rc t' by (cases rc) (auto simp: encode_seg_def pager_ok_def)
    done
qed

end
