(* ===== verification/LuaValue.thy ===== *)
theory LuaValue
  imports LuaDbKey
begin

text \<open>
  Lua values and the C library conversions LuaDB applies to them: \<open>lua_tolstring\<close> on a
  number and \<open>sscanf\<close> with \<open>"%lld"\<close>, \<open>"%d"\<close> and \<open>"%lf"\<close>.

  A Lua float is a value of the type \<open>'d\<close>; how a float is printed and read is an argument
  of the definitions that need it (\<open>fmt\<close> and \<open>scan\<close>). Tables, functions and userdata
  only appear by their type name. \<open>sscanf\<close> needs a NUL-terminated string: reading from
  memory without a NUL is a fault.
\<close>

subsection \<open>Values\<close>

datatype 'd lua_value =
    LNil
  | LBoolean bool
  | LInteger int
  | LNumber 'd
  | LString bytes
  | LOther string

fun lua_typename :: "'d lua_value \<Rightarrow> string" where
  "lua_typename LNil = ''nil''"
| "lua_typename (LBoolean b) = ''boolean''"
| "lua_typename (LInteger i) = ''number''"
| "lua_typename (LNumber d) = ''number''"
| "lua_typename (LString s) = ''string''"
| "lua_typename (LOther t) = t"

text \<open>The literals \<open>str ''abc''\<close> of the C source.\<close>

definition str :: "string \<Rightarrow> bytes" where
  "str s = map (\<lambda>c. of_nat (of_char c)) s"

subsection \<open>Decimal numbers\<close>

fun nat_dec :: "nat \<Rightarrow> bytes" where
  "nat_dec n = (if n < 10 then [of_nat (48 + n)] else nat_dec (n div 10) @ [of_nat (48 + n mod 10)])"

declare nat_dec.simps [simp del]

definition int_dec :: "int \<Rightarrow> bytes" where
  "int_dec i = (if i < 0 then 0x2D # nat_dec (nat (- i)) else nat_dec (nat i))"

definition is_c_space :: "byte \<Rightarrow> bool" where
  "is_c_space c \<longleftrightarrow> c = 0x20 \<or> (0x09 \<le> c \<and> c \<le> 0x0D)"

fun digits_val :: "nat \<Rightarrow> bytes \<Rightarrow> nat" where
  "digits_val n (c # s) = (if is_digit c then digits_val (10 * n + unat (c - 0x30)) s else n)"
| "digits_val n [] = n"

text \<open>The integer at the start of a string, after white space and an optional sign.\<close>

definition scan_dec :: "bytes \<Rightarrow> int option" where
  "scan_dec s =
     (let s = dropWhile is_c_space s;
          neg = (s \<noteq> [] \<and> hd s = 0x2D);
          ds = (if s \<noteq> [] \<and> (hd s = 0x2D \<or> hd s = 0x2B) then tl s else s)
      in if ds \<noteq> [] \<and> is_digit (hd ds)
         then Some (if neg then - int (digits_val 0 ds) else int (digits_val 0 ds))
         else None)"

definition clamp :: "int \<Rightarrow> int" where
  "clamp i = max (- (2 ^ 63)) (min (2 ^ 63 - 1) i)"

text \<open>\<open>sscanf(s, fmt, &x)\<close>: \<open>ret None\<close> when nothing is converted and \<open>x\<close> stays unset.\<close>

definition sscanf_lld :: "bytes \<Rightarrow> (int option) exec" where
  "sscanf_lld mem =
     (if 0 \<in> set mem then ret (map_option clamp (scan_dec (takeWhile (\<lambda>c. c \<noteq> 0) mem)))
      else throw Out_Of_Bounds)"

definition sscanf_d :: "bytes \<Rightarrow> (int option) exec" where
  "sscanf_d mem = xbind (sscanf_lld mem) (\<lambda>r. ret (map_option (signed_take_bit 31) r))"

definition sscanf_lf :: "(bytes \<Rightarrow> 'd option) \<Rightarrow> bytes \<Rightarrow> ('d option) exec" where
  "sscanf_lf scan mem =
     (if 0 \<in> set mem then ret (scan (takeWhile (\<lambda>c. c \<noteq> 0) mem)) else throw Out_Of_Bounds)"

subsection \<open>Printing and reading back an integer\<close>

lemma is_digit_add: "n < 10 \<Longrightarrow> is_digit (of_nat (48 + n)) \<and> unat ((of_nat (48 + n) :: byte) - 0x30) = n"
proof -
  assume n: "n < 10"
  have u: "unat (of_nat (48 + n) :: byte) = 48 + n"
    using n by (intro unat_of_nat_byte) simp
  have "(of_nat (48 + n) :: byte) - 0x30 = of_nat n" by simp
  moreover have "unat (of_nat n :: byte) = n" using n by (intro unat_of_nat_byte) simp
  moreover have "is_digit (of_nat (48 + n))"
    using n u by (simp add: is_digit_def word_le_nat_alt del: of_nat_add)
  ultimately show ?thesis by simp
qed

lemma digits_val_append:
  "\<forall>c \<in> set xs. is_digit c \<Longrightarrow> digits_val n (xs @ ys) = digits_val (digits_val n xs) ys"
  by (induction xs arbitrary: n) auto

lemma nat_dec_digits: "\<forall>c \<in> set (nat_dec n). is_digit c"
proof (induction n rule: nat_dec.induct)
  case (1 n)
  then show ?case
    using is_digit_add[of n] is_digit_add[of "n mod 10"] by (subst nat_dec.simps) auto
qed

lemma nat_dec_not_Nil [simp]: "nat_dec n \<noteq> []"
  by (subst nat_dec.simps) auto

lemma digits_val_nat_dec [simp]: "digits_val 0 (nat_dec n) = n"
proof (induction n rule: nat_dec.induct)
  case (1 n)
  show ?case
  proof (cases "n < 10")
    case True
    then show ?thesis using is_digit_add[of n] by (subst nat_dec.simps) simp
  next
    case False
    then show ?thesis
      using 1 is_digit_add[of "n mod 10"] nat_dec_digits[of "n div 10"]
      by (subst nat_dec.simps) (simp add: digits_val_append)
  qed
qed

lemma digit_no_space: "is_digit c \<Longrightarrow> \<not> is_c_space c \<and> c \<noteq> 0x2D \<and> c \<noteq> 0x2B \<and> c \<noteq> 0"
  by (auto simp: is_digit_def is_c_space_def word_le_nat_alt)

lemma digits_val_stop:
  "\<forall>c \<in> set xs. is_digit c \<Longrightarrow> ys = [] \<or> \<not> is_digit (hd ys)
    \<Longrightarrow> digits_val n (xs @ ys) = digits_val n xs"
  by (cases ys) (auto simp: digits_val_append)

lemma scan_dec_int_dec:
  assumes "rest = [] \<or> \<not> is_digit (hd rest)"
  shows "scan_dec (int_dec i @ rest) = Some i"
proof -
  have dig: "is_digit (hd (nat_dec n @ rest))" for n
    using nat_dec_digits[of n] by (cases "nat_dec n") auto
  have drop: "dropWhile is_c_space (nat_dec n @ rest) = nat_dec n @ rest"
      "dropWhile is_c_space (nat_dec n @ rest) \<noteq> []" for n
    using nat_dec_digits[of n] digit_no_space by (cases "nat_dec n"; force)+
  have sp: "\<not> is_c_space 0x2D" by (simp add: is_c_space_def)
  have val: "digits_val 0 (nat_dec n @ rest) = n" for n
    using digits_val_stop[OF nat_dec_digits assms] by simp
  show ?thesis
    using dig[of "nat i"] dig[of "nat (- i)"] digit_no_space[OF dig]
    by (auto simp: int_dec_def scan_dec_def Let_def drop(1) sp val simp del: dropWhile_eq_Nil_conv)
qed

lemma int_dec_no_NUL: "0 \<notin> set (int_dec i)"
  using nat_dec_digits digit_no_space by (auto simp: int_dec_def)

lemma clamp_id: "- (2 ^ 63) \<le> i \<Longrightarrow> i < 2 ^ 63 \<Longrightarrow> clamp i = i"
  by (simp add: clamp_def)

text \<open>
  \<open>sscanf\<close> reads an integer back exactly when no digit follows it in memory, up to the NUL.
\<close>

lemma sscanf_lld_int_dec:
  assumes "- (2 ^ 63) \<le> i" "i < 2 ^ 63" and "0 \<in> set rest" "\<not> is_digit (hd rest)"
  shows "sscanf_lld (int_dec i @ rest) = ret (Some i)"
proof -
  have "takeWhile (\<lambda>c. c \<noteq> 0) (int_dec i @ rest) = int_dec i @ takeWhile (\<lambda>c. c \<noteq> 0) rest"
    using int_dec_no_NUL[of i] by (subst takeWhile_append2) auto
  moreover have "takeWhile (\<lambda>c. c \<noteq> 0) rest = [] \<or> \<not> is_digit (hd (takeWhile (\<lambda>c. c \<noteq> 0) rest))"
    using assms(4) by (cases rest) auto
  ultimately show ?thesis
    using assms by (simp add: sscanf_lld_def scan_dec_int_dec clamp_id)
qed

end
