(* ===== verification/LmdbTx.thy ===== *)
theory LmdbTx
  imports LuaDbOrder LuaValue
begin

text \<open>
  The transaction methods of \<open>src/src/lmdb.c\<close>: \<open>data\<close>, \<open>delete\<close>, \<open>get\<close>, \<open>put\<close>, \<open>next\<close>,
  \<open>order\<close>, \<open>iorder\<close> and \<open>_dump\<close>, with the conversion of Lua arguments to keys and of key
  segments to Lua values.

  The Lua stack is the list \<open>L\<close>; index \<open>i\<close> of the C code is \<open>L ! (i - 1)\<close> and index 1 is
  the transaction userdata. A method takes the transaction's \<open>MDB_txn\<close> (\<open>None\<close> when it is
  \<open>NULL\<close>) and returns the values it pushes; a Lua error is the fault \<open>Lua_Error\<close>. \<open>fmt\<close> and
  \<open>scan\<close> print and read floats, \<open>al\<close> is what \<open>malloc\<close> returns, and \<open>tail\<close> is the memory
  that follows the value of a node in the page: C string functions applied to a node's key
  run on into the value and into \<open>tail\<close>.
\<close>

subsection \<open>Lua arguments to keys\<close>

definition lua_tolstring :: "('d \<Rightarrow> bytes) \<Rightarrow> 'd lua_value \<Rightarrow> bytes option" where
  "lua_tolstring fmt v =
     (case v of
        LString s \<Rightarrow> Some s
      | LInteger i \<Rightarrow> Some (int_dec i)
      | LNumber d \<Rightarrow> Some (fmt d)
      | _ \<Rightarrow> None)"

text \<open>
  The stack slot \<open>lua_tolstring\<close> was applied to: a number is converted in place, so that
  \<open>lua_isinteger\<close>, asked afterwards, sees a string.
\<close>

definition tolstring_slot :: "('d \<Rightarrow> bytes) \<Rightarrow> 'd lua_value \<Rightarrow> 'd lua_value" where
  "tolstring_slot fmt v = (case lua_tolstring fmt v of None \<Rightarrow> v | Some s \<Rightarrow> LString s)"

definition lua_isinteger :: "'d lua_value \<Rightarrow> bool" where
  "lua_isinteger v = (case v of LInteger i \<Rightarrow> True | _ \<Rightarrow> False)"

text \<open>The case \<open>LUA_TNUMBER\<close>.\<close>

definition number_segment :: "('d \<Rightarrow> bytes) \<Rightarrow> 'd lua_value \<Rightarrow> (bytes \<times> byte) exec" where
  "number_segment fmt v =
     (case lua_tolstring fmt v of
        None \<Rightarrow> throw Null_Deref
      | Some s \<Rightarrow> ret (s, if lua_isinteger (tolstring_slot fmt v) then LMDB_INTEGER_TYPE else LMDB_NUMERIC_TYPE))"

text \<open>
  The loop over the arguments, with \<open>keys\<close>, \<open>lens\<close> and \<open>types\<close> as one list; no later iteration and
  no caller looks at a slot again. The error for a long segment passes one argument to a format
  with three directives.
\<close>

fun GetLmdbKeyFromLua_loop ::
    "('d \<Rightarrow> bytes) \<Rightarrow> bool \<Rightarrow> 'd lua_value list \<Rightarrow> (bytes \<times> size_t \<times> byte) list \<Rightarrow> size_t
      \<Rightarrow> ((bytes \<times> size_t \<times> byte) list \<times> size_t) exec" where
  "GetLmdbKeyFromLua_loop fmt nil_last [] elems len = ret (elems, len)"
| "GetLmdbKeyFromLua_loop fmt nil_last (v # vs) elems len =
     (let bad = throw (Lua_Error (''type '' @ [CHR 0x27] @ lua_typename v @ [CHR 0x27] @ '' not permitted in keys''))
      in xbind (case v of
             LNumber d \<Rightarrow> number_segment fmt v
           | LInteger i \<Rightarrow> number_segment fmt v
           | LString s \<Rightarrow> ret (s, LMDB_STRING_TYPE)
           | LBoolean b \<Rightarrow> ret (if b then [0x31] else [0x30], LMDB_BOOLEAN_TYPE)
           | LNil \<Rightarrow> if nil_last \<and> vs = [] then ret ([0], LMDB_EMPTY_TYPE) else bad
           | LOther t \<Rightarrow> bad) (\<lambda>(key, type).
         let l = mv_size key
         in if of_nat LMDB_MAX_KEY_SEG_LENGTH < l then throw Bad_Varargs
            else GetLmdbKeyFromLua_loop fmt nil_last vs (elems @ [(key, l, type)]) (len + l)))"

definition GetLmdbKeyFromLua ::
    "alloc \<Rightarrow> ('d \<Rightarrow> bytes) \<Rightarrow> 'd lua_value list \<Rightarrow> int \<Rightarrow> int \<Rightarrow> bool \<Rightarrow> (size_t \<times> bytes) exec" where
  "GetLmdbKeyFromLua al fmt L idx last_idx allow_nil_last =
     (let elems = last_idx - idx + 1
      in xbind (c_assert (0 \<le> elems)) (\<lambda>_.
         if int LMDB_MAX_KEY_SEGMENTS < elems
         then throw (Lua_Error ''max number of key segments is 32'')
         else
           xbind (GetLmdbKeyFromLua_loop fmt allow_nil_last
                    (take (nat elems) (drop (nat (idx - 1)) L)) [] 0) (\<lambda>(keys, len).
           xbind (GenerateLuaDbKey al len keys) (\<lambda>(err, len, tkey).
           if err \<noteq> 0 then throw (Lua_Error ''could not allocate memory for key'')
           else ret (len, the tkey)))))"

subsection \<open>Key segments to Lua values\<close>

text \<open>
  \<open>val\<close> points into memory; \<open>ret None\<close> is the result \<open>false\<close>. \<open>scanned\<close> pushes the variable
  \<open>sscanf\<close> was to set.
\<close>

definition scanned :: "('b \<Rightarrow> 'd lua_value) \<Rightarrow> 'b option \<Rightarrow> ('d lua_value option) exec" where
  "scanned f r = (case r of None \<Rightarrow> throw Uninitialised_Read | Some x \<Rightarrow> ret (Some (f x)))"

definition PushValueByType ::
    "(bytes \<Rightarrow> 'd option) \<Rightarrow> bytes \<Rightarrow> size_t \<Rightarrow> int \<Rightarrow> ('d lua_value option) exec" where
  "PushValueByType scan val len type =
     (if type = sint LMDB_STRING_TYPE then
           (if unat len \<le> length val then ret (Some (LString (take (unat len) val)))
            else throw Out_Of_Bounds)
         else if type = sint LMDB_NUMERIC_TYPE then xbind (sscanf_lf scan val) (scanned LNumber)
         else if type = sint LMDB_INTEGER_TYPE then xbind (sscanf_lld val) (scanned LInteger)
         else if type = sint LMDB_BOOLEAN_TYPE then
           xbind (sscanf_d val) (scanned (\<lambda>b. LBoolean (b \<noteq> 0)))
         else ret None)"

subsection \<open>LMDB errors\<close>

fun mdb_strerror :: "mdb_rc \<Rightarrow> string" where
  "mdb_strerror MDB_SUCCESS = ''Successful return: 0''"
| "mdb_strerror MDB_NOTFOUND = ''MDB_NOTFOUND: No matching key/data pair found''"
| "mdb_strerror MDB_BAD_TXN = ''MDB_BAD_TXN: Transaction cannot recover - it must be aborted''"
| "mdb_strerror MDB_BAD_VALSIZE =
     ''MDB_BAD_VALSIZE: Unsupported size of key/DB name/data, or wrong DUPFIXED size''"
| "mdb_strerror MDB_EINVAL = ''Invalid argument''"
| "mdb_strerror MDB_EACCES = ''Permission denied''"
| "mdb_strerror (MDB_PAGE_RC e) =
     (case e of
        MDB_PAGE_NOTFOUND \<Rightarrow> ''MDB_PAGE_NOTFOUND: Requested page not found''
      | MDB_CORRUPTED \<Rightarrow> ''MDB_CORRUPTED: Located page was wrong type''
      | MDB_MAP_FULL \<Rightarrow> ''MDB_MAP_FULL: Environment mapsize limit reached''
      | MDB_TXN_FULL \<Rightarrow> ''MDB_TXN_FULL: Transaction has too many dirty pages - transaction too big''
      | MDB_CURSOR_FULL \<Rightarrow> ''MDB_CURSOR_FULL: Internal error - cursor stack limit reached''
      | MDB_PAGE_FULL \<Rightarrow> ''MDB_PAGE_FULL: Internal error - page has no more space''
      | ENOMEM \<Rightarrow> ''Cannot allocate memory''
      | EIO \<Rightarrow> ''Input/output error''
      | ENOSPC \<Rightarrow> ''No space left on device'')"

text \<open>The main database handle is 1, so only the transaction decides.\<close>

definition mdb_cursor_open :: "mdb_txn option \<Rightarrow> mdb_rc" where
  "mdb_cursor_open txn =
     (case txn of None \<Rightarrow> MDB_EINVAL | Some t \<Rightarrow> if mt_error t then MDB_BAD_TXN else MDB_SUCCESS)"

subsection \<open>get, put and delete\<close>

definition LmdbTx_Get ::
    "alloc \<Rightarrow> ('d \<Rightarrow> bytes) \<Rightarrow> mdb_txn option \<Rightarrow> 'd lua_value list \<Rightarrow> ('d lua_value list) exec" where
  "LmdbTx_Get al fmt txn L =
     xbind (GetLmdbKeyFromLua al fmt L 2 (int (length L)) False) (\<lambda>(len, tkey).
     xbind (mdb_get CompareKeys txn tkey) (\<lambda>(err, val).
     if err = MDB_NOTFOUND then ret [LNil]
     else if err \<noteq> MDB_SUCCESS then throw (Lua_Error (mdb_strerror err))
     else ret [LString (the val)]))"

text \<open>\<open>put\<close> and \<open>delete\<close> can fail after they changed the transaction, and Lua code can catch the error: the
  message is \<open>Inl\<close>, with the transaction it leaves.\<close>

definition LmdbTx_Put ::
    "pager \<Rightarrow> alloc \<Rightarrow> ('d \<Rightarrow> bytes) \<Rightarrow> mdb_txn option \<Rightarrow> 'd lua_value list
      \<Rightarrow> ((string + 'd lua_value list) \<times> mdb_txn option) exec" where
  "LmdbTx_Put P al fmt txn L =
     (let tval = (if 2 \<le> length L then lua_tolstring fmt (L ! 1) else None);
          val = (case tval of None \<Rightarrow> [] | Some s \<Rightarrow> s)
      in xbind (GetLmdbKeyFromLua al fmt L 3 (int (length L)) False) (\<lambda>(len, tkey).
         xbind (mdb_put P CompareKeys txn tkey val) (\<lambda>(err, txn').
         if err \<noteq> MDB_SUCCESS then ret (Inl (mdb_strerror err), txn')
         else ret (Inr [], txn'))))"

definition LmdbTx_Delete ::
    "pager \<Rightarrow> alloc \<Rightarrow> ('d \<Rightarrow> bytes) \<Rightarrow> mdb_txn option \<Rightarrow> 'd lua_value list
      \<Rightarrow> ((string + 'd lua_value list) \<times> mdb_txn option) exec" where
  "LmdbTx_Delete P al fmt txn L =
     xbind (GetLmdbKeyFromLua al fmt L 2 (int (length L)) False) (\<lambda>(len, tkey).
     xbind (mdb_del P CompareKeys txn tkey) (\<lambda>(err, txn').
     if err = MDB_NOTFOUND then ret (Inr [LBoolean False], txn')
     else if err \<noteq> MDB_SUCCESS then ret (Inl (mdb_strerror err), txn')
     else ret (Inr [LBoolean True], txn')))"

subsection \<open>data\<close>

definition LMDB_DATA_NO_DATA :: int where "LMDB_DATA_NO_DATA = 0"
definition LMDB_DATA_HAS_DATA :: int where "LMDB_DATA_HAS_DATA = 1"
definition LMDB_DATA_HAS_CHILDREN :: int where "LMDB_DATA_HAS_CHILDREN = 10"

text \<open>The memory a node's key points to.\<close>

definition node_mem :: "bytes \<Rightarrow> node \<Rightarrow> bytes" where
  "node_mem tail n = fst n @ snd n @ tail"

definition LmdbTx_Data ::
    "alloc \<Rightarrow> ('d \<Rightarrow> bytes) \<Rightarrow> bytes \<Rightarrow> mdb_txn option \<Rightarrow> 'd lua_value list
      \<Rightarrow> ('d lua_value list) exec" where
  "LmdbTx_Data al fmt tail txn L =
     (let err = mdb_cursor_open txn
      in if err \<noteq> MDB_SUCCESS then throw (Lua_Error (mdb_strerror err))
      else
        let t = the txn; response = LMDB_DATA_NO_DATA
        in xbind (GetLmdbKeyFromLua al fmt L 2 (int (length L)) True) (\<lambda>(klen, kstr).
           xbind (mdb_cursor_get CompareKeys t mdb_cursor_init kstr MDB_SET)
             (\<lambda>(keyfound, cur, key, _).
           let response = (if keyfound = MDB_SUCCESS then response + LMDB_DATA_HAS_DATA else response)
           in xbind (mdb_cursor_get CompareKeys t cur key MDB_NEXT) (\<lambda>(childfound, cur, key, node).
              let mem = (case node of None \<Rightarrow> key | Some n \<Rightarrow> node_mem tail n)
              in xbind (if 0 < klen then strncmp kstr mem (unat klen) else ret 1) (\<lambda>c.
                 if 0 < klen \<and> c = 0 \<and> childfound = MDB_SUCCESS
                 then ret [LInteger (response + LMDB_DATA_HAS_CHILDREN)]
                 else ret [LInteger response])))))"

subsection \<open>next and order\<close>

text \<open>A \<open>char *\<close> that is dereferenced.\<close>

definition deref :: "bytes option \<Rightarrow> bytes exec" where
  "deref p = (case p of None \<Rightarrow> throw Null_Deref | Some s \<Rightarrow> ret s)"

text \<open>
  The steps \<open>LmdbTx_Next\<close> and \<open>LuaDbOrderTxClosure\<close> share once a node is found: the prefix must
  match, and the first segment after it is pushed. The result has the data pointer's memory,
  the length and the type of the segment with the value pushed for it.
\<close>

definition push_child_segment ::
    "(bytes \<Rightarrow> 'd option) \<Rightarrow> bytes \<Rightarrow> bytes option \<Rightarrow> size_t \<Rightarrow> node
      \<Rightarrow> ((bytes \<times> size_t \<times> int \<times> 'd lua_value) option) exec" where
  "push_child_segment scan tail prefix pfxlen node =
     (let key = fst node; mem = node_mem tail node
      in xbind (if 0 < pfxlen then xbind (deref prefix) (\<lambda>p. strncmp p mem (unat pfxlen)) else ret 0)
        (\<lambda>c.
         if c \<noteq> 0 then ret None
         else
           xbind (FindFirstDifferentKeyNode (case prefix of None \<Rightarrow> [] | Some p \<Rightarrow> p) pfxlen key) (\<lambda>seg.
           case seg of
             None \<Rightarrow> ret None
           | Some (off, len, type) \<Rightarrow>
               xbind (PushValueByType scan (drop (unat off) mem) len type) (\<lambda>v.
               case v of
                 None \<Rightarrow> ret None
               | Some x \<Rightarrow> ret (Some (drop (unat off) mem, len, type, x))))))"

definition LmdbTx_Next ::
    "alloc \<Rightarrow> ('d \<Rightarrow> bytes) \<Rightarrow> (bytes \<Rightarrow> 'd option) \<Rightarrow> bytes \<Rightarrow> mdb_txn option \<Rightarrow> 'd lua_value list
      \<Rightarrow> ('d lua_value list) exec" where
  "LmdbTx_Next al fmt scan tail txn L =
     (let err = mdb_cursor_open txn
      in if err \<noteq> MDB_SUCCESS then throw (Lua_Error (mdb_strerror err))
      else
        let t = the txn
        in xbind (GetLmdbKeyFromLua al fmt L 2 (int (length L)) True) (\<lambda>(klen, kstr).
           xbind (if 0 < klen then ComputeNextLexicalValue kstr klen else ret kstr) (\<lambda>kstr.
           xbind (GetKeyPrefix al kstr klen) (\<lambda>(pfxlen, prefix).
           xbind (mdb_cursor_get CompareKeys t mdb_cursor_init kstr
                    (if 0 < klen then MDB_SET_RANGE else MDB_FIRST)) (\<lambda>(rc, cur, key, node).
           if rc \<noteq> MDB_SUCCESS then ret [LNil]
           else
             xbind (push_child_segment scan tail prefix pfxlen (the node)) (\<lambda>seg.
             case seg of None \<Rightarrow> ret [LNil] | Some (_, _, _, v) \<Rightarrow> ret [v]))))))"

record LuaDB_LmdbOrder =
  ord_cur :: mdb_cursor
  ord_prefix :: "bytes option"
  ord_pfxlen :: size_t
  ord_last :: "bytes option"
  ord_lastlen :: size_t
  ord_op :: mdb_cursor_op
  ord_iters :: int \<comment> \<open>the second upvalue of the closure\<close>

definition CreateLuaDbOrderClosure ::
    "alloc \<Rightarrow> ('d \<Rightarrow> bytes) \<Rightarrow> mdb_txn option \<Rightarrow> 'd lua_value list \<Rightarrow> bool \<Rightarrow> LuaDB_LmdbOrder exec" where
  "CreateLuaDbOrderClosure al fmt txn L with_enum =
     (let err = mdb_cursor_open txn
      in if err \<noteq> MDB_SUCCESS then throw (Lua_Error (mdb_strerror err))
      else
        xbind (GetLmdbKeyFromLua al fmt L 2 (int (length L)) True) (\<lambda>(len, last).
        xbind (GetKeyPrefix al last len) (\<lambda>(pfxlen, pfx).
        xbind (if 0 < len then xbind (ComputeNextLexicalValue last len) (\<lambda>l. ret (Some l)) else ret None)
          (\<lambda>last.
        ret \<lparr>ord_cur = mdb_cursor_init, ord_prefix = pfx, ord_pfxlen = pfxlen, ord_last = last,
             ord_lastlen = len, ord_op = MDB_SET_RANGE, ord_iters = (if with_enum then 0 else - 1)\<rparr>))))"

definition LmdbTx_Order ::
    "alloc \<Rightarrow> ('d \<Rightarrow> bytes) \<Rightarrow> mdb_txn option \<Rightarrow> 'd lua_value list \<Rightarrow> LuaDB_LmdbOrder exec" where
  "LmdbTx_Order al fmt txn L = CreateLuaDbOrderClosure al fmt txn L False"

definition LmdbTx_IOrder ::
    "alloc \<Rightarrow> ('d \<Rightarrow> bytes) \<Rightarrow> mdb_txn option \<Rightarrow> 'd lua_value list \<Rightarrow> LuaDB_LmdbOrder exec" where
  "LmdbTx_IOrder al fmt txn L = CreateLuaDbOrderClosure al fmt txn L True"

definition LuaDbOrderTxClosure ::
    "alloc \<Rightarrow> (bytes \<Rightarrow> 'd option) \<Rightarrow> bytes \<Rightarrow> mdb_txn \<Rightarrow> LuaDB_LmdbOrder
      \<Rightarrow> ('d lua_value list \<times> LuaDB_LmdbOrder) exec" where
  "LuaDbOrderTxClosure al scan tail t ord =
     (let iters = ord_iters ord;
          ord = ord\<lparr>ord_op := if 0 < ord_lastlen ord then MDB_SET_RANGE else MDB_FIRST\<rparr>
      in xbind (if 0 < ord_lastlen ord then deref (ord_last ord) else ret []) (\<lambda>key.
         xbind (mdb_cursor_get CompareKeys t (ord_cur ord) key (ord_op ord)) (\<lambda>(rc, cur, key, node).
         let ord = ord\<lparr>ord_cur := cur\<rparr>
         in if rc \<noteq> MDB_SUCCESS then ret ([], ord)
            else
              xbind (push_child_segment scan tail (ord_prefix ord) (ord_pfxlen ord) (the node)) (\<lambda>seg.
              case seg of
                None \<Rightarrow> ret ([], ord)
              | Some (mem, len, type, v) \<Rightarrow>
                  let ord = (if 0 \<le> iters then ord\<lparr>ord_iters := iters + 1\<rparr> else ord)
                  in xbind (ReplaceLastKeySegment al (ord_last ord) (ord_lastlen ord) len type mem
                              (ord_lastlen ord)) (\<lambda>(newlen, new).
                     xbind (deref new) (\<lambda>new.
                     xbind (ComputeNextLexicalValue new newlen) (\<lambda>last.
                     ret (if 0 \<le> iters then [LInteger (iters + 1), v] else [v],
                          ord\<lparr>ord_last := Some last, ord_lastlen := newlen\<rparr>))))))))"

subsection \<open>Arguments as segments\<close>

text \<open>The segments a list of Lua arguments stands for; \<open>None\<close> when one is not permitted.\<close>

fun lua_segments :: "('d \<Rightarrow> bytes) \<Rightarrow> bool \<Rightarrow> 'd lua_value list \<Rightarrow> segment list option" where
  "lua_segments fmt nil_last [] = Some []"
| "lua_segments fmt nil_last (v # vs) =
     Option.bind
       (case v of
          LNumber d \<Rightarrow> Some (LMDB_NUMERIC_TYPE, fmt d)
        | LInteger i \<Rightarrow> Some (LMDB_NUMERIC_TYPE, int_dec i)
        | LString s \<Rightarrow> Some (LMDB_STRING_TYPE, s)
        | LBoolean b \<Rightarrow> Some (LMDB_BOOLEAN_TYPE, if b then [0x31] else [0x30])
        | LNil \<Rightarrow> if nil_last \<and> vs = [] then Some (LMDB_EMPTY_TYPE, [0]) else None
        | LOther t \<Rightarrow> None)
       (\<lambda>s. map_option ((#) s) (lua_segments fmt nil_last vs))"

lemma lua_segments_length: "lua_segments fmt nl vs = Some segs \<Longrightarrow> length segs = length vs"
  by (induction vs arbitrary: segs) (auto simp: bind_eq_Some_conv)

lemma seg_length_ok:
  assumes "length d \<le> 255"
  shows "\<not> (of_nat LMDB_MAX_KEY_SEG_LENGTH :: size_t) < mv_size d"
  using assms unat_mv_size[of d] by (simp add: LMDB_MAX_KEY_SEG_LENGTH_def word_less_nat_alt)

lemma GetLmdbKeyFromLua_loop_ok:
  assumes "lua_segments fmt nl vs = Some segs" and "\<forall>s \<in> set segs. length (snd s) \<le> 255"
  shows "GetLmdbKeyFromLua_loop fmt nl vs elems len
       = ret (elems @ map key_elem segs, len + of_nat (sum_list (map (length \<circ> snd) segs)))"
  using assms
proof (induction vs arbitrary: segs elems len)
  case (Cons v vs)
  then obtain s segs' where s: "segs = s # segs'" "lua_segments fmt nl vs = Some segs'"
    by (auto simp: bind_eq_Some_conv)
  have len: "\<not> (of_nat LMDB_MAX_KEY_SEG_LENGTH :: size_t) < mv_size (snd s)"
    using Cons.prems s by (intro seg_length_ok) simp
  have step: "GetLmdbKeyFromLua_loop fmt nl (v # vs) elems len
      = GetLmdbKeyFromLua_loop fmt nl vs (elems @ [key_elem s]) (len + mv_size (snd s))"
    using Cons.prems(1) s len
    by (cases v) (auto simp: key_elem_def mv_size_def Let_def number_segment_def tolstring_slot_def lua_tolstring_def
        lua_isinteger_def split: if_splits)
  show ?case
    unfolding step using Cons.IH[OF s(2)] Cons.prems(2) s(1) by (simp add: mv_size_def)
qed simp

lemma GetLmdbKeyFromLua_ok:
  assumes "lua_segments fmt nl vs = Some segs" and "wf_segs segs"
    and "idx = int (length pre) + 1" and "last_idx = int (length pre + length vs)"
  shows "GetLmdbKeyFromLua (Some junk) fmt (pre @ vs) idx last_idx nl
       = ret (mv_size (encode_key segs), encode_key segs)"
proof -
  have "\<not> int LMDB_MAX_KEY_SEGMENTS < int (length vs)"
    using assms(2) lua_segments_length[OF assms(1)] by (simp add: wf_segs_def)
  moreover have "GetLmdbKeyFromLua_loop fmt nl vs [] 0
      = ret (map key_elem segs, of_nat (sum_list (map (length \<circ> snd) segs)))"
    using GetLmdbKeyFromLua_loop_ok[OF assms(1), of "[]" 0] assms(2)
    by (force simp: wf_segs_def wf_seg_def)
  moreover have "length (encode_key segs) < 2 ^ 63" using length_wf_key[OF assms(2)] by simp
  ultimately show ?thesis
    using GenerateLuaDbKey_encode[of segs junk] assms(3,4)
    by (simp add: GetLmdbKeyFromLua_def Let_def)
qed

text \<open>A method called as \<open>tx:m(v1, ..., vn)\<close>: the object is at index 1.\<close>

lemma GetLmdbKeyFromLua_method:
  assumes "lua_segments fmt nl vs = Some segs" and "wf_segs segs"
  shows "GetLmdbKeyFromLua (Some junk) fmt (tx # vs) 2 (int (length (tx # vs))) nl
       = ret (mv_size (encode_key segs), encode_key segs)"
  using GetLmdbKeyFromLua_ok[OF assms, of 2 "[tx]"] by simp

subsection \<open>get, put and delete on the abstract map\<close>

text \<open>A transaction that can be used: its page is sorted and it is not marked broken.\<close>

definition tx_ok :: "mdb_txn \<Rightarrow> bool" where
  "tx_ok t \<longleftrightarrow> db_ok (mt_nodes t) \<and> \<not> mt_error t"

definition lua_key :: "('d \<Rightarrow> bytes) \<Rightarrow> 'd lua_value list \<Rightarrow> segment list \<Rightarrow> bool" where
  "lua_key fmt vs segs \<longleftrightarrow> lua_segments fmt False vs = Some segs \<and> wf_segs segs \<and> segs \<noteq> []"

lemma LmdbTx_Get_map:
  assumes "tx_ok t" and "lua_key fmt vs segs"
  shows "LmdbTx_Get (Some junk) fmt (Some t) (tx # vs)
       = ret (case db_map (mt_nodes t) (key_rank segs) of None \<Rightarrow> [LNil] | Some v \<Rightarrow> [LString v])"
  using assms get_encode[of t segs] GetLmdbKeyFromLua_method[of fmt False vs segs junk tx]
  by (simp add: LmdbTx_Get_def tx_ok_def lua_key_def split: option.splits)

text \<open>The error a write can raise when the page functions do not all succeed; the transaction is then
  unchanged or broken.\<close>

definition page_failure :: "pager \<Rightarrow> mdb_txn \<Rightarrow> string \<Rightarrow> mdb_txn \<Rightarrow> bool" where
  "page_failure P t m t' \<longleftrightarrow> \<not> pager_ok P \<and> (\<exists>e. m = mdb_strerror (MDB_PAGE_RC e)) \<and> (t' = t \<or> mt_error t')"

lemma LmdbTx_Put_map:
  assumes "tx_ok t" "\<not> mt_rdonly t" and "lua_key fmt vs segs"
    and "length (encode_key segs) \<le> ENV_MAXKEY" and "lua_tolstring fmt v = Some d"
  shows "\<exists>r t'. LmdbTx_Put P (Some junk) fmt (Some t) (tx # v # vs) = ret (r, Some t')
       \<and> (case r of
            Inr vs' \<Rightarrow> vs' = [] \<and> length d \<le> MAXDATASIZE \<and> tx_ok t' \<and> \<not> mt_rdonly t'
              \<and> db_map (mt_nodes t') = (db_map (mt_nodes t))(key_rank segs \<mapsto> d)
          | Inl m \<Rightarrow> MAXDATASIZE < length d \<and> m = mdb_strerror MDB_BAD_VALSIZE \<and> t' = t
              \<or> length d \<le> MAXDATASIZE \<and> page_failure P t m t')"
proof -
  have key: "GetLmdbKeyFromLua (Some junk) fmt (tx # v # vs) 3 (int (length (tx # v # vs))) False
      = ret (mv_size (encode_key segs), encode_key segs)"
    using GetLmdbKeyFromLua_ok[of fmt False vs segs 3 "[tx, v]"] assms(3) by (simp add: lua_key_def)
  show ?thesis
  proof (cases "MAXDATASIZE < length d")
    case True
    then show ?thesis
      using put_too_long[of segs d t P] key assms by (simp add: LmdbTx_Put_def tx_ok_def lua_key_def)
  next
    case False
    then show ?thesis
      using put_encode[of t segs d P] key assms
      by (auto simp: LmdbTx_Put_def tx_ok_def lua_key_def page_failure_def simp del: mdb_strerror.simps)
  qed
qed

lemma LmdbTx_Delete_map:
  assumes "tx_ok t" "\<not> mt_rdonly t" and "lua_key fmt vs segs"
  shows "\<exists>r t'. LmdbTx_Delete P (Some junk) fmt (Some t) (tx # vs) = ret (r, Some t')
       \<and> (case r of
            Inr vs' \<Rightarrow> vs' = [LBoolean (db_map (mt_nodes t) (key_rank segs) \<noteq> None)] \<and> tx_ok t' \<and> \<not> mt_rdonly t'
              \<and> db_map (mt_nodes t') = (db_map (mt_nodes t))(key_rank segs := None)
          | Inl m \<Rightarrow> db_map (mt_nodes t) (key_rank segs) \<noteq> None \<and> page_failure P t m t')"
proof -
  have "(\<exists>nodes'. mdb_del P CompareKeys (Some t) (encode_key segs)
       = ret (if db_map (mt_nodes t) (key_rank segs) = None then MDB_NOTFOUND else MDB_SUCCESS,
              Some (t\<lparr>mt_nodes := nodes'\<rparr>))
       \<and> db_ok nodes' \<and> db_map nodes' = (db_map (mt_nodes t))(key_rank segs := None))
     \<or> \<not> pager_ok P \<and> db_map (mt_nodes t) (key_rank segs) \<noteq> None
       \<and> (\<exists>e t'. mdb_del P CompareKeys (Some t) (encode_key segs) = ret (MDB_PAGE_RC e, Some t')
         \<and> (t' = t \<or> mt_error t'))" (is "(\<exists>n. ?removed n) \<or> ?failed")
    using del_encode[of t segs P] assms by (auto simp: tx_ok_def lua_key_def)
  then consider (removed) nodes' where "?removed nodes'" | (failed) ?failed by blast
  then show ?thesis
  proof cases
    case removed
    then show ?thesis
      using GetLmdbKeyFromLua_method[of fmt False vs segs junk tx] assms
      by (intro exI[of _ "Inr [LBoolean (db_map (mt_nodes t) (key_rank segs) \<noteq> None)]"] exI[of _ "t\<lparr>mt_nodes := nodes'\<rparr>"])
        (simp add: LmdbTx_Delete_def tx_ok_def lua_key_def)
  next
    case failed
    then show ?thesis
      using GetLmdbKeyFromLua_method[of fmt False vs segs junk tx] assms
      by (auto simp: LmdbTx_Delete_def lua_key_def page_failure_def simp del: mdb_strerror.simps)
  qed
qed

lemma LmdbTx_Get_error:
  assumes "mt_error t" and "lua_key fmt vs segs"
  shows "LmdbTx_Get (Some junk) fmt (Some t) (tx # vs) = throw (Lua_Error (mdb_strerror MDB_BAD_TXN))"
  using assms mdb_get_error[of t] GetLmdbKeyFromLua_method[of fmt False vs segs junk tx]
  by (simp add: LmdbTx_Get_def lua_key_def)

subsection \<open>Prefix tests\<close>

text \<open>
  Segments whose encoding has no NUL byte, so that \<open>strncmp\<close> compares all of it: a type, some
  data, no NUL in the data.
\<close>

definition strncmp_safe :: "segment list \<Rightarrow> bool" where
  "strncmp_safe segs \<longleftrightarrow> (\<forall>s \<in> set segs. fst s \<noteq> 0 \<and> snd s \<noteq> [] \<and> 0 \<notin> set (snd s) \<and> length (snd s) \<le> 127)"

lemma strncmp_safe_simps [simp]:
  "strncmp_safe []"
  "strncmp_safe (s # segs) \<longleftrightarrow> fst s \<noteq> 0 \<and> snd s \<noteq> [] \<and> 0 \<notin> set (snd s) \<and> length (snd s) \<le> 127
     \<and> strncmp_safe segs"
  "strncmp_safe (xs @ ys) \<longleftrightarrow> strncmp_safe xs \<and> strncmp_safe ys"
  by (auto simp: strncmp_safe_def)

lemma strncmp_safe_NUL_free: "strncmp_safe segs \<Longrightarrow> NUL_free segs"
  by (simp add: strncmp_safe_def NUL_free_def)

lemma strncmp_safe_no_NUL: "strncmp_safe segs \<Longrightarrow> 0 \<notin> set (encode_key segs)"
proof (induction segs)
  case (Cons s segs)
  have "unat (of_nat (length (snd s)) :: byte) = length (snd s)"
    using Cons.prems by (intro unat_of_nat_byte) simp
  then have "(of_nat (length (snd s)) :: byte) \<noteq> 0"
    using Cons.prems by (cases s) (auto simp flip: unat_eq_0)
  then show ?case using Cons by (simp add: encode_seg_def)
qed simp

lemma strncmp_prefix:
  assumes "0 \<notin> set xs" and "length xs \<le> length ys"
  shows "\<exists>c. strncmp xs ys (length xs) = ret c \<and> (c = 0 \<longleftrightarrow> take (length xs) ys = xs)"
  using assms
proof (induction xs arbitrary: ys)
  case (Cons x xs)
  then obtain y ys' where y: "ys = y # ys'" by (cases ys) auto
  consider "x < y" | "y < x" | "x = y" by (metis linorder_less_linear)
  then show ?case
    using Cons.prems Cons.IH[of ys'] y by cases auto
qed simp

text \<open>
  When the bytes at a key start with an encoded prefix, one of the two segment lists extends
  the other: the match may run past the end of a shorter key into its value.
\<close>

lemma encode_key_prefix:
  assumes "short_segs as" "short_segs bs"
    and "take (length (encode_key as)) (encode_key bs @ m) = encode_key as"
  shows "(\<exists>r. bs = as @ r) \<or> (\<exists>r. r \<noteq> [] \<and> as = bs @ r)"
  using assms
proof (induction as arbitrary: bs)
  case (Cons a as)
  show ?case
  proof (cases bs)
    case (Cons b bs')
    have len: "length (snd a) = length (snd b)"
    proof -
      have "(of_nat (length (snd a)) :: byte) = of_nat (length (snd b))"
        using Cons.prems(3) Cons by (simp add: encode_seg_def)
      moreover have "length (snd a) < 256" "length (snd b) < 256"
        using Cons.prems(1,2) Cons by simp_all
      ultimately show ?thesis by (metis unat_of_nat_byte)
    qed
    then have ab: "a = b" and rest: "take (length (encode_key as)) (encode_key bs' @ m) = encode_key as"
      using Cons.prems(3) Cons by (auto simp: encode_seg_def prod_eq_iff)
    show ?thesis
      using Cons.IH[OF _ _ rest] Cons.prems(1,2) Cons ab by auto
  qed auto
qed auto

lemma key_rank_append_less: "r \<noteq> [] \<Longrightarrow> key_rank bs < key_rank (bs @ r)"
  by (induction bs) (cases r; auto)+

lemma key_rank_append_le: "key_rank bs \<le> key_rank (bs @ r)"
  by (induction bs) auto

text \<open>
  A node at or above a prefix in key order starts with the prefix, as \<open>strncmp\<close> sees it, exactly
  when its key extends the prefix.
\<close>

definition extends :: "segment list \<Rightarrow> node \<Rightarrow> bool" where
  "extends ps n \<longleftrightarrow> take (length ps) (decode_key (fst n)) = ps"

lemma extends_iff: "extends ps n \<longleftrightarrow> (\<exists>r. decode_key (fst n) = ps @ r)"
  by (auto simp: extends_def) (metis append_take_drop_id)

lemma strncmp_node:
  assumes "strncmp_safe ps" and "valid_key (fst n)"
    and "key_rank ps \<le> db_rank (fst n)" and "length (encode_key ps) \<le> length (node_mem tail n)"
    and "length (encode_key ps) < 2 ^ 64"
  shows "\<exists>c. strncmp (encode_key ps) (node_mem tail n) (unat (mv_size (encode_key ps))) = ret c
       \<and> (c = 0 \<longleftrightarrow> extends ps n)"
proof -
  obtain bs where bs: "wf_segs bs" "fst n = encode_key bs" "decode_key (fst n) = bs"
    using assms(2) by (rule valid_key_obtain)
  have sp: "short_segs ps" using assms(1) by (auto simp: strncmp_safe_def short_segs_def)
  have "take (length (encode_key ps)) (node_mem tail n) = encode_key ps \<longleftrightarrow> extends ps n"
  proof
    assume "take (length (encode_key ps)) (node_mem tail n) = encode_key ps"
    then have "(\<exists>r. bs = ps @ r) \<or> (\<exists>r. r \<noteq> [] \<and> ps = bs @ r)"
      using encode_key_prefix[OF sp wf_segs_short[OF bs(1)], of "snd n @ tail"] bs(2)
      by (simp add: node_mem_def)
    moreover have "\<not> (r \<noteq> [] \<and> ps = bs @ r)" for r
      using key_rank_append_less[of r bs] assms(3) bs(3) by (auto simp: db_rank_def)
    ultimately show "extends ps n" using bs(3) by (auto simp: extends_iff)
  next
    assume "extends ps n"
    then show "take (length (encode_key ps)) (node_mem tail n) = encode_key ps"
      using bs by (auto simp: extends_iff node_mem_def)
  qed
  moreover have "unat (mv_size (encode_key ps)) = length (encode_key ps)"
    using assms(5) by (rule unat_mv_size)
  ultimately show ?thesis
    using strncmp_prefix[OF strncmp_safe_no_NUL[OF assms(1)] assms(4)] by simp
qed

subsection \<open>The cursor on the page\<close>

lemma cursor_search:
  assumes "tx_ok t" and "valid_key key" "key \<noteq> []" and "op = MDB_SET \<or> op = MDB_SET_RANGE"
  defines "i \<equiv> page_index db_rank (mt_nodes t) key"
  defines "found \<equiv> (if op = MDB_SET then page_hit db_rank (mt_nodes t) key else i < length (mt_nodes t))"
  shows "\<exists>mc'. mdb_cursor_get CompareKeys t mc key op
      = ret (if found then (MDB_SUCCESS, mc', if op = MDB_SET then key else fst (mt_nodes t ! i), Some (mt_nodes t ! i))
             else (MDB_NOTFOUND, mc', key, None))
     \<and> (mt_nodes t \<noteq> [] \<longrightarrow> mc_initialized mc' \<and> mc_ki mc' = i \<and> (\<not> mc_initialized mc \<longrightarrow> \<not> mc_eof mc'))
     \<and> (mt_nodes t = [] \<longrightarrow> mc_initialized mc' = mc_initialized mc)"
proof (cases "mt_nodes t = []")
  case True
  then show ?thesis
    using assms(1,3,4)
    by (auto simp: mdb_cursor_get_def mdb_cursor_set_def tx_ok_def found_def i_def page_hit_def)
next
  case False
  have ok: "page_ok valid_key db_rank (mt_nodes t)" using assms(1) by (simp add: tx_ok_def db_ok_def)
  from luadb.cursor_set[OF ok assms(2,3) False, of mc "op = MDB_SET"] assms(1,4) False
  show ?thesis
    by (elim exE conjE disjE)
      (auto simp: mdb_cursor_get_def tx_ok_def found_def i_def page_hit_def Let_def split: if_splits)
qed

lemma cursor_search_range:
  assumes "tx_ok t" and "valid_key key" "key \<noteq> []"
  defines "i \<equiv> page_index db_rank (mt_nodes t) key"
  shows "\<exists>mc'. mdb_cursor_get CompareKeys t mc key MDB_SET_RANGE
      = ret (if i < length (mt_nodes t) then (MDB_SUCCESS, mc', fst (mt_nodes t ! i), Some (mt_nodes t ! i))
             else (MDB_NOTFOUND, mc', key, None))"
  using cursor_search[OF assms(1-3) disjI2[OF refl], of mc]
  by (elim exE conjE) (rule exI, simp add: i_def)

subsection \<open>data\<close>

lemma db_map_hit:
  assumes "tx_ok t" "wf_segs ps"
  shows "page_hit db_rank (mt_nodes t) (encode_key ps) \<longleftrightarrow> db_map (mt_nodes t) (key_rank ps) \<noteq> None"
  using page_map_rank[of valid_key db_rank "mt_nodes t" "encode_key ps"] assms
  by (simp add: tx_ok_def db_ok_def db_map_def db_rank_encode)

lemma LmdbTx_Data_index:
  assumes t: "tx_ok t" and ps: "lua_segments fmt True vs = Some ps" "wf_segs ps" "ps \<noteq> []" "strncmp_safe ps"
    and "length (encode_key ps) \<le> length tail"
  defines "i \<equiv> page_index db_rank (mt_nodes t) (encode_key ps)"
  shows "LmdbTx_Data (Some junk) fmt tail (Some t) (tx # vs)
       = ret [LInteger ((if db_map (mt_nodes t) (key_rank ps) \<noteq> None then 1 else 0)
           + (if i + 1 < length (mt_nodes t) \<and> extends ps (mt_nodes t ! (i + 1)) then 10 else 0))]"
proof -
  let ?k = "encode_key ps" and ?ns = "mt_nodes t"
  have k: "valid_key ?k" "?k \<noteq> []" using ps by (simp_all add: valid_key_encode)
  have len: "length ?k < 2 ^ 64" using length_wf_key[OF ps(2)] by simp
  have pos: "0 < mv_size ?k" using at_less_size[of "[]" ?k] len k by simp
  note hit = db_map_hit[OF t ps(2)]
  obtain mc where mc: "mdb_cursor_get CompareKeys t mdb_cursor_init ?k MDB_SET
      = ret (if db_map ?ns (key_rank ps) \<noteq> None then (MDB_SUCCESS, mc, ?k, Some (?ns ! i))
             else (MDB_NOTFOUND, mc, ?k, None))"
      "?ns \<noteq> [] \<Longrightarrow> mc_initialized mc \<and> mc_ki mc = i \<and> \<not> mc_eof mc"
      "?ns = [] \<Longrightarrow> \<not> mc_initialized mc"
    using cursor_search[OF t k, of MDB_SET mdb_cursor_init] hit
    by (auto simp: i_def mdb_cursor_init_def)
  have err: "mdb_cursor_open (Some t) = MDB_SUCCESS" "\<not> mt_error t"
    using t by (simp_all add: mdb_cursor_open_def tx_ok_def)
  have self: "strncmp ?k ?k (unat (mv_size ?k)) = ret 0"
    using strncmp_prefix[OF strncmp_safe_no_NUL[OF ps(4)], of ?k] unat_mv_size[OF len] by auto
  show ?thesis
  proof (cases "i + 1 < length ?ns")
    case True
    let ?n = "?ns ! (i + 1)"
    have ne: "?ns \<noteq> []" using True by auto
    have next': "mdb_cursor_get CompareKeys t mc ?k MDB_NEXT
        = ret (MDB_SUCCESS, mc\<lparr>mc_ki := i + 1\<rparr>, fst ?n, Some ?n)"
      using mc(2)[OF ne] True err by (simp add: mdb_cursor_get_def mdb_cursor_next_def Let_def)
    have ok: "page_ok valid_key db_rank ?ns" using t by (simp add: tx_ok_def db_ok_def)
    have "valid_key (fst ?n)" using ok True by (simp add: page_ok_def)
    moreover have "key_rank ps \<le> db_rank (fst ?n)"
      using page_index_above[OF ok _ True, of ?k] db_rank_encode[OF ps(2)] by (simp add: i_def)
    ultimately obtain c where "strncmp ?k (node_mem tail ?n) (unat (mv_size ?k)) = ret c"
        "c = 0 \<longleftrightarrow> extends ps ?n"
      using strncmp_node[OF ps(4), of ?n tail] assms(6) len by (auto simp: node_mem_def)
    then show ?thesis
      unfolding LmdbTx_Data_def GetLmdbKeyFromLua_method[OF ps(1,2)]
      using mc(1) next' pos err True
      by (auto simp: LMDB_DATA_NO_DATA_def LMDB_DATA_HAS_DATA_def LMDB_DATA_HAS_CHILDREN_def Let_def)
  next
    case False
    have "\<exists>mc'. mdb_cursor_get CompareKeys t mc ?k MDB_NEXT = ret (MDB_NOTFOUND, mc', ?k, None)"
      using mc(2,3) False err
      by (cases "?ns = []") (auto simp: mdb_cursor_get_def mdb_cursor_next_def mdb_cursor_first_def)
    then show ?thesis
      unfolding LmdbTx_Data_def GetLmdbKeyFromLua_method[OF ps(1,2)]
      using mc(1) pos err False self
      by (auto simp: LMDB_DATA_NO_DATA_def LMDB_DATA_HAS_DATA_def LMDB_DATA_HAS_CHILDREN_def Let_def)
  qed
qed

subsection \<open>order\<close>

text \<open>What \<open>ComputeNextLexicalValue\<close> does to the last segment of a key.\<close>

definition next_seg :: "segment \<Rightarrow> segment" where
  "next_seg s = (if snd s = [] then (fst s + 1, []) else (fst s, butlast (snd s) @ [last (snd s) + 1]))"

lemma ComputeNextLexicalValue_key:
  assumes "length (encode_key (ps @ [s])) < 2 ^ 63"
  shows "ComputeNextLexicalValue (encode_key (ps @ [s])) (mv_size (encode_key (ps @ [s])))
       = ret (encode_key (ps @ [next_seg s]))"
proof (cases "snd s" rule: rev_cases)
  case Nil
  then have "encode_key (ps @ [s]) = (encode_key ps @ [0]) @ [fst s]"
      "encode_key (ps @ [next_seg s]) = (encode_key ps @ [0]) @ [fst s + 1]"
    by (simp_all add: encode_seg_def next_seg_def)
  then show ?thesis
    using ComputeNextLexicalValue_snoc[of "encode_key ps @ [0]" "fst s"] assms by simp
next
  case (snoc d b)
  let ?p = "encode_key ps @ of_nat (Suc (length d)) # fst s # d"
  have "encode_key (ps @ [s]) = ?p @ [b]" "encode_key (ps @ [next_seg s]) = ?p @ [b + 1]"
    using snoc by (simp_all add: encode_seg_def next_seg_def)
  then show ?thesis
    using ComputeNextLexicalValue_snoc[of ?p b] assms by simp
qed

lemma next_seg_length [simp]: "length (snd (next_seg s)) = length (snd s)"
  by (simp add: next_seg_def)

text \<open>The state of a closure that has the prefix \<open>ps\<close> and searches from \<open>ps @ [s]\<close> on.\<close>

definition order_at :: "segment list \<Rightarrow> segment \<Rightarrow> LuaDB_LmdbOrder \<Rightarrow> bool" where
  "order_at ps s ord \<longleftrightarrow>
     ord_prefix ord = Some (encode_key ps) \<and> ord_pfxlen ord = mv_size (encode_key ps)
     \<and> ord_last ord = Some (encode_key (ps @ [s])) \<and> ord_lastlen ord = mv_size (encode_key (ps @ [s]))"

lemma CreateLuaDbOrderClosure_at:
  assumes "tx_ok t" and "lua_segments fmt True vs = Some (ps @ [s])" "wf_segs (ps @ [s])"
  shows "\<exists>ord. CreateLuaDbOrderClosure (Some junk) fmt (Some t) (tx # vs) enum = ret ord
       \<and> order_at ps (next_seg s) ord \<and> ord_iters ord = (if enum then 0 else - 1)"
proof -
  have len: "length (encode_key (ps @ [s])) < 2 ^ 63" using length_wf_key[OF assms(3)] by simp
  have pos: "0 < mv_size (encode_key (ps @ [s]))"
    using at_less_size[of "[]" "encode_key (ps @ [s])"] len by simp
  have eq: "mv_size (encode_key (ps @ [next_seg s])) = mv_size (encode_key (ps @ [s]))"
    by (simp add: mv_size_def)
  show ?thesis
    unfolding CreateLuaDbOrderClosure_def GetLmdbKeyFromLua_method[OF assms(2,3)]
    using assms(1) pos GetKeyPrefix_encode[OF assms(3), of junk] ComputeNextLexicalValue_key[OF len] eq
    by (simp add: tx_ok_def mdb_cursor_open_def order_at_def del: encode_key_simps)
qed

subsection \<open>Properties\<close>



text \<open>C17: \<open>tx:data\<close> adds 1 when the key is stored and 10 when the node after the place of the
  key in the page extends the key. For a stored key that node is its first child.\<close>

theorem LmdbTx_Data_looks_one_past:
  assumes "tx_ok t" and "lua_segments fmt True vs = Some ps" "wf_segs ps" "ps \<noteq> []" "strncmp_safe ps"
    and "length (encode_key ps) \<le> length tail"
  shows "LmdbTx_Data (Some junk) fmt tail (Some t) (tx # vs)
       = ret [LInteger ((if mdb_get CompareKeys (Some t) (encode_key ps) = ret (MDB_NOTFOUND, None) then 0 else 1)
           + (let i = page_index db_rank (mt_nodes t) (encode_key ps)
              in if i + 1 < length (mt_nodes t) \<and> extends ps (mt_nodes t ! (i + 1)) then 10 else 0))]"
proof -
  have "mdb_get CompareKeys (Some t) (encode_key ps) = ret (MDB_NOTFOUND, None)
      \<longleftrightarrow> db_map (mt_nodes t) (key_rank ps) = None"
    using get_encode[of t ps] assms(1,3,4) by (auto simp: tx_ok_def split: option.splits)
  then show ?thesis using LmdbTx_Data_index[OF assms] by (simp add: Let_def)
qed

theorem LmdbTx_Data_looks_one_past_witness:
  "LmdbTx_Data (Some (\<lambda>_. 0)) id [0, 0, 0]
     (Some \<lparr>mt_nodes = [([1, 0x73, 0x61], []), ([1, 0x73, 0x61, 1, 0x73, 0x62], [])],
            mt_rdonly = False, mt_error = False\<rparr>)
     [LOther ''userdata'', LString [0x61]] = ret [LInteger 11]"
proof -
  let ?ns = "[([1, 0x73, 0x61], []), ([1, 0x73, 0x61, 1, 0x73, 0x62], [])] :: node list"
  let ?t = "\<lparr>mt_nodes = ?ns, mt_rdonly = False, mt_error = False\<rparr>"
  let ?k = "[(LMDB_STRING_TYPE, [0x61])]"
  have ok: "tx_ok ?t"
    by (simp add: tx_ok_def db_ok_def page_ok_def valid_key_def db_rank_def wf_segs_def wf_seg_def
        encode_seg_def LMDB_MAX_KEY_SEGMENTS_def seg_rank_def)
  have wf: "wf_segs ?k" by (simp add: wf_segs_def wf_seg_def LMDB_MAX_KEY_SEGMENTS_def)
  have "db_map ?ns (key_rank ?k) = Some []"
    by (simp add: db_map_def page_map_def db_rank_def seg_rank_def)
  then have "mdb_get CompareKeys (Some ?t) (encode_key ?k) \<noteq> ret (MDB_NOTFOUND, None)"
    using get_encode[of ?t ?k] ok wf by (simp add: tx_ok_def)
  moreover have "page_index db_rank ?ns (encode_key ?k) = 0"
    by (simp add: page_index_def db_rank_def encode_seg_def seg_rank_def unat_byte_small)
  moreover have "extends ?k (?ns ! 1)"
    by (simp add: extends_def LMDB_STRING_TYPE_def)
  moreover have "strncmp_safe ?k" by (simp add: LMDB_STRING_TYPE_def)
  ultimately show ?thesis
    using LmdbTx_Data_looks_one_past[OF ok _ wf, of id "[LString [0x61]]" "[0, 0, 0]" "\<lambda>_. 0" "LOther ''userdata''"]
    by simp
qed

text \<open>\<open>tx:data\<close> misses an only child. When a key has no value of its own and the page holds a
  single node, a child of that key, \<open>data\<close> returns 0 instead of 10: the failed \<open>MDB_SET\<close> has
  already placed the cursor on the child, and \<open>MDB_NEXT\<close> moves past it.\<close>

theorem LmdbTx_Data_misses_only_child:
  assumes "tx_ok t" "mt_nodes t = [n]" "decode_key (fst n) = ps @ r" "r \<noteq> []"
    and "lua_segments fmt True vs = Some ps" "wf_segs ps" "ps \<noteq> []" "strncmp_safe ps"
    and "length (encode_key ps) \<le> length tail"
  shows "LmdbTx_Data (Some junk) fmt tail (Some t) (tx # vs) = ret [LInteger LMDB_DATA_NO_DATA]"
proof -
  have "db_rank (fst n) \<noteq> key_rank ps"
    using assms(3,4) key_rank_append_less[of r ps] by (auto simp: db_rank_def)
  then have "db_map (mt_nodes t) (key_rank ps) = None"
    using assms(2) by (auto simp: db_map_def page_map_def split: prod.splits)
  then show ?thesis
    using LmdbTx_Data_index[OF assms(1,5-9), of junk tx] assms(2) by (simp add: LMDB_DATA_NO_DATA_def)
qed

theorem LmdbTx_Data_misses_only_child_witness:
  "LmdbTx_Data (Some (\<lambda>_. 0)) id [0, 0, 0]
     (Some \<lparr>mt_nodes = [([1, 0x73, 0x61, 1, 0x73, 0x62], [])], mt_rdonly = False, mt_error = False\<rparr>)
     [LOther ''userdata'', LString [0x61]] = ret [LInteger 0]"
proof -
  let ?t = "\<lparr>mt_nodes = [([1, 0x73, 0x61, 1, 0x73, 0x62], [])], mt_rdonly = False, mt_error = False\<rparr>"
  have ok: "tx_ok ?t"
    by (simp add: tx_ok_def db_ok_def page_ok_def valid_key_def wf_segs_def wf_seg_def
        encode_seg_def LMDB_MAX_KEY_SEGMENTS_def)
  have "LmdbTx_Data (Some (\<lambda>_. 0)) id [0, 0, 0] (Some ?t) (LOther ''userdata'' # [LString [0x61]])
      = ret [LInteger LMDB_DATA_NO_DATA]"
    by (rule LmdbTx_Data_misses_only_child[where ps = "[(LMDB_STRING_TYPE, [0x61])]"
          and r = "[(LMDB_STRING_TYPE, [0x62])]" and n = "([1, 0x73, 0x61, 1, 0x73, 0x62], [])"])
      (use ok in \<open>simp_all add: wf_segs_def wf_seg_def LMDB_MAX_KEY_SEGMENTS_def LMDB_STRING_TYPE_def\<close>)
  then show ?thesis by (simp add: LMDB_DATA_NO_DATA_def)
qed

lemma digits_val_shift: "\<forall>c \<in> set xs. is_digit c \<Longrightarrow> digits_val n xs = n * 10 ^ length xs + digits_val 0 xs"
proof (induction xs arbitrary: n)
  case (Cons x xs)
  have "digits_val n (x # xs) = (10 * n + unat (x - 0x30)) * 10 ^ length xs + digits_val 0 xs"
    using Cons.prems Cons.IH[of "10 * n + unat (x - 0x30)"] by simp
  also have "\<dots> = n * 10 ^ length (x # xs) + (unat (x - 0x30) * 10 ^ length xs + digits_val 0 xs)"
    by (simp add: algebra_simps)
  also have "unat (x - 0x30) * 10 ^ length xs + digits_val 0 xs = digits_val 0 (x # xs)"
    using Cons.prems Cons.IH[of "unat (x - 0x30)"] by simp
  finally show ?case .
qed simp

text \<open>An integer segment is pushed with the digits that happen to follow it in memory. The
  value of a node comes right after its key, so for the last segment of a key whose value
  starts with digits, \<open>next\<close> and \<open>order\<close> return the number written by both.\<close>

theorem PushValueByType_reads_into_value:
  assumes "a * 10 ^ length (nat_dec b) + b < 2 ^ 63" and "length (nat_dec a) \<le> 127"
    and "0 \<in> set m" "\<not> is_digit (hd m)"
  shows "PushValueByType scan (nat_dec a @ nat_dec b @ m) (of_nat (length (nat_dec a))) (sint LMDB_INTEGER_TYPE)
       = ret (Some (LInteger (int (a * 10 ^ length (nat_dec b) + b))))"
proof -
  let ?ds = "nat_dec a @ nat_dec b" and ?v = "a * 10 ^ length (nat_dec b) + b"
  have dig: "\<forall>c \<in> set ?ds. is_digit c" using nat_dec_digits by auto
  have v: "digits_val 0 ?ds = ?v"
    using nat_dec_digits digits_val_shift[OF nat_dec_digits, of a b] by (simp add: digits_val_append)
  define m0 where "m0 = takeWhile (\<lambda>c. c \<noteq> 0) m"
  have cut: "takeWhile (\<lambda>c. c \<noteq> 0) (?ds @ m) = ?ds @ m0"
    using dig digit_no_space unfolding m0_def by (subst takeWhile_append2) auto
  have m0: "m0 = [] \<or> \<not> is_digit (hd m0)" using assms(4) by (cases m) (auto simp: m0_def)
  obtain c cs where c: "nat_dec a = c # cs" by (cases "nat_dec a") simp_all
  have cd: "is_digit c" using nat_dec_digits[of a] c by simp
  have "scan_dec (?ds @ m0) = Some (int (digits_val 0 (?ds @ m0)))"
    using cd digit_no_space[OF cd] by (simp add: scan_dec_def c Let_def)
  also have "digits_val 0 (?ds @ m0) = ?v" using digits_val_stop[OF dig m0, of 0] v by simp
  finally have sd: "scan_dec (?ds @ m0) = Some (int ?v)" .
  have "int ?v < 2 ^ 63" using assms(1) by (metis of_nat_less_iff of_nat_numeral of_nat_power)
  moreover have "- (2 ^ 63) \<le> int ?v" by (rule order_trans[OF _ of_nat_0_le_iff]) simp
  ultimately have "clamp (int ?v) = int ?v" by (intro clamp_id)
  then have "sscanf_lld (nat_dec a @ nat_dec b @ m) = ret (Some (int ?v))"
    using assms(3) cut sd by (simp add: sscanf_lld_def)
  then show ?thesis
    by (simp add: PushValueByType_def scanned_def lmdb_type_defs)
qed

theorem PushValueByType_reads_into_value_witness:
  "PushValueByType Some [0x31, 0x32, 0x35, 0] 2 (sint LMDB_INTEGER_TYPE)
   = ret (Some (LInteger 125))"
proof -
  have "nat_dec 12 = [0x31, 0x32]" "nat_dec 5 = [0x35]"
    by (simp_all add: nat_dec.simps)
  then show ?thesis
    using PushValueByType_reads_into_value[of 12 5 "[0]" Some] by (simp add: is_digit_def)
qed

text \<open>\<open>tx:put()\<close> without a value aborts the process: \<open>GetLmdbKeyFromLua\<close> is called for the
  arguments from index 3 on with a top of 1, and its \<open>assert(elems >= 0)\<close> fails.\<close>

theorem LmdbTx_Put_no_arguments_aborts:
  "LmdbTx_Put P al fmt txn [tx] = throw Assert_Failed"
  by (simp add: LmdbTx_Put_def GetLmdbKeyFromLua_def Let_def)

end
