(* ===== verification/LmdbOrder.thy ===== *)
theory LmdbOrder
  imports LmdbTx
begin

text \<open>
  Iteration with \<open>order\<close> (\<open>src/src/lmdb.c\<close>, \<open>LuaDbOrderTxClosure\<close>): one call of the closure,
  and the Lua loop \<open>for k in tx:order(...)\<close> that calls it until it returns nothing.
  The loop is followed on a page all of whose children below the prefix are strings of one
  length; there it visits every child once, in key order.
\<close>

subsection \<open>One call of the closure\<close>

lemma drop_segment:
  assumes "length (encode_key ps) < 2 ^ 63"
  shows "drop (unat (GetSegmentData (at (encode_key ps)))) (node_mem tail (encode_key (ps @ k # r), v))
       = snd k @ encode_key r @ v @ tail"
  using drop_GetSegmentData_at[OF assms, of k "encode_key r @ v @ tail"] by (simp add: node_mem_def)

lemma push_child_segment_at:
  assumes "strncmp_safe ps" "wf_segs ps" and "valid_key (fst n)" "key_rank ps \<le> db_rank (fst n)"
    and "length (encode_key ps) \<le> length tail"
  shows "push_child_segment scan tail (Some (encode_key ps)) (mv_size (encode_key ps)) n
       = (if extends ps n then
            case drop (length ps) (decode_key (fst n)) of
              [] \<Rightarrow> ret None
            | k # r \<Rightarrow>
                let mem = snd k @ encode_key r @ snd n @ tail
                in xbind (PushValueByType scan mem (of_nat (length (snd k))) (sint (fst k))) (\<lambda>v.
                   ret (map_option (\<lambda>v. (mem, of_nat (length (snd k)), sint (fst k), v)) v))
          else ret None)"
proof -
  let ?p = "encode_key ps"
  have len: "length ?p < 2 ^ 63" using length_wf_key[OF assms(2)] by simp
  obtain c where c: "strncmp ?p (node_mem tail n) (unat (mv_size ?p)) = ret c" "c = 0 \<longleftrightarrow> extends ps n"
    using strncmp_node[OF assms(1,3,4), of tail] assms(5) len by (auto simp: node_mem_def)
  have c': "(if 0 < mv_size ?p then strncmp ?p (node_mem tail n) (unat (mv_size ?p)) else ret 0)
      = ret (if 0 < mv_size ?p then c else 0)" using c by simp
  have nil: "extends ps n" if "\<not> 0 < mv_size ?p"
    using that at_less_size[of "[]" ?p] len by (cases ps) (auto simp: extends_def)
  obtain bs where bs: "wf_segs bs" "fst n = encode_key bs" "decode_key (fst n) = bs"
    using assms(3) by (rule valid_key_obtain)
  show ?thesis
  proof (cases "extends ps n")
    case False
    then show ?thesis using c c' nil by (auto simp: push_child_segment_def deref_def Let_def)
  next
    case True
    then obtain r where r: "bs = ps @ r" using bs(3) by (auto simp: extends_iff)
    have find: "FindFirstDifferentKeyNode ?p (mv_size ?p) (fst n)
        = ret (case r of [] \<Rightarrow> None | k # r' \<Rightarrow>
            Some (GetSegmentData (at ?p), of_nat (length (snd k)), sint (fst k)))"
      using FindFirstDifferentKeyNode_encode[OF assms(2) bs(1)] bs(2) r by (auto split: list.splits)
    have mem: "drop (unat (GetSegmentData (at ?p))) (node_mem tail n) = snd k @ encode_key r' @ snd n @ tail"
      if "r = k # r'" for k r'
      using drop_segment[OF len, of tail k r' "snd n"] bs(2) r that by (metis prod.collapse)
    show ?thesis
      using True c c' find bs(3) r mem
      by (auto simp: push_child_segment_def deref_def Let_def split: list.splits option.splits
          intro!: arg_cong[where f="xbind _"])
  qed
qed

lemma order_step:
  assumes t: "tx_ok t" and o: "order_at ps s ord" and wf: "wf_segs (ps @ [s])" and sf: "strncmp_safe ps"
    and tl: "length (encode_key ps) \<le> length tail"
  defines "i \<equiv> page_index db_rank (mt_nodes t) (encode_key (ps @ [s]))"
  defines "n \<equiv> mt_nodes t ! i"
  shows "length (mt_nodes t) \<le> i \<Longrightarrow>
      \<exists>ord'. LuaDbOrderTxClosure (Some junk) scan tail t ord = ret ([], ord')"
    and "i < length (mt_nodes t) \<Longrightarrow> \<not> extends ps n \<Longrightarrow>
      \<exists>ord'. LuaDbOrderTxClosure (Some junk) scan tail t ord = ret ([], ord')"
    and "i < length (mt_nodes t) \<Longrightarrow> decode_key (fst n) = ps @ k # r
      \<Longrightarrow> PushValueByType scan (snd k @ encode_key r @ snd n @ tail) (of_nat (length (snd k))) (sint (fst k))
          = ret (Some v) \<Longrightarrow>
      \<exists>ord'. LuaDbOrderTxClosure (Some junk) scan tail t ord
          = ret (if 0 \<le> ord_iters ord then [LInteger (ord_iters ord + 1), v] else [v], ord')
        \<and> order_at ps (next_seg k) ord'
        \<and> ord_iters ord' = (if 0 \<le> ord_iters ord then ord_iters ord + 1 else ord_iters ord)"
proof -
  let ?k = "encode_key (ps @ [s])"
  have wfp: "wf_segs ps" using wf wf_segs_append by blast
  have k: "valid_key ?k" "?k \<noteq> []" using wf by (simp_all add: valid_key_encode del: encode_key_simps)
  have len: "length ?k < 2 ^ 63" using length_wf_key[OF wf] by simp
  have pos: "0 < mv_size ?k" using at_less_size[of "[]" ?k] len by simp
  have ok: "page_ok valid_key db_rank (mt_nodes t)" using t by (simp add: tx_ok_def db_ok_def)
  obtain mc where mc: "mdb_cursor_get CompareKeys t (ord_cur ord) ?k MDB_SET_RANGE
      = ret (if i < length (mt_nodes t) then (MDB_SUCCESS, mc, fst n, Some n)
             else (MDB_NOTFOUND, mc, ?k, None))"
    using cursor_search_range[OF t k, of "ord_cur ord"] unfolding i_def n_def by blast
  note o' = o[unfolded order_at_def]
  have push: "push_child_segment scan tail (Some (encode_key ps)) (mv_size (encode_key ps)) n
       = (if extends ps n then
            case drop (length ps) (decode_key (fst n)) of
              [] \<Rightarrow> ret None
            | k # r \<Rightarrow>
                let mem = snd k @ encode_key r @ snd n @ tail
                in xbind (PushValueByType scan mem (of_nat (length (snd k))) (sint (fst k))) (\<lambda>v.
                   ret (map_option (\<lambda>v. (mem, of_nat (length (snd k)), sint (fst k), v)) v))
          else ret None)"
    if "i < length (mt_nodes t)"
  proof (rule push_child_segment_at[OF sf wfp _ _ tl])
    show "valid_key (fst n)" using ok that by (simp add: page_ok_def n_def)
    have "db_rank ?k \<le> db_rank (fst n)"
      using page_index_above[OF ok _ that, of ?k] by (simp add: i_def n_def)
    then show "key_rank ps \<le> db_rank (fst n)"
      using key_rank_append_le[of ps "[s]"] db_rank_encode[OF wf] by simp
  qed
  show "\<exists>ord'. LuaDbOrderTxClosure (Some junk) scan tail t ord = ret ([], ord')"
    if "length (mt_nodes t) \<le> i"
    using that mc o' pos by (simp add: LuaDbOrderTxClosure_def deref_def Let_def)
  show "\<exists>ord'. LuaDbOrderTxClosure (Some junk) scan tail t ord = ret ([], ord')"
    if "i < length (mt_nodes t)" "\<not> extends ps n"
    using that mc o' pos push by (simp add: LuaDbOrderTxClosure_def deref_def Let_def)
  show "\<exists>ord'. LuaDbOrderTxClosure (Some junk) scan tail t ord
          = ret (if 0 \<le> ord_iters ord then [LInteger (ord_iters ord + 1), v] else [v], ord')
        \<and> order_at ps (next_seg k) ord'
        \<and> ord_iters ord' = (if 0 \<le> ord_iters ord then ord_iters ord + 1 else ord_iters ord)"
    if lt: "i < length (mt_nodes t)" and dk: "decode_key (fst n) = ps @ k # r"
      and pv: "PushValueByType scan (snd k @ encode_key r @ snd n @ tail) (of_nat (length (snd k))) (sint (fst k))
          = ret (Some v)"
  proof -
    have "valid_key (fst n)" using ok lt by (simp add: page_ok_def n_def)
    then have kl: "length (snd k) \<le> 127"
      using dk by (simp add: valid_key_def wf_segs_def wf_seg_def)
    have ex: "extends ps n" using dk by (auto simp: extends_iff)
    obtain kt kd where kk: "k = (kt, kd)" by fastforce
    have rep: "ReplaceLastKeySegment (Some junk) (Some ?k) (mv_size ?k) (of_nat (length (snd k))) (sint (fst k))
        (snd k @ encode_key r @ snd n @ tail) (mv_size ?k)
      = ret (mv_size (encode_key (ps @ [k])), Some (encode_key (ps @ [k])))"
      using ReplaceLastKeySegment_encode[OF wf, of kd junk kt "encode_key r @ snd n @ tail" "mv_size ?k"] kl kk
      by (simp del: encode_key_simps)
    have "length (encode_key (ps @ [k])) < 2 ^ 63"
      using length_wf_key[OF wfp] kl by simp
    note nx = ComputeNextLexicalValue_key[OF this]
    have eq: "mv_size (encode_key (ps @ [next_seg k])) = mv_size (encode_key (ps @ [k]))"
      by (simp add: mv_size_def)
    show ?thesis
      using mc[simplified lt] o' pos push[OF lt] ex dk pv rep nx eq
      by (simp add: LuaDbOrderTxClosure_def deref_def Let_def order_at_def del: encode_key_simps)
  qed
qed

subsection \<open>The Lua loop over the closure\<close>

text \<open>
  \<open>for k in tx:order(...) do ... end\<close>: the closure is called until it returns nothing; the
  result is the list of the values it returned, in order.
\<close>

partial_function (option) lua_for ::
    "alloc \<Rightarrow> (bytes \<Rightarrow> 'd option) \<Rightarrow> bytes \<Rightarrow> mdb_txn \<Rightarrow> LuaDB_LmdbOrder \<Rightarrow> 'd lua_value list list
      \<Rightarrow> ('d lua_value list list) exec" where
  "lua_for al scan tail t ord acc =
     xbind (LuaDbOrderTxClosure al scan tail t ord) (\<lambda>(vals, ord').
     if vals = [] then ret acc else lua_for al scan tail t ord' (acc @ [vals]))"

subsection \<open>The children of a prefix\<close>

definition below :: "segment list \<Rightarrow> node \<Rightarrow> bool" where
  "below ps n \<longleftrightarrow> take (length ps) (db_rank (fst n)) = key_rank ps \<and> length ps < length (decode_key (fst n))"

definition child :: "segment list \<Rightarrow> node \<Rightarrow> bytes" where
  "child ps n = snd (decode_key (fst n) ! length ps)"

definition children :: "segment list \<Rightarrow> node list \<Rightarrow> bytes list" where
  "children ps nodes = map (child ps) (filter (below ps) nodes)"

text \<open>
  Every key below the prefix has the prefix's own types, and its next segment is a string of
  \<open>l\<close> bytes without NUL that does not end in 255.
\<close>

definition uniform_child :: "segment list \<Rightarrow> nat \<Rightarrow> node \<Rightarrow> bool" where
  "uniform_child ps l n \<longleftrightarrow> (below ps n \<longrightarrow> extends ps n
     \<and> (let s = decode_key (fst n) ! length ps
        in fst s = LMDB_STRING_TYPE \<and> length (snd s) = l \<and> 0 \<notin> set (snd s) \<and> last (snd s) \<noteq> - 1))"

lemma below_uniform:
  assumes "uniform_child ps l n" "below ps n"
  obtains d r where "decode_key (fst n) = ps @ (LMDB_STRING_TYPE, d) # r"
    "length d = l" "0 \<notin> set d" "last d \<noteq> - 1" "child ps n = d"
proof -
  let ?k = "decode_key (fst n)"
  have "?k = take (length ps) ?k @ ?k ! length ps # drop (Suc (length ps)) ?k"
    using assms(2) by (intro id_take_nth_drop) (simp add: below_def)
  moreover have u: "take (length ps) ?k = ps" "fst (?k ! length ps) = LMDB_STRING_TYPE"
      "length (child ps n) = l" "0 \<notin> set (child ps n)" "last (child ps n) \<noteq> - 1"
    using assms by (simp_all add: uniform_child_def extends_def child_def Let_def)
  moreover have "?k ! length ps = (LMDB_STRING_TYPE, child ps n)"
    using u(2) by (simp add: child_def prod_eq_iff)
  ultimately have "?k = ps @ (LMDB_STRING_TYPE, child ps n) # drop (Suc (length ps)) ?k"
    by simp
  then show thesis using u(3-5) by (rule that) simp
qed

lemma lex_between:
  fixes p :: "'a::linorder list"
  assumes "p @ a \<le> x" and "x \<le> p @ z"
  obtains y where "x = p @ y" "a \<le> y" "y \<le> z"
  using assms
proof (induction p arbitrary: x thesis)
  case (Cons b p)
  from Cons.prems(2,3) obtain x' where x: "x = b # x'" "p @ a \<le> x'" "x' \<le> p @ z"
    by (cases x) (auto simp: less_le_not_le)
  from Cons.IH[OF _ x(2,3)] Cons.prems(1) x(1) show ?case by (metis append_Cons)
qed simp

lemma below_between:
  assumes "key_rank ps @ a \<le> db_rank (fst n)" "db_rank (fst n) \<le> key_rank ps @ z" "a \<noteq> []"
  shows "below ps n"
proof -
  obtain y where y: "db_rank (fst n) = key_rank ps @ y" "a \<le> y"
    using assms(1,2) by (rule lex_between)
  moreover have "y \<noteq> []" using y(2) assms(3) by auto
  moreover have "length (decode_key (fst n)) = length ps + length y"
    using arg_cong[OF y(1), of length] by (simp add: db_rank_def)
  ultimately show ?thesis by (simp add: below_def)
qed

lemma below_rank:
  assumes "decode_key (fst n) = ps @ s # r"
  shows "below ps n" "db_rank (fst n) = key_rank ps @ seg_rank s # key_rank r"
  using assms by (simp_all add: below_def db_rank_def)

lemma key_rank_append_cancel:
  fixes p :: "'a::linorder list"
  shows "p @ x < p @ y \<longleftrightarrow> x < y" "p @ x \<le> p @ y \<longleftrightarrow> x \<le> y"
  by (induction p) auto

lemma set_drop_nth:
  assumes "x \<in> set (drop k xs)"
  obtains j where "k + j < length xs" "x = xs ! (k + j)"
proof -
  from assms obtain j where "j < length (drop k xs)" "x = drop k xs ! j" by (metis in_set_conv_nth)
  then show thesis using that[of j] by simp
qed

lemma remdups_adj_group:
  assumes "xs \<noteq> []" "\<forall>x \<in> set xs. x = d" "\<forall>y \<in> set ys. y \<noteq> d"
  shows "remdups_adj (xs @ ys) = d # remdups_adj ys"
  using assms
proof (induction xs)
  case (Cons x xs)
  then show ?case by (cases xs; cases ys) (auto simp: remdups_adj_Cons')
qed simp

lemma seg_rank_next_string:
  assumes "length d = l" "0 < l" "0 \<notin> set d" "last d \<noteq> - 1"
  shows "seg_rank (LMDB_STRING_TYPE, d) < seg_rank (next_seg (LMDB_STRING_TYPE, d))"
    and "length e = l \<Longrightarrow> 0 \<notin> set e \<Longrightarrow> seg_rank (LMDB_STRING_TYPE, d) < seg_rank (LMDB_STRING_TYPE, e)
      \<Longrightarrow> seg_rank (next_seg (LMDB_STRING_TYPE, d)) \<le> seg_rank (LMDB_STRING_TYPE, e)"
proof -
  obtain c b where d: "d = c @ [b]" using assms by (cases d rule: rev_cases) auto
  have nx: "next_seg (LMDB_STRING_TYPE, d) = (LMDB_STRING_TYPE, c @ [b + 1])"
    by (simp add: next_seg_def d)
  have cb: "0 \<notin> set c" "b \<noteq> 0" "b \<noteq> - 1" using assms d by auto
  show "seg_rank (LMDB_STRING_TYPE, d) < seg_rank (next_seg (LMDB_STRING_TYPE, d))"
    using seg_rank_snoc_Suc[OF cb, of LMDB_STRING_TYPE LMDB_STRING_TYPE] nx d by simp
  show "seg_rank (next_seg (LMDB_STRING_TYPE, d)) \<le> seg_rank (LMDB_STRING_TYPE, e)"
    if "length e = l" "0 \<notin> set e" "seg_rank (LMDB_STRING_TYPE, d) < seg_rank (LMDB_STRING_TYPE, e)"
    unfolding nx using seg_rank_next[OF cb that(2), of LMDB_STRING_TYPE LMDB_STRING_TYPE] that assms(1) d
    by simp
qed

lemma PushValueByType_string:
  assumes "length d \<le> 127"
  shows "PushValueByType scan (d @ m) (of_nat (length d)) (sint LMDB_STRING_TYPE) = ret (Some (LString d))"
  using assms by (simp add: PushValueByType_def unat_of_nat_size)

text \<open>
  One step on the page: the children from the first node at or above \<open>ps @ [s]\<close> on are a group
  of nodes with one child \<open>d\<close> followed by the children from \<open>ps @ [next_seg d]\<close> on.
\<close>

lemma children_step:
  assumes ok: "page_ok valid_key db_rank nodes" and uni: "\<forall>n \<in> set nodes. uniform_child ps l n"
    and l: "0 < l" and wf: "wf_segs (ps @ [s])"
  defines "i \<equiv> page_index db_rank nodes (encode_key (ps @ [s]))"
  assumes lt: "i < length nodes" and dk: "decode_key (fst (nodes ! i)) = ps @ (LMDB_STRING_TYPE, d) # r"
    and d: "length d = l" "0 \<notin> set d" "last d \<noteq> - 1"
  defines "s' \<equiv> next_seg (LMDB_STRING_TYPE, d)"
  defines "i' \<equiv> page_index db_rank nodes (encode_key (ps @ [s']))"
  shows "wf_segs (ps @ [s'])" and "i < i'"
    and "remdups_adj (children ps (drop i nodes)) = d # remdups_adj (children ps (drop i' nodes))"
proof -
  have "valid_key (fst (nodes ! i))" using ok lt by (simp add: page_ok_def)
  then have "length d \<le> 127" using dk by (simp add: valid_key_def wf_segs_def wf_seg_def)
  then show wf': "wf_segs (ps @ [s'])"
    using wf by (simp add: wf_segs_def wf_seg_def s'_def)
  note nxt = seg_rank_next_string[OF d(1) l d(2,3), folded s'_def]
  have rs': "db_rank (encode_key (ps @ [s'])) = key_rank ps @ [seg_rank s']"
    using db_rank_encode[OF wf'] by simp
  have rn: "db_rank (fst (nodes ! i)) = key_rank ps @ seg_rank (LMDB_STRING_TYPE, d) # key_rank r"
    using below_rank(2)[OF dk] .
  have ni: "db_rank (fst (nodes ! i)) < db_rank (encode_key (ps @ [s']))"
    unfolding rs' rn by (simp add: key_rank_append_cancel nxt(1))
  show ii: "i < i'"
  proof (rule ccontr)
    assume "\<not> i < i'"
    then have "db_rank (encode_key (ps @ [s'])) \<le> db_rank (fst (nodes ! i))"
      using page_index_above[OF ok _ lt, of "encode_key (ps @ [s'])"] by (simp add: i'_def)
    with ni show False by simp
  qed
  have i'le: "i' \<le> length nodes" by (simp add: i'_def page_index_le)
  have grp: "below ps (nodes ! j) \<and> child ps (nodes ! j) = d" if "i \<le> j" "j < i'" for j
  proof -
    have jl: "j < length nodes" using that i'le by simp
    have lo: "db_rank (fst (nodes ! i)) \<le> db_rank (fst (nodes ! j))"
      using page_ok_le[OF ok that(1) jl] .
    have hi: "db_rank (fst (nodes ! j)) < key_rank ps @ [seg_rank s']"
      using page_index_below[of j db_rank nodes "encode_key (ps @ [s'])"] that(2) rs' by (simp add: i'_def)
    have b: "below ps (nodes ! j)"
      using below_between[OF lo[unfolded rn] less_imp_le[OF hi]] by simp
    have "uniform_child ps l (nodes ! j)" using uni jl by simp
    then obtain e r' where e: "decode_key (fst (nodes ! j)) = ps @ (LMDB_STRING_TYPE, e) # r'"
        "length e = l" "0 \<notin> set e" "last e \<noteq> - 1" "child ps (nodes ! j) = e"
      using b by (rule below_uniform)
    have "key_rank ps @ seg_rank (LMDB_STRING_TYPE, d) # key_rank r
        \<le> key_rank ps @ seg_rank (LMDB_STRING_TYPE, e) # key_rank r'"
      using lo below_rank(2)[OF e(1)] rn by simp
    then have "seg_rank (LMDB_STRING_TYPE, d) \<le> seg_rank (LMDB_STRING_TYPE, e)"
      unfolding key_rank_append_cancel by (auto simp: order_le_less)
    moreover have "seg_rank (LMDB_STRING_TYPE, e) < seg_rank s'"
    proof -
      have "key_rank ps @ seg_rank (LMDB_STRING_TYPE, e) # key_rank r' < key_rank ps @ [seg_rank s']"
        using hi below_rank(2)[OF e(1)] by simp
      then show ?thesis unfolding key_rank_append_cancel by auto
    qed
    ultimately have "seg_rank (LMDB_STRING_TYPE, d) = seg_rank (LMDB_STRING_TYPE, e)"
      using nxt(2)[OF e(2,3)] by (metis leD order_le_less)
    then have "d = e" using d(2) e(3) by (simp add: seg_rank_NUL_free)
    with b e(5) show ?thesis by simp
  qed
  have rest: "child ps n \<noteq> d" if n: "n \<in> set (drop i' nodes)" "below ps n" for n
  proof -
    obtain j where j: "i' + j < length nodes" "n = nodes ! (i' + j)"
      using n(1) by (rule set_drop_nth)
    have "db_rank (encode_key (ps @ [s'])) \<le> db_rank (fst n)"
      using page_index_above[OF ok _ j(1), of "encode_key (ps @ [s'])"] j(2) by (simp add: i'_def)
    moreover have "uniform_child ps l n" using uni n(1) by (meson in_set_dropD)
    then obtain e r' where e: "decode_key (fst n) = ps @ (LMDB_STRING_TYPE, e) # r'"
        "length e = l" "0 \<notin> set e" "last e \<noteq> - 1" "child ps n = e"
      using n(2) by (rule below_uniform)
    ultimately have "key_rank ps @ [seg_rank s'] \<le> key_rank ps @ seg_rank (LMDB_STRING_TYPE, e) # key_rank r'"
      using rs' below_rank(2)[OF e(1)] by simp
    then have "seg_rank s' \<le> seg_rank (LMDB_STRING_TYPE, e)"
      unfolding key_rank_append_cancel by (auto simp: order_le_less)
    then show ?thesis using nxt(1) e(5) by auto
  qed
  define g where "g = take (i' - i) (drop i nodes)"
  have split: "drop i nodes = g @ drop i' nodes"
    using ii by (metis append_take_drop_id drop_drop g_def le_add_diff_inverse2 less_imp_le_nat)
  have mem: "\<exists>j \<ge> i. j < i' \<and> x = nodes ! j" if "x \<in> set g" for x
  proof -
    from that obtain q where "q < length g" "x = g ! q" by (metis in_set_conv_nth)
    then show ?thesis using ii i'le by (intro exI[of _ "i + q"]) (auto simp: g_def)
  qed
  have "g \<noteq> []" using ii lt by (auto simp: g_def)
  moreover have all: "\<forall>x \<in> set g. below ps x" "\<forall>x \<in> set g. child ps x = d" using mem grp by blast+
  moreover have "children ps g = map (child ps) g"
    using all(1) by (simp add: children_def)
  ultimately have "children ps g \<noteq> []" "\<forall>x \<in> set (children ps g). x = d"
    by simp_all
  moreover have "\<forall>y \<in> set (children ps (drop i' nodes)). y \<noteq> d"
    using rest by (auto simp: children_def)
  ultimately show "remdups_adj (children ps (drop i nodes)) = d # remdups_adj (children ps (drop i' nodes))"
    unfolding split children_def map_append filter_append by (rule remdups_adj_group)
qed

lemma lua_for_children:
  assumes t: "tx_ok t" and uni: "\<forall>n \<in> set (mt_nodes t). uniform_child ps l n" and l: "0 < l"
    and sf: "strncmp_safe ps" and tl: "length (encode_key ps) \<le> length tail"
    and "wf_segs (ps @ [s])" "order_at ps s ord" "ord_iters ord < 0"
  shows "lua_for (Some junk) scan tail t ord acc
       = ret (acc @ map (\<lambda>d. [LString d]) (remdups_adj (children ps
           (drop (page_index db_rank (mt_nodes t) (encode_key (ps @ [s]))) (mt_nodes t)))))"
  using assms(6-8)
proof (induction "length (mt_nodes t) - page_index db_rank (mt_nodes t) (encode_key (ps @ [s]))"
    arbitrary: s ord acc rule: less_induct)
  case less
  let ?ns = "mt_nodes t"
  let ?i = "page_index db_rank ?ns (encode_key (ps @ [s]))"
  let ?n = "?ns ! ?i"
  have ok: "page_ok valid_key db_rank ?ns" using t by (simp add: tx_ok_def db_ok_def)
  note step = order_step[OF t less.prems(2,1) sf tl]
  have stop: "lua_for (Some junk) scan tail t ord acc = ret acc"
    if "\<exists>ord'. LuaDbOrderTxClosure (Some junk) scan tail t ord = ret ([], ord')"
    using that by (subst lua_for.simps) auto
  show ?case
  proof (cases "?i < length ?ns")
    case False
    then have "lua_for (Some junk) scan tail t ord acc = ret acc"
      by (intro stop step(1)) simp
    then show ?thesis using False by (simp add: children_def)
  next
    case lt: True
    have rs: "key_rank ps @ [seg_rank s] \<le> db_rank (fst ?n)"
      using page_index_above[OF ok _ lt, of "encode_key (ps @ [s])"] db_rank_encode[OF less.prems(1)] by simp
    have uni_n: "uniform_child ps l ?n" using uni lt by simp
    show ?thesis
    proof (cases "extends ps ?n")
      case False
      have "\<not> below ps n" if n: "n \<in> set (drop ?i ?ns)" for n
      proof
        assume b: "below ps n"
        obtain j where j: "?i + j < length ?ns" "n = ?ns ! (?i + j)"
          using n by (rule set_drop_nth)
        have "db_rank (fst ?n) \<le> db_rank (fst n)"
          using page_ok_le[OF ok _ j(1), of ?i] j(2) by simp
        moreover have "db_rank (fst n) = key_rank ps @ drop (length ps) (db_rank (fst n))"
          using b unfolding below_def by (metis append_take_drop_id)
        ultimately have "below ps ?n" using below_between[OF rs, of "drop (length ps) (db_rank (fst n))"] by simp
        then show False using uni_n False by (simp add: uniform_child_def)
      qed
      then have "children ps (drop ?i ?ns) = []" by (auto simp: children_def filter_empty_conv)
      then show ?thesis using stop[OF step(2)[OF lt False]] by simp
    next
      case True
      then have "db_rank (fst ?n) = key_rank ps @ key_rank (drop (length ps) (decode_key (fst ?n)))"
        unfolding extends_iff db_rank_def by auto
      from below_between[OF rs eq_refl[OF this]] have "below ps ?n" by simp
      then obtain d r where d: "decode_key (fst ?n) = ps @ (LMDB_STRING_TYPE, d) # r"
          "length d = l" "0 \<notin> set d" "last d \<noteq> - 1"
        by (rule below_uniform[OF uni_n])
      have "valid_key (fst ?n)" using ok lt by (simp add: page_ok_def)
      then have dl: "length d \<le> 127" using d(1) by (simp add: valid_key_def wf_segs_def wf_seg_def)
      let ?s = "next_seg (LMDB_STRING_TYPE, d)"
      note ch = children_step[OF ok uni l less.prems(1) lt d(1-4)]
      have pv: "PushValueByType scan (snd (LMDB_STRING_TYPE, d) @ encode_key r @ snd ?n @ tail)
            (of_nat (length (snd (LMDB_STRING_TYPE, d)))) (sint (fst (LMDB_STRING_TYPE, d)))
          = ret (Some (LString d))"
        using PushValueByType_string[OF dl] by simp
      obtain ord' where o: "LuaDbOrderTxClosure (Some junk) scan tail t ord = ret ([LString d], ord')"
          "order_at ps ?s ord'" "ord_iters ord' < 0"
        using step(3)[OF lt d(1) pv, of junk] less.prems(3) by auto
      have "lua_for (Some junk) scan tail t ord acc = lua_for (Some junk) scan tail t ord' (acc @ [[LString d]])"
        using o(1) by (subst lua_for.simps) simp
      also have "\<dots> = ret ((acc @ [[LString d]]) @ map (\<lambda>d. [LString d]) (remdups_adj (children ps
           (drop (page_index db_rank ?ns (encode_key (ps @ [?s]))) ?ns))))"
        using less.hyps[OF _ ch(1) o(2,3)] ch(2) lt by simp
      finally show ?thesis using ch(3) by simp
    qed
  qed
qed

subsection \<open>Properties\<close>

lemma all_children:
  assumes ok: "page_ok valid_key db_rank nodes" and wf: "wf_segs (ps @ [s])"
    and "\<And>n. n \<in> set nodes \<Longrightarrow> below ps n \<Longrightarrow> key_rank ps @ [seg_rank s] \<le> db_rank (fst n)"
  shows "children ps (drop (page_index db_rank nodes (encode_key (ps @ [s]))) nodes) = children ps nodes"
proof -
  let ?i = "page_index db_rank nodes (encode_key (ps @ [s]))"
  have "\<not> below ps n" if n: "n \<in> set (take ?i nodes)" for n
  proof
    assume b: "below ps n"
    obtain j where "j < length (take ?i nodes)" "n = take ?i nodes ! j"
      using n by (metis in_set_conv_nth)
    then have "db_rank (fst n) < db_rank (encode_key (ps @ [s]))"
      using page_index_below[of j db_rank nodes "encode_key (ps @ [s])"] by simp
    moreover have "n \<in> set nodes" using n by (rule in_set_takeD)
    ultimately show False using assms(3)[OF _ b] db_rank_encode[OF wf] by simp
  qed
  then have "children ps (take ?i nodes) = []" by (auto simp: children_def filter_empty_conv)
  moreover have "children ps nodes = children ps (take ?i nodes) @ children ps (drop ?i nodes)"
    unfolding children_def map_append[symmetric] filter_append[symmetric] append_take_drop_id ..
  ultimately show ?thesis by simp
qed





end
