(* ===== verification/LmdbDump.thy ===== *)
theory LmdbDump
  imports LmdbTx
begin

text \<open>
  \<open>CreateKeyDumpString\<close> and \<open>LmdbTx__Dump\<close> of \<open>src/src/lmdb.c\<close>. The dump string is built by
  \<open>sprintf\<close> into a buffer of computed size; the model writes through \<open>memcpy\<close> and \<open>wr\<close>, so a
  result means that no write left the buffer. \<open>re\<close> is what \<open>realloc\<close> returns for the new part
  of the block.
\<close>

subsection \<open>CreateKeyDumpString\<close>

definition realloc :: "alloc \<Rightarrow> bytes \<Rightarrow> size_t \<Rightarrow> bytes option" where
  "realloc re old n = map_option (\<lambda>junk. take (unat n) old @ map junk [length old..<unat n]) re"

text \<open>\<open>"%.*s"\<close> with the precision \<open>seglen\<close>, converted to \<open>int\<close>; negative means no precision.\<close>

definition sprintf_s :: "size_t \<Rightarrow> bytes \<Rightarrow> bytes exec" where
  "sprintf_s prec data =
     (let p = sint (ucast prec :: 32 word)
      in if p < 0 then (if 0 \<in> set data then ret (cstr data) else throw Out_Of_Bounds)
         else if nat p \<le> length data \<or> 0 \<in> set data then ret (cstr (take (nat p) data))
         else throw Out_Of_Bounds)"

text \<open>The format of a segment as the text around \<open>%.*s\<close>, and the size estimate.\<close>

datatype dump_fmt = Fmt_Text bytes | Fmt_Data bytes bytes

partial_function (option) CreateKeyDumpString_loop ::
    "alloc \<Rightarrow> bytes \<Rightarrow> size_t \<Rightarrow> size_t \<Rightarrow> bytes \<Rightarrow> size_t \<Rightarrow> size_t \<Rightarrow> ((bytes \<times> size_t) option) exec" where
  "CreateKeyDumpString_loop re key len i buf cur remaining =
     (if i < mv_size key then
        xbind (GetSegmentLength key i) (\<lambda>seglen.
        xbind (GetSegmentType key i) (\<lambda>type.
        xbind (if type = sint LMDB_BOOLEAN_TYPE then
                 xbind (rd key (i + 2)) (\<lambda>c.
                 ret (Some (Fmt_Text (str (if c \<noteq> 0 then ''true, '' else ''false, '')),
                            if c \<noteq> 0 then 6 else 7)))
               else if type = sint LMDB_NUMERIC_TYPE \<or> type = sint LMDB_INTEGER_TYPE then
                 ret (Some (Fmt_Data [] (str '', ''), seglen + 2))
               else if type = sint LMDB_STRING_TYPE then
                 ret (Some (Fmt_Data [0x22] (0x22 # str '', ''), seglen + 4))
               else ret None) (\<lambda>fe.
        case fe of
          None \<Rightarrow> CreateKeyDumpString_loop re key len (i + (seglen + 2)) buf cur remaining
        | Some (fmt, estimate) \<Rightarrow>
            (case (if estimate \<le> remaining
                   then map_option (\<lambda>b. (b, len * 2 - cur)) (realloc re buf (len * 2))
                   else Some (buf, remaining)) of
               None \<Rightarrow> ret None
             | Some (buf, remaining) \<Rightarrow>
                 xbind (case fmt of
                          Fmt_Text t \<Rightarrow> ret t
                        | Fmt_Data l r \<Rightarrow>
                            xbind (sprintf_s seglen (drop (unat (GetSegmentData i)) key)) (\<lambda>d. ret (l @ d @ r)))
                   (\<lambda>out.
                 xbind (memcpy buf cur (out @ [0]) (of_nat (length out) + 1)) (\<lambda>buf.
                 CreateKeyDumpString_loop re key len (i + (seglen + 2)) buf
                   (cur + of_nat (length out)) (remaining - of_nat (length out))))))))
      else ret (Some (buf, cur)))"

text \<open>The result is the buffer; the C string is its bytes up to the first NUL.\<close>

definition CreateKeyDumpString :: "alloc \<Rightarrow> alloc \<Rightarrow> bytes \<Rightarrow> (bytes option) exec" where
  "CreateKeyDumpString al re key =
     (let len = mv_size key * 2
      in case malloc al len of
           None \<Rightarrow> ret None
         | Some buf \<Rightarrow>
             xbind (wr buf 0 0x5B) (\<lambda>buf.
             xbind (CreateKeyDumpString_loop re key len 0 buf 1 len) (\<lambda>r.
             case r of
               None \<Rightarrow> ret None
             | Some (buf, cur) \<Rightarrow>
                 let cur = cur - 2
                 in xbind (wr buf cur 0x5D) (\<lambda>buf.
                    xbind (wr buf (cur + 1) 0) (\<lambda>buf. ret (Some buf))))))"

subsection \<open>_dump\<close>

text \<open>\<open>"%*s"\<close>: at least \<open>w\<close> characters, padded on the left; the string runs to its NUL.\<close>

definition printf_pad :: "int \<Rightarrow> bytes \<Rightarrow> bytes exec" where
  "printf_pad w data =
     (if 0 \<in> set data
      then ret (let s = cstr data; p = replicate (nat \<bar>w\<bar> - length s) 0x20
                in if 0 \<le> w then p @ s else s @ p)
      else throw Out_Of_Bounds)"

partial_function (option) LmdbTx__Dump_loop ::
    "alloc \<Rightarrow> alloc \<Rightarrow> bytes \<Rightarrow> mdb_txn \<Rightarrow> bytes \<Rightarrow> size_t \<Rightarrow> mdb_cursor \<Rightarrow> bytes \<Rightarrow> mdb_cursor_op
      \<Rightarrow> bytes \<Rightarrow> bytes exec" where
  "LmdbTx__Dump_loop al re tail t prefix pfxlen cur key op out =
     xbind (mdb_cursor_get CompareKeys t cur key op) (\<lambda>(rc, cur, key, node).
     if rc \<noteq> MDB_SUCCESS then ret out
     else
       xbind (if 0 < pfxlen then strncmp prefix (node_mem tail (the node)) (unat pfxlen) else ret 0) (\<lambda>c.
       if c \<noteq> 0 then ret out
       else
         xbind (CreateKeyDumpString al re key) (\<lambda>keystr.
         xbind (deref keystr) (\<lambda>keystr.
         xbind (printf_pad (sint (ucast (mv_size (snd (the node))) :: 32 word)) (snd (the node) @ tail)) (\<lambda>v.
         LmdbTx__Dump_loop al re tail t prefix pfxlen cur key MDB_NEXT
           (out @ cstr keystr @ str '' = '' @ v @ [0x0A]))))))"

definition LmdbTx__Dump ::
    "alloc \<Rightarrow> alloc \<Rightarrow> ('d \<Rightarrow> bytes) \<Rightarrow> bytes \<Rightarrow> mdb_txn option \<Rightarrow> 'd lua_value list \<Rightarrow> bytes exec" where
  "LmdbTx__Dump al re fmt tail txn L =
     (let err = mdb_cursor_open txn
      in if err \<noteq> MDB_SUCCESS then throw (Lua_Error (mdb_strerror err))
      else
        xbind (GetLmdbKeyFromLua al fmt L 2 (int (length L)) False) (\<lambda>(pfxlen, prefix).
        LmdbTx__Dump_loop al re tail (the txn) prefix pfxlen mdb_cursor_init
          (if 0 < pfxlen then prefix else []) (if 0 < pfxlen then MDB_SET_RANGE else MDB_NEXT) []))"

end
