(* ===== verification/Utf8.thy ===== *)
theory Utf8
  imports Prelude
begin

text \<open>
  The UTF-8 and UTF-16 helpers of \<open>src/src/deps/json/json.c\<close> (lines 112 to 326). A \<open>char *\<close>
  is the list of the bytes from it on, terminating NUL included, so a read past the NUL is
  \<open>Out_Of_Bounds\<close>; an \<open>unsigned char\<close> is a \<open>byte\<close>, \<open>uchar_t\<close> a 32-bit word and \<open>uint16_t\<close>
  a 16-bit word.
\<close>

type_synonym uchar_t = "32 word"

definition cont :: "byte \<Rightarrow> bool" where
  "cont c \<longleftrightarrow> c AND 0xC0 = 0x80"

subsection \<open>Validation\<close>

definition utf8_validate_cz :: "bytes \<Rightarrow> nat exec" where
  "utf8_validate_cz s =
     xbind (peek s) (\<lambda>c.
     let s = tl s in
     if c \<le> 0x7F then ret 1
     else if c \<le> 0xC1 then ret 0
     else if c \<le> 0xDF then
       xbind (peek s) (\<lambda>d. if \<not> cont d then ret 0 else ret 2)
     else if c \<le> 0xEF then
       xbind (if c = 0xE0 then xbind (peek s) (\<lambda>d. ret (d < 0xA0)) else ret False) (\<lambda>bad.
       if bad then ret 0 else
       xbind (if c = 0xED then xbind (peek s) (\<lambda>d. ret (d > 0x9F)) else ret False) (\<lambda>bad.
       if bad then ret 0 else
       xbind (peek s) (\<lambda>d. if \<not> cont d then ret 0 else
       xbind (peek (tl s)) (\<lambda>d. if \<not> cont d then ret 0 else ret 3))))
     else if c \<le> 0xF4 then
       xbind (if c = 0xF0 then xbind (peek s) (\<lambda>d. ret (d < 0x90)) else ret False) (\<lambda>bad.
       if bad then ret 0 else
       xbind (if c = 0xF4 then xbind (peek s) (\<lambda>d. ret (d > 0x8F)) else ret False) (\<lambda>bad.
       if bad then ret 0 else
       xbind (peek s) (\<lambda>d. if \<not> cont d then ret 0 else
       xbind (peek (tl s)) (\<lambda>d. if \<not> cont d then ret 0 else
       xbind (peek (tl (tl s))) (\<lambda>d. if \<not> cont d then ret 0 else ret 4)))))
     else ret 0)"

function utf8_validate :: "bytes \<Rightarrow> bool exec" where
  "utf8_validate s =
     xbind (peek s) (\<lambda>c.
     if c = 0 then ret True
     else xbind (utf8_validate_cz s) (\<lambda>len.
       if len = 0 then ret False else utf8_validate (drop len s)))"
  by pat_completeness auto
termination
  by (relation "measure length") (auto simp: peek_ret_iff)

declare utf8_validate.simps [simp del]

subsection \<open>Reading and writing a character\<close>

text \<open>The code point and the number of bytes read.\<close>

definition utf8_read_char :: "bytes \<Rightarrow> (uchar_t \<times> nat) exec" where
  "utf8_read_char s =
     xbind (utf8_validate_cz s) (\<lambda>n.
     xbind (c_assert (n \<noteq> 0)) (\<lambda>_.
     xbind (peek s) (\<lambda>c0.
     if c0 \<le> 0x7F then ret (ucast c0, 1)
     else if c0 \<le> 0xDF then
       xbind (peek (drop 1 s)) (\<lambda>c1.
       ret (push_bit 6 (ucast c0 AND 0x1F) OR (ucast c1 AND 0x3F), 2))
     else if c0 \<le> 0xEF then
       xbind (peek (drop 1 s)) (\<lambda>c1.
       xbind (peek (drop 2 s)) (\<lambda>c2.
       ret (push_bit 12 (ucast c0 AND 0xF) OR push_bit 6 (ucast c1 AND 0x3F) OR (ucast c2 AND 0x3F), 3)))
     else
       xbind (peek (drop 1 s)) (\<lambda>c1.
       xbind (peek (drop 2 s)) (\<lambda>c2.
       xbind (peek (drop 3 s)) (\<lambda>c3.
       ret (push_bit 18 (ucast c0 AND 0x7) OR push_bit 12 (ucast c1 AND 0x3F)
            OR push_bit 6 (ucast c2 AND 0x3F) OR (ucast c3 AND 0x3F), 4)))))))"

text \<open>The bytes written; their number is the C function's result.\<close>

definition utf8_write_char :: "uchar_t \<Rightarrow> bytes exec" where
  "utf8_write_char unicode =
     xbind (c_assert (unicode \<le> 0x10FFFF \<and> \<not> (unicode \<ge> 0xD800 \<and> unicode \<le> 0xDFFF))) (\<lambda>_.
     if unicode \<le> 0x7F then ret [ucast unicode]
     else if unicode \<le> 0x7FF then
       ret [ucast (0xC0 OR drop_bit 6 unicode), ucast (0x80 OR (unicode AND 0x3F))]
     else if unicode \<le> 0xFFFF then
       ret [ucast (0xE0 OR drop_bit 12 unicode), ucast (0x80 OR (drop_bit 6 unicode AND 0x3F)),
            ucast (0x80 OR (unicode AND 0x3F))]
     else
       ret [ucast (0xF0 OR drop_bit 18 unicode), ucast (0x80 OR (drop_bit 12 unicode AND 0x3F)),
            ucast (0x80 OR (drop_bit 6 unicode AND 0x3F)), ucast (0x80 OR (unicode AND 0x3F))])"

subsection \<open>Surrogate pairs\<close>

definition from_surrogate_pair :: "16 word \<Rightarrow> 16 word \<Rightarrow> uchar_t option" where
  "from_surrogate_pair uc lc =
     (if uc \<ge> 0xD800 \<and> uc \<le> 0xDBFF \<and> lc \<ge> 0xDC00 \<and> lc \<le> 0xDFFF
      then Some (0x10000 + (push_bit 10 (ucast uc AND 0x3FF) OR (ucast lc AND 0x3FF)))
      else None)"

definition to_surrogate_pair :: "uchar_t \<Rightarrow> (16 word \<times> 16 word) exec" where
  "to_surrogate_pair unicode =
     xbind (c_assert (unicode \<ge> 0x10000 \<and> unicode \<le> 0x10FFFF)) (\<lambda>_.
     let n = unicode - 0x10000
     in ret (ucast (drop_bit 10 n AND 0x3FF) OR 0xD800, ucast (n AND 0x3FF) OR 0xDC00))"

subsection \<open>One valid character\<close>

definition utf8_char :: "bytes \<Rightarrow> bool" where
  "utf8_char xs \<longleftrightarrow> xs \<noteq> [] \<and> utf8_validate_cz (xs @ [0]) = ret (length xs)"

lemma not_cont_0 [simp]: "\<not> cont 0"
  by (simp add: cont_def)

lemma cont_iff: "cont c \<longleftrightarrow> 0x80 \<le> c \<and> c \<le> 0xBF"
  by (rule byte_exhaust) code_simp

lemma cont_high: "cont x \<Longrightarrow> \<not> x \<le> 0x7F"
  by (auto simp: cont_iff word_le_nat_alt)

text \<open>The four shapes of a valid character, by its first byte.\<close>

lemma utf8_validate_cz_cases:
  assumes "utf8_validate_cz s = ret n" "n \<noteq> 0"
  obtains (1) c r where "s = c # r" "n = 1" "c \<le> 0x7F"
    | (2) c d r where "s = c # d # r" "n = 2" "\<not> c \<le> 0xC1" "c \<le> 0xDF" "cont d"
    | (3) c d e r where "s = c # d # e # r" "n = 3" "\<not> c \<le> 0xDF" "c \<le> 0xEF" "cont d" "cont e"
        "c = 0xE0 \<longrightarrow> \<not> d < 0xA0" "c = 0xED \<longrightarrow> \<not> d > 0x9F"
    | (4) c d e f r where "s = c # d # e # f # r" "n = 4" "\<not> c \<le> 0xEF" "c \<le> 0xF4" "cont d" "cont e" "cont f"
        "c = 0xF0 \<longrightarrow> \<not> d < 0x90" "c = 0xF4 \<longrightarrow> \<not> d > 0x8F"
proof -
  obtain c s1 where s: "s = c # s1" using assms(1) by (cases s) (auto simp: utf8_validate_cz_def)
  note v = assms(1)[unfolded s utf8_validate_cz_def Let_def peek_simps xbind_simps list.sel]
  consider "c \<le> 0x7F" | "\<not> c \<le> 0x7F" "c \<le> 0xC1" | "\<not> c \<le> 0x7F" "\<not> c \<le> 0xC1" "c \<le> 0xDF"
    | "\<not> c \<le> 0x7F" "\<not> c \<le> 0xC1" "\<not> c \<le> 0xDF" "c \<le> 0xEF"
    | "\<not> c \<le> 0x7F" "\<not> c \<le> 0xC1" "\<not> c \<le> 0xDF" "\<not> c \<le> 0xEF" "c \<le> 0xF4"
    | "\<not> c \<le> 0x7F" "\<not> c \<le> 0xC1" "\<not> c \<le> 0xDF" "\<not> c \<le> 0xEF" "\<not> c \<le> 0xF4" by blast
  then show thesis
  proof cases
    case 1
    then show ?thesis using v s that(1) by simp
  next
    case 2
    then show ?thesis using v assms(2) by simp
  next
    case 3
    then obtain d r where "s1 = d # r" "cont d" "n = 2"
      using v assms(2) by (cases s1) (auto split: if_splits)
    then show ?thesis using s 3 that(2) by simp
  next
    case 4
    then obtain d e r where "s1 = d # e # r" "cont d" "cont e" "n = 3"
        "c = 0xE0 \<longrightarrow> \<not> d < 0xA0" "c = 0xED \<longrightarrow> \<not> d > 0x9F"
      using v assms(2) by (cases s1; cases "tl s1") (auto simp: xbind_ret_iff split: if_splits)
    then show ?thesis using s 4 that(3) by simp
  next
    case 5
    then obtain d e f r where "s1 = d # e # f # r" "cont d" "cont e" "cont f" "n = 4"
        "c = 0xF0 \<longrightarrow> \<not> d < 0x90" "c = 0xF4 \<longrightarrow> \<not> d > 0x8F"
      using v assms(2)
      by (cases s1; cases "tl s1"; cases "tl (tl s1)") (auto simp: xbind_ret_iff split: if_splits)
    then show ?thesis using s 5 that(4) by simp
  next
    case 6
    then show ?thesis using v assms(2) by simp
  qed
qed

lemma utf8_validate_cz_1: "c \<le> 0x7F \<Longrightarrow> utf8_validate_cz (c # r) = ret 1"
  by (simp add: utf8_validate_cz_def)

lemma byte_between: "c \<le> (k :: byte) \<Longrightarrow> k \<le> m \<Longrightarrow> c \<le> m"
  by (rule order_trans)

lemma utf8_validate_cz_2:
  "\<not> c \<le> 0xC1 \<Longrightarrow> c \<le> 0xDF \<Longrightarrow> cont d \<Longrightarrow> utf8_validate_cz (c # d # r) = ret 2"
  using byte_between[of c "0x7F" "0xC1"] by (auto simp: utf8_validate_cz_def Let_def)

lemma utf8_validate_cz_3:
  "\<not> c \<le> 0xDF \<Longrightarrow> c \<le> 0xEF \<Longrightarrow> cont d \<Longrightarrow> cont e \<Longrightarrow> (c = 0xE0 \<longrightarrow> \<not> d < 0xA0)
    \<Longrightarrow> (c = 0xED \<longrightarrow> \<not> d > 0x9F) \<Longrightarrow> utf8_validate_cz (c # d # e # r) = ret 3"
  using byte_between[of c "0x7F" "0xDF"] byte_between[of c "0xC1" "0xDF"]
  by (auto simp: utf8_validate_cz_def Let_def)

lemma utf8_validate_cz_4:
  "\<not> c \<le> 0xEF \<Longrightarrow> c \<le> 0xF4 \<Longrightarrow> cont d \<Longrightarrow> cont e \<Longrightarrow> cont f \<Longrightarrow> (c = 0xF0 \<longrightarrow> \<not> d < 0x90)
    \<Longrightarrow> (c = 0xF4 \<longrightarrow> \<not> d > 0x8F) \<Longrightarrow> utf8_validate_cz (c # d # e # f # r) = ret 4"
  using byte_between[of c "0x7F" "0xEF"] byte_between[of c "0xC1" "0xEF"] byte_between[of c "0xDF" "0xEF"]
  by (auto simp: utf8_validate_cz_def Let_def)

lemmas utf8_validate_cz_intros =
  utf8_validate_cz_1 utf8_validate_cz_2 utf8_validate_cz_3 utf8_validate_cz_4

text \<open>A valid character is read from its own bytes alone; none of them is a NUL unless it is one.\<close>

lemma utf8_validate_cz_split:
  assumes "utf8_validate_cz s = ret n" "n \<noteq> 0"
  obtains xs r where "s = xs @ r" "length xs = n" "\<And>r'. utf8_validate_cz (xs @ r') = ret n"
    "hd s \<noteq> 0 \<Longrightarrow> 0 \<notin> set xs" "n \<noteq> 1 \<Longrightarrow> \<forall>x \<in> set xs. \<not> x \<le> 0x7F"
proof -
  have cont: "\<not> x \<le> 0x7F" "x \<noteq> 0" if "cont x" for x
    using that cont_high by auto
  from assms show thesis
  proof (cases rule: utf8_validate_cz_cases)
    case (1 c r)
    then show ?thesis using that[of "[c]" r] by (simp add: utf8_validate_cz_1)
  next
    case (2 c d r)
    then show ?thesis using that[of "[c, d]" r] cont byte_between[of c "0x7F" "0xC1"]
      by (auto simp: utf8_validate_cz_2)
  next
    case (3 c d e r)
    then show ?thesis using that[of "[c, d, e]" r] cont byte_between[of c "0x7F" "0xDF"]
      by (auto simp: utf8_validate_cz_3)
  next
    case (4 c d e f r)
    then show ?thesis using that[of "[c, d, e, f]" r] cont byte_between[of c "0x7F" "0xEF"]
      by (auto simp: utf8_validate_cz_4)
  qed
qed

lemma utf8_validate_cz_take:
  assumes "utf8_validate_cz s = ret n" "n \<noteq> 0"
  shows "n \<le> length s" "utf8_validate_cz (take n s @ r) = ret n" "hd s \<noteq> 0 \<Longrightarrow> 0 \<notin> set (take n s)"
    "n \<noteq> 1 \<Longrightarrow> \<forall>x \<in> set (take n s). \<not> x \<le> 0x7F"
proof -
  obtain xs q where "s = xs @ q" "length xs = n" "\<And>r'. utf8_validate_cz (xs @ r') = ret n"
      "hd s \<noteq> 0 \<Longrightarrow> 0 \<notin> set xs" "n \<noteq> 1 \<Longrightarrow> \<forall>x \<in> set xs. \<not> x \<le> 0x7F"
    using assms by (rule utf8_validate_cz_split) metis
  then show "n \<le> length s" "utf8_validate_cz (take n s @ r) = ret n" "hd s \<noteq> 0 \<Longrightarrow> 0 \<notin> set (take n s)"
    "n \<noteq> 1 \<Longrightarrow> \<forall>x \<in> set (take n s). \<not> x \<le> 0x7F" by simp_all
qed

subsection \<open>Bytes of a written character\<close>

text \<open>The bit operations of the C code as arithmetic on the code point.\<close>

lemma unat_and_mask: "unat (x AND mask k) = unat x mod 2 ^ k"
  unfolding take_bit_eq_mask[symmetric] unsigned_take_bit_eq by (simp add: take_bit_eq_mod)
lemma unat_drop: "unat (drop_bit k (x::'a::len word)) = unat x div 2 ^ k"
proof -
  have "take_bit LENGTH('a) (unat x) = unat x" by (rule take_bit_nat_eq_self) (rule unsigned_less)
  then show ?thesis unfolding unsigned_drop_bit_eq by (simp add: drop_bit_eq_div)
qed
lemma unat_ucast_byte: "unat (ucast x :: byte) = unat x mod 256"
  by (simp add: unsigned_ucast_eq take_bit_eq_mod)
lemma bit_unat_less: 
  assumes "unat (b :: 'a::len word) < 2 ^ k" "bit b n" shows "n < k"
proof -
  have "take_bit k (unat b) = unat b" using assms(1) by (rule take_bit_nat_eq_self)
  moreover have "bit (unat b) n" using assms(2) by (simp add: bit_unsigned_iff)
  ultimately show ?thesis by (metis bit_take_bit_iff)
qed
lemma or_add: 
  assumes "unat (b::'a::len word) < 2^k" shows "push_bit k a OR b = push_bit k a + b"
proof (rule disjunctive_add[symmetric])
  fix n show "\<not> bit (push_bit k a) n \<or> \<not> bit b n"
    using bit_unat_less[OF assms, of n] by (auto simp: bit_simps)
qed
lemma unat_push_or:
  assumes "unat (b::'a::len word) < 2^k" "unat a * 2 ^ k + unat b < 2 ^ LENGTH('a)"
  shows "unat (push_bit k a OR b) = unat a * 2 ^ k + unat b"
proof -
  have "unat (push_bit k a) = unat a * 2 ^ k"
    using assms(2) unfolding unsigned_push_bit_eq by (simp add: push_bit_eq_mult take_bit_nat_eq_self)
  then show ?thesis
    unfolding or_add[OF assms(1)] using assms(2) by (simp add: unat_add_lem[THEN iffD1])
qed
lemma byte_or:
  assumes "unat (b :: 32 word) < 2^k" "unat a * 2 ^ k + unat b < 256"
  shows "(ucast (push_bit k a OR b) :: byte) = of_nat (unat a * 2 ^ k + unat b)"
proof -
  have "unat (push_bit k a OR b) = unat a * 2 ^ k + unat b" using assms by (intro unat_push_or) simp_all
  then have "unat (ucast (push_bit k a OR b) :: byte) = unat a * 2 ^ k + unat b"
    using assms(2) unfolding unat_ucast_byte by simp
  then have "of_nat (unat (ucast (push_bit k a OR b) :: byte)) = (of_nat (unat a * 2 ^ k + unat b) :: byte)"
    by (rule arg_cong)
  then show ?thesis by simp
qed
lemma utf8_masks: "(0xC0 :: 32 word) = push_bit 6 3" "(0x80 :: 32 word) = push_bit 6 2" "(0xE0 :: 32 word) = push_bit 4 14" "(0xF0 :: 32 word) = push_bit 4 15"
 "(0x3F :: 32 word) = mask 6" "(0x1F :: 32 word) = mask 5" "(0xF :: 32 word) = mask 4" "(7 :: 32 word) = mask 3"
  by code_simp+

lemma utf8_write_char_nat:
  assumes "unicode \<le> 0x10FFFF" "\<not> (unicode \<ge> 0xD800 \<and> unicode \<le> 0xDFFF)"
  defines "n \<equiv> unat unicode"
  shows "utf8_write_char unicode = ret
     (if n < 128 then [of_nat n]
      else if n < 2048 then [of_nat (192 + n div 64), of_nat (128 + n mod 64)]
      else if n < 65536 then [of_nat (224 + n div 4096), of_nat (128 + n div 64 mod 64), of_nat (128 + n mod 64)]
      else [of_nat (240 + n div 262144), of_nat (128 + n div 4096 mod 64), of_nat (128 + n div 64 mod 64),
            of_nat (128 + n mod 64)])"
proof -
  have n: "n \<le> 1114111" using assms(1) by (simp add: n_def word_le_nat_alt)
  have cmp: "unicode \<le> 0x7F \<longleftrightarrow> n < 128" "unicode \<le> 0x7FF \<longleftrightarrow> n < 2048" "unicode \<le> 0xFFFF \<longleftrightarrow> n < 65536"
    by (auto simp: n_def word_le_nat_alt)
  have tail: "(ucast (0x80 OR (drop_bit k unicode AND 0x3F)) :: byte) = of_nat (128 + n div 2 ^ k mod 64)" for k
  proof -
    have "unat (drop_bit k unicode AND mask 6) = n div 2 ^ k mod 64"
      by (simp add: unat_and_mask unat_drop n_def)
    then show ?thesis
      unfolding utf8_masks by (subst byte_or) simp_all
  qed
  have tail0: "(ucast (0x80 OR (unicode AND 0x3F)) :: byte) = of_nat (128 + n mod 64)"
    using tail[of 0] by simp
  have h2: "(ucast (0xC0 OR drop_bit 6 unicode) :: byte) = of_nat (192 + n div 64)" if "n < 2048"
  proof -
    have "unat (drop_bit 6 unicode) = n div 64" by (simp add: unat_drop n_def)
    then show ?thesis using that unfolding utf8_masks by (subst byte_or) (simp_all add: div_less_iff_less_mult)
  qed
  have h3: "(ucast (0xE0 OR drop_bit 12 unicode) :: byte) = of_nat (224 + n div 4096)" if "n < 65536"
  proof -
    have "unat (drop_bit 12 unicode) = n div 4096" by (simp add: unat_drop n_def)
    then show ?thesis using that unfolding utf8_masks by (subst byte_or) simp_all
  qed
  have h4: "(ucast (0xF0 OR drop_bit 18 unicode) :: byte) = of_nat (240 + n div 262144)"
  proof -
    have "unat (drop_bit 18 unicode) = n div 262144" by (simp add: unat_drop n_def)
    then show ?thesis using n unfolding utf8_masks(4) by (subst byte_or) simp_all
  qed
  have "(ucast unicode :: byte) = of_nat n" by (simp add: n_def)
  then show ?thesis
    using assms(1,2) h2 h3 h4 tail[of 6] tail[of 12] tail0 cmp by (simp add: utf8_write_char_def)
qed

lemma unat_ucast_up: "unat (ucast (c :: byte) :: 32 word) = unat c"
proof -
  have "unat c < 2 ^ LENGTH(8)" by (rule unsigned_less)
  then have "unat c < 2 ^ 32" by simp
  then show ?thesis by (simp add: unsigned_ucast_eq take_bit_nat_eq_self)
qed

lemma unat_ucast_and: "unat ((ucast (c :: byte) :: 32 word) AND mask k) = unat c mod 2 ^ k"
  by (simp add: unat_and_mask unat_ucast_up)

lemma base64_digits:
  fixes n :: nat
  shows "n = n div 4096 * 4096 + n div 64 mod 64 * 64 + n mod 64"
    and "n = n div 262144 * 262144 + n div 4096 mod 64 * 4096 + n div 64 mod 64 * 64 + n mod 64"
proof -
  have dd: "n div 4096 = n div 64 div 64" "n div 262144 = n div 64 div 64 div 64"
    by (simp_all flip: div_mult2_eq)
  have lin: "n = a * 64 + d \<Longrightarrow> a = b * 64 + c \<Longrightarrow> n = b * 4096 + c * 64 + d"
    "n = a * 64 + d \<Longrightarrow> a = b * 64 + c \<Longrightarrow> b = e * 64 + f \<Longrightarrow> n = e * 262144 + f * 4096 + c * 64 + d"
    for a b c d e f :: nat by simp_all
  show "n = n div 4096 * 4096 + n div 64 mod 64 * 64 + n mod 64" unfolding dd
    by (rule lin(1)) (simp_all only: div_mult_mod_eq)
  show "n = n div 262144 * 262144 + n div 4096 mod 64 * 4096 + n div 64 mod 64 * 64 + n mod 64" unfolding dd
    by (rule lin(2)) (simp_all only: div_mult_mod_eq)
qed

lemma mod_shift: "q < m \<Longrightarrow> m dvd k \<Longrightarrow> (k + q) mod m = (q :: nat)"
  using mod_add_left_eq[of k m q] by (simp add: dvd_imp_mod_0)

text \<open>Writing a character and reading it back, with the bytes at any place in a string.\<close>

lemma utf8_write_read:
  assumes "unicode \<le> 0x10FFFF" "\<not> (unicode \<ge> 0xD800 \<and> unicode \<le> 0xDFFF)"
    and "utf8_write_char unicode = ret bs"
  shows "utf8_validate_cz (bs @ r) = ret (length bs)"
    and "utf8_read_char (bs @ r) = ret (unicode, length bs)"
proof -
  define n where "n = unat unicode"
  have n: "n \<le> 1114111" using assms(1) by (simp add: n_def word_le_nat_alt)
  have sur: "\<not> (55296 \<le> n \<and> n \<le> 57343)" using assms(2) by (auto simp: n_def word_le_nat_alt)
  have eqI: "w = unicode" if "unat w = n" for w using that by (simp add: n_def word_unat_eq_iff)
  note w = utf8_write_char_nat[OF assms(1,2), folded n_def]
  consider (1) "n < 128" | (2) "128 \<le> n" "n < 2048" | (3) "2048 \<le> n" "n < 65536" | (4) "65536 \<le> n" by linarith
  then have "utf8_validate_cz (bs @ r) = ret (length bs)
      \<and> utf8_read_char (bs @ r) = ret (unicode, length bs)"
  proof cases
    case 1
    then have bs: "bs = [of_nat n]" using assms(3) w by simp
    have u: "unat (of_nat n :: byte) = n" using 1 by (intro unat_of_nat_byte) simp
    then have "(of_nat n :: byte) \<le> 0x7F" using 1 by (simp add: word_le_nat_alt)
    moreover have "(ucast (of_nat n :: byte) :: 32 word) = unicode"
      by (rule eqI) (simp add: unat_ucast_up u)
    ultimately show ?thesis by (simp add: bs utf8_read_char_def utf8_validate_cz_1)
  next
    case 2
    define c0 c1 :: byte where "c0 = of_nat (192 + n div 64)" and "c1 = of_nat (128 + n mod 64)"
    have bs: "bs = [c0, c1]" using 2 assms(3) w by (simp add: c0_def c1_def)
    have u: "unat c0 = 192 + n div 64" "unat c1 = 128 + n mod 64"
      unfolding c0_def c1_def using 2 by (intro unat_of_nat_byte, simp)+
    have v: "utf8_validate_cz (bs @ r) = ret 2"
      unfolding bs using 2 u by (simp, intro utf8_validate_cz_2) (simp_all add: word_le_nat_alt cont_iff)
    have "push_bit 6 ((ucast c0 :: uchar_t) AND 0x1F) OR (ucast c1 AND 0x3F) = unicode"
      using 2 u unfolding utf8_masks
      by (intro eqI, subst unat_push_or) (simp_all add: unat_ucast_and mod_shift)
    moreover have "n div 64 < 32" using 2 by simp
    then have "\<not> c0 \<le> 0x7F" "c0 \<le> 0xDF" using u by (simp_all add: word_le_nat_alt)
    ultimately show ?thesis using v by (simp add: bs utf8_read_char_def)
  next
    case 3
    define c0 c1 c2 :: byte where "c0 = of_nat (224 + n div 4096)" and "c1 = of_nat (128 + n div 64 mod 64)"
      and "c2 = of_nat (128 + n mod 64)"
    have bs: "bs = [c0, c1, c2]" using 3 assms(3) w by (simp add: c0_def c1_def c2_def)
    have u: "unat c0 = 224 + n div 4096" "unat c1 = 128 + n div 64 mod 64" "unat c2 = 128 + n mod 64"
      unfolding c0_def c1_def c2_def using 3 by (intro unat_of_nat_byte, simp)+
    obtain q2 q1 q0 where q: "n div 4096 = q2" "n div 64 mod 64 = q1" "n mod 64 = q0" by blast
    have nq: "n = q2 * 4096 + q1 * 64 + q0" using base64_digits(1)[of n] q by simp
    have ql: "q2 < 16" "q1 < 64" "q0 < 64" using 3 q by auto
    have v: "utf8_validate_cz (bs @ r) = ret 3"
      unfolding bs append_Cons append_Nil
    proof (rule utf8_validate_cz_3)
      show "\<not> c0 \<le> 0xDF" "c0 \<le> 0xEF" "cont c1" "cont c2"
        using u q ql by (simp_all add: word_le_nat_alt cont_iff)
      show "c0 = 0xE0 \<longrightarrow> \<not> c1 < 0xA0"
        using u q ql nq 3 by (auto simp: word_less_nat_alt word_unat_eq_iff)
      show "c0 = 0xED \<longrightarrow> \<not> 0x9F < c1"
        using u q ql nq sur by (auto simp: word_less_nat_alt word_unat_eq_iff)
    qed
    have "push_bit 12 ((ucast c0 :: uchar_t) AND 0xF) OR push_bit 6 (ucast c1 AND 0x3F) OR (ucast c2 AND 0x3F) = unicode"
    proof -
      have i: "unat (push_bit 6 ((ucast c1 :: uchar_t) AND mask 6) OR (ucast c2 AND mask 6)) = q1 * 64 + q0"
        using u q ql by (subst unat_push_or) (simp_all add: unat_ucast_and mod_shift)
      have "unat (push_bit 12 ((ucast c0 :: uchar_t) AND mask 4) OR
          (push_bit 6 (ucast c1 AND mask 6) OR (ucast c2 AND mask 6))) = q2 * 4096 + (q1 * 64 + q0)"
        using u(1) q ql
        by (subst unat_push_or) (simp_all only: unat_ucast_and i, simp_all add: mod_shift)
      then show ?thesis unfolding utf8_masks by (intro eqI) (simp add: nq)
    qed
    moreover have "n div 4096 < 16" using 3 by simp
    then have "\<not> c0 \<le> 0x7F" "\<not> c0 \<le> 0xDF" "c0 \<le> 0xEF" using u by (simp_all add: word_le_nat_alt)
    ultimately show ?thesis using v by (simp add: bs utf8_read_char_def)
  next
    case 4
    define c0 c1 c2 c3 :: byte where "c0 = of_nat (240 + n div 262144)" and "c1 = of_nat (128 + n div 4096 mod 64)"
      and "c2 = of_nat (128 + n div 64 mod 64)" and "c3 = of_nat (128 + n mod 64)"
    have bs: "bs = [c0, c1, c2, c3]" using 4 assms(3) w by (simp add: c0_def c1_def c2_def c3_def)
    have u: "unat c0 = 240 + n div 262144" "unat c1 = 128 + n div 4096 mod 64"
        "unat c2 = 128 + n div 64 mod 64" "unat c3 = 128 + n mod 64"
      unfolding c0_def c1_def c2_def c3_def using 4 n by (intro unat_of_nat_byte, simp)+
    obtain q3 q2 q1 q0 where q: "n div 262144 = q3" "n div 4096 mod 64 = q2" "n div 64 mod 64 = q1"
        "n mod 64 = q0" by blast
    have nq: "n = q3 * 262144 + q2 * 4096 + q1 * 64 + q0" using base64_digits(2)[of n] q by simp
    have ql: "q3 \<le> 4" "q2 < 64" "q1 < 64" "q0 < 64" using n q by auto
    have v: "utf8_validate_cz (bs @ r) = ret 4"
      unfolding bs append_Cons append_Nil
    proof (rule utf8_validate_cz_4)
      show "\<not> c0 \<le> 0xEF" "c0 \<le> 0xF4" "cont c1" "cont c2" "cont c3"
        using u q ql by (simp_all add: word_le_nat_alt cont_iff)
      show "c0 = 0xF0 \<longrightarrow> \<not> c1 < 0x90"
        using u q ql nq 4 by (auto simp: word_less_nat_alt word_unat_eq_iff)
      show "c0 = 0xF4 \<longrightarrow> \<not> 0x8F < c1"
        using u q ql nq n by (auto simp: word_less_nat_alt word_unat_eq_iff)
    qed
    have "push_bit 18 ((ucast c0 :: uchar_t) AND 0x7) OR push_bit 12 (ucast c1 AND 0x3F)
        OR push_bit 6 (ucast c2 AND 0x3F) OR (ucast c3 AND 0x3F) = unicode"
    proof -
      have i: "unat (push_bit 6 ((ucast c2 :: uchar_t) AND mask 6) OR (ucast c3 AND mask 6)) = q1 * 64 + q0"
        using u q ql by (subst unat_push_or) (simp_all add: unat_ucast_and mod_shift)
      have j: "unat (push_bit 12 ((ucast c1 :: uchar_t) AND mask 6) OR
          (push_bit 6 (ucast c2 AND mask 6) OR (ucast c3 AND mask 6))) = q2 * 4096 + (q1 * 64 + q0)"
        using u(2) q ql by (subst unat_push_or) (simp_all only: unat_ucast_and i, simp_all add: mod_shift)
      have "unat (push_bit 18 ((ucast c0 :: uchar_t) AND mask 3) OR (push_bit 12 (ucast c1 AND mask 6) OR
          (push_bit 6 (ucast c2 AND mask 6) OR (ucast c3 AND mask 6)))) = q3 * 262144 + (q2 * 4096 + (q1 * 64 + q0))"
        using u(1) q ql
        by (subst unat_push_or) (simp_all only: unat_ucast_and j, simp_all add: mod_shift)
      then show ?thesis unfolding utf8_masks or.assoc by (intro eqI) (simp add: nq)
    qed
    moreover have "\<not> c0 \<le> 0x7F" "\<not> c0 \<le> 0xDF" "\<not> c0 \<le> 0xEF" using u by (simp_all add: word_le_nat_alt)
    ultimately show ?thesis using v by (simp add: bs utf8_read_char_def)
  qed
  then show "utf8_validate_cz (bs @ r) = ret (length bs)"
    "utf8_read_char (bs @ r) = ret (unicode, length bs)" by simp_all
qed

subsection \<open>Termination and safety of the validator\<close>

lemma utf8_validate_cz_returns:
  assumes "0 \<in> set s"
  shows "\<exists>n. utf8_validate_cz s = ret n"
proof -
  obtain c s1 where s: "s = c # s1" using assms by (cases s) auto
  have c0: "c = 0 \<Longrightarrow> c \<le> 0x7F" by simp
  show ?thesis
    using assms s c0
    by (cases s1; cases "tl s1"; cases "tl (tl s1)") (auto simp: utf8_validate_cz_def Let_def)
qed

lemma utf8_validate_cz_NUL: "utf8_validate_cz s = ret n \<Longrightarrow> n \<noteq> 0 \<Longrightarrow> 0 \<in> set s \<Longrightarrow> hd s \<noteq> 0
    \<Longrightarrow> 0 \<in> set (drop n s)"
  by (erule (1) utf8_validate_cz_split) auto

lemma utf8_validate_returns:
  assumes "0 \<in> set s"
  shows "\<exists>b. utf8_validate s = ret b"
  using assms
proof (induction s rule: length_induct)
  case (1 s)
  obtain c s1 where s: "s = c # s1" using 1 by (cases s) auto
  obtain n where n: "utf8_validate_cz s = ret n" using utf8_validate_cz_returns 1 by blast
  show ?case
  proof (cases "c = 0 \<or> n = 0")
    case True
    then show ?thesis using s n by (subst utf8_validate.simps) auto
  next
    case False
    then have "0 \<in> set (drop n s)" using utf8_validate_cz_NUL[OF n] 1(2) s by simp
    then obtain b where "utf8_validate (drop n s) = ret b"
      using 1(1) False s by (metis diff_less length_drop length_greater_0_conv list.discI neq0_conv)
    then show ?thesis using s n False by (subst utf8_validate.simps) simp
  qed
qed

text \<open>A string of valid characters, as the validator sees it.\<close>

inductive utf8_string :: "bytes \<Rightarrow> bool" where
  Nil: "utf8_string []"
| Cons: "utf8_char xs \<Longrightarrow> hd xs \<noteq> 0 \<Longrightarrow> utf8_string s \<Longrightarrow> utf8_string (xs @ s)"

lemma utf8_char_append: "utf8_char xs \<Longrightarrow> utf8_validate_cz (xs @ r) = ret (length xs)"
  using utf8_validate_cz_take(2)[of "xs @ [0]" "length xs" r] by (simp add: utf8_char_def)

lemma utf8_char_not_Nil: "utf8_char xs \<Longrightarrow> xs \<noteq> []"
  by (simp add: utf8_char_def)

lemma utf8_char_no_NUL: "utf8_char xs \<Longrightarrow> hd xs \<noteq> 0 \<Longrightarrow> 0 \<notin> set xs"
  using utf8_validate_cz_take(3)[of "xs @ [0]" "length xs"] by (simp add: utf8_char_def)

lemma utf8_string_no_NUL: "utf8_string s \<Longrightarrow> 0 \<notin> set s"
  by (induction rule: utf8_string.induct) (auto simp: utf8_char_no_NUL)

lemma utf8_validate_cz_char:
  assumes "utf8_validate_cz s = ret n" "n \<noteq> 0"
  shows "utf8_char (take n s) \<and> n \<le> length s"
  using utf8_validate_cz_take(1)[OF assms] utf8_validate_cz_take(2)[OF assms, of "[0]"] assms(2)
  by (cases s) (auto simp: utf8_char_def min_def)

lemma utf8_validate_string: "utf8_string s \<Longrightarrow> utf8_validate (s @ 0 # r) = ret True"
proof (induction rule: utf8_string.induct)
  case Nil
  then show ?case by (simp add: utf8_validate.simps)
next
  case (Cons xs s)
  obtain x xs' where x: "xs = x # xs'" using utf8_char_not_Nil[OF Cons(1)] by (cases xs) auto
  then show ?case
    using Cons utf8_char_append[OF Cons(1), of "s @ 0 # r"] by (subst utf8_validate.simps) simp
qed

lemma utf8_validate_True:
  "utf8_validate (s @ [0]) = ret True \<Longrightarrow> 0 \<notin> set s \<Longrightarrow> utf8_string s"
proof (induction s rule: length_induct)
  case (1 s)
  show ?case
  proof (cases s)
    case Nil
    then show ?thesis by (simp add: utf8_string.Nil)
  next
    case (Cons c s')
    then have c0: "c \<noteq> 0" using 1 by auto
    obtain n where n: "utf8_validate_cz (s @ [0]) = ret n" "n \<noteq> 0" "utf8_validate (drop n (s @ [0])) = ret True"
      using 1(2) Cons c0 by (subst (asm) utf8_validate.simps) (auto simp: xbind_ret_iff split: if_splits)
    have t: "n \<le> length (s @ [0])" "0 \<notin> set (take n (s @ [0]))"
      using utf8_validate_cz_take(1,3)[OF n(1,2)] Cons c0 by simp_all
    have nl: "n \<le> length s"
    proof (rule ccontr)
      assume "\<not> n \<le> length s"
      then have "take n (s @ [0]) = s @ [0]" by simp
      then show False using t(2) by simp
    qed
    then have d: "drop n (s @ [0]) = drop n s @ [0]" "take n (s @ [0]) = take n s" by simp_all
    have "0 \<notin> set (drop n s)" using 1(3) by (meson in_set_dropD)
    then have "utf8_string (drop n s)"
      using 1(1)[rule_format, of "drop n s"] n(2,3) d Cons by simp
    moreover have "utf8_char (take n s)" using utf8_validate_cz_char[OF n(1,2)] d by simp
    moreover have "hd (take n s) \<noteq> 0" using Cons c0 n(2) by (cases n) auto
    ultimately show ?thesis using utf8_string.Cons[of "take n s" "drop n s"] by simp
  qed
qed

lemma unat_ucast16_up: "unat (ucast (c :: 16 word) :: 32 word) = unat c"
proof -
  have "unat c < 2 ^ LENGTH(16)" by (rule unsigned_less)
  then have "unat c < 2 ^ 32" by simp
  then show ?thesis by (simp add: unsigned_ucast_eq take_bit_nat_eq_self)
qed

lemma surrogate_masks:
  "(0xD800 :: 16 word) = push_bit 10 54" "(0xDC00 :: 16 word) = push_bit 10 55" "(0x3FF :: 32 word) = mask 10"
  by code_simp+

subsection \<open>What the parser needs of a written character\<close>

lemma utf8_write_char_bytes:
  assumes "unicode \<le> 0x10FFFF" "\<not> (unicode \<ge> 0xD800 \<and> unicode \<le> 0xDFFF)" "unicode \<noteq> 0"
  shows "\<exists>bs. utf8_write_char unicode = ret bs \<and> length bs \<le> 4 \<and> 0 \<notin> set bs"
proof -
  define n where "n = unat unicode"
  have n: "n \<le> 1114111" "n \<noteq> 0" using assms(1,3) by (simp_all add: n_def word_le_nat_alt unat_eq_0)
  have nz: "0 < k \<Longrightarrow> k < 256 \<Longrightarrow> (of_nat k :: byte) \<noteq> 0" for k
    using unat_of_nat_byte[of k] by (metis less_numeral_extra(3) unat_0)
  have nz': "0 \<noteq> (of_nat k :: byte)" if "0 < k" "k < 256" for k using nz[OF that] by metis
  note w = utf8_write_char_nat[OF assms(1,2), folded n_def]
  consider "n < 128" | "128 \<le> n" "n < 2048" | "2048 \<le> n" "n < 65536" | "65536 \<le> n" by linarith
  then show ?thesis
  proof cases
    case 1
    then show ?thesis using w nz'[of n] n by simp
  next
    case 2
    then show ?thesis
      using w nz'[of "192 + n div 64"] nz'[of "128 + n mod 64"] by (simp del: of_nat_add)
  next
    case 3
    then show ?thesis
      using w nz'[of "224 + n div 4096"] nz'[of "128 + n div 64 mod 64"] nz'[of "128 + n mod 64"]
      by (simp del: of_nat_add)
  next
    case 4
    then show ?thesis
      using w n nz'[of "240 + n div 262144"] nz'[of "128 + n div 4096 mod 64"]
        nz'[of "128 + n div 64 mod 64"] nz'[of "128 + n mod 64"]
      by (simp del: of_nat_add)
  qed
qed

lemma from_surrogate_pair_range:
  assumes "from_surrogate_pair uc lc = Some u"
  shows "u \<le> 0x10FFFF" "\<not> (u \<ge> 0xD800 \<and> u \<le> 0xDFFF)" "u \<noteq> 0"
proof -
  let ?x = "push_bit 10 ((ucast uc :: uchar_t) AND mask 10) OR (ucast lc AND mask 10)"
  have u: "u = 0x10000 + ?x"
    using assms unfolding from_surrogate_pair_def surrogate_masks(3)
    by (simp only: option.inject option.simps split: if_splits)
  have m: "unat ((ucast uc :: uchar_t) AND mask 10) < 1024" "unat ((ucast lc :: uchar_t) AND mask 10) < 1024"
    by (simp_all add: unat_and_mask)
  have "unat ?x = unat ((ucast uc :: uchar_t) AND mask 10) * 1024 + unat ((ucast lc :: uchar_t) AND mask 10)"
    using m by (subst unat_push_or) simp_all
  then have x: "unat ?x < 1048576" using m by simp
  then have uu: "unat u = 65536 + unat ?x"
    unfolding u by (subst unat_add_lem[THEN iffD1]) simp_all
  then have r: "65536 \<le> unat u" "unat u < 1114112" using x by linarith+
  show "u \<le> 0x10FFFF" "\<not> (u \<ge> 0xD800 \<and> u \<le> 0xDFFF)"
    using r by (simp_all add: word_le_nat_alt)
  show "u \<noteq> 0" using r(1) by auto
qed

subsection \<open>Properties\<close>

text \<open>C28: every code point \<open>utf8_write_char\<close> accepts is written as one character that the
  validator accepts and \<open>utf8_read_char\<close> reads back, wherever it stands in a string: the bit
  manipulation of both directions agrees with the ranges the validator checks.\<close>

theorem utf8_char_roundtrip:
  assumes "unicode \<le> 0x10FFFF" "\<not> (unicode \<ge> 0xD800 \<and> unicode \<le> 0xDFFF)"
  shows "\<exists>bs. utf8_write_char unicode = ret bs \<and> utf8_validate_cz (bs @ r) = ret (length bs)
       \<and> utf8_read_char (bs @ r) = ret (unicode, length bs) \<and> length bs \<le> 4"
proof -
  obtain bs where "utf8_write_char unicode = ret bs" "length bs \<le> 4"
    using utf8_write_char_nat[OF assms] by auto
  then show ?thesis using utf8_write_read[OF assms] by blast
qed

theorem utf8_char_roundtrip_witness:
  "\<exists>bs. utf8_write_char 0x20AC = ret bs \<and> utf8_read_char (bs @ [0]) = ret (0x20AC, length bs)"
  using utf8_char_roundtrip[of "0x20AC" "[0]"] by auto

text \<open>a code point above U+FFFF survives the split into a UTF-16 surrogate pair.\<close>

theorem surrogate_pair_roundtrip:
  assumes "unicode \<ge> 0x10000" "unicode \<le> 0x10FFFF"
  shows "\<exists>uc lc. to_surrogate_pair unicode = ret (uc, lc) \<and> from_surrogate_pair uc lc = Some unicode"
proof -
  define n where "n = unicode - 0x10000"
  have u: "unicode = 0x10000 + n" by (simp add: n_def)
  have nl: "unat n < 1048576"
    using assms by (simp add: n_def word_le_nat_alt unat_sub)
  define h l where "h = unat n div 1024" and "l = unat n mod 1024"
  have hl: "h < 1024" "l < 1024" "unat n = h * 1024 + l"
    using nl by (simp_all add: h_def l_def less_mult_imp_div_less)
  define uc lc :: "16 word" where
    "uc = ucast (drop_bit 10 n AND 0x3FF) OR 0xD800" and "lc = ucast (n AND 0x3FF) OR 0xDC00"
  have c16: "unat (ucast x :: 16 word) = unat x" if "unat x < 1024" for x :: "32 word"
    using that by (simp add: unsigned_ucast_eq take_bit_nat_eq_self)
  have d: "unat (drop_bit 10 n AND 0x3FF) = h" "unat (n AND 0x3FF) = l"
    unfolding surrogate_masks using hl(1) by (simp_all add: unat_and_mask unat_drop h_def l_def)
  have uc: "unat uc = 54 * 1024 + h"
    unfolding uc_def surrogate_masks(1) or.commute[of _ "push_bit 10 54"]
    using hl(1) c16 d(1) by (subst unat_push_or) simp_all
  have lc: "unat lc = 55 * 1024 + l"
    unfolding lc_def surrogate_masks(2) or.commute[of _ "push_bit 10 55"]
    using hl(2) c16 d(2) by (subst unat_push_or) simp_all
  have rng: "uc \<ge> 0xD800" "uc \<le> 0xDBFF" "lc \<ge> 0xDC00" "lc \<le> 0xDFFF"
    using uc lc hl by (simp_all add: word_le_nat_alt)
  have m: "unat ((ucast uc :: uchar_t) AND mask 10) = h" "unat ((ucast lc :: uchar_t) AND mask 10) = l"
    using uc lc hl by (simp_all add: unat_and_mask unat_ucast16_up mod_shift)
  have "unat (push_bit 10 ((ucast uc :: uchar_t) AND mask 10) OR (ucast lc AND mask 10)) = h * 1024 + l"
    using m hl by (subst unat_push_or) simp_all
  then have "push_bit 10 ((ucast uc :: uchar_t) AND 0x3FF) OR (ucast lc AND 0x3FF) = n"
    unfolding surrogate_masks using hl(3) by (simp add: word_unat_eq_iff)
  then have "from_surrogate_pair uc lc = Some unicode"
    using rng by (simp add: from_surrogate_pair_def u)
  moreover have "to_surrogate_pair unicode = ret (uc, lc)"
    using assms by (simp add: to_surrogate_pair_def uc_def lc_def n_def Let_def)
  ultimately show ?thesis by blast
qed

theorem surrogate_pair_roundtrip_witness:
  "\<exists>uc lc. to_surrogate_pair 0x1F600 = ret (uc, lc) \<and> from_surrogate_pair uc lc = Some 0x1F600"
  using surrogate_pair_roundtrip[of "0x1F600"] by simp

text \<open>C28: \<open>utf8_validate\<close> terminates on every NUL-terminated string without reading past the NUL,
  and accepts exactly the strings made of valid characters.\<close>

theorem utf8_validate_total:
  assumes "0 \<notin> set s"
  shows "utf8_validate (s @ [0]) = ret (utf8_string s)"
proof -
  obtain b where "utf8_validate (s @ [0]) = ret b" using utf8_validate_returns[of "s @ [0]"] by auto
  then show ?thesis
    using utf8_validate_True[OF _ assms] utf8_validate_string[of s "[]"] by (cases b) auto
qed

theorem utf8_validate_total_witness:
  "utf8_validate ([0xE2, 0x82] @ [0]) = ret (utf8_string [0xE2, 0x82])"
  using utf8_validate_total[of "[0xE2, 0x82]"] by simp

end
