(* ===== verification/StringBuffer.thy ===== *)
theory StringBuffer
  imports Prelude
begin

text \<open>
  The growing string buffer \<open>SB\<close> of \<open>src/src/deps/json/json.c\<close> (lines 47 to 110). The three
  pointers of the C struct become the bytes from \<open>start\<close> to \<open>cur\<close> and the distance from
  \<open>start\<close> to \<open>end\<close>; the block has one byte more than that distance. A raw write through
  \<open>cur\<close> is \<open>sb_write\<close>, which fails outside the block. An allocation failure exits the
  process and is not modelled.

  The locale \<open>byte_sink\<close> is the contract the printers have with the buffer: \<open>put\<close> appends.
\<close>

record SB =
  sb_data :: bytes
  sb_cap :: nat

definition sb_init :: SB where
  "sb_init = \<lparr>sb_data = [], sb_cap = 16\<rparr>"

partial_function (option) sb_grow_loop :: "nat \<Rightarrow> nat \<Rightarrow> nat exec" where
  "sb_grow_loop alloc want =
     (let alloc = alloc * 2 in if alloc < want then sb_grow_loop alloc want else ret alloc)"

definition sb_grow :: "SB \<Rightarrow> nat \<Rightarrow> SB exec" where
  "sb_grow sb need =
     xbind (sb_grow_loop (sb_cap sb) (length (sb_data sb) + need)) (\<lambda>alloc.
     ret (sb\<lparr>sb_cap := alloc\<rparr>))"

definition sb_need :: "SB \<Rightarrow> nat \<Rightarrow> SB exec" where
  "sb_need sb need =
     (if int (sb_cap sb) - int (length (sb_data sb)) < int need then sb_grow sb need else ret sb)"

definition sb_write :: "SB \<Rightarrow> bytes \<Rightarrow> SB exec" where
  "sb_write sb bs =
     (if length (sb_data sb) + length bs \<le> sb_cap sb + 1
      then ret (sb\<lparr>sb_data := sb_data sb @ bs\<rparr>) else throw Out_Of_Bounds)"

definition sb_put :: "SB \<Rightarrow> bytes \<Rightarrow> SB exec" where
  "sb_put sb bs = xbind (sb_need sb (length bs)) (\<lambda>sb. sb_write sb bs)"

definition sb_putc :: "SB \<Rightarrow> byte \<Rightarrow> SB exec" where
  "sb_putc sb c =
     xbind (if sb_cap sb \<le> length (sb_data sb) then sb_grow sb 1 else ret sb) (\<lambda>sb.
     sb_write sb [c])"

definition sb_puts :: "SB \<Rightarrow> bytes \<Rightarrow> SB exec" where
  "sb_puts sb s = sb_put sb s"

text \<open>The assertion compares \<open>strlen(start)\<close> with \<open>cur - start\<close>.\<close>

definition sb_finish :: "SB \<Rightarrow> bytes exec" where
  "sb_finish sb =
     xbind (sb_write sb [0]) (\<lambda>_.
     xbind (c_assert (0 \<notin> set (sb_data sb))) (\<lambda>_. ret (sb_data sb)))"

subsection \<open>The contract of a sink\<close>

definition emits :: "('s \<Rightarrow> bool) \<Rightarrow> ('s \<Rightarrow> bytes) \<Rightarrow> ('s \<Rightarrow> 's exec) \<Rightarrow> bytes \<Rightarrow> bool" where
  "emits ok contents f bs \<longleftrightarrow>
     (\<forall>s. ok s \<longrightarrow> (\<exists>s'. f s = ret s' \<and> ok s' \<and> contents s' = contents s @ bs))"

lemma emits_ret: "emits ok contents ret []"
  by (simp add: emits_def)

lemma emits_seq:
  assumes "emits ok contents f xs" and "emits ok contents g ys"
  shows "emits ok contents (\<lambda>s. xbind (f s) g) (xs @ ys)"
  unfolding emits_def
proof (intro allI impI)
  fix s assume "ok s"
  then obtain s1 where s1: "f s = ret s1" "ok s1" "contents s1 = contents s @ xs"
    using assms(1) unfolding emits_def by blast
  then obtain s2 where "g s1 = ret s2" "ok s2" "contents s2 = contents s1 @ ys"
    using assms(2) unfolding emits_def by blast
  then show "\<exists>s'. xbind (f s) g = ret s' \<and> ok s' \<and> contents s' = contents s @ xs @ ys"
    using s1 by simp
qed

lemma emitsD: "emits ok contents f bs \<Longrightarrow> ok s
    \<Longrightarrow> \<exists>s'. f s = ret s' \<and> ok s' \<and> contents s' = contents s @ bs"
  by (simp add: emits_def)

locale byte_sink =
  fixes ok :: "'s \<Rightarrow> bool"
    and contents :: "'s \<Rightarrow> bytes"
    and put :: "'s \<Rightarrow> bytes \<Rightarrow> 's exec"
  assumes put_ok: "ok s \<Longrightarrow> \<exists>s'. put s bs = ret s' \<and> ok s' \<and> contents s' = contents s @ bs"
begin

lemma emits_put: "emits ok contents (\<lambda>s. put s bs) bs"
  using put_ok by (simp add: emits_def)

lemma emits_put_then:
  assumes "emits ok contents f xs"
  shows "emits ok contents (\<lambda>s. xbind (put s bs) f) (bs @ xs)"
  using emits_seq[OF emits_put assms] .

lemma emits_then_put:
  assumes "emits ok contents f xs"
  shows "emits ok contents (\<lambda>s. xbind (f s) (\<lambda>s. put s bs)) (xs @ bs)"
  using emits_seq[OF assms emits_put] .

end

subsection \<open>The buffer is a sink\<close>

definition sb_ok :: "SB \<Rightarrow> bool" where
  "sb_ok sb \<longleftrightarrow> length (sb_data sb) \<le> sb_cap sb \<and> 0 < sb_cap sb"

lemma sb_ok_init [simp]: "sb_ok sb_init" "sb_data sb_init = []"
  by (simp_all add: sb_ok_def sb_init_def)

lemma sb_grow_loop_returns:
  "0 < alloc \<Longrightarrow> \<exists>a. sb_grow_loop alloc want = ret a \<and> want \<le> a \<and> alloc \<le> a"
proof (induction "want - alloc" arbitrary: alloc rule: less_induct)
  case less
  show ?case
  proof (cases "alloc * 2 < want")
    case True
    moreover have "want - alloc * 2 < want - alloc" using True less.prems by linarith
    ultimately obtain a where "sb_grow_loop (alloc * 2) want = ret a" "want \<le> a" "alloc * 2 \<le> a"
      using less.hyps[of "alloc * 2"] less.prems by auto
    then show ?thesis using True by (subst sb_grow_loop.simps) simp
  next
    case False
    then show ?thesis by (subst sb_grow_loop.simps) simp
  qed
qed

lemma sb_need_ok:
  assumes "sb_ok sb"
  shows "\<exists>sb'. sb_need sb n = ret sb' \<and> sb_ok sb' \<and> sb_data sb' = sb_data sb
       \<and> length (sb_data sb) + n \<le> sb_cap sb'"
  using assms sb_grow_loop_returns[of "sb_cap sb" "length (sb_data sb) + n"]
  by (auto simp: sb_need_def sb_grow_def sb_ok_def)

lemma sb_put_ok:
  assumes "sb_ok sb"
  shows "\<exists>sb'. sb_put sb bs = ret sb' \<and> sb_ok sb' \<and> sb_data sb' = sb_data sb @ bs"
  using sb_need_ok[OF assms, of "length bs"] by (auto simp: sb_put_def sb_write_def sb_ok_def)

lemma sb_putc_ok:
  assumes "sb_ok sb"
  shows "\<exists>sb'. sb_putc sb c = ret sb' \<and> sb_ok sb' \<and> sb_data sb' = sb_data sb @ [c]"
  using assms sb_grow_loop_returns[of "sb_cap sb" "length (sb_data sb) + 1"]
  by (auto simp: sb_putc_def sb_grow_def sb_write_def sb_ok_def)

interpretation sb: byte_sink sb_ok sb_data sb_puts
  by unfold_locales (simp add: sb_puts_def sb_put_ok)

lemma emits_putc: "emits sb_ok sb_data (\<lambda>sb. sb_putc sb c) [c]"
  using sb_putc_ok by (simp add: emits_def)

lemma sb_finish_ok: "sb_ok sb \<Longrightarrow> 0 \<notin> set (sb_data sb) \<Longrightarrow> sb_finish sb = ret (sb_data sb)"
  by (simp add: sb_finish_def sb_write_def sb_ok_def)

end
