(* ===== verification/JsonParse.thy ===== *)
theory JsonParse
  imports Utf8 StringBuffer
begin

text \<open>
  The parser of \<open>src/src/deps/json/json.c\<close>: \<open>json_decode\<close>, \<open>json_validate\<close> and everything
  below \<open>parse_value\<close>. A pointer is the list of the bytes from it on with the terminating NUL,
  so every read past the NUL is a fault. A parse function returns \<open>None\<close> for \<open>false\<close> and
  the parsed value with the advanced pointer for \<open>true\<close>. \<open>out\<close> is whether the C function's
  output pointer is non-NULL; without it the returned value is a dummy.

  The value is the tree of a \<open>JsonNode\<close> and its children in list order (the pointer structure
  is the theory JsonNode). A double is a value of \<open>'d\<close> and \<open>strtod\<close> an argument, applied to
  the whole rest of the input as the C code does. The mutual recursion of the parser carries a
  fuel argument; \<open>None\<close> in \<open>exec\<close> is running out of it, and \<open>json_decode\<close> passes enough.
\<close>

datatype 'd json =
    JNull
  | JBool bool
  | JString bytes
  | JNumber 'd
  | JArray "'d json list"
  | JObject "(bytes \<times> 'd json) list"

type_synonym 'a parse = "('a option) exec"

text \<open>Go on after a success, return \<open>false\<close> after a failure.\<close>

definition pbind :: "'a parse \<Rightarrow> ('a \<Rightarrow> 'b parse) \<Rightarrow> 'b parse" where
  "pbind m f = xbind m (\<lambda>r. case r of None \<Rightarrow> ret None | Some x \<Rightarrow> f x)"

lemma pbind_simps [simp]:
  "pbind None f = None" "pbind (throw e) f = throw e" "pbind (ret None) f = ret None"
  "pbind (ret (Some x)) f = f x"
  by (simp_all add: pbind_def)

subsection \<open>Tokens\<close>

definition is_space :: "byte \<Rightarrow> bool" where
  "is_space c \<longleftrightarrow> c = 0x09 \<or> c = 0x0A \<or> c = 0x0D \<or> c = 0x20"

fun skip_space :: "bytes \<Rightarrow> bytes exec" where
  "skip_space [] = throw Out_Of_Bounds"
| "skip_space (c # s) = (if is_space c then skip_space s else ret (c # s))"

fun skip_digits :: "bytes \<Rightarrow> bytes exec" where
  "skip_digits [] = throw Out_Of_Bounds"
| "skip_digits (c # s) = (if is_digit c then skip_digits s else ret (c # s))"

fun expect_literal :: "bytes \<Rightarrow> bytes \<Rightarrow> bytes parse" where
  "expect_literal s [] = ret (Some s)"
| "expect_literal s (l # ls) =
     xbind (peek s) (\<lambda>c. if c \<noteq> l then ret None else expect_literal (tl s) ls)"

fun parse_hex16_loop :: "nat \<Rightarrow> bytes \<Rightarrow> 16 word \<Rightarrow> (16 word \<times> bytes) parse" where
  "parse_hex16_loop 0 s val = ret (Some (val, s))"
| "parse_hex16_loop (Suc i) s val =
     xbind (peek s) (\<lambda>c.
     let next = (\<lambda>tmp. parse_hex16_loop i (tl s) (push_bit 4 val + tmp))
     in if 0x30 \<le> c \<and> c \<le> 0x39 then next (ucast c - 0x30)
        else if 0x41 \<le> c \<and> c \<le> 0x46 then next (ucast c - 0x41 + 10)
        else if 0x61 \<le> c \<and> c \<le> 0x66 then next (ucast c - 0x61 + 10)
        else ret None)"

definition parse_hex16 :: "bytes \<Rightarrow> (16 word \<times> bytes) parse" where
  "parse_hex16 s = parse_hex16_loop 4 s 0"

text \<open>\<open>[0-9]+\<close>, the \<open>do ... while\<close> loops of \<open>parse_number\<close>.\<close>

definition digits1 :: "bytes \<Rightarrow> bytes parse" where
  "digits1 s =
     xbind (peek s) (\<lambda>c.
     if \<not> is_digit c then ret None else xbind (skip_digits (tl s)) (\<lambda>s. ret (Some s)))"

text \<open>The three parts of a number: \<open>'-'? (0 | [1-9][0-9]*)\<close>, \<open>('.' [0-9]+)?\<close> and
  \<open>([Ee] [+-]? [0-9]+)?\<close>.\<close>

definition number_int :: "bytes \<Rightarrow> bytes parse" where
  "number_int s =
     xbind (peek s) (\<lambda>c.
     let s = (if c = 0x2D then tl s else s)
     in xbind (peek s) (\<lambda>c. if c = 0x30 then ret (Some (tl s)) else digits1 s))"

definition number_frac :: "bytes \<Rightarrow> bytes parse" where
  "number_frac s = xbind (peek s) (\<lambda>c. if c = 0x2E then digits1 (tl s) else ret (Some s))"

definition number_exp :: "bytes \<Rightarrow> bytes parse" where
  "number_exp s =
     xbind (peek s) (\<lambda>c.
     if c = 0x45 \<or> c = 0x65 then
       xbind (peek (tl s)) (\<lambda>c. digits1 (if c = 0x2B \<or> c = 0x2D then tl (tl s) else tl s))
     else ret (Some s))"

definition parse_number :: "(bytes \<Rightarrow> 'd) \<Rightarrow> bytes \<Rightarrow> ('d \<times> bytes) parse" where
  "parse_number strtod sp =
     pbind (number_int sp) (\<lambda>s.
     pbind (number_frac s) (\<lambda>s.
     pbind (number_exp s) (\<lambda>s. ret (Some (strtod sp, s)))))"

definition number_is_valid :: "bytes \<Rightarrow> bool exec" where
  "number_is_valid num =
     xbind (parse_number (\<lambda>_. ()) num) (\<lambda>r.
     case r of None \<Rightarrow> ret False | Some (_, s) \<Rightarrow> xbind (peek s) (\<lambda>c. ret (c = 0)))"

subsection \<open>Strings\<close>

text \<open>
  The body of the loop in \<open>parse_string\<close>: the bytes written to \<open>b\<close> and the advanced pointer.
\<close>

definition parse_string_char :: "bytes \<Rightarrow> (bytes \<times> bytes) parse" where
  "parse_string_char s =
     xbind (peek s) (\<lambda>c.
     let s1 = tl s
     in if c = 0x5C then
          xbind (peek s1) (\<lambda>c.
          let s = tl s1
          in if c = 0x22 \<or> c = 0x5C \<or> c = 0x2F then ret (Some ([c], s))
             else if c = 0x62 then ret (Some ([0x08], s))
             else if c = 0x66 then ret (Some ([0x0C], s))
             else if c = 0x6E then ret (Some ([0x0A], s))
             else if c = 0x72 then ret (Some ([0x0D], s))
             else if c = 0x74 then ret (Some ([0x09], s))
             else if c = 0x75 then
               xbind (parse_hex16 s) (\<lambda>r.
               case r of None \<Rightarrow> ret None | Some (uc, s) \<Rightarrow>
               if 0xD800 \<le> uc \<and> uc \<le> 0xDFFF then
                 xbind (peek s) (\<lambda>c. if c \<noteq> 0x5C then ret None else
                 xbind (peek (tl s)) (\<lambda>c. if c \<noteq> 0x75 then ret None else
                 xbind (parse_hex16 (tl (tl s))) (\<lambda>r.
                 case r of None \<Rightarrow> ret None | Some (lc, s) \<Rightarrow>
                 (case from_surrogate_pair uc lc of
                    None \<Rightarrow> ret None
                  | Some unicode \<Rightarrow> xbind (utf8_write_char unicode) (\<lambda>bs. ret (Some (bs, s)))))))
               else if uc = 0 then ret None
               else xbind (utf8_write_char (ucast uc)) (\<lambda>bs. ret (Some (bs, s))))
             else ret None)
        else if c \<le> 0x1F then ret None
        else
          xbind (utf8_validate_cz s) (\<lambda>len.
          if len = 0 then ret None else ret (Some (take len s, drop len s))))"

text \<open>
  \<open>b\<close> points into the buffer, or into the 4 bytes of \<open>throwaway_buffer\<close>.
\<close>

definition string_write :: "bool \<Rightarrow> SB \<Rightarrow> bytes \<Rightarrow> SB exec" where
  "string_write out sb bs =
     (if out then xbind (sb_write sb bs) (\<lambda>sb. sb_need sb 4)
      else if length bs \<le> 4 then ret sb else throw Out_Of_Bounds)"

partial_function (option) parse_string_loop :: "bool \<Rightarrow> SB \<Rightarrow> bytes \<Rightarrow> (bytes \<times> bytes) parse" where
  "parse_string_loop out sb s =
     xbind (peek s) (\<lambda>c.
     if c = 0x22 then
       xbind (if out then sb_finish sb else ret []) (\<lambda>str. ret (Some (str, tl s)))
     else
       xbind (parse_string_char s) (\<lambda>r.
       case r of
         None \<Rightarrow> ret None
       | Some (bs, s) \<Rightarrow> xbind (string_write out sb bs) (\<lambda>sb. parse_string_loop out sb s)))"

definition parse_string :: "bool \<Rightarrow> bytes \<Rightarrow> (bytes \<times> bytes) parse" where
  "parse_string out s =
     xbind (peek s) (\<lambda>c.
     if c \<noteq> 0x22 then ret None
     else xbind (if out then sb_need sb_init 4 else ret sb_init) (\<lambda>sb.
       parse_string_loop out sb (tl s)))"

subsection \<open>Values\<close>

fun parse_value :: "(bytes \<Rightarrow> 'd) \<Rightarrow> bool \<Rightarrow> nat \<Rightarrow> bytes \<Rightarrow> ('d json \<times> bytes) parse"
  and parse_array_loop :: "(bytes \<Rightarrow> 'd) \<Rightarrow> bool \<Rightarrow> nat \<Rightarrow> bytes \<Rightarrow> 'd json list \<Rightarrow> ('d json \<times> bytes) parse"
  and parse_object_loop ::
    "(bytes \<Rightarrow> 'd) \<Rightarrow> bool \<Rightarrow> nat \<Rightarrow> bytes \<Rightarrow> (bytes \<times> 'd json) list \<Rightarrow> ('d json \<times> bytes) parse" where
  "parse_value strtod out 0 s = None"
| "parse_value strtod out (Suc fuel) s =
     xbind (peek s) (\<lambda>c.
     let literal = (\<lambda>l v. xbind (expect_literal s l) (\<lambda>r. ret (map_option (\<lambda>s. (v, s)) r)))
     in if c = 0x6E then literal [0x6E, 0x75, 0x6C, 0x6C] JNull
        else if c = 0x66 then literal [0x66, 0x61, 0x6C, 0x73, 0x65] (JBool False)
        else if c = 0x74 then literal [0x74, 0x72, 0x75, 0x65] (JBool True)
        else if c = 0x22 then
          xbind (parse_string out s) (\<lambda>r. ret (map_option (\<lambda>(str, s). (JString str, s)) r))
        else if c = 0x5B then
          xbind (skip_space (tl s)) (\<lambda>s.
          xbind (peek s) (\<lambda>c.
          if c = 0x5D then ret (Some (JArray [], tl s)) else parse_array_loop strtod out fuel s []))
        else if c = 0x7B then
          xbind (skip_space (tl s)) (\<lambda>s.
          xbind (peek s) (\<lambda>c.
          if c = 0x7D then ret (Some (JObject [], tl s)) else parse_object_loop strtod out fuel s []))
        else
          xbind (parse_number strtod s) (\<lambda>r. ret (map_option (\<lambda>(num, s). (JNumber num, s)) r)))"
| "parse_array_loop strtod out 0 s elems = None"
| "parse_array_loop strtod out (Suc fuel) s elems =
     xbind (parse_value strtod out fuel s) (\<lambda>r.
     case r of
       None \<Rightarrow> ret None
     | Some (element, s) \<Rightarrow>
         xbind (skip_space s) (\<lambda>s.
         let elems = (if out then elems @ [element] else elems)
         in xbind (peek s) (\<lambda>c.
            if c = 0x5D then ret (Some (JArray elems, tl s))
            else if c \<noteq> 0x2C then ret None
            else xbind (skip_space (tl s)) (\<lambda>s. parse_array_loop strtod out fuel s elems))))"
| "parse_object_loop strtod out 0 s members = None"
| "parse_object_loop strtod out (Suc fuel) s members =
     xbind (parse_string out s) (\<lambda>r.
     case r of
       None \<Rightarrow> ret None
     | Some (key, s) \<Rightarrow>
         xbind (skip_space s) (\<lambda>s.
         xbind (peek s) (\<lambda>c.
         if c \<noteq> 0x3A then ret None
         else
           xbind (skip_space (tl s)) (\<lambda>s.
           xbind (parse_value strtod out fuel s) (\<lambda>r.
           case r of
             None \<Rightarrow> ret None
           | Some (value, s) \<Rightarrow>
               xbind (skip_space s) (\<lambda>s.
               let members = (if out then members @ [(key, value)] else members)
               in xbind (peek s) (\<lambda>c.
                  if c = 0x7D then ret (Some (JObject members, tl s))
                  else if c \<noteq> 0x2C then ret None
                  else xbind (skip_space (tl s)) (\<lambda>s. parse_object_loop strtod out fuel s members))))))))"

text \<open>The fuel covers the nesting and the number of elements of any input of this length.\<close>

definition json_fuel :: "bytes \<Rightarrow> nat" where
  "json_fuel s = 2 * length s + 2"

definition json_decode :: "(bytes \<Rightarrow> 'd) \<Rightarrow> bytes \<Rightarrow> ('d json option) exec" where
  "json_decode strtod json =
     xbind (skip_space json) (\<lambda>s.
     xbind (parse_value strtod True (json_fuel s) s) (\<lambda>r.
     case r of
       None \<Rightarrow> ret None
     | Some (j, s) \<Rightarrow>
         xbind (skip_space s) (\<lambda>s.
         xbind (peek s) (\<lambda>c. ret (if c \<noteq> 0 then None else Some j)))))"

definition json_validate :: "bytes \<Rightarrow> bool exec" where
  "json_validate json =
     xbind (skip_space json) (\<lambda>s.
     xbind (parse_value (\<lambda>_. ()) False (json_fuel s) s) (\<lambda>r.
     case r of
       None \<Rightarrow> ret False
     | Some (_, s) \<Rightarrow>
         xbind (skip_space s) (\<lambda>s.
         xbind (peek s) (\<lambda>c. ret (c = 0)))))"

end
