(* ===== verification/JsonSafe.thy ===== *)
theory JsonSafe
  imports JsonParse
begin

text \<open>
  Memory safety and termination of the JSON parser: on a NUL-terminated string every parse
  function returns, never reads past the NUL, never writes outside the string buffer and never
  fails an assertion, and the fuel of \<open>json_decode\<close> is enough.
\<close>

subsection \<open>Pointers into a NUL-terminated string\<close>

definition cptr :: "bytes \<Rightarrow> bool" where
  "cptr s \<longleftrightarrow> s \<noteq> [] \<and> last s = 0 \<and> 0 \<notin> set (butlast s)"

lemma cptr_simps [simp]:
  "\<not> cptr []" "cptr (c # s) \<longleftrightarrow> (if s = [] then c = 0 else c \<noteq> 0 \<and> cptr s)"
  by (auto simp: cptr_def)

lemma cptr_snoc: "0 \<notin> set s \<Longrightarrow> cptr (s @ [0])"
  by (simp add: cptr_def)

lemma cptr_cases:
  assumes "cptr s"
  obtains (NUL) "s = [0]" | (char) c s' where "s = c # s'" "c \<noteq> 0" "cptr s'"
  using assms by (cases s) (auto split: if_splits)

lemma cptr_NUL: "cptr s \<Longrightarrow> 0 \<in> set s"
  by (metis cptr_def last_in_set)

lemma cptr_append:
  assumes "0 \<notin> set xs" "cptr (xs @ s)"
  shows "cptr s"
  using assms by (induction xs) (auto split: if_splits)

text \<open>A parse function that returns, and advances when it succeeds.\<close>

definition moves :: "bytes \<Rightarrow> ('a \<times> bytes) parse \<Rightarrow> bool" where
  "moves s m \<longleftrightarrow> (\<exists>r. m = ret r \<and> (\<forall>x s'. r = Some (x, s') \<longrightarrow> cptr s' \<and> length s' < length s))"

lemma moves_None [simp]: "moves s (ret None)"
  by (simp add: moves_def)

lemma moves_Some [simp]: "moves s (ret (Some (x, s'))) \<longleftrightarrow> cptr s' \<and> length s' < length s"
  by (simp add: moves_def)

lemma movesE:
  assumes "moves s m"
  obtains (None) "m = ret None" | (Some) x s' where "m = ret (Some (x, s'))" "cptr s'" "length s' < length s"
  using assms unfolding moves_def by (metis option.exhaust prod.exhaust)

lemma moves_mono: "moves s m \<Longrightarrow> length s \<le> length t \<Longrightarrow> moves t m"
  by (auto simp: moves_def)

subsection \<open>Tokens\<close>

lemma skip_space_cptr: "cptr s \<Longrightarrow> \<exists>s'. skip_space s = ret s' \<and> cptr s' \<and> length s' \<le> length s"
  by (induction s) (auto simp: is_space_def split: if_splits)

lemma skip_digits_cptr: "cptr s \<Longrightarrow> \<exists>s'. skip_digits s = ret s' \<and> cptr s' \<and> length s' \<le> length s"
  by (induction s) (auto simp: is_digit_def split: if_splits)

lemma expect_literal_cptr:
  "cptr s \<Longrightarrow> 0 \<notin> set ls \<Longrightarrow> \<exists>r. expect_literal s ls = ret r
    \<and> (\<forall>s'. r = Some s' \<longrightarrow> cptr s' \<and> length s' + length ls = length s)"
proof (induction ls arbitrary: s)
  case (Cons l ls)
  from Cons.prems(1) show ?case
    by (cases rule: cptr_cases) (use Cons in auto)
qed simp

lemma parse_hex16_loop_cptr:
  "cptr s \<Longrightarrow> \<exists>r. parse_hex16_loop i s v = ret r \<and> (\<forall>x s'. r = Some (x, s') \<longrightarrow> cptr s' \<and> length s' + i = length s)"
proof (induction i arbitrary: s v)
  case (Suc i)
  from Suc.prems show ?case
  proof (cases rule: cptr_cases)
    case (char c s')
    then show ?thesis using Suc.IH[OF char(3)] by (auto simp: Let_def)
  qed (simp add: Let_def)
qed simp

lemma parse_hex16_moves: "cptr s \<Longrightarrow> moves s (parse_hex16 s)"
  using parse_hex16_loop_cptr[of s 4 0] by (auto simp: parse_hex16_def moves_def)

lemma digits1_cptr:
  assumes "cptr s"
  shows "\<exists>r. digits1 s = ret r \<and> (\<forall>s'. r = Some s' \<longrightarrow> cptr s' \<and> length s' < length s)"
  using assms
proof (cases rule: cptr_cases)
  case (char c s')
  then show ?thesis using skip_digits_cptr[OF char(3)] by (auto simp: digits1_def)
qed (simp add: digits1_def is_digit_def)

lemma digits1E:
  assumes "cptr s"
  obtains (None) "digits1 s = ret None" | (Some) s' where "digits1 s = ret (Some s')" "cptr s'" "length s' < length s"
  using digits1_cptr[OF assms] by (metis option.exhaust)

lemma cptr_tl: "cptr s \<Longrightarrow> hd s \<noteq> 0 \<Longrightarrow> cptr (tl s) \<and> length (tl s) < length s"
  by (cases s) (auto split: if_splits)

lemma cptr_peek: "cptr s \<Longrightarrow> peek s = ret (hd s)"
  by (cases s) auto

lemma number_int_cptr:
  assumes "cptr s"
  shows "\<exists>r. number_int s = ret r \<and> (\<forall>s'. r = Some s' \<longrightarrow> cptr s' \<and> length s' < length s)"
proof -
  define a where "a = (if hd s = 0x2D then tl s else s)"
  have a: "cptr a" "length a \<le> length s" using assms cptr_tl[OF assms] by (auto simp: a_def)
  have "number_int s = (if hd a = 0x30 then ret (Some (tl a)) else digits1 a)"
    using cptr_peek[OF assms] cptr_peek[OF a(1)] by (simp add: number_int_def a_def Let_def)
  then show ?thesis
    using digits1_cptr[OF a(1)] cptr_tl[OF a(1)] a(2) by fastforce
qed

lemma number_frac_cptr:
  assumes "cptr s"
  shows "\<exists>r. number_frac s = ret r \<and> (\<forall>s'. r = Some s' \<longrightarrow> cptr s' \<and> length s' \<le> length s)"
  using assms digits1_cptr[of "tl s"] cptr_tl[OF assms] cptr_peek[OF assms]
  by (fastforce simp: number_frac_def)

lemma number_exp_cptr:
  assumes "cptr s"
  shows "\<exists>r. number_exp s = ret r \<and> (\<forall>s'. r = Some s' \<longrightarrow> cptr s' \<and> length s' \<le> length s)"
proof (cases "hd s = 0x45 \<or> hd s = 0x65")
  case True
  then have t: "cptr (tl s)" "length (tl s) < length s" using cptr_tl[OF assms] by auto
  define e where "e = (if hd (tl s) = 0x2B \<or> hd (tl s) = 0x2D then tl (tl s) else tl s)"
  have e: "cptr e" "length e \<le> length (tl s)" using t cptr_tl[OF t(1)] by (auto simp: e_def)
  have "number_exp s = digits1 e"
    using True cptr_peek[OF assms] cptr_peek[OF t(1)] by (simp add: number_exp_def e_def)
  then show ?thesis using digits1_cptr[OF e(1)] e(2) t(2) by fastforce
qed (use assms cptr_peek[OF assms] in \<open>simp add: number_exp_def\<close>)

lemma parse_number_moves:
  assumes "cptr s"
  shows "moves s (parse_number strtod s)"
proof -
  obtain r1 where r1: "number_int s = ret r1" "\<forall>s'. r1 = Some s' \<longrightarrow> cptr s' \<and> length s' < length s"
    using number_int_cptr[OF assms] by blast
  show ?thesis
  proof (cases r1)
    case (Some a)
    then obtain r2 where r2: "number_frac a = ret r2" "\<forall>s'. r2 = Some s' \<longrightarrow> cptr s' \<and> length s' \<le> length a"
      using number_frac_cptr r1 by blast
    show ?thesis
    proof (cases r2)
      case (Some b)
      then obtain r3 where "number_exp b = ret r3" "\<forall>s'. r3 = Some s' \<longrightarrow> cptr s' \<and> length s' \<le> length b"
        using number_exp_cptr r2 by blast
      then show ?thesis
        using r1 r2 Some \<open>r1 = Some a\<close> by (cases r3) (auto simp: parse_number_def)
    qed (use r1 r2 Some in \<open>simp add: parse_number_def\<close>)
  qed (use r1 in \<open>simp add: parse_number_def\<close>)
qed

subsection \<open>Strings\<close>

lemma ucast16_range:
  assumes "\<not> (0xD800 \<le> uc \<and> uc \<le> (0xDFFF :: 16 word))" "uc \<noteq> 0"
  shows "(ucast uc :: uchar_t) \<le> 0x10FFFF" "\<not> ((ucast uc :: uchar_t) \<ge> 0xD800 \<and> (ucast uc :: uchar_t) \<le> 0xDFFF)"
    "(ucast uc :: uchar_t) \<noteq> 0"
proof -
  have u: "unat (ucast uc :: uchar_t) = unat uc" by (rule unat_ucast16_up)
  have "unat uc < 2 ^ LENGTH(16)" by (rule unsigned_less)
  then show "(ucast uc :: uchar_t) \<le> 0x10FFFF" using u by (simp add: word_le_nat_alt)
  show "\<not> ((ucast uc :: uchar_t) \<ge> 0xD800 \<and> (ucast uc :: uchar_t) \<le> 0xDFFF)"
    using assms(1) u by (simp add: word_le_nat_alt)
  show "(ucast uc :: uchar_t) \<noteq> 0" using assms(2) u by (metis unat_eq_0 unat_0)
qed

text \<open>One step of the loop: it returns, advances, and writes at most four bytes, none a NUL.\<close>

definition char_ok :: "bytes \<Rightarrow> (bytes \<times> bytes) parse \<Rightarrow> bool" where
  "char_ok s m \<longleftrightarrow> (\<exists>r. m = ret r \<and> (\<forall>bs s'. r = Some (bs, s') \<longrightarrow>
     cptr s' \<and> length s' < length s \<and> length bs \<le> 4 \<and> 0 \<notin> set bs))"

lemma char_ok_simps [simp]:
  "char_ok s (ret None)"
  "char_ok s (ret (Some (bs, s'))) \<longleftrightarrow> cptr s' \<and> length s' < length s \<and> length bs \<le> 4 \<and> 0 \<notin> set bs"
  by (auto simp: char_ok_def)

lemma char_ok_write:
  assumes "cptr s'" "length s' < length s"
    and "u \<le> 0x10FFFF" "\<not> (u \<ge> 0xD800 \<and> u \<le> 0xDFFF)" "u \<noteq> 0"
  shows "char_ok s (xbind (utf8_write_char u) (\<lambda>bs. ret (Some (bs, s'))))"
  using utf8_write_char_bytes[OF assms(3-5)] assms(1,2) by auto

lemma hex_escape_ok:
  assumes "cptr s1" "length s1 < length s"
  shows "char_ok s (xbind (parse_hex16 s1) (\<lambda>r.
               case r of None \<Rightarrow> ret None | Some (uc, s) \<Rightarrow>
               if 0xD800 \<le> uc \<and> uc \<le> 0xDFFF then
                 xbind (peek s) (\<lambda>c. if c \<noteq> 0x5C then ret None else
                 xbind (peek (tl s)) (\<lambda>c. if c \<noteq> 0x75 then ret None else
                 xbind (parse_hex16 (tl (tl s))) (\<lambda>r.
                 case r of None \<Rightarrow> ret None | Some (lc, s) \<Rightarrow>
                 (case from_surrogate_pair uc lc of
                    None \<Rightarrow> ret None
                  | Some unicode \<Rightarrow> xbind (utf8_write_char unicode) (\<lambda>bs. ret (Some (bs, s)))))))
               else if uc = 0 then ret None
               else xbind (utf8_write_char (ucast uc)) (\<lambda>bs. ret (Some (bs, s)))))"
proof (cases rule: movesE[OF parse_hex16_moves[OF assms(1)], case_names None Some])
  case (Some uc s2)
  show ?thesis
  proof (cases "0xD800 \<le> uc \<and> uc \<le> 0xDFFF")
    case False
    then show ?thesis
      using Some assms(2) char_ok_write[of s2 s "ucast uc", OF Some(2) _ ucast16_range[OF False]]
      by (cases "uc = 0") (simp_all only: if_False option.case prod.case xbind_simps simp_thms, simp_all)
  next
    case True
    show ?thesis
    proof (cases "hd s2 = 0x5C \<and> hd (tl s2) = 0x75")
      case esc: True
      then have t1: "cptr (tl s2)" "length (tl s2) < length s2" using cptr_tl[OF Some(2)] by auto
      then have t2: "cptr (tl (tl s2))" "length (tl (tl s2)) < length (tl s2)"
        using cptr_tl[OF t1(1)] esc by auto
      have pk: "peek s2 = ret 0x5C" "peek (tl s2) = ret 0x75"
        using cptr_peek[OF Some(2)] cptr_peek[OF t1(1)] esc by simp_all
      show ?thesis
      proof (cases rule: movesE[OF parse_hex16_moves[OF t2(1)], case_names None Some])
        case None
        then show ?thesis using \<open>parse_hex16 s1 = _\<close> True pk by simp
      next
        case S3: (Some lc s3)
        have "length s3 < length s" using S3(3) t1(2) t2(2) Some(3) assms(2) by linarith
        then show ?thesis
          using S3 Some(1) True pk char_ok_write[OF S3(2) _ from_surrogate_pair_range]
          by (auto split: option.splits)
      qed
    next
      case False
      have "cptr (tl s2)" if "hd s2 = 0x5C" using that cptr_tl[OF Some(2)] by auto
      then show ?thesis
        using False Some True cptr_peek[OF Some(2)] cptr_peek[of "tl s2"] by auto
    qed
  qed
qed (simp)

lemma parse_string_char_ok:
  assumes "cptr s"
  shows "char_ok s (parse_string_char s)"
  using assms
proof (cases rule: cptr_cases)
  case NUL
  then show ?thesis by (simp add: parse_string_char_def Let_def)
next
  case (char c s1)
  consider (esc) "c = 0x5C" | (ctl) "c \<noteq> 0x5C" "c \<le> 0x1F" | (raw) "c \<noteq> 0x5C" "\<not> c \<le> 0x1F" by blast
  then show ?thesis
  proof cases
    case esc
    from char(3) show ?thesis
    proof (cases rule: cptr_cases)
      case NUL
      then show ?thesis using char esc by (simp add: parse_string_char_def Let_def)
    next
      case (char d s2)
      have "length s2 < length s" using char \<open>s = c # s1\<close> by simp
      then show ?thesis
        using char \<open>s = c # s1\<close> esc hex_escape_ok[OF char(3), of s]
        by (auto simp: parse_string_char_def Let_def)
    qed
  next
    case ctl
    then show ?thesis using char by (simp add: parse_string_char_def Let_def)
  next
    case raw
    obtain n where n: "utf8_validate_cz s = ret n"
      using utf8_validate_cz_returns[OF cptr_NUL[OF assms]] by blast
    show ?thesis
    proof (cases "n = 0")
      case True
      then show ?thesis using n raw char by (simp add: parse_string_char_def Let_def)
    next
      case False
      have t: "n \<le> length s" "0 \<notin> set (take n s)"
        using utf8_validate_cz_take(1,3)[OF n False] char by simp_all
      have "cptr (drop n s)" using cptr_append[OF t(2)] assms by simp
      moreover have "n \<le> 4" using n False by (rule utf8_validate_cz_cases) auto
      ultimately show ?thesis
        using n False raw char t by (simp add: parse_string_char_def Let_def)
    qed
  qed
qed

definition room :: "bool \<Rightarrow> SB \<Rightarrow> bool" where
  "room out sb \<longleftrightarrow> sb_ok sb \<and> 0 \<notin> set (sb_data sb) \<and> (out \<longrightarrow> length (sb_data sb) + 4 \<le> sb_cap sb)"

lemma string_write_ok:
  assumes "room out sb" "length bs \<le> 4" "0 \<notin> set bs"
  shows "\<exists>sb'. string_write out sb bs = ret sb' \<and> room out sb'
       \<and> sb_data sb' = (if out then sb_data sb @ bs else sb_data sb)"
proof (cases out)
  case True
  let ?sb = "sb\<lparr>sb_data := sb_data sb @ bs\<rparr>"
  have "sb_ok ?sb" "sb_write sb bs = ret ?sb"
    using assms True by (auto simp: room_def sb_ok_def sb_write_def)
  then show ?thesis
    using sb_need_ok[of ?sb 4] assms True by (auto simp: string_write_def room_def)
qed (use assms in \<open>simp add: string_write_def room_def\<close>)

lemma parse_string_loop_moves:
  "cptr s \<Longrightarrow> room out sb \<Longrightarrow> moves s (parse_string_loop out sb s)"
proof (induction "length s" arbitrary: s sb rule: less_induct)
  case less
  obtain c s1 where s: "s = c # s1" using less.prems(1) by (cases s) auto
  show ?case
  proof (cases "c = 0x22")
    case True
    then show ?thesis
      using s less.prems sb_finish_ok[of sb] by (subst parse_string_loop.simps) (auto simp: room_def split: if_splits)
  next
    case False
    obtain r where r: "parse_string_char s = ret r"
        "\<forall>bs s'. r = Some (bs, s') \<longrightarrow> cptr s' \<and> length s' < length s \<and> length bs \<le> 4 \<and> 0 \<notin> set bs"
      using parse_string_char_ok[OF less.prems(1)] by (auto simp: char_ok_def)
    show ?thesis
    proof (cases r)
      case None
      then show ?thesis using s False r by (subst parse_string_loop.simps) simp
    next
      case (Some p)
      obtain bs s' where p: "p = (bs, s')" by fastforce
      have b: "cptr s'" "length s' < length s" "length bs \<le> 4" "0 \<notin> set bs" using r Some p by auto
      obtain sb' where "string_write out sb bs = ret sb'" "room out sb'"
        using string_write_ok[OF less.prems(2) b(3,4)] by blast
      then have eq: "parse_string_loop out sb s = parse_string_loop out sb' s'"
        using s False r(1) Some p by (subst parse_string_loop.simps) simp
      have rm: "room out sb'" by fact
      show ?thesis
        unfolding eq using less.hyps[OF b(2,1) rm] b(2) by (intro moves_mono[of s' _ s]) simp_all
    qed
  qed
qed

lemma room_init: "\<exists>sb. (if out then sb_need sb_init 4 else ret sb_init) = ret sb \<and> room out sb \<and> sb_data sb = []"
  using sb_need_ok[of sb_init 4] by (auto simp: room_def)

lemma parse_string_moves:
  assumes "cptr s"
  shows "moves s (parse_string out s)"
proof (cases "hd s = 0x22")
  case True
  then have t: "cptr (tl s)" "length (tl s) < length s" using cptr_tl[OF assms] by auto
  obtain sb where "(if out then sb_need sb_init 4 else ret sb_init) = ret sb" "room out sb"
    using room_init by blast
  then have "parse_string out s = parse_string_loop out sb (tl s)"
    using True cptr_peek[OF assms] by (simp add: parse_string_def)
  then show ?thesis
    using parse_string_loop_moves[OF t(1) \<open>room out sb\<close>] t(2) moves_mono by (metis less_imp_le_nat)
qed (use cptr_peek[OF assms] in \<open>simp add: parse_string_def\<close>)

subsection \<open>Values\<close>

lemma skip_spaceE:
  assumes "cptr s"
  obtains s' where "skip_space s = ret s'" "cptr s'" "length s' \<le> length s"
  using skip_space_cptr[OF assms] by blast

lemma moves_map:
  assumes "moves s m"
  shows "moves s (xbind m (\<lambda>r. ret (map_option (\<lambda>(x, s). (f x, s)) r)))"
  using assms by (rule movesE) auto

lemma moves_literal:
  assumes "cptr s" "0 \<notin> set ls" "ls \<noteq> []"
  shows "moves s (xbind (expect_literal s ls) (\<lambda>r. ret (map_option (\<lambda>s. (v, s)) r)))"
  using expect_literal_cptr[OF assms(1,2)] assms(3) by (cases ls) (auto simp: moves_def)

lemma values_move:
  "cptr s \<Longrightarrow> 2 * length s < fuel \<Longrightarrow> moves s (parse_value st out fuel s)"
  "cptr s \<Longrightarrow> 2 * length s + 1 < fuel \<Longrightarrow> moves s (parse_array_loop st out fuel s elems)"
  "cptr s \<Longrightarrow> 2 * length s + 1 < fuel \<Longrightarrow> moves s (parse_object_loop st out fuel s members)"
proof (induction fuel arbitrary: s elems members)
  case 0
  { case 1 then show ?case by simp next case 2 then show ?case by simp next case 3 then show ?case by simp }
next
  case (Suc fuel)
  note IH = Suc.IH
  {
    case 1
    let ?c = "hd s"
    have pk: "peek s = ret ?c" using cptr_peek[OF 1(1)] .
    have open': "moves s (xbind (skip_space (tl s)) (\<lambda>s.
          xbind (peek s) (\<lambda>c. if c = close then ret (Some (v, tl s)) else L s)))"
      if "?c \<noteq> 0" "close \<noteq> 0" "\<And>s'. cptr s' \<Longrightarrow> length s' < length s \<Longrightarrow> moves s' (L s')" for close v L
    proof -
      have t: "cptr (tl s)" "length (tl s) < length s" using cptr_tl[OF 1(1) that(1)] by auto
      obtain s1 where s1: "skip_space (tl s) = ret s1" "cptr s1" "length s1 \<le> length (tl s)"
        using skip_spaceE[OF t(1)] .
      show ?thesis
      proof (cases "hd s1 = close")
        case True
        then show ?thesis using s1 cptr_peek[OF s1(2)] cptr_tl[OF s1(2)] that(2) t(2) by simp
      next
        case False
        then show ?thesis
          using s1 cptr_peek[OF s1(2)] that(3)[of s1] t(2) moves_mono[of s1 "L s1" s] by simp
      qed
    qed
    have arr: "moves s' (parse_array_loop st out fuel s' [])" "moves s' (parse_object_loop st out fuel s' [])"
      if "cptr s'" "length s' < length s" for s'
      using IH(2,3)[OF that(1)] that(2) 1(2) by simp_all
    consider "?c = 0x6E" | "?c = 0x66" | "?c = 0x74" | "?c = 0x22" | "?c = 0x5B" | "?c = 0x7B"
      | "?c \<notin> {0x6E, 0x66, 0x74, 0x22, 0x5B, 0x7B}" by blast
    then show ?case
    proof cases
      case 4
      then show ?thesis
        using pk moves_map[OF parse_string_moves[OF 1(1), of out], of JString] by (simp add: Let_def)
    next
      case 5
      then show ?thesis using pk open'[OF _ _ arr(1), of "0x5D" "JArray []"] by (simp add: Let_def)
    next
      case 6
      then show ?thesis using pk open'[OF _ _ arr(2), of "0x7D" "JObject []"] by (simp add: Let_def)
    next
      case 7
      then show ?thesis
        using pk moves_map[OF parse_number_moves[OF 1(1), of st], of JNumber] by (simp add: Let_def)
    qed (simp_all add: pk Let_def moves_literal[OF 1(1)] del: expect_literal.simps)
  next
    case 2
    have "moves s (parse_value st out fuel s)" using IH(1)[OF 2(1)] 2(2) by simp
    then show ?case
    proof (cases rule: movesE)
      case None
      then show ?thesis by simp
    next
      case (Some e s1)
      obtain s2 where s2: "skip_space s1 = ret s2" "cptr s2" "length s2 \<le> length s1"
        using skip_spaceE[OF Some(2)] .
      have l2: "length s2 < length s" using s2(3) Some(3) by simp
      show ?thesis
      proof (cases "hd s2 \<in> {0x5D, 0x2C}")
        case False
        then show ?thesis using Some s2 cptr_peek[OF s2(2)] by (simp add: Let_def)
      next
        case True
        then have t: "cptr (tl s2)" "length (tl s2) < length s2" using cptr_tl[OF s2(2)] by auto
        obtain s3 where s3: "skip_space (tl s2) = ret s3" "cptr s3" "length s3 \<le> length (tl s2)"
          using skip_spaceE[OF t(1)] .
        have l3: "length s3 < length s" using s3(3) t(2) l2 by simp
        have "moves s (parse_array_loop st out fuel s3 es)" for es
          by (rule moves_mono[OF IH(2)[OF s3(2)]]) (use 2(2) l3 in simp_all)
        then show ?thesis
          using Some s2 cptr_peek[OF s2(2)] True s3 t l2 by (auto simp: Let_def)
      qed
    qed
  next
    case 3
    show ?case
    proof (cases rule: movesE[OF parse_string_moves[OF 3(1), of out], case_names None Some])
      case None
      then show ?thesis by simp
    next
      case (Some k s1)
      obtain s2 where s2: "skip_space s1 = ret s2" "cptr s2" "length s2 \<le> length s1"
        using skip_spaceE[OF Some(2)] .
      have l2: "length s2 < length s" using s2(3) Some(3) by simp
      show ?thesis
      proof (cases "hd s2 = 0x3A")
        case False
        then show ?thesis using Some s2 cptr_peek[OF s2(2)] by simp
      next
        case colon: True
        then have t: "cptr (tl s2)" "length (tl s2) < length s2" using cptr_tl[OF s2(2)] by auto
        obtain s3 where s3: "skip_space (tl s2) = ret s3" "cptr s3" "length s3 \<le> length (tl s2)"
          using skip_spaceE[OF t(1)] .
        have l3: "length s3 < length s" using s3(3) t(2) l2 by simp
        have "moves s3 (parse_value st out fuel s3)" using IH(1)[OF s3(2)] 3(2) l3 by simp
        then show ?thesis
        proof (cases rule: movesE)
          case None
          then show ?thesis using Some s2 cptr_peek[OF s2(2)] colon s3 by simp
        next
          case V: (Some v s4)
          obtain s5 where s5: "skip_space s4 = ret s5" "cptr s5" "length s5 \<le> length s4"
            using skip_spaceE[OF V(2)] .
          have l5: "length s5 < length s" using s5(3) V(3) l3 by simp
          show ?thesis
          proof (cases "hd s5 \<in> {0x7D, 0x2C}")
            case False
            then show ?thesis
              using Some s2 cptr_peek[OF s2(2)] colon s3 V s5 cptr_peek[OF s5(2)] by (simp add: Let_def)
          next
            case True
            then have t5: "cptr (tl s5)" "length (tl s5) < length s5" using cptr_tl[OF s5(2)] by auto
            obtain s6 where s6: "skip_space (tl s5) = ret s6" "cptr s6" "length s6 \<le> length (tl s5)"
              using skip_spaceE[OF t5(1)] .
            have l6: "length s6 < length s" using s6(3) t5(2) l5 by simp
            have "moves s (parse_object_loop st out fuel s6 ms)" for ms
              by (rule moves_mono[OF IH(3)[OF s6(2)]]) (use 3(2) l6 in simp_all)
            then show ?thesis
              using Some s2 cptr_peek[OF s2(2)] colon s3 V s5 cptr_peek[OF s5(2)] True s6 t5 l5
              by (auto simp: Let_def)
          qed
        qed
      qed
    qed
  }
qed

subsection \<open>Properties\<close>

text \<open>C26: \<open>json_decode\<close> is total on C strings: for every NUL-terminated input it returns NULL or a
  tree, without reading past the NUL, writing outside its string buffer or failing one of the
  assertions of \<open>utf8_write_char\<close> and \<open>sb_finish\<close>, and the recursion of the parser ends.\<close>

theorem json_decode_total:
  assumes "0 \<notin> set s"
  shows "\<exists>r. json_decode strtod (s @ [0]) = ret r"
proof -
  obtain s1 where s1: "skip_space (s @ [0]) = ret s1" "cptr s1"
    using skip_spaceE[OF cptr_snoc[OF assms]] by blast
  have "moves s1 (parse_value strtod True (json_fuel s1) s1)"
    using s1(2) by (intro values_move(1)) (simp_all add: json_fuel_def)
  then show ?thesis
  proof (cases rule: movesE)
    case (Some j s2)
    obtain s3 where "skip_space s2 = ret s3" "cptr s3" using skip_spaceE[OF Some(2)] by blast
    then show ?thesis using s1 Some cptr_peek by (simp add: json_decode_def)
  qed (use s1 in \<open>simp add: json_decode_def\<close>)
qed

theorem json_decode_total_witness:
  "\<exists>r. json_decode id ([0x5B, 0x22, 0x5C] @ [0]) = ret r"
  by (rule json_decode_total) simp

end
