(* ===== verification/JsonEmit.thy ===== *)
theory JsonEmit
  imports JsonSafe
begin

text \<open>
  The printer of \<open>src/src/deps/json/json.c\<close>: \<open>json_encode\<close>, \<open>json_stringify\<close>,
  \<open>json_encode_string\<close> and everything below \<open>emit_value\<close>. A \<open>const char *\<close> is the list of its
  bytes; the terminating NUL is added where the code walks the string. The writes through
  \<open>b\<close> in \<open>emit_string\<close> go to the string buffer unchecked, as in C, so they need the space
  the code reserves. \<open>fmt\<close> is \<open>sprintf("%.16g")\<close>. The build never defines \<open>NDEBUG\<close>, so the
  assertions are part of the program.
\<close>

subsection \<open>Strings\<close>

definition hex_digit :: "nat \<Rightarrow> byte" where
  "hex_digit n = [0x30, 0x31, 0x32, 0x33, 0x34, 0x35, 0x36, 0x37, 0x38, 0x39,
                  0x41, 0x42, 0x43, 0x44, 0x45, 0x46] ! n"

definition write_hex16 :: "16 word \<Rightarrow> bytes" where
  "write_hex16 val =
     [hex_digit (unat (drop_bit 12 val AND 0xF)), hex_digit (unat (drop_bit 8 val AND 0xF)),
      hex_digit (unat (drop_bit 4 val AND 0xF)), hex_digit (unat (val AND 0xF))]"

text \<open>The body of the loop in \<open>emit_string\<close>: the bytes written to \<open>b\<close> and the advanced pointer.
  \<open>escape_unicode\<close> is the constant false.\<close>

definition emit_char :: "bytes \<Rightarrow> (bytes \<times> bytes) exec" where
  "emit_char s =
     xbind (peek s) (\<lambda>c.
     if c = 0x22 then ret ([0x5C, 0x22], tl s)
     else if c = 0x5C then ret ([0x5C, 0x5C], tl s)
     else if c = 0x08 then ret ([0x5C, 0x62], tl s)
     else if c = 0x0C then ret ([0x5C, 0x66], tl s)
     else if c = 0x0A then ret ([0x5C, 0x6E], tl s)
     else if c = 0x0D then ret ([0x5C, 0x72], tl s)
     else if c = 0x09 then ret ([0x5C, 0x74], tl s)
     else
       xbind (utf8_validate_cz s) (\<lambda>len.
       if len = 0 then throw Assert_Failed
       else if c < 0x1F then
         xbind (utf8_read_char s) (\<lambda>(unicode, n).
         if unicode \<le> 0xFFFF then ret ([0x5C, 0x75] @ write_hex16 (ucast unicode), drop n s)
         else
           xbind (c_assert (unicode \<le> 0x10FFFF)) (\<lambda>_.
           xbind (to_surrogate_pair unicode) (\<lambda>(uc, lc).
           ret ([0x5C, 0x75] @ write_hex16 uc @ [0x5C, 0x75] @ write_hex16 lc, drop n s))))
       else ret (take len s, drop len s)))"

partial_function (option) emit_string_loop :: "bytes \<Rightarrow> SB \<Rightarrow> SB exec" where
  "emit_string_loop s out =
     xbind (peek s) (\<lambda>c.
     if c = 0 then ret out
     else
       xbind (emit_char s) (\<lambda>(bs, s).
       xbind (sb_write out bs) (\<lambda>out.
       xbind (sb_need out 14) (\<lambda>out. emit_string_loop s out))))"

definition emit_string :: "SB \<Rightarrow> bytes \<Rightarrow> SB exec" where
  "emit_string out str =
     xbind (utf8_validate (str @ [0])) (\<lambda>v.
     xbind (c_assert v) (\<lambda>_.
     xbind (sb_need out 14) (\<lambda>out.
     xbind (sb_write out [0x22]) (\<lambda>out.
     xbind (emit_string_loop (str @ [0]) out) (\<lambda>out.
     sb_write out [0x22])))))"

subsection \<open>Numbers\<close>

text \<open>\<open>buf\<close> has 64 bytes.\<close>

definition emit_number :: "('d \<Rightarrow> bytes) \<Rightarrow> SB \<Rightarrow> 'd \<Rightarrow> SB exec" where
  "emit_number fmt out num =
     (if 64 \<le> length (fmt num) then throw Out_Of_Bounds
      else
        xbind (number_is_valid (fmt num @ [0])) (\<lambda>v.
        if v then sb_puts out (fmt num) else sb_puts out [0x6E, 0x75, 0x6C, 0x6C]))"

subsection \<open>Values\<close>

definition emit_bool :: "SB \<Rightarrow> bool \<Rightarrow> SB exec" where
  "emit_bool out b = sb_puts out (if b then [0x74, 0x72, 0x75, 0x65] else [0x66, 0x61, 0x6C, 0x73, 0x65])"

fun emit_value :: "('d \<Rightarrow> bytes) \<Rightarrow> 'd json \<Rightarrow> SB \<Rightarrow> SB exec"
  and emit_array :: "('d \<Rightarrow> bytes) \<Rightarrow> 'd json list \<Rightarrow> SB \<Rightarrow> SB exec"
  and emit_object :: "('d \<Rightarrow> bytes) \<Rightarrow> (bytes \<times> 'd json) list \<Rightarrow> SB \<Rightarrow> SB exec" where
  "emit_value fmt JNull out = sb_puts out [0x6E, 0x75, 0x6C, 0x6C]"
| "emit_value fmt (JBool b) out = emit_bool out b"
| "emit_value fmt (JString s) out = emit_string out s"
| "emit_value fmt (JNumber d) out = emit_number fmt out d"
| "emit_value fmt (JArray elems) out =
     xbind (sb_putc out 0x5B) (\<lambda>out.
     xbind (emit_array fmt elems out) (\<lambda>out. sb_putc out 0x5D))"
| "emit_value fmt (JObject members) out =
     xbind (sb_putc out 0x7B) (\<lambda>out.
     xbind (emit_object fmt members out) (\<lambda>out. sb_putc out 0x7D))"
| "emit_array fmt [] out = ret out"
| "emit_array fmt (e # es) out =
     xbind (emit_value fmt e out) (\<lambda>out.
     xbind (if es \<noteq> [] then sb_putc out 0x2C else ret out) (\<lambda>out. emit_array fmt es out))"
| "emit_object fmt [] out = ret out"
| "emit_object fmt ((k, v) # ms) out =
     xbind (emit_string out k) (\<lambda>out.
     xbind (sb_putc out 0x3A) (\<lambda>out.
     xbind (emit_value fmt v out) (\<lambda>out.
     xbind (if ms \<noteq> [] then sb_putc out 0x2C else ret out) (\<lambda>out. emit_object fmt ms out))))"

text \<open>\<open>for (i = 0; i < n; i++) sb_puts(out, space);\<close>\<close>

fun emit_indent :: "nat \<Rightarrow> bytes \<Rightarrow> SB \<Rightarrow> SB exec" where
  "emit_indent 0 space out = ret out"
| "emit_indent (Suc n) space out = xbind (sb_puts out space) (\<lambda>out. emit_indent n space out)"

fun emit_value_indented :: "('d \<Rightarrow> bytes) \<Rightarrow> bytes \<Rightarrow> nat \<Rightarrow> 'd json \<Rightarrow> SB \<Rightarrow> SB exec"
  and emit_array_indented :: "('d \<Rightarrow> bytes) \<Rightarrow> bytes \<Rightarrow> nat \<Rightarrow> 'd json list \<Rightarrow> SB \<Rightarrow> SB exec"
  and emit_object_indented :: "('d \<Rightarrow> bytes) \<Rightarrow> bytes \<Rightarrow> nat \<Rightarrow> (bytes \<times> 'd json) list \<Rightarrow> SB \<Rightarrow> SB exec" where
  "emit_value_indented fmt space level JNull out = sb_puts out [0x6E, 0x75, 0x6C, 0x6C]"
| "emit_value_indented fmt space level (JBool b) out = emit_bool out b"
| "emit_value_indented fmt space level (JString s) out = emit_string out s"
| "emit_value_indented fmt space level (JNumber d) out = emit_number fmt out d"
| "emit_value_indented fmt space level (JArray elems) out =
     (if elems = [] then sb_puts out [0x5B, 0x5D]
      else
        xbind (sb_puts out [0x5B, 0x0A]) (\<lambda>out.
        xbind (emit_array_indented fmt space level elems out) (\<lambda>out.
        xbind (emit_indent level space out) (\<lambda>out. sb_putc out 0x5D))))"
| "emit_value_indented fmt space level (JObject members) out =
     (if members = [] then sb_puts out [0x7B, 0x7D]
      else
        xbind (sb_puts out [0x7B, 0x0A]) (\<lambda>out.
        xbind (emit_object_indented fmt space level members out) (\<lambda>out.
        xbind (emit_indent level space out) (\<lambda>out. sb_putc out 0x7D))))"
| "emit_array_indented fmt space level [] out = ret out"
| "emit_array_indented fmt space level (e # es) out =
     xbind (emit_indent (level + 1) space out) (\<lambda>out.
     xbind (emit_value_indented fmt space (level + 1) e out) (\<lambda>out.
     xbind (sb_puts out (if es \<noteq> [] then [0x2C, 0x0A] else [0x0A])) (\<lambda>out.
     emit_array_indented fmt space level es out)))"
| "emit_object_indented fmt space level [] out = ret out"
| "emit_object_indented fmt space level ((k, v) # ms) out =
     xbind (emit_indent (level + 1) space out) (\<lambda>out.
     xbind (emit_string out k) (\<lambda>out.
     xbind (sb_puts out [0x3A, 0x20]) (\<lambda>out.
     xbind (emit_value_indented fmt space (level + 1) v out) (\<lambda>out.
     xbind (sb_puts out (if ms \<noteq> [] then [0x2C, 0x0A] else [0x0A])) (\<lambda>out.
     emit_object_indented fmt space level ms out)))))"

definition json_stringify :: "('d \<Rightarrow> bytes) \<Rightarrow> 'd json \<Rightarrow> bytes option \<Rightarrow> bytes exec" where
  "json_stringify fmt node space =
     xbind (case space of
              Some sp \<Rightarrow> emit_value_indented fmt sp 0 node sb_init
            | None \<Rightarrow> emit_value fmt node sb_init) sb_finish"

definition json_encode :: "('d \<Rightarrow> bytes) \<Rightarrow> 'd json \<Rightarrow> bytes exec" where
  "json_encode fmt node = json_stringify fmt node None"

definition json_encode_string :: "bytes \<Rightarrow> bytes exec" where
  "json_encode_string str = xbind (emit_string sb_init str) sb_finish"

end
