(* ===== verification/JsonText.thy ===== *)
theory JsonText
  imports JsonEmit
begin

text \<open>
  What the JSON printer writes, as a function of the tree (\<open>value_text\<close>), and the refinement
  that \<open>emit_value\<close> appends exactly that text to the buffer, growing it in time. The text of a
  string is given byte by byte; on valid UTF-8 it is what the character-wise C code writes.
\<close>

subsection \<open>The text of a tree\<close>

definition byte_text :: "byte \<Rightarrow> bytes" where
  "byte_text c =
     (if c = 0x22 then [0x5C, 0x22]
      else if c = 0x5C then [0x5C, 0x5C]
      else if c = 0x08 then [0x5C, 0x62]
      else if c = 0x0C then [0x5C, 0x66]
      else if c = 0x0A then [0x5C, 0x6E]
      else if c = 0x0D then [0x5C, 0x72]
      else if c = 0x09 then [0x5C, 0x74]
      else if c < 0x1F then [0x5C, 0x75] @ write_hex16 (ucast c)
      else [c])"

definition string_text :: "bytes \<Rightarrow> bytes" where
  "string_text s = 0x22 # concat (map byte_text s) @ [0x22]"

definition number_text :: "('d \<Rightarrow> bytes) \<Rightarrow> 'd \<Rightarrow> bytes" where
  "number_text fmt d =
     (if number_is_valid (fmt d @ [0]) = ret True then fmt d else [0x6E, 0x75, 0x6C, 0x6C])"

fun value_text :: "('d \<Rightarrow> bytes) \<Rightarrow> 'd json \<Rightarrow> bytes"
  and array_text :: "('d \<Rightarrow> bytes) \<Rightarrow> 'd json list \<Rightarrow> bytes"
  and object_text :: "('d \<Rightarrow> bytes) \<Rightarrow> (bytes \<times> 'd json) list \<Rightarrow> bytes" where
  "value_text fmt JNull = [0x6E, 0x75, 0x6C, 0x6C]"
| "value_text fmt (JBool b) = (if b then [0x74, 0x72, 0x75, 0x65] else [0x66, 0x61, 0x6C, 0x73, 0x65])"
| "value_text fmt (JString s) = string_text s"
| "value_text fmt (JNumber d) = number_text fmt d"
| "value_text fmt (JArray es) = 0x5B # array_text fmt es @ [0x5D]"
| "value_text fmt (JObject ms) = 0x7B # object_text fmt ms @ [0x7D]"
| "array_text fmt [] = []"
| "array_text fmt (e # es) = value_text fmt e @ (if es \<noteq> [] then 0x2C # array_text fmt es else [])"
| "object_text fmt [] = []"
| "object_text fmt ((k, v) # ms) =
     string_text k @ 0x3A # value_text fmt v @ (if ms \<noteq> [] then 0x2C # object_text fmt ms else [])"

text \<open>The trees the printer accepts: strings and keys are valid UTF-8 without NUL, and
  printed numbers fit the 64 bytes of \<open>emit_number\<close> and contain no NUL.\<close>

fun json_ok :: "('d \<Rightarrow> bytes) \<Rightarrow> 'd json \<Rightarrow> bool"
  and jsons_ok :: "('d \<Rightarrow> bytes) \<Rightarrow> 'd json list \<Rightarrow> bool"
  and members_ok :: "('d \<Rightarrow> bytes) \<Rightarrow> (bytes \<times> 'd json) list \<Rightarrow> bool" where
  "json_ok fmt JNull \<longleftrightarrow> True"
| "json_ok fmt (JBool b) \<longleftrightarrow> True"
| "json_ok fmt (JString s) \<longleftrightarrow> utf8_string s"
| "json_ok fmt (JNumber d) \<longleftrightarrow> length (fmt d) < 64 \<and> 0 \<notin> set (fmt d)"
| "json_ok fmt (JArray es) \<longleftrightarrow> jsons_ok fmt es"
| "json_ok fmt (JObject ms) \<longleftrightarrow> members_ok fmt ms"
| "jsons_ok fmt [] \<longleftrightarrow> True"
| "jsons_ok fmt (e # es) \<longleftrightarrow> json_ok fmt e \<and> jsons_ok fmt es"
| "members_ok fmt [] \<longleftrightarrow> True"
| "members_ok fmt ((k, v) # ms) \<longleftrightarrow> utf8_string k \<and> json_ok fmt v \<and> members_ok fmt ms"

subsection \<open>Strings\<close>

lemma byte_text_length: "length (byte_text c) \<le> 6"
  by (simp add: byte_text_def write_hex16_def)

lemma hex_digit_props: "n < 16 \<Longrightarrow> hex_digit n \<noteq> 0 \<and> hex_digit n \<noteq> 0x22"
proof -
  have "list_all (\<lambda>n. hex_digit n \<noteq> 0 \<and> hex_digit n \<noteq> 0x22) [0..<16]" by code_simp
  then show "n < 16 \<Longrightarrow> hex_digit n \<noteq> 0 \<and> hex_digit n \<noteq> 0x22" by (simp add: list_all_iff)
qed

lemma nibble_less: "unat ((x :: 16 word) AND 0xF) < 16"
proof -
  have m: "(0xF :: 16 word) = mask 4" by code_simp
  have "unat (x AND mask 4) < 2 ^ 4" unfolding unat_and_mask by (rule mod_less_divisor) simp
  then show ?thesis unfolding m by simp
qed

lemma write_hex16_no_NUL: "0 \<notin> set (write_hex16 v)"
  using hex_digit_props[OF nibble_less] unfolding write_hex16_def
  by (metis (no_types, lifting) empty_iff empty_set set_ConsD)

lemma byte_text_no_NUL: "c \<noteq> 0 \<Longrightarrow> 0 \<notin> set (byte_text c)"
  using write_hex16_no_NUL[of "ucast c"] by (auto simp: byte_text_def)

lemma byte_text_high: "\<not> c \<le> 0x7F \<Longrightarrow> byte_text c = [c]"
  by (auto simp: byte_text_def word_le_nat_alt word_less_nat_alt)

lemma utf8_char_single: "utf8_char xs \<Longrightarrow> length xs = 1 \<Longrightarrow> hd xs \<le> 0x7F"
  by (cases xs) (auto simp: utf8_char_def elim: utf8_validate_cz_cases)

lemma utf8_char_multi: "utf8_char xs \<Longrightarrow> length xs \<noteq> 1 \<Longrightarrow> \<forall>x \<in> set xs. \<not> x \<le> 0x7F"
  using utf8_validate_cz_take(4)[of "xs @ [0]" "length xs"] by (simp add: utf8_char_def)

lemma utf8_char_length: "utf8_char xs \<Longrightarrow> length xs \<le> 4"
  unfolding utf8_char_def by (elim conjE, erule utf8_validate_cz_cases) auto

lemma utf8_read_char_ascii: "c \<le> 0x7F \<Longrightarrow> utf8_read_char (c # s) = ret (ucast c, 1)"
  by (simp add: utf8_read_char_def utf8_validate_cz_1)

lemma ucast_uchar16: "(ucast (ucast (c :: byte) :: uchar_t) :: 16 word) = ucast c"
  by (rule byte_exhaust) code_simp

lemma emit_char_text:
  assumes "utf8_char xs" "hd xs \<noteq> 0"
  shows "emit_char (xs @ s) = ret (concat (map byte_text xs), s)"
proof (cases "length xs = 1")
  case True
  then obtain c where c: "xs = [c]" by (auto simp: length_Suc_conv)
  have c7: "c \<le> 0x7F" using utf8_char_single[OF assms(1) True] c by simp
  have "(ucast c :: uchar_t) \<le> 0xFFFF"
    using c7 by (simp add: word_le_nat_alt unat_ucast_up)
  moreover have "(ucast (ucast c :: uchar_t) :: 16 word) = ucast c" by (rule ucast_uchar16)
  ultimately show ?thesis
    using c c7 by (simp add: emit_char_def byte_text_def utf8_validate_cz_1 utf8_read_char_ascii)
next
  case False
  have hi: "\<forall>x \<in> set xs. \<not> x \<le> 0x7F" using utf8_char_multi[OF assms(1) False] .
  obtain c r where c: "xs = c # r" using utf8_char_not_Nil[OF assms(1)] by (cases xs) auto
  have "\<not> c \<le> 0x7F" using hi c by simp
  then have ne: "c \<noteq> 0x22" "c \<noteq> 0x5C" "c \<noteq> 0x08" "c \<noteq> 0x0C" "c \<noteq> 0x0A" "c \<noteq> 0x0D" "c \<noteq> 0x09" "\<not> c < 0x1F"
    by (auto simp: word_le_nat_alt word_less_nat_alt)
  have "concat (map byte_text xs) = xs" using hi by (induction xs) (auto simp: byte_text_high)
  moreover have "emit_char (xs @ s) = ret (take (length xs) (xs @ s), drop (length xs) (xs @ s))"
    using utf8_char_append[OF assms(1), of s] utf8_char_not_Nil[OF assms(1)] ne
    unfolding emit_char_def by (simp add: c)
  ultimately show ?thesis by simp
qed

lemma concat_byte_text_length: "length (concat (map byte_text xs)) \<le> 6 * length xs"
proof (induction xs)
  case (Cons c xs)
  then show ?case using byte_text_length[of c] by simp
qed simp

lemma utf8_char_text_length:
  assumes "utf8_char xs"
  shows "length (concat (map byte_text xs)) \<le> 6"
proof (cases "length xs = 1")
  case True
  then show ?thesis using concat_byte_text_length[of xs] by simp
next
  case False
  have hi: "\<forall>x \<in> set xs. \<not> x \<le> 0x7F" by (rule utf8_char_multi[OF assms False])
  have "concat (map byte_text xs) = xs" using hi by (induction xs) (auto simp: byte_text_high)
  then show ?thesis using utf8_char_length[OF assms] by simp
qed

definition space14 :: "SB \<Rightarrow> bool" where
  "space14 sb \<longleftrightarrow> length (sb_data sb) + 14 \<le> sb_cap sb"

lemma space14_ok: "space14 sb \<Longrightarrow> sb_ok sb"
  by (simp add: space14_def sb_ok_def)

text \<open>A write into the reserved 14 bytes, and the reservation of the next.\<close>

lemma write_and_need:
  assumes "space14 sb" "length bs \<le> 14"
  shows "\<exists>sb1 sb2. sb_write sb bs = ret sb1 \<and> sb_need sb1 14 = ret sb2 \<and> space14 sb2
       \<and> sb_data sb2 = sb_data sb @ bs"
proof -
  let ?sb1 = "sb\<lparr>sb_data := sb_data sb @ bs\<rparr>"
  have "sb_write sb bs = ret ?sb1" "sb_ok ?sb1"
    using assms by (auto simp: sb_write_def space14_def sb_ok_def)
  then show ?thesis using sb_need_ok[of ?sb1 14] by (auto simp: space14_def)
qed

lemma emit_string_loop_text:
  "utf8_string s \<Longrightarrow> space14 sb \<Longrightarrow> \<exists>sb'. emit_string_loop (s @ [0]) sb = ret sb' \<and> space14 sb'
    \<and> sb_data sb' = sb_data sb @ concat (map byte_text s)"
proof (induction arbitrary: sb rule: utf8_string.induct)
  case Nil
  then show ?case by (subst emit_string_loop.simps) simp
next
  case (Cons xs s)
  obtain sb1 sb2 where w: "sb_write sb (concat (map byte_text xs)) = ret sb1" "sb_need sb1 14 = ret sb2"
      "space14 sb2" "sb_data sb2 = sb_data sb @ concat (map byte_text xs)"
    using write_and_need[OF Cons.prems, of "concat (map byte_text xs)"] utf8_char_text_length[OF Cons.hyps(1)]
    by auto
  obtain c r where c: "xs = c # r" using utf8_char_not_Nil[OF Cons.hyps(1)] by (cases xs) auto
  have "emit_string_loop ((xs @ s) @ [0]) sb = emit_string_loop (s @ [0]) sb2"
    using emit_char_text[OF Cons.hyps(1,2), of "s @ [0]"] w(1,2) Cons.hyps(2)
    by (subst emit_string_loop.simps) (simp add: c)
  then show ?case using Cons.IH[OF w(3)] w(4) by simp
qed

lemma emit_string_text:
  assumes "utf8_string s"
  shows "emits sb_ok sb_data (\<lambda>sb. emit_string sb s) (string_text s)"
  unfolding emits_def
proof (intro allI impI)
  fix sb assume "sb_ok sb"
  then obtain sb0 where sb0: "sb_need sb 14 = ret sb0" "space14 sb0" "sb_data sb0 = sb_data sb"
    using sb_need_ok[of sb 14] by (auto simp: space14_def)
  text \<open>The opening quote and the first character share the reserved 14 bytes.\<close>
  let ?sb1 = "sb0\<lparr>sb_data := sb_data sb0 @ [0x22]\<rparr>"
  have w1: "sb_write sb0 [0x22] = ret ?sb1" using sb0(2) by (simp add: sb_write_def space14_def)
  have loop: "\<exists>sb'. emit_string_loop (s @ [0]) ?sb1 = ret sb' \<and> length (sb_data sb') + 1 \<le> sb_cap sb'
    \<and> sb_data sb' = sb_data ?sb1 @ concat (map byte_text s)"
    using assms
  proof (cases rule: utf8_string.cases)
    case Nil
    then show ?thesis using sb0(2) by (subst emit_string_loop.simps) (simp add: space14_def)
  next
    case (Cons xs t)
    obtain c r where c: "xs = c # r" using utf8_char_not_Nil[OF Cons(2)] by (cases xs) auto
    let ?bs = "concat (map byte_text xs)"
    let ?sb2 = "?sb1\<lparr>sb_data := sb_data ?sb1 @ ?bs\<rparr>"
    have "sb_write ?sb1 ?bs = ret ?sb2" "sb_ok ?sb2"
      using sb0(2) utf8_char_text_length[OF Cons(2)] by (auto simp: sb_write_def space14_def sb_ok_def)
    moreover obtain sb3 where sb3: "sb_need ?sb2 14 = ret sb3" "space14 sb3" "sb_data sb3 = sb_data ?sb2"
      using sb_need_ok[OF calculation(2), of 14] by (auto simp: space14_def)
    ultimately have "emit_string_loop (s @ [0]) ?sb1 = emit_string_loop (t @ [0]) sb3"
      using emit_char_text[OF Cons(2,3), of "t @ [0]"] Cons(1,3)
      by (subst emit_string_loop.simps) (simp add: c)
    then show ?thesis
      using emit_string_loop_text[OF Cons(4) sb3(2)] sb3(3) Cons(1) by (auto simp: space14_def)
  qed
  then obtain sb' where sb': "emit_string_loop (s @ [0]) ?sb1 = ret sb'" "length (sb_data sb') + 1 \<le> sb_cap sb'"
      "sb_data sb' = sb_data sb @ [0x22] @ concat (map byte_text s)"
    using sb0(3) by auto
  then show "\<exists>sb'. emit_string sb s = ret sb' \<and> sb_ok sb' \<and> sb_data sb' = sb_data sb @ string_text s"
    using sb0(1) w1 utf8_validate_string[OF assms, of "[]"]
    by (simp add: emit_string_def string_text_def sb_write_def sb_ok_def)
qed

subsection \<open>Values\<close>

lemma number_is_valid_returns:
  assumes "0 \<notin> set t"
  shows "\<exists>b. number_is_valid (t @ [0]) = ret b"
  using parse_number_moves[OF cptr_snoc[OF assms], of "\<lambda>_. ()"]
  by (cases rule: movesE) (auto simp: number_is_valid_def cptr_peek)

lemma emit_number_text:
  assumes "length (fmt d) < 64" "0 \<notin> set (fmt d)"
  shows "emits sb_ok sb_data (\<lambda>sb. emit_number fmt sb d) (number_text fmt d)"
proof -
  obtain b where "number_is_valid (fmt d @ [0]) = ret b" using number_is_valid_returns[OF assms(2)] by blast
  then show ?thesis using assms(1) sb.emits_put by (cases b) (simp_all add: emit_number_def number_text_def)
qed

lemma emits_comma:
  "emits sb_ok sb_data (\<lambda>sb. if b then sb_putc sb c else ret sb) (if b then [c] else [])"
  by (cases b) (simp_all add: emits_putc emits_ret)

text \<open>The equations of the printer without the buffer argument.\<close>

lemma emit_eta:
  "emit_value fmt JNull = (\<lambda>sb. sb_puts sb [0x6E, 0x75, 0x6C, 0x6C])"
  "emit_value fmt (JBool b) =
     (\<lambda>sb. sb_puts sb (if b then [0x74, 0x72, 0x75, 0x65] else [0x66, 0x61, 0x6C, 0x73, 0x65]))"
  "emit_value fmt (JString s) = (\<lambda>sb. emit_string sb s)"
  "emit_value fmt (JNumber d) = (\<lambda>sb. emit_number fmt sb d)"
  "emit_value fmt (JArray es) =
     (\<lambda>sb. xbind (sb_putc sb 0x5B) (\<lambda>sb. xbind (emit_array fmt es sb) (\<lambda>sb. sb_putc sb 0x5D)))"
  "emit_value fmt (JObject ms) =
     (\<lambda>sb. xbind (sb_putc sb 0x7B) (\<lambda>sb. xbind (emit_object fmt ms sb) (\<lambda>sb. sb_putc sb 0x7D)))"
  "emit_array fmt [] = ret"
  "emit_array fmt (e # es) =
     (\<lambda>sb. xbind (emit_value fmt e sb) (\<lambda>sb.
           xbind (if es \<noteq> [] then sb_putc sb 0x2C else ret sb) (emit_array fmt es)))"
  "emit_object fmt [] = ret"
  "emit_object fmt ((k, v) # ms) =
     (\<lambda>sb. xbind (emit_string sb k) (\<lambda>sb. xbind (sb_putc sb 0x3A) (\<lambda>sb.
           xbind (emit_value fmt v sb) (\<lambda>sb.
           xbind (if ms \<noteq> [] then sb_putc sb 0x2C else ret sb) (emit_object fmt ms)))))"
  by (simp_all add: fun_eq_iff emit_bool_def)

lemma array_text_Cons:
  "array_text fmt (e # es) = value_text fmt e @ (if es \<noteq> [] then [0x2C] else []) @ array_text fmt es"
  by (cases es) simp_all

lemma object_text_Cons:
  "object_text fmt ((k, v) # ms) = string_text k @ [0x3A] @ value_text fmt v
     @ (if ms \<noteq> [] then [0x2C] else []) @ object_text fmt ms"
  by (cases ms) auto

lemma value_text_brackets:
  "value_text fmt (JArray es) = [0x5B] @ array_text fmt es @ [0x5D]"
  "value_text fmt (JObject ms) = [0x7B] @ object_text fmt ms @ [0x7D]"
  by simp_all

lemmas emits_intros = emits_seq emits_putc emits_comma emits_ret sb.emits_put

lemma emit_text:
  "json_ok fmt j \<Longrightarrow> emits sb_ok sb_data (emit_value fmt j) (value_text fmt j)"
  "jsons_ok fmt es \<Longrightarrow> emits sb_ok sb_data (emit_array fmt es) (array_text fmt es)"
  "members_ok fmt ms \<Longrightarrow> emits sb_ok sb_data (emit_object fmt ms) (object_text fmt ms)"
proof (induction j and es and ms rule: json_ok_jsons_ok_members_ok.induct[of _ _ _ fmt])
  case (4 fmt d)
  then show ?case unfolding emit_eta by (simp add: emit_number_text)
next
  case (5 fmt es)
  show ?case unfolding emit_eta value_text_brackets by (intro emits_intros 5) (use 5 in simp)
next
  case (6 fmt ms)
  show ?case unfolding emit_eta value_text_brackets by (intro emits_intros 6) (use 6 in simp)
next
  case (8 fmt e es)
  show ?case unfolding emit_eta array_text_Cons by (intro emits_intros 8) (use 8 in simp_all)
next
  case (10 fmt k v ms)
  show ?case unfolding emit_eta object_text_Cons
    by (intro emits_intros emit_string_text 10) (use 10 in simp_all)
qed (simp_all only: emit_eta value_text.simps array_text.simps object_text.simps json_ok.simps
       emits_ret sb.emits_put emit_string_text)

lemma string_text_no_NUL: "0 \<notin> set s \<Longrightarrow> 0 \<notin> set (string_text s)"
  by (induction s) (simp_all add: string_text_def byte_text_no_NUL)

lemma text_no_NUL:
  "json_ok fmt j \<Longrightarrow> 0 \<notin> set (value_text fmt j)"
  "jsons_ok fmt es \<Longrightarrow> 0 \<notin> set (array_text fmt es)"
  "members_ok fmt ms \<Longrightarrow> 0 \<notin> set (object_text fmt ms)"
  by (induction j and es and ms rule: json_ok_jsons_ok_members_ok.induct[of _ _ _ fmt])
    (auto simp: number_text_def dest: utf8_string_no_NUL string_text_no_NUL)

lemma json_encode_value:
  assumes "json_ok fmt j"
  shows "json_encode fmt j = ret (value_text fmt j)"
proof -
  obtain sb where "emit_value fmt j sb_init = ret sb" "sb_ok sb" "sb_data sb = value_text fmt j"
    using emitsD[OF emit_text(1)[OF assms] sb_ok_init(1)] by auto
  then show ?thesis
    using sb_finish_ok[of sb] text_no_NUL(1)[OF assms] by (simp add: json_encode_def json_stringify_def)
qed

subsection \<open>Properties\<close>

text \<open>C27: \<open>json_encode\<close> refines the text of the tree. On every tree with valid UTF-8 strings it
  returns exactly \<open>value_text\<close>: the unchecked writes of \<open>emit_string\<close> stay in the space the
  buffer has reserved, no assertion fails and the buffer grows as needed.\<close>

theorem json_encode_text:
  assumes "json_ok fmt j"
  shows "json_encode fmt j = ret (value_text fmt j)"
  using assms by (rule json_encode_value)

theorem json_encode_text_witness:
  "json_encode (\<lambda>d. d) (JArray [JNumber [0x31], JNull]) = ret (value_text (\<lambda>d. d) (JArray [JNumber [0x31], JNull]))"
  by (rule json_encode_text) simp

end
