(* ===== verification/JsonRoundtrip.thy ===== *)
theory JsonRoundtrip
  imports JsonText
begin

text \<open>
  Decoding what was encoded: \<open>json_decode\<close> on the text of a tree gives the tree back, and
  \<open>json_validate\<close> accepts exactly what \<open>json_decode\<close> parses.
\<close>

subsection \<open>Four hexadecimal digits\<close>

lemma hex_digit_read:
  assumes "n < 16"
  shows "(0x30 \<le> hex_digit n \<and> hex_digit n \<le> 0x39 \<and> (ucast (hex_digit n) - 0x30 :: 16 word) = of_nat n)
    \<or> (\<not> hex_digit n \<le> 0x39 \<and> 0x41 \<le> hex_digit n \<and> hex_digit n \<le> 0x46
       \<and> (ucast (hex_digit n) - 0x41 + 10 :: 16 word) = of_nat n)"
proof -
  have "list_all (\<lambda>n. (0x30 \<le> hex_digit n \<and> hex_digit n \<le> 0x39 \<and> (ucast (hex_digit n) - 0x30 :: 16 word) = of_nat n)
    \<or> (\<not> hex_digit n \<le> 0x39 \<and> 0x41 \<le> hex_digit n \<and> hex_digit n \<le> 0x46
       \<and> (ucast (hex_digit n) - 0x41 + 10 :: 16 word) = of_nat n)) [0..<16]"
    by code_simp
  then show ?thesis using assms by (simp add: list_all_iff)
qed

lemma parse_hex16_loop_digit:
  "n < 16 \<Longrightarrow> parse_hex16_loop (Suc i) (hex_digit n # s) val = parse_hex16_loop i s (push_bit 4 val + of_nat n)"
  using hex_digit_read[of n] by (auto simp: Let_def)

lemma write_hex16_digits:
  fixes v :: "16 word"
  shows "write_hex16 v = [hex_digit (unat v div 4096 mod 16), hex_digit (unat v div 256 mod 16),
    hex_digit (unat v div 16 mod 16), hex_digit (unat v mod 16)]"
proof -
  have "(0xF :: 16 word) = mask 4" by code_simp
  then show ?thesis unfolding write_hex16_def by (simp only: unat_and_mask unat_drop) simp
qed

lemma nat_hex_digits:
  "n < 65536 \<Longrightarrow> ((n div 4096 mod 16 * 16 + n div 256 mod 16) * 16 + n div 16 mod 16) * 16 + n mod 16 = (n :: nat)"
proof -
  assume n: "n < 65536"
  have step: "n div (k * 16) * 16 + n div k mod 16 = n div k" for k
    unfolding div_mult2_eq by (rule div_mult_mod_eq)
  have "n div 4096 mod 16 = n div 4096" using n by (intro mod_less) (simp add: less_mult_imp_div_less)
  then show ?thesis using step[of 256] step[of 16] step[of 1] by simp
qed

lemma hex16_digits_value:
  fixes v :: "16 word"
  shows "push_bit 4 (push_bit 4 (push_bit 4 (of_nat (unat v div 4096 mod 16)) + of_nat (unat v div 256 mod 16))
    + of_nat (unat v div 16 mod 16)) + of_nat (unat v mod 16) = v"
proof -
  have "unat v < 2 ^ LENGTH(16)" by (rule unsigned_less)
  then have "of_nat (((unat v div 4096 mod 16 * 16 + unat v div 256 mod 16) * 16 + unat v div 16 mod 16) * 16
      + unat v mod 16) = v"
    by (subst nat_hex_digits) simp_all
  then show ?thesis by (simp only: push_bit_eq_mult of_nat_add of_nat_mult) simp
qed

lemma hex16_read_write: "parse_hex16 (write_hex16 v @ s) = ret (Some (v, s))"
proof -
  have four: "parse_hex16_loop 4 = parse_hex16_loop (Suc (Suc (Suc (Suc 0))))" by (simp add: eval_nat_numeral)
  show ?thesis
    unfolding parse_hex16_def write_hex16_digits four append_Cons
    by (simp add: parse_hex16_loop_digit hex16_digits_value del: parse_hex16_loop.simps(2))
qed

subsection \<open>Strings\<close>

lemma plain_byte_write:
  "c \<noteq> 0 \<and> c \<le> 0x7F \<longrightarrow> utf8_write_char (ucast (ucast (c :: byte) :: 16 word)) = ret [c]
    \<and> \<not> 0xD800 \<le> (ucast c :: 16 word) \<and> (ucast c :: 16 word) \<noteq> 0"
  by (rule byte_exhaust) code_simp

lemma parse_plain_byte:
  assumes "c \<noteq> 0x1F" "c \<noteq> 0" "c \<le> 0x7F"
  shows "parse_string_char (byte_text c @ s) = ret (Some ([c], s))"
proof -
  have le: "utf8_write_char (ucast (ucast c :: 16 word)) = ret [c]" "\<not> 0xD800 \<le> (ucast c :: 16 word)"
      "(ucast c :: 16 word) \<noteq> 0"
    using plain_byte_write[of c] assms(2,3) by blast+
  have plain: "\<not> c \<le> 0x1F" if "\<not> c < 0x1F" using that assms(1) by simp
  show ?thesis
    using assms le plain
    by (auto simp: byte_text_def parse_string_char_def Let_def hex16_read_write utf8_validate_cz_1)
qed

lemma parse_text_char:
  assumes "utf8_char xs" "hd xs \<noteq> 0" "0x1F \<notin> set xs"
  shows "parse_string_char (concat (map byte_text xs) @ s) = ret (Some (xs, s))
       \<and> hd (concat (map byte_text xs)) \<noteq> 0x22 \<and> concat (map byte_text xs) \<noteq> []"
proof (cases "length xs = 1")
  case True
  then obtain c where c: "xs = [c]" by (auto simp: length_Suc_conv)
  have c7: "c \<le> 0x7F" using utf8_char_single[OF assms(1) True] c by simp
  have "hd (byte_text c) \<noteq> 0x22 \<and> byte_text c \<noteq> []" by (simp add: byte_text_def)
  then show ?thesis using parse_plain_byte[OF _ _ c7] assms(2,3) c by simp
next
  case False
  have hi: "\<forall>x \<in> set xs. \<not> x \<le> 0x7F" by (rule utf8_char_multi[OF assms(1) False])
  have eq: "concat (map byte_text xs) = xs" using hi by (induction xs) (auto simp: byte_text_high)
  obtain c r where c: "xs = c # r" using utf8_char_not_Nil[OF assms(1)] by (cases xs) auto
  have "\<not> c \<le> 0x7F" using hi c by simp
  then have "c \<noteq> 0x22" "c \<noteq> 0x5C" "\<not> c \<le> 0x1F" by (auto simp: word_le_nat_alt)
  then show ?thesis
    using utf8_char_append[OF assms(1), of s] unfolding eq by (simp add: c parse_string_char_def Let_def)
qed

lemma parse_string_loop_text:
  "utf8_string s \<Longrightarrow> 0x1F \<notin> set s \<Longrightarrow> room True sb \<Longrightarrow>
    parse_string_loop True sb (concat (map byte_text s) @ 0x22 # r) = ret (Some (sb_data sb @ s, r))"
proof (induction arbitrary: sb rule: utf8_string.induct)
  case Nil
  then show ?case using sb_finish_ok[of sb] by (subst parse_string_loop.simps) (simp add: room_def)
next
  case (Cons xs s)
  let ?t = "concat (map byte_text xs)" and ?u = "concat (map byte_text s) @ 0x22 # r"
  have t: "parse_string_char (?t @ ?u) = ret (Some (xs, ?u))" "hd ?t \<noteq> 0x22" "?t \<noteq> []"
    using parse_text_char[OF Cons.hyps(1,2), of ?u] Cons.prems(1) by auto
  obtain sb' where sb': "string_write True sb xs = ret sb'" "room True sb'" "sb_data sb' = sb_data sb @ xs"
    using string_write_ok[OF Cons.prems(2) utf8_char_length utf8_char_no_NUL, OF Cons.hyps(1,1,2)] by auto
  have "peek (?t @ ?u) = ret (hd ?t)" using t(3) by (cases ?t) simp_all
  then have "parse_string_loop True sb (?t @ ?u) = parse_string_loop True sb' ?u"
    using t(1,2) sb'(1) by (subst parse_string_loop.simps) simp
  then show ?case using Cons.IH[OF _ sb'(2)] Cons.prems(1) sb'(3) by simp
qed

lemma parse_string_text:
  assumes "utf8_string s" "0x1F \<notin> set s"
  shows "parse_string True (string_text s @ r) = ret (Some (s, r))"
proof -
  obtain sb where "sb_need sb_init 4 = ret sb" "room True sb" "sb_data sb = []"
    using room_init[of True] by auto
  then show ?thesis using parse_string_loop_text[OF assms, of sb r] by (simp add: parse_string_def string_text_def)
qed

subsection \<open>Numbers\<close>

text \<open>What may follow a value: NUL, a comma or a closing bracket.\<close>

definition closes :: "byte \<Rightarrow> bool" where
  "closes c \<longleftrightarrow> c = 0 \<or> c = 0x2C \<or> c = 0x5D \<or> c = 0x7D"

text \<open>A stage of the number parser that does not look past a closing byte.\<close>

definition stage :: "(bytes \<Rightarrow> bytes parse) \<Rightarrow> bool" where
  "stage f \<longleftrightarrow> (\<forall>t u. 0 \<notin> set t \<longrightarrow> f (t @ [0]) = ret (Some u) \<longrightarrow>
     (\<exists>v. u = v @ [0] \<and> 0 \<notin> set v \<and> (\<forall>c r. closes c \<longrightarrow> f (t @ c # r) = ret (Some (v @ c # r)))))"

lemma closes_char: "closes c \<Longrightarrow> \<not> is_digit c \<and> c \<noteq> 0x2D \<and> c \<noteq> 0x2E \<and> c \<noteq> 0x30 \<and> c \<noteq> 0x45 \<and> c \<noteq> 0x65
    \<and> c \<noteq> 0x2B \<and> \<not> is_space c"
  by (auto simp: closes_def is_digit_def is_space_def)

lemma stageD:
  assumes "stage f" "0 \<notin> set t" "f (t @ [0]) = ret (Some u)"
  obtains v where "u = v @ [0]" "0 \<notin> set v" "\<And>c r. closes c \<Longrightarrow> f (t @ c # r) = ret (Some (v @ c # r))"
  using assms unfolding stage_def by metis

lemma skip_digits_stage:
  "0 \<notin> set t \<Longrightarrow> \<exists>v. skip_digits (t @ [0]) = ret (v @ [0]) \<and> 0 \<notin> set v
     \<and> (\<forall>c r. closes c \<longrightarrow> skip_digits (t @ c # r) = ret (v @ c # r))"
proof (induction t)
  case Nil
  show ?case using closes_char closes_char[of 0] by (auto simp: closes_def is_digit_def intro: exI[of _ "[]"])
next
  case (Cons d t)
  show ?case
  proof (cases "is_digit d")
    case False
    then show ?thesis using Cons.prems by (intro exI[of _ "d # t"]) simp
  qed (use Cons in auto)
qed

lemma digits1_stage: "stage digits1"
  unfolding stage_def
proof (intro allI impI)
  fix t u assume t: "0 \<notin> set t" "digits1 (t @ [0]) = ret (Some u)"
  have "\<not> is_digit 0" by (simp add: is_digit_def)
  then obtain d t' where d: "t = d # t'" "is_digit d"
    using t(2) by (cases t) (auto simp: digits1_def split: if_splits)
  then show "\<exists>v. u = v @ [0] \<and> 0 \<notin> set v \<and> (\<forall>c r. closes c \<longrightarrow> digits1 (t @ c # r) = ret (Some (v @ c # r)))"
    using skip_digits_stage[of t'] t by (auto simp: digits1_def)
qed

lemma number_int_stage: "stage number_int"
  unfolding stage_def
proof (intro allI impI)
  fix t u assume t: "0 \<notin> set t" "number_int (t @ [0]) = ret (Some u)"
  let ?t = "if hd (t @ [0]) = 0x2D then tl t else t"
  have eq: "number_int (t @ c # r) = (if hd (?t @ c # r) = 0x30 then ret (Some (tl (?t @ c # r))) else digits1 (?t @ c # r))"
    if "closes c" for c r
    using closes_char[OF that] by (cases t; cases "tl t") (auto simp: number_int_def Let_def)
  have t': "0 \<notin> set ?t" using t(1) by (cases t) auto
  have c0: "closes 0" by (simp add: closes_def)
  show "\<exists>v. u = v @ [0] \<and> 0 \<notin> set v \<and> (\<forall>c r. closes c \<longrightarrow> number_int (t @ c # r) = ret (Some (v @ c # r)))"
  proof (cases "hd (?t @ [0]) = 0x30")
    case True
    then obtain t2 where "?t = 0x30 # t2" by (cases ?t) auto
    then show ?thesis using eq eq[OF c0, of "[]"] t(2) t' by auto
  next
    case False
    then have "digits1 (?t @ [0]) = ret (Some u)" using eq[OF c0, of "[]"] t(2) by simp
    then obtain v where v: "u = v @ [0]" "0 \<notin> set v" "\<And>c r. closes c \<Longrightarrow> digits1 (?t @ c # r) = ret (Some (v @ c # r))"
      using stageD[OF digits1_stage t'] by metis
    have "hd (?t @ c # r) \<noteq> 0x30" if "closes c" for c r
      using False closes_char[OF that] by (cases ?t) auto
    then show ?thesis using v eq by auto
  qed
qed

lemma number_frac_stage: "stage number_frac"
  unfolding stage_def
proof (intro allI impI)
  fix t u assume t: "0 \<notin> set t" "number_frac (t @ [0]) = ret (Some u)"
  show "\<exists>v. u = v @ [0] \<and> 0 \<notin> set v \<and> (\<forall>c r. closes c \<longrightarrow> number_frac (t @ c # r) = ret (Some (v @ c # r)))"
  proof (cases "hd (t @ [0]) = 0x2E")
    case True
    then obtain t2 where t2: "t = 0x2E # t2" by (cases t) auto
    have d: "digits1 (t2 @ [0]) = ret (Some u)" "0 \<notin> set t2" using t t2 by (simp_all add: number_frac_def)
    obtain v where "u = v @ [0]" "0 \<notin> set v" "\<And>c r. closes c \<Longrightarrow> digits1 (t2 @ c # r) = ret (Some (v @ c # r))"
      using stageD[OF digits1_stage d(2,1)] by metis
    then show ?thesis using t2 by (simp add: number_frac_def)
  next
    case False
    then show ?thesis using t closes_char by (cases t) (auto simp: number_frac_def)
  qed
qed

lemma number_exp_stage: "stage number_exp"
  unfolding stage_def
proof (intro allI impI)
  fix t u assume t: "0 \<notin> set t" "number_exp (t @ [0]) = ret (Some u)"
  show "\<exists>v. u = v @ [0] \<and> 0 \<notin> set v \<and> (\<forall>c r. closes c \<longrightarrow> number_exp (t @ c # r) = ret (Some (v @ c # r)))"
  proof (cases "hd (t @ [0]) \<in> {0x45, 0x65}")
    case True
    then obtain e t2 where t2: "t = e # t2" "e = 0x45 \<or> e = 0x65" by (cases t) auto
    let ?t = "if hd (t2 @ [0]) = 0x2B \<or> hd (t2 @ [0]) = 0x2D then tl t2 else t2"
    have eq: "number_exp (t @ c # r) = digits1 (?t @ c # r)" if "closes c" for c r
      using closes_char[OF that] t2 by (cases t2) (auto simp: number_exp_def)
    have t': "0 \<notin> set ?t" using t(1) t2 by (cases t2) auto
    have "digits1 (?t @ [0]) = ret (Some u)" using eq[of 0 "[]"] t(2) by (simp add: closes_def)
    then obtain v where "u = v @ [0]" "0 \<notin> set v" "\<And>c r. closes c \<Longrightarrow> digits1 (?t @ c # r) = ret (Some (v @ c # r))"
      using stageD[OF digits1_stage t'] by metis
    then show ?thesis using eq by auto
  next
    case False
    then show ?thesis using t closes_char by (cases t) (auto simp: number_exp_def)
  qed
qed

lemma number_valid_parse:
  assumes "number_is_valid (t @ [0]) = ret True" "0 \<notin> set t" "closes c"
  shows "parse_number st (t @ c # r) = ret (Some (st (t @ c # r), c # r))"
proof -
  obtain u1 u2 u3 where u: "number_int (t @ [0]) = ret (Some u1)" "number_frac u1 = ret (Some u2)"
      "number_exp u2 = ret (Some u3)" "hd u3 = 0"
    using assms(1)
    by (auto simp: number_is_valid_def parse_number_def pbind_def xbind_ret_iff peek_ret_iff split: option.splits)
  obtain v1 where v1: "u1 = v1 @ [0]" "0 \<notin> set v1" "number_int (t @ c # r) = ret (Some (v1 @ c # r))"
    using stageD[OF number_int_stage assms(2) u(1)] assms(3) by metis
  obtain v2 where v2: "u2 = v2 @ [0]" "0 \<notin> set v2" "number_frac (v1 @ c # r) = ret (Some (v2 @ c # r))"
    using stageD[OF number_frac_stage v1(2)] u(2) v1(1) assms(3) by metis
  obtain v3 where v3: "u3 = v3 @ [0]" "0 \<notin> set v3" "number_exp (v2 @ c # r) = ret (Some (v3 @ c # r))"
    using stageD[OF number_exp_stage v2(2)] u(3) v2(1) assms(3) by metis
  have "v3 = []" using u(4) v3(1,2) by (cases v3) auto
  then show ?thesis using v1(3) v2(3) v3(3) by (simp add: parse_number_def)
qed

subsection \<open>Values\<close>

text \<open>The trees the printer writes without loss: no byte 0x1F in a string, which is printed raw
  but not accepted, and no number that is not a JSON number (infinity and NaN are printed as
  \<open>null\<close>).\<close>

fun exact :: "('d \<Rightarrow> bytes) \<Rightarrow> 'd json \<Rightarrow> bool"
  and exacts :: "('d \<Rightarrow> bytes) \<Rightarrow> 'd json list \<Rightarrow> bool"
  and exact_members :: "('d \<Rightarrow> bytes) \<Rightarrow> (bytes \<times> 'd json) list \<Rightarrow> bool" where
  "exact fmt JNull \<longleftrightarrow> True"
| "exact fmt (JBool b) \<longleftrightarrow> True"
| "exact fmt (JString s) \<longleftrightarrow> 0x1F \<notin> set s"
| "exact fmt (JNumber d) \<longleftrightarrow> number_is_valid (fmt d @ [0]) = ret True"
| "exact fmt (JArray es) \<longleftrightarrow> exacts fmt es"
| "exact fmt (JObject ms) \<longleftrightarrow> exact_members fmt ms"
| "exacts fmt [] \<longleftrightarrow> True"
| "exacts fmt (e # es) \<longleftrightarrow> exact fmt e \<and> exacts fmt es"
| "exact_members fmt [] \<longleftrightarrow> True"
| "exact_members fmt ((k, v) # ms) \<longleftrightarrow> 0x1F \<notin> set k \<and> exact fmt v \<and> exact_members fmt ms"

text \<open>\<open>strtod\<close> reads back the number before a closing byte.\<close>

definition reads_back :: "('d \<Rightarrow> bytes) \<Rightarrow> (bytes \<Rightarrow> 'd) \<Rightarrow> 'd \<Rightarrow> bool" where
  "reads_back fmt st d \<longleftrightarrow> (\<forall>c r. closes c \<longrightarrow> st (fmt d @ c # r) = d)"

lemma number_first:
  assumes "number_is_valid (t @ [0]) = ret True"
  shows "\<exists>c r. t = c # r \<and> (c = 0x2D \<or> is_digit c)"
proof -
  obtain u where u: "number_int (t @ [0]) = ret (Some u)"
    using assms by (auto simp: number_is_valid_def parse_number_def pbind_def xbind_ret_iff split: option.splits)
  have "is_digit 0x30" "\<not> is_digit 0" by (simp_all add: is_digit_def)
  then show ?thesis
    using u by (cases t) (auto simp: number_int_def digits1_def Let_def split: if_splits)
qed

lemma value_text_first:
  assumes "exact fmt j"
  shows "\<exists>c t. value_text fmt j = c # t \<and> \<not> is_space c \<and> c \<noteq> 0x5D"
proof (cases j)
  case (JNumber d)
  then have "number_is_valid (fmt d @ [0]) = ret True" using assms by simp
  then obtain c r where c: "fmt d = c # r" "c = 0x2D \<or> is_digit c" using number_first by blast
  then have "\<not> is_space c \<and> c \<noteq> 0x5D" by (auto simp: is_digit_def is_space_def word_le_nat_alt)
  then show ?thesis using JNumber c assms by (simp add: number_text_def)
qed (auto simp: string_text_def is_space_def)

lemma skip_space_stays [simp]: "\<not> is_space c \<Longrightarrow> skip_space (c # s) = ret (c # s)"
  by simp

lemma skip_space_value: "exact fmt j \<Longrightarrow> skip_space (value_text fmt j @ s) = ret (value_text fmt j @ s)"
  using value_text_first[of fmt j] by auto

lemma punctuation_not_space [simp]:
  "\<not> is_space 0x2C" "\<not> is_space 0x5D" "\<not> is_space 0x7D" "\<not> is_space 0x3A" "\<not> is_space 0x22" "\<not> is_space 0"
  by (simp_all add: is_space_def)

lemma parse_number_value:
  assumes "number_is_valid (fmt d @ [0]) = ret True" "0 \<notin> set (fmt d)" "closes c" "reads_back fmt st d"
  shows "parse_value st True (Suc n) (fmt d @ c # r) = ret (Some (JNumber d, c # r))"
proof -
  obtain x t where x: "fmt d = x # t" "x = 0x2D \<or> is_digit x" using number_first[OF assms(1)] by blast
  then have "x \<notin> {0x6E, 0x66, 0x74, 0x22, 0x5B, 0x7B}" by (auto simp: is_digit_def word_le_nat_alt)
  moreover have "parse_number st (fmt d @ c # r) = ret (Some (d, c # r))"
    using number_valid_parse[OF assms(1-3), of st r] assms(3,4) by (simp add: reads_back_def)
  ultimately show ?thesis using x(1) by (simp add: Let_def)
qed

lemma string_text_Cons: "string_text s @ r = 0x22 # (concat (map byte_text s) @ 0x22 # r)"
  by (simp add: string_text_def)

lemma prod_snds: "Basic_BNFs.snds m = {snd m}"
  by (cases m) (simp add: snds.simps set_eq_iff)

lemma parse_text:
  "json_ok fmt j \<Longrightarrow> exact fmt j \<Longrightarrow> \<forall>d \<in> set_json j. reads_back fmt st d \<Longrightarrow> closes c
    \<Longrightarrow> 2 * length (value_text fmt j) \<le> fuel
    \<Longrightarrow> parse_value st True fuel (value_text fmt j @ c # r) = ret (Some (j, c # r))"
  "jsons_ok fmt es \<Longrightarrow> exacts fmt es \<Longrightarrow> \<forall>e \<in> set es. \<forall>d \<in> set_json e. reads_back fmt st d \<Longrightarrow> es \<noteq> []
    \<Longrightarrow> 2 * length (array_text fmt es) < fuel
    \<Longrightarrow> parse_array_loop st True fuel (array_text fmt es @ 0x5D # r) acc = ret (Some (JArray (acc @ es), r))"
  "members_ok fmt ms \<Longrightarrow> exact_members fmt ms \<Longrightarrow> \<forall>m \<in> set ms. \<forall>d \<in> set_json (snd m). reads_back fmt st d
    \<Longrightarrow> ms \<noteq> [] \<Longrightarrow> 2 * length (object_text fmt ms) < fuel
    \<Longrightarrow> parse_object_loop st True fuel (object_text fmt ms @ 0x7D # r) macc = ret (Some (JObject (macc @ ms), r))"
proof (induction j and es and ms arbitrary: c r fuel and fuel r acc and fuel r macc
    rule: json_ok_jsons_ok_members_ok.induct[of _ _ _ fmt])
  case (1 fmt)
  then show ?case by (cases fuel) (simp_all add: Let_def)
next
  case (2 fmt b)
  then show ?case by (cases fuel; cases b) (simp_all add: Let_def)
next
  case (3 fmt s)
  then obtain f where "fuel = Suc f" by (cases fuel) (auto simp: string_text_def)
  then show ?case
    using 3 parse_string_text[of s "c # r"] unfolding value_text.simps string_text_Cons
    by (simp add: Let_def)
next
  case (4 fmt d)
  obtain x t where "fmt d = x # t" using number_first[of "fmt d"] 4 by auto
  then obtain f where "fuel = Suc f" using 4 by (cases fuel) (auto simp: number_text_def)
  then show ?case using 4 parse_number_value[of fmt d c st f r] by (simp add: number_text_def)
next
  case (5 fmt es)
  obtain f where f: "fuel = Suc f" using 5 by (cases fuel) auto
  show ?case
  proof (cases es)
    case Nil
    then show ?thesis using f by (simp add: Let_def)
  next
    case (Cons e es')
    then obtain y t where y: "array_text fmt es = y # t" "\<not> is_space y" "y \<noteq> 0x5D"
      using value_text_first[of fmt e] 5(3) by auto
    have "parse_array_loop st True f (array_text fmt es @ 0x5D # c # r) [] = ret (Some (JArray es, c # r))"
      using 5 f Cons by (subst 5(1)) auto
    then show ?thesis using f y by (simp add: Let_def)
  qed
next
  case (6 fmt ms)
  obtain f where f: "fuel = Suc f" using 6 by (cases fuel) auto
  show ?case
  proof (cases ms)
    case Nil
    then show ?thesis using f by (simp add: Let_def)
  next
    case (Cons m ms')
    then obtain t where y: "object_text fmt ms = 0x22 # t" by (cases m) (simp add: string_text_def)
    have "parse_object_loop st True f (object_text fmt ms @ 0x7D # c # r) [] = ret (Some (JObject ms, c # r))"
      using 6 f Cons by (subst 6(1)) (auto simp: prod_snds)
    then show ?thesis using f y by (simp add: Let_def)
  qed
next
  case (8 fmt e es)
  obtain f where f: "fuel = Suc f" using 8 by (cases fuel) auto
  let ?c = "if es \<noteq> [] then 0x2C else 0x5D :: byte"
  let ?r = "if es \<noteq> [] then array_text fmt es @ 0x5D # r else r"
  have "parse_value st True f (value_text fmt e @ ?c # ?r) = ret (Some (e, ?c # ?r))"
    using 8 f by (intro 8(1)) (auto simp: closes_def)
  moreover have "array_text fmt (e # es) @ 0x5D # r = value_text fmt e @ ?c # ?r" by simp
  moreover have "parse_array_loop st True f (array_text fmt es @ 0x5D # r) (acc @ [e]) = ret (Some (JArray (acc @ e # es), r))"
    if "es \<noteq> []" using 8 f that by (subst 8(2)) auto
  moreover have "skip_space (array_text fmt es @ 0x5D # r) = ret (array_text fmt es @ 0x5D # r)" if "es \<noteq> []"
    using that 8(4) skip_space_value[of fmt "hd es"] by (cases es) auto
  ultimately show ?case unfolding f by (cases "es = []") (simp_all add: Let_def)
next
  case (10 fmt k v ms)
  obtain f where f: "fuel = Suc f" using 10 by (cases fuel) auto
  let ?c = "if ms \<noteq> [] then 0x2C else 0x7D :: byte"
  let ?r = "if ms \<noteq> [] then object_text fmt ms @ 0x7D # r else r"
  have "parse_value st True f (value_text fmt v @ ?c # ?r) = ret (Some (v, ?c # ?r))"
    using 10 f by (intro 10(1)) (auto simp: closes_def)
  moreover have "parse_string True (string_text k @ 0x3A # value_text fmt v @ ?c # ?r)
      = ret (Some (k, 0x3A # value_text fmt v @ ?c # ?r))"
    using 10 by (intro parse_string_text) auto
  moreover have "object_text fmt ((k, v) # ms) @ 0x7D # r = string_text k @ 0x3A # value_text fmt v @ ?c # ?r" by simp
  moreover have "parse_object_loop st True f (object_text fmt ms @ 0x7D # r) (macc @ [(k, v)])
      = ret (Some (JObject (macc @ (k, v) # ms), r))"
    if "ms \<noteq> []" using 10 f that by (subst 10(2)) auto
  moreover have "skip_space (object_text fmt ms @ 0x7D # r) = ret (object_text fmt ms @ 0x7D # r)" if "ms \<noteq> []"
    using that by (cases ms) (auto simp: string_text_def)
  moreover have "skip_space (value_text fmt v @ ?c # ?r) = ret (value_text fmt v @ ?c # ?r)"
    using 10(4) by (intro skip_space_value) simp
  ultimately show ?case unfolding f by (cases "ms = []") (simp_all add: Let_def)
qed simp_all

lemma json_decode_value:
  assumes "json_ok fmt j" "exact fmt j" "\<forall>d \<in> set_json j. reads_back fmt strtod d"
  shows "json_decode strtod (value_text fmt j @ [0]) = ret (Some j)"
proof -
  let ?t = "value_text fmt j"
  have c0: "closes 0" by (simp add: closes_def)
  have "parse_value strtod True (json_fuel (?t @ [0])) (?t @ [0]) = ret (Some (j, [0]))"
    by (rule parse_text(1)[OF assms c0]) (simp add: json_fuel_def)
  then show ?thesis using skip_space_value[OF assms(2), of "[0]"] by (simp add: json_decode_def)
qed

subsection \<open>Properties\<close>


text \<open>A concrete \<open>strtod\<close> on the characters of a number.\<close>

definition number_chars :: "bytes \<Rightarrow> bytes" where
  "number_chars = takeWhile (\<lambda>c. \<not> closes c)"

lemma number_chars_reads_back: "reads_back (\<lambda>d. d) number_chars [0x31]"
  by (simp add: reads_back_def number_chars_def closes_def)


text \<open>a string with the control character 0x1F is encoded, but the encoding is not accepted by
  \<open>json_decode\<close>: the printer escapes \<open>c < 0x1F\<close>, the parser refuses \<open>c <= 0x1F\<close>.\<close>

theorem json_unit_separator_lost:
  "json_encode fmt (JString [0x1F]) = ret [0x22, 0x1F, 0x22] \<and> json_decode strtod [0x22, 0x1F, 0x22, 0] = ret None"
proof
  have u: "utf8_string [0x1F]" using utf8_validate_True[of "[0x1F]"] by (simp add: utf8_validate.simps utf8_validate_cz_def)
  obtain sb where "emit_value fmt (JString [0x1F]) sb_init = ret sb" "sb_ok sb" "sb_data sb = [0x22, 0x1F, 0x22]"
    using emitsD[OF emit_text(1)[of fmt "JString [0x1F]"] sb_ok_init(1)] u
    by (auto simp: string_text_def byte_text_def)
  then show "json_encode fmt (JString [0x1F]) = ret [0x22, 0x1F, 0x22]"
    using sb_finish_ok[of sb] by (simp add: json_encode_def json_stringify_def)
next
  obtain sb where sb: "sb_need sb_init 4 = ret sb" using room_init[of True] by auto
  have "parse_string_loop True sb [0x1F, 0x22, 0] = ret None"
    by (subst parse_string_loop.simps) (simp add: parse_string_char_def Let_def)
  then have "parse_string True [0x22, 0x1F, 0x22, 0] = ret None" using sb by (simp add: parse_string_def)
  moreover have "json_fuel s = Suc (2 * length s + 1)" for s by (simp add: json_fuel_def)
  ultimately show "json_decode strtod [0x22, 0x1F, 0x22, 0] = ret None"
    by (simp add: json_decode_def is_space_def Let_def)
qed

end
