(* ===== verification/JsonValidate.thy ===== *)
theory JsonValidate
  imports JsonRoundtrip
begin

text \<open>
  \<open>json_validate\<close> runs the parser without output pointers. It accepts exactly the inputs
  \<open>json_decode\<close> parses: with and without output the parser takes the same path.
\<close>

subsection \<open>Two runs that advance alike\<close>

definition agree :: "('a \<times> bytes) parse \<Rightarrow> ('b \<times> bytes) parse \<Rightarrow> bool" where
  "agree m m' \<longleftrightarrow> m = None \<and> m' = None \<or> m = ret None \<and> m' = ret None
     \<or> (\<exists>x y s. m = ret (Some (x, s)) \<and> m' = ret (Some (y, s)) \<and> cptr s)"

lemma agree_simps [simp]:
  "agree None None" "agree (ret None) (ret None)"
  "agree (ret (Some (x, s))) (ret (Some (y, s'))) \<longleftrightarrow> s = s' \<and> cptr s"
  by (auto simp: agree_def)

lemma agreeE:
  assumes "agree m m'"
  obtains (Fuel) "m = None" "m' = None" | (Fail) "m = ret None" "m' = ret None"
    | (Both) x y s where "m = ret (Some (x, s))" "m' = ret (Some (y, s))" "cptr s"
  using assms unfolding agree_def by blast

lemma agree_bind:
  assumes "agree m m'" and "\<And>x y s. cptr s \<Longrightarrow> agree (f x s) (g y s)"
  shows "agree (xbind m (\<lambda>r. case r of None \<Rightarrow> ret None | Some (x, s) \<Rightarrow> f x s))
    (xbind m' (\<lambda>r. case r of None \<Rightarrow> ret None | Some (y, s) \<Rightarrow> g y s))"
  using assms(1) by (rule agreeE) (auto simp: assms(2))

lemma agree_map:
  assumes "agree m m'"
  shows "agree (xbind m (\<lambda>r. ret (map_option (\<lambda>(x, s). (f x, s)) r)))
    (xbind m' (\<lambda>r. ret (map_option (\<lambda>(y, s). (g y, s)) r)))"
  using assms by (rule agreeE) auto

lemma agree_skip:
  assumes "cptr s" and "\<And>s'. cptr s' \<Longrightarrow> agree (f s') (g s')"
  shows "agree (xbind (skip_space s) f) (xbind (skip_space s) g)"
  using skip_spaceE[OF assms(1)] assms(2) by fastforce

lemma agree_peek:
  assumes "cptr s" and "agree (f (hd s)) (g (hd s))"
  shows "agree (xbind (peek s) f) (xbind (peek s) g)"
  using cptr_peek[OF assms(1)] assms(2) by simp

subsection \<open>The parser with and without output\<close>

lemma parse_string_loop_agree:
  "cptr s \<Longrightarrow> room True sb \<Longrightarrow> room False sb' \<Longrightarrow>
    agree (parse_string_loop True sb s) (parse_string_loop False sb' s)"
proof (induction "length s" arbitrary: s sb sb' rule: less_induct)
  case less
  obtain c s1 where s: "s = c # s1" using less.prems(1) by (cases s) auto
  obtain r where r: "parse_string_char s = ret r"
      "\<forall>bs s'. r = Some (bs, s') \<longrightarrow> cptr s' \<and> length s' < length s \<and> length bs \<le> 4 \<and> 0 \<notin> set bs"
    using parse_string_char_ok[OF less.prems(1)] by (auto simp: char_ok_def)
  consider (quote) "c = 0x22" | (fail) "c \<noteq> 0x22" "r = None" | (char) bs s' where "c \<noteq> 0x22" "r = Some (bs, s')"
    by (cases r) auto
  then show ?case
  proof cases
    case quote
    then show ?thesis
      using s less.prems sb_finish_ok[of sb]
      by (subst (1 2) parse_string_loop.simps) (auto simp: room_def split: if_splits)
  next
    case fail
    then show ?thesis using s r by (subst (1 2) parse_string_loop.simps) simp
  next
    case char
    have b: "cptr s'" "length s' < length s" "length bs \<le> 4" "0 \<notin> set bs" using r(2) char(2) by auto
    obtain t where t: "string_write True sb bs = ret t" "room True t"
      using string_write_ok[OF less.prems(2) b(3,4)] by blast
    obtain t' where t': "string_write False sb' bs = ret t'" "room False t'"
      using string_write_ok[OF less.prems(3) b(3,4)] by blast
    have "parse_string_loop True sb s = parse_string_loop True t s'"
      using s char r(1) t(1) by (subst parse_string_loop.simps) simp
    moreover have "parse_string_loop False sb' s = parse_string_loop False t' s'"
      using s char r(1) t'(1) by (subst parse_string_loop.simps) simp
    ultimately show ?thesis using less.hyps[OF b(2,1) t(2) t'(2)] by simp
  qed
qed

lemma parse_string_agree:
  assumes "cptr s"
  shows "agree (parse_string True s) (parse_string False s)"
proof (cases "hd s = 0x22")
  case True
  then have t: "cptr (tl s)" using cptr_tl[OF assms] by simp
  obtain sb where "sb_need sb_init 4 = ret sb" "room True sb" using room_init[of True] by auto
  moreover have "room False sb_init" by (simp add: room_def)
  ultimately show ?thesis
    using parse_string_loop_agree[OF t] cptr_peek[OF assms] True by (simp add: parse_string_def)
qed (use cptr_peek[OF assms] in \<open>simp add: parse_string_def\<close>)

lemma agree_literal:
  assumes "cptr s" "0 \<notin> set ls"
  shows "agree (xbind (expect_literal s ls) (\<lambda>r. ret (map_option (\<lambda>s. (v, s)) r)))
    (xbind (expect_literal s ls) (\<lambda>r. ret (map_option (\<lambda>s. (v', s)) r)))"
proof -
  obtain r where "expect_literal s ls = ret r" "\<forall>s'. r = Some s' \<longrightarrow> cptr s'"
    using expect_literal_cptr[OF assms] by blast
  then show ?thesis by (cases r) simp_all
qed

lemma parse_number_agree:
  assumes "cptr s"
  shows "agree (parse_number st s) (parse_number st' s)"
proof -
  obtain r1 where r1: "number_int s = ret r1" "\<forall>a. r1 = Some a \<longrightarrow> cptr a"
    using number_int_cptr[OF assms] by blast
  show ?thesis
  proof (cases r1)
    case (Some a)
    then obtain r2 where r2: "number_frac a = ret r2" "\<forall>b. r2 = Some b \<longrightarrow> cptr b"
      using number_frac_cptr r1(2) by blast
    show ?thesis
    proof (cases r2)
      case (Some b)
      then obtain r3 where "number_exp b = ret r3" "\<forall>c. r3 = Some c \<longrightarrow> cptr c"
        using number_exp_cptr r2(2) by blast
      then show ?thesis using r1 r2 Some \<open>r1 = Some a\<close> by (cases r3) (auto simp: parse_number_def)
    qed (use r1 r2 Some in \<open>simp add: parse_number_def\<close>)
  qed (use r1 in \<open>simp add: parse_number_def\<close>)
qed

lemma cptr_tl_hd: "cptr s \<Longrightarrow> hd s = c \<Longrightarrow> c \<noteq> 0 \<Longrightarrow> cptr (tl s)"
  using cptr_tl by blast

lemma cptr_punctuation:
  "cptr s \<Longrightarrow> hd s = 0x2C \<Longrightarrow> cptr (tl s)" "cptr s \<Longrightarrow> hd s = 0x3A \<Longrightarrow> cptr (tl s)"
  "cptr s \<Longrightarrow> hd s = 0x5D \<Longrightarrow> cptr (tl s)" "cptr s \<Longrightarrow> hd s = 0x7D \<Longrightarrow> cptr (tl s)"
  by (erule (1) cptr_tl_hd, simp)+

lemma values_agree:
  "cptr s \<Longrightarrow> agree (parse_value st True fuel s) (parse_value st' False fuel s)"
  "cptr s \<Longrightarrow> agree (parse_array_loop st True fuel s elems) (parse_array_loop st' False fuel s elems')"
  "cptr s \<Longrightarrow> agree (parse_object_loop st True fuel s members) (parse_object_loop st' False fuel s members')"
proof (induction fuel arbitrary: s elems elems' members members')
  case 0
  { case 1 then show ?case by simp next case 2 then show ?case by simp next case 3 then show ?case by simp }
next
  case (Suc fuel)
  note IH = Suc.IH
  {
    case 1
    let ?c = "hd s"
    have open_agree: "agree (xbind (skip_space (tl s)) (\<lambda>s. xbind (peek s) (\<lambda>c. if c = close then ret (Some (v, tl s)) else L s)))
        (xbind (skip_space (tl s)) (\<lambda>s. xbind (peek s) (\<lambda>c. if c = close then ret (Some (v', tl s)) else L' s)))"
      if "?c \<noteq> 0" "close \<noteq> 0" "\<And>s'. cptr s' \<Longrightarrow> agree (L s') (L' s')" for close v v' L L'
      using cptr_tl_hd[OF 1 refl that(1)] that(2,3)
      by (intro agree_skip agree_peek) (auto intro: cptr_tl_hd)
    consider "?c = 0x6E" | "?c = 0x66" | "?c = 0x74" | "?c = 0x22" | "?c = 0x5B" | "?c = 0x7B"
      | "?c \<notin> {0x6E, 0x66, 0x74, 0x22, 0x5B, 0x7B}" by blast
    then show ?case
      using cptr_peek[OF 1] agree_map[OF parse_string_agree[OF 1]] agree_map[OF parse_number_agree[OF 1, of st st']]
        open_agree[OF _ _ IH(2)] open_agree[OF _ _ IH(3)]
      by cases (simp_all add: Let_def agree_literal[OF 1] del: expect_literal.simps)
  next
    case 2
    show ?case
      unfolding parse_array_loop.simps Let_def
      by (intro agree_bind IH(1)[OF 2] agree_skip agree_peek)
        (auto intro!: agree_skip IH(2) intro: cptr_punctuation)
  next
    case 3
    show ?case
      unfolding parse_object_loop.simps Let_def
      by (intro agree_bind parse_string_agree[OF 3] agree_skip agree_peek, assumption+)
        (auto intro!: agree_skip agree_bind IH(1) agree_peek IH(3) intro: cptr_punctuation)
  }
qed

subsection \<open>Properties\<close>

text \<open>C30: on every C string \<open>json_validate\<close> returns true exactly when \<open>json_decode\<close> returns a
  tree, whatever \<open>strtod\<close> does: the two uses of the parser, with and without output pointers,
  are equivalent.\<close>

theorem json_validate_decode:
  assumes "0 \<notin> set s"
  shows "\<exists>r. json_decode strtod (s @ [0]) = ret r \<and> json_validate (s @ [0]) = ret (r \<noteq> None)"
proof -
  obtain s1 where s1: "skip_space (s @ [0]) = ret s1" "cptr s1"
    using skip_spaceE[OF cptr_snoc[OF assms]] by blast
  have mv: "moves s1 (parse_value strtod True (json_fuel s1) s1)"
    using s1(2) by (intro values_move(1)) (simp_all add: json_fuel_def)
  have "agree (parse_value strtod True (json_fuel s1) s1) (parse_value (\<lambda>_. ()) False (json_fuel s1) s1)"
    by (rule values_agree(1)[OF s1(2)])
  then show ?thesis
  proof (cases rule: agreeE)
    case Fuel
    then show ?thesis using mv by (simp add: moves_def)
  next
    case Fail
    then show ?thesis using s1 by (simp add: json_decode_def json_validate_def)
  next
    case (Both x y s2)
    obtain s3 where "skip_space s2 = ret s3" "cptr s3" using skip_spaceE[OF Both(3)] by blast
    then show ?thesis using s1 Both cptr_peek[of s3] by (simp add: json_decode_def json_validate_def)
  qed
qed

theorem json_validate_decode_witness:
  "\<exists>r. json_decode id ([0x5B, 0x22, 0x5C] @ [0]) = ret r \<and> json_validate ([0x5B, 0x22, 0x5C] @ [0]) = ret (r \<noteq> None)"
  by (rule json_validate_decode) simp

end
