(* ===== verification/LuaApi.thy ===== *)
theory LuaApi
  imports LuaValue "HOL-Library.Multiset"
begin

text \<open>
  The part of the Lua 5.3 C API (\<open>deps/lua/lapi.c\<close>, \<open>lvm.c\<close>, \<open>lauxlib.c\<close>) that the LuaDB
  bindings use, as operations on the stack of the running C function.

  \<open>L_stack\<close> is the part of the stack above \<open>ci->func\<close>, top first, so index \<open>-1\<close> is its head.
  Tables live in the heap \<open>G_heap\<close> and are shared by reference. A table is an association
  list of its entries (an entry may hold nil, as in a Lua node), oldest key first. Its array part and
  hash layout are not modelled, so the order in which \<open>lua_next\<close> visits the keys is an arbitrary
  permutation of them, given by the environment. The length of a table is its first border. Garbage collection and stack reallocation have no visible effect, and
  \<open>luaL_checkstack\<close> succeeds. \<open>api_check\<close> failures, which are undefined in C, are faults.

  What is not modelled of Lua is collected in \<open>'d lua_env\<close>: calling a function value, arithmetic
  outside integers, the conversions of a float (type \<open>'d\<close>), and the order of a table's keys.
  A Lua error is the fault \<open>Lua_Error\<close>; LuaDB runs its bindings outside a protected call
  unless said otherwise, where an error aborts the process.
\<close>

subsection \<open>State\<close>

type_synonym lua_Integer = "64 word"

datatype 'd tvalue =
    TNil
  | TBoolean bool
  | TInteger lua_Integer
  | TFloat 'd
  | TString bytes
  | TTable nat
  | TFunction nat
  | TUserdata nat

datatype lua_type =
    LUA_TNONE | LUA_TNIL | LUA_TBOOLEAN | LUA_TNUMBER | LUA_TSTRING | LUA_TTABLE | LUA_TFUNCTION
  | LUA_TUSERDATA

fun ttnov :: "'d tvalue \<Rightarrow> lua_type" where
  "ttnov TNil = LUA_TNIL"
| "ttnov (TBoolean b) = LUA_TBOOLEAN"
| "ttnov (TInteger i) = LUA_TNUMBER"
| "ttnov (TFloat d) = LUA_TNUMBER"
| "ttnov (TString s) = LUA_TSTRING"
| "ttnov (TTable t) = LUA_TTABLE"
| "ttnov (TFunction f) = LUA_TFUNCTION"
| "ttnov (TUserdata u) = LUA_TUSERDATA"

record 'd ltable =
  t_node :: "('d tvalue \<times> 'd tvalue) list"
  t_metatable :: "nat option"

record 'd lua_State =
  L_stack :: "'d tvalue list"
  L_upvalue :: "'d tvalue list"
  G_heap :: "nat \<Rightarrow> 'd ltable option"
  G_next :: nat
  G_mt :: "lua_type \<Rightarrow> nat option"
  G_udmt :: "nat \<Rightarrow> nat option"
  G_registry :: nat
  G_globals :: nat

record 'd lua_env =
  le_call :: "'d tvalue \<Rightarrow> 'd tvalue list \<Rightarrow> 'd lua_State \<Rightarrow> ('d tvalue \<times> 'd lua_State) exec"
  le_arith :: "'d tvalue \<Rightarrow> 'd tvalue \<Rightarrow> 'd tvalue exec"
  le_float_key :: "'d \<Rightarrow> lua_Integer option"
  le_is_nan :: "'d \<Rightarrow> bool"
  le_float_str :: "'d \<Rightarrow> bytes"
  le_pointer :: "'d tvalue \<Rightarrow> bytes"
  le_order :: "'d tvalue list \<Rightarrow> 'd tvalue list"

definition lua_throw :: "string \<Rightarrow> 'a exec" where
  "lua_throw msg = throw (Lua_Error msg)"

subsection \<open>The stack\<close>

definition LUA_REGISTRYINDEX :: int where
  "LUA_REGISTRYINDEX = - 1001000"

definition lua_upvalueindex :: "int \<Rightarrow> int" where
  "lua_upvalueindex i = LUA_REGISTRYINDEX - i"

text \<open>\<open>None\<close> is \<open>NONVALIDVALUE\<close>.\<close>

definition index2addr :: "'d lua_State \<Rightarrow> int \<Rightarrow> ('d tvalue option) exec" where
  "index2addr L idx =
     (let n = length (L_stack L)
      in if 0 < idx then ret (if nat idx \<le> n then Some (L_stack L ! (n - nat idx)) else None)
         else if LUA_REGISTRYINDEX < idx then
           (if idx \<noteq> 0 \<and> nat (- idx) \<le> n then ret (Some (L_stack L ! (nat (- idx) - 1))) else throw Out_Of_Bounds)
         else if idx = LUA_REGISTRYINDEX then ret (Some (TTable (G_registry L)))
         else
           let i = nat (LUA_REGISTRYINDEX - idx)
           in ret (if i \<le> length (L_upvalue L) then Some (L_upvalue L ! (i - 1)) else None))"

definition lua_absindex :: "'d lua_State \<Rightarrow> int \<Rightarrow> int" where
  "lua_absindex L idx =
     (if 0 < idx \<or> idx \<le> LUA_REGISTRYINDEX then idx else int (length (L_stack L)) + 1 + idx)"

definition lua_gettop :: "'d lua_State \<Rightarrow> int" where
  "lua_gettop L = int (length (L_stack L))"

definition lua_settop :: "'d lua_State \<Rightarrow> int \<Rightarrow> 'd lua_State exec" where
  "lua_settop L idx =
     (let s = L_stack L
      in if 0 \<le> idx then
           ret (L\<lparr>L_stack := replicate (nat idx - length s) TNil @ drop (length s - nat idx) s\<rparr>)
         else if nat (- (idx + 1)) \<le> length s then ret (L\<lparr>L_stack := drop (nat (- (idx + 1))) s\<rparr>)
         else throw Out_Of_Bounds)"

definition lua_pop :: "'d lua_State \<Rightarrow> int \<Rightarrow> 'd lua_State exec" where
  "lua_pop L n = lua_settop L (- n - 1)"

definition api_incr_top :: "'d tvalue \<Rightarrow> 'd lua_State \<Rightarrow> 'd lua_State" where
  "api_incr_top v L = L\<lparr>L_stack := v # L_stack L\<rparr>"

definition lua_pushvalue :: "'d lua_State \<Rightarrow> int \<Rightarrow> 'd lua_State exec" where
  "lua_pushvalue L idx =
     xbind (index2addr L idx) (\<lambda>o'. ret (api_incr_top (case o' of Some v \<Rightarrow> v | None \<Rightarrow> TNil) L))"

text \<open>\<open>rotate x n = BA\<close> for \<open>x = AB\<close>, by three reversals of the segment above \<open>idx\<close>.\<close>

definition lua_rotate :: "'d lua_State \<Rightarrow> int \<Rightarrow> int \<Rightarrow> 'd lua_State exec" where
  "lua_rotate L idx n =
     (let s = L_stack L; k = nat (if 0 < idx then int (length s) + 1 - idx else - idx)
      in if k = 0 \<or> length s < k \<or> k < nat \<bar>n\<bar> then throw Out_Of_Bounds
         else
           let seg = rev (take k s);
               m = (if 0 \<le> n then k - nat n else nat (- n));
               seg = rev (take m seg) @ drop m seg;
               seg = take m seg @ rev (drop m seg);
               seg = rev seg
           in ret (L\<lparr>L_stack := rev seg @ drop k s\<rparr>))"

definition lua_remove :: "'d lua_State \<Rightarrow> int \<Rightarrow> 'd lua_State exec" where
  "lua_remove L idx = xbind (lua_rotate L idx (- 1)) (\<lambda>L. lua_pop L 1)"

definition lua_type_of :: "'d lua_State \<Rightarrow> int \<Rightarrow> lua_type exec" where
  "lua_type_of L idx =
     xbind (index2addr L idx) (\<lambda>o'. ret (case o' of Some v \<Rightarrow> ttnov v | None \<Rightarrow> LUA_TNONE))"

definition lua_istable :: "'d lua_State \<Rightarrow> int \<Rightarrow> bool exec" where
  "lua_istable L idx = xbind (lua_type_of L idx) (\<lambda>t. ret (t = LUA_TTABLE))"

definition lua_toboolean :: "'d lua_State \<Rightarrow> int \<Rightarrow> bool exec" where
  "lua_toboolean L idx =
     xbind (index2addr L idx) (\<lambda>o'. ret (case o' of
        Some TNil \<Rightarrow> False | Some (TBoolean b) \<Rightarrow> b | Some _ \<Rightarrow> True | None \<Rightarrow> False))"

subsection \<open>Pushing values\<close>

definition lua_pushnil :: "'d lua_State \<Rightarrow> 'd lua_State" where
  "lua_pushnil L = api_incr_top TNil L"

definition lua_pushnumber :: "'d lua_State \<Rightarrow> 'd \<Rightarrow> 'd lua_State" where
  "lua_pushnumber L n = api_incr_top (TFloat n) L"

definition lua_pushinteger :: "'d lua_State \<Rightarrow> lua_Integer \<Rightarrow> 'd lua_State" where
  "lua_pushinteger L n = api_incr_top (TInteger n) L"

definition lua_pushboolean :: "'d lua_State \<Rightarrow> bool \<Rightarrow> 'd lua_State" where
  "lua_pushboolean L b = api_incr_top (TBoolean b) L"

text \<open>The \<open>len\<close> bytes from a pointer on; no byte is read when \<open>len\<close> is 0.\<close>

definition lua_pushlstring :: "'d lua_State \<Rightarrow> bytes option \<Rightarrow> nat \<Rightarrow> 'd lua_State exec" where
  "lua_pushlstring L s len =
     (if len = 0 then ret (api_incr_top (TString []) L)
      else case s of
        None \<Rightarrow> throw Null_Deref
      | Some s \<Rightarrow>
          if len \<le> length s then ret (api_incr_top (TString (take len s)) L) else throw Out_Of_Bounds)"

definition lua_pushstring :: "'d lua_State \<Rightarrow> bytes option \<Rightarrow> 'd lua_State exec" where
  "lua_pushstring L s =
     (case s of
        None \<Rightarrow> ret (lua_pushnil L)
      | Some s \<Rightarrow> xbind (c_string s) (\<lambda>s. ret (api_incr_top (TString s) L)))"

definition lua_createtable :: "'d lua_State \<Rightarrow> 'd lua_State" where
  "lua_createtable L =
     api_incr_top (TTable (G_next L))
       (L\<lparr>G_heap := (G_heap L)(G_next L \<mapsto> \<lparr>t_node = [], t_metatable = None\<rparr>), G_next := G_next L + 1\<rparr>)"

subsection \<open>Tables\<close>

definition hvalue :: "'d lua_State \<Rightarrow> nat \<Rightarrow> 'd ltable exec" where
  "hvalue L t = (case G_heap L t of None \<Rightarrow> throw Out_Of_Bounds | Some h \<Rightarrow> ret h)"

text \<open>A float key with an integer value is that integer.\<close>

definition norm_key :: "'d lua_env \<Rightarrow> 'd tvalue \<Rightarrow> 'd tvalue" where
  "norm_key E k =
     (case k of
        TFloat d \<Rightarrow> (case le_float_key E d of Some i \<Rightarrow> TInteger i | None \<Rightarrow> k)
      | _ \<Rightarrow> k)"

definition luaH_get :: "'d lua_env \<Rightarrow> 'd ltable \<Rightarrow> 'd tvalue \<Rightarrow> 'd tvalue" where
  "luaH_get E h k = (case map_of (t_node h) (norm_key E k) of Some v \<Rightarrow> v | None \<Rightarrow> TNil)"

fun alist_set :: "'k \<Rightarrow> 'v \<Rightarrow> ('k \<times> 'v) list \<Rightarrow> ('k \<times> 'v) list" where
  "alist_set k v [] = [(k, v)]"
| "alist_set k v (p # ps) = (if fst p = k then (k, v) # ps else p # alist_set k v ps)"

text \<open>A new key may not be nil or NaN.\<close>

definition luaH_set :: "'d lua_env \<Rightarrow> 'd ltable \<Rightarrow> 'd tvalue \<Rightarrow> 'd tvalue \<Rightarrow> 'd ltable exec" where
  "luaH_set E h k v =
     (if k = TNil then lua_throw ''table index is nil''
      else case k of
        TFloat d \<Rightarrow>
          if le_is_nan E d then lua_throw ''table index is NaN''
          else ret (h\<lparr>t_node := alist_set (norm_key E k) v (t_node h)\<rparr>)
      | _ \<Rightarrow> ret (h\<lparr>t_node := alist_set k v (t_node h)\<rparr>))"

text \<open>The first border of the table.\<close>

fun border_from :: "('d tvalue \<times> 'd tvalue) list \<Rightarrow> nat \<Rightarrow> nat \<Rightarrow> nat" where
  "border_from es 0 n = n"
| "border_from es (Suc k) n =
     (case map_of es (TInteger (of_nat (n + 1))) of
        None \<Rightarrow> n
      | Some v \<Rightarrow> if v = TNil then n else border_from es k (n + 1))"

definition luaH_getn :: "'d ltable \<Rightarrow> nat" where
  "luaH_getn h = border_from (t_node h) (length (t_node h)) 0"

text \<open>The metatable field of a value, nil when there is none.\<close>

definition metatable_of :: "'d lua_State \<Rightarrow> 'd tvalue \<Rightarrow> nat option exec" where
  "metatable_of L v =
     (case v of
        TTable t \<Rightarrow> xbind (hvalue L t) (\<lambda>h. ret (t_metatable h))
      | TUserdata u \<Rightarrow> ret (G_udmt L u)
      | _ \<Rightarrow> ret (G_mt L (ttnov v)))"

definition luaT_gettmbyobj :: "'d lua_env \<Rightarrow> 'd lua_State \<Rightarrow> 'd tvalue \<Rightarrow> string \<Rightarrow> 'd tvalue exec" where
  "luaT_gettmbyobj E L v event =
     xbind (metatable_of L v) (\<lambda>mt.
     case mt of
       None \<Rightarrow> ret TNil
     | Some m \<Rightarrow> xbind (hvalue L m) (\<lambda>h. ret (luaH_get E h (TString (str event)))))"

text \<open>A called function has a frame of its own and leaves the caller's alone.\<close>

definition luaD_call ::
  "'d lua_env \<Rightarrow> 'd lua_State \<Rightarrow> 'd tvalue \<Rightarrow> 'd tvalue list \<Rightarrow> ('d tvalue \<times> 'd lua_State) exec" where
  "luaD_call E L f args =
     xbind (le_call E f args (L\<lparr>L_stack := [], L_upvalue := []\<rparr>)) (\<lambda>(r, L').
     ret (r, L'\<lparr>L_stack := L_stack L, L_upvalue := L_upvalue L\<rparr>))"

definition MAXTAGLOOP :: nat where
  "MAXTAGLOOP = 2000"

fun luaV_gettable_loop ::
  "'d lua_env \<Rightarrow> nat \<Rightarrow> 'd lua_State \<Rightarrow> 'd tvalue \<Rightarrow> 'd tvalue \<Rightarrow> ('d tvalue \<times> 'd lua_State) exec" where
  "luaV_gettable_loop E 0 L t key = lua_throw ''gettable chain too long; possible loop''"
| "luaV_gettable_loop E (Suc n) L t key =
     (let continue = (\<lambda>tm. case tm of
            TFunction f \<Rightarrow> luaD_call E L tm [t, key]
          | _ \<Rightarrow> luaV_gettable_loop E n L tm key)
      in case t of
           TTable h \<Rightarrow>
             xbind (hvalue L h) (\<lambda>tab.
             let res = luaH_get E tab key
             in if res \<noteq> TNil then ret (res, L)
                else xbind (luaT_gettmbyobj E L t ''__index'') (\<lambda>tm.
                  if tm = TNil then ret (res, L) else continue tm))
         | _ \<Rightarrow>
             xbind (luaT_gettmbyobj E L t ''__index'') (\<lambda>tm.
             if tm = TNil then lua_throw ''attempt to index a value'' else continue tm))"

definition luaV_gettable ::
  "'d lua_env \<Rightarrow> 'd lua_State \<Rightarrow> 'd tvalue \<Rightarrow> 'd tvalue \<Rightarrow> ('d tvalue \<times> 'd lua_State) exec" where
  "luaV_gettable E L t key = luaV_gettable_loop E MAXTAGLOOP L t key"

definition heap_set :: "'d lua_State \<Rightarrow> nat \<Rightarrow> 'd ltable \<Rightarrow> 'd lua_State" where
  "heap_set L t h = L\<lparr>G_heap := (G_heap L)(t \<mapsto> h)\<rparr>"

fun luaV_settable_loop ::
  "'d lua_env \<Rightarrow> nat \<Rightarrow> 'd lua_State \<Rightarrow> 'd tvalue \<Rightarrow> 'd tvalue \<Rightarrow> 'd tvalue \<Rightarrow> 'd lua_State exec" where
  "luaV_settable_loop E 0 L t key val = lua_throw ''settable chain too long; possible loop''"
| "luaV_settable_loop E (Suc n) L t key val =
     (let continue = (\<lambda>tm. case tm of
            TFunction f \<Rightarrow> xbind (luaD_call E L tm [t, key, val]) (\<lambda>(_, L). ret L)
          | _ \<Rightarrow> luaV_settable_loop E n L tm key val)
      in case t of
           TTable h \<Rightarrow>
             xbind (hvalue L h) (\<lambda>tab.
             xbind (luaT_gettmbyobj E L t ''__newindex'') (\<lambda>tm.
             if luaH_get E tab key \<noteq> TNil \<or> tm = TNil
             then xbind (luaH_set E tab key val) (\<lambda>tab. ret (heap_set L h tab))
             else continue tm))
         | _ \<Rightarrow>
             xbind (luaT_gettmbyobj E L t ''__newindex'') (\<lambda>tm.
             if tm = TNil then lua_throw ''attempt to index a value'' else continue tm))"

definition luaV_settable ::
  "'d lua_env \<Rightarrow> 'd lua_State \<Rightarrow> 'd tvalue \<Rightarrow> 'd tvalue \<Rightarrow> 'd tvalue \<Rightarrow> 'd lua_State exec" where
  "luaV_settable E L t key val = luaV_settable_loop E MAXTAGLOOP L t key val"

subsection \<open>Table access from the stack\<close>

definition value_at :: "'d lua_State \<Rightarrow> int \<Rightarrow> 'd tvalue exec" where
  "value_at L idx = xbind (index2addr L idx) (\<lambda>o'. ret (case o' of Some v \<Rightarrow> v | None \<Rightarrow> TNil))"

text \<open>Replace the value at the top.\<close>

definition set_top :: "'d tvalue \<Rightarrow> 'd lua_State \<Rightarrow> 'd lua_State" where
  "set_top v L = L\<lparr>L_stack := v # tl (L_stack L)\<rparr>"

definition lua_gettable :: "'d lua_env \<Rightarrow> 'd lua_State \<Rightarrow> int \<Rightarrow> (lua_type \<times> 'd lua_State) exec" where
  "lua_gettable E L idx =
     xbind (value_at L idx) (\<lambda>t.
     xbind (value_at L (- 1)) (\<lambda>key.
     xbind (luaV_gettable E L t key) (\<lambda>(v, L). ret (ttnov v, set_top v L))))"

definition lua_getfield :: "'d lua_env \<Rightarrow> 'd lua_State \<Rightarrow> int \<Rightarrow> bytes \<Rightarrow> (lua_type \<times> 'd lua_State) exec" where
  "lua_getfield E L idx k =
     xbind (value_at L idx) (\<lambda>t.
     xbind (luaV_gettable E (api_incr_top (TString k) L) t (TString k)) (\<lambda>(v, L).
     ret (ttnov v, set_top v L)))"

definition lua_getglobal :: "'d lua_env \<Rightarrow> 'd lua_State \<Rightarrow> bytes \<Rightarrow> (lua_type \<times> 'd lua_State) exec" where
  "lua_getglobal E L name =
     xbind (luaV_gettable E (api_incr_top (TString name) L) (TTable (G_globals L)) (TString name)) (\<lambda>(v, L).
     ret (ttnov v, set_top v L))"

definition lua_rawget :: "'d lua_env \<Rightarrow> 'd lua_State \<Rightarrow> int \<Rightarrow> (lua_type \<times> 'd lua_State) exec" where
  "lua_rawget E L idx =
     xbind (value_at L idx) (\<lambda>t.
     xbind (value_at L (- 1)) (\<lambda>key.
     case t of
       TTable h \<Rightarrow> xbind (hvalue L h) (\<lambda>tab. let v = luaH_get E tab key in ret (ttnov v, set_top v L))
     | _ \<Rightarrow> throw Assert_Failed))"

definition lua_settable :: "'d lua_env \<Rightarrow> 'd lua_State \<Rightarrow> int \<Rightarrow> 'd lua_State exec" where
  "lua_settable E L idx =
     xbind (value_at L idx) (\<lambda>t.
     xbind (value_at L (- 2)) (\<lambda>key.
     xbind (value_at L (- 1)) (\<lambda>val.
     xbind (luaV_settable E L t key val) (\<lambda>L. ret (L\<lparr>L_stack := drop 2 (L_stack L)\<rparr>)))))"

definition lua_setfield :: "'d lua_env \<Rightarrow> 'd lua_State \<Rightarrow> int \<Rightarrow> bytes \<Rightarrow> 'd lua_State exec" where
  "lua_setfield E L idx k =
     xbind (value_at L idx) (\<lambda>t.
     xbind (value_at L (- 1)) (\<lambda>val.
     xbind (luaV_settable E (api_incr_top (TString k) L) t (TString k) val) (\<lambda>L.
     ret (L\<lparr>L_stack := drop 2 (L_stack L)\<rparr>))))"

definition lua_setglobal :: "'d lua_env \<Rightarrow> 'd lua_State \<Rightarrow> bytes \<Rightarrow> 'd lua_State exec" where
  "lua_setglobal E L name =
     xbind (value_at L (- 1)) (\<lambda>val.
     xbind (luaV_settable E (api_incr_top (TString name) L) (TTable (G_globals L)) (TString name) val) (\<lambda>L.
     ret (L\<lparr>L_stack := drop 2 (L_stack L)\<rparr>)))"

definition lua_getmetatable :: "'d lua_State \<Rightarrow> int \<Rightarrow> (bool \<times> 'd lua_State) exec" where
  "lua_getmetatable L idx =
     xbind (value_at L idx) (\<lambda>v.
     xbind (metatable_of L v) (\<lambda>mt.
     ret (case mt of None \<Rightarrow> (False, L) | Some m \<Rightarrow> (True, api_incr_top (TTable m) L))))"

definition lua_setmetatable :: "'d lua_State \<Rightarrow> int \<Rightarrow> 'd lua_State exec" where
  "lua_setmetatable L idx =
     xbind (value_at L idx) (\<lambda>obj.
     xbind (value_at L (- 1)) (\<lambda>m.
     xbind (case m of TNil \<Rightarrow> ret None | TTable t \<Rightarrow> ret (Some t) | _ \<Rightarrow> throw Assert_Failed) (\<lambda>mt.
     xbind (case obj of
              TTable t \<Rightarrow> xbind (hvalue L t) (\<lambda>h. ret (heap_set L t (h\<lparr>t_metatable := mt\<rparr>)))
            | TUserdata u \<Rightarrow> ret (L\<lparr>G_udmt := (G_udmt L)(u := mt)\<rparr>)
            | v \<Rightarrow> ret (L\<lparr>G_mt := (G_mt L)(ttnov v := mt)\<rparr>)) (\<lambda>L.
     ret (L\<lparr>L_stack := tl (L_stack L)\<rparr>)))))"

text \<open>The first entry that is left to visit; nil values are skipped.\<close>

fun next_entry :: "('d tvalue \<times> 'd tvalue) list \<Rightarrow> ('d tvalue \<times> 'd tvalue) option" where
  "next_entry [] = None"
| "next_entry (p # ps) = (if snd p = TNil then next_entry ps else Some p)"

text \<open>The entries in the order they are visited, which depends on the keys only: assignments to
  existing keys during a traversal do not disturb it. Every key is visited once, so \<open>le_order\<close> counts
  only where it gives a permutation.\<close>

definition visit_order :: "'d lua_env \<Rightarrow> 'd tvalue list \<Rightarrow> 'd tvalue list" where
  "visit_order E ks = (if mset (le_order E ks) = mset ks then le_order E ks else ks)"

definition traversal :: "'d lua_env \<Rightarrow> ('d tvalue \<times> 'v) list \<Rightarrow> ('d tvalue \<times> 'v) list" where
  "traversal E ps = map (\<lambda>k. (k, the (map_of ps k))) (visit_order E (map fst ps))"

definition luaH_next :: "'d lua_env \<Rightarrow> 'd ltable \<Rightarrow> 'd tvalue \<Rightarrow> (('d tvalue \<times> 'd tvalue) option) exec" where
  "luaH_next E h key =
     (let entries = traversal E (t_node h)
      in if key = TNil then ret (next_entry entries)
         else
           let rest = dropWhile (\<lambda>p. fst p \<noteq> norm_key E key) entries
           in if rest = [] then lua_throw ''invalid key to next'' else ret (next_entry (tl rest)))"

definition lua_next :: "'d lua_env \<Rightarrow> 'd lua_State \<Rightarrow> int \<Rightarrow> (bool \<times> 'd lua_State) exec" where
  "lua_next E L idx =
     xbind (value_at L idx) (\<lambda>t.
     case t of
       TTable h \<Rightarrow>
         xbind (hvalue L h) (\<lambda>tab.
         xbind (value_at L (- 1)) (\<lambda>key.
         xbind (luaH_next E tab key) (\<lambda>r.
         ret (case r of
            None \<Rightarrow> (False, L\<lparr>L_stack := tl (L_stack L)\<rparr>)
          | Some (k, v) \<Rightarrow> (True, L\<lparr>L_stack := v # k # tl (L_stack L)\<rparr>)))))
     | _ \<Rightarrow> throw Assert_Failed)"

definition luaV_objlen :: "'d lua_env \<Rightarrow> 'd lua_State \<Rightarrow> 'd tvalue \<Rightarrow> ('d tvalue \<times> 'd lua_State) exec" where
  "luaV_objlen E L v =
     (case v of
        TString s \<Rightarrow> ret (TInteger (of_nat (length s)), L)
      | TTable t \<Rightarrow>
          xbind (hvalue L t) (\<lambda>h.
          xbind (luaT_gettmbyobj E L v ''__len'') (\<lambda>tm.
          if tm = TNil then ret (TInteger (of_nat (luaH_getn h)), L) else luaD_call E L tm [v, v]))
      | _ \<Rightarrow>
          xbind (luaT_gettmbyobj E L v ''__len'') (\<lambda>tm.
          if tm = TNil then lua_throw ''attempt to get length of a value'' else luaD_call E L tm [v, v]))"

definition lua_len :: "'d lua_env \<Rightarrow> 'd lua_State \<Rightarrow> int \<Rightarrow> 'd lua_State exec" where
  "lua_len E L idx =
     xbind (value_at L idx) (\<lambda>t. xbind (luaV_objlen E L t) (\<lambda>(n, L). ret (api_incr_top n L)))"

text \<open>\<open>lua_arith(L, LUA_OPADD)\<close>: integers wrap around.\<close>

definition lua_arith_add :: "'d lua_env \<Rightarrow> 'd lua_State \<Rightarrow> 'd lua_State exec" where
  "lua_arith_add E L =
     xbind (value_at L (- 2)) (\<lambda>a.
     xbind (value_at L (- 1)) (\<lambda>b.
     xbind (case (a, b) of (TInteger i, TInteger j) \<Rightarrow> ret (TInteger (i + j)) | _ \<Rightarrow> le_arith E a b) (\<lambda>r.
     ret (L\<lparr>L_stack := r # drop 2 (L_stack L)\<rparr>))))"

subsection \<open>Strings\<close>

definition luaO_tostring :: "'d lua_env \<Rightarrow> 'd tvalue \<Rightarrow> bytes" where
  "luaO_tostring E v =
     (case v of TInteger i \<Rightarrow> int_dec (sint i) | TFloat d \<Rightarrow> le_float_str E d | _ \<Rightarrow> [])"

text \<open>The stack slot of an index is overwritten when a number is converted.\<close>

definition set_at :: "'d lua_State \<Rightarrow> int \<Rightarrow> 'd tvalue \<Rightarrow> 'd lua_State" where
  "set_at L idx v =
     (let i = (if 0 < idx then length (L_stack L) - nat idx else nat (- idx) - 1)
      in L\<lparr>L_stack := (L_stack L)[i := v]\<rparr>)"

definition lua_tolstring :: "'d lua_env \<Rightarrow> 'd lua_State \<Rightarrow> int \<Rightarrow> (bytes option \<times> 'd lua_State) exec" where
  "lua_tolstring E L idx =
     xbind (value_at L idx) (\<lambda>v.
     case v of
       TString s \<Rightarrow> ret (Some s, L)
     | TInteger i \<Rightarrow> let s = luaO_tostring E v in ret (Some s, set_at L idx (TString s))
     | TFloat d \<Rightarrow> let s = luaO_tostring E v in ret (Some s, set_at L idx (TString s))
     | _ \<Rightarrow> ret (None, L))"

definition luaL_getmetafield :: "'d lua_env \<Rightarrow> 'd lua_State \<Rightarrow> int \<Rightarrow> bytes \<Rightarrow> (lua_type \<times> 'd lua_State) exec" where
  "luaL_getmetafield E L obj event =
     xbind (lua_getmetatable L obj) (\<lambda>(has, L).
     if \<not> has then ret (LUA_TNIL, L)
     else
       xbind (lua_rawget E (api_incr_top (TString event) L) (- 2)) (\<lambda>(tt, L).
       xbind (if tt = LUA_TNIL then lua_pop L 2 else lua_remove L (- 2)) (\<lambda>L. ret (tt, L))))"

text \<open>\<open>lua_call(L, 1, 1)\<close> and the protected \<open>lua_pcall(L, 1, 1, 0)\<close>: the function lies below its
  argument. A Lua error in a protected call leaves the message, after unwinding the stack.\<close>

definition lua_call_1_1 :: "'d lua_env \<Rightarrow> 'd lua_State \<Rightarrow> 'd lua_State exec" where
  "lua_call_1_1 E L =
     xbind (value_at L (- 2)) (\<lambda>f.
     xbind (value_at L (- 1)) (\<lambda>a.
     xbind (luaD_call E (L\<lparr>L_stack := drop 2 (L_stack L)\<rparr>) f [a]) (\<lambda>(r, L). ret (api_incr_top r L))))"

definition lua_pcall_1_1 :: "'d lua_env \<Rightarrow> 'd lua_State \<Rightarrow> (bool \<times> 'd lua_State) exec" where
  "lua_pcall_1_1 E L =
     (case lua_call_1_1 E L of
        None \<Rightarrow> None
      | Some (Inr L') \<Rightarrow> ret (True, L')
      | Some (Inl (Lua_Error msg)) \<Rightarrow> ret (False, L\<lparr>L_stack := TString (str msg) # drop 2 (L_stack L)\<rparr>)
      | Some (Inl e) \<Rightarrow> throw e)"

definition luaL_callmeta :: "'d lua_env \<Rightarrow> 'd lua_State \<Rightarrow> int \<Rightarrow> bytes \<Rightarrow> (bool \<times> 'd lua_State) exec" where
  "luaL_callmeta E L obj event =
     (let obj = lua_absindex L obj
      in xbind (luaL_getmetafield E L obj event) (\<lambda>(tt, L).
         if tt = LUA_TNIL then ret (False, L)
         else xbind (lua_pushvalue L obj) (\<lambda>L. xbind (lua_call_1_1 E L) (\<lambda>L. ret (True, L)))))"

definition luaL_tolstring :: "'d lua_env \<Rightarrow> 'd lua_State \<Rightarrow> int \<Rightarrow> (bytes option \<times> 'd lua_State) exec" where
  "luaL_tolstring E L idx =
     xbind (luaL_callmeta E L idx (str ''__tostring'')) (\<lambda>(called, L).
     xbind (if called then ret L
            else
              xbind (value_at L idx) (\<lambda>v.
              case v of
                TInteger i \<Rightarrow> ret (api_incr_top (TString (luaO_tostring E v)) L)
              | TFloat d \<Rightarrow> ret (api_incr_top (TString (luaO_tostring E v)) L)
              | TString s \<Rightarrow> lua_pushvalue L idx
              | TBoolean b \<Rightarrow> ret (api_incr_top (TString (if b then str ''true'' else str ''false'')) L)
              | TNil \<Rightarrow> ret (api_incr_top (TString (str ''nil'')) L)
              | _ \<Rightarrow> ret (api_incr_top (TString (le_pointer E v)) L))) (\<lambda>L.
     lua_tolstring E L (- 1)))"

text \<open>Registering C functions, which are numbers, in the table at the top.\<close>

fun luaL_setfuncs :: "'d lua_env \<Rightarrow> 'd lua_State \<Rightarrow> (bytes \<times> nat) list \<Rightarrow> 'd lua_State exec" where
  "luaL_setfuncs E L [] = ret L"
| "luaL_setfuncs E L ((name, func) # l) =
     xbind (lua_setfield E (api_incr_top (TFunction func) L) (- 2) name) (\<lambda>L. luaL_setfuncs E L l)"

end
