(* ===== verification/QueryString.thy ===== *)
theory QueryString
  imports Prelude
begin

text \<open>
  The query string iterator and decoder of \<open>src/src/query.c\<close>. The memory from \<open>qs\<close> on, its
  terminating NUL included, is the list \<open>qi_qs\<close>; the pointers \<open>cur\<close>, \<open>key\<close> and \<open>val\<close> into it
  are offsets, NULL is \<open>None\<close>. Lengths are \<open>size_t\<close>. A \<open>char\<close> is signed, so the sign of
  \<open>HexDigitToDecimal\<close> only matters through the \<open>int\<close> it returns.
\<close>

record QueryIter =
  qi_qs :: bytes
  qi_qslen :: size_t
  qi_cur :: "nat option"
  qi_key :: "nat option"
  qi_keylen :: size_t
  qi_val :: "nat option"
  qi_vallen :: size_t

abbreviation (input) QUERY_STRING_KEY_SEPARATOR :: byte where
  "QUERY_STRING_KEY_SEPARATOR \<equiv> 0x3D"

abbreviation (input) QUERY_STRING_FIELD_SEPARATOR :: byte where
  "QUERY_STRING_FIELD_SEPARATOR \<equiv> 0x26"

abbreviation (input) QUERY_STRING_FIELD_SEPARATOR_BACKUP :: byte where
  "QUERY_STRING_FIELD_SEPARATOR_BACKUP \<equiv> 0x3B"

subsection \<open>The iterator\<close>

text \<open>\<open>strlen\<close>, on the bytes from a pointer on.\<close>

fun strlen :: "bytes \<Rightarrow> size_t exec" where
  "strlen [] = throw Out_Of_Bounds"
| "strlen (c # s) = (if c = 0 then ret 0 else xbind (strlen s) (\<lambda>n. ret (n + 1)))"

text \<open>With a NULL \<open>qs\<close> the iterator is left as it was.\<close>

definition LuaDB_QueryIterInit :: "QueryIter \<Rightarrow> bytes option \<Rightarrow> size_t option \<Rightarrow> QueryIter exec" where
  "LuaDB_QueryIterInit iter qs len =
     (case qs of
        None \<Rightarrow> ret iter
      | Some s \<Rightarrow>
          xbind (case len of Some n \<Rightarrow> ret n | None \<Rightarrow> strlen s) (\<lambda>n.
          ret \<lparr>qi_qs = s, qi_qslen = n, qi_cur = Some 0, qi_key = None, qi_keylen = 0,
               qi_val = None, qi_vallen = 0\<rparr>))"

definition RemainderLength :: "QueryIter \<Rightarrow> nat \<Rightarrow> size_t" where
  "RemainderLength iter field = qi_qslen iter - of_nat field"

text \<open>The scan for the separators: \<open>kvsep\<close>, \<open>fsep\<close> and \<open>onlykey\<close> when the loop ends.\<close>

fun QueryIterNext_scan :: "bytes \<Rightarrow> nat \<Rightarrow> nat option \<Rightarrow> (nat option \<times> nat option \<times> bool) exec" where
  "QueryIterNext_scan [] cur kvsep = throw Out_Of_Bounds"
| "QueryIterNext_scan (c # s) cur kvsep =
     (if c = QUERY_STRING_KEY_SEPARATOR then QueryIterNext_scan s (cur + 1) (Some cur)
      else if c = QUERY_STRING_FIELD_SEPARATOR \<or> c = QUERY_STRING_FIELD_SEPARATOR_BACKUP
        then ret (kvsep, Some cur, kvsep = None)
      else if c = 0 then ret (kvsep, None, False)
      else QueryIterNext_scan s (cur + 1) kvsep)"

text \<open>The result is whether there is a current field, with the iterator.\<close>

definition LuaDB_QueryIterNext :: "QueryIter \<Rightarrow> (bool \<times> QueryIter) exec" where
  "LuaDB_QueryIterNext iter =
     (case qi_cur iter of
        None \<Rightarrow> ret (False, iter)
      | Some cur \<Rightarrow>
          xbind (peek (drop cur (qi_qs iter))) (\<lambda>c.
          if c = 0 then ret (False, iter)
          else
            xbind (QueryIterNext_scan (drop cur (qi_qs iter)) cur None) (\<lambda>(kvsep, fsep, onlykey).
            let iter = iter\<lparr>qi_key := Some cur\<rparr>
            in case kvsep of
                 None \<Rightarrow>
                   ret (True, iter\<lparr>qi_cur := (if onlykey then map_option Suc fsep else None),
                     qi_keylen := (if onlykey then of_nat (the fsep - cur) else RemainderLength iter cur),
                     qi_val := None, qi_vallen := 0\<rparr>)
               | Some kv \<Rightarrow>
                   let iter = iter\<lparr>qi_val := Some (kv + 1), qi_keylen := of_nat (kv - cur)\<rparr>
                   in ret (True, case fsep of
                          None \<Rightarrow> iter\<lparr>qi_cur := None, qi_vallen := RemainderLength iter (kv + 1)\<rparr>
                        | Some f \<Rightarrow> iter\<lparr>qi_cur := Some (f + 1), qi_vallen := of_nat (f - (kv + 1))\<rparr>))))"

subsection \<open>Percent decoding\<close>

definition HexDigitToDecimal :: "byte \<Rightarrow> int" where
  "HexDigitToDecimal hex =
     (if 0x30 \<le> hex \<and> hex \<le> 0x39 then uint hex - 0x30
      else if hex = 0x41 \<or> hex = 0x61 then 10
      else if hex = 0x42 \<or> hex = 0x62 then 11
      else if hex = 0x43 \<or> hex = 0x63 then 12
      else if hex = 0x44 \<or> hex = 0x64 then 13
      else if hex = 0x45 \<or> hex = 0x65 then 14
      else if hex = 0x46 \<or> hex = 0x66 then 15
      else - 1)"

definition HexToAscii :: "byte \<Rightarrow> byte \<Rightarrow> byte" where
  "HexToAscii h0 h1 = of_int (HexDigitToDecimal h0 * 16 + HexDigitToDecimal h1)"

text \<open>The loop of \<open>LuaDB_QueryStrDecode\<close>: \<open>out\<close> is the part of the output written so far and
  \<open>inlen\<close> the size of its block.\<close>

partial_function (option) QueryStrDecode_loop :: "bytes \<Rightarrow> size_t \<Rightarrow> size_t \<Rightarrow> bytes \<Rightarrow> bytes exec" where
  "QueryStrDecode_loop inp inlen i out =
     (if \<not> i < inlen then ret out
      else
        xbind (rd inp i) (\<lambda>c.
        let put = (\<lambda>b. if length out < unat inlen then ret (out @ [b]) else throw Out_Of_Bounds)
        in if c = 0x25 then
             if i + 2 < inlen then
               xbind (rd inp (i + 1)) (\<lambda>h0.
               xbind (rd inp (i + 2)) (\<lambda>h1.
               xbind (put (HexToAscii h0 h1)) (\<lambda>out. QueryStrDecode_loop inp inlen (i + 3) out)))
             else QueryStrDecode_loop inp inlen i out
           else if c = 0x2B then
             xbind (put 0x20) (\<lambda>out. QueryStrDecode_loop inp inlen (i + 1) out)
           else
             xbind (put c) (\<lambda>out. QueryStrDecode_loop inp inlen (i + 1) out)))"

text \<open>The decoded bytes (\<open>*outlen\<close> is their number), or NULL for NULL.\<close>

definition LuaDB_QueryStrDecode :: "bytes option \<Rightarrow> size_t \<Rightarrow> (bytes option) exec" where
  "LuaDB_QueryStrDecode inp inlen =
     (case inp of
        None \<Rightarrow> ret None
      | Some s \<Rightarrow> xbind (QueryStrDecode_loop s inlen 0 []) (\<lambda>out. ret (Some out)))"

definition LuaDB_QueryIterKey :: "QueryIter \<Rightarrow> (bytes option) exec" where
  "LuaDB_QueryIterKey iter =
     LuaDB_QueryStrDecode (map_option (\<lambda>k. drop k (qi_qs iter)) (qi_key iter)) (qi_keylen iter)"

definition LuaDB_QueryIterVal :: "QueryIter \<Rightarrow> (bytes option) exec" where
  "LuaDB_QueryIterVal iter =
     LuaDB_QueryStrDecode (map_option (\<lambda>v. drop v (qi_qs iter)) (qi_val iter)) (qi_vallen iter)"

subsection \<open>What the decoder computes\<close>

text \<open>The decoding of a string, \<open>None\<close> when a percent sign is not followed by two characters.\<close>

fun query_decode :: "bytes \<Rightarrow> bytes option" where
  "query_decode [] = Some []"
| "query_decode (c # s) =
     (if c = 0x25 then
        (case s of a # b # s' \<Rightarrow> map_option (Cons (HexToAscii a b)) (query_decode s') | _ \<Rightarrow> None)
      else map_option (Cons (if c = 0x2B then 0x20 else c)) (query_decode s))"

lemma rd_drop:
  assumes "i < length s" "length s < 2 ^ 64"
  shows "rd (s @ r) (of_nat i) = ret (s ! i)"
  using assms by (simp add: rd_def unat_of_nat_size nth_append)

lemma rd_at:
  assumes "i < n" "n \<le> length s" "n < 2 ^ 64"
  shows "rd s (of_nat i) = ret (s ! i)"
  using assms by (simp add: rd_def unat_of_nat_size)

lemma size_less: "i < 2 ^ 64 \<Longrightarrow> n < 2 ^ 64 \<Longrightarrow> (of_nat i :: size_t) < of_nat n \<longleftrightarrow> i < n"
  by (simp add: word_less_nat_alt unat_of_nat_size)

text \<open>A percent sign with fewer than two characters left is read again and again.\<close>

lemma QueryStrDecode_stuck:
  assumes "QueryStrDecode_loop inp inlen i out = Some y"
  shows "\<not> (i < inlen \<and> \<not> i + 2 < inlen \<and> rd inp i = ret 0x25)"
  using assms
  by - (rule QueryStrDecode_loop.raw_induct
      [where P = "\<lambda>inp inlen i out y. \<not> (i < inlen \<and> \<not> i + 2 < inlen \<and> rd inp i = ret 0x25)"],
    fastforce simp: Let_def, assumption)

lemma QueryStrDecode_loop_decode:
  assumes "n \<le> length s" "n < 2 ^ 63" "i \<le> n" "length out \<le> i"
  shows "QueryStrDecode_loop s (of_nat n) (of_nat i) out
       = (case query_decode (drop i (take n s)) of None \<Rightarrow> None | Some d \<Rightarrow> ret (out @ d))"
  using assms(3,4)
proof (induction "n - i" arbitrary: i out rule: less_induct)
  case less
  let ?L = "QueryStrDecode_loop s (of_nat n)"
  have idx: "(of_nat i :: size_t) + 1 = of_nat (i + 1)" "(of_nat i :: size_t) + 2 = of_nat (i + 2)"
      "(of_nat i :: size_t) + 3 = of_nat (i + 3)"
    by simp_all
  have lt: "(of_nat j :: size_t) < of_nat n \<longleftrightarrow> j < n" if "j \<le> i + 3" for j
    using that less.prems assms(2) by (intro size_less) simp_all
  have un: "unat (of_nat n :: size_t) = n" using assms(2) by (simp add: unat_of_nat_size)
  have rdi: "rd s (of_nat j) = ret (s ! j)" if "j < n" for j
    using that assms by (intro rd_at[of j n]) simp_all
  have dr: "drop j (take n s) = s ! j # drop (j + 1) (take n s)" if "j < n" for j
    using that assms(1) by (subst Cons_nth_drop_Suc[symmetric]) simp_all
  show ?case
  proof (cases "i < n")
    case False
    then show ?thesis using less.prems lt[of i] by (subst QueryStrDecode_loop.simps) simp
  next
    case i: True
    have put: "length out < unat (of_nat n :: size_t)" using i less.prems un by simp
    show ?thesis
    proof (cases "s ! i = 0x25")
      case False
      let ?c = "if s ! i = 0x2B then 0x20 else s ! i"
      have "?L (of_nat i) out = ?L (of_nat (i + 1)) (out @ [?c])"
        using False i lt[of i] rdi[OF i] put by (subst QueryStrDecode_loop.simps) (simp add: Let_def idx)
      also have "\<dots> = (case query_decode (drop (i + 1) (take n s)) of None \<Rightarrow> None | Some d \<Rightarrow> ret ((out @ [?c]) @ d))"
        using i less.prems by (intro less.hyps) simp_all
      finally show ?thesis
        unfolding dr[OF i] using False by (auto split: option.splits)
    next
      case pc: True
      show ?thesis
      proof (cases "i + 2 < n")
        case True
        have r12: "rd s (1 + of_nat i) = ret (s ! (i + 1))" "rd s (2 + of_nat i) = ret (s ! (i + 2))"
          using rdi[of "i + 1"] rdi[of "i + 2"] True by (simp_all add: ac_simps)
        have "?L (of_nat i) out = ?L (of_nat (i + 3)) (out @ [HexToAscii (s ! (i + 1)) (s ! (i + 2))])"
          using pc True i lt[of i] lt[of "i + 2"] rdi[OF i] r12 put
          by (subst QueryStrDecode_loop.simps) (simp add: Let_def ac_simps)
        also have "\<dots> = (case query_decode (drop (i + 3) (take n s)) of None \<Rightarrow> None
            | Some d \<Rightarrow> ret ((out @ [HexToAscii (s ! (i + 1)) (s ! (i + 2))]) @ d))"
          using True less.prems by (intro less.hyps) simp_all
        finally show ?thesis
          using pc dr[OF i] dr[of "i + 1"] dr[of "i + 2"] True by (auto simp: eval_nat_numeral split: option.splits)
      next
        case False
        have st: "(of_nat i :: size_t) < of_nat n" "\<not> (of_nat i :: size_t) + 2 < of_nat n" "rd s (of_nat i) = ret 0x25"
          unfolding idx(2) using i False lt[of i] lt[of "i + 2"] rdi[OF i] pc by simp_all
        have "?L (of_nat i) out = None"
        proof (cases "?L (of_nat i) out")
          case (Some y)
          show ?thesis using QueryStrDecode_stuck[OF Some] st by blast
        qed
        moreover have "query_decode (drop i (take n s)) = None"
          using pc dr[OF i] False dr[of "i + 1"] by (cases "i + 1 < n") (simp_all add: eval_nat_numeral)
        ultimately show ?thesis by simp
      qed
    qed
  qed
qed

subsection \<open>What the iterator computes\<close>

definition is_sep :: "byte \<Rightarrow> bool" where
  "is_sep c \<longleftrightarrow> c = QUERY_STRING_FIELD_SEPARATOR \<or> c = QUERY_STRING_FIELD_SEPARATOR_BACKUP"

text \<open>The field splits at its last equals sign.\<close>

fun last_eq :: "bytes \<Rightarrow> nat option" where
  "last_eq [] = None"
| "last_eq (c # s) =
     (case last_eq s of Some i \<Rightarrow> Some (Suc i)
      | None \<Rightarrow> if c = QUERY_STRING_KEY_SEPARATOR then Some 0 else None)"

definition split_field :: "bytes \<Rightarrow> bytes \<times> bytes option" where
  "split_field f = (case last_eq f of None \<Rightarrow> (f, None) | Some i \<Rightarrow> (take i f, Some (drop (Suc i) f)))"

lemma last_eq_less: "last_eq f = Some i \<Longrightarrow> i < length f"
  by (induction f arbitrary: i) (auto split: option.splits if_splits)

lemma QueryIterNext_scan_field:
  "\<forall>c \<in> set f. \<not> is_sep c \<and> c \<noteq> 0 \<Longrightarrow> QueryIterNext_scan (f @ s) cur kv
     = QueryIterNext_scan s (cur + length f) (case last_eq f of Some i \<Rightarrow> Some (cur + i) | None \<Rightarrow> kv)"
  by (induction f arbitrary: cur kv) (auto simp: is_sep_def split: option.splits)

text \<open>The bytes an iterator's key and value pointers select.\<close>

definition qi_slice :: "QueryIter \<Rightarrow> nat \<Rightarrow> size_t \<Rightarrow> bytes" where
  "qi_slice iter p n = take (unat n) (drop p (qi_qs iter))"

definition current_field :: "QueryIter \<Rightarrow> bytes \<times> bytes option" where
  "current_field iter =
     (qi_slice iter (the (qi_key iter)) (qi_keylen iter),
      map_option (\<lambda>v. qi_slice iter v (qi_vallen iter)) (qi_val iter))"

text \<open>An iterator that stands at the text \<open>t\<close> of its query string, which may have been followed
  by the separator that ended the previous field.\<close>

definition stands_at :: "QueryIter \<Rightarrow> bytes \<Rightarrow> bool" where
  "stands_at iter t \<longleftrightarrow>
     (\<exists>u r. qi_qs iter = u @ t @ 0 # r \<and> qi_qslen iter = of_nat (length u + length t)
        \<and> length u + length t < 2 ^ 63 \<and> 0 \<notin> set t
        \<and> qi_cur iter = Some (length u))
     \<or> t = [] \<and> qi_cur iter = None"

lemma stands_at_end:
  "stands_at iter [] \<Longrightarrow> LuaDB_QueryIterNext iter = ret (False, iter)"
  by (auto simp: stands_at_def LuaDB_QueryIterNext_def)

lemma unat_len: "n < 2 ^ 63 \<Longrightarrow> unat (of_nat n :: size_t) = n"
  by (simp add: unat_of_nat_size)

lemma of_nat_diff_size: "a \<le> b \<Longrightarrow> (of_nat b :: size_t) - of_nat a = of_nat (b - a)"
  by (simp add: of_nat_diff)

text \<open>A field with its separator, or the last field.\<close>

lemma QueryIterNext_field:
  assumes "stands_at iter (f @ s)" "f @ s \<noteq> []" "\<forall>c \<in> set f. \<not> is_sep c" "s = [] \<or> is_sep (hd s)"
  shows "\<exists>iter'. LuaDB_QueryIterNext iter = ret (True, iter') \<and> current_field iter' = split_field f
       \<and> stands_at iter' (tl s) \<and> qi_key iter' \<noteq> None \<and> unat (qi_keylen iter') = length (fst (split_field f))
       \<and> (\<forall>v. qi_val iter' = Some v \<longrightarrow> unat (qi_vallen iter') = length (the (snd (split_field f))))
       \<and> qi_qs iter' = qi_qs iter"
proof -
  obtain u r where u: "qi_qs iter = u @ (f @ s) @ 0 # r" "qi_qslen iter = of_nat (length u + length (f @ s))"
      "length u + length (f @ s) < 2 ^ 63" "0 \<notin> set (f @ s)" "qi_cur iter = Some (length u)"
    using assms(1,2) unfolding stands_at_def by blast
  let ?n = "length u"
  have d: "drop ?n (qi_qs iter) = f @ s @ 0 # r" using u(1) by simp
  have scan: "QueryIterNext_scan (f @ s @ 0 # r) ?n None
      = (let kv = map_option ((+) ?n) (last_eq f)
         in ret (kv, if s = [] then None else Some (?n + length f), s \<noteq> [] \<and> kv = None))"
    using u(4) assms(3,4) by (subst QueryIterNext_scan_field)
      (cases s; auto simp: is_sep_def Let_def split: option.splits)+
  obtain c where pk: "peek (f @ s @ 0 # r) = ret c" "c \<noteq> 0"
    using u(4) assms(2) by (cases f; cases s) auto
  have rest: "stands_at (iter\<lparr>qi_cur := Some (?n + length f + 1), qi_key := a, qi_keylen := b, qi_val := v, qi_vallen := w\<rparr>) (tl s)"
    if "s \<noteq> []" for a b v w
  proof -
    have s: "s = hd s # tl s" using that by simp
    have "qi_qs iter = (u @ f @ [hd s]) @ tl s @ 0 # r" using u(1) s by (metis append.assoc append_Cons append_Nil)
    moreover have "length u + length (f @ s) = length (u @ f @ [hd s]) + length (tl s)"
      by (subst s) (simp only: length_append list.size)
    moreover have "0 \<notin> set (tl s)" using u(4) s by (metis Un_iff list.set_intros(2) set_append)
    ultimately show ?thesis
      unfolding stands_at_def using u(2,3) by (intro disjI1 exI[of _ "u @ f @ [hd s]"] exI[of _ r]) simp
  qed
  have last: "stands_at (iter\<lparr>qi_cur := None, qi_key := a, qi_keylen := b, qi_val := v, qi_vallen := w\<rparr>) (tl s)"
    if "s = []" for a b v w
    using that by (simp add: stands_at_def)
  show ?thesis
  proof (cases "last_eq f")
    case None
    let ?i = "iter\<lparr>qi_cur := if s \<noteq> [] then Some (?n + length f + 1) else None, qi_key := Some ?n,
      qi_keylen := of_nat (length f), qi_val := None, qi_vallen := 0\<rparr>"
    have "LuaDB_QueryIterNext iter = ret (True, ?i)"
      using u pk d scan None
      by (cases "s = []") (simp_all add: LuaDB_QueryIterNext_def RemainderLength_def Let_def of_nat_diff_size)
    moreover have "current_field ?i = split_field f"
      using None u(1,3) by (simp add: current_field_def qi_slice_def split_field_def unat_len)
    ultimately show ?thesis
      using rest last None u(3) by (intro exI[of _ ?i]) (simp add: split_field_def unat_len)
  next
    case (Some i)
    have i: "i < length f" using last_eq_less[OF Some] .
    let ?v = "?n + i + 1"
    let ?i = "iter\<lparr>qi_cur := if s \<noteq> [] then Some (?n + length f + 1) else None, qi_key := Some ?n,
      qi_keylen := of_nat i, qi_val := Some ?v, qi_vallen := of_nat (length f - (i + 1))\<rparr>"
    have rem: "(of_nat (?n + length f) :: size_t) - of_nat (?n + i + 1) = of_nat (length f - (i + 1))"
      using i by (subst of_nat_diff_size) simp_all
    have "LuaDB_QueryIterNext iter = ret (True, ?i)"
    proof (cases "s = []")
      case True
      then show ?thesis
        using u(2,5) pk d scan Some rem
        by (simp add: LuaDB_QueryIterNext_def RemainderLength_def Let_def del: of_nat_add of_nat_Suc)
    next
      case False
      then show ?thesis
        using u(5) pk d scan Some
        by (simp add: LuaDB_QueryIterNext_def Let_def del: of_nat_add of_nat_Suc)
    qed
    moreover have "current_field ?i = split_field f"
      using Some i u(1,3) by (simp add: current_field_def qi_slice_def split_field_def unat_len del: of_nat_diff of_nat_Suc)
    ultimately show ?thesis
      using rest last Some i u(3) by (intro exI[of _ ?i]) (simp add: split_field_def unat_len del: of_nat_diff of_nat_Suc)
  qed
qed

text \<open>The fields of a query string: a separator at the very end starts no field.\<close>

function query_fields :: "bytes \<Rightarrow> bytes list" where
  "query_fields s =
     (if s = [] then []
      else takeWhile (\<lambda>c. \<not> is_sep c) s # query_fields (tl (dropWhile (\<lambda>c. \<not> is_sep c) s)))"
  by pat_completeness auto
termination
proof (relation "measure length")
  fix s :: bytes assume "s \<noteq> []"
  moreover have "length (dropWhile (\<lambda>c. \<not> is_sep c) s) \<le> length s" by (rule length_dropWhile_le)
  ultimately have "length (dropWhile (\<lambda>c. \<not> is_sep c) s) - 1 < length s"
    using length_greater_0_conv[of s] by linarith
  then show "(tl (dropWhile (\<lambda>c. \<not> is_sep c) s), s) \<in> measure length" by simp
qed simp

declare query_fields.simps [simp del]

text \<open>The loop of every client: \<open>while (LuaDB_QueryIterNext(&iter)) ...\<close>, collecting the fields.\<close>

partial_function (option) QueryIter_all :: "QueryIter \<Rightarrow> ((bytes \<times> bytes option) list) exec" where
  "QueryIter_all iter =
     xbind (LuaDB_QueryIterNext iter) (\<lambda>(more, iter).
     if more then xbind (QueryIter_all iter) (\<lambda>fs. ret (current_field iter # fs)) else ret [])"

lemma QueryIterNext_step:
  assumes "stands_at iter s" "s \<noteq> []"
  shows "\<exists>iter'. LuaDB_QueryIterNext iter = ret (True, iter')
       \<and> current_field iter' = split_field (takeWhile (\<lambda>c. \<not> is_sep c) s)
       \<and> stands_at iter' (tl (dropWhile (\<lambda>c. \<not> is_sep c) s))"
proof -
  let ?f = "takeWhile (\<lambda>c. \<not> is_sep c) s" and ?s = "dropWhile (\<lambda>c. \<not> is_sep c) s"
  have "\<forall>c \<in> set ?f. \<not> is_sep c" by (auto dest: set_takeWhileD)
  moreover have "?s = [] \<or> is_sep (hd ?s)" using hd_dropWhile[of "\<lambda>c. \<not> is_sep c" s] by auto
  ultimately show ?thesis using QueryIterNext_field[of iter ?f ?s] assms by auto
qed

text \<open>A field with its key and value decoded.\<close>

definition decode_field :: "bytes \<times> bytes option \<Rightarrow> (bytes \<times> bytes option) option" where
  "decode_field kv =
     (case query_decode (fst kv) of
        None \<Rightarrow> None
      | Some k \<Rightarrow>
          (case snd kv of None \<Rightarrow> Some (k, None) | Some v \<Rightarrow> map_option (\<lambda>v. (k, Some v)) (query_decode v)))"

lemma QueryIter_slice_decode:
  assumes "qi_slice iter p n = bs" "unat n = length bs" "length bs < 2 ^ 63" "query_decode bs = Some d"
  shows "LuaDB_QueryStrDecode (Some (drop p (qi_qs iter))) n = ret (Some d)"
proof -
  have n: "n = of_nat (length bs)" unfolding assms(2)[symmetric] by simp
  have "length (take (unat n) (drop p (qi_qs iter))) = unat n" using assms(1,2) by (simp add: qi_slice_def)
  then have "length bs \<le> length (drop p (qi_qs iter))" using assms(2) by (simp add: min_def split: if_splits)
  then show ?thesis
    using QueryStrDecode_loop_decode[of "length bs" "drop p (qi_qs iter)" 0 "[]"] assms n
    by (simp add: LuaDB_QueryStrDecode_def qi_slice_def)
qed

lemma split_field_length:
  "length (fst (split_field f)) \<le> length f" "snd (split_field f) = Some v \<Longrightarrow> length v \<le> length f"
  by (auto simp: split_field_def split: option.splits)

lemma QueryIterNext_decoded:
  assumes "stands_at iter s" "s \<noteq> []" "decode_field (split_field (takeWhile (\<lambda>c. \<not> is_sep c) s)) = Some (k, v)"
  shows "\<exists>iter'. LuaDB_QueryIterNext iter = ret (True, iter')
       \<and> LuaDB_QueryIterKey iter' = ret (Some k) \<and> LuaDB_QueryIterVal iter' = ret v
       \<and> stands_at iter' (tl (dropWhile (\<lambda>c. \<not> is_sep c) s))"
proof -
  let ?f = "takeWhile (\<lambda>c. \<not> is_sep c) s" and ?s = "dropWhile (\<lambda>c. \<not> is_sep c) s"
  have "\<forall>c \<in> set ?f. \<not> is_sep c" by (auto dest: set_takeWhileD)
  moreover have "?s = [] \<or> is_sep (hd ?s)" using hd_dropWhile[of "\<lambda>c. \<not> is_sep c" s] by auto
  ultimately obtain iter' where i: "LuaDB_QueryIterNext iter = ret (True, iter')"
      "current_field iter' = split_field ?f" "stands_at iter' (tl ?s)" "qi_key iter' \<noteq> None"
      "unat (qi_keylen iter') = length (fst (split_field ?f))"
      "\<forall>v. qi_val iter' = Some v \<longrightarrow> unat (qi_vallen iter') = length (the (snd (split_field ?f)))"
    using QueryIterNext_field[of iter ?f ?s] assms(1,2) by auto
  have len: "length ?f < 2 ^ 63"
    using assms(1,2) length_takeWhile_le[of "\<lambda>c. \<not> is_sep c" s] by (auto simp: stands_at_def)
  obtain p where p: "qi_key iter' = Some p" using i(4) by blast
  have kd: "query_decode (fst (split_field ?f)) = Some k" using assms(3) by (auto simp: decode_field_def split: option.splits)
  have key: "LuaDB_QueryIterKey iter' = ret (Some k)"
  proof -
    have "qi_slice iter' p (qi_keylen iter') = fst (split_field ?f)"
      using i(2) p by (simp add: current_field_def flip: i(2))
    moreover have "length (fst (split_field ?f)) < 2 ^ 63" using split_field_length(1)[of ?f] len by linarith
    ultimately show ?thesis
      using QueryIter_slice_decode[OF _ i(5) _ kd] p by (simp add: LuaDB_QueryIterKey_def)
  qed
  have "LuaDB_QueryIterVal iter' = ret v"
  proof (cases "qi_val iter'")
    case None
    then have "snd (split_field ?f) = None" using i(2) by (auto simp: current_field_def prod_eq_iff)
    then show ?thesis
      using None assms(3) kd by (auto simp: LuaDB_QueryIterVal_def LuaDB_QueryStrDecode_def decode_field_def)
  next
    case (Some q)
    define w where "w = qi_slice iter' q (qi_vallen iter')"
    have w: "snd (split_field ?f) = Some w" "qi_slice iter' q (qi_vallen iter') = w"
      using Some by (simp_all add: w_def current_field_def flip: i(2))
    then obtain d where d: "query_decode w = Some d" "v = Some d"
      using assms(3) kd by (auto simp: decode_field_def)
    have "unat (qi_vallen iter') = length w" "length w < 2 ^ 63"
      using i(6) Some w(1) split_field_length(2)[OF w(1)] len by auto
    then show ?thesis
      using QueryIter_slice_decode[OF w(2) _ _ d(1)] Some d(2) by (simp add: LuaDB_QueryIterVal_def)
  qed
  then show ?thesis using i(1,3) key by blast
qed

lemma QueryIter_all_fields:
  "stands_at iter s \<Longrightarrow> QueryIter_all iter = ret (map split_field (query_fields s))"
proof (induction s arbitrary: iter rule: query_fields.induct)
  case (1 s)
  show ?case
  proof (cases "s = []")
    case True
    then show ?thesis using stands_at_end 1(2) by (subst QueryIter_all.simps) (simp add: query_fields.simps)
  next
    case False
    then obtain iter' where "LuaDB_QueryIterNext iter = ret (True, iter')"
        "current_field iter' = split_field (takeWhile (\<lambda>c. \<not> is_sep c) s)"
        "stands_at iter' (tl (dropWhile (\<lambda>c. \<not> is_sep c) s))"
      using QueryIterNext_step[OF 1(2)] by blast
    then show ?thesis
      using 1(1)[OF False] False by (subst QueryIter_all.simps) (simp add: query_fields.simps[of s])
  qed
qed

lemma strlen_C: "0 \<notin> set s \<Longrightarrow> strlen (s @ 0 # r) = ret (of_nat (length s))"
  by (induction s) (auto simp: add.commute)

lemma QueryIterInit_stands:
  assumes "0 \<notin> set s" "length s < 2 ^ 63"
  shows "\<exists>iter'. LuaDB_QueryIterInit iter (Some (s @ 0 # r)) None = ret iter' \<and> stands_at iter' s"
  using assms strlen_C[OF assms(1)] by (force simp: LuaDB_QueryIterInit_def stands_at_def)

subsection \<open>Properties\<close>

text \<open>C31: the iterator enumerates the query string: started on a C string, the client's loop ends
  after one round per field and sees, in order, every field between the separators \<open>&\<close> and \<open>;\<close>
  split into key and value at its last equals sign; a field without one has no value, and a
  separator at the end adds no field.\<close>

theorem query_iterator_fields:
  assumes "0 \<notin> set s" "length s < 2 ^ 63"
  shows "xbind (LuaDB_QueryIterInit iter (Some (s @ 0 # r)) None) QueryIter_all
       = ret (map split_field (query_fields s))"
  using QueryIterInit_stands[OF assms, of iter r] QueryIter_all_fields by auto

theorem query_iterator_fields_witness:
  "xbind (LuaDB_QueryIterInit \<lparr>qi_qs = [], qi_qslen = 0, qi_cur = None, qi_key = None, qi_keylen = 0, qi_val = None, qi_vallen = 0\<rparr>
     (Some ([0x61, 0x3D, 0x31, 0x26, 0x62] @ 0 # [])) None) QueryIter_all
     = ret [([0x61], Some [0x31]), ([0x62], None)]"
proof -
  have "map split_field (query_fields [0x61, 0x3D, 0x31, 0x26, 0x62]) = [([0x61], Some [0x31]), ([0x62], None)]"
    by (simp add: query_fields.simps is_sep_def split_field_def)
  then show ?thesis
    using query_iterator_fields[of "[0x61, 0x3D, 0x31, 0x26, 0x62]" _ "[]"] by simp
qed

text \<open>C32: \<open>LuaDB_QueryStrDecode\<close> returns the decoded bytes exactly when every percent sign among the
  \<open>n\<close> bytes is followed by two of them, and then stays inside both buffers; on a truncated escape
  (\<open>"%"\<close> or \<open>"%4"\<close> at the end) the loop index never moves and the call does not return.\<close>

theorem QueryStrDecode_decodes:
  assumes "n \<le> length s" "n < 2 ^ 63"
  shows "LuaDB_QueryStrDecode (Some s) (of_nat n)
       = (case query_decode (take n s) of None \<Rightarrow> None | Some d \<Rightarrow> ret (Some d))"
  using QueryStrDecode_loop_decode[OF assms, of 0 "[]"]
  by (simp add: LuaDB_QueryStrDecode_def split: option.splits)

theorem QueryStrDecode_decodes_witness:
  "LuaDB_QueryStrDecode (Some [0x61, 0x25, 0x34, 0]) (of_nat 3) = None"
proof -
  have "query_decode (take 3 [0x61, 0x25, 0x34, 0]) = None" by code_simp
  then show ?thesis by (subst QueryStrDecode_decodes) simp_all
qed

text \<open>Percent encoding of every byte.\<close>

definition hex_digit_lower :: "nat \<Rightarrow> byte" where
  "hex_digit_lower n = (if n < 10 then of_nat (48 + n) else of_nat (87 + n))"

definition percent_encode :: "bytes \<Rightarrow> bytes" where
  "percent_encode s = concat (map (\<lambda>c. [0x25, hex_digit_lower (unat c div 16), hex_digit_lower (unat c mod 16)]) s)"

lemma HexDigitToDecimal_hex: "n < 16 \<Longrightarrow> HexDigitToDecimal (hex_digit_lower n) = int n"
proof -
  assume "n < 16"
  moreover have "list_all (\<lambda>n. HexDigitToDecimal (hex_digit_lower n) = int n) [0..<16]" by code_simp
  ultimately show ?thesis by (simp add: list_all_iff)
qed

lemma HexToAscii_hex: "HexToAscii (hex_digit_lower (unat c div 16)) (hex_digit_lower (unat c mod 16)) = c"
proof -
  have "unat c < 256" using unsigned_less[of c] by simp
  then have "HexToAscii (hex_digit_lower (unat c div 16)) (hex_digit_lower (unat c mod 16))
      = of_int (int (unat c div 16) * 16 + int (unat c mod 16))"
    by (simp add: HexToAscii_def HexDigitToDecimal_hex less_mult_imp_div_less)
  also have "int (unat c div 16) * 16 + int (unat c mod 16) = int (unat c)"
    by (metis div_mult_mod_eq of_nat_add of_nat_mult of_nat_numeral)
  finally show ?thesis by simp
qed

lemma query_decode_percent: "query_decode (percent_encode s) = Some s"
  by (induction s) (simp_all add: percent_encode_def HexToAscii_hex)

text \<open>C33: decoding undoes percent encoding, for every byte.\<close>

theorem QueryStrDecode_roundtrip:
  assumes "3 * length s < 2 ^ 63"
  shows "LuaDB_QueryStrDecode (Some (percent_encode s @ r)) (of_nat (3 * length s)) = ret (Some s)"
proof -
  have l: "length (percent_encode s) = 3 * length s"
    by (induction s) (simp_all add: percent_encode_def)
  then show ?thesis
    using QueryStrDecode_loop_decode[of "3 * length s" "percent_encode s @ r" 0 "[]"] assms
    by (simp add: LuaDB_QueryStrDecode_def query_decode_percent del: of_nat_mult)
qed

theorem QueryStrDecode_roundtrip_witness:
  "LuaDB_QueryStrDecode (Some (percent_encode [0xE2, 0x82, 0xAC] @ [0])) (of_nat (3 * length [0xE2, 0x82, 0xAC :: byte]))
     = ret (Some [0xE2, 0x82, 0xAC])"
  by (rule QueryStrDecode_roundtrip) simp

end
