(* ===== verification/FcgiStream.thy ===== *)
theory FcgiStream
  imports Prelude
begin

text \<open>
  The byte streams of the FastCGI library (\<open>deps/fcgi/fcgiapp.c\<close>, lines 96 to 383 and 1384 to 1430)
  that \<open>fcgi.c\<close> reads the request body from and writes the response to.

  A stream is its buffer with the offsets \<open>rdNext\<close>, \<open>stop\<close> and \<open>stopUnget\<close> (reader) or
  \<open>wrNext\<close> and \<open>stop\<close> (writer), offset 0 being \<open>data->buff\<close>. The callback \<open>fillBuffProc\<close> of a reader is
  represented by the buffers it is going to deliver (\<open>fs_more\<close>), after which it closes the stream. The callback
  of a writer is \<open>EmptyBuffProc\<close>: it makes a FastCGI record of the buffer and writes it to the connection, where
  \<open>fs_wire\<close> is what was written. \<open>fs_conn\<close> is the connection: it takes everything (\<open>None\<close>), or so many
  more bytes until \<open>OS_Write\<close> fails with an error number. A failure closes the stream.

  The locale \<open>byte_source\<close> is the contract of a reader: \<open>get n\<close> takes the next \<open>n\<close> bytes of
  the content, fewer only at its end.
\<close>

record FCGX_Stream =
  fs_buf :: bytes
  fs_rdNext :: nat
  fs_wrNext :: nat
  fs_stop :: nat
  fs_stopUnget :: nat
  fs_isReader :: bool
  fs_isClosed :: bool
  fs_errno :: int             \<comment> \<open>\<open>FCGI_errno\<close>\<close>
  fs_type :: byte             \<comment> \<open>\<open>data->type\<close>\<close>
  fs_requestId :: "32 word"   \<comment> \<open>\<open>data->reqDataPtr->requestId\<close>\<close>
  fs_more :: "bytes list"
  fs_conn :: "(nat \<times> int) option"
  fs_wire :: bytes

definition FCGI_MAX_LENGTH :: nat where "FCGI_MAX_LENGTH = 0xFFFF"
definition FCGI_HEADER_LEN :: nat where "FCGI_HEADER_LEN = 8"

definition AlignInt8 :: "nat \<Rightarrow> nat" where
  "AlignInt8 n = (n + 7) div 8 * 8"

text \<open>
  \<open>NewStream\<close>, for a buffer that \<open>malloc\<close> returned at a multiple of 8 or not; \<open>junk\<close> is what it left there.
\<close>

definition NewStream ::
    "(nat \<Rightarrow> byte) \<Rightarrow> bool \<Rightarrow> bytes list \<Rightarrow> (nat \<times> int) option \<Rightarrow> 32 word \<Rightarrow> int \<Rightarrow> bool \<Rightarrow> byte \<Rightarrow> FCGX_Stream" where
  "NewStream junk aligned input conn requestId bufflen isReader streamType =
     (let bufflen = AlignInt8 (nat (min (max bufflen 32) (int FCGI_MAX_LENGTH + 1)));
          bufflen = (if aligned then bufflen else bufflen - 8)
      in \<lparr>fs_buf = map junk [0..<bufflen],
          fs_rdNext = (if isReader then 0 else bufflen),
          fs_wrNext = (if isReader then 0 else FCGI_HEADER_LEN),
          fs_stop = (if isReader then 0 else bufflen),
          fs_stopUnget = 0, fs_isReader = isReader, fs_isClosed = False, fs_errno = 0,
          fs_type = streamType, fs_requestId = requestId, fs_more = input, fs_conn = conn, fs_wire = []\<rparr>)"

subsection \<open>The callbacks\<close>

definition fillBuffProc :: "FCGX_Stream \<Rightarrow> FCGX_Stream" where
  "fillBuffProc s =
     (case fs_more s of
        [] \<Rightarrow> s\<lparr>fs_isClosed := True\<rparr>
      | b # bs \<Rightarrow> s\<lparr>fs_buf := b, fs_rdNext := 0, fs_stop := length b, fs_more := bs\<rparr>)"

definition put_bytes :: "bytes \<Rightarrow> FCGX_Stream \<Rightarrow> FCGX_Stream exec" where
  "put_bytes bs s =
     (if fs_wrNext s + length bs \<le> length (fs_buf s)
      then ret (s\<lparr>fs_buf := take (fs_wrNext s) (fs_buf s) @ bs @ drop (fs_wrNext s + length bs) (fs_buf s),
                  fs_wrNext := fs_wrNext s + length bs\<rparr>)
      else throw Out_Of_Bounds)"

definition SetError :: "FCGX_Stream \<Rightarrow> int \<Rightarrow> FCGX_Stream" where
  "SetError s e = s\<lparr>fs_errno := (if fs_errno s = 0 then e else fs_errno s), fs_isClosed := True\<rparr>"

definition MakeHeader :: "byte \<Rightarrow> 32 word \<Rightarrow> nat \<Rightarrow> nat \<Rightarrow> bytes exec" where
  "MakeHeader type requestId contentLength paddingLength =
     (if contentLength \<le> FCGI_MAX_LENGTH \<and> paddingLength \<le> 0xFF
      then ret [1, type, ucast (drop_bit 8 requestId), ucast requestId,
                of_nat (contentLength div 256), of_nat contentLength, of_nat paddingLength, 0]
      else throw Assert_Failed)"

text \<open>The error of the connection, if there is one; what was written before it stays written.\<close>

definition write_it_all :: "bytes \<Rightarrow> FCGX_Stream \<Rightarrow> int option \<times> FCGX_Stream" where
  "write_it_all buf s =
     (case fs_conn s of
        None \<Rightarrow> (None, s\<lparr>fs_wire := fs_wire s @ buf\<rparr>)
      | Some (n, e) \<Rightarrow>
          if length buf \<le> n then (None, s\<lparr>fs_wire := fs_wire s @ buf, fs_conn := Some (n - length buf, e)\<rparr>)
          else (Some e, s\<lparr>fs_wire := fs_wire s @ take n buf, fs_conn := Some (0, e)\<rparr>))"

text \<open>
  \<open>EmptyBuffProc\<close> with \<open>doClose\<close> false, as all writes call it. \<open>rawWrite\<close> is set only when the stream is
  closed, and \<open>isAnythingWritten\<close> is read only then.
\<close>

definition EmptyBuffProc :: "FCGX_Stream \<Rightarrow> FCGX_Stream exec" where
  "EmptyBuffProc s =
     (let cLen = int (fs_wrNext s) - int FCGI_HEADER_LEN
      in xbind (if 0 < cLen then
                  let cLen = nat cLen; eLen = AlignInt8 cLen
                  in xbind (put_bytes (replicate (eLen - cLen) 0) s) (\<lambda>s.
                     xbind (MakeHeader (fs_type s) (fs_requestId s) cLen (eLen - cLen)) (\<lambda>header.
                     if length header \<le> length (fs_buf s)
                     then ret (s\<lparr>fs_buf := header @ drop (length header) (fs_buf s)\<rparr>)
                     else throw Out_Of_Bounds))
                else ret (s\<lparr>fs_wrNext := 0\<rparr>)) (\<lambda>s.
         if fs_wrNext s \<noteq> 0 then
           case write_it_all (take (fs_wrNext s) (fs_buf s)) s of
             (Some e, s) \<Rightarrow> ret (SetError s e)
           | (None, s) \<Rightarrow> ret (s\<lparr>fs_wrNext := FCGI_HEADER_LEN\<rparr>)
         else ret (s\<lparr>fs_wrNext := fs_wrNext s + FCGI_HEADER_LEN\<rparr>)))"

subsection \<open>Reading\<close>

text \<open>\<open>None\<close> is \<open>EOF\<close>.\<close>

definition FCGX_GetChar :: "FCGX_Stream \<Rightarrow> (byte option \<times> FCGX_Stream) exec" where
  "FCGX_GetChar s =
     (if fs_isClosed s \<or> \<not> fs_isReader s then ret (None, s)
      else if fs_rdNext s \<noteq> fs_stop s then
        xbind (peek (drop (fs_rdNext s) (fs_buf s))) (\<lambda>c. ret (Some c, s\<lparr>fs_rdNext := fs_rdNext s + 1\<rparr>))
      else
        let s = fillBuffProc s
        in if fs_isClosed s then ret (None, s)
           else
             let s = s\<lparr>fs_stopUnget := fs_rdNext s\<rparr>
             in if fs_rdNext s \<noteq> fs_stop s then
                  xbind (peek (drop (fs_rdNext s) (fs_buf s))) (\<lambda>c. ret (Some c, s\<lparr>fs_rdNext := fs_rdNext s + 1\<rparr>))
                else throw Assert_Failed)"

text \<open>\<open>memcpy(str, stream->rdNext, m); stream->rdNext += m\<close>, appending to the bytes copied so far.\<close>

definition take_bytes :: "bytes \<Rightarrow> nat \<Rightarrow> FCGX_Stream \<Rightarrow> (bytes \<times> FCGX_Stream) exec" where
  "take_bytes out m s =
     (if fs_rdNext s + m \<le> length (fs_buf s)
      then ret (out @ take m (drop (fs_rdNext s) (fs_buf s)), s\<lparr>fs_rdNext := fs_rdNext s + m\<rparr>)
      else throw Out_Of_Bounds)"

partial_function (option) FCGX_GetStr_loop :: "bytes \<Rightarrow> nat \<Rightarrow> FCGX_Stream \<Rightarrow> (bytes \<times> FCGX_Stream) exec" where
  "FCGX_GetStr_loop out n s =
     xbind (if fs_rdNext s \<noteq> fs_stop s
            then take_bytes out (min (n - length out) (fs_stop s - fs_rdNext s)) s else ret (out, s)) (\<lambda>(out', s').
     if fs_rdNext s \<noteq> fs_stop s \<and> length out' = n then ret (out', s')
     else if fs_isClosed s' \<or> \<not> fs_isReader s' then ret (out', s')
     else
       let s' = fillBuffProc s'
       in if fs_isClosed s' then ret (out', s')
          else FCGX_GetStr_loop out' n (s'\<lparr>fs_stopUnget := fs_rdNext s'\<rparr>))"

text \<open>The bytes stored at \<open>str\<close>; their number is the C function's result.\<close>

definition FCGX_GetStr :: "int \<Rightarrow> FCGX_Stream \<Rightarrow> (bytes \<times> FCGX_Stream) exec" where
  "FCGX_GetStr n s =
     (if fs_isClosed s \<or> \<not> fs_isReader s \<or> n \<le> 0 then ret ([], s)
      else if n \<le> int (fs_stop s) - int (fs_rdNext s) then take_bytes [] (nat n) s
      else FCGX_GetStr_loop [] (nat n) s)"

definition FCGX_UnGetChar :: "byte option \<Rightarrow> FCGX_Stream \<Rightarrow> (byte option \<times> FCGX_Stream) exec" where
  "FCGX_UnGetChar c s =
     (case c of
        None \<Rightarrow> ret (None, s)
      | Some c \<Rightarrow>
          if fs_isClosed s \<or> \<not> fs_isReader s \<or> fs_rdNext s = fs_stopUnget s then ret (None, s)
          else if fs_rdNext s = 0 \<or> length (fs_buf s) < fs_rdNext s then throw Out_Of_Bounds
          else ret (Some c, s\<lparr>fs_rdNext := fs_rdNext s - 1, fs_buf := (fs_buf s)[fs_rdNext s - 1 := c]\<rparr>))"

definition FCGX_HasSeenEOF :: "FCGX_Stream \<Rightarrow> bool" where
  "FCGX_HasSeenEOF s = fs_isClosed s"

text \<open>The loop of \<open>FCGX_GetLine\<close>: \<open>None\<close> is NULL.\<close>

fun FCGX_GetLine_loop :: "nat \<Rightarrow> bytes \<Rightarrow> FCGX_Stream \<Rightarrow> (bytes option \<times> FCGX_Stream) exec" where
  "FCGX_GetLine_loop 0 p s = ret (Some p, s)"
| "FCGX_GetLine_loop (Suc n) p s =
     xbind (FCGX_GetChar s) (\<lambda>(c, s).
     case c of
       None \<Rightarrow> ret (if p = [] then None else Some p, s)
     | Some c \<Rightarrow> if c = 0x0A then ret (Some (p @ [c]), s) else FCGX_GetLine_loop n (p @ [c]) s)"

definition FCGX_GetLine :: "int \<Rightarrow> FCGX_Stream \<Rightarrow> (bytes option \<times> FCGX_Stream) exec" where
  "FCGX_GetLine n s = FCGX_GetLine_loop (nat (n - 1)) [] s"

subsection \<open>Writing\<close>

definition FCGX_PutChar :: "byte \<Rightarrow> FCGX_Stream \<Rightarrow> (byte option \<times> FCGX_Stream) exec" where
  "FCGX_PutChar c s =
     (if fs_wrNext s \<noteq> fs_stop s then xbind (put_bytes [c] s) (\<lambda>s. ret (Some c, s))
      else if fs_isClosed s \<or> fs_isReader s then ret (None, s)
      else
        xbind (EmptyBuffProc s) (\<lambda>s.
        if fs_wrNext s \<noteq> fs_stop s then xbind (put_bytes [c] s) (\<lambda>s. ret (Some c, s))
        else if fs_isClosed s then ret (None, s) else throw Assert_Failed))"

text \<open>\<open>None\<close> is \<open>-1\<close>; \<open>moved\<close> counts the bytes written.\<close>

partial_function (option) FCGX_PutStr_loop :: "bytes \<Rightarrow> nat \<Rightarrow> nat \<Rightarrow> FCGX_Stream \<Rightarrow> (nat option \<times> FCGX_Stream) exec" where
  "FCGX_PutStr_loop str n moved s =
     (let m = min (n - moved) (fs_stop s - fs_wrNext s)
      in xbind (if fs_wrNext s \<noteq> fs_stop s then put_bytes (take m str) s else ret s) (\<lambda>s'.
         let moved' = (if fs_wrNext s \<noteq> fs_stop s then moved + m else moved);
             str' = (if fs_wrNext s \<noteq> fs_stop s then drop m str else str)
         in if fs_wrNext s \<noteq> fs_stop s \<and> moved' = n then ret (Some moved', s')
            else if fs_isClosed s' \<or> fs_isReader s' then ret (None, s')
            else xbind (EmptyBuffProc s') (\<lambda>s'. FCGX_PutStr_loop str' n moved' s')))"

definition FCGX_PutStr :: "bytes \<Rightarrow> FCGX_Stream \<Rightarrow> (nat option \<times> FCGX_Stream) exec" where
  "FCGX_PutStr str s =
     (if int (length str) \<le> int (fs_stop s) - int (fs_wrNext s)
      then xbind (put_bytes str s) (\<lambda>s. ret (Some (length str), s))
      else FCGX_PutStr_loop str (length str) 0 s)"

subsection \<open>The contract of a reader\<close>

locale byte_source =
  fixes ok :: "'s \<Rightarrow> bool"
    and content :: "'s \<Rightarrow> bytes"
    and get :: "nat \<Rightarrow> 's \<Rightarrow> (bytes \<times> 's) exec"
  assumes get_ok: "ok s \<Longrightarrow> \<exists>s'. get n s = ret (take n (content s), s') \<and> ok s' \<and> content s' = drop n (content s)"
begin

lemma get_all:
  assumes "ok s" "length (content s) = n"
  shows "\<exists>s'. get n s = ret (content s, s') \<and> content s' = []"
  using get_ok[OF assms(1), of n] assms(2) by auto

lemma get_short:
  assumes "ok s" "length (content s) < n"
  shows "\<exists>bs s'. get n s = ret (bs, s') \<and> length bs < n"
  using get_ok[OF assms(1), of n] assms(2) by auto

text \<open>Two reads are one longer read.\<close>

lemma get_get:
  assumes "ok s"
  shows "\<exists>s1 s2. get m s = ret (take m (content s), s1) \<and> get n s1 = ret (take n (drop m (content s)), s2)
       \<and> take m (content s) @ take n (drop m (content s)) = take (m + n) (content s)"
proof -
  obtain s1 where s1: "get m s = ret (take m (content s), s1)" "ok s1" "content s1 = drop m (content s)"
    using get_ok[OF assms] by blast
  obtain s2 where "get n s1 = ret (take n (content s1), s2)" using get_ok[OF s1(2)] by blast
  then show ?thesis using s1 by (simp add: take_add)
qed

end

subsection \<open>The stream as a reader\<close>

definition reader_ok :: "FCGX_Stream \<Rightarrow> bool" where
  "reader_ok s \<longleftrightarrow> fs_isReader s \<and> fs_rdNext s \<le> fs_stop s \<and> fs_stop s \<le> length (fs_buf s)"

definition stream_content :: "FCGX_Stream \<Rightarrow> bytes" where
  "stream_content s =
     (if fs_isClosed s then []
      else take (fs_stop s - fs_rdNext s) (drop (fs_rdNext s) (fs_buf s)) @ concat (fs_more s))"

lemma fill_ok:
  assumes "reader_ok s" "fs_rdNext s = fs_stop s" "\<not> fs_isClosed s"
  shows "fs_isClosed (fillBuffProc s) \<Longrightarrow> reader_ok (fillBuffProc s) \<and> stream_content s = []"
    and "\<not> fs_isClosed (fillBuffProc s) \<Longrightarrow> reader_ok (fillBuffProc s\<lparr>fs_stopUnget := u\<rparr>)
      \<and> stream_content (fillBuffProc s\<lparr>fs_stopUnget := u\<rparr>) = stream_content s
      \<and> length (fs_more (fillBuffProc s)) < length (fs_more s)"
  using assms by (auto simp: fillBuffProc_def reader_ok_def stream_content_def split: list.splits)

lemma take_bytes_ok:
  assumes "reader_ok s" "\<not> fs_isClosed s" "m \<le> fs_stop s - fs_rdNext s"
  shows "\<exists>s'. take_bytes out m s = ret (out @ take m (stream_content s), s') \<and> reader_ok s'
       \<and> stream_content s' = drop m (stream_content s) \<and> \<not> fs_isClosed s' \<and> fs_more s' = fs_more s
       \<and> fs_rdNext s' = fs_rdNext s + m \<and> fs_stop s' = fs_stop s \<and> fs_isReader s' = fs_isReader s"
proof -
  let ?w = "take (fs_stop s - fs_rdNext s) (drop (fs_rdNext s) (fs_buf s))"
  have c: "stream_content s = ?w @ concat (fs_more s)" using assms(2) by (simp add: stream_content_def)
  have l: "length ?w = fs_stop s - fs_rdNext s" and le: "fs_rdNext s + m \<le> length (fs_buf s)" "fs_rdNext s + m \<le> fs_stop s"
    using assms(1,3) by (auto simp: reader_ok_def)
  have t: "take m (stream_content s) = take m (drop (fs_rdNext s) (fs_buf s))"
    using c l assms(3) by (simp add: min_def)
  have d: "drop m (stream_content s)
      = take (fs_stop s - (fs_rdNext s + m)) (drop (fs_rdNext s + m) (fs_buf s)) @ concat (fs_more s)"
    unfolding c using l assms(3) by (simp only: drop_append drop_take drop_drop diff_diff_left diff_is_0_eq drop_0)
      (simp add: add.commute)
  show ?thesis
    using assms(1,2) le t d by (simp add: take_bytes_def reader_ok_def stream_content_def)
qed

lemma take_avail:
  assumes "reader_ok s" "\<not> fs_isClosed s" "m \<le> fs_stop s - fs_rdNext s"
  obtains out' s' where "(if fs_rdNext s \<noteq> fs_stop s then take_bytes out m s else ret (out, s)) = ret (out', s')"
    "out' = out @ take m (stream_content s)" "reader_ok s'" "stream_content s' = drop m (stream_content s)"
    "\<not> fs_isClosed s'" "fs_more s' = fs_more s" "fs_rdNext s' = fs_rdNext s + m" "fs_stop s' = fs_stop s"
proof (cases "fs_rdNext s = fs_stop s")
  case True
  then show ?thesis using that[of out s] assms by simp
next
  case False
  then show ?thesis using that take_bytes_ok[OF assms, of out] by (metis (no_types, lifting))
qed

lemma content_length: "reader_ok s \<Longrightarrow> \<not> fs_isClosed s \<Longrightarrow> fs_stop s - fs_rdNext s \<le> length (stream_content s)"
  by (auto simp: reader_ok_def stream_content_def)

lemma GetStr_loop_ok:
  "reader_ok s \<Longrightarrow> \<not> fs_isClosed s \<Longrightarrow> length out < n
    \<Longrightarrow> \<exists>s'. FCGX_GetStr_loop out n s = ret (out @ take (n - length out) (stream_content s), s')
       \<and> reader_ok s' \<and> stream_content s' = drop (n - length out) (stream_content s)"
proof (induction "length (fs_more s)" arbitrary: s out rule: less_induct)
  case less
  let ?m = "min (n - length out) (fs_stop s - fs_rdNext s)"
  obtain out' s' where s': "(if fs_rdNext s \<noteq> fs_stop s then take_bytes out ?m s else ret (out, s)) = ret (out', s')"
      "out' = out @ take ?m (stream_content s)" "reader_ok s'" "stream_content s' = drop ?m (stream_content s)"
      "\<not> fs_isClosed s'" "fs_more s' = fs_more s" "fs_rdNext s' = fs_rdNext s + ?m" "fs_stop s' = fs_stop s"
    using take_avail[OF less.prems(1,2), of ?m out] by (metis min.cobounded2)
  have len: "length out' = length out + ?m"
    using s'(2) content_length[OF less.prems(1,2)] by simp
  have rd: "fs_isReader s'" using s'(3) by (simp add: reader_ok_def)
  show ?case
  proof (cases "n - length out \<le> fs_stop s - fs_rdNext s")
    case True
    then have "fs_rdNext s \<noteq> fs_stop s" "length out' = n" "?m = n - length out" using less.prems(3) len by auto
    then show ?thesis using s' by (subst FCGX_GetStr_loop.simps) (simp del: min_def)
  next
    case False
    then have m: "?m = fs_stop s - fs_rdNext s" and ne: "length out' \<noteq> n" using len by auto
    have full: "fs_rdNext s' = fs_stop s'" using m s'(7,8) less.prems(1) by (simp add: reader_ok_def)
    let ?f = "fillBuffProc s'" and ?g = "fillBuffProc s'\<lparr>fs_stopUnget := fs_rdNext (fillBuffProc s')\<rparr>"
    have eq: "FCGX_GetStr_loop out n s = (if fs_isClosed ?f then ret (out', ?f) else FCGX_GetStr_loop out' n ?g)"
      using s'(1,5) rd ne by (subst FCGX_GetStr_loop.simps) (simp add: Let_def)
    show ?thesis
    proof (cases "fs_isClosed ?f")
      case True
      then have "reader_ok ?f" "stream_content s' = []" using fill_ok(1)[OF s'(3) full s'(5)] by auto
      moreover have "stream_content ?f = []" using True by (simp add: stream_content_def)
      moreover have "stream_content s = take ?m (stream_content s)"
        using calculation(2) s'(4) by (metis append.right_neutral append_take_drop_id)
      ultimately show ?thesis using eq True s'(2,4) False by simp
    next
      case open': False
      note f = fill_ok(2)[OF s'(3) full s'(5) open', of "fs_rdNext ?f"]
      have "\<exists>s''. FCGX_GetStr_loop out' n ?g = ret (out' @ take (n - length out') (stream_content ?g), s'')
          \<and> reader_ok s'' \<and> stream_content s'' = drop (n - length out') (stream_content ?g)"
        using f s'(6) open' len False less.prems(3) by (intro less.hyps) auto
      moreover have "out' @ take (n - length out') (stream_content s') = out @ take (n - length out) (stream_content s)"
      proof -
        have e: "n - length out = ?m + (n - length out')" using len False by simp
        have "take (n - length out) (stream_content s)
            = take ?m (stream_content s) @ take (n - length out') (drop ?m (stream_content s))"
          by (subst e) (rule take_add)
        then show ?thesis using s'(2,4) by (metis append.assoc)
      qed
      moreover have "drop (n - length out') (stream_content s') = drop (n - length out) (stream_content s)"
        using s'(4) len False by simp
      ultimately show ?thesis using eq open' f by simp
    qed
  qed
qed

lemma FCGX_GetStr_ok:
  assumes "reader_ok s"
  shows "\<exists>s'. FCGX_GetStr (int n) s = ret (take n (stream_content s), s') \<and> reader_ok s'
       \<and> stream_content s' = drop n (stream_content s)"
proof -
  consider "fs_isClosed s" | "n = 0" | "\<not> fs_isClosed s" "n \<noteq> 0" "n \<le> fs_stop s - fs_rdNext s"
    | "\<not> fs_isClosed s" "n \<noteq> 0" "fs_stop s - fs_rdNext s < n" by linarith
  then show ?thesis
  proof cases
    case 3
    then have "int n \<le> int (fs_stop s) - int (fs_rdNext s)" by linarith
    then show ?thesis
      using 3 assms take_bytes_ok[OF assms 3(1,3), of "[]"] by (auto simp: FCGX_GetStr_def reader_ok_def)
  next
    case 4
    have "\<not> int n \<le> int (fs_stop s) - int (fs_rdNext s)" using 4(3) assms by (auto simp: reader_ok_def)
    then show ?thesis
      using 4 assms GetStr_loop_ok[OF assms 4(1), of "[]" n] by (auto simp: FCGX_GetStr_def reader_ok_def)
  qed (use assms in \<open>auto simp: FCGX_GetStr_def stream_content_def\<close>)
qed

interpretation stream: byte_source reader_ok stream_content "\<lambda>n. FCGX_GetStr (int n)"
  by unfold_locales (rule FCGX_GetStr_ok)

subsection \<open>The records on the connection\<close>

text \<open>The lengths in a header, and the content of the complete records in a byte sequence.\<close>

definition header_content :: "bytes \<Rightarrow> nat" where
  "header_content w = unat (w ! 4) * 256 + unat (w ! 5)"

definition record_length :: "bytes \<Rightarrow> nat" where
  "record_length w = FCGI_HEADER_LEN + header_content w + unat (w ! 6)"

function wire_content :: "bytes \<Rightarrow> bytes" where
  "wire_content w =
     (if length w < FCGI_HEADER_LEN \<or> length w < record_length w then []
      else take (header_content w) (drop FCGI_HEADER_LEN w) @ wire_content (drop (record_length w) w))"
  by pat_completeness auto
termination
  by (relation "measure length") (auto simp: record_length_def FCGI_HEADER_LEN_def)

function wire_ok :: "bytes \<Rightarrow> bool" where
  "wire_ok w =
     (if w = [] then True
      else if length w < FCGI_HEADER_LEN \<or> length w < record_length w then False
      else wire_ok (drop (record_length w) w))"
  by pat_completeness auto
termination
  by (relation "measure length") (auto simp: record_length_def FCGI_HEADER_LEN_def)

declare wire_content.simps [simp del] wire_ok.simps [simp del]

lemma wire_Nil [simp]: "wire_content [] = []" "wire_ok []"
  by (simp_all add: wire_content.simps wire_ok.simps FCGI_HEADER_LEN_def)

lemma header_append: "FCGI_HEADER_LEN \<le> length w \<Longrightarrow> header_content (w @ x) = header_content w \<and> record_length (w @ x) = record_length w"
  by (simp add: header_content_def record_length_def FCGI_HEADER_LEN_def nth_append)

lemma wire_append:
  "wire_ok w \<Longrightarrow> wire_content (w @ x) = wire_content w @ wire_content x \<and> (wire_ok x \<longrightarrow> wire_ok (w @ x))"
proof (induction w rule: wire_ok.induct)
  case (1 w)
  show ?case
  proof (cases "w = []")
    case False
    have w: "FCGI_HEADER_LEN \<le> length w" "record_length w \<le> length w" "wire_ok (drop (record_length w) w)"
      using 1(2) False wire_ok.simps[of w] by (simp_all split: if_splits)
    have IH: "wire_content (drop (record_length w) w @ x) = wire_content (drop (record_length w) w) @ wire_content x
        \<and> (wire_ok x \<longrightarrow> wire_ok (drop (record_length w) w @ x))"
      using False w by (intro 1(1)) simp_all
    have h: "header_content (w @ x) = header_content w" "record_length (w @ x) = record_length w"
      using header_append[OF w(1)] by simp_all
    have c: "header_content w \<le> length w - FCGI_HEADER_LEN" using w(2) by (simp add: record_length_def)
    have "wire_content (w @ x) = take (header_content w) (drop FCGI_HEADER_LEN w) @ wire_content (drop (record_length w) w @ x)"
      using w(1,2) c by (subst wire_content.simps) (simp add: h)
    moreover have "wire_content w = take (header_content w) (drop FCGI_HEADER_LEN w) @ wire_content (drop (record_length w) w)"
      using w(1,2) by (subst wire_content.simps) simp
    moreover have "wire_ok (w @ x) \<longleftrightarrow> wire_ok (drop (record_length w) w @ x)"
      using w(1,2) False by (subst wire_ok.simps) (simp add: h)
    ultimately show ?thesis using IH by simp
  qed simp
qed

text \<open>A full buffer and its header are one record; a proper part of it has no content.\<close>

lemma full_record:
  assumes h: "MakeHeader type rid (length c) 0 = ret header" and c: "length c \<le> FCGI_MAX_LENGTH"
  shows "length header = FCGI_HEADER_LEN" "record_length (header @ c) = length (header @ c)" "header_content (header @ c) = length c"
proof -
  have header: "header = [1, type, ucast (drop_bit 8 rid), ucast rid, of_nat (length c div 256), of_nat (length c), 0, 0]"
    using assms by (simp add: MakeHeader_def)
  have "unat (of_nat (length c div 256) :: byte) = length c div 256" "unat (of_nat (length c) :: byte) = length c mod 256"
    using c by (simp_all add: unat_of_nat FCGI_MAX_LENGTH_def)
  then show "length header = FCGI_HEADER_LEN" "record_length (header @ c) = length (header @ c)"
      "header_content (header @ c) = length c"
    by (simp_all add: header FCGI_HEADER_LEN_def record_length_def header_content_def)
qed

lemma wire_record:
  assumes "MakeHeader type rid (length c) 0 = ret header" "length c \<le> FCGI_MAX_LENGTH"
  shows "wire_content (header @ c) = c" "wire_ok (header @ c)" "n < length (header @ c) \<Longrightarrow> wire_content (take n (header @ c)) = []"
proof -
  note r = full_record[OF assms]
  show "wire_content (header @ c) = c" "wire_ok (header @ c)"
    using r by (subst wire_content.simps wire_ok.simps, simp)+
  assume n: "n < length (header @ c)"
  define t where "t = take n (header @ c)"
  have t: "t @ drop n (header @ c) = header @ c" unfolding t_def by (rule append_take_drop_id)
  have len: "length t < length (header @ c)" unfolding t_def length_take using n by linarith
  have "wire_content t = []"
  proof (cases "length t < FCGI_HEADER_LEN")
    case False
    then have "record_length t = length (header @ c)"
      using header_append[of t "drop n (header @ c)"] r(2) unfolding t by simp
    then show ?thesis using len by (subst wire_content.simps) simp
  qed (simp add: wire_content.simps)
  then show "wire_content (take n (header @ c)) = []" by (simp only: t_def)
qed

subsection \<open>The stream as a writer\<close>

definition writer_ok :: "FCGX_Stream \<Rightarrow> bool" where
  "writer_ok s \<longleftrightarrow> \<not> fs_isReader s \<and> \<not> fs_isClosed s \<and> fs_stop s = length (fs_buf s) \<and> length (fs_buf s) mod 8 = 0
     \<and> FCGI_HEADER_LEN < length (fs_buf s) \<and> length (fs_buf s) \<le> FCGI_MAX_LENGTH + 1
     \<and> FCGI_HEADER_LEN \<le> fs_wrNext s \<and> fs_wrNext s \<le> fs_stop s \<and> wire_ok (fs_wire s)"

text \<open>The bytes written to the stream: the content of the records on the connection, then the buffer.\<close>

definition stream_written :: "FCGX_Stream \<Rightarrow> bytes" where
  "stream_written s = wire_content (fs_wire s) @ drop FCGI_HEADER_LEN (take (fs_wrNext s) (fs_buf s))"

lemma NewStream_writer:
  "writer_ok (NewStream junk aligned input conn rid bufflen False type)"
  "stream_written (NewStream junk aligned input conn rid bufflen False type) = []"
proof -
  define m where "m = nat (min (max bufflen 32) (int FCGI_MAX_LENGTH + 1))"
  have "32 \<le> m" "m \<le> 0x10000" by (auto simp: m_def FCGI_MAX_LENGTH_def)
  then have "32 \<le> AlignInt8 m" "AlignInt8 m \<le> 0x10000" "AlignInt8 m mod 8 = 0" "(AlignInt8 m - 8) mod 8 = 0"
    unfolding AlignInt8_def by presburger+
  then show "writer_ok (NewStream junk aligned input conn rid bufflen False type)"
      "stream_written (NewStream junk aligned input conn rid bufflen False type) = []"
    unfolding NewStream_def m_def[symmetric] Let_def
    by (auto simp: writer_ok_def stream_written_def FCGI_HEADER_LEN_def FCGI_MAX_LENGTH_def)
qed

lemma put_bytes_ok:
  assumes "writer_ok s" "length bs \<le> fs_stop s - fs_wrNext s"
  shows "\<exists>s'. put_bytes bs s = ret s' \<and> writer_ok s' \<and> stream_written s' = stream_written s @ bs
       \<and> fs_stop s' = fs_stop s \<and> fs_wrNext s' = fs_wrNext s + length bs \<and> fs_conn s' = fs_conn s"
  using assms by (auto simp: put_bytes_def writer_ok_def stream_written_def)

text \<open>A stream closed by a failed write: its buffer is full and nothing more is written.\<close>

definition dead :: "FCGX_Stream \<Rightarrow> bool" where
  "dead s \<longleftrightarrow> fs_isClosed s \<and> fs_wrNext s = fs_stop s \<and> fs_stop s \<le> length (fs_buf s)"

text \<open>A full buffer is sent as one record, or the stream is closed.\<close>

lemma EmptyBuffProc_full:
  assumes "writer_ok s" "fs_wrNext s = fs_stop s"
  shows "\<exists>s'. EmptyBuffProc s = ret s' \<and> fs_stop s' = fs_stop s \<and> stream_written s' = stream_written s
     \<and> (writer_ok s' \<and> fs_wrNext s' < fs_stop s' \<and> (fs_conn s = None \<longrightarrow> fs_conn s' = None)
        \<or> fs_conn s \<noteq> None \<and> dead s')"
proof -
  let ?n = "length (fs_buf s)" and ?c = "drop FCGI_HEADER_LEN (fs_buf s)"
  have n: "?n mod 8 = 0" "8 < ?n" "?n \<le> 0x10000" "fs_wrNext s = ?n" "fs_stop s = ?n" "wire_ok (fs_wire s)"
      "\<not> fs_isReader s" "\<not> fs_isClosed s"
    using assms by (simp_all add: writer_ok_def FCGI_HEADER_LEN_def FCGI_MAX_LENGTH_def)
  have pos: "0 < int ?n - 8" "nat (int ?n - 8) = ?n - 8" using n(2) by simp_all
  have al: "AlignInt8 (?n - 8) = ?n - 8" using n(1,2) unfolding AlignInt8_def by presburger
  have c: "length ?c = ?n - 8" "length ?c \<le> FCGI_MAX_LENGTH" using n(2,3) by (simp_all add: FCGI_HEADER_LEN_def FCGI_MAX_LENGTH_def)
  obtain header where h: "MakeHeader (fs_type s) (fs_requestId s) (length ?c) 0 = ret header"
    using c(2) by (simp add: MakeHeader_def)
  note r = full_record[OF h c(2)] and w = wire_record[OF h c(2)] and app = wire_append[OF n(6)]
  let ?s = "s\<lparr>fs_buf := header @ ?c\<rparr>"
  have l: "length (header @ ?c) = ?n" using r(1) c(1) n(2) by (simp add: FCGI_HEADER_LEN_def)
  have put: "put_bytes [] s = ret s" using n(4) by (simp add: put_bytes_def flip: n(4))
  have wr: "take (fs_wrNext ?s) (fs_buf ?s) = header @ ?c" "fs_wrNext ?s \<noteq> 0" using n(2,4) l by (simp, fastforce)
  have eq: "EmptyBuffProc s = (case write_it_all (header @ ?c) ?s of
      (Some e, s) \<Rightarrow> ret (SetError s e) | (None, s) \<Rightarrow> ret (s\<lparr>fs_wrNext := FCGI_HEADER_LEN\<rparr>))"
  proof -
    have len: "int (fs_wrNext s) - int FCGI_HEADER_LEN = int ?n - 8" using n(4) by (simp add: FCGI_HEADER_LEN_def)
    have hl: "length header \<le> length (fs_buf s)" "drop (length header) (fs_buf s) = ?c" using r(1) n(2) by (simp_all add: FCGI_HEADER_LEN_def)
    show ?thesis
      unfolding EmptyBuffProc_def len Let_def using pos al put h c(1) hl wr by (simp del: take_append)
  qed
  have sw: "stream_written s = wire_content (fs_wire s) @ ?c" using n(4) by (simp add: stream_written_def)
  show ?thesis
  proof (cases "\<exists>k e. fs_conn s = Some (k, e) \<and> k < ?n")
    case True
    then obtain k e where k: "fs_conn s = Some (k, e)" "k < ?n" by blast
    let ?t = "SetError (?s\<lparr>fs_wire := fs_wire s @ take k (header @ ?c), fs_conn := Some (0, e)\<rparr>) e"
    have "EmptyBuffProc s = ret ?t" using k l by (simp add: eq write_it_all_def)
    moreover have "stream_written ?t = stream_written s"
      using app w(3)[of k] k(2) l n(4) r(1) unfolding sw by (simp add: stream_written_def SetError_def)
    ultimately show ?thesis using n(4,5) k(1) l by (auto simp: SetError_def dead_def)
  next
    case False
    obtain conn where "EmptyBuffProc s = ret (?s\<lparr>fs_wire := fs_wire s @ header @ ?c, fs_conn := conn, fs_wrNext := FCGI_HEADER_LEN\<rparr>)"
        (is "_ = ret ?t") and conn: "fs_conn s = None \<longrightarrow> conn = None"
      using False l by (cases "fs_conn s") (auto simp: eq write_it_all_def split: prod.splits)
    moreover have "stream_written ?t = stream_written s"
      using app w(1) r(1) unfolding sw by (simp add: stream_written_def)
    moreover have "writer_ok ?t"
      using app w(2) n l by (simp add: writer_ok_def FCGI_HEADER_LEN_def FCGI_MAX_LENGTH_def)
    ultimately show ?thesis using n(2,5) by (auto simp: FCGI_HEADER_LEN_def)
  qed
qed

lemma EmptyBuffProc_cases:
  assumes "writer_ok s" "fs_wrNext s = fs_stop s"
  obtains (Sent) e where "EmptyBuffProc s = ret e" "stream_written e = stream_written s" "writer_ok e"
      "fs_wrNext e < fs_stop e" "fs_conn s = None \<longrightarrow> fs_conn e = None" "\<not> fs_isClosed e"
    | (Failed) e where "EmptyBuffProc s = ret e" "stream_written e = stream_written s" "fs_conn s \<noteq> None" "dead e"
proof -
  obtain e where e: "EmptyBuffProc s = ret e \<and> fs_stop e = fs_stop s \<and> stream_written e = stream_written s
     \<and> (writer_ok e \<and> fs_wrNext e < fs_stop e \<and> (fs_conn s = None \<longrightarrow> fs_conn e = None)
        \<or> fs_conn s \<noteq> None \<and> dead e)"
    by (rule exE[OF EmptyBuffProc_full[OF assms]])
  show thesis
  proof (cases "writer_ok e \<and> fs_wrNext e < fs_stop e \<and> (fs_conn s = None \<longrightarrow> fs_conn e = None)")
    case True
    then show thesis using e by (intro Sent[of e]) (simp_all add: writer_ok_def)
  next
    case False
    then have "fs_conn s \<noteq> None" "dead e" using e by blast+
    then show thesis using e by (intro Failed[of e]) simp_all
  qed
qed

text \<open>What a write of \<open>bs\<close> to \<open>s\<close> leaves: all of it written, or the connection failed and the stream is closed
  with a part of it written.\<close>

definition write_result :: "bytes \<Rightarrow> FCGX_Stream \<Rightarrow> nat \<Rightarrow> nat option \<Rightarrow> FCGX_Stream \<Rightarrow> bool" where
  "write_result bs s n r s' \<longleftrightarrow>
     (case r of
        Some k \<Rightarrow> k = n \<and> writer_ok s' \<and> stream_written s' = stream_written s @ bs \<and> (fs_conn s = None \<longrightarrow> fs_conn s' = None)
      | None \<Rightarrow> fs_conn s \<noteq> None \<and> dead s' \<and> (\<exists>rest. rest \<noteq> [] \<and> stream_written s @ bs = stream_written s' @ rest))"

lemma PutStr_loop_dead: "dead s \<Longrightarrow> FCGX_PutStr_loop str n moved s = ret (None, s)"
  by (subst FCGX_PutStr_loop.simps) (simp add: dead_def)

lemma PutStr_loop_ok:
  "writer_ok s \<Longrightarrow> str \<noteq> [] \<Longrightarrow> moved + length str = n
    \<Longrightarrow> \<exists>r s'. FCGX_PutStr_loop str n moved s = ret (r, s') \<and> write_result str s n r s'"
proof (induction "2 * length str + (if fs_wrNext s = fs_stop s then 1 else 0)" arbitrary: str moved s
    rule: less_induct)
  case less
  let ?m = "min (n - moved) (fs_stop s - fs_wrNext s)"
  have open': "\<not> fs_isClosed s" "\<not> fs_isReader s" and le: "fs_wrNext s \<le> fs_stop s"
    using less.prems(1) by (simp_all add: writer_ok_def)
  show ?case
  proof (cases "fs_wrNext s = fs_stop s")
    case True
    have step: "FCGX_PutStr_loop str n moved s = FCGX_PutStr_loop str n moved e" if "EmptyBuffProc s = ret e" for e
      using True open' that by (subst FCGX_PutStr_loop.simps) simp
    show ?thesis
    proof (rule EmptyBuffProc_cases[OF less.prems(1) True], goal_cases Sent Failed)
      case (Failed e)
      then show ?thesis using less.prems(2) step[OF Failed(1)] by (simp add: PutStr_loop_dead write_result_def)
    next
      case (Sent e)
      then obtain r s' where "FCGX_PutStr_loop str n moved e = ret (r, s')" "write_result str e n r s'"
        using True less.prems(2,3) less.hyps[of str e moved] by auto
      then show ?thesis using step[OF Sent(1)] Sent by (auto simp: write_result_def split: option.splits)
    qed
  next
    case False
    have "length (take ?m str) \<le> fs_stop s - fs_wrNext s" by simp
    then obtain s' where s': "put_bytes (take ?m str) s = ret s'" "writer_ok s'"
        "stream_written s' = stream_written s @ take ?m str" "fs_stop s' = fs_stop s"
        "fs_wrNext s' = fs_wrNext s + length (take ?m str)" "fs_conn s' = fs_conn s"
      using put_bytes_ok[OF less.prems(1)] by blast
    have rd: "\<not> fs_isClosed s'" "\<not> fs_isReader s'" using s'(2) by (simp_all add: writer_ok_def)
    show ?thesis
    proof (cases "moved + ?m = n")
      case True
      then have "take ?m str = str" using less.prems(3) by simp
      then show ?thesis using False s' True by (subst FCGX_PutStr_loop.simps) (simp add: Let_def write_result_def)
    next
      case more: False
      have m: "0 < ?m" "?m < length str" "?m = fs_stop s - fs_wrNext s" using False more less.prems(3) le by auto
      then have full: "fs_wrNext s' = fs_stop s'" using s'(4,5) le by simp
      have step: "FCGX_PutStr_loop str n moved s = FCGX_PutStr_loop (drop ?m str) n (moved + ?m) e" if "EmptyBuffProc s' = ret e" for e
        using False more s'(1) rd that by (subst FCGX_PutStr_loop.simps) (simp add: Let_def)
      have split: "(stream_written s @ take ?m str) @ drop ?m str = stream_written s @ str" by simp
      show ?thesis
      proof (rule EmptyBuffProc_cases[OF s'(2) full], goal_cases Sent Failed)
        case (Failed e)
        have "stream_written s @ str = stream_written e @ drop ?m str"
          using Failed(2) s'(3) split by simp
        moreover have "drop ?m str \<noteq> []" using m(2) by (simp del: min_less_iff_conj) linarith
        moreover have "FCGX_PutStr_loop str n moved s = ret (None, e)"
          using step[OF Failed(1)] PutStr_loop_dead[OF Failed(4)] by simp
        ultimately show ?thesis using Failed(3,4) s'(6) unfolding write_result_def
          by (intro exI[of _ None] exI[of _ e]) auto
      next
        case (Sent e)
        have "0 < length (drop ?m str)" "length (drop ?m str) < length str" "moved + ?m + length (drop ?m str) = n"
          unfolding length_drop using m(1,2) less.prems(3) by linarith+
        moreover have wr: "(if fs_wrNext e = fs_stop e then 1 else 0) = (0::nat)" using Sent(4) by simp
        ultimately have "\<exists>r s''. FCGX_PutStr_loop (drop ?m str) n (moved + ?m) e = ret (r, s'') \<and> write_result (drop ?m str) e n r s''"
          using Sent(3) wr by (intro less.hyps, linarith) (simp_all only: length_greater_0_conv not_False_eq_True)
        then obtain r s'' where r: "FCGX_PutStr_loop (drop ?m str) n (moved + ?m) e = ret (r, s'')"
            "write_result (drop ?m str) e n r s''" by blast
        have "stream_written e @ drop ?m str = stream_written s @ str" using Sent(2) s'(3) split by simp
        then show ?thesis using r step[OF Sent(1)] Sent(5) s'(6) by (auto simp: write_result_def split: option.splits)
      qed
    qed
  qed
qed

lemma FCGX_PutStr_ok:
  assumes "writer_ok s"
  shows "\<exists>r s'. FCGX_PutStr str s = ret (r, s') \<and> write_result str s (length str) r s'"
proof (cases "length str \<le> fs_stop s - fs_wrNext s")
  case True
  then have "int (length str) \<le> int (fs_stop s) - int (fs_wrNext s)"
    using assms by (auto simp: writer_ok_def)
  then show ?thesis using put_bytes_ok[OF assms True] by (auto simp: FCGX_PutStr_def write_result_def)
next
  case False
  then have "\<not> int (length str) \<le> int (fs_stop s) - int (fs_wrNext s)" "str \<noteq> []"
    using assms by (auto simp: writer_ok_def)
  then show ?thesis using PutStr_loop_ok[OF assms, of str 0] by (simp add: FCGX_PutStr_def)
qed

text \<open>Several writes one after the other, of \<open>bs\<close> together: a stream that failed takes no more.\<close>

definition usable :: "FCGX_Stream \<Rightarrow> bool" where
  "usable s \<longleftrightarrow> writer_ok s \<or> dead s"

definition wrote :: "bytes \<Rightarrow> FCGX_Stream \<Rightarrow> FCGX_Stream \<Rightarrow> bool" where
  "wrote bs s s' \<longleftrightarrow>
     (if dead s then s' = s
      else writer_ok s' \<and> stream_written s' = stream_written s @ bs \<and> (fs_conn s = None \<longrightarrow> fs_conn s' = None)
        \<or> fs_conn s \<noteq> None \<and> dead s' \<and> (\<exists>rest. stream_written s @ bs = stream_written s' @ rest))"

lemma writer_not_dead: "writer_ok s \<Longrightarrow> \<not> dead s"
  by (simp add: writer_ok_def dead_def)

lemma wrote_usable: "usable s \<Longrightarrow> wrote bs s s' \<Longrightarrow> usable s'"
  by (auto simp: wrote_def usable_def split: if_splits)

lemma wrote_Nil: "wrote [] s s \<longleftrightarrow> usable s"
  by (auto simp: wrote_def usable_def)

lemma wrote_trans:
  assumes "wrote bs s s1" "wrote cs s1 s2"
  shows "wrote (bs @ cs) s s2"
proof (cases "dead s")
  case False
  show ?thesis
  proof (cases "dead s1")
    case True
    then obtain rest where "fs_conn s \<noteq> None" "stream_written s @ bs = stream_written s1 @ rest" "s2 = s1"
      using assms False writer_not_dead[of s1] by (auto simp: wrote_def)
    moreover from this(2) have "stream_written s @ bs @ cs = stream_written s1 @ rest @ cs" by (simp flip: append_assoc)
    then have "\<exists>r. stream_written s @ bs @ cs = stream_written s1 @ r" by blast
    ultimately show ?thesis using True False unfolding wrote_def by simp
  next
    case alive: False
    then have "writer_ok s1" "stream_written s1 = stream_written s @ bs" "fs_conn s = None \<longrightarrow> fs_conn s1 = None"
      using assms(1) False by (auto simp: wrote_def)
    then show ?thesis using assms(2) False alive by (auto simp: wrote_def)
  qed
qed (use assms in \<open>auto simp: wrote_def\<close>)

lemma FCGX_PutStr_wrote:
  assumes "usable s"
  shows "\<exists>r s'. FCGX_PutStr bs s = ret (r, s') \<and> wrote bs s s' \<and> (r = None \<longrightarrow> dead s')"
proof (cases "dead s")
  case True
  then show ?thesis
    using PutStr_loop_dead[OF True, of bs "length bs" 0]
    by (cases bs) (auto simp: FCGX_PutStr_def put_bytes_def wrote_def dead_def)
next
  case False
  then have "writer_ok s" using assms by (simp add: usable_def)
  then show ?thesis
    using FCGX_PutStr_ok[of s bs] False by (fastforce simp: wrote_def write_result_def split: option.splits)
qed

subsection \<open>Properties\<close>

text \<open>C34: \<open>FCGX_GetStr\<close> refines reading from one byte string: however the input is split into
  buffers, a read of \<open>n\<close> bytes returns the next \<open>n\<close> bytes of the stream, or all that are left,
  consumes exactly them, stays inside the buffer and ends.\<close>

theorem FCGX_GetStr_reads:
  assumes "reader_ok s"
  shows "\<exists>s'. FCGX_GetStr (int n) s = ret (take n (stream_content s), s') \<and> reader_ok s'
       \<and> stream_content s' = drop n (stream_content s)"
  using assms by (rule stream.get_ok)

theorem FCGX_GetStr_reads_witness:
  "\<exists>s'. FCGX_GetStr (int 3) \<lparr>fs_buf = [1, 2], fs_rdNext = 0, fs_wrNext = 0, fs_stop = 2, fs_stopUnget = 0,
     fs_isReader = True, fs_isClosed = False, fs_errno = 0, fs_type = 5, fs_requestId = 1, fs_more = [[3, 4]], fs_conn = None, fs_wire = []\<rparr> = ret ([1, 2, 3], s')"
  using FCGX_GetStr_reads[of "\<lparr>fs_buf = [1, 2], fs_rdNext = 0, fs_wrNext = 0, fs_stop = 2, fs_stopUnget = 0,
     fs_isReader = True, fs_isClosed = False, fs_errno = 0, fs_type = 5, fs_requestId = 1, fs_more = [[3, 4]], fs_conn = None, fs_wire = []\<rparr>" 3]
  by (auto simp: reader_ok_def stream_content_def eval_nat_numeral)

text \<open>C35: \<open>FCGX_PutStr\<close> on an open writer: it returns the number of the given bytes and has appended exactly
  them to what the stream has written, the content of the FastCGI records on the connection and of the
  buffer; or, only if the connection fails, it returns \<open>-1\<close>, the stream is closed, and what it has written is
  what it had with a proper part of the given bytes.\<close>

theorem FCGX_PutStr_writes:
  assumes "writer_ok s"
  shows "\<exists>r s'. FCGX_PutStr bs s = ret (r, s')
       \<and> (case r of
            Some n \<Rightarrow> n = length bs \<and> writer_ok s' \<and> stream_written s' = stream_written s @ bs
          | None \<Rightarrow> fs_conn s \<noteq> None \<and> fs_isClosed s'
              \<and> (\<exists>rest. rest \<noteq> [] \<and> stream_written s @ bs = stream_written s' @ rest))"
  using FCGX_PutStr_ok[OF assms, of bs] by (fastforce simp: write_result_def dead_def split: option.splits)

text \<open>A writer for the examples, with a buffer of 32 bytes.\<close>

definition example_writer :: "(nat \<times> int) option \<Rightarrow> FCGX_Stream" where
  "example_writer conn = NewStream (\<lambda>_. 0) True [] conn 1 0 False 6"

text \<open>A writer with a buffer of 16 bytes whose connection takes three bytes.\<close>

definition failing_writer :: FCGX_Stream where
  "failing_writer = \<lparr>fs_buf = [0, 0, 0, 0, 0, 0, 0, 0, 0, 0, 0, 0, 0, 0, 0, 0], fs_rdNext = 16, fs_wrNext = 8, fs_stop = 16,
     fs_stopUnget = 0, fs_isReader = False, fs_isClosed = False, fs_errno = 0, fs_type = 6, fs_requestId = 1,
     fs_more = [], fs_conn = Some (3, 32), fs_wire = []\<rparr>"

lemma FCGX_PutStr_fails:
  "FCGX_PutStr [1, 2, 3, 4, 5, 6, 7, 8, 9] failing_writer
   = ret (None, failing_writer\<lparr>fs_buf := [1, 6, 0, 1, 0, 8, 0, 0, 1, 2, 3, 4, 5, 6, 7, 8], fs_wrNext := 16,
       fs_isClosed := True, fs_errno := 32, fs_conn := Some (0, 32), fs_wire := [1, 6, 0]\<rparr>)"
  apply (simp add: FCGX_PutStr_def failing_writer_def)
  apply (subst FCGX_PutStr_loop.simps)
  apply (simp add: put_bytes_def Let_def EmptyBuffProc_def FCGI_HEADER_LEN_def AlignInt8_def MakeHeader_def
      FCGI_MAX_LENGTH_def write_it_all_def SetError_def)
  apply (subst FCGX_PutStr_loop.simps)
  apply (simp add: put_bytes_def Let_def)
  done

theorem FCGX_PutStr_writes_witness:
  "(\<exists>s'. FCGX_PutStr (replicate 40 7) (example_writer None) = ret (Some 40, s') \<and> stream_written s' = replicate 40 7)
   \<and> (\<exists>s'. FCGX_PutStr [1, 2, 3, 4, 5, 6, 7, 8, 9] failing_writer = ret (None, s')
        \<and> (\<exists>rest. rest \<noteq> [] \<and> [1, 2, 3, 4, 5, 6, 7, 8, 9] = stream_written s' @ rest))"
proof
  have w: "writer_ok (example_writer conn)" "stream_written (example_writer conn) = []" "fs_conn (example_writer conn) = conn" for conn
    unfolding example_writer_def by (simp_all only: NewStream_writer) (simp add: NewStream_def Let_def)
  show "\<exists>s'. FCGX_PutStr (replicate 40 7) (example_writer None) = ret (Some 40, s') \<and> stream_written s' = replicate 40 7"
    using FCGX_PutStr_writes[OF w(1), of "replicate 40 7" None] w(2,3) by (fastforce split: option.splits)
  have f: "writer_ok failing_writer" "stream_written failing_writer = []"
    by (simp_all add: failing_writer_def writer_ok_def stream_written_def FCGI_HEADER_LEN_def FCGI_MAX_LENGTH_def)
  show "\<exists>s'. FCGX_PutStr [1, 2, 3, 4, 5, 6, 7, 8, 9] failing_writer = ret (None, s')
        \<and> (\<exists>rest. rest \<noteq> [] \<and> [1, 2, 3, 4, 5, 6, 7, 8, 9] = stream_written s' @ rest)"
    using FCGX_PutStr_writes[OF f(1), of "[1, 2, 3, 4, 5, 6, 7, 8, 9]"] f(2) FCGX_PutStr_fails by simp
qed

end
