(* ===== verification/Fcgi.thy ===== *)
theory Fcgi
  imports LuaApi QueryString FcgiStream
begin

text \<open>
  The FastCGI worker of \<open>src/src/fcgi.c\<close>: reading the request into a Lua table, and sending the
  response table back. \<open>environ[i]\<close> is the memory of a C string, its NUL included, and
  \<open>req->envp\<close> the list of them. The functions work on the Lua stack of the theory LuaApi and on
  the streams of the theory FcgiStream; log messages are not modelled. \<open>malloc\<close> fails for
  sizes that no object can have and succeeds otherwise.
\<close>

record LuaDB_Setting =
  st_val :: bytes
  st_len :: size_t

record LuaDB_EnvConfig =
  cfg_root :: LuaDB_Setting
  cfg_router :: LuaDB_Setting
  cfg_fcgi_query :: LuaDB_Setting
  cfg_fcgi_header_prefix :: LuaDB_Setting

record FCGX_Request =
  req_envp :: "bytes list"
  req_in :: FCGX_Stream
  req_out :: FCGX_Stream

subsection \<open>C library\<close>

definition malloc_ok :: "size_t \<Rightarrow> bool" where
  "malloc_ok n \<longleftrightarrow> unat n < 2 ^ 63"

fun strchr :: "bytes \<Rightarrow> byte \<Rightarrow> (nat option) exec" where
  "strchr [] ch = throw Out_Of_Bounds"
| "strchr (c # s) ch =
     (if c = ch then ret (Some 0) else if c = 0 then ret None
      else xbind (strchr s ch) (\<lambda>r. ret (map_option Suc r)))"

text \<open>In the C locale.\<close>

definition tolower :: "byte \<Rightarrow> byte" where
  "tolower c = (if 0x41 \<le> c \<and> c \<le> 0x5A then c + 0x20 else c)"

definition toupper :: "byte \<Rightarrow> byte" where
  "toupper c = (if 0x61 \<le> c \<and> c \<le> 0x7A then c - 0x20 else c)"

subsection \<open>Names of variables and headers\<close>

fun ConvertEnvVarToLower_loop :: "bytes \<Rightarrow> nat \<Rightarrow> bytes exec" where
  "ConvertEnvVarToLower_loop s 0 = ret []"
| "ConvertEnvVarToLower_loop s (Suc n) =
     xbind (peek s) (\<lambda>c. xbind (ConvertEnvVarToLower_loop (tl s) n) (\<lambda>r. ret (tolower c # r)))"

definition ConvertEnvVarToLower :: "bytes \<Rightarrow> size_t \<Rightarrow> (bytes option) exec" where
  "ConvertEnvVarToLower inp len =
     (if \<not> malloc_ok (len + 1) then ret None
      else xbind (ConvertEnvVarToLower_loop inp (unat len)) (\<lambda>header. ret (Some header)))"

fun ConvertEnvVarToHeader_loop :: "bytes \<Rightarrow> nat \<Rightarrow> bool \<Rightarrow> bytes exec" where
  "ConvertEnvVarToHeader_loop s 0 first = ret []"
| "ConvertEnvVarToHeader_loop s (Suc n) first =
     xbind (peek s) (\<lambda>cur.
     let (cur, first) =
       (if cur = 0x5F then (0x2D, True)
        else if first then (toupper cur, False)
        else (tolower cur, first))
     in xbind (ConvertEnvVarToHeader_loop (tl s) n first) (\<lambda>r. ret (cur # r)))"

definition ConvertEnvVarToHeader :: "LuaDB_Setting \<Rightarrow> bytes \<Rightarrow> size_t \<Rightarrow> (bytes option) exec" where
  "ConvertEnvVarToHeader pfx inp len =
     (let outlen = len - st_len pfx
      in if \<not> malloc_ok (outlen + 1) then ret None
         else xbind (ConvertEnvVarToHeader_loop (drop (unat (st_len pfx)) inp) (unat outlen) True) (\<lambda>header.
              ret (Some header)))"

subsection \<open>The query string\<close>

definition PushQueryValueString ::
  "'d lua_State \<Rightarrow> bytes option \<Rightarrow> nat \<Rightarrow> bytes option \<Rightarrow> nat \<Rightarrow> 'd lua_State exec" where
  "PushQueryValueString L key keylen val vallen =
     (if 0 < keylen \<and> key \<noteq> None then lua_pushlstring L val vallen else lua_pushstring L (Some [0]))"

text \<open>The body of the loop, for a decoded key and value (NULL for a key without a value).\<close>

definition QueryString_put ::
  "'d lua_env \<Rightarrow> 'd lua_State \<Rightarrow> bytes \<Rightarrow> bytes option \<Rightarrow> 'd lua_State exec" where
  "QueryString_put E L key val =
     (let keylen = length key;
          vallen = (case val of None \<Rightarrow> 0 | Some v \<Rightarrow> length v);
          push_value = (\<lambda>L. PushQueryValueString L (Some key) keylen val vallen)
      in
        xbind (lua_pushlstring L (Some key) keylen) (\<lambda>L.
        xbind (lua_pushvalue L (- 1)) (\<lambda>L.
        xbind (lua_gettable E L (- 3)) (\<lambda>(type, L).
        if type = LUA_TTABLE then
          xbind (lua_len E L (- 1)) (\<lambda>L.
          xbind (lua_arith_add E (lua_pushinteger L 1)) (\<lambda>L.
          xbind (push_value L) (\<lambda>L.
          xbind (lua_settable E L (- 3)) (\<lambda>L. lua_pop L 1))))
        else if type = LUA_TNIL \<or> type = LUA_TNONE then
          xbind (if type = LUA_TNIL then lua_pop L 1 else ret L) (\<lambda>L.
          xbind (push_value L) (\<lambda>L. lua_settable E L (- 3)))
        else
          xbind (lua_rotate (lua_createtable L) (- 2) 1) (\<lambda>L.
          xbind (lua_rotate (lua_pushinteger L 1) (- 2) 1) (\<lambda>L.
          xbind (lua_settable E L (- 3)) (\<lambda>L.
          xbind (push_value (lua_pushinteger L 2)) (\<lambda>L.
          xbind (lua_settable E L (- 3)) (\<lambda>L. lua_settable E L (- 3))))))))))"

partial_function (option) QueryString_loop ::
  "'d lua_env \<Rightarrow> 'd lua_State \<Rightarrow> QueryIter \<Rightarrow> 'd lua_State exec" where
  "QueryString_loop E L iter =
     xbind (LuaDB_QueryIterNext iter) (\<lambda>(more, iter).
     if \<not> more then ret L
     else
       xbind (LuaDB_QueryIterKey iter) (\<lambda>key.
       case key of
         None \<Rightarrow> QueryString_loop E L iter
       | Some key \<Rightarrow>
           xbind (LuaDB_QueryIterVal iter) (\<lambda>val.
           xbind (QueryString_put E L key val) (\<lambda>L. QueryString_loop E L iter))))"

definition qi_undefined :: QueryIter where
  "qi_undefined = \<lparr>qi_qs = [], qi_qslen = 0, qi_cur = None, qi_key = None, qi_keylen = 0,
     qi_val = None, qi_vallen = 0\<rparr>"

definition ReadHttpRequestQueryString ::
  "'d lua_env \<Rightarrow> 'd lua_State \<Rightarrow> bytes option \<Rightarrow> size_t option \<Rightarrow> (bool \<times> 'd lua_State) exec" where
  "ReadHttpRequestQueryString E L qs len =
     (case qs of
        None \<Rightarrow> ret (False, L)
      | Some _ \<Rightarrow>
          xbind (LuaDB_QueryIterInit qi_undefined qs len) (\<lambda>iter.
          xbind (QueryString_loop E (lua_createtable L) iter) (\<lambda>L. ret (True, L))))"

subsection \<open>The request\<close>

text \<open>\<open>strncmp(environ[i], s->val, s->len) == 0\<close>.\<close>

definition has_prefix :: "bytes \<Rightarrow> LuaDB_Setting \<Rightarrow> bool exec" where
  "has_prefix env s = xbind (strncmp env (st_val s) (unat (st_len s))) (\<lambda>c. ret (c = 0))"

fun ReadHttpRequestVars_loop ::
  "'d lua_env \<Rightarrow> LuaDB_EnvConfig \<Rightarrow> bytes list \<Rightarrow> bytes option \<Rightarrow> 'd lua_State \<Rightarrow> (bytes option \<times> 'd lua_State) exec" where
  "ReadHttpRequestVars_loop E config [] qs L = ret (qs, L)"
| "ReadHttpRequestVars_loop E config (env # envs) qs L =
     xbind (has_prefix env (cfg_fcgi_header_prefix config)) (\<lambda>header.
     if header then ReadHttpRequestVars_loop E config envs qs L
     else
       xbind (strchr env 0x3D) (\<lambda>sep.
       case sep of
         None \<Rightarrow> ReadHttpRequestVars_loop E config envs qs L
       | Some keylen \<Rightarrow>
           xbind (if qs = None then has_prefix env (cfg_fcgi_query config) else ret False) (\<lambda>is_query.
           let qs = (if is_query then Some (drop (keylen + 1) env) else qs)
           in xbind (ConvertEnvVarToLower env (of_nat keylen)) (\<lambda>var.
              case var of
                None \<Rightarrow> ReadHttpRequestVars_loop E config envs qs L
              | Some var \<Rightarrow>
                  xbind (lua_pushlstring L (Some var) keylen) (\<lambda>L.
                  xbind (lua_pushstring L (Some (drop (keylen + 1) env))) (\<lambda>L.
                  xbind (lua_settable E L (- 3)) (\<lambda>L.
                  ReadHttpRequestVars_loop E config envs qs L)))))))"

definition ReadHttpRequestVars ::
  "'d lua_env \<Rightarrow> 'd lua_State \<Rightarrow> bytes list \<Rightarrow> LuaDB_EnvConfig \<Rightarrow> (bool \<times> 'd lua_State) exec" where
  "ReadHttpRequestVars E L envp config =
     xbind (lua_pushlstring L (Some (str ''vars'')) 4) (\<lambda>L.
     xbind (ReadHttpRequestVars_loop E config envp None (lua_createtable L)) (\<lambda>(qs, L).
     xbind (lua_settable E L (- 3)) (\<lambda>L.
     case qs of
       None \<Rightarrow> ret (True, L)
     | Some _ \<Rightarrow>
         xbind (lua_pushlstring L (Some (str ''query'')) 5) (\<lambda>L.
         xbind (ReadHttpRequestQueryString E L qs None) (\<lambda>(parsed, L).
         xbind (if \<not> parsed then lua_pop L 1 else lua_settable E L (- 3)) (\<lambda>L. ret (True, L)))))))"

fun ReadHttpRequestHeaders_loop ::
  "'d lua_env \<Rightarrow> LuaDB_EnvConfig \<Rightarrow> bytes list \<Rightarrow> 'd lua_State \<Rightarrow> 'd lua_State exec" where
  "ReadHttpRequestHeaders_loop E config [] L = ret L"
| "ReadHttpRequestHeaders_loop E config (env # envs) L =
     xbind (has_prefix env (cfg_fcgi_header_prefix config)) (\<lambda>header.
     if \<not> header then ReadHttpRequestHeaders_loop E config envs L
     else
       xbind (strchr env 0x3D) (\<lambda>sep.
       case sep of
         None \<Rightarrow> ReadHttpRequestHeaders_loop E config envs L
       | Some keylen \<Rightarrow>
           xbind (ConvertEnvVarToHeader (cfg_fcgi_header_prefix config) env (of_nat keylen)) (\<lambda>header.
           case header of
             None \<Rightarrow> ReadHttpRequestHeaders_loop E config envs L
           | Some header \<Rightarrow>
               xbind (lua_pushlstring L (Some header) (length header)) (\<lambda>L.
               xbind (lua_pushstring L (Some (drop (keylen + 1) env))) (\<lambda>L.
               xbind (lua_settable E L (- 3)) (\<lambda>L.
               ReadHttpRequestHeaders_loop E config envs L))))))"

definition ReadHttpRequestHeaders ::
  "'d lua_env \<Rightarrow> 'd lua_State \<Rightarrow> bytes list \<Rightarrow> LuaDB_EnvConfig \<Rightarrow> (bool \<times> 'd lua_State) exec" where
  "ReadHttpRequestHeaders E L envp config =
     xbind (lua_pushlstring L (Some (str ''headers'')) 7) (\<lambda>L.
     xbind (ReadHttpRequestHeaders_loop E config envp (lua_createtable L)) (\<lambda>L.
     xbind (lua_settable E L (- 3)) (\<lambda>L. ret (True, L))))"

text \<open>\<open>FCGX_GetParam\<close> of \<open>fcgiapp.c\<close>: the memory after \<open>name=\<close>.\<close>

fun FCGX_GetParam :: "bytes \<Rightarrow> bytes list \<Rightarrow> (bytes option) exec" where
  "FCGX_GetParam name [] = ret None"
| "FCGX_GetParam name (p # ps) =
     xbind (strncmp (name @ [0]) p (length name)) (\<lambda>c.
     if c \<noteq> 0 then FCGX_GetParam name ps
     else
       xbind (peek (drop (length name) p)) (\<lambda>d.
       if d = 0x3D then ret (Some (drop (length name + 1) p)) else FCGX_GetParam name ps))"

text \<open>\<open>sscanf\<close> on NULL faults, an unconverted or partly read value is uninitialised memory.\<close>

definition ReadHttpRequestBody ::
  "'d lua_env \<Rightarrow> 'd lua_State \<Rightarrow> FCGX_Request \<Rightarrow> (bool \<times> 'd lua_State \<times> FCGX_Request) exec" where
  "ReadHttpRequestBody E L req =
     xbind (FCGX_GetParam (str ''CONTENT_LENGTH'') (req_envp req)) (\<lambda>content_length.
     case content_length of
       None \<Rightarrow> throw Null_Deref
     | Some cl \<Rightarrow>
         xbind (sscanf_d cl) (\<lambda>r.
         case r of
           None \<Rightarrow> throw Uninitialised_Read
         | Some body_len \<Rightarrow>
             let size = (of_int body_len :: size_t)
             in if \<not> malloc_ok (size + 1) then ret (False, L, req)
                else
                  xbind (FCGX_GetStr body_len (req_in req)) (\<lambda>(body, inp).
                  xbind (lua_pushlstring L (Some (str ''body'')) 4) (\<lambda>L.
                  xbind (if length body = unat size then lua_pushlstring L (Some body) (unat size)
                         else if unat size < 2 ^ 63 then throw Uninitialised_Read else throw Out_Of_Bounds) (\<lambda>L.
                  xbind (lua_settable E L (- 3)) (\<lambda>L.
                  ret (True, L, req\<lparr>req_in := inp\<rparr>)))))))"

definition ReadHttpRequest ::
  "'d lua_env \<Rightarrow> 'd lua_State \<Rightarrow> FCGX_Request \<Rightarrow> LuaDB_EnvConfig \<Rightarrow> (bool \<times> 'd lua_State \<times> FCGX_Request) exec" where
  "ReadHttpRequest E L req config =
     xbind (ReadHttpRequestBody E (lua_createtable L) req) (\<lambda>(loaded_body, L, req).
     if \<not> loaded_body then ret (False, L, req)
     else
       xbind (ReadHttpRequestHeaders E L (req_envp req) config) (\<lambda>(loaded_headers, L).
       if \<not> loaded_headers then ret (False, L, req)
       else
         xbind (ReadHttpRequestVars E L (req_envp req) config) (\<lambda>(loaded_vars, L).
         ret (loaded_vars, L, req))))"

subsection \<open>The response\<close>

text \<open>\<open>FCGX_FPrintF\<close> for formats of literals and \<open>%s\<close>: the pieces are put one by one until one
  fails; a \<open>%s\<close> piece is the C string at its argument.\<close>

fun FCGX_FPrintF_pieces :: "bytes list \<Rightarrow> FCGX_Stream \<Rightarrow> FCGX_Stream exec" where
  "FCGX_FPrintF_pieces [] s = ret s"
| "FCGX_FPrintF_pieces (p # ps) s =
     xbind (FCGX_PutStr p s) (\<lambda>(r, s). case r of None \<Rightarrow> ret s | Some _ \<Rightarrow> FCGX_FPrintF_pieces ps s)"

text \<open>The C string of a Lua string.\<close>

definition lua_cstr :: "bytes option \<Rightarrow> bytes exec" where
  "lua_cstr s = (case s of None \<Rightarrow> throw Null_Deref | Some s \<Rightarrow> c_string (s @ [0]))"

abbreviation (input) CRLF :: bytes where
  "CRLF \<equiv> [0x0D, 0x0A]"

text \<open>The literal \<open>"status"\<close> has seven bytes with its NUL, and seven are pushed.\<close>

definition SendHttpResponseStatus ::
  "'d lua_env \<Rightarrow> 'd lua_State \<Rightarrow> FCGX_Stream \<Rightarrow> ('d lua_State \<times> FCGX_Stream) exec" where
  "SendHttpResponseStatus E L out =
     xbind (lua_pushlstring L (Some (str ''status'' @ [0])) 7) (\<lambda>L.
     xbind (lua_gettable E L (- 2)) (\<lambda>(type, L).
     xbind (if type = LUA_TSTRING \<or> type = LUA_TNUMBER then
              xbind (luaL_tolstring E L (- 1)) (\<lambda>(status, L).
              xbind (lua_cstr status) (\<lambda>status.
              xbind (FCGX_FPrintF_pieces [status, CRLF] out) (\<lambda>out. ret (L, out))))
            else ret (L, out)) (\<lambda>(L, out).
     xbind (if type \<noteq> LUA_TNONE then lua_pop L 1 else ret L) (\<lambda>L. ret (L, out)))))"

partial_function (option) SendHttpResponseHeaders_loop ::
  "'d lua_env \<Rightarrow> 'd lua_State \<Rightarrow> FCGX_Stream \<Rightarrow> ('d lua_State \<times> FCGX_Stream) exec" where
  "SendHttpResponseHeaders_loop E L out =
     xbind (lua_next E L (- 2)) (\<lambda>(more, L).
     if \<not> more then ret (L, out)
     else
       xbind (lua_type_of L (- 2)) (\<lambda>kt.
       xbind (lua_type_of L (- 1)) (\<lambda>vt.
       if kt \<noteq> LUA_TSTRING \<or> vt \<noteq> LUA_TSTRING
       then lua_throw ''HTTP header fields and their values must be strings.''
       else
         xbind (lua_tolstring E L (- 2)) (\<lambda>(key, L).
         xbind (lua_tolstring E L (- 1)) (\<lambda>(val, L).
         xbind (lua_cstr key) (\<lambda>key.
         xbind (lua_cstr val) (\<lambda>val.
         xbind (FCGX_FPrintF_pieces [key, [0x3A, 0x20], val, CRLF] out) (\<lambda>out.
         xbind (lua_pop L 1) (\<lambda>L. SendHttpResponseHeaders_loop E L out)))))))))"

definition SendHttpResponseHeaders ::
  "'d lua_env \<Rightarrow> 'd lua_State \<Rightarrow> FCGX_Stream \<Rightarrow> ('d lua_State \<times> FCGX_Stream) exec" where
  "SendHttpResponseHeaders E L out =
     xbind (lua_pushlstring L (Some (str ''headers'')) 7) (\<lambda>L.
     xbind (lua_gettable E L (- 2)) (\<lambda>(type, L).
     if type \<noteq> LUA_TTABLE then ret (L, out)
     else
       xbind (SendHttpResponseHeaders_loop E (lua_pushnil L) out) (\<lambda>(L, out).
       xbind (lua_pop L 1) (\<lambda>L.
       xbind (FCGX_FPrintF_pieces [CRLF] out) (\<lambda>out. ret (L, out))))))"

definition SendHttpResponseBody ::
  "'d lua_env \<Rightarrow> 'd lua_State \<Rightarrow> FCGX_Stream \<Rightarrow> ('d lua_State \<times> FCGX_Stream) exec" where
  "SendHttpResponseBody E L out =
     xbind (lua_pushlstring L (Some (str ''body'')) 4) (\<lambda>L.
     xbind (lua_gettable E L (- 2)) (\<lambda>(type, L).
     if type \<noteq> LUA_TSTRING then ret (L, out)
     else
       xbind (lua_tolstring E L (- 1)) (\<lambda>(body, L).
       xbind (lua_cstr body) (\<lambda>body.
       xbind (FCGX_FPrintF_pieces [body] out) (\<lambda>out. ret (L, out))))))"

definition SendHttpResponse ::
  "'d lua_env \<Rightarrow> 'd lua_State \<Rightarrow> FCGX_Stream \<Rightarrow> ('d lua_State \<times> FCGX_Stream) exec" where
  "SendHttpResponse E L out =
     xbind (SendHttpResponseStatus E L out) (\<lambda>(L, out).
     xbind (SendHttpResponseHeaders E L out) (\<lambda>(L, out). SendHttpResponseBody E L out))"

definition RouteHttpRequest :: "'d lua_env \<Rightarrow> 'd lua_State \<Rightarrow> (bool \<times> 'd lua_State) exec" where
  "RouteHttpRequest E L = lua_pcall_1_1 E L"

datatype LuaDB_FcgxResult = LUADB_FCGX_SUCCESS | LUADB_FCGX_ERROR | LUADB_FCGX_FATAL

text \<open>
  One request. \<open>new_state\<close> is \<open>LuaDB_NewStateWithPaths\<close> followed by \<open>LuaDB_PathAddAbsolute\<close>
  of the root (\<open>None\<close> when no state could be made), and \<open>dofile\<close> is \<open>luaL_dofile\<close> of the router,
  which runs user code: whether it failed, and the state with what it left on the stack.
  \<open>lua_close\<close> ends the state, which nothing reads afterwards.
\<close>

definition ProcessFcgxRequest ::
  "'d lua_env \<Rightarrow> ('d lua_State option) exec \<Rightarrow> ('d lua_State \<Rightarrow> (bool \<times> 'd lua_State) exec) \<Rightarrow> FCGX_Request
     \<Rightarrow> LuaDB_EnvConfig \<Rightarrow> (LuaDB_FcgxResult \<times> FCGX_Request) exec" where
  "ProcessFcgxRequest E new_state dofile req config =
     xbind new_state (\<lambda>r.
     case r of
       None \<Rightarrow> ret (LUADB_FCGX_ERROR, req)
     | Some L \<Rightarrow>
         xbind (dofile L) (\<lambda>(err, L).
         if err then ret (LUADB_FCGX_ERROR, req)
         else
           xbind (ReadHttpRequest E L req config) (\<lambda>(ok, L, req).
           if \<not> ok then ret (LUADB_FCGX_ERROR, req)
           else
             xbind (RouteHttpRequest E L) (\<lambda>(success, L).
             if \<not> success then ret (LUADB_FCGX_ERROR, req)
             else
               xbind (SendHttpResponse E L (req_out req)) (\<lambda>(_, out).
               ret (LUADB_FCGX_SUCCESS, req\<lparr>req_out := out\<rparr>))))))"

text \<open>The accept loop over the requests \<open>FCGX_Accept_r\<close> delivers: whether the worker exits with
  success, and the requests as processed.\<close>

fun worker_loop ::
  "(FCGX_Request \<Rightarrow> (LuaDB_FcgxResult \<times> FCGX_Request) exec) \<Rightarrow> FCGX_Request list \<Rightarrow> (bool \<times> FCGX_Request list) exec" where
  "worker_loop process [] = ret (True, [])"
| "worker_loop process (req # reqs) =
     xbind (process req) (\<lambda>(result, req).
     if result = LUADB_FCGX_FATAL then ret (False, [req])
     else xbind (worker_loop process reqs) (\<lambda>(ok, rest). ret (ok, req # rest)))"

end
