(* ===== verification/LuaApiLemmas.thy ===== *)
theory LuaApiLemmas
  imports LuaApi
begin

text \<open>
  Facts about the Lua API model: what the stack operations do to a stack of known shape, and
  plain tables (tables without a metatable) as maps. The locale \<open>map_store\<close> is the contract of
  a table with its users: a lookup sees the last value stored under the key.
\<close>

named_theorems lua_simps

subsection \<open>The stack\<close>

lemma value_at_neg [lua_simps]:
  "value_at L (- 1) = (if 1 \<le> length (L_stack L) then ret (L_stack L ! 0) else throw Out_Of_Bounds)"
  "value_at L (- 2) = (if 2 \<le> length (L_stack L) then ret (L_stack L ! 1) else throw Out_Of_Bounds)"
  "value_at L (- 3) = (if 3 \<le> length (L_stack L) then ret (L_stack L ! 2) else throw Out_Of_Bounds)"
  "value_at L (- 4) = (if 4 \<le> length (L_stack L) then ret (L_stack L ! 3) else throw Out_Of_Bounds)"
  by (simp_all add: value_at_def index2addr_def LUA_REGISTRYINDEX_def Let_def)

lemma value_at_1 [lua_simps]:
  "value_at L 1 = ret (if 1 \<le> length (L_stack L) then last (L_stack L) else TNil)"
  by (cases "L_stack L = []") (simp_all add: value_at_def index2addr_def Let_def last_conv_nth Suc_le_eq)

lemma stack_push [simp]:
  "L_stack (api_incr_top v L) = v # L_stack L" "G_heap (api_incr_top v L) = G_heap L"
  "G_mt (api_incr_top v L) = G_mt L" "G_next (api_incr_top v L) = G_next L"
  "L_upvalue (api_incr_top v L) = L_upvalue L" "G_udmt (api_incr_top v L) = G_udmt L"
  "G_registry (api_incr_top v L) = G_registry L" "G_globals (api_incr_top v L) = G_globals L"
  by (simp_all add: api_incr_top_def)

lemma stack_set_top [simp]:
  "L_stack (set_top v L) = v # tl (L_stack L)" "G_heap (set_top v L) = G_heap L"
  "G_mt (set_top v L) = G_mt L" "G_next (set_top v L) = G_next L"
  by (simp_all add: set_top_def)

lemma stack_heap_set [simp]:
  "L_stack (heap_set L t h) = L_stack L" "G_heap (heap_set L t h) = (G_heap L)(t \<mapsto> h)"
  "G_mt (heap_set L t h) = G_mt L" "G_next (heap_set L t h) = G_next L"
  by (simp_all add: heap_set_def)

lemma lua_pop_simp [lua_simps]:
  "lua_pop L 1 = (if 1 \<le> length (L_stack L) then ret (L\<lparr>L_stack := drop 1 (L_stack L)\<rparr>) else throw Out_Of_Bounds)"
  "lua_pop L 2 = (if 2 \<le> length (L_stack L) then ret (L\<lparr>L_stack := drop 2 (L_stack L)\<rparr>) else throw Out_Of_Bounds)"
  by (simp_all add: lua_pop_def lua_settop_def Let_def)

lemma lua_pushvalue_neg [lua_simps]:
  "lua_pushvalue L (- 1) = xbind (value_at L (- 1)) (\<lambda>v. ret (api_incr_top v L))"
  by (simp add: lua_pushvalue_def value_at_def xbind_def index2addr_def LUA_REGISTRYINDEX_def Let_def)

text \<open>\<open>lua_rotate(L, -2, 1)\<close> exchanges the two values at the top, \<open>lua_remove(L, -2)\<close> drops the
  second.\<close>

lemma lua_rotate_swap [lua_simps]:
  "L_stack L = a # b # s \<Longrightarrow> lua_rotate L (- 2) 1 = ret (L\<lparr>L_stack := b # a # s\<rparr>)"
  by (simp add: lua_rotate_def Let_def eval_nat_numeral)

lemma lua_remove_second [lua_simps]:
  "L_stack L = a # b # s \<Longrightarrow> lua_remove L (- 2) = ret (L\<lparr>L_stack := a # s\<rparr>)"
  by (simp add: lua_remove_def lua_rotate_def Let_def eval_nat_numeral lua_pop_def lua_settop_def)

lemma lua_type_of_neg [lua_simps]:
  "lua_type_of L (- 1) = (if 1 \<le> length (L_stack L) then ret (ttnov (L_stack L ! 0)) else throw Out_Of_Bounds)"
  "lua_type_of L (- 2) = (if 2 \<le> length (L_stack L) then ret (ttnov (L_stack L ! 1)) else throw Out_Of_Bounds)"
  by (simp_all add: lua_type_of_def index2addr_def LUA_REGISTRYINDEX_def Let_def)

lemma lua_pushlstring_simp [lua_simps]:
  "len \<le> length s \<Longrightarrow> lua_pushlstring L (Some s) len = ret (api_incr_top (TString (take len s)) L)"
  "lua_pushlstring L None 0 = ret (api_incr_top (TString []) L)"
  by (simp_all add: lua_pushlstring_def)

lemma lua_pushstring_simp [lua_simps]:
  "0 \<notin> set s \<Longrightarrow> lua_pushstring L (Some (s @ 0 # r)) = ret (api_incr_top (TString s) L)"
  "lua_pushstring L (Some [0]) = ret (api_incr_top (TString []) L)"
  using c_string_append[of "[]" "[]"] by (simp_all add: lua_pushstring_def c_string_append)

subsection \<open>Tables as maps\<close>

locale map_store =
  fixes look :: "'s \<Rightarrow> 'k \<Rightarrow> 'v option"
    and upd :: "'s \<Rightarrow> 'k \<Rightarrow> 'v \<Rightarrow> 's"
  assumes look_upd: "look (upd s k v) = (look s)(k \<mapsto> v)"
begin

lemma look_upd_same [simp]: "look (upd s k v) k = Some v"
  by (simp add: look_upd)

lemma look_upd_other [simp]: "k \<noteq> k' \<Longrightarrow> look (upd s k v) k' = look s k'"
  by (simp add: look_upd)

lemma look_fold:
  "distinct (map fst kvs) \<Longrightarrow> look (fold (\<lambda>(k, v) s. upd s k v) kvs s) = look s ++ map_of kvs"
  by (induction kvs arbitrary: s)
    (auto simp: look_upd map_add_upd_left dom_map_of_conv_image_fst)

end

lemma map_of_alist_set: "map_of (alist_set k v ps) = (map_of ps)(k \<mapsto> v)"
  by (induction ps) auto

interpretation node: map_store map_of "\<lambda>ps k v. alist_set k v ps"
  by unfold_locales (rule map_of_alist_set)

lemma alist_set_new: "k \<notin> fst ` set ps \<Longrightarrow> alist_set k v ps = ps @ [(k, v)]"
  by (induction ps) auto

lemma alist_set_keys: "fst ` set (alist_set k v ps) = insert k (fst ` set ps)"
  by (induction ps) auto

lemma alist_set_distinct: "distinct (map fst es) \<Longrightarrow> distinct (map fst (alist_set k v es))"
  by (induction es) (auto simp: alist_set_keys)

subsection \<open>Traversals\<close>

lemma visit_order_mset [simp]: "mset (visit_order E ks) = mset ks"
  by (simp add: visit_order_def)

lemma visit_order_distinct [simp]: "distinct (visit_order E ks) \<longleftrightarrow> distinct ks"
  by (rule mset_eq_imp_distinct_iff) simp

lemma traversal_keys: "map fst (traversal E ps) = visit_order E (map fst ps)"
  by (simp add: traversal_def comp_def)

text \<open>A traversal visits each entry once.\<close>

lemma traversal_mset:
  assumes "distinct (map fst ps)"
  shows "mset (traversal E ps) = mset ps"
proof -
  have "mset (traversal E ps) = image_mset (\<lambda>k. (k, the (map_of ps k))) (mset (map fst ps))"
    by (simp add: traversal_def)
  also have "\<dots> = mset (map (\<lambda>p. (fst p, the (map_of ps (fst p)))) ps)" by (simp add: multiset.map_comp comp_def)
  also have "map (\<lambda>p. (fst p, the (map_of ps (fst p)))) ps = ps"
    using assms by (intro map_idI) (auto simp: map_of_eq_Some_iff)
  finally show ?thesis .
qed

lemma traversal_set: "distinct (map fst ps) \<Longrightarrow> set (traversal E ps) = set ps"
  using traversal_mset[of ps E] by (metis set_mset_mset)

lemma traversal_distinct: "distinct (map fst ps) \<Longrightarrow> distinct (map fst (traversal E ps))"
  by (simp add: traversal_keys)

lemma traversal_Nil [simp]: "traversal E [] = []"
  by (simp add: traversal_def visit_order_def)

lemma luaH_next_first: "luaH_next E h TNil = ret (next_entry (traversal E (t_node h)))"
  by (simp add: luaH_next_def Let_def)

lemma luaH_next_after:
  assumes "traversal E (t_node h) = pre @ (k, v) # post" "distinct (map fst (t_node h))" "k \<noteq> TNil" "\<forall>d. k \<noteq> TFloat d"
  shows "luaH_next E h k = ret (next_entry post)"
proof -
  have "distinct (map fst (pre @ (k, v) # post))" using traversal_distinct[OF assms(2), of E] assms(1) by simp
  then have "dropWhile (\<lambda>p. fst p \<noteq> k) (pre @ (k, v) # post) = (k, v) # post"
    by (induction pre) (auto simp: dropWhile_append3)
  moreover have "norm_key E k = k" using assms(4) by (cases k) (simp_all add: norm_key_def)
  ultimately show ?thesis using assms(1,3) by (simp add: luaH_next_def Let_def)
qed

subsection \<open>Tables without a metatable\<close>

definition plain_table :: "'d lua_State \<Rightarrow> nat \<Rightarrow> ('d tvalue \<times> 'd tvalue) list \<Rightarrow> bool" where
  "plain_table L t ps \<longleftrightarrow> G_heap L t = Some \<lparr>t_node = ps, t_metatable = None\<rparr>"

lemma hvalue_plain: "plain_table L t ps \<Longrightarrow> hvalue L t = ret \<lparr>t_node = ps, t_metatable = None\<rparr>"
  by (simp add: plain_table_def hvalue_def)

lemma gettable_plain:
  assumes "plain_table L t ps"
  shows "luaV_gettable E L (TTable t) k = ret (luaH_get E \<lparr>t_node = ps, t_metatable = None\<rparr> k, L)"
  using hvalue_plain[OF assms]
  by (simp add: luaV_gettable_def MAXTAGLOOP_def numeral_eq_Suc luaT_gettmbyobj_def metatable_of_def Let_def)

lemma luaH_get_string [simp]:
  "luaH_get E \<lparr>t_node = ps, t_metatable = m\<rparr> (TString k) = (case map_of ps (TString k) of Some v \<Rightarrow> v | None \<Rightarrow> TNil)"
  "luaH_get E \<lparr>t_node = ps, t_metatable = m\<rparr> (TInteger i) = (case map_of ps (TInteger i) of Some v \<Rightarrow> v | None \<Rightarrow> TNil)"
  by (simp_all add: luaH_get_def norm_key_def)

lemma settable_plain:
  assumes "plain_table L t ps" "\<forall>d. k \<noteq> TFloat d" "k \<noteq> TNil"
  shows "luaV_settable E L (TTable t) k v
       = ret (heap_set L t \<lparr>t_node = alist_set k v ps, t_metatable = None\<rparr>)"
proof -
  have "luaH_set E \<lparr>t_node = ps, t_metatable = None\<rparr> k v = ret \<lparr>t_node = alist_set k v ps, t_metatable = None\<rparr>"
    using assms(2,3) by (cases k) (simp_all add: luaH_set_def)
  then show ?thesis
    using hvalue_plain[OF assms(1)]
    by (simp add: luaV_settable_def MAXTAGLOOP_def numeral_eq_Suc luaT_gettmbyobj_def metatable_of_def Let_def)
qed

text \<open>Indexing a value that is not a table and has no metamethod is an error.\<close>

lemma gettable_error:
  assumes "\<forall>t. v \<noteq> TTable t" "luaT_gettmbyobj E L v ''__index'' = ret TNil"
  shows "luaV_gettable E L v k = lua_throw ''attempt to index a value''"
  using assms by (cases v) (simp_all add: luaV_gettable_def MAXTAGLOOP_def numeral_eq_Suc Let_def)

lemma settable_error:
  assumes "\<forall>t. v \<noteq> TTable t" "luaT_gettmbyobj E L v ''__newindex'' = ret TNil"
  shows "luaV_settable E L v k x = lua_throw ''attempt to index a value''"
  using assms by (cases v) (simp_all add: luaV_settable_def MAXTAGLOOP_def numeral_eq_Suc Let_def)

lemma no_metatable: "G_mt L (ttnov v) = None \<Longrightarrow> \<forall>t. v \<noteq> TTable t \<Longrightarrow> \<forall>u. v \<noteq> TUserdata u
    \<Longrightarrow> luaT_gettmbyobj E L v ev = ret TNil"
  by (cases v) (simp_all add: luaT_gettmbyobj_def metatable_of_def)

text \<open>The same, as rules that compute on a known heap.\<close>

lemma gettable_eval:
  assumes "G_heap L t = Some h" "t_metatable h = None"
  shows "luaV_gettable E L (TTable t) k = ret (luaH_get E h k, L)"
  using gettable_plain[of L t "t_node h"] assms by (cases h) (simp add: plain_table_def)

lemma settable_eval:
  assumes "G_heap L t = Some h" "t_metatable h = None" "\<forall>d. k \<noteq> TFloat d" "k \<noteq> TNil"
  shows "luaV_settable E L (TTable t) k v = ret (heap_set L t (h\<lparr>t_node := alist_set k v (t_node h)\<rparr>))"
  using settable_plain[of L t "t_node h"] assms by (cases h) (simp add: plain_table_def)

lemma lua_gettable_eval [lua_simps]:
  assumes "L_stack L = key # s" "value_at L idx = ret (TTable t)" "G_heap L t = Some h" "t_metatable h = None"
  shows "lua_gettable E L idx = ret (ttnov (luaH_get E h key), L\<lparr>L_stack := luaH_get E h key # s\<rparr>)"
  using assms gettable_eval[of L t h E key] by (simp add: lua_gettable_def lua_simps set_top_def)

lemma lua_settable_eval [lua_simps]:
  assumes "L_stack L = v # key # s" "value_at L idx = ret (TTable t)" "G_heap L t = Some h" "t_metatable h = None"
    "\<forall>d. key \<noteq> TFloat d" "key \<noteq> TNil"
  shows "lua_settable E L idx
       = ret (L\<lparr>L_stack := s, G_heap := (G_heap L)(t \<mapsto> h\<lparr>t_node := alist_set key v (t_node h)\<rparr>)\<rparr>)"
  using assms settable_eval[of L t h key E v] by (simp add: lua_settable_def lua_simps heap_set_def)

subsection \<open>Changes of the stack and of a table\<close>

lemma plain_table_push [simp]:
  "plain_table (api_incr_top v L) t ps \<longleftrightarrow> plain_table L t ps"
  "plain_table (L\<lparr>L_stack := s\<rparr>) t ps \<longleftrightarrow> plain_table L t ps"
  "plain_table (set_top v L) t ps \<longleftrightarrow> plain_table L t ps"
  by (simp_all add: plain_table_def)

lemma plain_table_heap_set [simp]:
  "plain_table (heap_set L t \<lparr>t_node = ps, t_metatable = None\<rparr>) t ps'  \<longleftrightarrow> ps' = ps"
  by (auto simp: plain_table_def)

lemma lua_pushlstring_all [lua_simps]: "lua_pushlstring L (Some s) (length s) = ret (api_incr_top (TString s) L)"
  by (simp add: lua_pushlstring_def)

lemma stack_update [simp]:
  "heap_set (L\<lparr>L_stack := s\<rparr>) t h = (heap_set L t h)\<lparr>L_stack := s\<rparr>"
  "(api_incr_top v L)\<lparr>L_stack := s\<rparr> = L\<lparr>L_stack := s\<rparr>" "(set_top v L)\<lparr>L_stack := s\<rparr> = L\<lparr>L_stack := s\<rparr>"
  "heap_set (api_incr_top v L) t h = api_incr_top v (heap_set L t h)"
  "heap_set (set_top v L) t h = set_top v (heap_set L t h)"
  by (simp_all add: heap_set_def api_incr_top_def set_top_def)

lemma stack_same: "L_stack L = s \<Longrightarrow> L\<lparr>L_stack := s\<rparr> = L"
  by auto

lemma plain_table_other [simp]:
  "t \<noteq> u \<Longrightarrow> plain_table (heap_set L t h) u ps \<longleftrightarrow> plain_table L u ps"
  by (simp add: plain_table_def)

lemma plain_table_create [simp]:
  "plain_table (lua_createtable L) (G_next L) ps \<longleftrightarrow> ps = []"
  "t \<noteq> G_next L \<Longrightarrow> plain_table (lua_createtable L) t ps \<longleftrightarrow> plain_table L t ps"
  by (auto simp: plain_table_def lua_createtable_def)

lemma create_stack [simp]: "L_stack (lua_createtable L) = TTable (G_next L) # L_stack L"
  by (simp add: lua_createtable_def)

lemmas lua_unfold = api_incr_top_def set_top_def heap_set_def lua_createtable_def lua_pushinteger_def lua_pushnil_def

subsection \<open>Stack positions\<close>

lemma value_at_top [lua_simps]:
  "value_at L (int (length (L_stack L))) = (if L_stack L = [] then throw Out_Of_Bounds else ret (hd (L_stack L)))"
  by (cases "L_stack L") (simp_all add: value_at_def index2addr_def Let_def LUA_REGISTRYINDEX_def nat_add_distrib)

lemma lua_pushvalue_at [lua_simps]:
  "lua_pushvalue L idx = xbind (value_at L idx) (\<lambda>v. ret (api_incr_top v L))"
  by (simp add: lua_pushvalue_def value_at_def xbind_assoc)

lemma value_at_pos:
  assumes "0 < i" "i \<le> length s" "L_stack L = r @ s"
  shows "value_at L (int i) = ret (s ! (length s - i))"
proof -
  have "length r + length s - i = length r + (length s - i)" using assms(1,2) by simp
  then have "(r @ s) ! (length r + length s - i) = s ! (length s - i)" by (simp only: nth_append_length_plus)
  then show ?thesis using assms by (simp add: value_at_def index2addr_def Let_def)
qed

lemma lua_settop_drop [lua_simps]:
  assumes "L_stack L = r @ s"
  shows "lua_settop L (int (length s)) = ret (L\<lparr>L_stack := s\<rparr>)"
  using assms by (simp add: lua_settop_def Let_def)

text \<open>Indices from the bottom see through pushes.\<close>

lemma value_at_below:
  assumes "L_stack L' = r @ L_stack L" "0 < idx" "idx \<le> int (length (L_stack L))"
  shows "value_at L' idx = value_at L idx"
proof -
  obtain i where i: "idx = int i" "0 < i" "i \<le> length (L_stack L)"
    using assms(2,3) by (metis nat_0_less_mult_iff of_nat_0_less_iff of_nat_le_iff pos_int_cases)
  show ?thesis
    using value_at_pos[OF i(2,3) assms(1)] value_at_pos[OF i(2,3), of L "[]"] i(1) by simp
qed

subsection \<open>Fields of plain tables\<close>

lemma lua_setfield_plain:
  assumes "plain_table L t ps" "L_stack L = v # s" "value_at L idx = ret (TTable t)"
  shows "lua_setfield E L idx k
       = ret (L\<lparr>L_stack := s, G_heap := (G_heap L)(t \<mapsto> \<lparr>t_node = alist_set (TString k) v ps, t_metatable = None\<rparr>)\<rparr>)"
  using assms settable_plain[of "api_incr_top (TString k) L" t ps "TString k" E v]
  by (simp add: lua_setfield_def lua_simps heap_set_def)

definition put_functions :: "(bytes \<times> nat) list \<Rightarrow> ('d tvalue \<times> 'd tvalue) list \<Rightarrow> ('d tvalue \<times> 'd tvalue) list" where
  "put_functions l ps = fold (\<lambda>(name, f). alist_set (TString name) (TFunction f)) l ps"

lemma luaL_setfuncs_plain:
  "plain_table L t ps \<Longrightarrow> L_stack L = TTable t # s
     \<Longrightarrow> luaL_setfuncs E L l = ret (L\<lparr>G_heap := (G_heap L)(t \<mapsto> \<lparr>t_node = put_functions l ps, t_metatable = None\<rparr>)\<rparr>)"
proof (induction l arbitrary: L ps)
  case Nil
  then have "(G_heap L)(t \<mapsto> \<lparr>t_node = ps, t_metatable = None\<rparr>) = G_heap L" by (simp add: plain_table_def fun_upd_idem)
  then show ?case by (simp add: put_functions_def)
next
  case (Cons nf l)
  obtain name f where nf: "nf = (name, f)" by (cases nf)
  let ?ps = "alist_set (TString name) (TFunction f) ps"
  let ?L = "L\<lparr>G_heap := (G_heap L)(t \<mapsto> \<lparr>t_node = ?ps, t_metatable = None\<rparr>)\<rparr>"
  have "lua_setfield E (api_incr_top (TFunction f) L) (- 2) name = ret ?L"
    using Cons.prems by (subst lua_setfield_plain[of _ t ps "TFunction f" "L_stack L"]) (simp_all add: lua_simps api_incr_top_def)
  moreover have "plain_table ?L t ?ps" "L_stack ?L = TTable t # s" using Cons.prems(2) by (simp_all add: plain_table_def)
  ultimately show ?case
    using Cons.IH[of ?L ?ps] by (simp add: nf put_functions_def del: fun_upd_apply)
qed

text \<open>The value of a key, nil when it has none.\<close>

definition lookup :: "('d tvalue \<times> 'd tvalue) list \<Rightarrow> 'd tvalue \<Rightarrow> 'd tvalue" where
  "lookup ps k = (case map_of ps k of Some v \<Rightarrow> v | None \<Rightarrow> TNil)"

subsection \<open>Example\<close>

text \<open>Outside functions for the examples: calls and arithmetic are errors, no float is a number.\<close>

definition example_env :: "unit lua_env" where
  "example_env = \<lparr>le_call = \<lambda>f args L. throw (Lua_Error ''call''), le_arith = \<lambda>a b. throw (Lua_Error ''arith''),
     le_float_key = \<lambda>_. None, le_is_nan = \<lambda>_. False, le_float_str = \<lambda>_. [], le_pointer = \<lambda>_. [], le_order = \<lambda>ks. ks\<rparr>"

text \<open>A state for the examples: an empty stack above a request table, and no metatables.\<close>

definition example_state :: "unit lua_State" where
  "example_state = \<lparr>L_stack = [TTable 0], L_upvalue = [],
     G_heap = Map.empty(0 \<mapsto> \<lparr>t_node = [], t_metatable = None\<rparr>),
     G_next = 1, G_mt = \<lambda>_. None, G_udmt = Map.empty, G_registry = 0, G_globals = 0\<rparr>"

end
