(* ===== verification/FcgiRequest.thy ===== *)
theory FcgiRequest
  imports Fcgi LuaApiLemmas
begin

text \<open>
  What \<open>fcgi.c\<close> puts into the request table and sends of the response table, and where it
  fails: the query table of repeated keys, responses without a headers table, the status line,
  the request body.
\<close>

subsection \<open>The query table\<close>

definition query_value :: "bytes \<Rightarrow> bytes option \<Rightarrow> 'd tvalue" where
  "query_value key val = TString (if key = [] then [] else case val of None \<Rightarrow> [] | Some v \<Rightarrow> v)"

lemma PushQueryValueString_value [lua_simps]:
  "PushQueryValueString L (Some key) (length key) val (case val of None \<Rightarrow> 0 | Some v \<Rightarrow> length v)
     = ret (api_incr_top (query_value key val) L)"
  by (auto simp: PushQueryValueString_def query_value_def lua_simps split: option.splits)

text \<open>The stack and the table during the loop.\<close>

definition query_state :: "'d lua_State \<Rightarrow> nat \<Rightarrow> ('d tvalue \<times> 'd tvalue) list \<Rightarrow> 'd tvalue list \<Rightarrow> bool" where
  "query_state L q ps s \<longleftrightarrow> L_stack L = TTable q # s \<and> plain_table L q ps"

text \<open>A key that was not seen before.\<close>

lemma QueryString_put_first:
  assumes "query_state L q ps s" "map_of ps (TString key) = None"
  shows "QueryString_put E L key val
       = ret (heap_set L q \<lparr>t_node = alist_set (TString key) (query_value key val) ps, t_metatable = None\<rparr>)"
proof -
  have st: "L_stack L = TTable q # s" and pt: "plain_table L q ps"
    using assms(1) by (simp_all add: query_state_def)
  show ?thesis
    using st pt assms(2)
    by (simp add: QueryString_put_def Let_def lua_simps lua_gettable_def lua_settable_def
      gettable_plain[of _ q ps] settable_plain[of _ q ps] stack_same)
qed

text \<open>The second value of a key makes it an array.\<close>

definition fresh :: "'d lua_State \<Rightarrow> bool" where
  "fresh L \<longleftrightarrow> G_heap L (G_next L) = None"

lemma fresh_not: "fresh L \<Longrightarrow> plain_table L q ps \<Longrightarrow> q \<noteq> G_next L"
  by (auto simp: fresh_def plain_table_def)

lemma QueryString_put_second:
  assumes "query_state L q ps s" "map_of ps (TString key) = Some (TString v0)" "fresh L"
  shows "\<exists>L'. QueryString_put E L key val = ret L'
       \<and> query_state L' q (alist_set (TString key) (TTable (G_next L)) ps) s
       \<and> plain_table L' (G_next L) [(TInteger 1, TString v0), (TInteger 2, query_value key val)]
       \<and> G_mt L' = G_mt L"
proof -
  have st: "L_stack L = TTable q # s" and pt: "G_heap L q = Some \<lparr>t_node = ps, t_metatable = None\<rparr>"
    using assms(1) by (simp_all add: query_state_def plain_table_def)
  have ne: "q \<noteq> G_next L" using fresh_not[OF assms(3)] assms(1) unfolding query_state_def by blast
  show ?thesis
    using st pt assms(2) ne
    by (simp add: QueryString_put_def Let_def lua_simps lua_unfold query_state_def plain_table_def)
qed

text \<open>The third value is stored, but its key stays on the stack above the table.\<close>

lemma QueryString_put_third:
  assumes "query_state L q ps s" "map_of ps (TString key) = Some (TTable a)" "plain_table L a as" "a \<noteq> q"
  shows "QueryString_put E L key val
       = ret (heap_set L a \<lparr>t_node = alist_set (TInteger (of_nat (luaH_getn \<lparr>t_node = as, t_metatable = None\<rparr>) + 1))
                 (query_value key val) as, t_metatable = None\<rparr>
              \<lparr>L_stack := TString key # TTable q # s\<rparr>)"
proof -
  have st: "L_stack L = TTable q # s" and pt: "G_heap L q = Some \<lparr>t_node = ps, t_metatable = None\<rparr>"
      "G_heap L a = Some \<lparr>t_node = as, t_metatable = None\<rparr>"
    using assms(1,3) by (simp_all add: query_state_def plain_table_def)
  show ?thesis
    using st pt assms(2,4)
    by (simp add: QueryString_put_def Let_def lua_simps lua_unfold lua_len_def luaV_objlen_def hvalue_def
      luaT_gettmbyobj_def metatable_of_def lua_arith_add_def)
qed

text \<open>The loop stores the decoded fields one after the other.\<close>

fun query_puts :: "'d lua_env \<Rightarrow> 'd lua_State \<Rightarrow> (bytes \<times> bytes option) list \<Rightarrow> 'd lua_State exec" where
  "query_puts E L [] = ret L"
| "query_puts E L (kv # kvs) = xbind (QueryString_put E L (fst kv) (snd kv)) (\<lambda>L. query_puts E L kvs)"

text \<open>Every field decodes.\<close>

definition decoded_fields :: "bytes \<Rightarrow> (bytes \<times> bytes option) list \<Rightarrow> bool" where
  "decoded_fields s kvs \<longleftrightarrow> map decode_field (map split_field (query_fields s)) = map Some kvs"

lemma QueryString_loop_puts:
  "stands_at iter s \<Longrightarrow> decoded_fields s kvs \<Longrightarrow> QueryString_loop E L iter = query_puts E L kvs"
proof (induction s arbitrary: iter kvs L rule: query_fields.induct)
  case (1 s)
  show ?case
  proof (cases "s = []")
    case True
    then show ?thesis
      using 1(2,3) stands_at_end[of iter]
      by (subst QueryString_loop.simps) (simp add: decoded_fields_def query_fields.simps)
  next
    case False
    let ?t = "tl (dropWhile (\<lambda>c. \<not> is_sep c) s)"
    obtain k v kvs' where kv: "kvs = (k, v) # kvs'"
        "decode_field (split_field (takeWhile (\<lambda>c. \<not> is_sep c) s)) = Some (k, v)" "decoded_fields ?t kvs'"
      using 1(3) False by (cases kvs) (auto simp: decoded_fields_def query_fields.simps[of s])
    obtain iter' where "LuaDB_QueryIterNext iter = ret (True, iter')" "LuaDB_QueryIterKey iter' = ret (Some k)"
        "LuaDB_QueryIterVal iter' = ret v" "stands_at iter' ?t"
      using QueryIterNext_decoded[OF 1(2) False kv(2)] by blast
    then show ?thesis
      using 1(1)[OF False _ kv(3)] kv(1) by (subst QueryString_loop.simps) simp
  qed
qed

lemma query_puts_distinct:
  "query_state L q ps s \<Longrightarrow> distinct (map fst kvs) \<Longrightarrow> \<forall>k \<in> fst ` set kvs. map_of ps (TString k) = None
    \<Longrightarrow> \<exists>L'. query_puts E L kvs = ret L'
       \<and> query_state L' q (ps @ map (\<lambda>(k, v). (TString k, query_value k v)) kvs) s \<and> G_mt L' = G_mt L"
proof (induction kvs arbitrary: L ps)
  case (Cons kv kvs)
  obtain k v where kv: "kv = (k, v)" by fastforce
  let ?ps = "alist_set (TString k) (query_value k v) ps"
  let ?L = "heap_set L q \<lparr>t_node = ?ps, t_metatable = None\<rparr>"
  have "map_of ps (TString k) = None" using Cons.prems(3) kv by simp
  then have put: "QueryString_put E L k v = ret ?L" and ps: "?ps = ps @ [(TString k, query_value k v)]"
    using QueryString_put_first[OF Cons.prems(1)] by (simp_all add: alist_set_new map_of_eq_None_iff)
  have "query_state ?L q ?ps s" using Cons.prems(1) by (simp add: query_state_def)
  moreover have "\<forall>k' \<in> fst ` set kvs. map_of ?ps (TString k') = None"
    using Cons.prems(2,3) kv by (auto simp: map_of_alist_set)
  ultimately show ?case
    using Cons.IH[of ?L ?ps] Cons.prems(2) kv put ps by (auto simp: heap_set_def)
qed simp

lemma create_state: "query_state (lua_createtable L) (G_next L) [] (L_stack L)"
  by (simp add: query_state_def)

lemma ReadHttpRequestQueryString_puts:
  assumes "0 \<notin> set s" "length s < 2 ^ 63" "decoded_fields s kvs"
  shows "ReadHttpRequestQueryString E L (Some (s @ 0 # r)) None
       = xbind (query_puts E (lua_createtable L) kvs) (\<lambda>L. ret (True, L))"
proof -
  obtain iter where i: "LuaDB_QueryIterInit qi_undefined (Some (s @ 0 # r)) None = ret iter" "stands_at iter s"
    using QueryIterInit_stands[OF assms(1,2)] by blast
  then show ?thesis
    using QueryString_loop_puts[OF i(2) assms(3), of E "lua_createtable L"] by (simp add: ReadHttpRequestQueryString_def)
qed

subsection \<open>Three values for one key\<close>

text \<open>The stack after a key with three values: the key is left above the table.\<close>

lemma query_puts_three:
  assumes "fresh L" "G_heap L (G_next L + 1) = None"
  shows "\<exists>L'. query_puts E (lua_createtable L) [(k, u), (k, v), (k, w)] = ret L'
       \<and> L_stack L' = TString k # TTable (G_next L) # L_stack L
       \<and> G_mt L' = G_mt L \<and> (\<forall>m. m \<noteq> G_next L \<longrightarrow> m \<noteq> G_next L + 1 \<longrightarrow> G_heap L' m = G_heap L m)"
  using assms
  by (simp add: QueryString_put_def Let_def lua_simps lua_unfold fresh_def lua_len_def luaV_objlen_def hvalue_def
      luaT_gettmbyobj_def metatable_of_def lua_arith_add_def luaH_getn_def query_value_def)

definition default_config :: LuaDB_EnvConfig where
  "default_config = \<lparr>cfg_root = \<lparr>st_val = str ''/var/www/luadb/'' @ [0], st_len = 15\<rparr>,
     cfg_router = \<lparr>st_val = str ''/var/www/luadb/reqhandler.lua'' @ [0], st_len = 29\<rparr>,
     cfg_fcgi_query = \<lparr>st_val = str ''QUERY_STRING'' @ [0], st_len = 12\<rparr>,
     cfg_fcgi_header_prefix = \<lparr>st_val = str ''HTTP_'' @ [0], st_len = 5\<rparr>\<rparr>"

definition three_values :: bytes where
  "three_values = str ''QUERY_STRING=a=1&a=2&a=3'' @ [0]"

lemma three_values_facts:
  "has_prefix three_values (cfg_fcgi_header_prefix default_config) = ret False"
  "strchr three_values 0x3D = ret (Some 12)"
  "has_prefix three_values (cfg_fcgi_query default_config) = ret True"
  "ConvertEnvVarToLower_loop three_values 12 = ret (str ''query_string'')"
  "length (str ''query_string'') = 12"
  "c_string (drop 13 three_values) = ret (str ''a=1&a=2&a=3'')"
  "drop 13 three_values = str ''a=1&a=2&a=3'' @ [0]"
  "0 \<notin> set (str ''a=1&a=2&a=3'')" "length (str ''a=1&a=2&a=3'') = 11"
  by code_simp+

lemma three_values_decoded:
  "decoded_fields (str ''a=1&a=2&a=3'') [(str ''a'', Some (str ''1'')), (str ''a'', Some (str ''2'')), (str ''a'', Some (str ''3''))]"
  unfolding decoded_fields_def by code_simp

lemma three_values_lower: "ConvertEnvVarToLower three_values 12 = ret (Some (str ''query_string''))"
  by (simp add: ConvertEnvVarToLower_def malloc_ok_def three_values_facts)

lemma three_values_tail: "drop 13 three_values = str ''a=1&a=2&a=3'' @ [0]"
  by (rule three_values_facts)

text \<open>The vars table of the request, and the query string found in it.\<close>

lemma three_values_vars:
  assumes "L_stack L = v # s" "fresh L"
  shows "\<exists>L'. ReadHttpRequestVars_loop E default_config [three_values] None (lua_createtable L)
       = ret (Some (str ''a=1&a=2&a=3'' @ [0]), L')
     \<and> L_stack L' = TTable (G_next L) # L_stack L \<and> G_mt L' = G_mt L \<and> G_next L' = G_next L + 1
     \<and> G_heap L' (G_next L) \<noteq> None \<and> (\<forall>m. m \<noteq> G_next L \<longrightarrow> G_heap L' m = G_heap L m)"
proof -
  have pl: "lua_pushlstring L' (Some (str ''query_string'')) 12 = ret (api_incr_top (TString (str ''query_string'')) L')" for L' :: "'a lua_State"
    using lua_pushlstring_all[of L' "str ''query_string''"] by (simp only: three_values_facts)
  have ps: "lua_pushstring L' (Some (str ''a=1&a=2&a=3'' @ [0])) = ret (api_incr_top (TString (str ''a=1&a=2&a=3'')) L')" for L' :: "'a lua_State"
    by (rule lua_pushstring_simp(1)[OF three_values_facts(8), of L' "[]"])
  show ?thesis
    using assms by (simp add: three_values_facts(1-3) three_values_lower three_values_tail pl ps lua_simps lua_unfold)
qed

subsection \<open>The properties\<close>

text \<open>C36: for a query string whose fields decode to distinct keys, the query table of the request,
  pushed above what was on the stack, maps each key to its value, in the order of the fields; a
  key without a value, and the value of an empty key, become empty strings.\<close>
theorem ReadHttpRequestQueryString_distinct:
  assumes "0 \<notin> set s" "length s < 2 ^ 63" "decoded_fields s kvs" "distinct (map fst kvs)"
  shows "\<exists>L'. ReadHttpRequestQueryString E L (Some (s @ 0 # r)) None = ret (True, L')
       \<and> L_stack L' = TTable (G_next L) # L_stack L
       \<and> G_heap L' (G_next L) = Some \<lparr>t_node = map (\<lambda>(k, v). (TString k, query_value k v)) kvs, t_metatable = None\<rparr>"
proof -
  obtain L' where "query_puts E (lua_createtable L) kvs = ret L'"
      "query_state L' (G_next L) (map (\<lambda>(k, v). (TString k, query_value k v)) kvs) (L_stack L)"
    using query_puts_distinct[OF create_state assms(4), of E L] by auto
  then show ?thesis
    using ReadHttpRequestQueryString_puts[OF assms(1-3), of E L r] by (auto simp: query_state_def plain_table_def)
qed

lemma query_example:
  "decoded_fields (str ''q=a+b&x&=y'') [(str ''q'', Some (str ''a b'')), (str ''x'', None), ([], Some (str ''y''))]"
  "0 \<notin> set (str ''q=a+b&x&=y'')" "length (str ''q=a+b&x&=y'') = 10"
  "distinct (map fst [(str ''q'', Some (str ''a b'')), (str ''x'', None), ([], Some (str ''y''))])"
  unfolding decoded_fields_def by code_simp+

theorem ReadHttpRequestQueryString_distinct_witness:
  "\<exists>L'. ReadHttpRequestQueryString example_env example_state (Some (str ''q=a+b&x&=y'' @ 0 # [])) None = ret (True, L')
       \<and> L_stack L' = TTable (G_next example_state) # L_stack example_state
       \<and> G_heap L' (G_next example_state) = Some \<lparr>t_node = map (\<lambda>(k, v). (TString k, query_value k v))
           [(str ''q'', Some (str ''a b'')), (str ''x'', None), ([], Some (str ''y''))], t_metatable = None\<rparr>"
  by (rule ReadHttpRequestQueryString_distinct[OF query_example(2) _ query_example(1,4)]) (simp add: query_example)

text \<open>The heap is allocated in order, the request table is an ordinary one, and the metatable of
  strings, if any, has no \<open>__newindex\<close>.\<close>

definition request_state :: "'d lua_env \<Rightarrow> 'd lua_State \<Rightarrow> nat \<Rightarrow> bool" where
  "request_state E L t \<longleftrightarrow>
     (\<exists>s. L_stack L = TTable t # s) \<and> (\<exists>ps. plain_table L t ps) \<and> t < G_next L
     \<and> (G_heap L (G_next L) = None \<and> G_heap L (G_next L + 1) = None \<and> G_heap L (G_next L + 2) = None)
     \<and> (case G_mt L LUA_TSTRING of
          None \<Rightarrow> True
        | Some m \<Rightarrow> m < G_next L \<and> m \<noteq> t
            \<and> (case G_heap L m of None \<Rightarrow> False | Some h \<Rightarrow> luaH_get E h (TString (str ''__newindex'')) = TNil))"

text \<open>With three values for one key in the query string, the third one leaves its key on the
  stack, so the query table is stored into that key, a string, and the request fails with a Lua
  error outside any protected call, which ends the worker.\<close>
theorem ReadHttpRequestVars_three_values:
  assumes "request_state E L t"
  shows "ReadHttpRequestVars E L [three_values] default_config = lua_throw ''attempt to index a value''"
proof -
  obtain s where st: "L_stack L = TTable t # s" using assms by (auto simp: request_state_def)
  obtain ps where pt: "G_heap L t = Some \<lparr>t_node = ps, t_metatable = None\<rparr>" and lt: "t < G_next L"
    using assms by (auto simp: request_state_def plain_table_def)
  let ?L1 = "api_incr_top (TString (str ''vars'')) L"
  have push: "lua_pushlstring L (Some (str ''vars'')) 4 = ret ?L1" "length (str ''query'') = 5"
      "lua_pushlstring L' (Some (str ''query'')) 5 = ret (api_incr_top (TString (str ''query'')) L')" for L' :: "'a lua_State"
    by (simp_all add: str_def lua_pushlstring_def)
  have "L_stack ?L1 = TString (str ''vars'') # L_stack L" "fresh ?L1"
    using assms by (simp_all add: fresh_def request_state_def)
  from three_values_vars[OF this, of E]
  obtain L2 where L2: "ReadHttpRequestVars_loop E default_config [three_values] None (lua_createtable ?L1)
         = ret (Some (str ''a=1&a=2&a=3'' @ [0]), L2)"
       "L_stack L2 = TTable (G_next L) # TString (str ''vars'') # TTable t # s" "G_mt L2 = G_mt L" "G_next L2 = G_next L + 1"
       "\<forall>m. m \<noteq> G_next L \<longrightarrow> G_heap L2 m = G_heap L m"
    using st by auto
  let ?L3 = "L2\<lparr>L_stack := TTable t # s, G_heap := (G_heap L2)(t \<mapsto> \<lparr>t_node = alist_set (TString (str ''vars'')) (TTable (G_next L)) ps, t_metatable = None\<rparr>)\<rparr>"
  have s3: "lua_settable E L2 (- 3) = ret ?L3"
    using L2 pt lt by (simp add: lua_simps)
  let ?L4 = "api_incr_top (TString (str ''query'')) ?L3"
  have "fresh ?L4" "G_heap ?L4 (G_next ?L4 + 1) = None"
    using assms L2 lt by (auto simp: fresh_def request_state_def)
  from query_puts_three[OF this, of E "str ''a''"]
  obtain L5 where L5: "query_puts E (lua_createtable ?L4)
        [(str ''a'', Some (str ''1'')), (str ''a'', Some (str ''2'')), (str ''a'', Some (str ''3''))] = ret L5"
      "L_stack L5 = TString (str ''a'') # TTable (G_next ?L4) # L_stack ?L4" "G_mt L5 = G_mt ?L4"
      "\<forall>m. m \<noteq> G_next ?L4 \<longrightarrow> m \<noteq> G_next ?L4 + 1 \<longrightarrow> G_heap L5 m = G_heap ?L4 m"
    by blast
  have q: "ReadHttpRequestQueryString E ?L4 (Some (str ''a=1&a=2&a=3'' @ [0])) None = ret (True, L5)"
    using ReadHttpRequestQueryString_puts[OF three_values_facts(8) _ three_values_decoded, of E ?L4 "[]"] L5(1)
    by (simp add: three_values_facts(9) del: query_puts.simps)
  have "luaT_gettmbyobj E L5 (TString (str ''query'')) ''__newindex'' = ret TNil"
    using assms L5(3,4) L2(3-5)
    by (auto simp: luaT_gettmbyobj_def metatable_of_def hvalue_def request_state_def split: option.splits)
  then have "lua_settable E L5 (- 3) = lua_throw ''attempt to index a value''"
    using L5(2) settable_error[of "TString (str ''query'')" E L5] by (simp add: lua_settable_def lua_simps lua_throw_def)
  then show ?thesis
    using L2(1) s3 push q by (simp add: ReadHttpRequestVars_def lua_throw_def)
qed

theorem ReadHttpRequestVars_three_values_witness:
  "ReadHttpRequestVars example_env example_state [three_values] default_config = lua_throw ''attempt to index a value''"
  by (rule ReadHttpRequestVars_three_values[of example_env example_state 0])
    (simp add: request_state_def plain_table_def example_state_def)

subsection \<open>The response\<close>

text \<open>What the response table holds under a string key.\<close>

definition field :: "('d tvalue \<times> 'd tvalue) list \<Rightarrow> string \<Rightarrow> 'd tvalue" where
  "field ps k = (case map_of ps (TString (str k)) of Some v \<Rightarrow> v | None \<Rightarrow> TNil)"

text \<open>\<open>luaV_gettable\<close> through the stack: the key literal is replaced by the value.\<close>

lemma get_field_at:
  assumes "L_stack L = TString k # TTable t # s" "plain_table L t ps" "v = (case map_of ps (TString k) of Some v \<Rightarrow> v | None \<Rightarrow> TNil)"
  shows "lua_gettable E L (- 2) = ret (ttnov v, L\<lparr>L_stack := v # TTable t # s\<rparr>)"
  using assms by (simp add: plain_table_def lua_simps)

lemma push_literal [lua_simps]:
  "lua_pushlstring L (Some (str ''status'' @ [0])) 7 = ret (api_incr_top (TString (str ''status'' @ [0])) L)"
  "lua_pushlstring L (Some (str ''headers'')) 7 = ret (api_incr_top (TString (str ''headers'')) L)"
  "lua_pushlstring L (Some (str ''body'')) 4 = ret (api_incr_top (TString (str ''body'')) L)"
  by (simp_all add: str_def lua_pushlstring_def)

text \<open>No Lua table filled through C string literals has the key \<open>"status\0"\<close>.\<close>

lemma SendHttpResponseStatus_none:
  assumes "L_stack L = TTable t # s" "plain_table L t ps" "map_of ps (TString (str ''status'' @ [0])) = None"
  shows "SendHttpResponseStatus E L out = ret (L, out)"
proof -
  let ?L = "api_incr_top (TString (str ''status'' @ [0])) L"
  have "lua_gettable E ?L (- 2) = ret (LUA_TNIL, ?L\<lparr>L_stack := TNil # TTable t # s\<rparr>)"
    using get_field_at[of ?L "str ''status'' @ [0]" t s ps TNil E] assms by simp
  then show ?thesis
    using assms(1) by (simp add: SendHttpResponseStatus_def lua_simps stack_same)
qed

text \<open>a response without a headers table fails: the value found under \<open>headers\<close> stays on the
  stack, and the body is then looked up in it. When it has no \<open>__index\<close> metamethod this is a Lua
  error outside any protected call, which ends the worker, whatever status and body the
  response has.\<close>
theorem SendHttpResponse_without_headers:
  assumes "L_stack L = TTable t # s" "plain_table L t ps" "map_of ps (TString (str ''status'' @ [0])) = None"
    "\<forall>h. field ps ''headers'' \<noteq> TTable h" "luaT_gettmbyobj E L (field ps ''headers'') ''__index'' = ret TNil"
  shows "SendHttpResponse E L out = lua_throw ''attempt to index a value''"
proof -
  let ?v = "field ps ''headers''" and ?L = "api_incr_top (TString (str ''headers'')) L"
  let ?L2 = "?L\<lparr>L_stack := ?v # TTable t # s\<rparr>"
  have "lua_gettable E ?L (- 2) = ret (ttnov ?v, ?L2)"
    using assms(1,2) by (intro get_field_at[of _ _ _ _ ps]) (simp_all add: field_def)
  moreover have "ttnov ?v \<noteq> LUA_TTABLE"
    using assms(4) by (cases ?v) simp_all
  ultimately have headers: "SendHttpResponseHeaders E L out = ret (?L2, out)"
    by (simp add: SendHttpResponseHeaders_def lua_simps)
  have "luaT_gettmbyobj E (api_incr_top (TString (str ''body'')) ?L2) ?v ''__index'' = ret TNil"
    using assms(5) by (simp add: luaT_gettmbyobj_def metatable_of_def hvalue_def cong: tvalue.case_cong option.case_cong)
  then have "lua_gettable E (api_incr_top (TString (str ''body'')) ?L2) (- 2) = lua_throw ''attempt to index a value''"
    using gettable_error[OF assms(4)] by (simp add: lua_gettable_def lua_simps lua_throw_def)
  then show ?thesis
    using SendHttpResponseStatus_none[OF assms(1-3)] headers
    by (simp add: SendHttpResponse_def SendHttpResponseBody_def lua_simps lua_throw_def)
qed

theorem SendHttpResponse_without_headers_witness:
  "\<forall>out. SendHttpResponse example_env (example_state\<lparr>G_heap := Map.empty(0 \<mapsto> \<lparr>t_node =
       [(TString (str ''status''), TInteger 200), (TString (str ''body''), TString (str ''hello''))], t_metatable = None\<rparr>)\<rparr>)
     out = lua_throw ''attempt to index a value''"
proof -
  define L where "L = example_state\<lparr>G_heap := Map.empty(0 \<mapsto> \<lparr>t_node =
       [(TString (str ''status''), TInteger 200), (TString (str ''body''), TString (str ''hello''))], t_metatable = None\<rparr>)\<rparr>"
  have "SendHttpResponse example_env L out = lua_throw ''attempt to index a value''" for out
  proof (rule SendHttpResponse_without_headers)
    show "L_stack L = TTable 0 # []" by (simp add: L_def example_state_def)
    show "plain_table L 0 [(TString (str ''status''), TInteger 200), (TString (str ''body''), TString (str ''hello''))]"
      by (simp add: L_def plain_table_def)
  qed (simp_all add: L_def str_def field_def no_metatable example_state_def)
  then show ?thesis unfolding L_def by blast
qed

text \<open>The bytes \<open>%s\<close> prints of a Lua string: those before its first NUL.\<close>

definition printed :: "bytes \<Rightarrow> bytes" where
  "printed s = takeWhile (\<lambda>c. c \<noteq> 0) s"

lemma lua_cstr_printed [simp]: "lua_cstr (Some s) = ret (printed s)"
proof (cases "0 \<in> set s")
  case True
  then show ?thesis by (simp add: lua_cstr_def c_string_def printed_def)
next
  case False
  then have tw: "takeWhile (\<lambda>c. c \<noteq> 0) s = s" by (auto simp: takeWhile_eq_all_conv)
  show ?thesis by (simp only: lua_cstr_def option.case printed_def tw c_string_append[OF False, of "[]"])
qed

lemma FPrintF_pieces_ok:
  "usable out \<Longrightarrow> \<exists>out'. FCGX_FPrintF_pieces ps out = ret out' \<and> wrote (concat ps) out out'"
proof (induction ps arbitrary: out)
  case Nil
  then show ?case by (simp add: wrote_Nil)
next
  case (Cons p ps)
  obtain r o1 where o1: "FCGX_PutStr p out = ret (r, o1)" "wrote p out o1" "r = None \<longrightarrow> dead o1"
    using FCGX_PutStr_wrote[OF Cons.prems] by blast
  show ?case
  proof (cases r)
    case None
    then have "wrote (concat ps) o1 o1" using o1(3) by (simp add: wrote_def)
    then show ?thesis using None o1(1) wrote_trans[OF o1(2)] by auto
  next
    case (Some n)
    obtain o2 where "FCGX_FPrintF_pieces ps o1 = ret o2" "wrote (concat ps) o1 o2"
      using Cons.IH[OF wrote_usable[OF Cons.prems o1(2)]] by blast
    then show ?thesis using Some o1(1) wrote_trans[OF o1(2)] by auto
  qed
qed

definition header_line :: "bytes \<times> bytes \<Rightarrow> bytes" where
  "header_line kv = printed (fst kv) @ [0x3A, 0x20] @ printed (snd kv) @ CRLF"

definition string_entries :: "(bytes \<times> bytes) list \<Rightarrow> ('d tvalue \<times> 'd tvalue) list" where
  "string_entries hds = map (\<lambda>(k, v). (TString k, TString v)) hds"

lemma next_entry_strings: "next_entry (string_entries hds)
    = (case hds of [] \<Rightarrow> None | kv # _ \<Rightarrow> Some (TString (fst kv), TString (snd kv)))"
  by (cases hds) (auto simp: string_entries_def)

lemma string_entries_distinct: "distinct (map fst (string_entries hds :: ('d tvalue \<times> 'd tvalue) list)) \<longleftrightarrow> distinct (map fst hds)"
proof -
  have "map fst (string_entries hds :: ('d tvalue \<times> 'd tvalue) list) = map TString (map fst hds)" by (induction hds) (auto simp: string_entries_def)
  then show ?thesis by (simp only: distinct_map[of TString]) (simp add: inj_on_def)
qed

text \<open>The headers in the order a traversal visits them.\<close>

lemma string_entries_traversal:
  fixes E :: "'d lua_env"
  assumes "distinct (map fst hds)"
  obtains hds' where "traversal E (string_entries hds) = string_entries hds'" "mset hds' = mset hds" "distinct (map fst hds')"
proof -
  let ?es = "string_entries hds :: ('d tvalue \<times> 'd tvalue) list"
  define g :: "'d tvalue \<times> 'd tvalue \<Rightarrow> bytes \<times> bytes"
    where "g p = (case fst p of TString k \<Rightarrow> k | _ \<Rightarrow> [], case snd p of TString v \<Rightarrow> v | _ \<Rightarrow> [])" for p
  let ?hds = "map g (traversal E ?es)"
  have d: "distinct (map fst ?es)" using assms by (simp add: string_entries_distinct)
  have g: "map g ?es = hds" by (induction hds) (auto simp: string_entries_def g_def)
  have "mset ?hds = mset (map g ?es)"
    unfolding mset_map traversal_mset[OF d] ..
  then have "mset ?hds = mset hds" unfolding g .
  moreover have "string_entries ?hds = traversal E ?es"
    unfolding string_entries_def[of ?hds] using traversal_set[OF d, of E]
    by (simp add: comp_def) (rule map_idI, auto simp: string_entries_def g_def)
  moreover have "distinct (map fst (string_entries ?hds :: ('d tvalue \<times> 'd tvalue) list))"
    using traversal_distinct[OF d, of E] calculation(2) by simp
  ultimately show thesis using string_entries_distinct[of ?hds, where 'd = 'd]
    by (intro that[of ?hds]) (simp_all only: )
qed

text \<open>One step of the loop, with the next header on the stack.\<close>

lemma headers_loop_step:
  assumes "L_stack L = k # TTable h # s" "plain_table L h es"
    "luaH_next E \<lparr>t_node = es, t_metatable = None\<rparr> k = ret (Some (TString a, TString b))" "usable out"
  shows "\<exists>out'. SendHttpResponseHeaders_loop E L out
       = SendHttpResponseHeaders_loop E (L\<lparr>L_stack := TString a # TTable h # s\<rparr>) out'
     \<and> wrote (header_line (a, b)) out out'"
proof -
  obtain out' where "FCGX_FPrintF_pieces [printed a, [0x3A, 0x20], printed b, CRLF] out = ret out'"
      "wrote (concat [printed a, [0x3A, 0x20], printed b, CRLF]) out out'"
    using FPrintF_pieces_ok[OF assms(4)] by blast
  then show ?thesis
    using assms(1-3)
    by (intro exI[of _ out'], subst SendHttpResponseHeaders_loop.simps)
      (simp add: lua_next_def hvalue_plain lua_simps lua_tolstring_def header_line_def del: FCGX_FPrintF_pieces.simps)
qed

lemma headers_loop_end:
  assumes "L_stack L = k # TTable h # s" "plain_table L h ps"
    "luaH_next E \<lparr>t_node = ps, t_metatable = None\<rparr> k = ret None"
  shows "SendHttpResponseHeaders_loop E L out = ret (L\<lparr>L_stack := TTable h # s\<rparr>, out)"
  using assms by (subst SendHttpResponseHeaders_loop.simps) (simp add: lua_next_def hvalue_plain lua_simps)

text \<open>The loop after the key \<open>k\<close>, with the headers \<open>post\<close> to come.\<close>

lemma headers_loop_rest:
  "L_stack L = k # TTable h # s \<Longrightarrow> plain_table L h es \<Longrightarrow> distinct (map fst es)
    \<Longrightarrow> traversal E es = pre @ string_entries post \<Longrightarrow> usable out
    \<Longrightarrow> luaH_next E \<lparr>t_node = es, t_metatable = None\<rparr> k = ret (next_entry (string_entries post))
    \<Longrightarrow> \<exists>out'. SendHttpResponseHeaders_loop E L out = ret (L\<lparr>L_stack := TTable h # s\<rparr>, out')
       \<and> wrote (concat (map header_line post)) out out'"
proof (induction post arbitrary: pre k L out)
  case Nil
  then show ?case
    using headers_loop_end[OF Nil(1,2)] by (auto simp: next_entry_strings wrote_Nil)
next
  case (Cons kv post)
  have "luaH_next E \<lparr>t_node = es, t_metatable = None\<rparr> k = ret (Some (TString (fst kv), TString (snd kv)))"
    using Cons.prems(6) by (simp add: next_entry_strings)
  from headers_loop_step[OF Cons.prems(1,2) this Cons.prems(5)]
  obtain o1 where o1: "SendHttpResponseHeaders_loop E L out
        = SendHttpResponseHeaders_loop E (L\<lparr>L_stack := TString (fst kv) # TTable h # s\<rparr>) o1"
      "wrote (header_line kv) out o1"
    by auto
  have t: "traversal E es = (pre @ [(TString (fst kv), TString (snd kv))]) @ string_entries post"
    using Cons.prems(4) by (simp add: string_entries_def split: prod.splits)
  have nx: "luaH_next E \<lparr>t_node = es, t_metatable = None\<rparr> (TString (fst kv)) = ret (next_entry (string_entries post))"
    using t Cons.prems(3) by (intro luaH_next_after) simp_all
  obtain o2 where "SendHttpResponseHeaders_loop E (L\<lparr>L_stack := TString (fst kv) # TTable h # s\<rparr>) o1
        = ret (L\<lparr>L_stack := TTable h # s\<rparr>, o2)" "wrote (concat (map header_line post)) o1 o2"
    using Cons.IH[OF _ _ Cons.prems(3) t wrote_usable[OF Cons.prems(5) o1(2)] nx, of "L\<lparr>L_stack := TString (fst kv) # TTable h # s\<rparr>"]
      Cons.prems(2) by auto
  then show ?case using o1 wrote_trans[OF o1(2)] by auto
qed

lemma headers_loop_all:
  assumes "L_stack L = TNil # TTable h # s" "plain_table L h es" "distinct (map fst es)" "traversal E es = string_entries hds" "usable out"
  shows "\<exists>out'. SendHttpResponseHeaders_loop E L out = ret (L\<lparr>L_stack := TTable h # s\<rparr>, out')
       \<and> wrote (concat (map header_line hds)) out out'"
  using assms luaH_next_first[of E "\<lparr>t_node = es, t_metatable = None\<rparr>"] by (intro headers_loop_rest[where pre = "[]"]) simp_all

text \<open>C37: a response with a headers table of strings sends one \<open>name: value\<close> line for each header in the
  order \<open>lua_next\<close> visits the table, an empty line, and the body when it is a string; names, values and body end
  at their first NUL. The status of the response is never sent, whatever it is. On a connection that fails, a part
  of this is sent and the stream is closed.\<close>
theorem SendHttpResponse_output:
  assumes "L_stack L = TTable t # s" "plain_table L t ps" "map_of ps (TString (str ''status'' @ [0])) = None"
    "field ps ''headers'' = TTable h" "plain_table L h (string_entries hds)" "distinct (map fst hds)" "writer_ok out"
  shows "\<exists>L' out' hds' bs. SendHttpResponse E L out = ret (L', out')
       \<and> string_entries hds' = traversal E (string_entries hds) \<and> mset hds' = mset hds
       \<and> bs = concat (map header_line hds') @ CRLF @ (case field ps ''body'' of TString b \<Rightarrow> printed b | _ \<Rightarrow> [])
       \<and> (writer_ok out' \<and> stream_written out' = stream_written out @ bs
          \<or> fs_conn out \<noteq> None \<and> fs_isClosed out' \<and> (\<exists>rest. stream_written out @ bs = stream_written out' @ rest))"
proof -
  let ?L = "api_incr_top (TString (str ''headers'')) L" and ?L2 = "L\<lparr>L_stack := TTable h # TTable t # s\<rparr>"
  let ?b = "field ps ''body''" and ?LB = "api_incr_top (TString (str ''body'')) L"
  let ?body = "case ?b of TString b \<Rightarrow> printed b | _ \<Rightarrow> []"
  obtain hds' where hds': "traversal E (string_entries hds) = string_entries hds'" "mset hds' = mset hds"
    by (rule string_entries_traversal[OF assms(6)])
  have us: "usable out" using assms(7) by (simp add: usable_def)
  have "lua_gettable E ?L (- 2) = ret (LUA_TTABLE, ?L2)"
    using assms(1,2,4) get_field_at[of ?L "str ''headers''" t s ps "TTable h" E] by (simp add: field_def)
  moreover obtain o1 where o1: "SendHttpResponseHeaders_loop E (lua_pushnil ?L2) out = ret (?L2, o1)"
      "wrote (concat (map header_line hds')) out o1"
    using headers_loop_all[of "lua_pushnil ?L2" h "TTable t # s" "string_entries hds" E hds' out] assms(5,6) us hds'(1)
    by (auto simp: lua_pushnil_def string_entries_distinct)
  moreover obtain o2 where o2: "FCGX_FPrintF_pieces [CRLF] o1 = ret o2" "wrote CRLF o1 o2"
    using FPrintF_pieces_ok[OF wrote_usable[OF us o1(2)], of "[CRLF]"] by auto
  ultimately have headers: "SendHttpResponseHeaders E L out = ret (L, o2)"
    using assms(1) by (simp add: SendHttpResponseHeaders_def lua_simps stack_same del: FCGX_FPrintF_pieces.simps)
  have us2: "usable o2" using wrote_usable us o1(2) o2(2) by blast
  have body: "lua_gettable E ?LB (- 2) = ret (ttnov ?b, ?LB\<lparr>L_stack := ?b # TTable t # s\<rparr>)"
    using assms(1,2) by (intro get_field_at[of _ _ _ _ ps]) (simp_all add: field_def)
  have "\<exists>L' out'. SendHttpResponseBody E L o2 = ret (L', out') \<and> wrote ?body o2 out'"
  proof (cases "\<exists>b. ?b = TString b")
    case True
    then obtain b where b: "?b = TString b" by blast
    show ?thesis
      using FPrintF_pieces_ok[OF us2, of "[printed b]"] body
      by (auto simp: SendHttpResponseBody_def lua_simps b lua_tolstring_def simp del: FCGX_FPrintF_pieces.simps)
  next
    case False
    then show ?thesis using body us2 by (cases ?b) (auto simp: SendHttpResponseBody_def lua_simps wrote_Nil)
  qed
  then obtain L' o3 where o3: "SendHttpResponseBody E L o2 = ret (L', o3)" "wrote ?body o2 o3" by blast
  have "wrote (concat (map header_line hds') @ CRLF @ ?body) out o3"
    using wrote_trans[OF o1(2) wrote_trans[OF o2(2) o3(2)]] by simp
  moreover have "SendHttpResponse E L out = ret (L', o3)"
    using SendHttpResponseStatus_none[OF assms(1-3)] headers o3(1) by (simp add: SendHttpResponse_def)
  ultimately show ?thesis
    using writer_not_dead[OF assms(7)] hds' by (auto simp: wrote_def dead_def)
qed

definition response_state :: "unit lua_State" where
  "response_state = example_state\<lparr>G_heap := Map.empty
     (0 \<mapsto> \<lparr>t_node = [(TString (str ''status''), TInteger 404), (TString (str ''headers''), TTable 1),
        (TString (str ''body''), TString (str ''hi''))], t_metatable = None\<rparr>,
      1 \<mapsto> \<lparr>t_node = string_entries [(str ''A'', str ''b'')], t_metatable = None\<rparr>)\<rparr>"

definition response_stream :: FCGX_Stream where
  "response_stream = example_writer None"

theorem SendHttpResponse_output_witness:
  "\<exists>L' out'. SendHttpResponse example_env response_state response_stream = ret (L', out')
     \<and> stream_written out' = str ''A: b'' @ CRLF @ CRLF @ str ''hi''"
proof -
  let ?ps = "[(TString (str ''status''), TInteger 404), (TString (str ''headers''), TTable 1), (TString (str ''body''), TString (str ''hi''))]"
  have 1: "L_stack response_state = TTable 0 # []" "plain_table response_state 0 ?ps"
      "plain_table response_state 1 (string_entries [(str ''A'', str ''b'')])"
    by (simp_all add: response_state_def plain_table_def example_state_def)
  have 2: "map_of ?ps (TString (str ''status'' @ [0])) = None" "field ?ps ''headers'' = TTable 1"
    "distinct (map fst [(str ''A'', str ''b'')])"
    by (simp_all add: field_def str_def)
  have 3: "writer_ok response_stream" "stream_written response_stream = []"
    unfolding response_stream_def example_writer_def by (rule NewStream_writer)+
  have none: "fs_conn response_stream = None"
    by (simp add: response_stream_def example_writer_def NewStream_def Let_def)
  have 4: "concat (map header_line [(str ''A'', str ''b'')]) @ CRLF
      @ (case field ?ps ''body'' of TString b \<Rightarrow> printed b | _ \<Rightarrow> []) = str ''A: b'' @ CRLF @ CRLF @ str ''hi''"
    by (simp add: header_line_def printed_def field_def str_def)
  show ?thesis
    using SendHttpResponse_output[OF 1(1,2) 2(1,2) 1(3) 2(3) 3(1), of example_env] none 4 3(2)
    apply (elim exE)
    subgoal for L' out' hds' bs by (intro exI[of _ L'] exI[of _ out']) (simp add: header_line_def printed_def field_def str_def)
    done
qed

subsection \<open>The request body\<close>

text \<open>C38: the request body. A request without \<open>CONTENT_LENGTH\<close> reads through NULL. With a length of
  \<open>n\<close>, the request table gets exactly the next \<open>n\<close> bytes of the input as its \<open>body\<close> when there
  are that many, and otherwise the Lua string is made of uninitialised heap memory. A length of
  \<open>-1\<close> allocates nothing and copies far out of bounds.\<close>
theorem ReadHttpRequestBody_cases:
  assumes "L_stack L = TTable t # s" "plain_table L t ps" "reader_ok (req_in req)"
  shows "(FCGX_GetParam (str ''CONTENT_LENGTH'') (req_envp req) = ret None
            \<longrightarrow> ReadHttpRequestBody E L req = throw Null_Deref)
       \<and> (\<forall>cl. FCGX_GetParam (str ''CONTENT_LENGTH'') (req_envp req) = ret (Some cl)
            \<longrightarrow> (sscanf_d cl = ret (Some (- 1)) \<longrightarrow> ReadHttpRequestBody E L req = throw Out_Of_Bounds)
              \<and> (\<forall>n. sscanf_d cl = ret (Some (int n)) \<and> n < 2 ^ 31
                  \<longrightarrow> (if length (stream_content (req_in req)) < n
                      then ReadHttpRequestBody E L req = throw Uninitialised_Read
                      else \<exists>inp. ReadHttpRequestBody E L req
                            = ret (True, heap_set L t \<lparr>t_node = alist_set (TString (str ''body''))
                                     (TString (take n (stream_content (req_in req)))) ps, t_metatable = None\<rparr>,
                                   req\<lparr>req_in := inp\<rparr>)
                          \<and> reader_ok inp \<and> stream_content inp = drop n (stream_content (req_in req)))))"
proof (intro conjI allI impI)
  assume "FCGX_GetParam (str ''CONTENT_LENGTH'') (req_envp req) = ret None"
  then show "ReadHttpRequestBody E L req = throw Null_Deref" by (simp add: ReadHttpRequestBody_def)
next
  fix cl
  assume "FCGX_GetParam (str ''CONTENT_LENGTH'') (req_envp req) = ret (Some cl)" "sscanf_d cl = ret (Some (- 1))"
  moreover have "unat (- 1 :: size_t) = 2 ^ 64 - 1" by (simp add: unsigned_minus_1_eq_mask mask_eq_exp_minus_1)
  ultimately show "ReadHttpRequestBody E L req = throw Out_Of_Bounds"
    by (simp add: ReadHttpRequestBody_def malloc_ok_def FCGX_GetStr_def lua_simps Let_def)
next
  fix cl n
  assume g: "FCGX_GetParam (str ''CONTENT_LENGTH'') (req_envp req) = ret (Some cl)"
    and n: "sscanf_d cl = ret (Some (int n)) \<and> n < 2 ^ 31"
  have u: "unat (of_nat n :: size_t) = n" using n by (simp add: unat_of_nat_size)
  have ok: "malloc_ok (of_nat n + 1 :: size_t)"
    using n unat_of_nat_size[of "n + 1"] by (simp add: malloc_ok_def add.commute)
  obtain inp where inp: "FCGX_GetStr (int n) (req_in req) = ret (take n (stream_content (req_in req)), inp)" "reader_ok inp"
      "stream_content inp = drop n (stream_content (req_in req))"
    using stream.get_ok[OF assms(3), of n] by blast
  let ?c = "stream_content (req_in req)"
  show "if length ?c < n then ReadHttpRequestBody E L req = throw Uninitialised_Read
        else \<exists>inp. ReadHttpRequestBody E L req
            = ret (True, heap_set L t \<lparr>t_node = alist_set (TString (str ''body'')) (TString (take n ?c)) ps, t_metatable = None\<rparr>,
                   req\<lparr>req_in := inp\<rparr>) \<and> reader_ok inp \<and> stream_content inp = drop n ?c"
  proof (cases "length ?c < n")
    case True
    then show ?thesis using g n u ok inp by (simp add: ReadHttpRequestBody_def lua_simps Let_def)
  next
    case False
    then show ?thesis using g n u ok inp assms(1,2)
      by (simp add: ReadHttpRequestBody_def lua_simps Let_def plain_table_def lua_unfold) blast
  qed
qed

definition body_request :: FCGX_Request where
  "body_request = \<lparr>req_envp = [str ''CONTENT_LENGTH=3'' @ [0]],
     req_in = \<lparr>fs_buf = str ''ab'', fs_rdNext = 0, fs_wrNext = 0, fs_stop = 2, fs_stopUnget = 0,
       fs_isReader = True, fs_isClosed = False, fs_errno = 0, fs_type = 5, fs_requestId = 1, fs_more = [str ''cd''], fs_conn = None, fs_wire = []\<rparr>,
     req_out = failing_writer\<rparr>"

lemma body_request_length:
  "FCGX_GetParam (str ''CONTENT_LENGTH'') (req_envp body_request) = ret (Some (str ''3'' @ [0]))"
  "sscanf_d (str ''3'' @ [0]) = ret (Some (int 3))" "stream_content (req_in body_request) = str ''abcd''"
  by code_simp+

theorem ReadHttpRequestBody_cases_witness:
  "\<exists>inp. ReadHttpRequestBody example_env example_state body_request
     = ret (True, heap_set example_state 0 \<lparr>t_node = [(TString (str ''body''), TString (str ''abc''))], t_metatable = None\<rparr>,
            body_request\<lparr>req_in := inp\<rparr>)
     \<and> stream_content inp = str ''d''"
proof -
  have 1: "L_stack example_state = TTable 0 # []" "plain_table example_state 0 []" "reader_ok (req_in body_request)"
    by (simp_all add: example_state_def plain_table_def body_request_def reader_ok_def str_def)
  have 2: "take 3 (str ''abcd'') = str ''abc''" "drop 3 (str ''abcd'') = str ''d''" "\<not> length (str ''abcd'') < 3"
    by (simp_all add: str_def)
  show ?thesis
    using ReadHttpRequestBody_cases[OF 1, of example_env] body_request_length 2 by auto
qed

subsection \<open>Header names\<close>

fun join :: "byte \<Rightarrow> bytes list \<Rightarrow> bytes" where
  "join c [] = []"
| "join c [w] = w"
| "join c (w # ws) = w @ c # join c ws"

definition title :: "bytes \<Rightarrow> bytes" where
  "title w = (case w of [] \<Rightarrow> [] | c # cs \<Rightarrow> toupper c # map tolower cs)"

lemma header_word_tail:
  "0x5F \<notin> set w \<Longrightarrow> ConvertEnvVarToHeader_loop (w @ r) (length w + m) False
     = xbind (ConvertEnvVarToHeader_loop r m False) (\<lambda>o'. ret (map tolower w @ o'))"
  by (induction w) (auto simp: peek_def xbind_assoc)

lemma header_word:
  assumes "0x5F \<notin> set w"
  shows "ConvertEnvVarToHeader_loop (w @ r) (length w + m) True
     = xbind (ConvertEnvVarToHeader_loop r m (w = [])) (\<lambda>o'. ret (title w @ o'))"
  using assms by (cases w) (auto simp: title_def peek_def header_word_tail xbind_assoc)

lemma header_words:
  "\<forall>w \<in> set ws. 0x5F \<notin> set w \<Longrightarrow>
     ConvertEnvVarToHeader_loop (join 0x5F ws @ r) (length (join 0x5F ws)) True = ret (join 0x2D (map title ws))"
proof (induction ws rule: induct_list012)
  case (2 w)
  then show ?case using header_word[of w r 0] by simp
next
  case (3 w w' ws)
  then show ?case
    using header_word[of w "0x5F # join 0x5F (w' # ws) @ r" "Suc (length (join 0x5F (w' # ws)))"]
    by (simp add: peek_def)
qed simp

text \<open>the name of a header is the environment variable without its prefix, with its words
  (separated by underscores) in title case and joined by hyphens.\<close>
theorem ConvertEnvVarToHeader_titles:
  assumes "\<forall>w \<in> set ws. 0x5F \<notin> set w" "length p + length (join 0x5F ws) < 2 ^ 62"
    "unat (st_len pfx) = length p" "len = of_nat (length p + length (join 0x5F ws))"
  shows "ConvertEnvVarToHeader pfx (p @ join 0x5F ws @ r) len = ret (Some (join 0x2D (map title ws)))"
proof -
  let ?n = "length (join 0x5F ws)"
  have "st_len pfx = of_nat (length p)" using assms(3) by (metis of_nat_unat ucast_id)
  then have o': "len - st_len pfx = of_nat ?n" using assms(4) by simp
  have u: "unat (of_nat ?n :: size_t) = ?n" "unat (of_nat (?n + 1) :: size_t) = ?n + 1"
    using assms(2) by (intro unat_of_nat_size; simp)+
  then have ok: "malloc_ok (of_nat ?n + 1)" using assms(2) by (simp add: malloc_ok_def add.commute)
  show ?thesis
    using ok header_words[OF assms(1), of r] by (simp add: ConvertEnvVarToHeader_def o' Let_def u(1) assms(3))
qed

theorem ConvertEnvVarToHeader_titles_witness:
  "ConvertEnvVarToHeader \<lparr>st_val = str ''HTTP_'' @ [0], st_len = 5\<rparr> (str ''HTTP_'' @ join 0x5F [str ''USER'', str ''AGENT''] @ str ''=x'') 15
     = ret (Some (str ''User-Agent''))"
proof -
  have "join 0x2D (map title [str ''USER'', str ''AGENT'']) = str ''User-Agent''" by code_simp
  then show ?thesis
    using ConvertEnvVarToHeader_titles[of "[str ''USER'', str ''AGENT'']" "str ''HTTP_''" "\<lparr>st_val = str ''HTTP_'' @ [0], st_len = 5\<rparr>" 15 "str ''=x''"]
    by (simp add: str_def)
qed

end
