(* ===== verification/MdbTxn.thy ===== *)
theory MdbTxn
  imports Prelude
begin

text \<open>
  The life of LMDB environments and top-level transactions (\<open>mdb_txn_begin\<close> to
  \<open>mdb_env_close\<close> of \<open>deps/lmdb/mdb.c\<close>), without the pages: which environment and transaction
  structs are allocated, who holds the writer mutex and the reader slots.

  \<open>mdb\<close> is the C heap of these structs; a pointer is the number of its struct, and looking at a
  freed one is the fault \<open>Use_After_Free\<close>. Freed numbers are not used again. All calls are made
  by one thread: taking the writer mutex while it is held does not return. Nested
  transactions, which LuaDB never starts, and \<open>MDB_MAP_RESIZED\<close> are left out; \<open>mt_dirty\<close> stands for
  a transaction that has something to write.
\<close>

record MDB_env =
  me_flags :: "32 word"
  me_userctx :: "bytes option"
  me_path :: bytes
  me_txn0 :: "nat option"
  me_txn :: "nat option"
  me_txns :: bool
  me_wmutex :: bool
  me_txkey :: "bool option"
  me_readers :: nat
  me_maxreaders :: nat

record MDB_txn =
  mt_env :: nat
  mt_rdonly :: bool
  mt_error :: bool
  mt_dirty :: bool
  mt_reader :: bool

record mdb =
  m_envs :: "nat \<Rightarrow> MDB_env option"
  m_txns :: "nat \<Rightarrow> MDB_txn option"
  m_next :: nat

definition MDB_RDONLY :: "32 word" where "MDB_RDONLY = 0x20000"
definition MDB_NOTLS :: "32 word" where "MDB_NOTLS = 0x200000"
definition MDB_NOLOCK :: "32 word" where "MDB_NOLOCK = 0x400000"
definition MDB_FATAL_ERROR :: "32 word" where "MDB_FATAL_ERROR = 0x80000000"

definition has_flag :: "32 word \<Rightarrow> 32 word \<Rightarrow> bool" where
  "has_flag flags f \<longleftrightarrow> flags AND f \<noteq> 0"

abbreviation (input) RC_EACCES :: int where "RC_EACCES \<equiv> 13"
abbreviation (input) RC_EINVAL :: int where "RC_EINVAL \<equiv> 22"
abbreviation (input) RC_PANIC :: int where "RC_PANIC \<equiv> - 30795"
abbreviation (input) RC_READERS_FULL :: int where "RC_READERS_FULL \<equiv> - 30790"
abbreviation (input) RC_BAD_RSLOT :: int where "RC_BAD_RSLOT \<equiv> - 30783"
abbreviation (input) RC_BAD_TXN :: int where "RC_BAD_TXN \<equiv> - 30782"

definition env_at :: "mdb \<Rightarrow> nat \<Rightarrow> MDB_env exec" where
  "env_at m e = (case m_envs m e of None \<Rightarrow> throw Use_After_Free | Some env \<Rightarrow> ret env)"

definition txn_at :: "mdb \<Rightarrow> nat \<Rightarrow> MDB_txn exec" where
  "txn_at m p = (case m_txns m p of None \<Rightarrow> throw Use_After_Free | Some txn \<Rightarrow> ret txn)"

definition env_set :: "mdb \<Rightarrow> nat \<Rightarrow> MDB_env \<Rightarrow> mdb" where
  "env_set m e env = m\<lparr>m_envs := (m_envs m)(e \<mapsto> env)\<rparr>"

definition txn_set :: "mdb \<Rightarrow> nat \<Rightarrow> MDB_txn \<Rightarrow> mdb" where
  "txn_set m p txn = m\<lparr>m_txns := (m_txns m)(p \<mapsto> txn)\<rparr>"

definition txn_free :: "mdb \<Rightarrow> nat \<Rightarrow> mdb" where
  "txn_free m p = m\<lparr>m_txns := (m_txns m)(p := None)\<rparr>"

subsection \<open>Beginning a transaction\<close>

text \<open>Claiming a slot of the reader table.\<close>

definition claim_reader :: "MDB_env \<Rightarrow> MDB_env option" where
  "claim_reader env =
     (if me_readers env = me_maxreaders env then None else Some (env\<lparr>me_readers := me_readers env + 1\<rparr>))"

definition mdb_txn_renew0 :: "mdb \<Rightarrow> nat \<Rightarrow> (int \<times> mdb) exec" where
  "mdb_txn_renew0 m p =
     xbind (txn_at m p) (\<lambda>txn.
     xbind (env_at m (mt_env txn)) (\<lambda>env.
     let e = mt_env txn
     in if mt_rdonly txn then
          if \<not> me_txns env then ret (0, txn_set m p (txn\<lparr>mt_reader := False\<rparr>))
          else if has_flag (me_flags env) MDB_NOTLS then
            (case claim_reader env of
               None \<Rightarrow> ret (RC_READERS_FULL, m)
             | Some env \<Rightarrow> ret (0, txn_set (env_set m e env) p (txn\<lparr>mt_reader := True\<rparr>)))
          else
            (case me_txkey env of
               Some busy \<Rightarrow>
                 if busy then ret (RC_BAD_RSLOT, m)
                 else ret (0, txn_set (env_set m e (env\<lparr>me_txkey := Some True\<rparr>)) p (txn\<lparr>mt_reader := True\<rparr>))
             | None \<Rightarrow>
                 (case claim_reader env of
                    None \<Rightarrow> ret (RC_READERS_FULL, m)
                  | Some env \<Rightarrow>
                      ret (0, txn_set (env_set m e (env\<lparr>me_txkey := Some True\<rparr>)) p (txn\<lparr>mt_reader := True\<rparr>))))
        else if me_txns env \<and> me_wmutex env then None
        else
          ret (0, txn_set (env_set m e (env\<lparr>me_wmutex := me_txns env, me_txn := Some p\<rparr>)) p
                 (txn\<lparr>mt_error := False, mt_dirty := False\<rparr>))))"

definition mdb_txn_begin :: "mdb \<Rightarrow> nat \<Rightarrow> 32 word \<Rightarrow> (int \<times> nat option \<times> mdb) exec" where
  "mdb_txn_begin m e flags =
     xbind (env_at m e) (\<lambda>env.
     if has_flag (me_flags env) MDB_FATAL_ERROR then ret (RC_PANIC, None, m)
     else if has_flag (me_flags env) MDB_RDONLY \<and> \<not> has_flag flags MDB_RDONLY then ret (RC_EACCES, None, m)
     else if \<not> has_flag flags MDB_RDONLY then
       (case me_txn0 env of
          None \<Rightarrow> throw Null_Deref
        | Some p \<Rightarrow> xbind (mdb_txn_renew0 m p) (\<lambda>(rc, m). ret (rc, if rc = 0 then Some p else None, m)))
     else
       let p = m_next m;
           m = (txn_set m p \<lparr>mt_env = e, mt_rdonly = True, mt_error = False, mt_dirty = False, mt_reader = False\<rparr>)
                 \<lparr>m_next := p + 1\<rparr>
       in xbind (mdb_txn_renew0 m p) (\<lambda>(rc, m).
          if rc \<noteq> 0 then ret (rc, None, txn_free m p) else ret (0, Some p, m)))"

subsection \<open>Ending a transaction\<close>

definition mdb_txn_env :: "mdb \<Rightarrow> nat option \<Rightarrow> nat option exec" where
  "mdb_txn_env m txn =
     (case txn of None \<Rightarrow> ret None | Some p \<Rightarrow> xbind (txn_at m p) (\<lambda>txn. ret (Some (mt_env txn))))"

definition mdb_txn_reset0 :: "mdb \<Rightarrow> nat \<Rightarrow> mdb exec" where
  "mdb_txn_reset0 m p =
     xbind (txn_at m p) (\<lambda>txn.
     xbind (env_at m (mt_env txn)) (\<lambda>env.
     let e = mt_env txn
     in if mt_rdonly txn then
          if mt_reader txn then
            if has_flag (me_flags env) MDB_NOTLS then ret m
            else ret (txn_set (env_set m e (env\<lparr>me_txkey := Some False\<rparr>)) p (txn\<lparr>mt_reader := False\<rparr>))
          else ret m
        else ret (env_set m e (env\<lparr>me_txn := None, me_wmutex := (if me_txns env then False else me_wmutex env)\<rparr>))))"

definition mdb_txn_abort :: "mdb \<Rightarrow> nat option \<Rightarrow> mdb exec" where
  "mdb_txn_abort m txn =
     (case txn of
        None \<Rightarrow> ret m
      | Some p \<Rightarrow>
          xbind (mdb_txn_reset0 m p) (\<lambda>m.
          xbind (txn_at m p) (\<lambda>txn.
          let e = mt_env txn
          in xbind (env_at m e) (\<lambda>env.
             let m = (if mt_rdonly txn \<and> mt_reader txn
                      then env_set m e (env\<lparr>me_readers := me_readers env - 1\<rparr>) else m)
             in ret (if me_txn0 env \<noteq> Some p then txn_free m p else m)))))"

text \<open>\<open>write_rc\<close> is what saving the free list, writing the pages and syncing them return; a failure to
  write the meta page after that, which makes the environment unusable, is left out.\<close>

definition mdb_txn_commit :: "mdb \<Rightarrow> int \<Rightarrow> nat option \<Rightarrow> (int \<times> mdb) exec" where
  "mdb_txn_commit m write_rc txn =
     (case txn of
        None \<Rightarrow> ret (RC_EINVAL, m)
      | Some p \<Rightarrow>
          xbind (txn_at m p) (\<lambda>txn.
          let e = mt_env txn; fail = (\<lambda>rc. xbind (mdb_txn_abort m (Some p)) (\<lambda>m. ret (rc, m)))
          in xbind (env_at m e) (\<lambda>env.
             if mt_rdonly txn then fail 0
             else if mt_error txn then fail RC_BAD_TXN
             else if me_txn env \<noteq> Some p then fail RC_EINVAL
             else if mt_dirty txn \<and> write_rc \<noteq> 0 then fail write_rc
             else
               let m = env_set m e (env\<lparr>me_txn := None, me_wmutex := (if me_txns env then False else me_wmutex env)\<rparr>)
               in ret (0, if me_txn0 env \<noteq> Some p then txn_free m p else m))))"

subsection \<open>Environments\<close>

definition mdb_env_set_userctx :: "mdb \<Rightarrow> nat option \<Rightarrow> bytes option \<Rightarrow> (int \<times> mdb) exec" where
  "mdb_env_set_userctx m e ctx =
     (case e of
        None \<Rightarrow> ret (RC_EINVAL, m)
      | Some e \<Rightarrow> xbind (env_at m e) (\<lambda>env. ret (0, env_set m e (env\<lparr>me_userctx := ctx\<rparr>))))"

definition mdb_env_get_userctx :: "mdb \<Rightarrow> nat option \<Rightarrow> bytes option exec" where
  "mdb_env_get_userctx m e =
     (case e of None \<Rightarrow> ret None | Some e \<Rightarrow> xbind (env_at m e) (\<lambda>env. ret (me_userctx env)))"

text \<open>The part of a successful \<open>mdb_env_open\<close> that matters here: the reserved write transaction
  and the lock file.\<close>

definition mdb_env_opened :: "mdb \<Rightarrow> bytes \<Rightarrow> 32 word \<Rightarrow> nat \<Rightarrow> nat \<times> mdb" where
  "mdb_env_opened m path flags maxreaders =
     (let e = m_next m; p = e + 1; rdonly = has_flag flags MDB_RDONLY;
          env = \<lparr>me_flags = flags, me_userctx = None, me_path = path,
                 me_txn0 = (if rdonly then None else Some p), me_txn = None,
                 me_txns = (\<not> has_flag flags MDB_NOLOCK), me_wmutex = False,
                 me_txkey = None, me_readers = 0, me_maxreaders = maxreaders\<rparr>;
          m = (env_set m e env)\<lparr>m_next := p + 1\<rparr>
      in (e, if rdonly then m
             else txn_set m p \<lparr>mt_env = e, mt_rdonly = False, mt_error = False, mt_dirty = False, mt_reader = False\<rparr>))"

definition mdb_env_close0 :: "mdb \<Rightarrow> nat \<Rightarrow> mdb exec" where
  "mdb_env_close0 m e =
     xbind (env_at m e) (\<lambda>env. ret (case me_txn0 env of None \<Rightarrow> m | Some p \<Rightarrow> txn_free m p))"

definition mdb_env_close :: "mdb \<Rightarrow> nat option \<Rightarrow> mdb exec" where
  "mdb_env_close m e =
     (case e of
        None \<Rightarrow> ret m
      | Some e \<Rightarrow> xbind (mdb_env_close0 m e) (\<lambda>m. ret (m\<lparr>m_envs := (m_envs m)(e := None)\<rparr>)))"

end
