(* ===== verification/LmdbEnv.thy ===== *)
theory LmdbEnv
  imports LuaApi MdbTxn
begin

text \<open>
  Environments and transactions as Lua objects: the library functions and the \<open>lmdb.Env\<close> and
  \<open>lmdb.Tx\<close> life-cycle methods of \<open>src/src/lmdb.c\<close>, on the Lua stack of the theory LuaApi and the
  structs of the theory MdbTxn.

  \<open>w_env\<close>, \<open>w_tx\<close> and \<open>w_cursor\<close> hold the C blocks of the userdata of the three kinds; the number of
  a userdata is drawn from the same counter as that of a table. The reference table of an
  environment is weak (\<open>__mode = "kv"\<close>): \<open>gc_step\<close> is what a garbage collection may do to it.
\<close>

record LuaDB_LmdbTx =
  tx_txn :: "nat option"
  tx_dbi :: nat

record 'd world =
  w_L :: "'d lua_State"
  w_env :: "nat \<Rightarrow> (nat option) option"
  w_tx :: "nat \<Rightarrow> LuaDB_LmdbTx option"
  w_cursor :: "nat \<Rightarrow> (nat option) option"
  w_mdb :: mdb

definition LMDB_ENV_REGISTRY_NAME :: bytes where "LMDB_ENV_REGISTRY_NAME = str ''lmdb.Env''"
definition LMDB_TX_REGISTRY_NAME :: bytes where "LMDB_TX_REGISTRY_NAME = str ''lmdb.Tx''"
definition LMDB_CURSOR_REGISTRY_NAME :: bytes where "LMDB_CURSOR_REGISTRY_NAME = str ''lmdb.Cursor''"

subsection \<open>Lua calls on the world\<close>

definition on_L :: "'d world \<Rightarrow> ('d lua_State \<Rightarrow> 'd lua_State exec) \<Rightarrow> 'd world exec" where
  "on_L w f = xbind (f (w_L w)) (\<lambda>L. ret (w\<lparr>w_L := L\<rparr>))"

definition on_L2 :: "'d world \<Rightarrow> ('d lua_State \<Rightarrow> ('a \<times> 'd lua_State) exec) \<Rightarrow> ('a \<times> 'd world) exec" where
  "on_L2 w f = xbind (f (w_L w)) (\<lambda>(r, L). ret (r, w\<lparr>w_L := L\<rparr>))"

definition luaL_getmetatable :: "'d lua_env \<Rightarrow> 'd lua_State \<Rightarrow> bytes \<Rightarrow> (lua_type \<times> 'd lua_State) exec" where
  "luaL_getmetatable E L n = lua_getfield E L LUA_REGISTRYINDEX n"

definition lua_touserdata :: "'d lua_State \<Rightarrow> int \<Rightarrow> nat option exec" where
  "lua_touserdata L idx = xbind (value_at L idx) (\<lambda>v. ret (case v of TUserdata u \<Rightarrow> Some u | _ \<Rightarrow> None))"

definition lua_rawequal :: "'d lua_State \<Rightarrow> int \<Rightarrow> int \<Rightarrow> bool exec" where
  "lua_rawequal L i j = xbind (value_at L i) (\<lambda>a. xbind (value_at L j) (\<lambda>b. ret (a = b)))"

definition lua_newuserdata :: "'d lua_State \<Rightarrow> nat \<times> 'd lua_State" where
  "lua_newuserdata L =
     (G_next L, api_incr_top (TUserdata (G_next L))
                  (L\<lparr>G_next := G_next L + 1, G_udmt := (G_udmt L)(G_next L := None)\<rparr>))"

definition luaL_testudata :: "'d lua_env \<Rightarrow> 'd lua_State \<Rightarrow> int \<Rightarrow> bytes \<Rightarrow> (nat option \<times> 'd lua_State) exec" where
  "luaL_testudata E L ud tname =
     xbind (lua_touserdata L ud) (\<lambda>p.
     case p of
       None \<Rightarrow> ret (None, L)
     | Some _ \<Rightarrow>
         xbind (lua_getmetatable L ud) (\<lambda>(has, L).
         if \<not> has then ret (None, L)
         else
           xbind (luaL_getmetatable E L tname) (\<lambda>(_, L).
           xbind (lua_rawequal L (- 1) (- 2)) (\<lambda>eq.
           xbind (lua_pop L 2) (\<lambda>L. ret (if eq then p else None, L))))))"

definition luaL_checkudata :: "'d lua_env \<Rightarrow> 'd lua_State \<Rightarrow> int \<Rightarrow> bytes \<Rightarrow> (nat \<times> 'd lua_State) exec" where
  "luaL_checkudata E L ud tname =
     xbind (luaL_testudata E L ud tname) (\<lambda>(p, L).
     case p of None \<Rightarrow> lua_throw ''bad argument'' | Some u \<Rightarrow> ret (u, L))"

definition luaL_newmetatable :: "'d lua_env \<Rightarrow> 'd lua_State \<Rightarrow> bytes \<Rightarrow> (bool \<times> 'd lua_State) exec" where
  "luaL_newmetatable E L tname =
     xbind (luaL_getmetatable E L tname) (\<lambda>(t, L).
     if t \<noteq> LUA_TNIL then ret (False, L)
     else
       xbind (lua_pop L 1) (\<lambda>L.
       xbind (lua_pushstring (lua_createtable L) (Some (tname @ [0]))) (\<lambda>L.
       xbind (lua_setfield E L (- 2) (str ''__name'')) (\<lambda>L.
       xbind (lua_pushvalue L (- 1)) (\<lambda>L.
       xbind (lua_setfield E L LUA_REGISTRYINDEX tname) (\<lambda>L. ret (True, L)))))))"

subsection \<open>The reference table\<close>

text \<open>A userdata is not a block of its kind only if the Lua state is inconsistent.\<close>

definition env_block :: "'d world \<Rightarrow> nat \<Rightarrow> nat option exec" where
  "env_block w u = (case w_env w u of None \<Rightarrow> throw Out_Of_Bounds | Some loc \<Rightarrow> ret loc)"

definition tx_block :: "'d world \<Rightarrow> nat \<Rightarrow> LuaDB_LmdbTx exec" where
  "tx_block w u = (case w_tx w u of None \<Rightarrow> throw Out_Of_Bounds | Some loc \<Rightarrow> ret loc)"

definition set_tx :: "'d world \<Rightarrow> nat \<Rightarrow> LuaDB_LmdbTx \<Rightarrow> 'd world" where
  "set_tx w u tx = w\<lparr>w_tx := (w_tx w)(u \<mapsto> tx)\<rparr>"

text \<open>\<open>uuid\<close> is what \<open>LuaDB_CreateGuid\<close> returns.\<close>

definition CreateLmdbEnvRefTable ::
  "'d lua_env \<Rightarrow> 'd world \<Rightarrow> bytes option \<Rightarrow> (bytes option \<times> 'd world) exec" where
  "CreateLmdbEnvRefTable E w uuid =
     (case uuid of
        None \<Rightarrow> ret (None, w)
      | Some s \<Rightarrow>
          xbind (on_L w (\<lambda>L.
            xbind (lua_pushstring L (Some (s @ [0]))) (\<lambda>L.
            xbind (lua_pushstring (lua_createtable (lua_createtable L)) (Some (str ''__mode'' @ [0]))) (\<lambda>L.
            xbind (lua_pushstring L (Some (str ''kv'' @ [0]))) (\<lambda>L.
            xbind (lua_settable E L (- 3)) (\<lambda>L.
            xbind (lua_setmetatable L (- 2)) (\<lambda>L. lua_settable E L LUA_REGISTRYINDEX))))))) (\<lambda>w. ret (uuid, w)))"

text \<open>\<open>*env\<close> NULL stands for the environment of the transaction.\<close>

definition ref_uuid :: "'d world \<Rightarrow> nat option \<Rightarrow> nat \<Rightarrow> bytes exec" where
  "ref_uuid w env txn =
     xbind (if env = None then mdb_txn_env (w_mdb w) (Some txn) else ret env) (\<lambda>env.
     xbind (mdb_env_get_userctx (w_mdb w) env) (\<lambda>uuid.
     case uuid of None \<Rightarrow> lua_throw ''no reference table found for environment'' | Some s \<Rightarrow> ret s))"

definition AddTxToLmdbEnvRefTable ::
  "'d lua_env \<Rightarrow> 'd world \<Rightarrow> nat option \<Rightarrow> nat option \<Rightarrow> int \<Rightarrow> 'd world exec" where
  "AddTxToLmdbEnvRefTable E w env txn idx =
     (case txn of
        None \<Rightarrow> throw Assert_Failed
      | Some txn \<Rightarrow>
          xbind (ref_uuid w env txn) (\<lambda>uuid.
          on_L w (\<lambda>L.
            xbind (lua_pushstring L (Some (uuid @ [0]))) (\<lambda>L.
            xbind (lua_gettable E L LUA_REGISTRYINDEX) (\<lambda>(_, L).
            xbind (lua_pushvalue L idx) (\<lambda>L.
            xbind (lua_pushvalue L idx) (\<lambda>L.
            xbind (lua_gettable E L (- 2)) (\<lambda>(_, L).
            xbind (lua_type_of L (- 1)) (\<lambda>type.
            if type = LUA_TTABLE then ret L
            else
              xbind (if type = LUA_TNONE then ret L else lua_pop L 1) (\<lambda>L.
              xbind (lua_settable E (lua_createtable L) (- 3)) (\<lambda>L. lua_settop L idx)))))))))))"

definition RemoveTxFromLmdbEnvRefTable ::
  "'d lua_env \<Rightarrow> 'd world \<Rightarrow> nat option \<Rightarrow> nat option \<Rightarrow> int \<Rightarrow> 'd world exec" where
  "RemoveTxFromLmdbEnvRefTable E w env txn idx =
     (case txn of
        None \<Rightarrow> throw Assert_Failed
      | Some txn \<Rightarrow>
          xbind (ref_uuid w env txn) (\<lambda>uuid.
          on_L w (\<lambda>L.
            xbind (lua_pushstring L (Some (uuid @ [0]))) (\<lambda>L.
            xbind (lua_gettable E L LUA_REGISTRYINDEX) (\<lambda>(_, L).
            xbind (lua_pushvalue L idx) (\<lambda>L.
            lua_settable E (lua_pushnil L) (- 3)))))))"

text \<open>The two loops of \<open>CleanLmdbEnvRefTable\<close>. Closing a cursor does not touch the transactions.\<close>

partial_function (option) CleanCursors :: "'d lua_env \<Rightarrow> 'd world \<Rightarrow> int \<Rightarrow> 'd world exec" where
  "CleanCursors E w cursoridx =
     xbind (on_L2 w (\<lambda>L. lua_next E L cursoridx)) (\<lambda>(more, w).
     if \<not> more then ret w
     else
       xbind (on_L2 w (\<lambda>L. luaL_checkudata E L (- 1) LMDB_CURSOR_REGISTRY_NAME)) (\<lambda>(c, w).
       xbind (on_L (w\<lparr>w_cursor := (w_cursor w)(c \<mapsto> None)\<rparr>) (\<lambda>L. lua_pop L 1)) (\<lambda>w.
       CleanCursors E w cursoridx)))"

partial_function (option) CleanTxns :: "'d lua_env \<Rightarrow> 'd world \<Rightarrow> int \<Rightarrow> 'd world exec" where
  "CleanTxns E w txidx =
     xbind (on_L2 w (\<lambda>L. lua_next E L txidx)) (\<lambda>(more, w).
     if \<not> more then ret w
     else
       xbind (on_L2 w (\<lambda>L. luaL_checkudata E L (- 2) LMDB_TX_REGISTRY_NAME)) (\<lambda>(u, w).
       xbind (tx_block w u) (\<lambda>loc.
       xbind (lua_type_of (w_L w) (- 1)) (\<lambda>type.
       if type \<noteq> LUA_TTABLE then xbind (on_L w (\<lambda>L. lua_pop L 1)) (\<lambda>w. CleanTxns E w txidx)
       else
         let cursoridx = lua_gettop (w_L w)
         in xbind (CleanCursors E (w\<lparr>w_L := lua_pushnil (w_L w)\<rparr>) cursoridx) (\<lambda>w.
            xbind (mdb_txn_abort (w_mdb w) (tx_txn loc)) (\<lambda>m.
            xbind (on_L (set_tx (w\<lparr>w_mdb := m\<rparr>) u (loc\<lparr>tx_txn := None\<rparr>)) (\<lambda>L. lua_pop L 1)) (\<lambda>w.
            CleanTxns E w txidx)))))))"

definition CleanLmdbEnvRefTable :: "'d lua_env \<Rightarrow> 'd world \<Rightarrow> bytes \<Rightarrow> 'd world exec" where
  "CleanLmdbEnvRefTable E w uuid =
     xbind (on_L2 w (\<lambda>L.
       xbind (lua_pushstring L (Some (uuid @ [0]))) (\<lambda>L.
       xbind (lua_gettable E L LUA_REGISTRYINDEX) (\<lambda>(_, L).
       xbind (lua_type_of L (- 1)) (\<lambda>type. ret (type, L)))))) (\<lambda>(type, w).
     if type \<noteq> LUA_TTABLE then ret w
     else CleanTxns E (w\<lparr>w_L := lua_pushnil (w_L w)\<rparr>) (lua_gettop (w_L w)))"

subsection \<open>LMDB errors\<close>

text \<open>The messages of \<open>mdb_errstr\<close>; for a system error, \<open>strerror\<close> of the C library.\<close>

definition mdb_errstr :: "string list" where
  "mdb_errstr =
     [''MDB_KEYEXIST: Key/data pair already exists'',
      ''MDB_NOTFOUND: No matching key/data pair found'',
      ''MDB_PAGE_NOTFOUND: Requested page not found'',
      ''MDB_CORRUPTED: Located page was wrong type'',
      ''MDB_PANIC: Update of meta page failed or environment had fatal error'',
      ''MDB_VERSION_MISMATCH: Database environment version mismatch'',
      ''MDB_INVALID: File is not an LMDB file'',
      ''MDB_MAP_FULL: Environment mapsize limit reached'',
      ''MDB_DBS_FULL: Environment maxdbs limit reached'',
      ''MDB_READERS_FULL: Environment maxreaders limit reached'',
      ''MDB_TLS_FULL: Thread-local storage keys full - too many environments open'',
      ''MDB_TXN_FULL: Transaction has too many dirty pages - transaction too big'',
      ''MDB_CURSOR_FULL: Internal error - cursor stack limit reached'',
      ''MDB_PAGE_FULL: Internal error - page has no more space'',
      ''MDB_MAP_RESIZED: Database contents grew beyond environment mapsize'',
      ''MDB_INCOMPATIBLE: Operation and DB incompatible, or DB flags changed'',
      ''MDB_BAD_RSLOT: Invalid reuse of reader locktable slot'',
      ''MDB_BAD_TXN: Transaction cannot recover - it must be aborted'',
      ''MDB_BAD_VALSIZE: Unsupported size of key/DB name/data, or wrong DUPFIXED size'',
      ''MDB_BAD_DBI: The specified DBI handle was closed/changed unexpectedly'']"

definition mdb_error_string :: "(int \<Rightarrow> string) \<Rightarrow> int \<Rightarrow> string" where
  "mdb_error_string strerror err =
     (if err = 0 then ''Successful return: 0''
      else if - 30799 \<le> err \<and> err \<le> - 30780 then mdb_errstr ! nat (err + 30799)
      else strerror err)"

text \<open>What the library functions need from outside: the C library's \<open>strerror\<close>, the file system
  (the results of \<open>mdb_env_open\<close>, \<open>mdb_env_sync\<close>, \<open>mdb_env_copy2\<close> and of writing a commit), a UUID,
  the number conversions and the functions registered under the method names.\<close>

record 'd lmdb_os =
  os_strerror :: "int \<Rightarrow> string"
  os_open_rc :: int
  os_write_rc :: int
  os_copy_rc :: int
  os_uuid :: "bytes option"
  os_number :: "size_t \<Rightarrow> 'd tvalue"
  os_checknumber :: "'d tvalue \<Rightarrow> (32 word \<times> size_t) option"

definition lmdb_error :: "'d lmdb_os \<Rightarrow> int \<Rightarrow> 'a exec" where
  "lmdb_error os rc = lua_throw (mdb_error_string (os_strerror os) rc)"

subsection \<open>Metatables\<close>

text \<open>\<open>CreateLmdbEnvMetatable\<close>, \<open>CreateLmdbTxMetatable\<close> and \<open>CreateLmdbCursorMetatable\<close> differ in the
  registry name and the methods only.\<close>

definition CreateLmdbMetatable :: "'d lua_env \<Rightarrow> 'd lua_State \<Rightarrow> bytes \<Rightarrow> (bytes \<times> nat) list \<Rightarrow> 'd lua_State exec" where
  "CreateLmdbMetatable E L name methods =
     xbind (luaL_newmetatable E L name) (\<lambda>(_, L).
     xbind (lua_pushstring L (Some (str ''__index'' @ [0]))) (\<lambda>L.
     xbind (lua_pushvalue L (- 2)) (\<lambda>L.
     xbind (lua_settable E L (- 3)) (\<lambda>L. luaL_setfuncs E L methods))))"

text \<open>The registered functions. A C function is a number; \<open>LmdbEnv_Close\<close> and \<open>LmdbTx_Close\<close> are
  registered under more than one name.\<close>

definition lmdb_lib_funcs :: "(bytes \<times> nat) list" where
  "lmdb_lib_funcs = [(str ''open'', 0), (str ''version'', 1)]"

definition lmdb_env_methods :: "(bytes \<times> nat) list" where
  "lmdb_env_methods =
     [(str ''__gc'', 2), (str ''__tostring'', 3), (str ''begin'', 4), (str ''close'', 2), (str ''copy'', 5),
      (str ''flags'', 6), (str ''info'', 7), (str ''max_key_size'', 8), (str ''max_readers'', 9), (str ''path'', 10),
      (str ''readers'', 11), (str ''reader_check'', 12), (str ''stat'', 13), (str ''sync'', 14), (str ''_uuid'', 15)]"

definition lmdb_tx_methods :: "(bytes \<times> nat) list" where
  "lmdb_tx_methods =
     [(str ''__gc'', 16), (str ''__tostring'', 17), (str ''close'', 16), (str ''commit'', 18), (str ''data'', 19),
      (str ''_dbi'', 20), (str ''delete'', 21), (str ''_dump'', 22), (str ''get'', 23), (str ''put'', 24),
      (str ''next'', 25), (str ''order'', 26), (str ''iorder'', 27), (str ''rollback'', 16)]"

definition lmdb_cursor_methods :: "(bytes \<times> nat) list" where
  "lmdb_cursor_methods = [(str ''__gc'', 28)]"

definition LuaDB_LmdbAddLib :: "'d lua_env \<Rightarrow> 'd lua_State \<Rightarrow> 'd lua_State exec" where
  "LuaDB_LmdbAddLib E L =
     xbind (CreateLmdbMetatable E L LMDB_ENV_REGISTRY_NAME lmdb_env_methods) (\<lambda>L.
     xbind (CreateLmdbMetatable E L LMDB_TX_REGISTRY_NAME lmdb_tx_methods) (\<lambda>L.
     xbind (CreateLmdbMetatable E L LMDB_CURSOR_REGISTRY_NAME lmdb_cursor_methods) (\<lambda>L.
     xbind (luaL_setfuncs E (lua_createtable L) lmdb_lib_funcs) (\<lambda>L. lua_setglobal E L (str ''lmdb'')))))"

subsection \<open>Opening an environment\<close>

definition lmdb_env_opts :: "(bytes \<times> 32 word) list" where
  "lmdb_env_opts =
     [(str ''fixedmap'', 0x01), (str ''nosubdir'', 0x4000), (str ''nosync'', 0x10000), (str ''rdonly'', 0x20000),
      (str ''nometasync'', 0x40000), (str ''writemap'', 0x80000), (str ''mapasync'', 0x100000),
      (str ''notls'', 0x200000), (str ''nolock'', 0x400000), (str ''nordahead'', 0x800000),
      (str ''nomeminit'', 0x1000000)]"

fun ReadLmdbEnvParams_flags ::
  "'d lua_env \<Rightarrow> 'd lua_State \<Rightarrow> (bytes \<times> 32 word) list \<Rightarrow> 32 word \<Rightarrow> (32 word \<times> 'd lua_State) exec" where
  "ReadLmdbEnvParams_flags E L [] flags = ret (flags, L)"
| "ReadLmdbEnvParams_flags E L (f # fs) flags =
     xbind (lua_pushstring L (Some (fst f @ [0]))) (\<lambda>L.
     xbind (lua_gettable E L (- 2)) (\<lambda>(ftype, L).
     if ftype = LUA_TNONE then ReadLmdbEnvParams_flags E L fs flags
     else
       xbind (lua_toboolean L (- 1)) (\<lambda>val.
       xbind (lua_pop L 1) (\<lambda>L.
       ReadLmdbEnvParams_flags E L fs (if val then flags OR snd f else flags)))))"

text \<open>\<open>luaL_checknumber(L, -1)\<close> with its cast.\<close>

definition checknumber :: "'d lmdb_os \<Rightarrow> 'd lua_State \<Rightarrow> (32 word \<times> size_t) exec" where
  "checknumber os L =
     xbind (value_at L (- 1)) (\<lambda>v.
     case os_checknumber os v of None \<Rightarrow> lua_throw ''bad argument'' | Some n \<Rightarrow> ret n)"

definition ReadLmdbEnvParamsFromLua ::
  "'d lua_env \<Rightarrow> 'd lmdb_os \<Rightarrow> 'd lua_State \<Rightarrow> ((32 word \<times> 32 word \<times> size_t) \<times> 'd lua_State) exec" where
  "ReadLmdbEnvParamsFromLua E os L =
     xbind (lua_type_of L 2) (\<lambda>type.
     if type = LUA_TNIL \<or> type = LUA_TNONE then ret ((0, 126, 10485760), L)
     else if type \<noteq> LUA_TTABLE then lua_throw ''expected a table, nil, or none''
     else
       xbind (ReadLmdbEnvParams_flags E L lmdb_env_opts 0) (\<lambda>(flags, L).
       xbind (lua_pushstring L (Some (str ''maxreaders'' @ [0]))) (\<lambda>L.
       xbind (lua_gettable E L (- 2)) (\<lambda>(ftype, L).
       xbind (if ftype \<noteq> LUA_TNONE
              then xbind (checknumber os L) (\<lambda>n. xbind (lua_pop L 1) (\<lambda>L. ret (fst n, L)))
              else ret (126, L)) (\<lambda>(max_readers, L).
       xbind (lua_pushstring L (Some (str ''mapsize'' @ [0]))) (\<lambda>L.
       xbind (lua_gettable E L (- 2)) (\<lambda>(ftype, L).
       xbind (if ftype \<noteq> LUA_TNONE
              then xbind (checknumber os L) (\<lambda>n. xbind (lua_pop L 1) (\<lambda>L. ret (snd n, L)))
              else ret (10485760, L)) (\<lambda>(map_size, L).
       ret ((flags, max_readers, map_size), L)))))))))"

text \<open>\<open>mdb_env_create\<close> and \<open>mdb_env_set_mapsize\<close> do not fail, \<open>mdb_env_set_maxreaders\<close> only for 0.
  The C functions hand out the error code through \<open>err\<close>.\<close>

definition OpenLmdbEnv ::
  "'d lmdb_os \<Rightarrow> mdb \<Rightarrow> bytes \<Rightarrow> 32 word \<Rightarrow> 32 word \<Rightarrow> size_t \<Rightarrow> int \<times> nat option \<times> mdb" where
  "OpenLmdbEnv os m path flags max_readers map_size =
     (if max_readers = 0 then (RC_EINVAL, None, m)
      else if os_open_rc os \<noteq> 0 then (os_open_rc os, None, m)
      else let (e, m) = mdb_env_opened m path flags (unat max_readers) in (0, Some e, m))"

definition LuaDB_LmdbOpenEnv :: "'d lua_env \<Rightarrow> 'd lmdb_os \<Rightarrow> 'd world \<Rightarrow> (nat \<times> 'd world) exec" where
  "LuaDB_LmdbOpenEnv E os w =
     xbind (on_L2 w (\<lambda>L. lua_tolstring E L 1)) (\<lambda>(path, w).
     case path of
       None \<Rightarrow> lua_throw ''bad argument''
     | Some path \<Rightarrow>
         xbind (on_L2 w (ReadLmdbEnvParamsFromLua E os)) (\<lambda>((flags, max_readers, map_size), w).
         xbind (c_string (path @ [0])) (\<lambda>path.
         let (err, env, m) = OpenLmdbEnv os (w_mdb w) path flags max_readers map_size
         in case env of
              None \<Rightarrow> lmdb_error os err
            | Some env \<Rightarrow>
                let (loc, L) = lua_newuserdata (w_L w);
                    w = w\<lparr>w_L := L, w_env := (w_env w)(loc \<mapsto> Some env), w_mdb := m\<rparr>
                in xbind (CreateLmdbEnvRefTable E w (os_uuid os)) (\<lambda>(uuid, w).
                   case uuid of
                     None \<Rightarrow> lua_throw ''could not allocate memory for LMDB environment''
                   | Some _ \<Rightarrow>
                       xbind (mdb_env_set_userctx (w_mdb w) (Some env) uuid) (\<lambda>(err, m).
                       if err \<noteq> 0 then lmdb_error os err
                       else
                         xbind (on_L (w\<lparr>w_mdb := m\<rparr>) (\<lambda>L.
                           xbind (luaL_getmetatable E L LMDB_ENV_REGISTRY_NAME) (\<lambda>(_, L).
                           lua_setmetatable L (- 2)))) (\<lambda>w. ret (1, w)))))))"

subsection \<open>Environment methods\<close>

definition CheckLmdbEnvParam :: "'d lua_env \<Rightarrow> 'd world \<Rightarrow> int \<Rightarrow> (nat \<times> 'd world) exec" where
  "CheckLmdbEnvParam E w idx =
     xbind (on_L2 w (\<lambda>L. luaL_checkudata E L idx LMDB_ENV_REGISTRY_NAME)) (\<lambda>(u, w).
     xbind (env_block w u) (\<lambda>loc.
     case loc of None \<Rightarrow> lua_throw ''LMDB environment not found'' | Some e \<Rightarrow> ret (e, w)))"

definition CheckLmdbTxParam :: "'d lua_env \<Rightarrow> 'd world \<Rightarrow> int \<Rightarrow> (nat \<times> 'd world) exec" where
  "CheckLmdbTxParam E w idx = on_L2 w (\<lambda>L. luaL_checkudata E L idx LMDB_TX_REGISTRY_NAME)"

text \<open>Push a C string.\<close>

definition push_cstr :: "'d world \<Rightarrow> bytes \<Rightarrow> 'd world exec" where
  "push_cstr w s = on_L w (\<lambda>L. lua_pushstring L (Some (s @ [0])))"

definition LmdbEnv_ToString :: "'d lua_env \<Rightarrow> 'd world \<Rightarrow> (nat \<times> 'd world) exec" where
  "LmdbEnv_ToString E w =
     xbind (CheckLmdbEnvParam E w 1) (\<lambda>(e, w).
     xbind (env_at (w_mdb w) e) (\<lambda>env.
     xbind (push_cstr w (str ''lmdb.Env('' @ [0x27] @ me_path env @ [0x27] @ str '')'')) (\<lambda>w. ret (1, w))))"

text \<open>\<open>mdb_dbi_open(txn, NULL, 0, &dbi)\<close> gives the main database (1), and neither it nor
  \<open>mdb_set_compare\<close> fails on a transaction that was just begun.\<close>

definition LmdbEnv_BeginTx :: "'d lua_env \<Rightarrow> 'd lmdb_os \<Rightarrow> 'd world \<Rightarrow> (nat \<times> 'd world) exec" where
  "LmdbEnv_BeginTx E os w =
     xbind (CheckLmdbEnvParam E w 1) (\<lambda>(e, w).
     xbind (if 1 < lua_gettop (w_L w)
            then xbind (lua_toboolean (w_L w) 2) (\<lambda>b. ret (if b then MDB_RDONLY else 0)) else ret 0) (\<lambda>flags.
     xbind (mdb_txn_begin (w_mdb w) e flags) (\<lambda>(err, txn, m).
     if err \<noteq> 0 then lmdb_error os err
     else
       let (loc, L) = lua_newuserdata (w_L w);
           w = set_tx (w\<lparr>w_L := L, w_mdb := m\<rparr>) loc \<lparr>tx_txn = txn, tx_dbi = 0\<rparr>
       in xbind (on_L w (\<lambda>L.
            xbind (luaL_getmetatable E L LMDB_TX_REGISTRY_NAME) (\<lambda>(_, L). lua_setmetatable L (- 2)))) (\<lambda>w.
          xbind (AddTxToLmdbEnvRefTable E w (Some e) txn (lua_gettop (w_L w))) (\<lambda>w.
          xbind (txn_at (w_mdb w) (the txn)) (\<lambda>_.
          ret (1, set_tx w loc \<lparr>tx_txn = txn, tx_dbi = 1\<rparr>)))))))"

definition LmdbEnv_Close :: "'d lua_env \<Rightarrow> 'd world \<Rightarrow> (nat \<times> 'd world) exec" where
  "LmdbEnv_Close E w =
     xbind (on_L2 w (\<lambda>L. luaL_checkudata E L 1 LMDB_ENV_REGISTRY_NAME)) (\<lambda>(u, w).
     xbind (env_block w u) (\<lambda>env.
     if env = None then lua_throw ''LMDB environment not found''
     else
       xbind (mdb_env_get_userctx (w_mdb w) env) (\<lambda>uuid.
       xbind (case uuid of None \<Rightarrow> ret w | Some s \<Rightarrow> CleanLmdbEnvRefTable E w s) (\<lambda>w.
       xbind (mdb_env_close (w_mdb w) env) (\<lambda>m.
       ret (0, w\<lparr>w_mdb := m, w_env := (w_env w)(u \<mapsto> None)\<rparr>))))))"

definition LmdbEnv_Copy :: "'d lua_env \<Rightarrow> 'd lmdb_os \<Rightarrow> 'd world \<Rightarrow> (nat \<times> 'd world) exec" where
  "LmdbEnv_Copy E os w =
     xbind (CheckLmdbEnvParam E w 1) (\<lambda>(e, w).
     xbind (on_L2 w (\<lambda>L. lua_tolstring E L 2)) (\<lambda>(path, w).
     if path = None then lua_throw ''bad argument''
     else if os_copy_rc os \<noteq> 0 then lmdb_error os (os_copy_rc os)
     else ret (0, w)))"

text \<open>The table of the options, in the state with the table on top.\<close>

fun push_flags :: "'d lua_env \<Rightarrow> 'd lua_State \<Rightarrow> 32 word \<Rightarrow> (bytes \<times> 32 word) list \<Rightarrow> 'd lua_State exec" where
  "push_flags E L flags [] = ret L"
| "push_flags E L flags (f # fs) =
     xbind (lua_pushstring L (Some (fst f @ [0]))) (\<lambda>L.
     xbind (lua_settable E (lua_pushboolean L (flags AND snd f \<noteq> 0)) (- 3)) (\<lambda>L. push_flags E L flags fs))"

definition LmdbEnv_Flags :: "'d lua_env \<Rightarrow> 'd world \<Rightarrow> (nat \<times> 'd world) exec" where
  "LmdbEnv_Flags E w =
     xbind (CheckLmdbEnvParam E w 1) (\<lambda>(e, w).
     xbind (env_at (w_mdb w) e) (\<lambda>env.
     xbind (on_L w (\<lambda>L. push_flags E (lua_createtable L) (me_flags env) lmdb_env_opts)) (\<lambda>w. ret (1, w))))"

text \<open>A table of named numbers: the body of \<open>LmdbEnv_Info\<close> (for the numeric fields) and
  \<open>LmdbEnv_Stat\<close>.\<close>

fun push_fields :: "'d lua_env \<Rightarrow> 'd lua_State \<Rightarrow> (bytes \<times> 'd tvalue) list \<Rightarrow> 'd lua_State exec" where
  "push_fields E L [] = ret L"
| "push_fields E L (f # fs) =
     xbind (lua_pushstring L (Some (fst f @ [0]))) (\<lambda>L.
     xbind (lua_settable E (api_incr_top (snd f) L) (- 3)) (\<lambda>L. push_fields E L fs))"

record MDB_envinfo =
  info_mapaddr :: bytes
  info_mapsize :: size_t
  info_last_pgno :: size_t
  info_last_txnid :: size_t
  info_maxreaders :: size_t
  info_numreaders :: size_t

definition LmdbEnv_Info :: "'d lua_env \<Rightarrow> 'd lmdb_os \<Rightarrow> MDB_envinfo \<Rightarrow> 'd world \<Rightarrow> (nat \<times> 'd world) exec" where
  "LmdbEnv_Info E os info w =
     xbind (CheckLmdbEnvParam E w 1) (\<lambda>(e, w).
     xbind (on_L w (\<lambda>L. push_fields E (lua_createtable L)
       [(str ''last_pgno'', os_number os (info_last_pgno info)),
        (str ''last_txnid'', os_number os (info_last_txnid info)),
        (str ''mapaddr'', TString (info_mapaddr info)),
        (str ''mapsize'', os_number os (info_mapsize info)),
        (str ''maxreaders'', os_number os (info_maxreaders info)),
        (str ''num_readers'', os_number os (info_numreaders info))])) (\<lambda>w. ret (1, w)))"

record MDB_stat =
  ms_psize :: size_t
  ms_depth :: size_t
  ms_branch_pages :: size_t
  ms_leaf_pages :: size_t
  ms_overflow_pages :: size_t
  ms_entries :: size_t

definition LmdbEnv_Stat :: "'d lua_env \<Rightarrow> 'd lmdb_os \<Rightarrow> MDB_stat \<Rightarrow> 'd world \<Rightarrow> (nat \<times> 'd world) exec" where
  "LmdbEnv_Stat E os stat w =
     xbind (CheckLmdbEnvParam E w 1) (\<lambda>(e, w).
     xbind (on_L w (\<lambda>L. push_fields E (lua_createtable L)
       [(str ''branch_pages'', os_number os (ms_branch_pages stat)),
        (str ''depth'', os_number os (ms_depth stat)),
        (str ''entries'', os_number os (ms_entries stat)),
        (str ''leaf_pages'', os_number os (ms_leaf_pages stat)),
        (str ''overflow_pages'', os_number os (ms_overflow_pages stat)),
        (str ''page_size'', os_number os (ms_psize stat))])) (\<lambda>w. ret (1, w)))"

definition LmdbEnv_MaxKeySize :: "'d lua_env \<Rightarrow> 'd lmdb_os \<Rightarrow> 'd world \<Rightarrow> (nat \<times> 'd world) exec" where
  "LmdbEnv_MaxKeySize E os w =
     xbind (CheckLmdbEnvParam E w 1) (\<lambda>(e, w).
     xbind (env_at (w_mdb w) e) (\<lambda>env.
     ret (1, w\<lparr>w_L := api_incr_top (os_number os 511) (w_L w)\<rparr>)))"

definition LmdbEnv_MaxReaders :: "'d lua_env \<Rightarrow> 'd lmdb_os \<Rightarrow> 'd world \<Rightarrow> (nat \<times> 'd world) exec" where
  "LmdbEnv_MaxReaders E os w =
     xbind (CheckLmdbEnvParam E w 1) (\<lambda>(e, w).
     xbind (env_at (w_mdb w) e) (\<lambda>env.
     ret (1, w\<lparr>w_L := api_incr_top (os_number os (of_nat (me_maxreaders env))) (w_L w)\<rparr>)))"

definition LmdbEnv_Path :: "'d lua_env \<Rightarrow> 'd world \<Rightarrow> (nat \<times> 'd world) exec" where
  "LmdbEnv_Path E w =
     xbind (CheckLmdbEnvParam E w 1) (\<lambda>(e, w).
     xbind (env_at (w_mdb w) e) (\<lambda>env. xbind (push_cstr w (me_path env)) (\<lambda>w. ret (1, w))))"

text \<open>The result of \<open>mdb_env_sync\<close> is ignored, and a count of 1 is returned although nothing was
  pushed.\<close>

definition LmdbEnv_Sync :: "'d lua_env \<Rightarrow> 'd world \<Rightarrow> (nat \<times> 'd world) exec" where
  "LmdbEnv_Sync E w = xbind (CheckLmdbEnvParam E w 1) (\<lambda>(e, w). ret (1, w))"

definition LmdbEnv__Uuid :: "'d lua_env \<Rightarrow> 'd world \<Rightarrow> (nat \<times> 'd world) exec" where
  "LmdbEnv__Uuid E w =
     xbind (CheckLmdbEnvParam E w 1) (\<lambda>(e, w).
     xbind (mdb_env_get_userctx (w_mdb w) (Some e)) (\<lambda>uuid.
     case uuid of
       None \<Rightarrow> lua_throw ''no UUID found for this Environment''
     | Some s \<Rightarrow> xbind (push_cstr w s) (\<lambda>w. ret (1, w))))"

text \<open>The finaliser of an order cursor. The collector calls it with the cursor as its argument and
  without upvalues, so the check fails.\<close>

definition Lmdb_OrderClose :: "'d lua_env \<Rightarrow> 'd world \<Rightarrow> (nat \<times> 'd world) exec" where
  "Lmdb_OrderClose E w =
     xbind (on_L2 w (\<lambda>L. luaL_checkudata E L (lua_upvalueindex 1) LMDB_CURSOR_REGISTRY_NAME)) (\<lambda>(c, w).
     ret (0, w\<lparr>w_cursor := (w_cursor w)(c \<mapsto> None)\<rparr>))"

subsection \<open>Transaction methods\<close>

text \<open>The part \<open>LmdbTx_Close\<close> and \<open>LmdbTx_Commit\<close> share: the transaction leaves the reference table
  of its environment. The result is the transaction's userdata.\<close>

definition LmdbTx_Release :: "'d lua_env \<Rightarrow> 'd world \<Rightarrow> (nat \<times> 'd world) exec" where
  "LmdbTx_Release E w =
     xbind (on_L2 w (\<lambda>L. luaL_checkudata E L 1 LMDB_TX_REGISTRY_NAME)) (\<lambda>(u, w).
     xbind (tx_block w u) (\<lambda>loc.
     xbind (mdb_txn_env (w_mdb w) (tx_txn loc)) (\<lambda>env.
     case env of
       None \<Rightarrow> lua_throw ''LMDB transaction has no associated environment''
     | Some _ \<Rightarrow>
         xbind (RemoveTxFromLmdbEnvRefTable E w env (tx_txn loc) (lua_gettop (w_L w))) (\<lambda>w. ret (u, w)))))"

definition LmdbTx_Close :: "'d lua_env \<Rightarrow> 'd world \<Rightarrow> (nat \<times> 'd world) exec" where
  "LmdbTx_Close E w =
     xbind (LmdbTx_Release E w) (\<lambda>(u, w).
     xbind (tx_block w u) (\<lambda>loc.
     xbind (mdb_txn_abort (w_mdb w) (tx_txn loc)) (\<lambda>m.
     ret (0, set_tx (w\<lparr>w_mdb := m\<rparr>) u (loc\<lparr>tx_txn := None\<rparr>)))))"

text \<open>An error of the commit is raised with the transaction's pointer kept; the count of 1 returns
  the value on the top of the stack.\<close>

definition LmdbTx_Commit :: "'d lua_env \<Rightarrow> 'd lmdb_os \<Rightarrow> 'd world \<Rightarrow> (int \<times> nat \<times> 'd world) exec" where
  "LmdbTx_Commit E os w =
     xbind (LmdbTx_Release E w) (\<lambda>(u, w).
     xbind (tx_block w u) (\<lambda>loc.
     xbind (mdb_txn_commit (w_mdb w) (os_write_rc os) (tx_txn loc)) (\<lambda>(err, m).
     if err \<noteq> 0 then ret (err, 0, w\<lparr>w_mdb := m\<rparr>)
     else ret (0, 1, set_tx (w\<lparr>w_mdb := m\<rparr>) u (loc\<lparr>tx_txn := None\<rparr>)))))"

definition LmdbTx_ToString :: "'d lua_env \<Rightarrow> 'd world \<Rightarrow> (nat \<times> 'd world) exec" where
  "LmdbTx_ToString E w =
     xbind (CheckLmdbTxParam E w 1) (\<lambda>(u, w).
     xbind (tx_block w u) (\<lambda>loc.
     xbind (push_cstr w (str ''lmdb.Tx('' @ int_dec (int (tx_dbi loc)) @ str '')'')) (\<lambda>w. ret (1, w))))"

definition LmdbTx__Dbi :: "'d lua_env \<Rightarrow> 'd world \<Rightarrow> (nat \<times> 'd world) exec" where
  "LmdbTx__Dbi E w =
     xbind (CheckLmdbTxParam E w 1) (\<lambda>(u, w).
     xbind (tx_block w u) (\<lambda>loc.
     ret (1, w\<lparr>w_L := lua_pushinteger (w_L w) (of_nat (tx_dbi loc))\<rparr>)))"

text \<open>A garbage collection: entries of a weak table whose key or value nothing else refers to
  disappear. The value of an entry of a reference table is a table only this entry refers to,
  so any entry may go.\<close>

definition gc_drop :: "'d world \<Rightarrow> nat \<Rightarrow> 'd tvalue \<Rightarrow> 'd world" where
  "gc_drop w t key =
     (case G_heap (w_L w) t of
        None \<Rightarrow> w
      | Some h \<Rightarrow> w\<lparr>w_L := heap_set (w_L w) t (h\<lparr>t_node := filter (\<lambda>p. fst p \<noteq> key) (t_node h)\<rparr>)\<rparr>)"

end
