(* ===== verification/LmdbEnvLemmas.thy ===== *)
theory LmdbEnvLemmas
  imports LmdbEnv LuaApiLemmas
begin

text \<open>
  What the library functions do in a consistent Lua state: the registry, the metatables and the
  reference table of an environment, and the effect of each life-cycle method on them.
\<close>

subsection \<open>The registry\<close>

lemma value_at_registry [lua_simps]: "value_at L LUA_REGISTRYINDEX = ret (TTable (G_registry L))"
  by (simp add: value_at_def index2addr_def LUA_REGISTRYINDEX_def Let_def)

text \<open>The registry is an ordinary table.\<close>

definition registry_is :: "'d lua_State \<Rightarrow> ('d tvalue \<times> 'd tvalue) list \<Rightarrow> bool" where
  "registry_is L ps \<longleftrightarrow> plain_table L (G_registry L) ps"

lemma luaL_getmetatable_registry [lua_simps]:
  assumes "registry_is L ps"
  shows "luaL_getmetatable E L n = ret (ttnov (lookup ps (TString n)), api_incr_top (lookup ps (TString n)) L)"
proof -
  have "plain_table (api_incr_top (TString n) L) (G_registry L) ps"
    using assms by (simp add: registry_is_def plain_table_def)
  then show ?thesis
    by (simp add: luaL_getmetatable_def lua_getfield_def lua_simps gettable_plain lookup_def set_top_def api_incr_top_def)
qed

lemma lua_gettable_registry [lua_simps]:
  assumes "registry_is L ps" "L_stack L = TString n # s"
  shows "lua_gettable E L LUA_REGISTRYINDEX
       = ret (ttnov (lookup ps (TString n)), L\<lparr>L_stack := lookup ps (TString n) # s\<rparr>)"
  using assms gettable_plain[of L "G_registry L" ps E "TString n"]
  by (simp add: lua_gettable_def lua_simps registry_is_def lookup_def set_top_def)

lemma luaL_checkudata_eval [lua_simps]:
  assumes "value_at L idx = ret (TUserdata u)" "registry_is L ps" "G_udmt L u = Some m"
  shows "luaL_checkudata E L idx n
       = (if lookup ps (TString n) = TTable m then ret (u, L) else lua_throw ''bad argument'')"
proof -
  have mo: "metatable_of L (TUserdata u) = ret (Some m)"
    using assms(3) by (simp add: metatable_of_def)
  have reg: "registry_is (api_incr_top (TTable m) L) ps"
    using assms(2) by (simp add: registry_is_def plain_table_def)
  have eq: "lua_rawequal (api_incr_top v (api_incr_top (TTable m) L)) (- 1) (- 2) = ret (v = TTable m)" for v
    by (simp add: lua_rawequal_def lua_simps)
  show ?thesis
    using luaL_getmetatable_registry[OF reg, of E n] assms(1) mo eq
    by (simp add: luaL_checkudata_def luaL_testudata_def lua_touserdata_def lua_getmetatable_def lua_simps stack_same
        api_incr_top_def)
qed

subsection \<open>Weak tables and metatables\<close>

definition weak_mode :: "('d tvalue \<times> 'd tvalue) list" where
  "weak_mode = [(TString (str ''__mode''), TString (str ''kv''))]"

lemma settable_weak:
  assumes "G_heap L t = Some h" "t_metatable h = Some wm" "plain_table L wm weak_mode" "\<forall>d. k \<noteq> TFloat d" "k \<noteq> TNil"
  shows "luaV_settable E L (TTable t) k v = ret (heap_set L t (h\<lparr>t_node := alist_set k v (t_node h)\<rparr>))"
proof -
  have tm: "luaT_gettmbyobj E L (TTable t) ''__newindex'' = ret TNil"
    using assms(1-3) by (simp add: luaT_gettmbyobj_def metatable_of_def hvalue_def plain_table_def weak_mode_def str_def)
  have "luaH_set E h k v = ret (h\<lparr>t_node := alist_set k v (t_node h)\<rparr>)"
    using assms(4,5) by (cases k) (simp_all add: luaH_set_def)
  then show ?thesis
    using tm assms(1) by (simp add: luaV_settable_def MAXTAGLOOP_def numeral_eq_Suc hvalue_def Let_def)
qed

text \<open>A userdata whose metatable is its own index.\<close>

lemma gettable_userdata:
  assumes "G_udmt L u = Some m" "plain_table L m ps" "lookup ps (TString (str ''__index'')) = TTable m"
    "\<forall>d. k \<noteq> TFloat d"
  shows "luaV_gettable E L (TUserdata u) k = ret (lookup ps k, L)"
proof -
  have tm: "luaT_gettmbyobj E L (TUserdata u) ''__index'' = ret (TTable m)"
    using assms(1-3)
    by (simp add: luaT_gettmbyobj_def metatable_of_def hvalue_def plain_table_def lookup_def)
  have no: "luaT_gettmbyobj E L (TTable m) ''__index'' = ret TNil"
    using assms(2) by (simp add: luaT_gettmbyobj_def metatable_of_def hvalue_def plain_table_def)
  have "luaH_get E \<lparr>t_node = ps, t_metatable = None\<rparr> k = lookup ps k"
    using assms(4) by (cases k) (simp_all add: luaH_get_def norm_key_def lookup_def)
  moreover have n: "MAXTAGLOOP = Suc (Suc 1998)" by (simp add: MAXTAGLOOP_def)
  ultimately show ?thesis
    unfolding luaV_gettable_def n luaV_gettable_loop.simps using tm no hvalue_plain[OF assms(2)] by (simp add: Let_def)
qed

subsection \<open>The reference table\<close>

definition ref_table :: "'d lua_State \<Rightarrow> bytes \<Rightarrow> nat \<Rightarrow> ('d tvalue \<times> 'd tvalue) list \<Rightarrow> bool" where
  "ref_table L uuid t es \<longleftrightarrow>
     0 \<notin> set uuid
     \<and> (\<exists>ps. registry_is L ps \<and> lookup ps (TString uuid) = TTable t)
     \<and> (\<exists>wm. G_heap L t = Some \<lparr>t_node = es, t_metatable = Some wm\<rparr> \<and> plain_table L wm weak_mode)"

definition set_ref :: "'d lua_State \<Rightarrow> nat \<Rightarrow> ('d tvalue \<times> 'd tvalue) list \<Rightarrow> 'd lua_State" where
  "set_ref L t es = L\<lparr>G_heap := (G_heap L)(t := map_option (\<lambda>h. h\<lparr>t_node := es\<rparr>) (G_heap L t))\<rparr>"

lemma push_uuid:
  assumes "ref_table L uuid t es"
  shows "xbind (lua_pushstring L (Some (uuid @ [0]))) (\<lambda>L. lua_gettable E L LUA_REGISTRYINDEX)
       = ret (LUA_TTABLE, api_incr_top (TTable t) L)"
proof -
  obtain ps where ps: "registry_is L ps" "lookup ps (TString uuid) = TTable t" and z: "0 \<notin> set uuid"
    using assms unfolding ref_table_def by blast
  have "registry_is (api_incr_top (TString uuid) L) ps"
    using ps(1) by (simp add: registry_is_def plain_table_def)
  then show ?thesis
    using ps(2) z lua_gettable_registry[of "api_incr_top (TString uuid) L" ps uuid "L_stack L" E]
    by (simp add: lua_simps)
qed

lemma lua_settable_ref:
  assumes "ref_table L uuid t es" "L_stack L = v # key # TTable t # s" "\<forall>d. key \<noteq> TFloat d" "key \<noteq> TNil"
  shows "lua_settable E L (- 3) = ret (set_ref L t (alist_set key v es)\<lparr>L_stack := TTable t # s\<rparr>)"
proof -
  obtain wm where wm: "G_heap L t = Some \<lparr>t_node = es, t_metatable = Some wm\<rparr>" "plain_table L wm weak_mode"
    using assms(1) unfolding ref_table_def by blast
  show ?thesis
    using settable_weak[OF wm(1) _ wm(2) assms(3,4), of E v] wm(1) assms(2)
    by (simp add: lua_settable_def lua_simps set_ref_def heap_set_def)
qed

text \<open>Taking a transaction out of the table, and putting it in.\<close>

lemma ref_table_stack [simp]:
  "ref_table (api_incr_top v L) uuid t es \<longleftrightarrow> ref_table L uuid t es"
  "ref_table (L\<lparr>L_stack := s\<rparr>) uuid t es \<longleftrightarrow> ref_table L uuid t es"
  by (simp_all add: ref_table_def registry_is_def api_incr_top_def plain_table_def)

definition ref_of :: "'d world \<Rightarrow> nat \<Rightarrow> nat \<Rightarrow> ('d tvalue \<times> 'd tvalue) list \<Rightarrow> bool" where
  "ref_of w e t es \<longleftrightarrow>
     (\<exists>env uuid. m_envs (w_mdb w) e = Some env \<and> me_userctx env = Some uuid \<and> ref_table (w_L w) uuid t es)"

lemma RemoveTx_effect:
  assumes "ref_of w e t es" "0 < idx" "idx \<le> lua_gettop (w_L w)" "value_at (w_L w) idx = ret (TUserdata u)"
  shows "RemoveTxFromLmdbEnvRefTable E w (Some e) (Some p) idx
       = ret (w\<lparr>w_L := set_ref (w_L w) t (alist_set (TUserdata u) TNil es)\<lparr>L_stack := TTable t # L_stack (w_L w)\<rparr>\<rparr>)"
proof -
  let ?L = "w_L w"
  obtain env uuid where env: "m_envs (w_mdb w) e = Some env" "me_userctx env = Some uuid" "ref_table ?L uuid t es"
    using assms(1) unfolding ref_of_def by blast
  have v: "value_at (api_incr_top (TTable t) ?L) idx = ret (TUserdata u)"
    using value_at_below[of "api_incr_top (TTable t) ?L" "[TTable t]" ?L idx] assms(2-4) by (simp add: lua_gettop_def)
  have rt: "ref_table (api_incr_top TNil (api_incr_top (TUserdata u) (api_incr_top (TTable t) ?L))) uuid t es"
    using env(3) by simp
  have "lua_settable E (api_incr_top TNil (api_incr_top (TUserdata u) (api_incr_top (TTable t) ?L))) (- 3)
      = ret (set_ref ?L t (alist_set (TUserdata u) TNil es)\<lparr>L_stack := TTable t # L_stack ?L\<rparr>)"
    using lua_settable_ref[OF rt, of TNil "TUserdata u" "L_stack ?L" E] by (simp add: set_ref_def api_incr_top_def)
  moreover have "xbind (lua_pushstring ?L (Some (uuid @ [0]))) (\<lambda>L. xbind (lua_gettable E L LUA_REGISTRYINDEX) f)
      = f (LUA_TTABLE, api_incr_top (TTable t) ?L)" for f :: "lua_type \<times> 'a lua_State \<Rightarrow> 'a lua_State exec"
    using push_uuid[OF env(3), of E] by (simp only: xbind_assoc[symmetric] xbind_simps)
  ultimately show ?thesis
    using env(1,2) v
    by (simp add: RemoveTxFromLmdbEnvRefTable_def ref_uuid_def mdb_env_get_userctx_def env_at_def on_L_def
        lua_pushvalue_at lua_pushnil_def)
qed

text \<open>The lookup before the insertion reads the index below the right one, so it looks into the
  methods of the transaction and never finds anything.\<close>

lemma ref_table_heap:
  assumes "ref_table L uuid t es" "\<forall>a. G_heap L a \<noteq> None \<longrightarrow> G_heap L' a = G_heap L a" "G_registry L' = G_registry L"
  shows "ref_table L' uuid t es"
proof -
  have pl: "plain_table L a ps \<Longrightarrow> plain_table L' a ps" for a ps
    using assms(2)[rule_format, of a] unfolding plain_table_def by (metis option.distinct(1))
  obtain ps wm where r: "0 \<notin> set uuid" "registry_is L ps" "lookup ps (TString uuid) = TTable t"
      "G_heap L t = Some \<lparr>t_node = es, t_metatable = Some wm\<rparr>" "plain_table L wm weak_mode"
    using assms(1) unfolding ref_table_def by blast
  have "registry_is L' ps" using r(2) pl assms(3) by (simp add: registry_is_def)
  moreover have "G_heap L' t = Some \<lparr>t_node = es, t_metatable = Some wm\<rparr>"
    using r(4) assms(2)[rule_format, of t] by (metis option.distinct(1))
  ultimately show ?thesis using r(1,3) pl[OF r(5)] unfolding ref_table_def by blast
qed

definition added :: "'d lua_State \<Rightarrow> nat \<Rightarrow> ('d tvalue \<times> 'd tvalue) list \<Rightarrow> nat \<Rightarrow> 'd lua_State" where
  "added L t es v =
     set_ref (L\<lparr>G_heap := (G_heap L)(G_next L \<mapsto> \<lparr>t_node = [], t_metatable = None\<rparr>), G_next := G_next L + 1\<rparr>) t
       (alist_set (TUserdata v) (TTable (G_next L)) es)"

lemma create_heap: "a \<noteq> G_next L \<Longrightarrow> G_heap (lua_createtable L) a = G_heap L a"
  by (simp add: lua_createtable_def)

lemma AddTx_effect:
  assumes "ref_of w e t es" "L_stack (w_L w) = TUserdata v # s" "G_udmt (w_L w) v = Some m"
    "plain_table (w_L w) m ps" "lookup ps (TString (str ''__index'')) = TTable m" "lookup ps (TUserdata v) = TNil"
    "G_heap (w_L w) (G_next (w_L w)) = None"
  shows "AddTxToLmdbEnvRefTable E w (Some e) (Some p) (lua_gettop (w_L w)) = ret (w\<lparr>w_L := added (w_L w) t es v\<rparr>)"
proof -
  let ?L = "w_L w"
  let ?idx = "lua_gettop ?L"
  obtain env uuid where env: "m_envs (w_mdb w) e = Some env" "me_userctx env = Some uuid" "ref_table ?L uuid t es"
    using assms(1) unfolding ref_of_def by blast
  let ?L1 = "api_incr_top (TTable t) ?L"
  let ?L2 = "api_incr_top (TUserdata v) ?L1"
  let ?L3 = "api_incr_top (TUserdata v) ?L2"
  have top: "value_at ?L ?idx = ret (TUserdata v)"
    using assms(2) value_at_top[of ?L] by (simp add: lua_gettop_def)
  have v1: "value_at ?L1 ?idx = ret (TUserdata v)" and v2: "value_at ?L2 ?idx = ret (TUserdata v)"
    using value_at_below[of ?L1 "[TTable t]" ?L ?idx] value_at_below[of ?L2 "[TUserdata v, TTable t]" ?L ?idx] top assms(2)
    by (simp_all add: lua_gettop_def)
  have "luaV_gettable E ?L3 (TUserdata v) (TUserdata v) = ret (TNil, ?L3)"
    using gettable_userdata[of ?L3 v m ps "TUserdata v" E] assms(3-6) by (simp add: plain_table_def)
  then have miss: "lua_gettable E ?L3 (- 2) = ret (LUA_TNIL, api_incr_top TNil ?L2)"
    by (simp add: lua_gettable_def lua_simps) (simp add: set_top_def api_incr_top_def)
  let ?L4 = "lua_createtable ?L2"
  have rt: "ref_table ?L4 uuid t es"
  proof (rule ref_table_heap[OF env(3)])
    show "\<forall>a. G_heap ?L a \<noteq> None \<longrightarrow> G_heap ?L4 a = G_heap ?L a"
      using assms(7) by (metis create_heap stack_push(2) stack_push(4))
    show "G_registry ?L4 = G_registry ?L" by (simp add: lua_createtable_def)
  qed
  have "L_stack ?L4 = TTable (G_next ?L) # TUserdata v # TTable t # L_stack ?L"
    by (simp add: lua_createtable_def api_incr_top_def)
  from lua_settable_ref[OF rt this, of E]
  have st: "lua_settable E ?L4 (- 3)
      = ret (set_ref ?L4 t (alist_set (TUserdata v) (TTable (G_next ?L)) es)\<lparr>L_stack := TTable t # L_stack ?L\<rparr>)"
    by simp
  let ?L5 = "set_ref ?L4 t (alist_set (TUserdata v) (TTable (G_next ?L)) es)\<lparr>L_stack := TTable t # L_stack ?L\<rparr>"
  have fin: "lua_settop ?L5 ?idx = ret (added ?L t es v)"
    using lua_settop_drop[of ?L5 "[TTable t]" "L_stack ?L"]
    by (simp add: lua_gettop_def) (simp add: added_def set_ref_def lua_createtable_def api_incr_top_def)
  have "xbind (lua_pushstring ?L (Some (uuid @ [0]))) (\<lambda>L. xbind (lua_gettable E L LUA_REGISTRYINDEX) f)
      = f (LUA_TTABLE, ?L1)" for f :: "lua_type \<times> 'a lua_State \<Rightarrow> 'a lua_State exec"
    using push_uuid[OF env(3), of E] by (simp only: xbind_assoc[symmetric] xbind_simps)
  moreover have "lua_pop (api_incr_top TNil ?L2) 1 = ret ?L2" "lua_type_of (api_incr_top TNil ?L2) (- 1) = ret LUA_TNIL"
    by (simp_all add: lua_simps)
  ultimately show ?thesis
    using env(1,2) v1 v2 miss st fin
    by (simp add: AddTxToLmdbEnvRefTable_def ref_uuid_def mdb_env_get_userctx_def env_at_def on_L_def lua_pushvalue_at)
qed

end
