(* ===== verification/MdbTxnSafe.thy ===== *)
theory MdbTxnSafe
  imports MdbTxn
begin

text \<open>
  The invariant of environments and transactions that share a lock file, and what beginning,
  aborting, committing and closing do to the live transactions.
\<close>

text \<open>What no call changes of an open environment.\<close>

definition static :: "MDB_env \<Rightarrow> bytes option \<times> bytes \<times> 32 word \<times> nat option \<times> bool" where
  "static env = (me_userctx env, me_path env, me_flags env, me_txn0 env, me_txns env)"

definition same_envs :: "mdb \<Rightarrow> mdb \<Rightarrow> bool" where
  "same_envs m m' \<longleftrightarrow> (\<forall>e. map_option static (m_envs m' e) = map_option static (m_envs m e))"

lemma same_envs_refl [simp]: "same_envs m m"
  by (simp add: same_envs_def)

lemma same_envs_trans: "same_envs m m' \<Longrightarrow> same_envs m' m'' \<Longrightarrow> same_envs m m''"
  by (simp add: same_envs_def)

text \<open>A live transaction of an environment.\<close>

definition live :: "mdb \<Rightarrow> nat \<Rightarrow> nat \<Rightarrow> bool" where
  "live m p e \<longleftrightarrow> (\<exists>txn env. m_txns m p = Some txn \<and> mt_env txn = e \<and> m_envs m e = Some env
     \<and> (mt_rdonly txn \<or> me_txn env = Some p))"

definition env_ok :: "mdb \<Rightarrow> nat \<Rightarrow> MDB_env \<Rightarrow> bool" where
  "env_ok m e env \<longleftrightarrow>
     e < m_next m \<and> me_txns env
     \<and> (case me_txn0 env of
          None \<Rightarrow> me_txn env = None \<and> has_flag (me_flags env) MDB_RDONLY
        | Some p \<Rightarrow> \<exists>txn. m_txns m p = Some txn \<and> mt_env txn = e \<and> \<not> mt_rdonly txn)
     \<and> (me_txn env = None \<or> me_txn env = me_txn0 env)
     \<and> (me_wmutex env \<longleftrightarrow> me_txn env \<noteq> None)"

definition mdb_ok :: "mdb \<Rightarrow> bool" where
  "mdb_ok m \<longleftrightarrow>
     (\<forall>e env. m_envs m e = Some env \<longrightarrow> env_ok m e env)
     \<and> (\<forall>p txn. m_txns m p = Some txn \<longrightarrow> p < m_next m \<and> mt_env txn < m_next m
          \<and> (\<forall>env. \<not> mt_rdonly txn \<longrightarrow> m_envs m (mt_env txn) = Some env \<longrightarrow> me_txn0 env = Some p))"

lemma mdb_okI:
  assumes "\<And>e env. m_envs m e = Some env \<Longrightarrow> env_ok m e env"
    "\<And>p txn. m_txns m p = Some txn \<Longrightarrow> p < m_next m \<and> mt_env txn < m_next m
      \<and> (\<forall>env. \<not> mt_rdonly txn \<longrightarrow> m_envs m (mt_env txn) = Some env \<longrightarrow> me_txn0 env = Some p)"
  shows "mdb_ok m"
  using assms by (auto simp: mdb_ok_def)

lemma mdb_ok_env: "mdb_ok m \<Longrightarrow> m_envs m e = Some env \<Longrightarrow> env_ok m e env"
  by (auto simp: mdb_ok_def)

lemma mdb_ok_txn: "mdb_ok m \<Longrightarrow> m_txns m p = Some txn \<Longrightarrow> p < m_next m \<and> mt_env txn < m_next m"
  by (auto simp: mdb_ok_def)

text \<open>The two kinds of change a call makes: to an environment, keeping its static part, and to a
  read-only transaction.\<close>

lemma env_set_ok:
  assumes "mdb_ok m" "m_envs m e = Some env" "static env' = static env"
    "me_txn env' = None \<or> me_txn env' = me_txn0 env'" "me_wmutex env' \<longleftrightarrow> me_txn env' \<noteq> None"
  shows "mdb_ok (env_set m e env')" "same_envs m (env_set m e env')"
proof -
  have ok: "env_ok m e env" using mdb_ok_env[OF assms(1,2)] .
  have "env_ok (env_set m e env') e' x" if x: "m_envs (env_set m e env') e' = Some x" for e' x
  proof (cases "e' = e")
    case True
    then have "x = env'" using x by (simp add: env_set_def)
    then show ?thesis
      using ok assms(3-5) True by (auto simp: env_ok_def env_set_def static_def split: option.splits)
  next
    case False
    then show ?thesis using x mdb_ok_env[OF assms(1), of e' x] by (auto simp: env_ok_def env_set_def split: option.splits)
  qed
  then show "mdb_ok (env_set m e env')"
    using assms(1-3) by (auto simp: mdb_ok_def env_set_def static_def)
  show "same_envs m (env_set m e env')"
    using assms(2,3) by (simp add: same_envs_def env_set_def)
qed

lemma env_set_live:
  assumes "m_envs m e = Some env" "me_txn env' = me_txn env \<or> me_txn env = None"
  shows "live m q e' \<Longrightarrow> live (env_set m e env') q e'"
  using assms by (auto simp: live_def env_set_def)

lemma rdonly_txn_ok:
  assumes "mdb_ok m" "p < m_next m" "mt_rdonly txn" "mt_env txn < m_next m"
    "\<forall>old. m_txns m p = Some old \<longrightarrow> mt_rdonly old"
  shows "mdb_ok (txn_set m p txn)"
proof (rule mdb_okI)
  fix e env assume "m_envs (txn_set m p txn) e = Some env"
  then have "env_ok m e env" using mdb_ok_env[OF assms(1)] by (simp add: txn_set_def)
  then show "env_ok (txn_set m p txn) e env"
    using assms(5) by (auto simp: env_ok_def txn_set_def split: option.splits)
next
  fix q txn' assume "m_txns (txn_set m p txn) q = Some txn'"
  then show "q < m_next (txn_set m p txn) \<and> mt_env txn' < m_next (txn_set m p txn)
      \<and> (\<forall>env. \<not> mt_rdonly txn' \<longrightarrow> m_envs (txn_set m p txn) (mt_env txn') = Some env \<longrightarrow> me_txn0 env = Some q)"
    using assms by (auto simp: mdb_ok_def txn_set_def split: if_splits)
qed

lemma rdonly_free_ok:
  assumes "mdb_ok m" "\<forall>old. m_txns m p = Some old \<longrightarrow> mt_rdonly old"
  shows "mdb_ok (txn_free m p)"
proof (rule mdb_okI)
  fix e env assume "m_envs (txn_free m p) e = Some env"
  then have "env_ok m e env" using mdb_ok_env[OF assms(1)] by (simp add: txn_free_def)
  then show "env_ok (txn_free m p) e env"
    using assms(2) by (auto simp: env_ok_def txn_free_def split: option.splits)
next
  fix q txn' assume "m_txns (txn_free m p) q = Some txn'"
  then show "q < m_next (txn_free m p) \<and> mt_env txn' < m_next (txn_free m p)
      \<and> (\<forall>env. \<not> mt_rdonly txn' \<longrightarrow> m_envs (txn_free m p) (mt_env txn') = Some env \<longrightarrow> me_txn0 env = Some q)"
    using assms by (auto simp: mdb_ok_def txn_free_def split: if_splits)
qed

lemma txn_other_live:
  assumes "q \<noteq> p"
  shows "live (txn_set m p txn) q e \<longleftrightarrow> live m q e" "live (txn_free m p) q e \<longleftrightarrow> live m q e"
  using assms by (auto simp: live_def txn_set_def txn_free_def)

lemma same_envs_txn [simp]: "same_envs m (txn_set m p txn)" "same_envs m (txn_free m p)"
  by (simp_all add: same_envs_def txn_set_def txn_free_def)

subsection \<open>Beginning\<close>

text \<open>A reader: the environment changes in its slots only.\<close>

lemma renew_reader:
  assumes "mdb_ok m" "p < m_next m" "m_txns m p = Some txn" "mt_rdonly txn" "mdb_txn_renew0 m p = ret (rc, m')"
  shows "mdb_ok m' \<and> same_envs m m' \<and> m_next m' = m_next m
    \<and> (\<exists>txn'. m_txns m' p = Some txn' \<and> mt_rdonly txn' \<and> mt_env txn' = mt_env txn \<and> m_envs m' (mt_env txn) \<noteq> None)
    \<and> (\<forall>q e. q \<noteq> p \<longrightarrow> live m q e \<longrightarrow> live m' q e) \<and> (\<forall>q. q \<noteq> p \<longrightarrow> m_txns m' q = m_txns m q)"
proof -
  let ?e = "mt_env txn"
  obtain env where env: "m_envs m ?e = Some env"
    using assms(3,5) by (cases "m_envs m ?e") (simp_all add: mdb_txn_renew0_def txn_at_def env_at_def)
  have ok: "env_ok m ?e env" using mdb_ok_env[OF assms(1) env] .
  have es: "mdb_ok (txn_set (env_set m ?e env') p (txn\<lparr>mt_reader := r\<rparr>))
        \<and> same_envs m (txn_set (env_set m ?e env') p (txn\<lparr>mt_reader := r\<rparr>))
        \<and> (\<forall>q e. q \<noteq> p \<longrightarrow> live m q e \<longrightarrow> live (txn_set (env_set m ?e env') p (txn\<lparr>mt_reader := r\<rparr>)) q e)"
    if "static env' = static env" "me_txn env' = me_txn env" "me_wmutex env' = me_wmutex env" for env' r
  proof -
    have e1: "mdb_ok (env_set m ?e env')" "same_envs m (env_set m ?e env')"
      using env_set_ok[OF assms(1) env that(1)] ok that by (simp_all add: env_ok_def static_def)
    have "mdb_ok (txn_set (env_set m ?e env') p (txn\<lparr>mt_reader := r\<rparr>))"
    proof (rule rdonly_txn_ok[OF e1(1)])
      show "p < m_next (env_set m ?e env')" using assms(2) by (simp add: env_set_def)
      show "mt_env (txn\<lparr>mt_reader := r\<rparr>) < m_next (env_set m ?e env')"
        using mdb_ok_txn[OF assms(1,3)] by (simp add: env_set_def)
      show "\<forall>old. m_txns (env_set m ?e env') p = Some old \<longrightarrow> mt_rdonly old"
        using assms(3,4) by (simp add: env_set_def)
    qed (simp add: assms(4))
    moreover have "same_envs m (txn_set (env_set m ?e env') p (txn\<lparr>mt_reader := r\<rparr>))"
      using same_envs_trans[OF e1(2) same_envs_txn(1)] .
    moreover have "live (txn_set (env_set m ?e env') p (txn\<lparr>mt_reader := r\<rparr>)) q e'" if "q \<noteq> p" "live m q e'" for q e'
      using env_set_live[OF env _ that(2), of env'] \<open>me_txn env' = me_txn env\<close> txn_other_live(1)[OF that(1)] by simp
    ultimately show ?thesis by blast
  qed
  let ?D = "\<lambda>env'. m' = txn_set (env_set m ?e env') p (txn\<lparr>mt_reader := True\<rparr>)
      \<and> static env' = static env \<and> me_txn env' = me_txn env \<and> me_wmutex env' = me_wmutex env"
  note defs = mdb_txn_renew0_def txn_at_def env_at_def Let_def claim_reader_def static_def
  have tx: "me_txns env" using ok by (simp add: env_ok_def)
  let ?full = "me_readers env = me_maxreaders env" and ?tls = "has_flag (me_flags env) MDB_NOTLS"
  let ?claimed = "env\<lparr>me_readers := me_readers env + 1\<rparr>"
  consider (same) "m' = m" | (notls) "?D ?claimed" | (busy) "?D (env\<lparr>me_txkey := Some True\<rparr>)"
    | (tls) "?D (?claimed\<lparr>me_txkey := Some True\<rparr>)"
  proof (cases ?tls)
    case True
    then show thesis using same notls assms(3-5) env tx by (cases ?full) (simp_all add: defs)
  next
    case False
    then show thesis
    proof (cases "me_txkey env")
      case None
      then show thesis using same tls assms(3-5) env tx \<open>\<not> ?tls\<close> by (cases ?full) (simp_all add: defs)
    next
      case (Some b)
      then show thesis using same busy assms(3-5) env tx \<open>\<not> ?tls\<close> by (cases b) (simp_all add: defs)
    qed
  qed
  then have "m' = m \<or> (\<exists>env'. ?D env')" by cases blast+
  then show ?thesis
  proof
    assume "m' = m"
    then show ?thesis using assms(1,3,4) env by simp
  next
    assume "\<exists>env'. m' = txn_set (env_set m ?e env') p (txn\<lparr>mt_reader := True\<rparr>)
      \<and> static env' = static env \<and> me_txn env' = me_txn env \<and> me_wmutex env' = me_wmutex env"
    then obtain env' where m': "m' = txn_set (env_set m ?e env') p (txn\<lparr>mt_reader := True\<rparr>)"
      and "static env' = static env" "me_txn env' = me_txn env" "me_wmutex env' = me_wmutex env" by blast
    then have "mdb_ok m' \<and> same_envs m m' \<and> (\<forall>q e. q \<noteq> p \<longrightarrow> live m q e \<longrightarrow> live m' q e)"
      using es by blast
    then show ?thesis
      using assms(4) unfolding m' by (simp add: txn_set_def env_set_def)
  qed
qed

text \<open>What a caller sees of a call that ends or begins at most the transaction \<open>p\<close>.\<close>

definition keeps :: "mdb \<Rightarrow> nat \<Rightarrow> mdb \<Rightarrow> bool" where
  "keeps m p m' \<longleftrightarrow> mdb_ok m' \<and> same_envs m m' \<and> (\<forall>q e. q \<noteq> p \<longrightarrow> live m q e \<longrightarrow> live m' q e)
     \<and> (\<forall>q. q \<noteq> p \<longrightarrow> m_txns m' q = m_txns m q)"

lemma env_change_keeps:
  assumes "mdb_ok m" "m_envs m e = Some env" "static env' = static env"
    "me_txn env' = None \<or> me_txn env' = me_txn0 env'" "me_wmutex env' \<longleftrightarrow> me_txn env' \<noteq> None"
    "me_txn env' = me_txn env \<or> me_txn env = None \<or> me_txn env = Some p"
  shows "keeps m p (env_set m e env')"
proof -
  have "live (env_set m e env') q e'" if "q \<noteq> p" "live m q e'" for q e'
    using that assms(2,6) by (auto simp: live_def env_set_def)
  then show ?thesis
    using env_set_ok[OF assms(1-5)] by (simp add: keeps_def) (simp add: env_set_def)
qed

lemma txn0_facts:
  assumes "mdb_ok m" "m_envs m e = Some env" "me_txn0 env = Some p"
  obtains txn where "m_txns m p = Some txn" "mt_env txn = e" "\<not> mt_rdonly txn"
  using mdb_ok_env[OF assms(1,2)] assms(3) by (auto simp: env_ok_def)

text \<open>A write transaction that is neither in error nor dirty; the flags in the struct do not matter
  to the invariant.\<close>

lemma txn_flags_keeps:
  assumes "mdb_ok m" "m_txns m p = Some txn" "mt_env txn' = mt_env txn" "mt_rdonly txn' = mt_rdonly txn"
  shows "keeps m p (txn_set m p txn')"
proof -
  have "mdb_ok (txn_set m p txn')"
  proof (rule mdb_okI)
    fix e env assume "m_envs (txn_set m p txn') e = Some env"
    then have "env_ok m e env" using mdb_ok_env[OF assms(1)] by (simp add: txn_set_def)
    then show "env_ok (txn_set m p txn') e env"
      using assms(2-4) by (auto simp: env_ok_def txn_set_def split: option.splits)
  next
    fix q t assume "m_txns (txn_set m p txn') q = Some t"
    then show "q < m_next (txn_set m p txn') \<and> mt_env t < m_next (txn_set m p txn')
        \<and> (\<forall>env. \<not> mt_rdonly t \<longrightarrow> m_envs (txn_set m p txn') (mt_env t) = Some env \<longrightarrow> me_txn0 env = Some q)"
      using assms by (auto simp: mdb_ok_def txn_set_def split: if_splits)
  qed
  then show ?thesis by (simp add: keeps_def txn_other_live) (simp add: txn_set_def)
qed

lemma keeps_trans: "keeps m p m' \<Longrightarrow> keeps m' p m'' \<Longrightarrow> keeps m p m''"
  unfolding keeps_def using same_envs_trans by (metis (no_types, lifting))

lemma keeps_refl: "mdb_ok m \<Longrightarrow> keeps m p m"
  by (simp add: keeps_def)

lemma mdb_ok_next: "mdb_ok m \<Longrightarrow> mdb_ok (m\<lparr>m_next := m_next m + 1\<rparr>)"
proof (rule mdb_okI)
  fix e env assume ok: "mdb_ok m" and "m_envs (m\<lparr>m_next := m_next m + 1\<rparr>) e = Some env"
  then have "env_ok m e env" using mdb_ok_env[OF ok] by simp
  then show "env_ok (m\<lparr>m_next := m_next m + 1\<rparr>) e env" by (auto simp: env_ok_def split: option.splits)
next
  fix p txn assume ok: "mdb_ok m" and "m_txns (m\<lparr>m_next := m_next m + 1\<rparr>) p = Some txn"
  then show "p < m_next (m\<lparr>m_next := m_next m + 1\<rparr>) \<and> mt_env txn < m_next (m\<lparr>m_next := m_next m + 1\<rparr>)
      \<and> (\<forall>env. \<not> mt_rdonly txn \<longrightarrow> m_envs (m\<lparr>m_next := m_next m + 1\<rparr>) (mt_env txn) = Some env \<longrightarrow> me_txn0 env = Some p)"
    using mdb_ok_txn[OF ok, of p txn] ok by (auto simp: mdb_ok_def intro: less_SucI)
qed

lemma live_next [simp]: "live (m\<lparr>m_next := n\<rparr>) = live m"
  by (simp add: live_def fun_eq_iff)

lemma begin_keeps:
  assumes "mdb_ok m" "mdb_txn_begin m e flags = ret (0, Some p, m')"
  shows "keeps m p m' \<and> live m' p e \<and> (\<forall>e'. \<not> live m p e')"
proof -
  obtain env where env: "m_envs m e = Some env"
    using assms(2) by (cases "m_envs m e") (simp_all add: mdb_txn_begin_def env_at_def)
  have ok: "env_ok m e env" using mdb_ok_env[OF assms(1) env] .
  have go: "\<not> has_flag (me_flags env) MDB_FATAL_ERROR"
      "has_flag (me_flags env) MDB_RDONLY \<longrightarrow> has_flag flags MDB_RDONLY"
    using assms(2) env by (auto simp: mdb_txn_begin_def env_at_def split: if_splits)
  show ?thesis
  proof (cases "has_flag flags MDB_RDONLY")
    case False
    then obtain p0 where p0: "me_txn0 env = Some p0" "mdb_txn_renew0 m p0 = ret (0, m')" "p = p0"
    proof -
      have b: "(case me_txn0 env of None \<Rightarrow> throw Null_Deref
          | Some p \<Rightarrow> xbind (mdb_txn_renew0 m p) (\<lambda>(rc, m). ret (rc, if rc = 0 then Some p else None, m)))
        = ret (0, Some p, m')"
        using assms(2) env go False by (simp add: mdb_txn_begin_def env_at_def)
      show thesis
      proof (cases "me_txn0 env")
        case (Some p0)
        then have "xbind (mdb_txn_renew0 m p0) (\<lambda>(rc, m). ret (rc, if rc = 0 then Some p0 else None, m)) = ret (0, Some p, m')"
          using b by simp
        then show thesis unfolding xbind_ret_iff using Some that by (auto split: if_splits)
      qed (use b in simp)
    qed
    obtain txn where txn: "m_txns m p0 = Some txn" "mt_env txn = e" "\<not> mt_rdonly txn"
      using txn0_facts[OF assms(1) env p0(1)] .
    let ?env = "env\<lparr>me_wmutex := me_txns env, me_txn := Some p0\<rparr>"
    let ?txn = "txn\<lparr>mt_error := False, mt_dirty := False\<rparr>"
    have free: "\<not> me_wmutex env" and m': "m' = txn_set (env_set m e ?env) p0 ?txn"
      using p0(2) txn env ok
      by (auto simp: mdb_txn_renew0_def txn_at_def env_at_def Let_def env_ok_def split: if_splits)
    have none: "me_txn env = None" using ok free by (simp add: env_ok_def)
    have k1: "keeps m p0 (env_set m e ?env)"
      using env_change_keeps[OF assms(1) env, of ?env p0] ok none p0(1) by (simp add: static_def env_ok_def)
    have "keeps (env_set m e ?env) p0 m'"
      unfolding m' using k1 txn(1) by (intro txn_flags_keeps) (simp_all add: keeps_def env_set_def)
    then have "keeps m p0 m'" using keeps_trans[OF k1] by blast
    moreover have "live m' p0 e" using txn(2) unfolding m' by (simp add: live_def txn_set_def env_set_def)
    moreover have "\<not> live m p0 e'" for e' using txn env none by (auto simp: live_def)
    ultimately show ?thesis using p0(3) by blast
  next
    case True
    let ?p = "m_next m"
    let ?txn = "\<lparr>mt_env = e, mt_rdonly = True, mt_error = False, mt_dirty = False, mt_reader = False\<rparr>"
    let ?m = "(txn_set m ?p ?txn)\<lparr>m_next := ?p + 1\<rparr>"
    have r: "mdb_txn_renew0 ?m ?p = ret (0, m')" "p = ?p"
    proof -
      have b: "xbind (mdb_txn_renew0 ?m ?p) (\<lambda>(rc, m). if rc \<noteq> 0 then ret (rc, None, txn_free m ?p) else ret (0, Some ?p, m))
        = ret (0, Some p, m')"
        using assms(2) env go True by (simp add: mdb_txn_begin_def env_at_def Let_def)
      then show "mdb_txn_renew0 ?m ?p = ret (0, m')" "p = ?p" unfolding xbind_ret_iff by (auto split: if_splits)
    qed
    have nop: "m_txns m ?p = None" using mdb_ok_txn[OF assms(1), of ?p] by (cases "m_txns m ?p") auto
    have nolive: "\<not> live m ?p e'" for e' using nop by (simp add: live_def)
    have "mdb_ok (txn_set (m\<lparr>m_next := ?p + 1\<rparr>) ?p ?txn)"
      using mdb_ok_next[OF assms(1)] ok nop
      by (intro rdonly_txn_ok) (simp_all add: env_ok_def)
    moreover have "txn_set (m\<lparr>m_next := ?p + 1\<rparr>) ?p ?txn = ?m" by (cases m) (simp add: txn_set_def)
    ultimately have ok': "mdb_ok ?m" by (simp only:)
    have "mdb_ok m' \<and> same_envs ?m m' \<and> (\<exists>txn'. m_txns m' ?p = Some txn' \<and> mt_rdonly txn' \<and> mt_env txn' = e \<and> m_envs m' e \<noteq> None)
        \<and> (\<forall>q e. q \<noteq> ?p \<longrightarrow> live ?m q e \<longrightarrow> live m' q e) \<and> (\<forall>q. q \<noteq> ?p \<longrightarrow> m_txns m' q = m_txns m q)"
      using renew_reader[OF ok' _ _ _ r(1), of ?txn] by (simp add: txn_set_def)
    moreover have "same_envs m ?m" by (simp add: same_envs_def txn_set_def)
    ultimately show ?thesis
      using nolive r(2) same_envs_trans[of m ?m m'] txn_other_live(1)[of _ ?p m ?txn]
      by (auto simp: keeps_def live_def[of m' ?p e])
  qed
qed

subsection \<open>Ending\<close>

text \<open>Aborting a live transaction succeeds and ends no other.\<close>

lemma abort_keeps:
  assumes "mdb_ok m" "live m p e"
  shows "\<exists>m'. mdb_txn_abort m (Some p) = ret m' \<and> keeps m p m'"
proof -
  obtain txn env where txn: "m_txns m p = Some txn" "mt_env txn = e" and env: "m_envs m e = Some env"
      and alive: "mt_rdonly txn \<or> me_txn env = Some p"
    using assms(2) unfolding live_def by blast
  have ok: "env_ok m e env" using mdb_ok_env[OF assms(1) env] .
  show ?thesis
  proof (cases "mt_rdonly txn")
    case False
    let ?env = "env\<lparr>me_txn := None, me_wmutex := False\<rparr>"
    have p0: "me_txn0 env = Some p" "me_txns env"
      using ok alive False by (auto simp: env_ok_def)
    have "mdb_txn_abort m (Some p) = ret (env_set m e ?env)"
      using txn env False p0 by (simp add: mdb_txn_abort_def mdb_txn_reset0_def txn_at_def env_at_def env_set_def Let_def)
    moreover have "keeps m p (env_set m e ?env)"
      using alive False by (intro env_change_keeps[OF assms(1) env]) (simp_all add: static_def)
    ultimately show ?thesis by blast
  next
    case True
    have np: "me_txn0 env \<noteq> Some p"
      using ok txn True by (auto simp: env_ok_def)
    have ro: "keeps m p (txn_free m' p)" if "keeps m p m'" "\<forall>old. m_txns m' p = Some old \<longrightarrow> mt_rdonly old" for m'
    proof -
      have "keeps m' p (txn_free m' p)"
        using rdonly_free_ok[of m' p] that by (simp add: keeps_def txn_other_live) (simp add: txn_free_def)
      then show ?thesis using keeps_trans[OF that(1)] by blast
    qed
    have k: "keeps m p (env_set m e env')" if "static env' = static env" "me_txn env' = me_txn env" "me_wmutex env' = me_wmutex env"
      for env'
      using that ok by (intro env_change_keeps[OF assms(1) env]) (simp_all add: env_ok_def static_def)
    let ?tls = "env\<lparr>me_txkey := Some False\<rparr>" and ?slot = "env\<lparr>me_readers := me_readers env - 1\<rparr>"
    note defs = mdb_txn_abort_def mdb_txn_reset0_def txn_at_def env_at_def env_set_def txn_set_def Let_def
    show ?thesis
    proof (cases "mt_reader txn")
      case False
      then have "mdb_txn_abort m (Some p) = ret (txn_free m p)"
        using txn env True np by (simp add: defs)
      then show ?thesis using ro[OF keeps_refl[OF assms(1)]] txn(1) True by simp
    next
      case r: True
      show ?thesis
      proof (cases "has_flag (me_flags env) MDB_NOTLS")
        case notls: True
        have "mdb_txn_abort m (Some p) = ret (txn_free (env_set m e ?slot) p)"
          using txn env True np r notls by (simp add: defs)
        moreover have "keeps m p (txn_free (env_set m e ?slot) p)"
          using txn(1) True by (intro ro k) (simp_all add: static_def env_set_def)
        ultimately show ?thesis by blast
      next
        case False
        let ?m = "txn_set (env_set m e ?tls) p (txn\<lparr>mt_reader := False\<rparr>)"
        have "mdb_txn_abort m (Some p) = ret (txn_free ?m p)"
          using txn env True np r False by (simp add: defs)
        moreover have k1: "keeps m p (env_set m e ?tls)" by (intro k) (simp_all add: static_def)
        moreover have "keeps (env_set m e ?tls) p ?m"
          using k1 txn(1) by (intro txn_flags_keeps) (simp_all add: keeps_def env_set_def)
        ultimately show ?thesis
          using ro[of ?m] keeps_trans[OF k1] True by (simp add: txn_set_def)
      qed
    qed
  qed
qed

text \<open>After the abort the transaction is over: the writer's slot is free again, and the struct of a
  reader is freed.\<close>

definition ends :: "mdb \<Rightarrow> nat set \<Rightarrow> mdb \<Rightarrow> bool" where
  "ends m ps m' \<longleftrightarrow> (\<forall>q e. live m' q e \<longrightarrow> q \<notin> ps \<and> live m q e)
     \<and> (\<forall>q \<in> ps. \<forall>txn. m_txns m q = Some txn \<longrightarrow> mt_rdonly txn \<longrightarrow> m_txns m' q = None)"

lemma ends_none: "ends m {} m"
  by (simp add: ends_def)

lemma ends_live: "ends m ps m' \<Longrightarrow> live m' q e \<Longrightarrow> q \<notin> ps \<and> live m q e"
  unfolding ends_def by blast

lemma ends_freed: "ends m ps m' \<Longrightarrow> q \<in> ps \<Longrightarrow> m_txns m q = Some txn \<Longrightarrow> mt_rdonly txn \<Longrightarrow> m_txns m' q = None"
  unfolding ends_def by blast

lemma ends_step:
  assumes "ends m {p} m'" "ends m' ps m''" "\<forall>q. q \<notin> ps \<longrightarrow> m_txns m'' q = m_txns m' q"
    "\<forall>q. q \<noteq> p \<longrightarrow> m_txns m' q = m_txns m q" "p \<notin> ps"
  shows "ends m (insert p ps) m''"
proof -
  have "m_txns m'' q = None" if q: "q \<in> insert p ps" "m_txns m q = Some txn" "mt_rdonly txn" for q txn
  proof (cases "q = p")
    case True
    then have "m_txns m' q = None" using ends_freed[OF assms(1)] q(2,3) by simp
    then show ?thesis using assms(3,5) True by simp
  next
    case False
    then have "m_txns m' q = Some txn" "q \<in> ps" using assms(4) q(1,2) by simp_all
    then show ?thesis using ends_freed[OF assms(2)] q(3) by blast
  qed
  moreover have "q \<notin> insert p ps \<and> live m q e" if "live m'' q e" for q e
  proof -
    have "q \<notin> ps" "live m' q e" using ends_live[OF assms(2) that] by simp_all
    then show ?thesis using ends_live[OF assms(1), of q e] by simp
  qed
  ultimately show ?thesis by (simp add: ends_def)
qed

lemma abort_ends:
  assumes "mdb_ok m" "live m p e" "mdb_txn_abort m (Some p) = ret m'"
  shows "ends m {p} m'"
proof -
  obtain txn env where txn: "m_txns m p = Some txn" "mt_env txn = e" and env: "m_envs m e = Some env"
      and alive: "mt_rdonly txn \<or> me_txn env = Some p"
    using assms(2) unfolding live_def by blast
  have ok: "env_ok m e env" using mdb_ok_env[OF assms(1) env] .
  note defs = mdb_txn_abort_def mdb_txn_reset0_def txn_at_def env_at_def env_set_def txn_set_def txn_free_def Let_def
  show ?thesis
  proof (cases "mt_rdonly txn")
    case False
    then have "m' = env_set m e (env\<lparr>me_txn := None, me_wmutex := False\<rparr>)"
      using ok alive txn env assms(3) by (auto simp: env_ok_def defs)
    then show ?thesis using txn env False by (auto simp: ends_def live_def env_set_def split: if_splits)
  next
    case True
    have np: "me_txn0 env \<noteq> Some p" using ok txn True by (auto simp: env_ok_def)
    then have "m_txns m' = (m_txns m)(p := None)" "m_envs m' e \<noteq> None \<longrightarrow> me_txn (the (m_envs m' e)) = me_txn env"
        "\<forall>e'. e' \<noteq> e \<longrightarrow> m_envs m' e' = m_envs m e'"
      using txn env True assms(3) by (auto simp: defs split: if_splits)
    then show ?thesis using env by (fastforce simp: ends_def live_def split: if_splits)
  qed
qed

text \<open>So does committing, whether or not the commit fails.\<close>

lemma commit_keeps:
  assumes "mdb_ok m" "live m p e"
  shows "\<exists>rc m'. mdb_txn_commit m write_rc (Some p) = ret (rc, m') \<and> keeps m p m'"
proof -
  obtain txn env where txn: "m_txns m p = Some txn" "mt_env txn = e" and env: "m_envs m e = Some env"
      and alive: "mt_rdonly txn \<or> me_txn env = Some p"
    using assms(2) unfolding live_def by blast
  obtain m' where ab: "mdb_txn_abort m (Some p) = ret m'" "keeps m p m'"
    using abort_keeps[OF assms] by blast
  let ?env = "env\<lparr>me_txn := None, me_wmutex := (if me_txns env then False else me_wmutex env)\<rparr>"
  show ?thesis
  proof (cases "mt_rdonly txn \<or> mt_error txn \<or> (mt_dirty txn \<and> write_rc \<noteq> 0)")
    case True
    then show ?thesis
      using txn env ab alive by (auto simp: mdb_txn_commit_def txn_at_def env_at_def Let_def)
  next
    case False
    then have e: "me_txn env = Some p" "me_txn0 env = Some p" "me_txns env"
      using mdb_ok_env[OF assms(1) env] alive by (auto simp: env_ok_def)
    have "mdb_txn_commit m write_rc (Some p) = ret (0, env_set m e ?env)"
      using txn env e False by (auto simp: mdb_txn_commit_def txn_at_def env_at_def Let_def)
    moreover have "keeps m p (env_set m e ?env)"
      using e by (intro env_change_keeps[OF assms(1) env]) (simp_all add: static_def)
    ultimately show ?thesis by blast
  qed
qed

text \<open>Closing an environment leaves the live transactions of the others alive.\<close>

lemma close_live:
  assumes "mdb_ok m" "m_envs m e = Some env"
  shows "\<exists>m'. mdb_env_close m (Some e) = ret m' \<and> mdb_ok m' \<and> m_envs m' = (m_envs m)(e := None)
    \<and> (\<forall>q e'. e' \<noteq> e \<longrightarrow> live m q e' \<longrightarrow> live m' q e') \<and> (\<forall>q. m_txns m' q = None \<or> m_txns m' q = m_txns m q)
    \<and> (\<forall>p. me_txn0 env = Some p \<longrightarrow> m_txns m' p = None)"
proof -
  let ?m = "(case me_txn0 env of None \<Rightarrow> m | Some p \<Rightarrow> txn_free m p)\<lparr>m_envs := (m_envs m)(e := None)\<rparr>"
  have m: "mdb_env_close m (Some e) = ret ?m"
    using assms(2) by (auto simp: mdb_env_close_def mdb_env_close0_def env_at_def txn_free_def split: option.splits)
  have tx: "m_txns ?m q = (if me_txn0 env = Some q then None else m_txns m q)" for q
    by (auto simp: txn_free_def split: option.splits)
  have nx: "m_next ?m = m_next m" by (auto simp: txn_free_def split: option.splits)
  have "env_ok ?m e' env'" if e': "m_envs ?m e' = Some env'" for e' env'
  proof -
    have o: "m_envs m e' = Some env'" "e' \<noteq> e" using e' by (auto split: if_splits)
    have ok: "env_ok m e' env'" using mdb_ok_env[OF assms(1) o(1)] .
    have "me_txn0 env \<noteq> me_txn0 env'" if "me_txn0 env' \<noteq> None"
    proof -
      obtain p' where p': "me_txn0 env' = Some p'" using \<open>me_txn0 env' \<noteq> None\<close> by blast
      obtain t where "m_txns m p' = Some t" "mt_env t = e'" using txn0_facts[OF assms(1) o(1) p'] .
      moreover have "me_txn0 env = Some p' \<Longrightarrow> \<exists>t. m_txns m p' = Some t \<and> mt_env t = e"
        using txn0_facts[OF assms(1,2)] by metis
      ultimately show ?thesis using p' o(2) by auto
    qed
    then show ?thesis using ok nx tx by (auto simp: env_ok_def split: option.splits)
  qed
  then have "mdb_ok ?m"
    using assms(1) tx nx by (intro mdb_okI) (auto simp: mdb_ok_def split: if_splits)
  moreover have "live ?m q e'" if l: "e' \<noteq> e" "live m q e'" for q e'
  proof -
    obtain t env' where t: "m_txns m q = Some t" "mt_env t = e'" "m_envs m e' = Some env'" "mt_rdonly t \<or> me_txn env' = Some q"
      using l(2) unfolding live_def by blast
    have "me_txn0 env \<noteq> Some q"
      using txn0_facts[OF assms(1,2), of q] t(1,2) l(1) by fastforce
    then show ?thesis using t tx[of q] l(1) unfolding live_def by auto
  qed
  moreover have "\<forall>q. m_txns ?m q = None \<or> m_txns ?m q = m_txns m q" unfolding tx by simp
  moreover have "\<forall>p. me_txn0 env = Some p \<longrightarrow> m_txns ?m p = None" unfolding tx by simp
  ultimately show ?thesis using m by (auto intro!: exI[of _ ?m])
qed

end
