(* ===== verification/LmdbEnvSafe.thy ===== *)
theory LmdbEnvSafe
  imports LmdbEnvLemmas MdbTxnSafe
begin

text \<open>
  The life-cycle of environments and transactions as a state machine over Lua calls, and the
  invariant of its reachable states: every pointer a transaction object holds is to a live
  transaction.
\<close>

subsection \<open>The Lua side of the state\<close>

definition lua_ok :: "'d world \<Rightarrow> nat \<Rightarrow> nat \<Rightarrow> bool" where
  "lua_ok w me mt \<longleftrightarrow>
     (\<exists>ps htx. registry_is (w_L w) ps
        \<and> lookup ps (TString LMDB_ENV_REGISTRY_NAME) = TTable me \<and> lookup ps (TString LMDB_TX_REGISTRY_NAME) = TTable mt
        \<and> plain_table (w_L w) mt htx \<and> lookup htx (TString (str ''__index'')) = TTable mt
        \<and> (\<forall>u. lookup htx (TUserdata u) = TNil))
     \<and> (\<forall>u. w_env w u \<noteq> None \<longrightarrow> G_udmt (w_L w) u = Some me \<and> u < G_next (w_L w))
     \<and> (\<forall>u. w_tx w u \<noteq> None \<longrightarrow> G_udmt (w_L w) u = Some mt \<and> u < G_next (w_L w))
     \<and> (\<forall>a. G_next (w_L w) \<le> a \<longrightarrow> G_heap (w_L w) a = None)"

text \<open>A method called on an object, with further arguments.\<close>

definition call_with :: "'d world \<Rightarrow> 'd tvalue list \<Rightarrow> 'd world" where
  "call_with w args = w\<lparr>w_L := (w_L w)\<lparr>L_stack := args\<rparr>\<rparr>"

lemma call_with_simps [simp]:
  "L_stack (w_L (call_with w args)) = args" "G_heap (w_L (call_with w args)) = G_heap (w_L w)"
  "w_env (call_with w args) = w_env w" "w_cursor (call_with w args) = w_cursor w" "w_tx (call_with w args) = w_tx w" "w_mdb (call_with w args) = w_mdb w"
  "G_next (w_L (call_with w args)) = G_next (w_L w)" "G_udmt (w_L (call_with w args)) = G_udmt (w_L w)"
  "G_registry (w_L (call_with w args)) = G_registry (w_L w)" "w_L (call_with w args) = (w_L w)\<lparr>L_stack := args\<rparr>"
  "lua_ok (call_with w args) me mt = lua_ok w me mt"
  "ref_of (call_with w args) e t es = ref_of w e t es"
  by (simp_all add: call_with_def lua_ok_def ref_of_def registry_is_def)

text \<open>Type checks of the arguments.\<close>

lemma check_userdata:
  assumes "lua_ok w me mt" "value_at (w_L w) idx = ret (TUserdata u)"
  shows "w_tx w u \<noteq> None \<Longrightarrow> on_L2 w (\<lambda>L. luaL_checkudata E L idx LMDB_TX_REGISTRY_NAME) = ret (u, w)"
    and "w_env w u \<noteq> None \<Longrightarrow> on_L2 w (\<lambda>L. luaL_checkudata E L idx LMDB_ENV_REGISTRY_NAME) = ret (u, w)"
proof -
  obtain ps where ps: "registry_is (w_L w) ps" "lookup ps (TString LMDB_ENV_REGISTRY_NAME) = TTable me"
      "lookup ps (TString LMDB_TX_REGISTRY_NAME) = TTable mt"
    using assms(1) unfolding lua_ok_def by blast
  show "on_L2 w (\<lambda>L. luaL_checkudata E L idx LMDB_TX_REGISTRY_NAME) = ret (u, w)" if "w_tx w u \<noteq> None"
  proof -
    have "G_udmt (w_L w) u = Some mt" using assms(1) that unfolding lua_ok_def by blast
    then show ?thesis using luaL_checkudata_eval[OF assms(2) ps(1)] ps(3) by (simp add: on_L2_def)
  qed
  show "on_L2 w (\<lambda>L. luaL_checkudata E L idx LMDB_ENV_REGISTRY_NAME) = ret (u, w)" if "w_env w u \<noteq> None"
  proof -
    have "G_udmt (w_L w) u = Some me" using assms(1) that unfolding lua_ok_def by blast
    then show ?thesis using luaL_checkudata_eval[OF assms(2) ps(1)] ps(2) by (simp add: on_L2_def)
  qed
qed

lemma value_at_self [lua_simps]: "L_stack L = args @ [v] \<Longrightarrow> value_at L 1 = ret v"
  using value_at_1[of L] by simp

subsection \<open>The effect of the methods\<close>

text \<open>The Lua state after a transaction left the reference table \<open>t\<close>.\<close>

definition released :: "'d world \<Rightarrow> nat \<Rightarrow> ('d tvalue \<times> 'd tvalue) list \<Rightarrow> nat \<Rightarrow> 'd lua_State" where
  "released w t es u = set_ref (w_L w) t (alist_set (TUserdata u) TNil es)\<lparr>L_stack := [TTable t, TUserdata u]\<rparr>"

lemma Release_effect:
  assumes "lua_ok w me mt" "w_tx w u = Some loc" "tx_txn loc = Some p" "m_txns (w_mdb w) p = Some txn"
    "ref_of w (mt_env txn) t es"
  shows "LmdbTx_Release E (call_with w [TUserdata u]) = ret (u, w\<lparr>w_L := released w t es u\<rparr>)"
proof -
  let ?w = "call_with w [TUserdata u]"
  have v: "value_at (w_L ?w) 1 = ret (TUserdata u)" by (simp add: value_at_self)
  have "on_L2 ?w (\<lambda>L. luaL_checkudata E L 1 LMDB_TX_REGISTRY_NAME) = ret (u, ?w)"
    using check_userdata(1)[of ?w me mt 1 u E] assms(1,2) v by simp
  moreover have "RemoveTxFromLmdbEnvRefTable E ?w (Some (mt_env txn)) (Some p) 1 = ret (w\<lparr>w_L := released w t es u\<rparr>)"
  proof -
    have r: "ref_of ?w (mt_env txn) t es" using assms(5) by simp
    show ?thesis
      using RemoveTx_effect[OF r _ _ v, of E p] by (simp add: lua_gettop_def released_def set_ref_def call_with_def)
  qed
  ultimately show ?thesis
    using assms(2-4)
    by (simp add: LmdbTx_Release_def tx_block_def mdb_txn_env_def txn_at_def lua_gettop_def)
qed

lemma Close_effect:
  assumes "lua_ok w me mt" "w_tx w u = Some loc" "tx_txn loc = Some p" "m_txns (w_mdb w) p = Some txn"
    "ref_of w (mt_env txn) t es" "mdb_txn_abort (w_mdb w) (Some p) = ret m"
  shows "LmdbTx_Close E (call_with w [TUserdata u])
       = ret (0, set_tx (w\<lparr>w_L := released w t es u, w_mdb := m\<rparr>) u (loc\<lparr>tx_txn := None\<rparr>))"
  using Release_effect[OF assms(1-5), of E] assms(2,3,6) by (simp add: LmdbTx_Close_def tx_block_def)

lemma Commit_effect:
  assumes "lua_ok w me mt" "w_tx w u = Some loc" "tx_txn loc = Some p" "m_txns (w_mdb w) p = Some txn"
    "ref_of w (mt_env txn) t es" "mdb_txn_commit (w_mdb w) (os_write_rc os) (Some p) = ret (rc, m)"
  shows "LmdbTx_Commit E os (call_with w [TUserdata u])
       = (if rc \<noteq> 0 then ret (rc, 0, w\<lparr>w_L := released w t es u, w_mdb := m\<rparr>)
          else ret (0, 1, set_tx (w\<lparr>w_L := released w t es u, w_mdb := m\<rparr>) u (loc\<lparr>tx_txn := None\<rparr>)))"
  using Release_effect[OF assms(1-5), of E] assms(2,3,6) by (simp add: LmdbTx_Commit_def tx_block_def)

text \<open>\<open>env:begin(ro)\<close>: the new object \<open>v\<close>, its entry in the reference table, its pointer.\<close>

definition begin_args :: "bool \<Rightarrow> 'd tvalue list" where
  "begin_args ro = (if ro then [TBoolean True] else [])"

definition begun :: "'d world \<Rightarrow> nat \<Rightarrow> ('d tvalue \<times> 'd tvalue) list \<Rightarrow> nat \<Rightarrow> 'd tvalue list \<Rightarrow> 'd lua_State" where
  "begun w t es mt args =
     (let L = w_L w; v = G_next L
      in added (L\<lparr>L_stack := TUserdata v # args, G_next := v + 1, G_udmt := (G_udmt L)(v \<mapsto> mt)\<rparr>) t es v)"

lemma Begin_effect:
  assumes "lua_ok w me mt" "w_env w u = Some (Some e)" "ref_of w e t es"
    "mdb_txn_begin (w_mdb w) e (if ro then MDB_RDONLY else 0) = ret (0, Some p, m)" "live m p e"
    "same_envs (w_mdb w) m"
  shows "LmdbEnv_BeginTx E os (call_with w (begin_args ro @ [TUserdata u]))
       = ret (1, w\<lparr>w_L := begun w t es mt (begin_args ro @ [TUserdata u]), w_mdb := m,
              w_tx := (w_tx w)(G_next (w_L w) \<mapsto> \<lparr>tx_txn = Some p, tx_dbi = 1\<rparr>)\<rparr>)"
proof -
  let ?args = "begin_args ro @ [TUserdata u]"
  let ?w = "call_with w ?args" and ?v = "G_next (w_L w)" and ?L = "w_L w"
  obtain ps htx where lib: "registry_is ?L ps" "lookup ps (TString LMDB_TX_REGISTRY_NAME) = TTable mt"
      "plain_table ?L mt htx" "lookup htx (TString (str ''__index'')) = TTable mt" "\<forall>u. lookup htx (TUserdata u) = TNil"
    using assms(1) unfolding lua_ok_def by blast
  have fresh: "G_heap ?L a = None" if "G_next ?L \<le> a" for a using assms(1) that unfolding lua_ok_def by blast
  have "value_at (w_L ?w) 1 = ret (TUserdata u)" by (simp add: value_at_self)
  then have "on_L2 ?w (\<lambda>L. luaL_checkudata E L 1 LMDB_ENV_REGISTRY_NAME) = ret (u, ?w)"
    using check_userdata(2)[of ?w me mt 1 u E] assms(1,2) by simp
  then have chk: "CheckLmdbEnvParam E ?w 1 = ret (e, ?w)"
    using assms(2) by (simp add: CheckLmdbEnvParam_def env_block_def)
  have fl: "(if 1 < lua_gettop (w_L ?w) then xbind (lua_toboolean (w_L ?w) 2) (\<lambda>b. ret (if b then MDB_RDONLY else 0)) else ret 0)
      = ret (if ro then MDB_RDONLY else 0)"
    by (simp add: begin_args_def lua_gettop_def lua_toboolean_def index2addr_def Let_def)
  let ?L1 = "?L\<lparr>L_stack := TUserdata ?v # ?args, G_next := ?v + 1, G_udmt := (G_udmt ?L)(?v := None)\<rparr>"
  let ?L2 = "?L\<lparr>L_stack := TUserdata ?v # ?args, G_next := ?v + 1, G_udmt := (G_udmt ?L)(?v \<mapsto> mt)\<rparr>"
  have new: "lua_newuserdata (w_L ?w) = (?v, ?L1)"
    by (simp add: lua_newuserdata_def api_incr_top_def)
  have "registry_is ?L1 ps" using lib(1) by (simp add: registry_is_def plain_table_def)
  from luaL_getmetatable_registry[OF this, of E LMDB_TX_REGISTRY_NAME]
  have meta: "xbind (luaL_getmetatable E ?L1 LMDB_TX_REGISTRY_NAME) (\<lambda>(_, L). lua_setmetatable L (- 2)) = ret ?L2"
    using lib(2) by (simp add: lua_setmetatable_def lua_simps)
  let ?w1 = "w\<lparr>w_mdb := m, w_tx := (w_tx w)(?v \<mapsto> \<lparr>tx_txn = Some p, tx_dbi = 0\<rparr>), w_L := ?L2\<rparr>"
  obtain env uuid where env: "m_envs (w_mdb w) e = Some env" "me_userctx env = Some uuid" "ref_table ?L uuid t es"
    using assms(3) unfolding ref_of_def by blast
  have "map_option static (m_envs m e) = Some (static env)"
    using assms(6) env(1) by (simp add: same_envs_def)
  then obtain env' where env': "m_envs m e = Some env'" "me_userctx env' = Some uuid"
    using env(2) by (auto simp: static_def)
  have "ref_table ?L2 uuid t es" by (rule ref_table_heap[OF env(3)]) simp_all
  then have ref: "ref_of ?w1 e t es" using env' unfolding ref_of_def by auto
  have "AddTxToLmdbEnvRefTable E ?w1 (Some e) (Some p) (lua_gettop (w_L ?w1)) = ret (?w1\<lparr>w_L := added (w_L ?w1) t es ?v\<rparr>)"
    using lib(3,4) lib(5)[rule_format, of ?v] fresh by (intro AddTx_effect[OF ref]) (simp_all add: plain_table_def)
  moreover have "txn_at m p = ret (the (m_txns m p))"
    using assms(5) by (auto simp: live_def txn_at_def)
  ultimately have "LmdbEnv_BeginTx E os ?w
      = ret (1, ?w1\<lparr>w_L := added (w_L ?w1) t es ?v, w_tx := (w_tx w)(?v \<mapsto> \<lparr>tx_txn = Some p, tx_dbi = 1\<rparr>)\<rparr>)"
    unfolding LmdbEnv_BeginTx_def chk xbind_simps(3) prod.case fl
    using new meta assms(4) by (simp add: on_L_def set_tx_def Let_def call_with_def)
  also have "?w1\<lparr>w_L := added (w_L ?w1) t es ?v, w_tx := (w_tx w)(?v \<mapsto> \<lparr>tx_txn = Some p, tx_dbi = 1\<rparr>)\<rparr>
      = w\<lparr>w_L := begun w t es mt ?args, w_mdb := m, w_tx := (w_tx w)(?v \<mapsto> \<lparr>tx_txn = Some p, tx_dbi = 1\<rparr>)\<rparr>"
    by (rule world.equality) (simp_all add: begun_def Let_def)
  finally show ?thesis .
qed

subsection \<open>Closing an environment\<close>

text \<open>The transactions with an entry that is not nil.\<close>

definition owners :: "('d tvalue \<times> 'd tvalue) list \<Rightarrow> nat set" where
  "owners es = {u. \<exists>c. (TUserdata u, TTable c) \<in> set es}"

lemma owners_simps [simp]: "owners [] = {}" "owners ((TUserdata u, TTable c) # es) = insert u (owners es)"
  "owners ((k, TNil) # es) = owners es"
  by (auto simp: owners_def)

text \<open>What the loop needs of the entries that are left.\<close>

definition entry_ok :: "'d world \<Rightarrow> nat \<Rightarrow> ('d tvalue \<times> 'd tvalue) \<Rightarrow> bool" where
  "entry_ok w e kv \<longleftrightarrow> (\<exists>u tx. fst kv = TUserdata u \<and> w_tx w u = Some tx
     \<and> (snd kv = TNil \<or> (\<exists>c p. snd kv = TTable c \<and> plain_table (w_L w) c [] \<and> tx_txn tx = Some p \<and> live (w_mdb w) p e)))"

definition pointers :: "'d world \<Rightarrow> nat set \<Rightarrow> nat set" where
  "pointers w us = {p. \<exists>u \<in> us. \<exists>tx. w_tx w u = Some tx \<and> tx_txn tx = Some p}"

definition injective :: "'d world \<Rightarrow> bool" where
  "injective w \<longleftrightarrow> (\<forall>u u' tx tx' p. w_tx w u = Some tx \<longrightarrow> w_tx w u' = Some tx' \<longrightarrow> tx_txn tx = Some p
     \<longrightarrow> tx_txn tx' = Some p \<longrightarrow> u = u')"

text \<open>The objects after their pointers were set to NULL.\<close>

definition cleared :: "(nat \<Rightarrow> LuaDB_LmdbTx option) \<Rightarrow> nat set \<Rightarrow> nat \<Rightarrow> LuaDB_LmdbTx option" where
  "cleared f us u = (if u \<in> us then map_option (\<lambda>tx. tx\<lparr>tx_txn := None\<rparr>) (f u) else f u)"

lemma cleared_none: "w\<lparr>w_L := L, w_tx := cleared (w_tx w) {}, w_mdb := w_mdb w\<rparr> = w\<lparr>w_L := L\<rparr>"
  by (rule world.equality) (simp_all add: cleared_def fun_eq_iff)

lemma next_nil: "next_entry es = None \<Longrightarrow> (\<forall>kv \<in> set es. snd kv = TNil)"
  by (induction es) (auto split: if_splits)

lemma next_split:
  assumes "next_entry es = Some kv"
  shows "\<exists>pre post. es = pre @ kv # post \<and> (\<forall>kv \<in> set pre. snd kv = TNil) \<and> snd kv \<noteq> TNil"
  using assms
proof (induction es)
  case (Cons p es)
  show ?case
  proof (cases "snd p = TNil")
    case True
    then obtain pre post where "es = pre @ kv # post" "\<forall>kv \<in> set pre. snd kv = TNil" "snd kv \<noteq> TNil"
      using Cons by auto
    then show ?thesis using True by (intro exI[of _ "p # pre"] exI[of _ post]) auto
  next
    case False
    then show ?thesis using Cons.prems by (intro exI[of _ "[]"] exI[of _ es]) auto
  qed
qed simp

text \<open>A cursor table is always empty.\<close>

lemma CleanCursors_empty:
  assumes "value_at (w_L w) idx = ret (TTable c)" "L_stack (w_L w) = TNil # s" "plain_table (w_L w) c []"
  shows "CleanCursors E w idx = ret (w\<lparr>w_L := (w_L w)\<lparr>L_stack := s\<rparr>\<rparr>)"
  using assms
  by (subst CleanCursors.simps) (simp add: on_L2_def lua_next_def hvalue_plain value_at_neg luaH_next_def)

text \<open>One round of the loop, for the next entry \<open>(u, c)\<close> after the key \<open>k\<close>.\<close>

lemma CleanTxns_step:
  assumes "lua_ok w me mt" "L_stack (w_L w) = k # TTable t # s" "G_heap (w_L w) t = Some h"
    "luaH_next E h k = ret (Some (TUserdata u, TTable c))"
    "w_tx w u = Some tx" "tx_txn tx = Some p" "plain_table (w_L w) c []" "mdb_txn_abort (w_mdb w) (Some p) = ret m"
    "idx = int (Suc (length s))"
  shows "CleanTxns E w idx = CleanTxns E
       (set_tx (w\<lparr>w_mdb := m\<rparr>) u (tx\<lparr>tx_txn := None\<rparr>)\<lparr>w_L := (w_L w)\<lparr>L_stack := TUserdata u # TTable t # s\<rparr>\<rparr>) idx"
proof -
  let ?L = "w_L w"
  let ?L1 = "?L\<lparr>L_stack := TTable c # TUserdata u # TTable t # s\<rparr>"
  have at: "value_at ?L idx = ret (TTable t)"
    using value_at_pos[of "Suc (length s)" "TTable t # s" ?L "[k]"] assms(2,9) by simp
  have nx: "lua_next E ?L idx = ret (True, ?L1)"
    using at assms(2-4) by (simp add: lua_next_def hvalue_def value_at_neg)
  let ?w1 = "w\<lparr>w_L := ?L1\<rparr>"
  have ok1: "lua_ok ?w1 me mt" using assms(1) by (simp add: lua_ok_def registry_is_def)
  have chk: "on_L2 ?w1 (\<lambda>L. luaL_checkudata E L (- 2) LMDB_TX_REGISTRY_NAME) = ret (u, ?w1)"
    using check_userdata(1)[OF ok1, of "- 2" u E] assms(5) by (simp add: value_at_neg)
  have top: "lua_gettop ?L1 = int (length (TTable c # TUserdata u # TTable t # s))"
    by (simp add: lua_gettop_def)
  have c: "value_at (lua_pushnil ?L1) (lua_gettop ?L1) = ret (TTable c)"
    using value_at_pos[of "length (L_stack ?L1)" "L_stack ?L1" "lua_pushnil ?L1" "[TNil]"]
    by (simp add: top lua_pushnil_def)
  have cur: "CleanCursors E (?w1\<lparr>w_L := lua_pushnil ?L1\<rparr>) (lua_gettop ?L1) = ret ?w1"
    using CleanCursors_empty[of "?w1\<lparr>w_L := lua_pushnil ?L1\<rparr>" "lua_gettop ?L1" c "L_stack ?L1" E] c assms(7)
    by (simp add: lua_pushnil_def plain_table_def)
  show ?thesis
    using nx chk cur assms(5,6,8)
    by (subst CleanTxns.simps) (simp add: on_L2_def tx_block_def lua_simps on_L_def set_tx_def Let_def)
qed

lemma CleanTxns_end:
  assumes "L_stack (w_L w) = k # TTable t # s" "G_heap (w_L w) t = Some h" "luaH_next E h k = ret None" "idx = int (Suc (length s))"
  shows "CleanTxns E w idx = ret (w\<lparr>w_L := (w_L w)\<lparr>L_stack := TTable t # s\<rparr>\<rparr>)"
proof -
  have at: "value_at (w_L w) idx = ret (TTable t)"
    using value_at_pos[of "Suc (length s)" "TTable t # s" "w_L w" "[k]"] assms(1,4) by simp
  then show ?thesis
    using assms(1-3) by (subst CleanTxns.simps) (simp add: on_L2_def lua_next_def hvalue_def value_at_neg)
qed

text \<open>Where the traversal stands: after key \<open>k\<close>, with the entries \<open>rest\<close> to come.\<close>

definition position :: "'d lua_env \<Rightarrow> 'd ltable \<Rightarrow> 'd tvalue \<Rightarrow> ('d tvalue \<times> 'd tvalue) list \<Rightarrow> bool" where
  "position E h k rest \<longleftrightarrow> (k = TNil \<and> rest = traversal E (t_node h))
     \<or> (\<exists>pre u v. k = TUserdata u \<and> traversal E (t_node h) = pre @ (k, v) # rest)"

lemma position_next:
  assumes "position E h k rest" "distinct (map fst (t_node h))"
  shows "luaH_next E h k = ret (next_entry rest)"
  using assms luaH_next_first[of E h] luaH_next_after[OF _ assms(2), of E _ k _ rest]
  unfolding position_def by auto

lemma CleanTxns_all:
  assumes "lua_ok w me mt" "L_stack (w_L w) = k # TTable t # s" "G_heap (w_L w) t = Some h" "idx = int (Suc (length s))"
    "position E h k rest" "distinct (map fst (t_node h))" "mdb_ok (w_mdb w)" "injective w" "\<forall>kv \<in> set rest. entry_ok w e kv"
  shows "\<exists>m. CleanTxns E w idx = ret (w\<lparr>w_L := (w_L w)\<lparr>L_stack := TTable t # s\<rparr>, w_tx := cleared (w_tx w) (owners rest), w_mdb := m\<rparr>)
     \<and> mdb_ok m \<and> same_envs (w_mdb w) m
     \<and> (\<forall>q e'. live (w_mdb w) q e' \<longrightarrow> q \<notin> pointers w (owners rest) \<longrightarrow> live m q e')
     \<and> (\<forall>q. q \<notin> pointers w (owners rest) \<longrightarrow> m_txns m q = m_txns (w_mdb w) q)
     \<and> ends (w_mdb w) (pointers w (owners rest)) m"
  using assms
proof (induction "length rest" arbitrary: w k rest rule: less_induct)
  case less
  note prems = less.prems
  show ?case
  proof (cases "next_entry rest")
    case None
    then have "owners rest = {}" using next_nil[OF None] by (force simp: owners_def)
    then show ?thesis
      using CleanTxns_end[OF prems(2,3) _ prems(4), of E] position_next[OF prems(5,6)] None prems(7)
      by (intro exI[of _ "w_mdb w"]) (simp add: cleared_none pointers_def ends_none)
  next
    case (Some kv)
    obtain pre post where sp: "rest = pre @ kv # post" "\<forall>kv \<in> set pre. snd kv = TNil" "snd kv \<noteq> TNil"
      using next_split[OF Some] by blast
    obtain u tx c p where kv: "kv = (TUserdata u, TTable c)" and tx: "w_tx w u = Some tx" "tx_txn tx = Some p"
        and c: "plain_table (w_L w) c []" and lv: "live (w_mdb w) p e"
      using prems(9) sp unfolding entry_ok_def by (cases kv) auto
    obtain m where m: "mdb_txn_abort (w_mdb w) (Some p) = ret m" "keeps (w_mdb w) p m"
      using abort_keeps[OF prems(7) lv] by blast
    let ?w = "set_tx (w\<lparr>w_mdb := m\<rparr>) u (tx\<lparr>tx_txn := None\<rparr>)\<lparr>w_L := (w_L w)\<lparr>L_stack := TUserdata u # TTable t # s\<rparr>\<rparr>"
    have step: "CleanTxns E w idx = CleanTxns E ?w idx"
      using CleanTxns_step[OF prems(1-3) _ tx c m(1) prems(4)] position_next[OF prems(5,6)] Some kv by simp
    have dis: "distinct (map fst rest)"
      using prems(5) traversal_distinct[OF prems(6), of E] unfolding position_def by auto
    have notin: "u' \<noteq> u" if "(TUserdata u', x) \<in> set post" for u' x
      using dis sp(1) kv that by (auto dest: in_set_conv_decomp[THEN iffD1])
    have "lua_ok ?w me mt"
      using prems(1) tx(1) by (simp add: lua_ok_def registry_is_def set_tx_def)
    moreover have "position E h (TUserdata u) post"
    proof -
      consider "rest = traversal E (t_node h)" | pre' v k' where "traversal E (t_node h) = pre' @ (k', v) # rest"
        using prems(5) unfolding position_def by blast
      then show ?thesis
      proof cases
        case 1
        then show ?thesis using sp(1) kv unfolding position_def by blast
      next
        case 2
        then have "traversal E (t_node h) = (pre' @ (k', v) # pre) @ (TUserdata u, TTable c) # post" using sp(1) kv by simp
        then show ?thesis unfolding position_def by blast
      qed
    qed
    moreover have "injective ?w"
      using prems(8) tx unfolding injective_def by (auto simp: set_tx_def split: if_splits)
    moreover have "entry_ok ?w e kv'" if kv': "kv' \<in> set post" for kv'
    proof -
      have "entry_ok w e kv'" using prems(9) sp(1) kv' by simp
      then obtain u' tx' where e1: "fst kv' = TUserdata u'" "w_tx w u' = Some tx'"
          "snd kv' = TNil \<or> (\<exists>c p. snd kv' = TTable c \<and> plain_table (w_L w) c [] \<and> tx_txn tx' = Some p \<and> live (w_mdb w) p e)"
        unfolding entry_ok_def by blast
      have ne: "u' \<noteq> u" using notin[of u' "snd kv'"] kv' e1(1) by (cases kv') auto
      have "live m p' e" if "tx_txn tx' = Some p'" "live (w_mdb w) p' e" for p'
      proof -
        have "p' \<noteq> p" using prems(8) tx e1(2) that(1) ne unfolding injective_def by blast
        then show ?thesis using m(2) that(2) unfolding keeps_def by blast
      qed
      then show ?thesis
        using e1 ne unfolding entry_ok_def by (auto simp: set_tx_def)
    qed
    moreover have "mdb_ok m" "length post < length rest" using m(2) sp(1) by (simp_all add: keeps_def)
    ultimately obtain m' where m': "CleanTxns E ?w idx
          = ret (?w\<lparr>w_L := (w_L ?w)\<lparr>L_stack := TTable t # s\<rparr>, w_tx := cleared (w_tx ?w) (owners post), w_mdb := m'\<rparr>)"
        "mdb_ok m'" "same_envs m m'"
        "\<forall>q e'. live m q e' \<longrightarrow> q \<notin> pointers ?w (owners post) \<longrightarrow> live m' q e'"
        "\<forall>q. q \<notin> pointers ?w (owners post) \<longrightarrow> m_txns m' q = m_txns m q"
        "ends m (pointers ?w (owners post)) m'"
      using less.hyps[of post ?w "TUserdata u"] prems(3,4,6) by (auto simp: set_tx_def)
    have ow: "owners rest = insert u (owners post)"
      using sp(1,2) kv by (fastforce simp: owners_def)
    have "cleared (w_tx ?w) (owners post) = cleared (w_tx w) (owners rest)"
      using tx(1) notin unfolding ow by (auto simp: cleared_def set_tx_def owners_def fun_eq_iff)
    moreover have "live m' q e'" if q: "live (w_mdb w) q e'" "q \<notin> pointers w (owners rest)" for q e'
    proof -
      have "q \<noteq> p" using q(2) tx unfolding ow by (auto simp: pointers_def)
      then have "live m q e'" using m(2) q(1) unfolding keeps_def by blast
      moreover have "q \<notin> pointers ?w (owners post)"
        using q(2) unfolding ow by (auto simp: pointers_def set_tx_def split: if_splits)
      ultimately show ?thesis using m'(4) by blast
    qed
    moreover have "m_txns m' q = m_txns (w_mdb w) q" if q: "q \<notin> pointers w (owners rest)" for q
    proof -
      have "q \<noteq> p" using q tx unfolding ow by (auto simp: pointers_def)
      moreover have "q \<notin> pointers ?w (owners post)"
        using q unfolding ow by (auto simp: pointers_def set_tx_def split: if_splits)
      ultimately show ?thesis using m(2) m'(5) unfolding keeps_def by metis
    qed
    moreover have "ends (w_mdb w) (pointers w (owners rest)) m'"
    proof -
      have "pointers w (owners rest) = insert p (pointers ?w (owners post))"
        using tx notin unfolding ow by (auto simp: pointers_def set_tx_def owners_def)
      moreover have "p \<notin> pointers ?w (owners post)"
        using tx prems(8) unfolding injective_def by (fastforce simp: pointers_def set_tx_def split: if_splits)
      ultimately show ?thesis
        using ends_step[OF abort_ends[OF prems(7) lv m(1)] m'(6,5)] m(2) unfolding keeps_def by simp
    qed
    moreover have "same_envs (w_mdb w) m'"
      using m(2) m'(3) same_envs_trans unfolding keeps_def by blast
    moreover have "?w\<lparr>w_L := (w_L ?w)\<lparr>L_stack := TTable t # s\<rparr>, w_tx := cleared (w_tx ?w) (owners post), w_mdb := m'\<rparr>
        = w\<lparr>w_L := (w_L w)\<lparr>L_stack := TTable t # s\<rparr>, w_tx := cleared (w_tx ?w) (owners post), w_mdb := m'\<rparr>"
      by (rule world.equality) (simp_all add: set_tx_def)
    ultimately show ?thesis
      using step m'(1,2) by auto
  qed
qed

lemma EnvClose_effect:
  assumes "lua_ok w me mt" "w_env w u = Some (Some e)" "ref_of w e t es" "distinct (map fst es)" "mdb_ok (w_mdb w)"
    "injective w" "\<forall>kv \<in> set es. entry_ok w e kv"
  shows "\<exists>m uuid w1. LmdbEnv_Close E (call_with w [TUserdata u])
      = ret (0, w\<lparr>w_L := (w_L w)\<lparr>L_stack := [TTable t, TUserdata u]\<rparr>, w_tx := cleared (w_tx w) (owners es), w_mdb := m,
                 w_env := (w_env w)(u \<mapsto> None)\<rparr>)
     \<and> mdb_ok m \<and> (\<forall>e'. map_option static (m_envs m e') = (if e' = e then None else map_option static (m_envs (w_mdb w) e')))
     \<and> (\<forall>q e'. e' \<noteq> e \<longrightarrow> live (w_mdb w) q e' \<longrightarrow> q \<notin> pointers w (owners es) \<longrightarrow> live m q e')
     \<and> (\<forall>q. q \<notin> pointers w (owners es) \<longrightarrow> m_txns m q = None \<or> m_txns m q = m_txns (w_mdb w) q)
     \<and> mdb_env_get_userctx (w_mdb w) (Some e) = ret (Some uuid)
     \<and> CleanLmdbEnvRefTable E (call_with w [TUserdata u]) uuid = ret w1 \<and> mdb_env_close (w_mdb w1) (Some e) = ret m
     \<and> ends (w_mdb w) (pointers w (owners es)) (w_mdb w1)
     \<and> (\<forall>p. live (w_mdb w) p e \<longrightarrow> p \<in> pointers w (owners es) \<longrightarrow> m_txns m p = None)"
proof -
  let ?w = "call_with w [TUserdata u]"
  obtain env uuid where env: "m_envs (w_mdb w) e = Some env" "me_userctx env = Some uuid" "ref_table (w_L w) uuid t es"
    using assms(3) unfolding ref_of_def by blast
  obtain wm where h: "G_heap (w_L w) t = Some \<lparr>t_node = es, t_metatable = Some wm\<rparr>"
    using env(3) unfolding ref_table_def by blast
  have chk: "on_L2 ?w (\<lambda>L. luaL_checkudata E L 1 LMDB_ENV_REGISTRY_NAME) = ret (u, ?w)"
    using check_userdata(2)[of ?w me mt 1 u E] assms(1,2) by (simp add: value_at_self)
  let ?L1 = "(w_L w)\<lparr>L_stack := [TTable t, TUserdata u]\<rparr>"
  let ?w1 = "w\<lparr>w_L := ?L1\<lparr>L_stack := [TNil, TTable t, TUserdata u]\<rparr>\<rparr>"
  have "ref_table ((w_L w)\<lparr>L_stack := [TUserdata u]\<rparr>) uuid t es" using env(3) by simp
  from push_uuid[OF this, of E]
  have push: "xbind (lua_pushstring (w_L ?w) (Some (uuid @ [0]))) (\<lambda>L. xbind (lua_gettable E L LUA_REGISTRYINDEX) f)
      = f (LUA_TTABLE, ?L1)" for f :: "lua_type \<times> 'a lua_State \<Rightarrow> (lua_type \<times> 'a lua_State) exec"
    by (simp add: xbind_assoc[symmetric]) (simp add: api_incr_top_def)
  have "lua_ok ?w1 me mt" using assms(1) by (simp add: lua_ok_def registry_is_def)
  moreover have "\<forall>kv \<in> set es. entry_ok ?w1 e kv"
    using assms(7) by (simp add: entry_ok_def)
  moreover have "position E \<lparr>t_node = es, t_metatable = Some wm\<rparr> TNil (traversal E es)" by (simp add: position_def)
  moreover have "set (traversal E es) = set es" "owners (traversal E es) = owners es"
    using traversal_set[OF assms(4), of E] by (simp_all add: owners_def)
  ultimately obtain m where m: "CleanTxns E ?w1 2
        = ret (?w1\<lparr>w_L := (w_L ?w1)\<lparr>L_stack := [TTable t, TUserdata u]\<rparr>, w_tx := cleared (w_tx w) (owners es), w_mdb := m\<rparr>)"
      "mdb_ok m" "same_envs (w_mdb w) m"
      "\<forall>q e'. live (w_mdb w) q e' \<longrightarrow> q \<notin> pointers w (owners es) \<longrightarrow> live m q e'"
      "\<forall>q. q \<notin> pointers w (owners es) \<longrightarrow> m_txns m q = m_txns (w_mdb w) q" "ends (w_mdb w) (pointers w (owners es)) m"
    using CleanTxns_all[of ?w1 me mt TNil t "[TUserdata u]" "\<lparr>t_node = es, t_metatable = Some wm\<rparr>" 2 E "traversal E es" e] h assms(4-6)
    by (auto simp: injective_def pointers_def)
  let ?w2 = "w\<lparr>w_L := ?L1, w_tx := cleared (w_tx w) (owners es), w_mdb := m\<rparr>"
  have "on_L2 ?w (\<lambda>L. xbind (lua_pushstring L (Some (uuid @ [0]))) (\<lambda>L. xbind (lua_gettable E L LUA_REGISTRYINDEX) (\<lambda>(_, L).
      xbind (lua_type_of L (- 1)) (\<lambda>type. ret (type, L))))) = ret (LUA_TTABLE, w\<lparr>w_L := ?L1\<rparr>)"
    using push[of "\<lambda>(_, L). xbind (lua_type_of L (- 1)) (\<lambda>type. ret (type, L))"]
    by (simp add: on_L2_def lua_type_of_neg)
  moreover have "lua_pushnil ?L1 = ?L1\<lparr>L_stack := [TNil, TTable t, TUserdata u]\<rparr>" "lua_gettop ?L1 = 2"
    by (simp_all add: lua_pushnil_def api_incr_top_def lua_gettop_def)
  ultimately have clean: "CleanLmdbEnvRefTable E ?w uuid = ret ?w2"
    using m(1) by (simp add: CleanLmdbEnvRefTable_def)
  obtain env' where env': "m_envs m e = Some env'"
    using m(3) env(1) by (metis same_envs_def option.map_disc_iff not_None_eq)
  obtain m' where m': "mdb_env_close m (Some e) = ret m'" "mdb_ok m'" "m_envs m' = (m_envs m)(e := None)"
      "\<forall>q e'. e' \<noteq> e \<longrightarrow> live m q e' \<longrightarrow> live m' q e'" "\<forall>q. m_txns m' q = None \<or> m_txns m' q = m_txns m q"
      "\<forall>p. me_txn0 env' = Some p \<longrightarrow> m_txns m' p = None"
    using close_live[OF m(2) env'] by blast
  have freed: "m_txns m' p = None" if p: "live (w_mdb w) p e" "p \<in> pointers w (owners es)" for p
  proof -
    have st: "me_txn0 env' = me_txn0 env" using m(3) env(1) env' by (fastforce simp: same_envs_def static_def dest: spec[of _ e])
    obtain txn where txn: "m_txns (w_mdb w) p = Some txn" "mt_rdonly txn \<or> me_txn env = Some p"
      using p(1) env(1) unfolding live_def by auto
    have "env_ok (w_mdb w) e env" by (rule mdb_ok_env[OF assms(5) env(1)])
    then have "mt_rdonly txn \<or> me_txn0 env = Some p" using txn(2) by (auto simp: env_ok_def)
    then show ?thesis
      using m'(5,6) m(6) p(2) txn(1) unfolding st ends_def by (metis option.distinct(1))
  qed
  have "LmdbEnv_Close E ?w = ret (0, ?w2\<lparr>w_mdb := m', w_env := (w_env w)(u \<mapsto> None)\<rparr>)"
    unfolding LmdbEnv_Close_def chk xbind_simps(3) prod.case
    using assms(2) env(1,2) clean m'(1) by (simp add: env_block_def mdb_env_get_userctx_def env_at_def)
  then show ?thesis
    using m'(1-5) m(3-6) clean env(1,2) freed unfolding same_envs_def
    by (intro exI[of _ m'] exI[of _ uuid] exI[of _ ?w2]) (auto simp: mdb_env_get_userctx_def env_at_def)
qed

text \<open>\<open>lmdb.open(path)\<close>.\<close>

definition opened_heap :: "'d lua_State \<Rightarrow> bytes \<Rightarrow> ('d tvalue \<times> 'd tvalue) list \<Rightarrow> nat \<Rightarrow> 'd ltable option" where
  "opened_heap L uuid ps =
     (let n = G_next L
      in (G_heap L)(n + 1 \<mapsto> \<lparr>t_node = [], t_metatable = Some (n + 2)\<rparr>, n + 2 \<mapsto> \<lparr>t_node = weak_mode, t_metatable = None\<rparr>,
           G_registry L \<mapsto> \<lparr>t_node = alist_set (TString uuid) (TTable (n + 1)) ps, t_metatable = None\<rparr>))"

lemma CreateRefTable_effect:
  assumes "registry_is (w_L w) ps" "0 \<notin> set uuid" "G_registry (w_L w) < G_next (w_L w)"
  shows "CreateLmdbEnvRefTable E w (Some uuid) = ret (Some uuid,
     w\<lparr>w_L := (w_L w)\<lparr>G_heap := (G_heap (w_L w))(G_next (w_L w) \<mapsto> \<lparr>t_node = [], t_metatable = Some (G_next (w_L w) + 1)\<rparr>,
         G_next (w_L w) + 1 \<mapsto> \<lparr>t_node = weak_mode, t_metatable = None\<rparr>,
         G_registry (w_L w) \<mapsto> \<lparr>t_node = alist_set (TString uuid) (TTable (G_next (w_L w))) ps, t_metatable = None\<rparr>),
       G_next := G_next (w_L w) + 2\<rparr>\<rparr>)"
proof -
  let ?L = "w_L w"
  have reg: "G_heap ?L (G_registry ?L) = Some \<lparr>t_node = ps, t_metatable = None\<rparr>"
    using assms(1) by (simp add: registry_is_def plain_table_def)
  have "(0::byte) \<notin> set (str ''__mode'')" "(0::byte) \<notin> set (str ''kv'')" by (simp_all add: str_def)
  then have ps: "lua_pushstring L (Some (str ''__mode'' @ [0])) = ret (api_incr_top (TString (str ''__mode'')) L)"
      "lua_pushstring L (Some (str ''kv'' @ [0])) = ret (api_incr_top (TString (str ''kv'')) L)" for L :: "'a lua_State"
    by (simp_all add: lua_simps)
  let ?n = "G_next ?L"
  let ?H = "(G_heap ?L)(?n \<mapsto> \<lparr>t_node = [], t_metatable = None\<rparr>, ?n + 1 \<mapsto> \<lparr>t_node = weak_mode, t_metatable = None\<rparr>)"
  let ?L1 = "?L\<lparr>G_heap := ?H, G_next := ?n + 2, L_stack := TTable (?n + 1) # TTable ?n # TString uuid # L_stack ?L\<rparr>"
  have a: "lua_settable E (api_incr_top (TString (str ''kv'')) (api_incr_top (TString (str ''__mode''))
        (lua_createtable (lua_createtable (api_incr_top (TString uuid) ?L))))) (- 3) = ret ?L1"
    by (simp add: lua_simps lua_createtable_def) (simp add: api_incr_top_def weak_mode_def fun_upd_twist)
  let ?L2 = "?L1\<lparr>G_heap := ?H(?n \<mapsto> \<lparr>t_node = [], t_metatable = Some (?n + 1)\<rparr>), L_stack := TTable ?n # TString uuid # L_stack ?L\<rparr>"
  have b: "lua_setmetatable ?L1 (- 2) = ret ?L2"
    by (simp add: lua_setmetatable_def lua_simps hvalue_def heap_set_def)
  have c: "lua_settable E ?L2 LUA_REGISTRYINDEX = ret (?L2\<lparr>L_stack := L_stack ?L,
      G_heap := (G_heap ?L2)(G_registry ?L \<mapsto> \<lparr>t_node = alist_set (TString uuid) (TTable ?n) ps, t_metatable = None\<rparr>)\<rparr>)"
    using reg assms(3) by (subst lua_settable_eval[of ?L2 "TTable ?n" "TString uuid" "L_stack ?L" LUA_REGISTRYINDEX "G_registry ?L"
        "\<lparr>t_node = ps, t_metatable = None\<rparr>"]) (simp_all add: lua_simps)
  show ?thesis
    using assms(2) ps a b c
    by (simp add: CreateLmdbEnvRefTable_def on_L_def lua_simps) (simp add: fun_upd_twist)
qed

definition opened_env :: "mdb \<Rightarrow> bytes \<Rightarrow> bytes \<Rightarrow> MDB_env" where
  "opened_env m path uuid = \<lparr>me_flags = 0, me_userctx = Some uuid, me_path = path, me_txn0 = Some (m_next m + 1),
     me_txn = None, me_txns = True, me_wmutex = False, me_txkey = None, me_readers = 0, me_maxreaders = 126\<rparr>"

definition opened_mdb :: "mdb \<Rightarrow> bytes \<Rightarrow> bytes \<Rightarrow> mdb" where
  "opened_mdb m path uuid =
     m\<lparr>m_envs := (m_envs m)(m_next m \<mapsto> opened_env m path uuid),
       m_txns := (m_txns m)(m_next m + 1 \<mapsto>
         \<lparr>mt_env = m_next m, mt_rdonly = False, mt_error = False, mt_dirty = False, mt_reader = False\<rparr>),
       m_next := m_next m + 2\<rparr>"

lemma opened_mdb_ok:
  assumes "mdb_ok m"
  shows "mdb_ok (opened_mdb m path uuid)" "live m q e \<Longrightarrow> live (opened_mdb m path uuid) q e"
    "m_envs m (m_next m) = None"
proof -
  let ?n = "m_next m"
  show none: "m_envs m ?n = None"
    using mdb_ok_env[OF assms, of ?n] by (cases "m_envs m ?n") (auto simp: env_ok_def)
  have old: "e < ?n \<and> p < ?n" if "m_txns m p = Some t" "mt_env t = e" for p t e
    using mdb_ok_txn[OF assms that(1)] that(2) by simp
  show "mdb_ok (opened_mdb m path uuid)"
  proof (rule mdb_okI)
    fix e env assume e: "m_envs (opened_mdb m path uuid) e = Some env"
    show "env_ok (opened_mdb m path uuid) e env"
    proof (cases "e = ?n")
      case True
      then show ?thesis using e by (auto simp: env_ok_def opened_mdb_def opened_env_def)
    next
      case False
      then have ok: "env_ok m e env" using e mdb_ok_env[OF assms] by (simp add: opened_mdb_def)
      have "m_txns m p = Some t \<Longrightarrow> p \<noteq> Suc ?n" for p t using old by force
      then show ?thesis using ok by (fastforce simp: env_ok_def opened_mdb_def split: option.splits)
    qed
  next
    fix p t assume p: "m_txns (opened_mdb m path uuid) p = Some t"
    show "p < m_next (opened_mdb m path uuid) \<and> mt_env t < m_next (opened_mdb m path uuid)
        \<and> (\<forall>env. \<not> mt_rdonly t \<longrightarrow> m_envs (opened_mdb m path uuid) (mt_env t) = Some env \<longrightarrow> me_txn0 env = Some p)"
    proof (cases "p = ?n + 1")
      case True
      then show ?thesis using p by (auto simp: opened_mdb_def opened_env_def)
    next
      case False
      then have t: "m_txns m p = Some t" using p by (simp add: opened_mdb_def)
      have "mt_env t < ?n" "p < ?n" using old[OF t refl] by simp_all
      moreover have "\<not> mt_rdonly t \<Longrightarrow> m_envs m (mt_env t) = Some env \<Longrightarrow> me_txn0 env = Some p" for env
        using assms t unfolding mdb_ok_def by blast
      ultimately show ?thesis by (simp add: opened_mdb_def)
    qed
  qed
  show "live (opened_mdb m path uuid) q e" if lv: "live m q e"
  proof -
    obtain t env where t: "m_txns m q = Some t" "mt_env t = e" "m_envs m e = Some env" "mt_rdonly t \<or> me_txn env = Some q"
      using lv unfolding live_def by blast
    then have "q \<noteq> ?n + 1" "e \<noteq> ?n" using old[of q t e] by auto
    then show ?thesis using t by (simp add: live_def opened_mdb_def)
  qed
qed

lemma Open_effect:
  assumes "lua_ok w me mt" "registry_is (w_L w) ps" "G_registry (w_L w) < G_next (w_L w)" "os_open_rc os = 0"
    "os_uuid os = Some uuid" "0 \<notin> set uuid" "lookup ps (TString uuid) = TNil" "0 \<notin> set path"
  shows "LuaDB_LmdbOpenEnv E os (call_with w [TString path])
     = ret (1, w\<lparr>w_L := (w_L w)\<lparr>L_stack := [TUserdata (G_next (w_L w)), TString path],
                  G_heap := opened_heap (w_L w) uuid ps, G_next := G_next (w_L w) + 3,
                  G_udmt := (G_udmt (w_L w))(G_next (w_L w) \<mapsto> me)\<rparr>,
                w_env := (w_env w)(G_next (w_L w) \<mapsto> Some (m_next (w_mdb w))),
                w_mdb := opened_mdb (w_mdb w) path uuid\<rparr>)"
proof -
  let ?w = "call_with w [TString path]" and ?L = "w_L w" and ?m = "w_mdb w"
  let ?n = "G_next ?L"
  have me: "lookup ps (TString LMDB_ENV_REGISTRY_NAME) = TTable me"
    using assms(1,2) unfolding lua_ok_def registry_is_def plain_table_def by auto
  have "value_at (w_L ?w) 1 = ret (TString path)" by (simp add: value_at_self)
  then have tos: "on_L2 ?w (\<lambda>L. lua_tolstring E L 1) = ret (Some path, ?w)"
    by (simp add: lua_tolstring_def on_L2_def call_with_def)
  have par: "on_L2 ?w (ReadLmdbEnvParamsFromLua E os) = ret ((0, 126, 10485760), ?w)"
    by (simp add: on_L2_def ReadLmdbEnvParamsFromLua_def lua_type_of_def index2addr_def Let_def call_with_def)
  obtain m1 where m1: "mdb_env_opened ?m path 0 126 = (m_next ?m, m1)"
      "mdb_env_set_userctx m1 (Some (m_next ?m)) (Some uuid) = ret (0, opened_mdb ?m path uuid)"
    by (simp add: mdb_env_opened_def Let_def env_set_def txn_set_def mdb_env_set_userctx_def env_at_def has_flag_def
        opened_mdb_def opened_env_def)
  have op: "OpenLmdbEnv os ?m path 0 126 10485760 = (0, Some (m_next ?m), m1)"
    using assms(4) m1(1) by (simp add: OpenLmdbEnv_def)
  let ?L1 = "?L\<lparr>L_stack := [TUserdata ?n, TString path], G_next := ?n + 1, G_udmt := (G_udmt ?L)(?n := None)\<rparr>"
  have new: "lua_newuserdata (w_L ?w) = (?n, ?L1)"
    by (simp add: lua_newuserdata_def api_incr_top_def)
  let ?w1 = "?w\<lparr>w_L := ?L1, w_env := (w_env w)(?n \<mapsto> Some (m_next ?m)), w_mdb := m1\<rparr>"
  have r1: "registry_is (w_L ?w1) ps" using assms(2) by (simp add: registry_is_def plain_table_def)
  let ?L2 = "?L1\<lparr>G_heap := opened_heap ?L uuid ps, G_next := ?n + 3\<rparr>"
  have tab: "CreateLmdbEnvRefTable E ?w1 (Some uuid) = ret (Some uuid, ?w1\<lparr>w_L := ?L2\<rparr>)"
    using CreateRefTable_effect[OF r1 assms(6), of E] assms(3) by (simp add: opened_heap_def Let_def)
  have "uuid \<noteq> LMDB_ENV_REGISTRY_NAME" using me assms(7) by auto
  then have "lookup (alist_set (TString uuid) (TTable (?n + 1)) ps) (TString LMDB_ENV_REGISTRY_NAME) = TTable me"
    using me by (simp add: lookup_def)
  moreover have "registry_is ?L2 (alist_set (TString uuid) (TTable (?n + 1)) ps)"
    by (simp add: registry_is_def plain_table_def opened_heap_def Let_def)
  ultimately have gm: "xbind (luaL_getmetatable E ?L2 LMDB_ENV_REGISTRY_NAME) (\<lambda>(_, L). lua_setmetatable L (- 2))
      = ret (?L2\<lparr>G_udmt := (G_udmt ?L)(?n \<mapsto> me)\<rparr>)"
    by (simp add: luaL_getmetatable_registry lua_setmetatable_def lua_simps)
  have w1: "?w\<lparr>w_L := ?L1, w_env := (w_env ?w)(?n \<mapsto> Some (m_next ?m)), w_mdb := m1\<rparr> = ?w1" by simp
  have "LuaDB_LmdbOpenEnv E os ?w
      = xbind (mdb_env_set_userctx m1 (Some (m_next ?m)) (Some uuid)) (\<lambda>(err, m).
          if err \<noteq> 0 then lmdb_error os err
          else xbind (on_L (?w1\<lparr>w_L := ?L2, w_mdb := m\<rparr>) (\<lambda>L.
            xbind (luaL_getmetatable E L LMDB_ENV_REGISTRY_NAME) (\<lambda>(_, L). lua_setmetatable L (- 2)))) (\<lambda>w. ret (1, w)))"
    unfolding LuaDB_LmdbOpenEnv_def tos par xbind_simps(3) prod.case option.case c_string_append[OF assms(8), of "[]"]
      call_with_simps(6) op Let_def new w1 assms(5) tab
    by simp
  also have "\<dots> = ret (1, ?w1\<lparr>w_mdb := opened_mdb ?m path uuid, w_L := ?L2\<lparr>G_udmt := (G_udmt ?L)(?n \<mapsto> me)\<rparr>\<rparr>)"
    unfolding m1(2) using gm by (simp add: on_L_def)
  also have "?w1\<lparr>w_mdb := opened_mdb ?m path uuid, w_L := ?L2\<lparr>G_udmt := (G_udmt ?L)(?n \<mapsto> me)\<rparr>\<rparr>
      = w\<lparr>w_L := ?L\<lparr>L_stack := [TUserdata ?n, TString path], G_heap := opened_heap ?L uuid ps, G_next := ?n + 3,
                  G_udmt := (G_udmt ?L)(?n \<mapsto> me)\<rparr>,
           w_env := (w_env w)(?n \<mapsto> Some (m_next ?m)), w_mdb := opened_mdb ?m path uuid\<rparr>"
    by (rule world.equality) simp_all
  finally show ?thesis .
qed

end
