(* ===== verification/LmdbEnvInv.thy ===== *)
theory LmdbEnvInv
  imports LmdbEnvSafe
begin

text \<open>
  The invariant of the life-cycle: the reference table of an open environment holds exactly its
  running transactions, and every pointer in a transaction object is live. It is kept by every
  method that returns.
\<close>

subsection \<open>Association lists and reference tables\<close>

lemma alist_set_entries:
  "distinct (map fst es) \<Longrightarrow> kv \<in> set (alist_set k v es) \<longleftrightarrow> kv = (k, v) \<or> (kv \<in> set es \<and> fst kv \<noteq> k)"
  by (induction es) (auto simp: image_iff)

lemma owners_set:
  assumes "distinct (map fst es)"
  shows "owners (alist_set (TUserdata u) TNil es) = owners es - {u}"
    and "owners (alist_set (TUserdata u) (TTable c) es) = insert u (owners es)"
  using assms by (auto simp: owners_def alist_set_entries)

lemma ref_of_unique:
  assumes "ref_of w e t es" "ref_of w e t' es'"
  shows "t' = t \<and> es' = es"
proof -
  have "lookup ps k = TTable t \<Longrightarrow> lookup ps' k = TTable t' \<Longrightarrow> ps = ps' \<Longrightarrow> t' = t" for ps ps' :: "('a tvalue \<times> 'a tvalue) list" and k
    by simp
  moreover have "registry_is (w_L w) ps \<Longrightarrow> registry_is (w_L w) ps' \<Longrightarrow> ps = ps'" for ps ps'
    by (simp add: registry_is_def plain_table_def)
  ultimately show ?thesis
    using assms unfolding ref_of_def ref_table_def by (metis option.inject ltable.ext_inject)
qed

text \<open>A reference table has a metatable, so changing it changes no plain table.\<close>

definition heap_change :: "'d lua_State \<Rightarrow> 'd lua_State \<Rightarrow> nat \<Rightarrow> ('d tvalue \<times> 'd tvalue) list \<Rightarrow> bool" where
  "heap_change L L' t es' \<longleftrightarrow> G_registry L' = G_registry L
     \<and> (\<forall>a. a \<noteq> t \<longrightarrow> G_heap L a \<noteq> None \<longrightarrow> G_heap L' a = G_heap L a)
     \<and> G_heap L' t = map_option (\<lambda>h. h\<lparr>t_node := es'\<rparr>) (G_heap L t)"

lemma plain_change:
  assumes "heap_change L L' t es'" "G_heap L t = Some \<lparr>t_node = es, t_metatable = Some wm\<rparr>" "plain_table L a ps"
  shows "plain_table L' a ps"
proof -
  have "a \<noteq> t" using assms(2,3) by (auto simp: plain_table_def)
  moreover have "G_heap L a \<noteq> None" using assms(3) by (simp add: plain_table_def)
  ultimately have "G_heap L' a = G_heap L a" using assms(1) unfolding heap_change_def by blast
  then show ?thesis using assms(3) by (simp add: plain_table_def)
qed

lemma ref_of_change:
  assumes "ref_of w e t es" "heap_change (w_L w) (w_L w') t es'" "same_envs (w_mdb w) (w_mdb w')"
  shows "ref_of w e0 t0 es0 \<Longrightarrow> ref_of w' e0 t0 (if t0 = t then es' else es0)"
proof -
  obtain wm where t: "G_heap (w_L w) t = Some \<lparr>t_node = es, t_metatable = Some wm\<rparr>"
    using assms(1) unfolding ref_of_def ref_table_def by blast
  assume r: "ref_of w e0 t0 es0"
  then obtain env uuid ps wm0 where env: "m_envs (w_mdb w) e0 = Some env" "me_userctx env = Some uuid"
      and rt: "0 \<notin> set uuid" "registry_is (w_L w) ps" "lookup ps (TString uuid) = TTable t0"
        "G_heap (w_L w) t0 = Some \<lparr>t_node = es0, t_metatable = Some wm0\<rparr>" "plain_table (w_L w) wm0 weak_mode"
    unfolding ref_of_def ref_table_def by blast
  have "map_option static (m_envs (w_mdb w') e0) = Some (static env)"
    using assms(3) env(1) by (simp add: same_envs_def)
  then obtain env' where env': "m_envs (w_mdb w') e0 = Some env'" "me_userctx env' = Some uuid"
    using env(2) by (auto simp: static_def)
  have "registry_is (w_L w') ps"
    using plain_change[OF assms(2) t] rt(2) assms(2) by (simp add: registry_is_def heap_change_def)
  moreover have "G_heap (w_L w') t0 = Some \<lparr>t_node = (if t0 = t then es' else es0), t_metatable = Some wm0\<rparr>"
    using assms(2) rt(4) by (auto simp: heap_change_def)
  ultimately show "ref_of w' e0 t0 (if t0 = t then es' else es0)"
    using env' rt(1,3) plain_change[OF assms(2) t rt(5)] unfolding ref_of_def ref_table_def by blast
qed

lemma ref_of_env: "ref_of w e t es \<Longrightarrow> m_envs (w_mdb w) e \<noteq> None"
  by (auto simp: ref_of_def)

text \<open>No other reference tables appear.\<close>

lemma ref_of_back:
  assumes "ref_of w e t es" "heap_change (w_L w) (w_L w') t es'" "same_envs (w_mdb w) (w_mdb w')"
    "ref_of w' e0 t0 es1" "ref_of w e0 t1 es0"
  shows "t0 = t1 \<and> es1 = (if t0 = t then es' else es0)"
  using ref_of_change[OF assms(1-3,5)] ref_of_unique[OF _ assms(4)] by blast

subsection \<open>The invariant\<close>

definition world_ok :: "'d world \<Rightarrow> bool" where
  "world_ok w \<longleftrightarrow>
     mdb_ok (w_mdb w) \<and> (\<exists>me mt. lua_ok w me mt) \<and> injective w
     \<and> (\<forall>u e. w_env w u = Some (Some e) \<longrightarrow>
          (\<exists>t es. ref_of w e t es \<and> distinct (map fst es) \<and> (\<forall>kv \<in> set es. entry_ok w e kv)))
     \<and> (\<forall>u u' e. w_env w u = Some (Some e) \<longrightarrow> w_env w u' = Some (Some e) \<longrightarrow> u = u')
     \<and> (\<forall>u u' e e' t es es'. w_env w u = Some (Some e) \<longrightarrow> w_env w u' = Some (Some e')
          \<longrightarrow> ref_of w e t es \<longrightarrow> ref_of w e' t es' \<longrightarrow> e = e')
     \<and> (\<forall>u tx p. w_tx w u = Some tx \<longrightarrow> tx_txn tx = Some p \<longrightarrow>
          (\<exists>o' e t es. w_env w o' = Some (Some e) \<and> live (w_mdb w) p e \<and> ref_of w e t es \<and> u \<in> owners es))"

lemma world_okI:
  assumes "mdb_ok (w_mdb w)" "lua_ok w me mt" "injective w"
    "\<And>u e. w_env w u = Some (Some e) \<Longrightarrow> \<exists>t es. ref_of w e t es \<and> distinct (map fst es) \<and> (\<forall>kv \<in> set es. entry_ok w e kv)"
    "\<And>u u' e. w_env w u = Some (Some e) \<Longrightarrow> w_env w u' = Some (Some e) \<Longrightarrow> u = u'"
    "\<And>u u' e e' t es es'. w_env w u = Some (Some e) \<Longrightarrow> w_env w u' = Some (Some e') \<Longrightarrow> ref_of w e t es \<Longrightarrow> ref_of w e' t es' \<Longrightarrow> e = e'"
    "\<And>u tx p. w_tx w u = Some tx \<Longrightarrow> tx_txn tx = Some p \<Longrightarrow>
       \<exists>o' e t es. w_env w o' = Some (Some e) \<and> live (w_mdb w) p e \<and> ref_of w e t es \<and> u \<in> owners es"
  shows "world_ok w"
  unfolding world_ok_def using assms by blast

lemma world_ok_lua: "world_ok w \<Longrightarrow> \<exists>me mt. lua_ok w me mt"
  and world_ok_mdb: "world_ok w \<Longrightarrow> mdb_ok (w_mdb w)"
  and world_ok_inj: "world_ok w \<Longrightarrow> injective w"
  and world_ok_env: "world_ok w \<Longrightarrow> w_env w u = Some (Some e) \<Longrightarrow>
        \<exists>t es. ref_of w e t es \<and> distinct (map fst es) \<and> (\<forall>kv \<in> set es. entry_ok w e kv)"
  and world_ok_tx: "world_ok w \<Longrightarrow> w_tx w u = Some tx \<Longrightarrow> tx_txn tx = Some p \<Longrightarrow>
        \<exists>o' e t es. w_env w o' = Some (Some e) \<and> live (w_mdb w) p e \<and> ref_of w e t es \<and> u \<in> owners es"
  unfolding world_ok_def by blast+

lemma world_ok_owner: "world_ok w \<Longrightarrow> w_env w u = Some (Some e) \<Longrightarrow> w_env w u' = Some (Some e) \<Longrightarrow> u = u'"
  and world_ok_tables: "world_ok w \<Longrightarrow> w_env w u = Some (Some e) \<Longrightarrow> w_env w u' = Some (Some e')
        \<Longrightarrow> ref_of w e t es \<Longrightarrow> ref_of w e' t es' \<Longrightarrow> e = e'"
  unfolding world_ok_def by blast+

subsection \<open>Ending a transaction\<close>

lemma lua_ok_change:
  assumes "lua_ok w me mt" "heap_change (w_L w) (w_L w') t es'" "G_heap (w_L w) t = Some \<lparr>t_node = es, t_metatable = Some wm\<rparr>"
    "\<forall>u. w_env w' u \<noteq> None \<longrightarrow> w_env w u \<noteq> None" "\<forall>u. w_tx w' u \<noteq> None \<longrightarrow> w_tx w u \<noteq> None"
    "G_udmt (w_L w') = G_udmt (w_L w)" "G_next (w_L w') = G_next (w_L w)"
    "\<forall>a. G_next (w_L w) \<le> a \<longrightarrow> G_heap (w_L w) a = None \<longrightarrow> G_heap (w_L w') a = None"
  shows "lua_ok w' me mt"
proof -
  obtain ps htx where lib: "registry_is (w_L w) ps" "lookup ps (TString LMDB_ENV_REGISTRY_NAME) = TTable me"
      "lookup ps (TString LMDB_TX_REGISTRY_NAME) = TTable mt" "plain_table (w_L w) mt htx"
      "lookup htx (TString (str ''__index'')) = TTable mt" "\<forall>u. lookup htx (TUserdata u) = TNil"
    using assms(1) unfolding lua_ok_def by blast
  have "registry_is (w_L w') ps"
    using plain_change[OF assms(2,3)] lib(1) assms(2) by (simp add: registry_is_def heap_change_def)
  moreover have "plain_table (w_L w') mt htx" using plain_change[OF assms(2,3) lib(4)] .
  ultimately have "\<exists>ps htx. registry_is (w_L w') ps \<and> lookup ps (TString LMDB_ENV_REGISTRY_NAME) = TTable me
      \<and> lookup ps (TString LMDB_TX_REGISTRY_NAME) = TTable mt \<and> plain_table (w_L w') mt htx
      \<and> lookup htx (TString (str ''__index'')) = TTable mt \<and> (\<forall>u. lookup htx (TUserdata u) = TNil)"
    using lib(2,3,5,6) by blast
  then show ?thesis
    using assms(1,4-8) unfolding lua_ok_def by metis
qed

lemma live_env: "live m p e \<Longrightarrow> live m p e' \<Longrightarrow> e' = e"
  by (auto simp: live_def)

lemma release_ok:
  assumes ok: "world_ok w" and tx: "w_tx w u = Some tx" "tx_txn tx = Some p"
    and own: "w_env w o' = Some (Some e)" "live (w_mdb w) p e" and ref: "ref_of w e t es" "u \<in> owners es"
    and m: "keeps (w_mdb w) p m"
  shows "world_ok (set_tx (w\<lparr>w_L := released w t es u, w_mdb := m\<rparr>) u (tx\<lparr>tx_txn := None\<rparr>))"
proof -
  let ?es = "alist_set (TUserdata u) TNil es"
  let ?w = "set_tx (w\<lparr>w_L := released w t es u, w_mdb := m\<rparr>) u (tx\<lparr>tx_txn := None\<rparr>)"
  obtain me mt where lua: "lua_ok w me mt" using world_ok_lua[OF ok] by blast
  obtain wm where t: "G_heap (w_L w) t = Some \<lparr>t_node = es, t_metatable = Some wm\<rparr>"
    using ref(1) unfolding ref_of_def ref_table_def by blast
  have L: "w_L ?w = released w t es u" "w_env ?w = w_env w" "w_mdb ?w = m"
      "w_tx ?w = (w_tx w)(u \<mapsto> tx\<lparr>tx_txn := None\<rparr>)" by (simp_all add: set_tx_def)
  have hc: "heap_change (w_L w) (w_L ?w) t ?es"
    unfolding L by (simp add: heap_change_def released_def set_ref_def)
  have se: "same_envs (w_mdb w) (w_mdb ?w)" and mo: "mdb_ok m" using m unfolding L keeps_def by blast+
  have alive: "live m q e'" if "q \<noteq> p" "live (w_mdb w) q e'" for q e' using m that unfolding keeps_def by blast
  have other: "tx_txn tx' \<noteq> Some p" if "u' \<noteq> u" "w_tx w u' = Some tx'" for u' tx'
    using world_ok_inj[OF ok] tx that unfolding injective_def by blast
  have ref_fwd: "ref_of w e0 t0 es0 \<Longrightarrow> ref_of ?w e0 t0 (if t0 = t then ?es else es0)" for e0 t0 es0
    by (rule ref_of_change[OF ref(1) hc se])
  have dis: "distinct (map fst es)" and ents: "\<forall>kv \<in> set es. entry_ok w e kv"
    using world_ok_env[OF ok own(1)] ref_of_unique[OF ref(1)] by blast+
  have plain: "plain_table (w_L w) a ps \<Longrightarrow> plain_table (w_L ?w) a ps" for a ps
    by (rule plain_change[OF hc t])
  have entry: "entry_ok ?w e0 kv" if en: "entry_ok w e0 kv" and nil: "fst kv = TUserdata u \<longrightarrow> snd kv = TNil" for e0 kv
  proof -
    obtain u' tx' where e1: "fst kv = TUserdata u'" "w_tx w u' = Some tx'"
        "snd kv = TNil \<or> (\<exists>c p. snd kv = TTable c \<and> plain_table (w_L w) c [] \<and> tx_txn tx' = Some p \<and> live (w_mdb w) p e0)"
      using en unfolding entry_ok_def by blast
    show ?thesis
    proof (cases "u' = u")
      case True
      then have "snd kv = TNil" using e1(1) nil by blast
      then show ?thesis using e1(1) True unfolding entry_ok_def L(4) by simp
    next
      case ne: False
      have "live m p' e0" if "tx_txn tx' = Some p'" "live (w_mdb w) p' e0" for p'
        using alive[OF _ that(2)] other[OF ne e1(2)] that(1) by blast
      then have "snd kv = TNil \<or> (\<exists>c p. snd kv = TTable c \<and> plain_table (w_L ?w) c [] \<and> tx_txn tx' = Some p \<and> live (w_mdb ?w) p e0)"
        using e1(3) plain unfolding L(3) by blast
      then show ?thesis using e1(1,2) ne unfolding entry_ok_def L(4) by auto
    qed
  qed
  show ?thesis
  proof (rule world_okI)
    show "mdb_ok (w_mdb ?w)" using mo L(3) by simp
    show "lua_ok ?w me mt"
      using tx(1) by (rule_tac lua_ok_change[OF lua hc t]) (auto simp: set_tx_def released_def set_ref_def t split: if_splits)
    show "injective ?w"
      using world_ok_inj[OF ok] unfolding injective_def L(4) by (auto split: if_splits)
  next
    fix u' e0 assume e0: "w_env ?w u' = Some (Some e0)"
    then obtain t0 es0 where r0: "ref_of w e0 t0 es0" "distinct (map fst es0)" "\<forall>kv \<in> set es0. entry_ok w e0 kv"
      using world_ok_env[OF ok] unfolding L(2) by blast
    show "\<exists>t es. ref_of ?w e0 t es \<and> distinct (map fst es) \<and> (\<forall>kv \<in> set es. entry_ok ?w e0 kv)"
    proof (cases "t0 = t")
      case True
      then have e: "e0 = e"
        using world_ok_tables[OF ok _ own(1) r0(1)] ref(1) e0 unfolding L(2) by blast
      have "entry_ok ?w e kv" if kv: "kv \<in> set ?es" for kv
      proof -
        consider "kv = (TUserdata u, TNil)" | "kv \<in> set es" "fst kv \<noteq> TUserdata u"
          using kv unfolding alist_set_entries[OF dis] by blast
        then show ?thesis
        proof cases
          case 1
          then show ?thesis unfolding entry_ok_def L(4) by simp
        next
          case 2
          then show ?thesis using entry ents by blast
        qed
      qed
      moreover have "ref_of ?w e t ?es" using ref_fwd[OF ref(1)] by simp
      ultimately show ?thesis
        using alist_set_distinct[OF dis, of "TUserdata u" TNil] unfolding e by blast
    next
      case False
      have "entry_ok ?w e0 kv" if "kv \<in> set es0" for kv
      proof (rule entry)
        show e1: "entry_ok w e0 kv" using r0(3) that by blast
        show "fst kv = TUserdata u \<longrightarrow> snd kv = TNil"
        proof
          assume "fst kv = TUserdata u"
          then have "snd kv = TNil \<or> live (w_mdb w) p e0" using e1 tx unfolding entry_ok_def by auto
          moreover have "\<not> live (w_mdb w) p e0"
            using live_env[OF own(2)] ref_of_unique[OF ref(1)] r0(1) False by blast
          ultimately show "snd kv = TNil" by blast
        qed
      qed
      moreover have "ref_of ?w e0 t0 es0" using ref_fwd[OF r0(1)] False by simp
      ultimately show ?thesis using r0(2) by blast
    qed
  next
    fix u' u'' e0 assume "w_env ?w u' = Some (Some e0)" "w_env ?w u'' = Some (Some e0)"
    then show "u' = u''" unfolding L(2) by (rule world_ok_owner[OF ok])
  next
    fix u1 u2 e1 e2 t0 es1 es2
    assume a: "w_env ?w u1 = Some (Some e1)" "w_env ?w u2 = Some (Some e2)" "ref_of ?w e1 t0 es1" "ref_of ?w e2 t0 es2"
    obtain t1 es1' where r1: "ref_of w e1 t1 es1'" using world_ok_env[OF ok] a(1) unfolding L(2) by blast
    obtain t2 es2' where r2: "ref_of w e2 t2 es2'" using world_ok_env[OF ok] a(2) unfolding L(2) by blast
    have "t0 = t1" "t0 = t2"
      using ref_of_back[OF ref(1) hc se a(3) r1] ref_of_back[OF ref(1) hc se a(4) r2] by blast+
    then show "e1 = e2" using world_ok_tables[OF ok] a(1,2) r1 r2 unfolding L(2) by blast
  next
    fix u' tx' p' assume a: "w_tx ?w u' = Some tx'" "tx_txn tx' = Some p'"
    then have ne: "u' \<noteq> u" and a': "w_tx w u' = Some tx'" unfolding L(4) by (auto split: if_splits)
    obtain o1 e1 t1 es1 where r: "w_env w o1 = Some (Some e1)" "live (w_mdb w) p' e1" "ref_of w e1 t1 es1" "u' \<in> owners es1"
      using world_ok_tx[OF ok a' a(2)] by blast
    have "live m p' e1" using alive[OF _ r(2)] other[OF ne a'] a(2) by blast
    moreover have "u' \<in> owners (if t1 = t then ?es else es1)"
    proof (cases "t1 = t")
      case True
      have "e1 = e" using world_ok_tables[OF ok r(1) own(1) r(3)] ref(1) unfolding True by blast
      then have "es1 = es" using ref_of_unique[OF ref(1)] r(3) by blast
      then show ?thesis using r(4) ne True owners_set(1)[OF dis] by simp
    qed (simp add: r(4))
    ultimately show "\<exists>o' e t es. w_env ?w o' = Some (Some e) \<and> live (w_mdb ?w) p' e \<and> ref_of ?w e t es \<and> u' \<in> owners es"
      using ref_fwd[OF r(3)] r(1) unfolding L(2,3) by blast
  qed
qed

subsection \<open>Beginning a transaction\<close>

lemma begin_ok:
  assumes ok: "world_ok w" and lua: "lua_ok w me mt" and own: "w_env w o' = Some (Some e)" and ref: "ref_of w e t es"
    and m: "keeps (w_mdb w) p m" "live m p e" "\<forall>e'. \<not> live (w_mdb w) p e'"
  shows "world_ok (w\<lparr>w_L := begun w t es mt args, w_mdb := m, w_tx := (w_tx w)(G_next (w_L w) \<mapsto> \<lparr>tx_txn = Some p, tx_dbi = 1\<rparr>)\<rparr>)"
proof -
  let ?v = "G_next (w_L w)"
  let ?es = "alist_set (TUserdata ?v) (TTable (?v + 1)) es"
  let ?w = "w\<lparr>w_L := begun w t es mt args, w_mdb := m, w_tx := (w_tx w)(?v \<mapsto> \<lparr>tx_txn = Some p, tx_dbi = 1\<rparr>)\<rparr>"
  obtain wm where t: "G_heap (w_L w) t = Some \<lparr>t_node = es, t_metatable = Some wm\<rparr>"
    using ref(1) unfolding ref_of_def ref_table_def by blast
  have fresh: "G_heap (w_L w) a = None" if "?v \<le> a" for a using lua that unfolding lua_ok_def by blast
  have tn: "t < ?v" using fresh[of t] t by (cases "t < ?v") auto
  have H: "G_heap (w_L ?w) = (G_heap (w_L w))(t \<mapsto> \<lparr>t_node = ?es, t_metatable = Some wm\<rparr>, ?v + 1 \<mapsto> \<lparr>t_node = [], t_metatable = None\<rparr>)"
    using t tn by (auto simp: begun_def added_def set_ref_def Let_def fun_eq_iff)
  have N: "G_next (w_L ?w) = ?v + 2" "G_udmt (w_L ?w) = (G_udmt (w_L w))(?v \<mapsto> mt)" "G_registry (w_L ?w) = G_registry (w_L w)"
    by (simp_all add: begun_def added_def set_ref_def Let_def)
  have hc: "heap_change (w_L w) (w_L ?w) t ?es"
    unfolding heap_change_def H N using t tn fresh by auto
  have se: "same_envs (w_mdb w) (w_mdb ?w)" and mo: "mdb_ok m" using m(1) unfolding keeps_def by simp_all
  have notx: "w_tx w u \<noteq> None \<Longrightarrow> u \<noteq> ?v" for u using lua unfolding lua_ok_def by blast
  have nop: "tx_txn tx \<noteq> Some p" if "w_tx w u = Some tx" for u tx
    using world_ok_tx[OF ok that] m(3) by blast
  have alive: "live m q e'" if "live (w_mdb w) q e'" for q e'
    using m(1,3) that unfolding keeps_def by (cases "q = p") auto
  have ref_fwd: "ref_of w e0 t0 es0 \<Longrightarrow> ref_of ?w e0 t0 (if t0 = t then ?es else es0)" for e0 t0 es0
    by (rule ref_of_change[OF ref(1) hc se])
  have dis: "distinct (map fst es)" and ents: "\<forall>kv \<in> set es. entry_ok w e kv"
    using world_ok_env[OF ok own] ref_of_unique[OF ref(1)] by blast+
  have plain: "plain_table (w_L w) a ps \<Longrightarrow> plain_table (w_L ?w) a ps" for a ps
    by (rule plain_change[OF hc t])
  have entry: "entry_ok ?w e0 kv" if en: "entry_ok w e0 kv" for e0 kv
  proof -
    obtain u' tx' where e1: "fst kv = TUserdata u'" "w_tx w u' = Some tx'"
        "snd kv = TNil \<or> (\<exists>c p. snd kv = TTable c \<and> plain_table (w_L w) c [] \<and> tx_txn tx' = Some p \<and> live (w_mdb w) p e0)"
      using en unfolding entry_ok_def by blast
    have "w_tx ?w u' = Some tx'" using e1(2) notx[of u'] by simp
    moreover have "snd kv = TNil \<or> (\<exists>c p. snd kv = TTable c \<and> plain_table (w_L ?w) c [] \<and> tx_txn tx' = Some p \<and> live (w_mdb ?w) p e0)"
    proof -
      have "live (w_mdb w) q e' \<Longrightarrow> live (w_mdb ?w) q e'" for q e' using alive by simp
      then show ?thesis using e1(3) plain by blast
    qed
    ultimately show ?thesis using e1(1) unfolding entry_ok_def by blast
  qed
  have new: "entry_ok ?w e (TUserdata ?v, TTable (?v + 1))"
    unfolding entry_ok_def plain_table_def H using m(2) by simp
  show ?thesis
  proof (rule world_okI)
    show "mdb_ok (w_mdb ?w)" using mo by simp
    obtain ps htx where lib: "registry_is (w_L w) ps" "lookup ps (TString LMDB_ENV_REGISTRY_NAME) = TTable me"
        "lookup ps (TString LMDB_TX_REGISTRY_NAME) = TTable mt" "plain_table (w_L w) mt htx"
        "lookup htx (TString (str ''__index'')) = TTable mt" "\<forall>u. lookup htx (TUserdata u) = TNil"
      using lua unfolding lua_ok_def by blast
    have "registry_is (w_L ?w) ps" using plain lib(1) unfolding registry_is_def N(3) by blast
    moreover have "plain_table (w_L ?w) mt htx" by (rule plain[OF lib(4)])
    ultimately have "\<exists>ps htx. registry_is (w_L ?w) ps \<and> lookup ps (TString LMDB_ENV_REGISTRY_NAME) = TTable me
        \<and> lookup ps (TString LMDB_TX_REGISTRY_NAME) = TTable mt \<and> plain_table (w_L ?w) mt htx
        \<and> lookup htx (TString (str ''__index'')) = TTable mt \<and> (\<forall>u. lookup htx (TUserdata u) = TNil)"
      using lib(2,3,5,6) by blast
    moreover have "G_udmt (w_L ?w) u = Some me \<and> u < G_next (w_L ?w)" if "w_env ?w u \<noteq> None" for u
    proof -
      have "G_udmt (w_L w) u = Some me \<and> u < ?v" using that lua unfolding lua_ok_def by simp
      then show ?thesis unfolding N by simp
    qed
    moreover have "G_udmt (w_L ?w) u = Some mt \<and> u < G_next (w_L ?w)" if "w_tx ?w u \<noteq> None" for u
    proof (cases "u = ?v")
      case False
      then have "w_tx w u \<noteq> None" using that by simp
      then have "G_udmt (w_L w) u = Some mt \<and> u < ?v" using lua unfolding lua_ok_def by blast
      then show ?thesis unfolding N by simp
    qed (use N in simp)
    moreover have "G_heap (w_L ?w) a = None" if "G_next (w_L ?w) \<le> a" for a
      using that fresh[of a] tn unfolding H N by simp
    ultimately show "lua_ok ?w me mt" unfolding lua_ok_def by blast
  next
    show "injective ?w"
      using world_ok_inj[OF ok] nop unfolding injective_def by (auto split: if_splits)
  next
    fix u' e0 assume "w_env ?w u' = Some (Some e0)"
    then have e0: "w_env w u' = Some (Some e0)" by simp
    then obtain t0 es0 where r0: "ref_of w e0 t0 es0" "distinct (map fst es0)" "\<forall>kv \<in> set es0. entry_ok w e0 kv"
      using world_ok_env[OF ok] by blast
    show "\<exists>t es. ref_of ?w e0 t es \<and> distinct (map fst es) \<and> (\<forall>kv \<in> set es. entry_ok ?w e0 kv)"
    proof (cases "t0 = t")
      case True
      then have e: "e0 = e"
        using world_ok_tables[OF ok e0 own r0(1)] ref(1) by blast
      have "entry_ok ?w e kv" if "kv \<in> set ?es" for kv
        using that new entry ents unfolding alist_set_entries[OF dis] by blast
      moreover have "ref_of ?w e t ?es" using ref_fwd[OF ref(1)] by simp
      ultimately show ?thesis
        using alist_set_distinct[OF dis] unfolding e by blast
    next
      case False
      have "ref_of ?w e0 t0 es0" using ref_fwd[OF r0(1)] False by simp
      then show ?thesis using r0(2,3) entry by blast
    qed
  next
    fix u' u'' e0 assume "w_env ?w u' = Some (Some e0)" "w_env ?w u'' = Some (Some e0)"
    then show "u' = u''" using world_ok_owner[OF ok] by simp
  next
    fix u1 u2 e1 e2 t0 es1 es2
    assume "w_env ?w u1 = Some (Some e1)" "w_env ?w u2 = Some (Some e2)" and a: "ref_of ?w e1 t0 es1" "ref_of ?w e2 t0 es2"
    then have e: "w_env w u1 = Some (Some e1)" "w_env w u2 = Some (Some e2)" by simp_all
    obtain t1 es1' where r1: "ref_of w e1 t1 es1'" using world_ok_env[OF ok e(1)] by blast
    obtain t2 es2' where r2: "ref_of w e2 t2 es2'" using world_ok_env[OF ok e(2)] by blast
    have "t0 = t1" "t0 = t2"
      using ref_of_back[OF ref(1) hc se a(1) r1] ref_of_back[OF ref(1) hc se a(2) r2] by blast+
    then show "e1 = e2" using world_ok_tables[OF ok e] r1 r2 by blast
  next
    fix u' tx' p' assume a: "w_tx ?w u' = Some tx'" "tx_txn tx' = Some p'"
    show "\<exists>o' e t es. w_env ?w o' = Some (Some e) \<and> live (w_mdb ?w) p' e \<and> ref_of ?w e t es \<and> u' \<in> owners es"
    proof (cases "u' = ?v")
      case True
      have "ref_of ?w e t ?es" using ref_fwd[OF ref(1)] by simp
      moreover have "u' \<in> owners ?es" using True owners_set(2)[OF dis] by simp
      moreover have "p' = p" using a True by auto
      moreover have "w_env ?w o' = Some (Some e)" "live (w_mdb ?w) p e" using own m(2) by simp_all
      ultimately show ?thesis by blast
    next
      case False
      then have a': "w_tx w u' = Some tx'" using a(1) by simp
      obtain o1 e1 t1 es1 where r: "w_env w o1 = Some (Some e1)" "live (w_mdb w) p' e1" "ref_of w e1 t1 es1" "u' \<in> owners es1"
        using world_ok_tx[OF ok a' a(2)] by blast
      have "u' \<in> owners (if t1 = t then ?es else es1)"
      proof (cases "t1 = t")
        case True
        have "e1 = e" using world_ok_tables[OF ok r(1) own r(3)] ref(1) unfolding True by blast
        then have "es1 = es" using ref_of_unique[OF ref(1)] r(3) by blast
        then show ?thesis using r(4) True owners_set(2)[OF dis] by simp
      qed (simp add: r(4))
      moreover have "w_env ?w o1 = Some (Some e1)" "live (w_mdb ?w) p' e1" using r(1) alive[OF r(2)] by simp_all
      ultimately show ?thesis using ref_fwd[OF r(3)] by blast
    qed
  qed
qed

subsection \<open>Closing an environment\<close>

lemma env_close_ok:
  assumes ok: "world_ok w" and own: "w_env w o' = Some (Some e)" and ref: "ref_of w e t es"
    and m: "mdb_ok m" "\<forall>e'. map_option static (m_envs m e') = (if e' = e then None else map_option static (m_envs (w_mdb w) e'))"
      "\<forall>q e'. e' \<noteq> e \<longrightarrow> live (w_mdb w) q e' \<longrightarrow> q \<notin> pointers w (owners es) \<longrightarrow> live m q e'"
  shows "world_ok (w\<lparr>w_L := (w_L w)\<lparr>L_stack := s\<rparr>, w_tx := cleared (w_tx w) (owners es), w_mdb := m, w_env := (w_env w)(o' \<mapsto> None)\<rparr>)"
proof -
  let ?w = "w\<lparr>w_L := (w_L w)\<lparr>L_stack := s\<rparr>, w_tx := cleared (w_tx w) (owners es), w_mdb := m, w_env := (w_env w)(o' \<mapsto> None)\<rparr>"
  obtain me mt where lua: "lua_ok w me mt" using world_ok_lua[OF ok] by blast
  have rt: "ref_table (w_L ?w) = ref_table (w_L w)" by (simp add: fun_eq_iff)
  have ref_fwd: "ref_of ?w e0 t0 es0" if r: "ref_of w e0 t0 es0" "e0 \<noteq> e" for e0 t0 es0
  proof -
    obtain env uuid where env: "m_envs (w_mdb w) e0 = Some env" "me_userctx env = Some uuid" "ref_table (w_L w) uuid t0 es0"
      using r(1) unfolding ref_of_def by blast
    have "map_option static (m_envs m e0) = Some (static env)" using m(2) r(2) env(1) by simp
    then obtain env' where "m_envs m e0 = Some env'" "me_userctx env' = Some uuid"
      using env(2) by (auto simp: static_def)
    then show ?thesis using env(3) unfolding ref_of_def rt by auto
  qed
  have ref_back: "ref_of w e0 t0 es0 \<and> e0 \<noteq> e" if r: "ref_of ?w e0 t0 es0" for e0 t0 es0
  proof -
    obtain env uuid where env: "m_envs m e0 = Some env" "me_userctx env = Some uuid" "ref_table (w_L w) uuid t0 es0"
      using r unfolding ref_of_def rt by auto
    have ne: "e0 \<noteq> e" using m(2)[rule_format, of e0] env(1) by auto
    then have "map_option static (m_envs (w_mdb w) e0) = Some (static env)" using m(2) env(1) by (metis option.simps(9))
    then obtain env' where "m_envs (w_mdb w) e0 = Some env'" "me_userctx env' = Some uuid"
      using env(2) by (auto simp: static_def)
    then show ?thesis using env(3) ne unfolding ref_of_def by blast
  qed
  have envs: "w_env ?w u = Some (Some e0) \<Longrightarrow> w_env w u = Some (Some e0) \<and> e0 \<noteq> e" for u e0
    using world_ok_owner[OF ok own] by (auto split: if_splits)
  text \<open>A transaction of another environment is not cleared and stays alive.\<close>
  have other: "u \<notin> owners es \<and> live m p e0"
    if tx: "w_tx w u = Some tx" "tx_txn tx = Some p" and l: "live (w_mdb w) p e0" "e0 \<noteq> e" for u tx p e0
  proof -
    have ents: "\<forall>kv \<in> set es. entry_ok w e kv"
      using world_ok_env[OF ok own] ref_of_unique[OF ref(1)] by blast
    have no: "\<not> (\<exists>u' tx'. u' \<in> owners es \<and> w_tx w u' = Some tx' \<and> tx_txn tx' = Some p)"
    proof
      assume "\<exists>u' tx'. u' \<in> owners es \<and> w_tx w u' = Some tx' \<and> tx_txn tx' = Some p"
      then obtain u' tx' c where u': "(TUserdata u', TTable c) \<in> set es" "w_tx w u' = Some tx'" "tx_txn tx' = Some p"
        unfolding owners_def by blast
      then have "live (w_mdb w) p e" using ents unfolding entry_ok_def by fastforce
      then show False using live_env l by blast
    qed
    then have "u \<notin> owners es" using tx by blast
    moreover have "p \<notin> pointers w (owners es)" using no unfolding pointers_def by blast
    ultimately show ?thesis using m(3) l by blast
  qed
  have entry: "entry_ok ?w e0 kv" if en: "entry_ok w e0 kv" "e0 \<noteq> e" for e0 kv
  proof -
    obtain u' tx' where e1: "fst kv = TUserdata u'" "w_tx w u' = Some tx'"
        "snd kv = TNil \<or> (\<exists>c p. snd kv = TTable c \<and> plain_table (w_L w) c [] \<and> tx_txn tx' = Some p \<and> live (w_mdb w) p e0)"
      using en(1) unfolding entry_ok_def by blast
    show ?thesis
    proof (cases "snd kv = TNil")
      case True
      have "w_tx ?w u' \<noteq> None" using e1(2) by (simp add: cleared_def)
      then show ?thesis using e1(1) True unfolding entry_ok_def by blast
    next
      case False
      then obtain c p where c: "snd kv = TTable c" "plain_table (w_L w) c []" "tx_txn tx' = Some p" "live (w_mdb w) p e0"
        using e1(3) by blast
      have "u' \<notin> owners es" "live m p e0" using other[OF e1(2) c(3,4) en(2)] by blast+
      then have "w_tx ?w u' = Some tx'" "live (w_mdb ?w) p e0" "plain_table (w_L ?w) c []"
        using e1(2) c(2) by (simp_all add: cleared_def)
      then show ?thesis using e1(1) c(1,3) unfolding entry_ok_def by blast
    qed
  qed
  show ?thesis
  proof (rule world_okI)
    show "mdb_ok (w_mdb ?w)" using m(1) by simp
    show "lua_ok ?w me mt"
      using lua own unfolding lua_ok_def registry_is_def by (auto simp: cleared_def split: if_splits)
    show "injective ?w"
      using world_ok_inj[OF ok] unfolding injective_def by (auto simp: cleared_def split: if_splits)
  next
    fix u e0 assume "w_env ?w u = Some (Some e0)"
    then have e0: "w_env w u = Some (Some e0)" "e0 \<noteq> e" using envs by blast+
    obtain t0 es0 where "ref_of w e0 t0 es0" "distinct (map fst es0)" "\<forall>kv \<in> set es0. entry_ok w e0 kv"
      using world_ok_env[OF ok e0(1)] by blast
    then show "\<exists>t es. ref_of ?w e0 t es \<and> distinct (map fst es) \<and> (\<forall>kv \<in> set es. entry_ok ?w e0 kv)"
      using ref_fwd entry e0(2) by blast
  next
    fix u u' e0 assume "w_env ?w u = Some (Some e0)" "w_env ?w u' = Some (Some e0)"
    then show "u = u'" using envs world_ok_owner[OF ok] by blast
  next
    fix u u' e1 e2 t0 es1 es2
    assume "w_env ?w u = Some (Some e1)" "w_env ?w u' = Some (Some e2)" "ref_of ?w e1 t0 es1" "ref_of ?w e2 t0 es2"
    then show "e1 = e2" using envs ref_back world_ok_tables[OF ok] by blast
  next
    fix u tx p assume a: "w_tx ?w u = Some tx" "tx_txn tx = Some p"
    have nu: "u \<notin> owners es"
    proof
      assume "u \<in> owners es"
      then have "w_tx ?w u = map_option (\<lambda>tx. tx\<lparr>tx_txn := None\<rparr>) (w_tx w u)" by (simp add: cleared_def)
      then show False using a by auto
    qed
    then have a': "w_tx w u = Some tx" using a(1) by (simp add: cleared_def)
    obtain o1 e1 t1 es1 where r: "w_env w o1 = Some (Some e1)" "live (w_mdb w) p e1" "ref_of w e1 t1 es1" "u \<in> owners es1"
      using world_ok_tx[OF ok a' a(2)] by blast
    have ne: "e1 \<noteq> e"
    proof
      assume "e1 = e"
      then have "es1 = es" using ref_of_unique[OF ref(1)] r(3) by blast
      then show False using r(4) nu by blast
    qed
    have "o1 \<noteq> o'" using r(1) own ne by auto
    then have "w_env ?w o1 = Some (Some e1)" using r(1) by simp
    moreover have "live (w_mdb ?w) p e1" using other[OF a' a(2) r(2) ne] by simp
    ultimately show "\<exists>o' e t es. w_env ?w o' = Some (Some e) \<and> live (w_mdb ?w) p e \<and> ref_of ?w e t es \<and> u \<in> owners es"
      using ref_fwd[OF r(3) ne] r(4) by blast
  qed
qed

subsection \<open>Opening an environment\<close>

lemma lookup_set: "lookup (alist_set k v ps) k' = (if k' = k then v else lookup ps k')"
  by (simp add: lookup_def map_of_alist_set)

lemma open_ok:
  assumes ok: "world_ok w" and lua: "lua_ok w me mt" and reg: "registry_is (w_L w) ps"
    and u: "0 \<notin> set uuid" "lookup ps (TString uuid) = TNil"
  shows "world_ok (w\<lparr>w_L := (w_L w)\<lparr>L_stack := s, G_heap := opened_heap (w_L w) uuid ps, G_next := G_next (w_L w) + 3,
                    G_udmt := (G_udmt (w_L w))(G_next (w_L w) \<mapsto> me)\<rparr>,
                  w_env := (w_env w)(G_next (w_L w) \<mapsto> Some (m_next (w_mdb w))), w_mdb := opened_mdb (w_mdb w) path uuid\<rparr>)"
proof -
  let ?n = "G_next (w_L w)" and ?e = "m_next (w_mdb w)"
  let ?ps = "alist_set (TString uuid) (TTable (?n + 1)) ps"
  let ?w = "w\<lparr>w_L := (w_L w)\<lparr>L_stack := s, G_heap := opened_heap (w_L w) uuid ps, G_next := ?n + 3,
                    G_udmt := (G_udmt (w_L w))(?n \<mapsto> me)\<rparr>,
                  w_env := (w_env w)(?n \<mapsto> Some ?e), w_mdb := opened_mdb (w_mdb w) path uuid\<rparr>"
  have fresh: "G_heap (w_L w) a = None" if "?n \<le> a" for a using lua that unfolding lua_ok_def by blast
  have regH: "G_heap (w_L w) (G_registry (w_L w)) = Some \<lparr>t_node = ps, t_metatable = None\<rparr>"
    using reg by (simp add: registry_is_def plain_table_def)
  have rn: "G_registry (w_L w) < ?n" using fresh[of "G_registry (w_L w)"] regH by (cases "G_registry (w_L w) < ?n") auto
  have H: "G_heap (w_L ?w) a = (if a = G_registry (w_L w) then Some \<lparr>t_node = ?ps, t_metatable = None\<rparr>
      else if a = ?n + 1 then Some \<lparr>t_node = [], t_metatable = Some (?n + 2)\<rparr>
      else if a = ?n + 2 then Some \<lparr>t_node = weak_mode, t_metatable = None\<rparr> else G_heap (w_L w) a)" for a
    using rn by (auto simp: opened_heap_def Let_def)
  have reg': "registry_is (w_L ?w) ?ps" unfolding registry_is_def plain_table_def H by simp
  obtain ps0 htx where "registry_is (w_L w) ps0" "lookup ps0 (TString LMDB_ENV_REGISTRY_NAME) = TTable me"
      "lookup ps0 (TString LMDB_TX_REGISTRY_NAME) = TTable mt" and mt: "plain_table (w_L w) mt htx"
        "lookup htx (TString (str ''__index'')) = TTable mt" "\<forall>u. lookup htx (TUserdata u) = TNil"
    using lua unfolding lua_ok_def by blast
  then have lib: "lookup ps (TString LMDB_ENV_REGISTRY_NAME) = TTable me" "lookup ps (TString LMDB_TX_REGISTRY_NAME) = TTable mt"
    using reg by (auto simp: registry_is_def plain_table_def)
  have old: "G_heap (w_L ?w) a = Some h" if "G_heap (w_L w) a = Some h" "a \<noteq> G_registry (w_L w)" for a h
  proof -
    have "a < ?n" using fresh[of a] that(1) by (cases "a < ?n") auto
    then show ?thesis using that unfolding H by simp
  qed
  have plain: "plain_table (w_L ?w) a qs" if "plain_table (w_L w) a qs" "qs \<noteq> ps" for a qs
  proof -
    have "a \<noteq> G_registry (w_L w)" using that regH unfolding plain_table_def by auto
    then show ?thesis using old that(1) unfolding plain_table_def by blast
  qed
  have ne: "ps \<noteq> weak_mode" "ps \<noteq> []"
    using lib by (auto simp: lookup_def weak_mode_def str_def LMDB_ENV_REGISTRY_NAME_def)
  have mdb: "mdb_ok (opened_mdb (w_mdb w) path uuid)" "m_envs (w_mdb w) ?e = None"
      "\<And>q e. live (w_mdb w) q e \<Longrightarrow> live (w_mdb ?w) q e"
    using opened_mdb_ok[OF world_ok_mdb[OF ok]] by simp_all
  have envs: "m_envs (w_mdb ?w) e0 = (if e0 = ?e then Some (opened_env (w_mdb w) path uuid) else m_envs (w_mdb w) e0)" for e0
    by (simp add: opened_mdb_def)
  have ref_fwd: "ref_of ?w e0 t0 es0" if r: "ref_of w e0 t0 es0" for e0 t0 es0
  proof -
    obtain env uuid0 wm0 where env: "m_envs (w_mdb w) e0 = Some env" "me_userctx env = Some uuid0"
        and rt: "0 \<notin> set uuid0" "lookup ps (TString uuid0) = TTable t0"
          "G_heap (w_L w) t0 = Some \<lparr>t_node = es0, t_metatable = Some wm0\<rparr>" "plain_table (w_L w) wm0 weak_mode"
      using r reg unfolding ref_of_def ref_table_def by (auto simp: registry_is_def plain_table_def)
    have "e0 \<noteq> ?e" using env(1) mdb(2) by auto
    moreover have "lookup ?ps (TString uuid0) = TTable t0" using rt(2) u(2) by (auto simp: lookup_set)
    moreover have "G_heap (w_L ?w) t0 = Some \<lparr>t_node = es0, t_metatable = Some wm0\<rparr>"
      using rt(3) regH by (intro old) auto
    moreover have "plain_table (w_L ?w) wm0 weak_mode" using plain[OF rt(4)] ne(1) by blast
    ultimately show ?thesis
      using env rt(1) reg' envs[of e0] unfolding ref_of_def ref_table_def by (metis (no_types, lifting))
  qed
  have ref_new: "ref_of ?w ?e (?n + 1) []"
  proof -
    have "m_envs (w_mdb ?w) ?e = Some (opened_env (w_mdb w) path uuid)" by (simp only: envs if_True refl)
    moreover have "me_userctx (opened_env (w_mdb w) path uuid) = Some uuid" by (simp add: opened_env_def)
    moreover have "lookup ?ps (TString uuid) = TTable (?n + 1)" by (simp add: lookup_set)
    moreover have "G_heap (w_L ?w) (?n + 1) = Some \<lparr>t_node = [], t_metatable = Some (?n + 2)\<rparr>" using rn unfolding H by simp
    moreover have "plain_table (w_L ?w) (?n + 2) weak_mode" using rn unfolding plain_table_def H by simp
    ultimately show ?thesis using u(1) reg' unfolding ref_of_def ref_table_def by blast
  qed
  have wenv: "w_env ?w o1 = Some (Some e1) \<Longrightarrow> (o1 = ?n \<and> e1 = ?e) \<or> (w_env w o1 = Some (Some e1) \<and> e1 \<noteq> ?e)" for o1 e1
  proof -
    assume a: "w_env ?w o1 = Some (Some e1)"
    have "w_env w o1 = Some (Some e1) \<Longrightarrow> e1 \<noteq> ?e"
      using world_ok_env[OF ok, of o1 e1] ref_of_env[of w e1] mdb(2) by blast
    then show ?thesis using a by (auto split: if_splits)
  qed
  have wenv': "w_env ?w o1 = Some (Some e1)" if "w_env w o1 = Some (Some e1)" for o1 e1
  proof -
    have "o1 < ?n" using lua that unfolding lua_ok_def by (metis option.distinct(1))
    then show ?thesis using that by simp
  qed
  have entry: "entry_ok ?w e0 kv" if en: "entry_ok w e0 kv" for e0 kv
  proof -
    obtain u' tx' where e1: "fst kv = TUserdata u'" "w_tx w u' = Some tx'"
        "snd kv = TNil \<or> (\<exists>c p. snd kv = TTable c \<and> plain_table (w_L w) c [] \<and> tx_txn tx' = Some p \<and> live (w_mdb w) p e0)"
      using en unfolding entry_ok_def by blast
    have "w_tx ?w u' = Some tx'" using e1(2) by simp
    moreover have "snd kv = TNil \<or> (\<exists>c p. snd kv = TTable c \<and> plain_table (w_L ?w) c [] \<and> tx_txn tx' = Some p \<and> live (w_mdb ?w) p e0)"
      using e1(3) plain[of _ "[]"] ne(2) mdb(3) by blast
    ultimately show ?thesis using e1(1) unfolding entry_ok_def by blast
  qed
  show ?thesis
  proof (rule world_okI)
    show "mdb_ok (w_mdb ?w)" using mdb(1) by simp
    have "\<exists>htx. plain_table (w_L ?w) mt htx \<and> lookup htx (TString (str ''__index'')) = TTable mt \<and> (\<forall>u. lookup htx (TUserdata u) = TNil)"
    proof (cases "htx = ps")
      case True
      have "TString uuid \<noteq> TString (str ''__index'')" using mt(2) u(2) True by auto
      moreover have "plain_table (w_L ?w) mt ?ps \<or> plain_table (w_L ?w) mt ps"
        using old[of mt "\<lparr>t_node = ps, t_metatable = None\<rparr>"] mt(1) True reg' unfolding plain_table_def registry_is_def by auto
      ultimately show ?thesis using mt(2,3) True by (metis lookup_set tvalue.distinct)
    next
      case False
      then show ?thesis using plain[OF mt(1)] mt(2,3) by blast
    qed
    moreover have "lookup ?ps (TString LMDB_ENV_REGISTRY_NAME) = TTable me" "lookup ?ps (TString LMDB_TX_REGISTRY_NAME) = TTable mt"
      using lib u(2) by (auto simp: lookup_set)
    moreover have "G_udmt (w_L ?w) o1 = Some me \<and> o1 < G_next (w_L ?w)" if "w_env ?w o1 \<noteq> None" for o1
    proof (cases "o1 = ?n")
      case False
      then have "w_env w o1 \<noteq> None" using that by simp
      then have "G_udmt (w_L w) o1 = Some me \<and> o1 < ?n" using lua unfolding lua_ok_def by blast
      then show ?thesis using False by simp
    qed simp
    moreover have "G_udmt (w_L ?w) u = Some mt \<and> u < G_next (w_L ?w)" if "w_tx ?w u \<noteq> None" for u
    proof -
      have "w_tx w u \<noteq> None" using that by simp
      then have "G_udmt (w_L w) u = Some mt \<and> u < ?n" using lua unfolding lua_ok_def by blast
      then show ?thesis by simp
    qed
    moreover have "G_heap (w_L ?w) a = None" if "G_next (w_L ?w) \<le> a" for a
      using that fresh[of a] rn unfolding H by simp
    ultimately show "lua_ok ?w me mt" using reg' unfolding lua_ok_def by blast
  next
    show "injective ?w" using world_ok_inj[OF ok] by (simp add: injective_def)
  next
    fix u e0 assume "w_env ?w u = Some (Some e0)"
    then consider "e0 = ?e" | "w_env w u = Some (Some e0)" using wenv by blast
    then show "\<exists>t es. ref_of ?w e0 t es \<and> distinct (map fst es) \<and> (\<forall>kv \<in> set es. entry_ok ?w e0 kv)"
    proof cases
      case 1
      then show ?thesis using ref_new by (metis distinct.simps(1) list.map(1) empty_iff list.set(1))
    next
      case 2
      then show ?thesis using world_ok_env[OF ok 2] ref_fwd entry by blast
    qed
  next
    fix u u' e0 assume "w_env ?w u = Some (Some e0)" "w_env ?w u' = Some (Some e0)"
    then show "u = u'" using wenv world_ok_owner[OF ok] by blast
  next
    fix u1 u2 e1 e2 t0 es1 es2
    assume a: "w_env ?w u1 = Some (Some e1)" "w_env ?w u2 = Some (Some e2)" "ref_of ?w e1 t0 es1" "ref_of ?w e2 t0 es2"
    have old_ref: "t' \<noteq> ?n + 1 \<and> ref_of w e' t' es'" if en: "w_env w o1 = Some (Some e')" and rw: "ref_of ?w e' t' es'" for o1 e' t' es'
    proof -
      obtain t1 es1 where r: "ref_of w e' t1 es1" using world_ok_env[OF ok en] by blast
      then have "t' = t1 \<and> es' = es1" using ref_of_unique[OF ref_fwd[OF r] rw] by blast
      moreover have "G_heap (w_L w) t1 \<noteq> None" using r unfolding ref_of_def ref_table_def by blast
      ultimately show ?thesis using r fresh[of "?n + 1"] by auto
    qed
    show "e1 = e2"
      using wenv[OF a(1)] wenv[OF a(2)] old_ref[OF _ a(3)] old_ref[OF _ a(4)] ref_of_unique[OF ref_new] a(3,4)
        world_ok_tables[OF ok, of u1 e1 u2 e2 t0 es1 es2] by blast
  next
    fix u tx p assume a: "w_tx ?w u = Some tx" "tx_txn tx = Some p"
    then have "w_tx w u = Some tx" by simp
    then obtain o1 e1 t1 es1 where r: "w_env w o1 = Some (Some e1)" "live (w_mdb w) p e1" "ref_of w e1 t1 es1" "u \<in> owners es1"
      using world_ok_tx[OF ok _ a(2)] by blast
    then show "\<exists>o' e t es. w_env ?w o' = Some (Some e) \<and> live (w_mdb ?w) p e \<and> ref_of ?w e t es \<and> u \<in> owners es"
      using wenv'[OF r(1)] mdb(3)[OF r(2)] ref_fwd[OF r(3)] by blast
  qed
qed

end
