(* ===== verification/LmdbLib.thy ===== *)
theory LmdbLib
  imports LmdbEnvSafe
begin

text \<open>
  Registering the library: after \<open>LuaDB_LmdbAddLib\<close> the registry holds the three metatables, each
  with its own table as \<open>__index\<close>, and the methods.
\<close>

subsection \<open>Methods of a metatable\<close>

lemma lookup_functions:
  "k \<notin> TString ` fst ` set l \<Longrightarrow> lookup (put_functions l ps) k = lookup ps k"
  by (induction l arbitrary: ps) (auto simp: put_functions_def lookup_def map_of_alist_set)

subsection \<open>One metatable\<close>

definition metatable_node :: "bytes \<Rightarrow> nat \<Rightarrow> (bytes \<times> nat) list \<Rightarrow> ('d tvalue \<times> 'd tvalue) list" where
  "metatable_node name t methods =
     put_functions methods [(TString (str ''__name''), TString name), (TString (str ''__index''), TTable t)]"

lemma CreateMetatable_effect:
  assumes "registry_is L ps" "lookup ps (TString name) = TNil" "0 \<notin> set name" "G_registry L < G_next L"
  shows "CreateLmdbMetatable E L name methods
       = ret (L\<lparr>L_stack := TTable (G_next L) # L_stack L,
                G_heap := (G_heap L)(G_next L \<mapsto> \<lparr>t_node = metatable_node name (G_next L) methods, t_metatable = None\<rparr>,
                  G_registry L \<mapsto> \<lparr>t_node = alist_set (TString name) (TTable (G_next L)) ps, t_metatable = None\<rparr>),
                G_next := G_next L + 1\<rparr>)"
proof -
  let ?t = "G_next L" and ?r = "G_registry L"
  let ?L0 = "L\<lparr>L_stack := TTable ?t # L_stack L, G_heap := (G_heap L)(?t \<mapsto> \<lparr>t_node = [], t_metatable = None\<rparr>), G_next := ?t + 1\<rparr>"
  let ?L1 = "L\<lparr>L_stack := TTable ?t # L_stack L,
      G_heap := (G_heap L)(?t \<mapsto> \<lparr>t_node = [(TString (str ''__name''), TString name)], t_metatable = None\<rparr>), G_next := ?t + 1\<rparr>"
  let ?L2 = "?L1\<lparr>G_heap := (G_heap ?L1)(?r \<mapsto> \<lparr>t_node = alist_set (TString name) (TTable ?t) ps, t_metatable = None\<rparr>)\<rparr>"
  let ?L3 = "?L2\<lparr>G_heap := (G_heap ?L2)(?t \<mapsto> \<lparr>t_node = [(TString (str ''__name''), TString name), (TString (str ''__index''), TTable ?t)],
      t_metatable = None\<rparr>)\<rparr>"
  have reg: "plain_table L ?r ps" using assms(1) by (simp add: registry_is_def)
  have "luaL_getmetatable E L name = ret (LUA_TNIL, api_incr_top TNil L)"
    using luaL_getmetatable_registry[OF assms(1), of E name] assms(2) by simp
  moreover have "lua_pushstring (lua_createtable L) (Some (name @ [0])) = ret (api_incr_top (TString name) ?L0)"
    using assms(3) by (simp add: lua_simps lua_createtable_def)
  moreover have "lua_setfield E (api_incr_top (TString name) ?L0) (- 2) (str ''__name'') = ret ?L1"
    by (subst lua_setfield_plain[of _ ?t "[]" "TString name" "L_stack ?L0"])
      (simp_all add: lua_simps plain_table_def api_incr_top_def)
  moreover have "lua_setfield E (api_incr_top (TTable ?t) ?L1) LUA_REGISTRYINDEX name = ret ?L2"
    using reg assms(4) by (subst lua_setfield_plain[of _ ?r ps "TTable ?t" "L_stack ?L1"])
      (simp_all add: lua_simps plain_table_def api_incr_top_def)
  ultimately have new: "luaL_newmetatable E L name = ret (True, ?L2)"
    by (simp add: luaL_newmetatable_def lua_simps)
  have "lua_settable E (api_incr_top (TTable ?t) (api_incr_top (TString (str ''__index'')) ?L2)) (- 3) = ret ?L3"
    using assms(4) by (subst lua_settable_eval[of _ "TTable ?t" "TString (str ''__index'')" "L_stack ?L2" "- 3" ?t
        "\<lparr>t_node = [(TString (str ''__name''), TString name)], t_metatable = None\<rparr>"])
      (simp_all add: lua_simps api_incr_top_def str_def)
  moreover have "(0::byte) \<notin> set (str ''__index'')" by (simp add: str_def)
  moreover have "plain_table ?L3 ?t [(TString (str ''__name''), TString name), (TString (str ''__index''), TTable ?t)]"
    by (simp add: plain_table_def)
  ultimately show ?thesis
    using new luaL_setfuncs_plain[of ?L3 ?t _ "L_stack L" E methods] assms(4)
    by (simp add: CreateLmdbMetatable_def lua_simps metatable_node_def fun_upd_twist del: fun_upd_apply)
qed

subsection \<open>The library\<close>

text \<open>A Lua state in which the library was not registered yet.\<close>

definition fresh_lua :: "'d lua_State \<Rightarrow> bool" where
  "fresh_lua L \<longleftrightarrow>
     (\<exists>ps gs. registry_is L ps \<and> plain_table L (G_globals L) gs
        \<and> lookup ps (TString LMDB_ENV_REGISTRY_NAME) = TNil \<and> lookup ps (TString LMDB_TX_REGISTRY_NAME) = TNil
        \<and> lookup ps (TString LMDB_CURSOR_REGISTRY_NAME) = TNil)
     \<and> G_registry L \<noteq> G_globals L \<and> (\<forall>a. G_next L \<le> a \<longrightarrow> G_heap L a = None)"

lemma registry_names:
  "LMDB_ENV_REGISTRY_NAME \<noteq> LMDB_TX_REGISTRY_NAME" "LMDB_ENV_REGISTRY_NAME \<noteq> LMDB_CURSOR_REGISTRY_NAME"
  "LMDB_TX_REGISTRY_NAME \<noteq> LMDB_CURSOR_REGISTRY_NAME"
  "0 \<notin> set LMDB_ENV_REGISTRY_NAME" "0 \<notin> set LMDB_TX_REGISTRY_NAME" "0 \<notin> set LMDB_CURSOR_REGISTRY_NAME"
  by (simp_all add: LMDB_ENV_REGISTRY_NAME_def LMDB_TX_REGISTRY_NAME_def LMDB_CURSOR_REGISTRY_NAME_def str_def)

lemma tx_metatable:
  "lookup (metatable_node name t lmdb_tx_methods) (TString (str ''__index'')) = TTable t"
  "lookup (metatable_node name t lmdb_tx_methods) (TUserdata u) = TNil"
proof -
  have "str ''__index'' \<notin> fst ` set lmdb_tx_methods" by (simp add: lmdb_tx_methods_def str_def)
  then show "lookup (metatable_node name t lmdb_tx_methods) (TString (str ''__index'')) = TTable t"
    unfolding metatable_node_def by (subst lookup_functions) (auto simp: lookup_def str_def)
  show "lookup (metatable_node name t lmdb_tx_methods) (TUserdata u) = TNil"
    unfolding metatable_node_def by (subst lookup_functions) (auto simp: lookup_def)
qed

lemma AddLib_effect:
  assumes "fresh_lua L"
  shows "\<exists>L' ps. LuaDB_LmdbAddLib E L = ret L' \<and> registry_is L' ps \<and> G_registry L' = G_registry L
     \<and> lookup ps (TString LMDB_ENV_REGISTRY_NAME) = TTable (G_next L)
     \<and> lookup ps (TString LMDB_TX_REGISTRY_NAME) = TTable (G_next L + 1)
     \<and> plain_table L' (G_next L + 1) (metatable_node LMDB_TX_REGISTRY_NAME (G_next L + 1) lmdb_tx_methods)
     \<and> (\<forall>a. G_next L' \<le> a \<longrightarrow> G_heap L' a = None)
     \<and> (\<forall>ps0 k. registry_is L ps0 \<longrightarrow> k \<notin> {LMDB_ENV_REGISTRY_NAME, LMDB_TX_REGISTRY_NAME, LMDB_CURSOR_REGISTRY_NAME}
          \<longrightarrow> lookup ps (TString k) = lookup ps0 (TString k))
     \<and> G_globals L' = G_globals L \<and> G_next L \<le> G_next L'
     \<and> (\<forall>gs. plain_table L (G_globals L) gs
          \<longrightarrow> plain_table L' (G_globals L) (alist_set (TString (str ''lmdb'')) (TTable (G_next L + 3)) gs))
     \<and> (\<forall>a < G_next L. a \<noteq> G_globals L \<longrightarrow> a \<noteq> G_registry L \<longrightarrow> G_heap L' a = G_heap L a)"
proof -
  obtain ps gs where f: "registry_is L ps" "plain_table L (G_globals L) gs"
      "lookup ps (TString LMDB_ENV_REGISTRY_NAME) = TNil" "lookup ps (TString LMDB_TX_REGISTRY_NAME) = TNil"
      "lookup ps (TString LMDB_CURSOR_REGISTRY_NAME) = TNil" "G_registry L \<noteq> G_globals L"
      "\<And>a. G_next L \<le> a \<Longrightarrow> G_heap L a = None"
    using assms unfolding fresh_lua_def by blast
  let ?n = "G_next L" and ?r = "G_registry L" and ?g = "G_globals L"
  have small: "?r < ?n" "?g < ?n"
    using f(1,2) f(7)[of ?r] f(7)[of ?g] by (auto simp: registry_is_def plain_table_def not_less[symmetric])
  define T where "T name t methods L = L\<lparr>L_stack := TTable t # L_stack L,
      G_heap := (G_heap L)(t \<mapsto> \<lparr>t_node = metatable_node name t methods, t_metatable = None\<rparr>), G_next := t + 1\<rparr>"
    for name t methods and L :: "'a lua_State"
  define R where "R ps L = L\<lparr>G_heap := (G_heap L)(G_registry L \<mapsto> \<lparr>t_node = ps, t_metatable = None\<rparr>)\<rparr>"
    for ps and L :: "'a lua_State"
  have TR: "G_next (R ps (T name t methods L)) = t + 1" "G_registry (R ps (T name t methods L)) = G_registry L"
      "G_globals (R ps (T name t methods L)) = G_globals L" "registry_is (R ps (T name t methods L)) ps"
      "a \<noteq> t \<Longrightarrow> a \<noteq> G_registry L \<Longrightarrow> G_heap (R ps (T name t methods L)) a = G_heap L a"
      "t \<noteq> G_registry L \<Longrightarrow> G_heap (R ps (T name t methods L)) t = Some \<lparr>t_node = metatable_node name t methods, t_metatable = None\<rparr>"
    for ps name t methods a and L :: "'a lua_State"
    by (simp_all add: T_def R_def registry_is_def plain_table_def)
  have step: "CreateLmdbMetatable E L name methods = ret (R (alist_set (TString name) (TTable (G_next L)) ps) (T name (G_next L) methods L))"
    if "registry_is L ps" "lookup ps (TString name) = TNil" "0 \<notin> set name" "G_registry L < G_next L" for L :: "'a lua_State" and ps name methods
    using CreateMetatable_effect[OF that] by (simp add: T_def R_def)
  define ps1 where "ps1 = alist_set (TString LMDB_ENV_REGISTRY_NAME) (TTable ?n) ps"
  define ps2 where "ps2 = alist_set (TString LMDB_TX_REGISTRY_NAME) (TTable (?n + 1)) ps1"
  define ps3 where "ps3 = alist_set (TString LMDB_CURSOR_REGISTRY_NAME) (TTable (?n + 2)) ps2"
  define L1 where "L1 = R ps1 (T LMDB_ENV_REGISTRY_NAME ?n lmdb_env_methods L)"
  define L2 where "L2 = R ps2 (T LMDB_TX_REGISTRY_NAME (?n + 1) lmdb_tx_methods L1)"
  define L3 where "L3 = R ps3 (T LMDB_CURSOR_REGISTRY_NAME (?n + 2) lmdb_cursor_methods L2)"
  have lk: "lookup (alist_set k v qs) k' = (if k' = k then v else lookup qs k')" for k v qs and k' :: "'a tvalue"
    by (simp add: lookup_def map_of_alist_set)
  have n: "G_next L1 = ?n + 1" "G_next L2 = ?n + 2" "G_next L3 = ?n + 3"
      "G_registry L1 = ?r" "G_registry L2 = ?r" "G_registry L3 = ?r" "G_globals L3 = ?g"
      "registry_is L1 ps1" "registry_is L2 ps2" "registry_is L3 ps3"
    by (simp_all add: L1_def L2_def L3_def TR)
  have "CreateLmdbMetatable E L LMDB_ENV_REGISTRY_NAME lmdb_env_methods = ret L1"
    using step[OF f(1,3)] registry_names small by (simp add: L1_def ps1_def)
  moreover have "CreateLmdbMetatable E L1 LMDB_TX_REGISTRY_NAME lmdb_tx_methods = ret L2"
    using step[OF n(8), of LMDB_TX_REGISTRY_NAME] registry_names small n f(4) by (simp add: L2_def ps2_def ps1_def lk)
  moreover have "CreateLmdbMetatable E L2 LMDB_CURSOR_REGISTRY_NAME lmdb_cursor_methods = ret L3"
    using step[OF n(9), of LMDB_CURSOR_REGISTRY_NAME] registry_names small n f(5)
    by (simp add: L3_def ps3_def ps2_def ps1_def lk)
  moreover obtain L4 where L4: "luaL_setfuncs E (lua_createtable L3) lmdb_lib_funcs = ret L4"
      "L_stack L4 = TTable (?n + 3) # L_stack L3" "G_registry L4 = ?r" "G_globals L4 = ?g" "G_next L4 = ?n + 4"
      "\<And>a. a \<noteq> ?n + 3 \<Longrightarrow> G_heap L4 a = G_heap L3 a"
    using luaL_setfuncs_plain[of "lua_createtable L3" "?n + 3" "[]" "L_stack L3" E lmdb_lib_funcs] n
    by (simp add: lua_createtable_def plain_table_def)
  moreover have h: "G_heap L3 a = G_heap L a" if "a \<noteq> ?n" "a \<noteq> ?n + 1" "a \<noteq> ?n + 2" "a \<noteq> ?r" for a
    using that n by (simp add: L1_def L2_def L3_def TR)
  have g: "plain_table L4 ?g gs" using f(2,6) small L4(6)[of ?g] h[of ?g] by (simp add: plain_table_def)
  let ?L = "L4\<lparr>L_stack := L_stack L3, G_heap := (G_heap L4)(?g \<mapsto> \<lparr>t_node = alist_set (TString (str ''lmdb'')) (TTable (?n + 3)) gs, t_metatable = None\<rparr>)\<rparr>"
  have "lua_setglobal E L4 (str ''lmdb'') = ret ?L"
    using settable_plain[of "api_incr_top (TString (str ''lmdb'')) L4" ?g gs "TString (str ''lmdb'')" E "TTable (?n + 3)"] g L4(2,4)
    by (simp add: lua_setglobal_def lua_simps heap_set_def)
  ultimately have "LuaDB_LmdbAddLib E L = ret ?L" by (simp add: LuaDB_LmdbAddLib_def)
  moreover have "registry_is ?L ps3"
    using n(10) L4(3) f(6) small n(6) by (simp add: registry_is_def plain_table_def L4(6))
  moreover have "plain_table ?L (?n + 1) (metatable_node LMDB_TX_REGISTRY_NAME (?n + 1) lmdb_tx_methods)"
    using small n by (simp add: plain_table_def L4(6) L3_def L2_def TR)
  moreover have "\<forall>a. G_next ?L \<le> a \<longrightarrow> G_heap ?L a = None"
    using small h f(7) L4(5,6) by simp
  moreover have "ps0 = ps" if "registry_is L ps0" for ps0 using that f(1) by (simp add: registry_is_def plain_table_def)
  moreover have "G_heap ?L a = G_heap L a" if "a < ?n" "a \<noteq> ?g" "a \<noteq> ?r" for a
    using that h[of a] L4(6)[of a] by simp
  moreover have "plain_table ?L ?g (alist_set (TString (str ''lmdb'')) (TTable (?n + 3)) gs')" if "plain_table L ?g gs'" for gs'
    using that f(2) by (simp add: plain_table_def)
  ultimately show ?thesis
    using registry_names L4(3-5) by (intro exI[of _ ?L] exI[of _ ps3]) (simp add: ps1_def ps2_def ps3_def lk)
qed

text \<open>The state of the library in a process that opened no environment yet.\<close>

definition lib_world :: "'d lua_State \<Rightarrow> 'd world" where
  "lib_world L = \<lparr>w_L = L, w_env = Map.empty, w_tx = Map.empty, w_cursor = Map.empty,
     w_mdb = \<lparr>m_envs = Map.empty, m_txns = Map.empty, m_next = 0\<rparr>\<rparr>"

lemma AddLib_lua_ok:
  assumes "fresh_lua L" "LuaDB_LmdbAddLib E L = ret L'"
  shows "lua_ok (lib_world L') (G_next L) (G_next L + 1)"
proof -
  obtain ps where L': "registry_is L' ps" "lookup ps (TString LMDB_ENV_REGISTRY_NAME) = TTable (G_next L)"
      "lookup ps (TString LMDB_TX_REGISTRY_NAME) = TTable (G_next L + 1)"
      "plain_table L' (G_next L + 1) (metatable_node LMDB_TX_REGISTRY_NAME (G_next L + 1) lmdb_tx_methods)"
      "\<forall>a. G_next L' \<le> a \<longrightarrow> G_heap L' a = None"
    using AddLib_effect[OF assms(1), of E] assms(2) by auto
  then show ?thesis
    using tx_metatable[of LMDB_TX_REGISTRY_NAME "G_next L + 1"] unfolding lua_ok_def lib_world_def by fastforce
qed

end
