(* ===== verification/LmdbEnvRun.thy ===== *)
theory LmdbEnvRun
  imports LmdbEnvInv LmdbLib
begin

text \<open>
  The runs of the life-cycle: the library is registered, then any sequence of calls that return,
  without a garbage collection and without a failing commit. In a run no transaction object holds
  a dangling pointer, every running transaction can be ended, and closing an environment ends all
  its transactions.
\<close>

subsection \<open>Runs\<close>

definition fresh_uuid :: "'d world \<Rightarrow> bytes \<Rightarrow> bool" where
  "fresh_uuid w uuid \<longleftrightarrow> 0 \<notin> set uuid \<and> (\<forall>ps. registry_is (w_L w) ps \<longrightarrow> lookup ps (TString uuid) = TNil)"

inductive lmdb_run :: "'d lua_env \<Rightarrow> 'd world \<Rightarrow> bool" for E where
  start: "fresh_lua L \<Longrightarrow> LuaDB_LmdbAddLib E L = ret L' \<Longrightarrow> lmdb_run E (lib_world L')"
| env_open: "lmdb_run E w \<Longrightarrow> os_open_rc os = 0 \<Longrightarrow> os_uuid os = Some uuid \<Longrightarrow> fresh_uuid w uuid \<Longrightarrow> 0 \<notin> set path
     \<Longrightarrow> LuaDB_LmdbOpenEnv E os (call_with w [TString path]) = ret (n, w') \<Longrightarrow> lmdb_run E w'"
| env_begin: "lmdb_run E w \<Longrightarrow> w_env w u \<noteq> None
     \<Longrightarrow> LmdbEnv_BeginTx E os (call_with w (begin_args ro @ [TUserdata u])) = ret (n, w') \<Longrightarrow> lmdb_run E w'"
| tx_write: "lmdb_run E w \<Longrightarrow> m_txns (w_mdb w) p = Some txn \<Longrightarrow> \<not> mt_rdonly txn
     \<Longrightarrow> lmdb_run E (w\<lparr>w_mdb := txn_set (w_mdb w) p (txn\<lparr>mt_dirty := True\<rparr>)\<rparr>)"
| tx_close: "lmdb_run E w \<Longrightarrow> w_tx w u \<noteq> None
     \<Longrightarrow> LmdbTx_Close E (call_with w [TUserdata u]) = ret (n, w') \<Longrightarrow> lmdb_run E w'"
| tx_commit: "lmdb_run E w \<Longrightarrow> w_tx w u \<noteq> None
     \<Longrightarrow> LmdbTx_Commit E os (call_with w [TUserdata u]) = ret (0, n, w') \<Longrightarrow> lmdb_run E w'"
| env_close: "lmdb_run E w \<Longrightarrow> w_env w u \<noteq> None
     \<Longrightarrow> LmdbEnv_Close E (call_with w [TUserdata u]) = ret (n, w') \<Longrightarrow> lmdb_run E w'"

subsection \<open>Calls on ended objects\<close>

lemma Release_ended:
  assumes "lua_ok w me mt" "w_tx w u = Some tx" "tx_txn tx = None"
  shows "LmdbTx_Release E (call_with w [TUserdata u]) = lua_throw ''LMDB transaction has no associated environment''"
proof -
  have "on_L2 (call_with w [TUserdata u]) (\<lambda>L. luaL_checkudata E L 1 LMDB_TX_REGISTRY_NAME) = ret (u, call_with w [TUserdata u])"
    using check_userdata(1)[of "call_with w [TUserdata u]" me mt 1 u E] assms(1,2) by (simp add: value_at_self)
  then show ?thesis using assms(2,3) by (simp add: LmdbTx_Release_def tx_block_def mdb_txn_env_def)
qed

lemma Close_ended:
  assumes "lua_ok w me mt" "w_tx w u = Some tx" "tx_txn tx = None"
  shows "LmdbTx_Close E (call_with w [TUserdata u]) = lua_throw ''LMDB transaction has no associated environment''"
    and "LmdbTx_Commit E os (call_with w [TUserdata u]) = lua_throw ''LMDB transaction has no associated environment''"
  using Release_ended[OF assms] by (simp_all add: LmdbTx_Close_def LmdbTx_Commit_def lua_throw_def)

lemma env_checked:
  assumes "lua_ok w me mt" "w_env w u \<noteq> None" "L_stack (w_L w) = args @ [TUserdata u]"
  shows "on_L2 w (\<lambda>L. luaL_checkudata E L 1 LMDB_ENV_REGISTRY_NAME) = ret (u, w)"
  using check_userdata(2)[OF assms(1) value_at_self[OF assms(3)] assms(2)] .

subsection \<open>The invariant in a run\<close>

lemma started_ok:
  assumes "fresh_lua L" "LuaDB_LmdbAddLib E L = ret L'"
  shows "world_ok (lib_world L')"
proof -
  have "w_env (lib_world L') = Map.empty" "w_tx (lib_world L') = Map.empty" "mdb_ok (w_mdb (lib_world L'))"
    by (simp_all add: lib_world_def mdb_ok_def)
  then show ?thesis
    using AddLib_lua_ok[OF assms] by (intro world_okI[OF _ AddLib_lua_ok[OF assms]]) (simp_all add: injective_def)
qed

lemma tx_close_step:
  assumes ok: "world_ok w" and "w_tx w u = Some tx" "tx_txn tx = Some p"
  shows "\<exists>w'. LmdbTx_Close E (call_with w [TUserdata u]) = ret (0, w') \<and> world_ok w'
     \<and> w_tx w' = (w_tx w)(u \<mapsto> tx\<lparr>tx_txn := None\<rparr>) \<and> w_env w' = w_env w"
proof -
  obtain me mt where lua: "lua_ok w me mt" using world_ok_lua[OF ok] by blast
  obtain o' e t es where r: "w_env w o' = Some (Some e)" "live (w_mdb w) p e" "ref_of w e t es" "u \<in> owners es"
    using world_ok_tx[OF ok assms(2,3)] by blast
  obtain txn where txn: "m_txns (w_mdb w) p = Some txn" "mt_env txn = e" using r(2) unfolding live_def by blast
  obtain m where m: "mdb_txn_abort (w_mdb w) (Some p) = ret m" "keeps (w_mdb w) p m"
    using abort_keeps[OF world_ok_mdb[OF ok] r(2)] by blast
  show ?thesis
    using Close_effect[OF lua assms(2,3) txn(1) _ m(1), of t es E] r(3) txn(2) release_ok[OF ok assms(2,3) r m(2)]
    by (intro exI[of _ "set_tx (w\<lparr>w_L := released w t es u, w_mdb := m\<rparr>) u (tx\<lparr>tx_txn := None\<rparr>)"] conjI)
      (simp_all add: set_tx_def)
qed

lemma tx_commit_step:
  assumes ok: "world_ok w" and "w_tx w u = Some tx" "tx_txn tx = Some p"
    "LmdbTx_Commit E os (call_with w [TUserdata u]) = ret (0, n, w')"
  shows "world_ok w'"
proof -
  obtain me mt where lua: "lua_ok w me mt" using world_ok_lua[OF ok] by blast
  obtain o' e t es where r: "w_env w o' = Some (Some e)" "live (w_mdb w) p e" "ref_of w e t es" "u \<in> owners es"
    using world_ok_tx[OF ok assms(2,3)] by blast
  obtain txn where txn: "m_txns (w_mdb w) p = Some txn" "mt_env txn = e" using r(2) unfolding live_def by blast
  obtain rc m where m: "mdb_txn_commit (w_mdb w) (os_write_rc os) (Some p) = ret (rc, m)" "keeps (w_mdb w) p m"
    using commit_keeps[OF world_ok_mdb[OF ok] r(2)] by blast
  have "w' = set_tx (w\<lparr>w_L := released w t es u, w_mdb := m\<rparr>) u (tx\<lparr>tx_txn := None\<rparr>)"
    using Commit_effect[OF lua assms(2,3) txn(1) _ m(1), of t es E] r(3) txn(2) assms(4) by (auto split: if_splits)
  then show ?thesis using release_ok[OF ok assms(2,3) r m(2)] by simp
qed

text \<open>A call that returned was on a running transaction.\<close>

lemma close_step:
  assumes ok: "world_ok w" and "w_tx w u \<noteq> None" "LmdbTx_Close E (call_with w [TUserdata u]) = ret (n, w')"
  shows "world_ok w'"
proof -
  obtain me mt where lua: "lua_ok w me mt" using world_ok_lua[OF ok] by blast
  obtain tx where tx: "w_tx w u = Some tx" using assms(2) by blast
  then obtain p where "tx_txn tx = Some p"
    using Close_ended(1)[OF lua tx, of E] assms(3) by (cases "tx_txn tx") (auto simp: lua_throw_def)
  then show ?thesis using tx_close_step[OF ok tx, of p E] assms(3) by auto
qed

lemma commit_step:
  assumes ok: "world_ok w" and "w_tx w u \<noteq> None" "LmdbTx_Commit E os (call_with w [TUserdata u]) = ret (0, n, w')"
  shows "world_ok w'"
proof -
  obtain me mt where lua: "lua_ok w me mt" using world_ok_lua[OF ok] by blast
  obtain tx where tx: "w_tx w u = Some tx" using assms(2) by blast
  then obtain p where "tx_txn tx = Some p"
    using Close_ended(2)[OF lua tx, of E os] assms(3) by (cases "tx_txn tx") (auto simp: lua_throw_def)
  then show ?thesis using tx_commit_step[OF ok tx] assms(3) by blast
qed

lemma begin_step:
  assumes ok: "world_ok w" and u: "w_env w u \<noteq> None"
    and b: "LmdbEnv_BeginTx E os (call_with w (begin_args ro @ [TUserdata u])) = ret (n, w')"
  shows "world_ok w'"
proof -
  let ?w = "call_with w (begin_args ro @ [TUserdata u])"
  obtain me mt where lua: "lua_ok w me mt" using world_ok_lua[OF ok] by blast
  have lua': "lua_ok ?w me mt" "w_env ?w u \<noteq> None" "L_stack (w_L ?w) = begin_args ro @ [TUserdata u]" using lua u by simp_all
  have chk: "on_L2 ?w (\<lambda>L. luaL_checkudata E L 1 LMDB_ENV_REGISTRY_NAME) = ret (u, ?w)"
    by (rule env_checked[OF lua'])
  obtain e where e: "w_env w u = Some (Some e)"
    using b u unfolding LmdbEnv_BeginTx_def CheckLmdbEnvParam_def chk
    by (cases "w_env w u") (auto simp: env_block_def lua_throw_def split: option.splits)
  then have c: "CheckLmdbEnvParam E ?w 1 = ret (e, ?w)"
    unfolding CheckLmdbEnvParam_def chk by (simp add: env_block_def)
  have fl: "(if 1 < lua_gettop (w_L ?w) then xbind (lua_toboolean (w_L ?w) 2) (\<lambda>b. ret (if b then MDB_RDONLY else 0)) else ret 0)
      = ret (if ro then MDB_RDONLY else 0)"
    by (simp add: begin_args_def lua_gettop_def lua_toboolean_def index2addr_def Let_def)
  obtain t es where ref: "ref_of w e t es" using world_ok_env[OF ok e] by blast
  obtain err txn m where mb: "mdb_txn_begin (w_mdb w) e (if ro then MDB_RDONLY else 0) = ret (err, txn, m)" "err = 0"
    using b unfolding LmdbEnv_BeginTx_def c xbind_simps(3) prod.case fl call_with_simps(6) xbind_ret_iff[of "mdb_txn_begin _ _ _"]
    by (auto simp: lmdb_error_def lua_throw_def split: if_splits)
  then obtain p where p: "txn = Some p"
    unfolding mdb_txn_begin_def xbind_ret_iff by (auto simp: Let_def xbind_ret_iff split: if_splits option.splits)
  have k: "keeps (w_mdb w) p m" "live m p e" "\<forall>e'. \<not> live (w_mdb w) p e'"
    using begin_keeps[OF world_ok_mdb[OF ok]] mb unfolding p by blast+
  have "w' = w\<lparr>w_L := begun w t es mt (begin_args ro @ [TUserdata u]), w_mdb := m,
              w_tx := (w_tx w)(G_next (w_L w) \<mapsto> \<lparr>tx_txn = Some p, tx_dbi = 1\<rparr>)\<rparr>"
    using Begin_effect[OF lua e ref _ k(2), of ro E os] mb k(1) b unfolding p keeps_def by simp
  then show ?thesis using begin_ok[OF ok lua e ref k] by simp
qed

lemma write_step:
  assumes ok: "world_ok w" and p: "m_txns (w_mdb w) p = Some txn"
  shows "world_ok (w\<lparr>w_mdb := txn_set (w_mdb w) p (txn\<lparr>mt_dirty := True\<rparr>)\<rparr>)"
proof -
  let ?m = "txn_set (w_mdb w) p (txn\<lparr>mt_dirty := True\<rparr>)"
  have lv: "live ?m q e \<longleftrightarrow> live (w_mdb w) q e" for q e
    using p by (auto simp: live_def txn_set_def)
  have rf: "ref_of (w\<lparr>w_mdb := ?m\<rparr>) e t es \<longleftrightarrow> ref_of w e t es" for e t es
    by (simp add: ref_of_def txn_set_def)
  have "mdb_ok ?m" using txn_flags_keeps[OF world_ok_mdb[OF ok] p] by (simp add: keeps_def)
  moreover have "lua_ok (w\<lparr>w_mdb := ?m\<rparr>) = lua_ok w"
    by (simp add: lua_ok_def fun_eq_iff)
  ultimately show ?thesis
    using ok unfolding world_ok_def by (simp add: lv rf injective_def entry_ok_def)
qed

lemma env_close_step:
  assumes ok: "world_ok w" and u: "w_env w u \<noteq> None"
    and b: "LmdbEnv_Close E (call_with w [TUserdata u]) = ret (n, w')"
  shows "world_ok w'"
proof -
  obtain me mt where lua: "lua_ok w me mt" using world_ok_lua[OF ok] by blast
  have chk: "on_L2 (call_with w [TUserdata u]) (\<lambda>L. luaL_checkudata E L 1 LMDB_ENV_REGISTRY_NAME) = ret (u, call_with w [TUserdata u])"
    using lua u by (intro env_checked[of _ me mt _ "[]"]) simp_all
  obtain e where e: "w_env w u = Some (Some e)"
    using b u unfolding LmdbEnv_Close_def chk
    by (cases "w_env w u") (auto simp: env_block_def lua_throw_def split: if_splits)
  obtain t es where ref: "ref_of w e t es" "distinct (map fst es)" "\<forall>kv \<in> set es. entry_ok w e kv"
    using world_ok_env[OF ok e] by blast
  obtain m where m: "LmdbEnv_Close E (call_with w [TUserdata u])
      = ret (0, w\<lparr>w_L := (w_L w)\<lparr>L_stack := [TTable t, TUserdata u]\<rparr>, w_tx := cleared (w_tx w) (owners es), w_mdb := m,
                 w_env := (w_env w)(u \<mapsto> None)\<rparr>)" "mdb_ok m"
      "\<forall>e'. map_option static (m_envs m e') = (if e' = e then None else map_option static (m_envs (w_mdb w) e'))"
      "\<forall>q e'. e' \<noteq> e \<longrightarrow> live (w_mdb w) q e' \<longrightarrow> q \<notin> pointers w (owners es) \<longrightarrow> live m q e'"
    using EnvClose_effect[OF lua e ref(1,2) world_ok_mdb[OF ok] world_ok_inj[OF ok] ref(3), of E] by blast
  then show ?thesis
    using env_close_ok[OF ok e ref(1) m(2-4)] b by simp
qed

lemma lua_ok_registry:
  assumes "lua_ok w me mt"
  obtains ps where "registry_is (w_L w) ps" "G_registry (w_L w) < G_next (w_L w)"
proof -
  obtain ps where ps: "registry_is (w_L w) ps" using assms unfolding lua_ok_def by blast
  have fresh: "\<And>a. G_next (w_L w) \<le> a \<Longrightarrow> G_heap (w_L w) a = None" using assms unfolding lua_ok_def by blast
  have "G_heap (w_L w) (G_registry (w_L w)) \<noteq> None" using ps by (simp add: registry_is_def plain_table_def)
  then have "G_registry (w_L w) < G_next (w_L w)"
    using fresh[of "G_registry (w_L w)"] by (cases "G_registry (w_L w) < G_next (w_L w)") auto
  then show thesis using that ps by blast
qed

lemma open_step:
  assumes ok: "world_ok w" and o: "os_open_rc os = 0" "os_uuid os = Some uuid" "fresh_uuid w uuid" "0 \<notin> set path"
    and b: "LuaDB_LmdbOpenEnv E os (call_with w [TString path]) = ret (n, w')"
  shows "world_ok w'"
proof -
  obtain me mt where lua: "lua_ok w me mt" using world_ok_lua[OF ok] by blast
  obtain ps where reg: "registry_is (w_L w) ps" "G_registry (w_L w) < G_next (w_L w)"
    using lua_ok_registry[OF lua] by blast
  have u: "0 \<notin> set uuid" "lookup ps (TString uuid) = TNil" using o(3) reg(1) unfolding fresh_uuid_def by blast+
  show ?thesis
    using open_ok[OF ok lua reg(1) u, where s = "[TUserdata (G_next (w_L w)), TString path]" and path = path]
      Open_effect[OF lua reg o(1,2) u o(4), of E] b by simp
qed

lemma lmdb_run_ok: "lmdb_run E w \<Longrightarrow> world_ok w"
proof (induction rule: lmdb_run.induct)
  case (start L L')
  then show ?case by (rule started_ok)
next
  case (env_open w os uuid path n w')
  show ?case by (rule open_step[OF env_open.IH env_open.hyps(2-6)])
next
  case (env_begin w u os ro n w')
  show ?case by (rule begin_step[OF env_begin.IH env_begin.hyps(2,3)])
next
  case (tx_write w p txn)
  show ?case by (rule write_step[OF tx_write.IH tx_write.hyps(2)])
next
  case (tx_close w u n w')
  show ?case by (rule close_step[OF tx_close.IH tx_close.hyps(2,3)])
next
  case (tx_commit w u os n w')
  show ?case by (rule commit_step[OF tx_commit.IH tx_commit.hyps(2,3)])
next
  case (env_close w u n w')
  show ?case by (rule env_close_step[OF env_close.IH env_close.hyps(2,3)])
qed

subsection \<open>An example run\<close>

definition example_lua :: "unit lua_State" where
  "example_lua = \<lparr>L_stack = [], L_upvalue = [],
     G_heap = Map.empty(0 \<mapsto> \<lparr>t_node = [], t_metatable = None\<rparr>, 1 \<mapsto> \<lparr>t_node = [], t_metatable = None\<rparr>),
     G_next = 2, G_mt = \<lambda>_. None, G_udmt = Map.empty, G_registry = 0, G_globals = 1\<rparr>"

definition example_os :: "unit lmdb_os" where
  "example_os = \<lparr>os_strerror = \<lambda>_. ''error'', os_open_rc = 0, os_write_rc = 28, os_copy_rc = 0, os_uuid = Some (str ''uuid''),
     os_number = \<lambda>n. TInteger n, os_checknumber = \<lambda>_. None\<rparr>"

text \<open>An open environment with a running write transaction.\<close>

lemma example_run:
  "\<exists>w u tx o' env. lmdb_run example_env w \<and> w_tx w u = Some tx \<and> tx_txn tx = Some 1 \<and> w_env w o' = Some (Some 0)
     \<and> m_txns (w_mdb w) 1 = Some \<lparr>mt_env = 0, mt_rdonly = False, mt_error = False, mt_dirty = False, mt_reader = False\<rparr>
     \<and> m_envs (w_mdb w) 0 = Some env \<and> me_flags env = 0"
proof -
  have r0: "registry_is example_lua []" by (simp add: example_lua_def registry_is_def plain_table_def)
  have fr: "fresh_lua example_lua"
    unfolding fresh_lua_def by (auto simp: example_lua_def registry_is_def plain_table_def lookup_def)
  obtain L ps where L: "LuaDB_LmdbAddLib example_env example_lua = ret L" "registry_is L ps"
      "\<And>k. k \<notin> {LMDB_ENV_REGISTRY_NAME, LMDB_TX_REGISTRY_NAME, LMDB_CURSOR_REGISTRY_NAME} \<Longrightarrow> lookup ps (TString k) = TNil"
    using AddLib_effect[OF fr, of example_env] r0 by (force simp: lookup_def)
  let ?w0 = "lib_world L" and ?m0 = "w_mdb (lib_world L)"
  have run0: "lmdb_run example_env ?w0" by (rule lmdb_run.start[OF fr L(1)])
  obtain me mt where lua: "lua_ok ?w0 me mt" using world_ok_lua[OF lmdb_run_ok[OF run0]] by blast
  have reg: "registry_is (w_L ?w0) ps" using L(2) by (simp add: lib_world_def)
  have uu: "0 \<notin> set (str ''uuid'')" "lookup ps (TString (str ''uuid'')) = TNil"
    by (simp add: str_def) (rule L(3), simp add: LMDB_ENV_REGISTRY_NAME_def LMDB_TX_REGISTRY_NAME_def LMDB_CURSOR_REGISTRY_NAME_def str_def)
  have reg_next: "G_registry (w_L ?w0) < G_next (w_L ?w0)" using lua_ok_registry[OF lua] by blast
  have os: "os_open_rc example_os = 0" "os_uuid example_os = Some (str ''uuid'')" by (simp_all add: example_os_def)
  have path: "0 \<notin> set (str ''db'')" by (simp add: str_def)
  have fu: "fresh_uuid ?w0 (str ''uuid'')"
    using reg uu by (auto simp: fresh_uuid_def registry_is_def plain_table_def)
  note op = Open_effect[OF lua reg reg_next os uu path, of example_env]
  obtain w1 o' where w1: "LuaDB_LmdbOpenEnv example_env example_os (call_with ?w0 [TString (str ''db'')]) = ret (1, w1)"
      "w_env w1 o' = Some (Some (m_next ?m0))" "w_mdb w1 = opened_mdb ?m0 (str ''db'') (str ''uuid'')"
    using op by fastforce
  have run1: "lmdb_run example_env w1" by (rule lmdb_run.env_open[OF run0 os fu path w1(1)])
  have env1: "w_env w1 o' = Some (Some 0)" using w1(2) by (simp add: lib_world_def)
  obtain me1 mt1 where lua1: "lua_ok w1 me1 mt1" using world_ok_lua[OF lmdb_run_ok[OF run1]] by blast
  obtain t es where ref: "ref_of w1 0 t es" using world_ok_env[OF lmdb_run_ok[OF run1] env1] by blast
  have m1: "w_mdb w1 = opened_mdb \<lparr>m_envs = Map.empty, m_txns = Map.empty, m_next = 0\<rparr> (str ''db'') (str ''uuid'')"
    using w1(3) by (simp add: lib_world_def)
  obtain m2 where m2: "mdb_txn_begin (w_mdb w1) 0 0 = ret (0, Some 1, m2)"
      "m_txns m2 1 = Some \<lparr>mt_env = 0, mt_rdonly = False, mt_error = False, mt_dirty = False, mt_reader = False\<rparr>"
      "\<exists>env. m_envs m2 0 = Some env \<and> me_flags env = 0"
    unfolding m1 by (simp add: mdb_txn_begin_def mdb_txn_renew0_def env_at_def txn_at_def opened_mdb_def opened_env_def
        has_flag_def MDB_FATAL_ERROR_def MDB_RDONLY_def Let_def env_set_def txn_set_def)
  have k: "keeps (w_mdb w1) 1 m2 \<and> live m2 1 0"
    using begin_keeps[OF world_ok_mdb[OF lmdb_run_ok[OF run1]] m2(1)] by blast
  have b: "mdb_txn_begin (w_mdb w1) 0 (if False then MDB_RDONLY else 0) = ret (0, Some 1, m2)" using m2(1) by simp
  have se: "same_envs (w_mdb w1) m2" "live m2 1 0" using k unfolding keeps_def by blast+
  note bg = Begin_effect[OF lua1 env1 ref b se(2,1), of example_env example_os]
  obtain w2 u where w2: "LmdbEnv_BeginTx example_env example_os (call_with w1 (begin_args False @ [TUserdata o'])) = ret (1, w2)"
      "w_tx w2 u = Some \<lparr>tx_txn = Some 1, tx_dbi = 1\<rparr>" "w_mdb w2 = m2" "w_env w2 = w_env w1"
    using bg by fastforce
  have "lmdb_run example_env w2" using lmdb_run.env_begin[OF run1 _ w2(1)] env1 by simp
  then show ?thesis using w2(2-4) m2(2,3) env1 by (metis LuaDB_LmdbTx.select_convs(1))
qed

subsection \<open>What holds in a run\<close>

lemma run_live:
  assumes "world_ok w" "w_tx w u = Some tx" "tx_txn tx = Some p"
  obtains o' e where "w_env w o' = Some (Some e)" "live (w_mdb w) p e"
  using world_ok_tx[OF assms] that by blast



text \<open>In every state of a run, \<open>tx:close()\<close> (and \<open>rollback\<close> and \<open>__gc\<close>, which are the same function)
  of a running transaction returns, clears the pointer of that object and nothing else, and
  leads to a state of a run. On a transaction that has ended it raises the Lua error "no
  associated environment".\<close>

theorem LmdbTx_Close_once:
  assumes "lmdb_run E w" "w_tx w u = Some tx"
  shows "(case tx_txn tx of
       None \<Rightarrow> LmdbTx_Close E (call_with w [TUserdata u]) = lua_throw ''LMDB transaction has no associated environment''
     | Some p \<Rightarrow> (\<exists>w'. LmdbTx_Close E (call_with w [TUserdata u]) = ret (0, w') \<and> lmdb_run E w'
           \<and> w_tx w' = (w_tx w)(u \<mapsto> tx\<lparr>tx_txn := None\<rparr>) \<and> w_env w' = w_env w))"
proof (cases "tx_txn tx")
  case None
  obtain me mt where "lua_ok w me mt" using world_ok_lua[OF lmdb_run_ok[OF assms(1)]] by blast
  then show ?thesis using Close_ended(1)[OF _ assms(2) None] None by simp
next
  case (Some p)
  then show ?thesis
    using tx_close_step[OF lmdb_run_ok[OF assms(1)] assms(2) Some, of E] lmdb_run.tx_close[OF assms(1)] assms(2) by fastforce
qed

theorem LmdbTx_Close_once_witness:
  "\<exists>w u w'. lmdb_run example_env w \<and> LmdbTx_Close example_env (call_with w [TUserdata u]) = ret (0, w')
     \<and> LmdbTx_Close example_env (call_with w' [TUserdata u]) = lua_throw ''LMDB transaction has no associated environment''"
proof -
  obtain w u tx where run: "lmdb_run example_env w" and tx: "w_tx w u = Some tx" "tx_txn tx = Some 1"
    using example_run by blast
  obtain w' where w': "LmdbTx_Close example_env (call_with w [TUserdata u]) = ret (0, w')" "lmdb_run example_env w'"
      "w_tx w' = (w_tx w)(u \<mapsto> tx\<lparr>tx_txn := None\<rparr>)"
    using LmdbTx_Close_once[OF run tx(1)] tx(2) by auto
  moreover have "LmdbTx_Close example_env (call_with w' [TUserdata u]) = lua_throw ''LMDB transaction has no associated environment''"
    using LmdbTx_Close_once[OF w'(2), of u "tx\<lparr>tx_txn := None\<rparr>"] w'(3) by simp
  ultimately show ?thesis using run by blast
qed



text \<open>All calls come from one thread, so beginning a second write transaction while one is running
  does not return: the thread waits for the writer mutex that it holds itself.\<close>

theorem LmdbEnv_BeginTx_second_writer:
  assumes "lmdb_run E w" "w_env w o' = Some (Some e)" "w_tx w u = Some tx" "tx_txn tx = Some p"
    "m_txns (w_mdb w) p = Some txn" "\<not> mt_rdonly txn" "mt_env txn = e"
    "m_envs (w_mdb w) e = Some env" "me_flags env = 0"
  shows "LmdbEnv_BeginTx E os (call_with w [TUserdata o']) = None"
proof -
  have ok: "world_ok w" by (rule lmdb_run_ok[OF assms(1)])
  obtain me mt where lua: "lua_ok w me mt" using world_ok_lua[OF ok] by blast
  have chk: "on_L2 (call_with w [TUserdata o']) (\<lambda>L. luaL_checkudata E L 1 LMDB_ENV_REGISTRY_NAME) = ret (o', call_with w [TUserdata o'])"
    using lua assms(2) by (intro env_checked[of _ me mt _ "[]"]) simp_all
  obtain o1 e1 where lv: "live (w_mdb w) p e1" using run_live[OF ok assms(3,4)] by blast
  then have run: "me_txn env = Some p" using assms(5-8) by (auto simp: live_def)
  have "env_ok (w_mdb w) e env" using mdb_ok_env[OF world_ok_mdb[OF ok] assms(8)] .
  then have env: "me_txn0 env = Some p" "me_txns env" "me_wmutex env" using run by (auto simp: env_ok_def)
  have "mdb_txn_begin (w_mdb w) e 0 = None"
    using assms(5-9) env
    by (simp add: mdb_txn_begin_def mdb_txn_renew0_def env_at_def txn_at_def has_flag_def MDB_RDONLY_def MDB_FATAL_ERROR_def Let_def)
  then show ?thesis
    using assms(2) unfolding LmdbEnv_BeginTx_def CheckLmdbEnvParam_def chk by (simp add: env_block_def lua_gettop_def)
qed

theorem LmdbEnv_BeginTx_second_writer_witness:
  "\<exists>w o'. lmdb_run example_env w \<and> LmdbEnv_BeginTx example_env example_os (call_with w [TUserdata o']) = None"
proof -
  obtain w u tx o' env where run: "lmdb_run example_env w" "w_env w o' = Some (Some 0)" and tx: "w_tx w u = Some tx" "tx_txn tx = Some 1"
    and txn: "m_txns (w_mdb w) 1 = Some \<lparr>mt_env = 0, mt_rdonly = False, mt_error = False, mt_dirty = False, mt_reader = False\<rparr>"
    and env: "m_envs (w_mdb w) 0 = Some env" "me_flags env = 0"
    using example_run by blast
  show ?thesis using LmdbEnv_BeginTx_second_writer[OF run tx txn _ _ env, of example_os] run(1) by auto
qed

end
