(* ===== verification/LmdbEnvMisuse.thy ===== *)
theory LmdbEnvMisuse
  imports LmdbEnvRun
begin

text \<open>
  Two ways out of the invariant of the theory LmdbEnvRun. The reference table is weak in its keys
  and values and its values are referred to by nothing else, so a garbage collection may drop the
  entry of a running transaction, which closing the environment then misses. And a commit that
  fails has freed or recycled the transaction, but its object keeps the pointer.
\<close>

subsection \<open>A garbage collection\<close>

definition without :: "nat \<Rightarrow> ('d tvalue \<times> 'd tvalue) list \<Rightarrow> ('d tvalue \<times> 'd tvalue) list" where
  "without u es = filter (\<lambda>kv. fst kv \<noteq> TUserdata u) es"

lemma owners_without: "owners (without u es) = owners es - {u}"
  by (auto simp: owners_def without_def)

lemma gc_drop_facts:
  assumes ok: "world_ok w" and own: "w_env w o' = Some (Some e)" and ref: "ref_of w e t es" and lua: "lua_ok w me mt"
  shows "lua_ok (gc_drop w t (TUserdata u)) me mt" "ref_of (gc_drop w t (TUserdata u)) e t (without u es)"
    "distinct (map fst (without u es))" "\<forall>kv \<in> set (without u es). entry_ok (gc_drop w t (TUserdata u)) e kv"
    "w_env (gc_drop w t (TUserdata u)) = w_env w" "w_tx (gc_drop w t (TUserdata u)) = w_tx w"
    "w_mdb (gc_drop w t (TUserdata u)) = w_mdb w" "injective (gc_drop w t (TUserdata u))"
proof -
  let ?w = "gc_drop w t (TUserdata u)"
  obtain wm where t: "G_heap (w_L w) t = Some \<lparr>t_node = es, t_metatable = Some wm\<rparr>"
    using ref unfolding ref_of_def ref_table_def by blast
  show eqs: "w_env ?w = w_env w" "w_tx ?w = w_tx w" "w_mdb ?w = w_mdb w"
    using t by (simp_all add: gc_drop_def)
  have L: "w_L ?w = heap_set (w_L w) t \<lparr>t_node = without u es, t_metatable = Some wm\<rparr>"
    using t by (simp add: gc_drop_def without_def)
  have hc: "heap_change (w_L w) (w_L ?w) t (without u es)"
    unfolding L using t by (simp add: heap_change_def heap_set_def)
  show "lua_ok ?w me mt"
    by (rule lua_ok_change[OF lua hc t]) (auto simp: eqs L t heap_set_def)
  show "ref_of ?w e t (without u es)"
    using ref_of_change[OF ref hc _ ref] eqs(3) by simp
  have es: "distinct (map fst es)" "\<forall>kv \<in> set es. entry_ok w e kv"
    using world_ok_env[OF ok own] ref_of_unique[OF ref] by blast+
  show "distinct (map fst (without u es))" using es(1) unfolding without_def by (rule distinct_map_filter)
  show "\<forall>kv \<in> set (without u es). entry_ok ?w e kv"
    using es(2) plain_change[OF hc t] by (fastforce simp: without_def entry_ok_def eqs)
  show "injective ?w" using world_ok_inj[OF ok] by (simp add: injective_def eqs)
qed



subsection \<open>A commit that fails\<close>

lemma abort_writer:
  assumes "mdb_ok m" "m_txns m p = Some txn" "\<not> mt_rdonly txn" "m_envs m (mt_env txn) = Some env" "me_txn env = Some p"
  shows "mdb_txn_abort m (Some p) = ret (env_set m (mt_env txn) (env\<lparr>me_txn := None, me_wmutex := False\<rparr>))"
proof -
  have "me_txns env" "me_txn0 env = Some p"
    using mdb_ok_env[OF assms(1,4)] assms(5) by (auto simp: env_ok_def)
  then show ?thesis
    using assms by (simp add: mdb_txn_abort_def mdb_txn_reset0_def txn_at_def env_at_def Let_def env_set_def)
qed

text \<open>The write transaction of an idle environment.\<close>

lemma begin_writer:
  assumes "m_txns m p = Some txn" "\<not> mt_rdonly txn" "mt_env txn = e" "m_envs m e = Some env" "me_flags env = 0"
    "me_txn0 env = Some p" "me_wmutex env = False"
  shows "\<exists>m' env'. mdb_txn_begin m e 0 = ret (0, Some p, m') \<and> m_txns m' p = Some (txn\<lparr>mt_error := False, mt_dirty := False\<rparr>)
     \<and> m_envs m' e = Some env' \<and> me_txn env' = Some p"
  using assms by (simp add: mdb_txn_begin_def mdb_txn_renew0_def env_at_def txn_at_def has_flag_def Let_def env_set_def txn_set_def)

text \<open>What the Lua-side facts depend on.\<close>

lemma lua_side_cong:
  assumes "w_L w' = w_L w" "w_mdb w' = w_mdb w" "w_env w' = w_env w" "\<forall>u. w_tx w' u \<noteq> None \<longrightarrow> w_tx w u \<noteq> None"
  shows "lua_ok w me mt \<Longrightarrow> lua_ok w' me mt" "ref_of w' = ref_of w"
  using assms by (simp_all add: lua_ok_def ref_of_def fun_eq_iff)

text \<open>C20: A commit that fails raises an error, but the object keeps its pointer. LMDB recycles the
  struct of the write transaction, so the next \<open>env:begin()\<close> gives a second object with the same
  pointer, and \<open>tx:close()\<close> of the first one, which its finaliser calls at the latest, aborts the
  transaction of the second: its object still holds the pointer, but the transaction has ended.\<close>

theorem failed_commit_aborts_next:
  assumes "lmdb_run E w" "w_env w o' = Some (Some e)" "w_tx w u = Some tx" "tx_txn tx = Some p"
    "m_txns (w_mdb w) p = Some txn" "\<not> mt_rdonly txn" "mt_dirty txn" "\<not> mt_error txn" "mt_env txn = e"
    "m_envs (w_mdb w) e = Some env" "me_flags env = 0" "os_write_rc os \<noteq> 0"
  shows "\<exists>w1 w2 w3 u2. LmdbTx_Commit E os (call_with w [TUserdata u]) = ret (os_write_rc os, 0, w1)
     \<and> LmdbEnv_BeginTx E os (call_with w1 [TUserdata o']) = ret (1, w2)
     \<and> u2 \<noteq> u \<and> w_tx w2 u2 = Some \<lparr>tx_txn = Some p, tx_dbi = 1\<rparr> \<and> live (w_mdb w2) p e
     \<and> LmdbTx_Close E (call_with w2 [TUserdata u]) = ret (0, w3)
     \<and> w_tx w3 u2 = Some \<lparr>tx_txn = Some p, tx_dbi = 1\<rparr> \<and> \<not> live (w_mdb w3) p e"
proof -
  have ok: "world_ok w" by (rule lmdb_run_ok[OF assms(1)])
  have mok: "mdb_ok (w_mdb w)" by (rule world_ok_mdb[OF ok])
  obtain me mt where lua: "lua_ok w me mt" using world_ok_lua[OF ok] by blast
  obtain o1 e1 t es where r: "w_env w o1 = Some (Some e1)" "live (w_mdb w) p e1" "ref_of w e1 t es" "u \<in> owners es"
    using world_ok_tx[OF ok assms(3,4)] by blast
  have e1: "e1 = e" and run: "me_txn env = Some p" using r(2) assms(5,6,9,10) by (auto simp: live_def)
  have txn0: "me_txn0 env = Some p" using mdb_ok_env[OF mok assms(10)] run by (auto simp: env_ok_def)
  let ?env = "env\<lparr>me_txn := None, me_wmutex := False\<rparr>"
  let ?m = "env_set (w_mdb w) e ?env"
  have ab: "mdb_txn_abort (w_mdb w) (Some p) = ret ?m"
    using abort_writer[OF mok assms(5,6)] assms(9,10) run by simp
  have keep: "keeps (w_mdb w) p ?m" using abort_keeps[OF mok r(2)] ab by auto
  have cm: "mdb_txn_commit (w_mdb w) (os_write_rc os) (Some p) = ret (os_write_rc os, ?m)"
    using assms(5-12) run ab by (simp add: mdb_txn_commit_def txn_at_def env_at_def Let_def)
  let ?w1 = "w\<lparr>w_L := released w t es u, w_mdb := ?m\<rparr>" and ?wn = "set_tx (w\<lparr>w_L := released w t es u, w_mdb := ?m\<rparr>) u (tx\<lparr>tx_txn := None\<rparr>)"
  have commit: "LmdbTx_Commit E os (call_with w [TUserdata u]) = ret (os_write_rc os, 0, ?w1)"
    using Commit_effect[OF lua assms(3-5) _ cm, of t es E] r(3) assms(9,12) e1 by simp
  have okn: "world_ok ?wn" using release_ok[OF ok assms(3,4) r keep] .
  have eqn: "w_L ?wn = w_L ?w1" "w_mdb ?wn = ?m" "w_env ?wn = w_env w" "w_tx ?wn = (w_tx w)(u \<mapsto> tx\<lparr>tx_txn := None\<rparr>)"
    by (simp_all add: set_tx_def)
  obtain men mtn where luan: "lua_ok ?wn men mtn" using world_ok_lua[OF okn] by blast
  have own: "w_env ?wn o' = Some (Some e)" using assms(2) eqn(3) by simp
  obtain t1 es1 where ref1: "ref_of ?wn e t1 es1" using world_ok_env[OF okn own] by blast
  have c1: "lua_ok ?w1 men mtn" "ref_of ?w1 = ref_of ?wn"
    using lua_side_cong[of ?w1 ?wn] luan by (auto simp: eqn)
  obtain m2 env2 where b: "mdb_txn_begin ?m e 0 = ret (0, Some p, m2)"
      "m_txns m2 p = Some (txn\<lparr>mt_error := False, mt_dirty := False\<rparr>)" "m_envs m2 e = Some env2" "me_txn env2 = Some p"
    using begin_writer[of ?m p txn e ?env] assms(5,6,9,11) txn0 by (auto simp: env_set_def)
  have mokn: "mdb_ok ?m" using keep unfolding keeps_def by blast
  have k: "keeps ?m p m2" "live m2 p e" "\<forall>e'. \<not> live ?m p e'" using begin_keeps[OF mokn b(1)] by blast+
  have mok2: "mdb_ok m2" and se2: "same_envs ?m m2" using k(1) unfolding keeps_def by blast+
  let ?v = "G_next (w_L ?w1)" and ?L2 = "begun ?w1 t1 es1 mtn [TUserdata o']"
  let ?w2 = "?w1\<lparr>w_L := ?L2, w_mdb := m2, w_tx := (w_tx w)(?v \<mapsto> \<lparr>tx_txn = Some p, tx_dbi = 1\<rparr>)\<rparr>"
  let ?wm = "?wn\<lparr>w_L := begun ?wn t1 es1 mtn [TUserdata o'], w_mdb := m2, w_tx := (w_tx ?wn)(?v \<mapsto> \<lparr>tx_txn = Some p, tx_dbi = 1\<rparr>)\<rparr>"
  have again: "LmdbEnv_BeginTx E os (call_with ?w1 [TUserdata o']) = ret (1, ?w2)"
    using Begin_effect[OF c1(1), of o' e t1 es1 False p m2 E os] assms(2) ref1 c1(2) b(1) k(2) se2 by (simp add: begin_args_def)
  have okm: "world_ok ?wm"
    using begin_ok[OF okn luan own ref1, of p m2 "[TUserdata o']"] k eqn by simp
  have uv: "u \<noteq> ?v" using luan eqn unfolding lua_ok_def by (metis fun_upd_same less_irrefl option.distinct(1))
  have L2: "begun ?wn t1 es1 mtn [TUserdata o'] = ?L2" using eqn(1) by (simp add: begun_def)
  obtain me2 mt2 where lua2: "lua_ok ?wm me2 mt2" using world_ok_lua[OF okm] by blast
  have own2: "w_env ?wm o' = Some (Some e)" using own by simp
  obtain t2 es2 where ref2: "ref_of ?wm e t2 es2" using world_ok_env[OF okm own2] by blast
  have c2: "lua_ok ?w2 me2 mt2" "ref_of ?w2 = ref_of ?wm"
    using lua_side_cong[of ?w2 ?wm] lua2 by (auto simp: eqn L2)
  let ?m3 = "env_set m2 e (env2\<lparr>me_txn := None, me_wmutex := False\<rparr>)"
  have ab2: "mdb_txn_abort m2 (Some p) = ret ?m3"
    using abort_writer[OF mok2 b(2)] assms(6,9) b(3,4) by simp
  have tx2: "w_tx ?w2 u = Some tx" using assms(3) uv by simp
  have close: "LmdbTx_Close E (call_with ?w2 [TUserdata u])
      = ret (0, set_tx (?w2\<lparr>w_L := released ?w2 t2 es2 u, w_mdb := ?m3\<rparr>) u (tx\<lparr>tx_txn := None\<rparr>))"
    using Close_effect[OF c2(1) tx2 assms(4), of _ t2 es2 ?m3 E] b(2) ref2 c2(2) ab2 assms(9) by simp
  have "\<not> live ?m3 p e" using b(2) assms(6) by (simp add: live_def env_set_def)
  then show ?thesis
    using commit again close k(2) uv
    by (intro exI[of _ ?w1] exI[of _ ?w2] exI[of _ "set_tx (?w2\<lparr>w_L := released ?w2 t2 es2 u, w_mdb := ?m3\<rparr>) u (tx\<lparr>tx_txn := None\<rparr>)"]
        exI[of _ ?v]) (simp add: set_tx_def)
qed

theorem failed_commit_aborts_next_witness:
  "\<exists>w w1 w2 w3 u o' u2. lmdb_run example_env w
     \<and> LmdbTx_Commit example_env example_os (call_with w [TUserdata u]) = ret (28, 0, w1)
     \<and> LmdbEnv_BeginTx example_env example_os (call_with w1 [TUserdata o']) = ret (1, w2)
     \<and> w_tx w2 u2 = Some \<lparr>tx_txn = Some 1, tx_dbi = 1\<rparr> \<and> live (w_mdb w2) 1 0
     \<and> LmdbTx_Close example_env (call_with w2 [TUserdata u]) = ret (0, w3) \<and> \<not> live (w_mdb w3) 1 0"
proof -
  obtain w u tx o' env where w: "lmdb_run example_env w" "w_env w o' = Some (Some 0)" "w_tx w u = Some tx" "tx_txn tx = Some 1"
    and txn: "m_txns (w_mdb w) 1 = Some \<lparr>mt_env = 0, mt_rdonly = False, mt_error = False, mt_dirty = False, mt_reader = False\<rparr>"
    and env: "m_envs (w_mdb w) 0 = Some env" "me_flags env = 0"
    using example_run by blast
  let ?w = "w\<lparr>w_mdb := txn_set (w_mdb w) 1 \<lparr>mt_env = 0, mt_rdonly = False, mt_error = False, mt_dirty = True, mt_reader = False\<rparr>\<rparr>"
  have run: "lmdb_run example_env ?w" using lmdb_run.tx_write[OF w(1) txn] by simp
  have "\<exists>w1 w2 w3 u2. LmdbTx_Commit example_env example_os (call_with ?w [TUserdata u]) = ret (os_write_rc example_os, 0, w1)
     \<and> LmdbEnv_BeginTx example_env example_os (call_with w1 [TUserdata o']) = ret (1, w2)
     \<and> u2 \<noteq> u \<and> w_tx w2 u2 = Some \<lparr>tx_txn = Some 1, tx_dbi = 1\<rparr> \<and> live (w_mdb w2) 1 0
     \<and> LmdbTx_Close example_env (call_with w2 [TUserdata u]) = ret (0, w3)
     \<and> w_tx w3 u2 = Some \<lparr>tx_txn = Some 1, tx_dbi = 1\<rparr> \<and> \<not> live (w_mdb w3) 1 0"
    by (rule failed_commit_aborts_next[OF run, where tx = tx and env = env
        and txn = "\<lparr>mt_env = 0, mt_rdonly = False, mt_error = False, mt_dirty = True, mt_reader = False\<rparr>"])
      (use w env in \<open>simp_all add: txn_set_def example_os_def\<close>)
  moreover have "os_write_rc example_os = 28" by (simp add: example_os_def)
  ultimately show ?thesis using run by metis
qed

subsection \<open>The finaliser of an order cursor\<close>

text \<open>The finaliser of order cursors never closes one: it looks for the cursor in an upvalue, and
  the collector calls it as a function without upvalues, so each collected cursor raises "bad
  argument" from within the collector and leaks the LMDB cursor and its key prefix.\<close>

theorem Lmdb_OrderClose_never_closes:
  assumes "L_upvalue (w_L w) = []"
  shows "Lmdb_OrderClose E w = lua_throw ''bad argument''"
  using assms
  by (simp add: Lmdb_OrderClose_def on_L2_def luaL_checkudata_def luaL_testudata_def lua_touserdata_def value_at_def
      index2addr_def lua_upvalueindex_def LUA_REGISTRYINDEX_def Let_def lua_throw_def)

theorem Lmdb_OrderClose_never_closes_witness:
  "Lmdb_OrderClose example_env (lib_world example_lua) = lua_throw ''bad argument''"
  by (rule Lmdb_OrderClose_never_closes) (simp add: lib_world_def example_lua_def)

end
