(* ===== verification/JsonLua.thy ===== *)
theory JsonLua
  imports JsonRoundtrip LuaApiLemmas
begin

text \<open>
  The Lua library \<open>json\<close> of \<open>src/src/json.c\<close>: from JSON text to Lua tables and back, on the stack
  of the theory LuaApi and with the parser and printer of the theories JsonParse and JsonEmit.

  The conversions of a double are collected in \<open>'d json_c\<close>. The recursion of \<open>LuaValueToJson\<close> over
  nested tables carries a fuel argument; \<open>JsonEncodePrivate\<close> passes one more than there are
  tables, and a table inside itself is an error, so it is enough. A node that was not made (a
  value of a type JSON does not have) is the C code's NULL, \<open>None\<close> here.
\<close>

record 'd json_c =
  jc_of_integer :: "lua_Integer \<Rightarrow> 'd"
  jc_to_integer :: "'d \<Rightarrow> lua_Integer"
  jc_diff_zero :: "'d \<Rightarrow> 'd \<Rightarrow> bool"
  jc_fmt_f :: "'d \<Rightarrow> bytes"
  jc_fmt :: "'d \<Rightarrow> bytes"
  jc_strtod :: "bytes \<Rightarrow> 'd"

definition JSON_ARRAY_METAFIELD :: bytes where "JSON_ARRAY_METAFIELD = str ''_json_array''"
definition JSON_REF_TABLE_IDX :: int where "JSON_REF_TABLE_IDX = 1"
definition JSON_STRING_KEY_DIGITS :: nat where "JSON_STRING_KEY_DIGITS = 15"

subsection \<open>Arrays\<close>

definition SetTableAsJsonArray :: "'d lua_env \<Rightarrow> 'd lua_State \<Rightarrow> int \<Rightarrow> 'd lua_State exec" where
  "SetTableAsJsonArray E L idx =
     xbind (lua_getmetatable L idx) (\<lambda>(has, L).
     let L = (if has then L else lua_createtable L)
     in xbind (lua_pushstring L (Some (JSON_ARRAY_METAFIELD @ [0]))) (\<lambda>L.
        xbind (lua_settable E (lua_pushboolean L True) (- 3)) (\<lambda>L.
        lua_setmetatable L (if idx < 0 then idx - 1 else idx))))"

definition LuaTableIsJsonArray :: "'d lua_env \<Rightarrow> 'd lua_State \<Rightarrow> int \<Rightarrow> (bool \<times> 'd lua_State) exec" where
  "LuaTableIsJsonArray E L idx =
     xbind (luaL_getmetafield E L idx JSON_ARRAY_METAFIELD) (\<lambda>(t, L).
     if t \<noteq> LUA_TNIL then xbind (lua_pop L 1) (\<lambda>L. ret (True, L)) else ret (False, L))"

subsection \<open>From JSON to Lua\<close>

text \<open>Where a node hangs: \<open>json->parent\<close> with its tag, and the key in an object.\<close>

datatype json_parent = No_Parent | In_Array | In_Object bytes

definition need_key :: "'d lua_State \<Rightarrow> json_parent \<Rightarrow> bool exec" where
  "need_key L p = (if p = No_Parent then ret False else lua_istable L (- 1))"

definition push_key :: "json_parent \<Rightarrow> nat \<Rightarrow> 'd lua_State \<Rightarrow> 'd lua_State exec" where
  "push_key p i L =
     (case p of
        No_Parent \<Rightarrow> ret L
      | In_Array \<Rightarrow> ret (lua_pushinteger L (of_nat i))
      | In_Object k \<Rightarrow> lua_pushstring L (Some (k @ [0])))"

text \<open>What \<open>JsonToLuaValuePrivate\<close> does before and after pushing the value.\<close>

definition with_key ::
  "'d lua_env \<Rightarrow> json_parent \<Rightarrow> nat \<Rightarrow> 'd lua_State \<Rightarrow> (nat \<Rightarrow> 'd lua_State \<Rightarrow> 'd lua_State exec) \<Rightarrow> 'd lua_State exec" where
  "with_key E p i L push =
     xbind (need_key L p) (\<lambda>need.
     xbind (if need then push_key p i L else ret L) (\<lambda>L.
     xbind (push (if need \<and> p = In_Array then 1 else i) L) (\<lambda>L.
     if need then lua_settable E L (- 3) else ret L)))"

fun JsonToLuaValuePrivate :: "'d lua_env \<Rightarrow> json_parent \<Rightarrow> 'd json \<Rightarrow> nat \<Rightarrow> 'd lua_State \<Rightarrow> 'd lua_State exec"
  and JsonToLua_elems :: "'d lua_env \<Rightarrow> 'd json list \<Rightarrow> nat \<Rightarrow> 'd lua_State \<Rightarrow> 'd lua_State exec"
  and JsonToLua_members :: "'d lua_env \<Rightarrow> (bytes \<times> 'd json) list \<Rightarrow> 'd lua_State \<Rightarrow> 'd lua_State exec" where
  "JsonToLuaValuePrivate E p JNull i L = with_key E p i L (\<lambda>i L. ret (lua_pushnil L))"
| "JsonToLuaValuePrivate E p (JBool b) i L = with_key E p i L (\<lambda>i L. ret (lua_pushboolean L b))"
| "JsonToLuaValuePrivate E p (JString s) i L = with_key E p i L (\<lambda>i L. lua_pushstring L (Some (s @ [0])))"
| "JsonToLuaValuePrivate E p (JNumber d) i L = with_key E p i L (\<lambda>i L. ret (lua_pushnumber L d))"
| "JsonToLuaValuePrivate E p (JArray es) i L =
     with_key E p i L (\<lambda>i L.
       let L = lua_createtable L
       in xbind (SetTableAsJsonArray E L (lua_gettop L)) (\<lambda>L. JsonToLua_elems E es i L))"
| "JsonToLuaValuePrivate E p (JObject ms) i L =
     with_key E p i L (\<lambda>i L. JsonToLua_members E ms (lua_createtable L))"
| "JsonToLua_elems E [] i L = ret L"
| "JsonToLua_elems E (e # es) i L =
     xbind (JsonToLuaValuePrivate E In_Array e i L) (\<lambda>L. JsonToLua_elems E es (i + 1) L)"
| "JsonToLua_members E [] L = ret L"
| "JsonToLua_members E ((k, v) # ms) L =
     xbind (JsonToLuaValuePrivate E (In_Object k) v 1 L) (\<lambda>L. JsonToLua_members E ms L)"

definition JsonToLuaValue :: "'d lua_env \<Rightarrow> 'd json \<Rightarrow> 'd lua_State \<Rightarrow> 'd lua_State exec" where
  "JsonToLuaValue E j L = JsonToLuaValuePrivate E No_Parent j 1 L"

definition LuaDB_JsonDecode :: "'d json_c \<Rightarrow> 'd lua_env \<Rightarrow> 'd lua_State \<Rightarrow> (nat \<times> 'd lua_State) exec" where
  "LuaDB_JsonDecode C E L =
     xbind (lua_tolstring E L 1) (\<lambda>(s, L).
     case s of
       None \<Rightarrow> lua_throw ''bad argument''
     | Some s \<Rightarrow>
         xbind (json_decode (jc_strtod C) (s @ [0])) (\<lambda>json.
         case json of
           None \<Rightarrow> ret (1, lua_pushnil L)
         | Some json \<Rightarrow> xbind (JsonToLuaValue E json L) (\<lambda>L. ret (1, L))))"

subsection \<open>From Lua to JSON\<close>

text \<open>\<open>*v\<close> is only used when the result is true.\<close>

definition LuaDB_NumberIsInt :: "'d json_c \<Rightarrow> 'd \<Rightarrow> lua_Integer option" where
  "LuaDB_NumberIsInt C n =
     (let v = jc_to_integer C n in if jc_diff_zero C n (jc_of_integer C v) then Some v else None)"

text \<open>The key of a number: \<open>sprintf\<close> into the 15 bytes of \<open>numstr\<close>.\<close>

definition number_key :: "'d json_c \<Rightarrow> 'd \<Rightarrow> bytes exec" where
  "number_key C num =
     (let s = (case LuaDB_NumberIsInt C num of Some inum \<Rightarrow> int_dec (sint inum) | None \<Rightarrow> jc_fmt_f C num)
      in if length s + 1 \<le> JSON_STRING_KEY_DIGITS then ret s else throw Out_Of_Bounds)"

text \<open>\<open>lua_tonumberx\<close>, called only for values of type \<open>LUA_TNUMBER\<close>; strings are not converted here.\<close>

definition lua_tonumber :: "'d json_c \<Rightarrow> 'd lua_State \<Rightarrow> int \<Rightarrow> 'd option exec" where
  "lua_tonumber C L idx =
     xbind (value_at L idx) (\<lambda>v. ret (case v of TFloat d \<Rightarrow> Some d | TInteger i \<Rightarrow> Some (jc_of_integer C i) | _ \<Rightarrow> None))"

definition AddTableRef :: "'d lua_env \<Rightarrow> 'd lua_State \<Rightarrow> int \<Rightarrow> int \<Rightarrow> 'd lua_State exec" where
  "AddTableRef E L upvidx idx =
     xbind (lua_pushvalue L idx) (\<lambda>L. lua_settable E (lua_pushboolean L True) (lua_upvalueindex upvidx))"

definition IsRefCycle :: "'d lua_env \<Rightarrow> 'd lua_State \<Rightarrow> int \<Rightarrow> int \<Rightarrow> (bool \<times> 'd lua_State) exec" where
  "IsRefCycle E L upvidx idx =
     xbind (lua_pushvalue L idx) (\<lambda>L.
     xbind (lua_gettable E L (lua_upvalueindex upvidx)) (\<lambda>(t, L).
     xbind (lua_pop L 1) (\<lambda>L. ret (t \<noteq> LUA_TNIL, L))))"

definition RemoveTableRef :: "'d lua_env \<Rightarrow> 'd lua_State \<Rightarrow> int \<Rightarrow> int \<Rightarrow> 'd lua_State exec" where
  "RemoveTableRef E L upvidx idx =
     xbind (lua_pushvalue L idx) (\<lambda>L. lua_settable E (lua_pushnil L) (lua_upvalueindex upvidx))"

text \<open>The string a key becomes in an object.\<close>

definition table_key :: "'d json_c \<Rightarrow> 'd lua_env \<Rightarrow> 'd lua_State \<Rightarrow> int \<Rightarrow> (bytes \<times> 'd lua_State) exec" where
  "table_key C E L idx =
     xbind (lua_type_of L idx) (\<lambda>ktype.
     if ktype = LUA_TNUMBER then
       xbind (lua_tonumber C L idx) (\<lambda>num. xbind (number_key C (the num)) (\<lambda>key. ret (key, L)))
     else if ktype = LUA_TSTRING then
       xbind (luaL_tolstring E L idx) (\<lambda>(orig, L).
       xbind (lua_pop L 1) (\<lambda>L. case orig of None \<Rightarrow> throw Null_Deref | Some s \<Rightarrow> ret (s, L)))
     else lua_throw ''table keys may only be strings or numbers'')"

text \<open>The loop of \<open>LuaTableToJsonPrivate\<close>; \<open>convert\<close> is \<open>LuaValueToJson\<close>. \<open>json_append_member\<close> copies the
  key up to its first NUL.\<close>

partial_function (option) LuaTableToJson_loop ::
  "('d lua_State \<Rightarrow> ('d json option \<times> 'd lua_State) exec) \<Rightarrow> 'd json_c \<Rightarrow> 'd lua_env \<Rightarrow> int \<Rightarrow> bool
     \<Rightarrow> (bytes \<times> 'd json) list \<Rightarrow> 'd lua_State \<Rightarrow> ((bytes \<times> 'd json) list \<times> 'd lua_State) exec" where
  "LuaTableToJson_loop convert C E idx as_array children L =
     xbind (lua_next E L idx) (\<lambda>(more, L).
     if \<not> more then ret (children, L)
     else
       xbind (table_key C E L (idx + 1)) (\<lambda>(key, L).
       xbind (convert L) (\<lambda>(child, L).
       xbind (lua_pop L 1) (\<lambda>L.
       case child of
         None \<Rightarrow> throw Null_Deref
       | Some child \<Rightarrow>
           LuaTableToJson_loop convert C E idx as_array
             (children @ [(if as_array then [] else takeWhile (\<lambda>c. c \<noteq> 0) key, child)]) L))))"

definition LuaTableToJsonPrivate ::
  "('d lua_State \<Rightarrow> ('d json option \<times> 'd lua_State) exec) \<Rightarrow> 'd json_c \<Rightarrow> 'd lua_env \<Rightarrow> 'd lua_State \<Rightarrow> int
     \<Rightarrow> ('d json \<times> 'd lua_State) exec" where
  "LuaTableToJsonPrivate convert C E L idx =
     xbind (LuaTableIsJsonArray E L idx) (\<lambda>(as_array, L).
     xbind (LuaTableToJson_loop convert C E idx as_array [] (lua_pushnil L)) (\<lambda>(children, L).
     ret (if as_array then JArray (map snd children) else JObject children, L)))"

fun LuaValueToJson :: "'d json_c \<Rightarrow> 'd lua_env \<Rightarrow> nat \<Rightarrow> 'd lua_State \<Rightarrow> ('d json option \<times> 'd lua_State) exec" where
  "LuaValueToJson C E 0 L = None"
| "LuaValueToJson C E (Suc n) L =
     (let top = lua_gettop L
      in xbind (lua_type_of L top) (\<lambda>type.
         if type = LUA_TTABLE then
           xbind (IsRefCycle E L JSON_REF_TABLE_IDX top) (\<lambda>(cycle, L).
           if cycle then lua_throw ''reference cycle detected in table''
           else
             xbind (AddTableRef E L JSON_REF_TABLE_IDX top) (\<lambda>L.
             xbind (LuaTableToJsonPrivate (LuaValueToJson C E n) C E L top) (\<lambda>(json, L).
             xbind (RemoveTableRef E L JSON_REF_TABLE_IDX top) (\<lambda>L. ret (Some json, L)))))
         else if type = LUA_TSTRING then
           xbind (luaL_tolstring E L top) (\<lambda>(s, L).
           case s of
             None \<Rightarrow> throw Null_Deref
           | Some s \<Rightarrow> xbind (lua_pop L 1) (\<lambda>L. ret (Some (JString (takeWhile (\<lambda>c. c \<noteq> 0) s)), L)))
         else if type = LUA_TNUMBER then
           xbind (lua_tonumber C L top) (\<lambda>num. ret (map_option JNumber num, L))
         else if type = LUA_TBOOLEAN then xbind (lua_toboolean L top) (\<lambda>b. ret (Some (JBool b), L))
         else if type = LUA_TNIL then ret (Some JNull, L)
         else ret (None, L)))"

definition JsonEncodePrivate :: "'d json_c \<Rightarrow> 'd lua_env \<Rightarrow> 'd lua_State \<Rightarrow> (nat \<times> 'd lua_State) exec" where
  "JsonEncodePrivate C E L =
     xbind (LuaValueToJson C E (G_next L + 1) L) (\<lambda>(json, L).
     case json of
       None \<Rightarrow> throw Null_Deref
     | Some json \<Rightarrow>
         xbind (json_encode (jc_fmt C) json) (\<lambda>s.
         xbind (lua_pushstring L (Some (s @ [0]))) (\<lambda>L. ret (1, L))))"

text \<open>The closure gets the topmost value as its argument and a new table as its upvalue.\<close>

definition LuaDB_JsonEncode :: "'d json_c \<Rightarrow> 'd lua_env \<Rightarrow> 'd lua_State \<Rightarrow> (nat \<times> 'd lua_State) exec" where
  "LuaDB_JsonEncode C E L =
     (let upvalue = TTable (G_next L); L = lua_createtable L
      in case tl (L_stack L) of
           [] \<Rightarrow> throw Out_Of_Bounds
         | arg # s \<Rightarrow>
             xbind (JsonEncodePrivate C E (L\<lparr>L_stack := [arg], L_upvalue := [upvalue]\<rparr>)) (\<lambda>(n, L').
             xbind (value_at L' (- 1)) (\<lambda>r. ret (1, L'\<lparr>L_stack := r # s, L_upvalue := L_upvalue L\<rparr>))))"

subsection \<open>The other functions\<close>

definition LuaDB_JsonIsArray :: "'d lua_env \<Rightarrow> 'd lua_State \<Rightarrow> (nat \<times> 'd lua_State) exec" where
  "LuaDB_JsonIsArray E L =
     xbind (lua_istable L 1) (\<lambda>istable.
     if \<not> istable then ret (1, lua_pushboolean L False)
     else xbind (LuaTableIsJsonArray E L 1) (\<lambda>(isarray, L). ret (1, lua_pushboolean L isarray)))"

definition LuaDB_JsonMakeArray :: "'d lua_env \<Rightarrow> 'd lua_State \<Rightarrow> (nat \<times> 'd lua_State) exec" where
  "LuaDB_JsonMakeArray E L =
     xbind (lua_istable L 1) (\<lambda>istable.
     if \<not> istable then lua_throw ''can only make tables into JSON arrays''
     else xbind (SetTableAsJsonArray E L 1) (\<lambda>L. ret (0, L)))"

definition json_lib_funcs :: "(bytes \<times> nat) list" where
  "json_lib_funcs = [(str ''decode'', 40), (str ''encode'', 41), (str ''isarray'', 42), (str ''makearray'', 43)]"

definition LuaDB_JsonAddLib :: "'d lua_env \<Rightarrow> 'd lua_State \<Rightarrow> 'd lua_State exec" where
  "LuaDB_JsonAddLib E L =
     xbind (luaL_setfuncs E (lua_createtable L) json_lib_funcs) (\<lambda>L. lua_setglobal E L (str ''json''))"

end
