(* ===== verification/JsonLuaDecode.thy ===== *)
theory JsonLuaDecode
  imports JsonLua
begin

text \<open>
  What \<open>JsonToLuaValue\<close> builds. \<open>rep H lo hi v j\<close> says that the Lua value \<open>v\<close> in the heap \<open>H\<close> is the
  JSON tree \<open>j\<close>, in tables of addresses \<open>lo\<close> to \<open>hi - 1\<close>, each parent before its children.
\<close>

subsection \<open>JSON trees in the heap\<close>

definition array_meta :: "('d tvalue \<times> 'd tvalue) list" where
  "array_meta = [(TString JSON_ARRAY_METAFIELD, TBoolean True)]"

definition array_keys :: "nat \<Rightarrow> 'd tvalue list" where
  "array_keys n = map (\<lambda>i. TInteger (of_nat i)) [1..<n + 1]"

inductive rep :: "(nat \<Rightarrow> 'd ltable option) \<Rightarrow> nat \<Rightarrow> nat \<Rightarrow> 'd tvalue \<Rightarrow> 'd json \<Rightarrow> bool" for H where
  rep_null: "rep H lo hi TNil JNull"
| rep_bool: "rep H lo hi (TBoolean b) (JBool b)"
| rep_string: "rep H lo hi (TString s) (JString s)"
| rep_number: "rep H lo hi (TFloat d) (JNumber d)"
| rep_object: "H t = Some \<lparr>t_node = es, t_metatable = None\<rparr> \<Longrightarrow> lo \<le> t \<Longrightarrow> t < hi
     \<Longrightarrow> list_all2 (\<lambda>e m. fst e = TString (fst m) \<and> rep H (Suc t) hi (snd e) (snd m)) es ms
     \<Longrightarrow> rep H lo hi (TTable t) (JObject ms)"
| rep_array: "H t = Some \<lparr>t_node = es, t_metatable = Some mt\<rparr> \<Longrightarrow> H mt = Some \<lparr>t_node = array_meta, t_metatable = None\<rparr>
     \<Longrightarrow> lo \<le> t \<Longrightarrow> t < mt \<Longrightarrow> mt < hi
     \<Longrightarrow> list_all2 (\<lambda>e m. fst e = fst m \<and> rep H (Suc t) hi (snd e) (snd m)) es (zip (array_keys (length js)) js)
     \<Longrightarrow> rep H lo hi (TTable t) (JArray js)"

inductive_simps rep_simps [simp]:
  "rep H lo hi v JNull" "rep H lo hi v (JBool b)" "rep H lo hi v (JString s)" "rep H lo hi v (JNumber d)"
inductive_cases rep_objectE: "rep H lo hi v (JObject ms)"
inductive_cases rep_arrayE: "rep H lo hi v (JArray js)"

lemma rep_null_iff: "rep H lo hi v j \<Longrightarrow> v = TNil \<longleftrightarrow> j = JNull"
  by (cases rule: rep.cases) auto

lemma rep_frame:
  "rep H lo hi v j \<Longrightarrow> (\<And>a. lo \<le> a \<Longrightarrow> a < hi \<Longrightarrow> H' a = H a) \<Longrightarrow> lo' \<le> lo \<Longrightarrow> hi \<le> hi' \<Longrightarrow> rep H' lo' hi' v j"
proof (induction arbitrary: lo' rule: rep.induct)
  case (rep_object t es lo hi ms)
  have "list_all2 (\<lambda>e m. fst e = TString (fst m) \<and> rep H' (Suc t) hi' (snd e) (snd m)) es ms"
    using rep_object.IH rep_object.prems rep_object.hyps(2) by (auto elim!: list_all2_mono)
  then show ?case using rep_object by (intro rep.rep_object[of H' t es]) auto
next
  case (rep_array t es mt lo hi js)
  have "list_all2 (\<lambda>e m. fst e = fst m \<and> rep H' (Suc t) hi' (snd e) (snd m)) es (zip (array_keys (length js)) js)"
    using rep_array.IH rep_array.prems rep_array.hyps(3) by (auto elim!: list_all2_mono)
  then show ?case using rep_array by (intro rep.rep_array[of H' t es mt]) auto
qed (auto intro: rep.intros)

text \<open>The tree a Lua table can hold: of members with the same key the last value counts.\<close>

fun dedup :: "'d json \<Rightarrow> 'd json"
  and dedup_elems :: "'d json list \<Rightarrow> 'd json list"
  and dedup_members :: "(bytes \<times> 'd json) list \<Rightarrow> (bytes \<times> 'd json) list" where
  "dedup JNull = JNull"
| "dedup (JBool b) = JBool b"
| "dedup (JString s) = JString s"
| "dedup (JNumber d) = JNumber d"
| "dedup (JArray es) = JArray (dedup_elems es)"
| "dedup (JObject ms) = JObject (fold (\<lambda>(k, v). alist_set k v) (dedup_members ms) [])"
| "dedup_elems [] = []"
| "dedup_elems (e # es) = dedup e # dedup_elems es"
| "dedup_members [] = []"
| "dedup_members ((k, v) # ms) = (k, dedup v) # dedup_members ms"

subsection \<open>Pushing a value\<close>

definition fresh_heap :: "'d lua_State \<Rightarrow> bool" where
  "fresh_heap L \<longleftrightarrow> (\<forall>a. G_next L \<le> a \<longrightarrow> G_heap L a = None)"

text \<open>\<open>L'\<close> is \<open>L\<close> with \<open>v\<close> pushed and new tables.\<close>

definition pushes :: "'d lua_State \<Rightarrow> 'd tvalue \<Rightarrow> 'd lua_State \<Rightarrow> bool" where
  "pushes L v L' \<longleftrightarrow> L' = L\<lparr>L_stack := v # L_stack L, G_heap := G_heap L', G_next := G_next L'\<rparr>
     \<and> G_next L \<le> G_next L' \<and> fresh_heap L' \<and> (\<forall>a < G_next L. G_heap L' a = G_heap L a)"

lemma pushes_same: "fresh_heap L \<Longrightarrow> pushes L v (api_incr_top v L)"
  by (simp add: pushes_def fresh_heap_def api_incr_top_def)

text \<open>The value part of \<open>JsonToLuaValuePrivate\<close>.\<close>

definition push_value :: "'d lua_env \<Rightarrow> 'd json \<Rightarrow> nat \<Rightarrow> 'd lua_State \<Rightarrow> 'd lua_State exec" where
  "push_value E j i L =
     (case j of
        JNull \<Rightarrow> ret (lua_pushnil L)
      | JBool b \<Rightarrow> ret (lua_pushboolean L b)
      | JString s \<Rightarrow> lua_pushstring L (Some (s @ [0]))
      | JNumber d \<Rightarrow> ret (lua_pushnumber L d)
      | JArray es \<Rightarrow>
          let L = lua_createtable L
          in xbind (SetTableAsJsonArray E L (lua_gettop L)) (\<lambda>L. JsonToLua_elems E es i L)
      | JObject ms \<Rightarrow> JsonToLua_members E ms (lua_createtable L))"

lemma ValuePrivate_push: "JsonToLuaValuePrivate E p j i L = with_key E p i L (push_value E j)"
  by (cases j) (simp_all add: push_value_def[abs_def])

text \<open>A table whose metatable, if any, is the mark of an array.\<close>

definition marked :: "'d lua_State \<Rightarrow> 'd ltable \<Rightarrow> bool" where
  "marked L h \<longleftrightarrow> (case t_metatable h of None \<Rightarrow> True
     | Some m \<Rightarrow> G_heap L m = Some \<lparr>t_node = array_meta, t_metatable = None\<rparr>)"

lemma settable_marked:
  assumes "G_heap L t = Some h" "marked L h" "\<forall>d. k \<noteq> TFloat d" "k \<noteq> TNil"
  shows "luaV_settable E L (TTable t) k v = ret (heap_set L t (h\<lparr>t_node := alist_set k v (t_node h)\<rparr>))"
proof (cases "t_metatable h")
  case None
  then show ?thesis using settable_eval[OF assms(1) _ assms(3,4)] by simp
next
  case (Some m)
  have "(str ''__newindex'' :: bytes) \<noteq> JSON_ARRAY_METAFIELD" by (simp add: JSON_ARRAY_METAFIELD_def str_def)
  then have tm: "luaT_gettmbyobj E L (TTable t) ''__newindex'' = ret TNil"
    using assms(1,2) Some by (simp add: luaT_gettmbyobj_def metatable_of_def hvalue_def marked_def array_meta_def)
  have "luaH_set E h k v = ret (h\<lparr>t_node := alist_set k v (t_node h)\<rparr>)"
    using assms(3,4) by (cases k) (simp_all add: luaH_set_def)
  then show ?thesis
    using tm assms(1) by (simp add: luaV_settable_def MAXTAGLOOP_def numeral_eq_Suc hvalue_def Let_def)
qed

text \<open>The state after a field of the table at the top was set.\<close>

definition fielded :: "'d lua_State \<Rightarrow> nat \<Rightarrow> 'd ltable \<Rightarrow> 'd tvalue \<Rightarrow> 'd tvalue \<Rightarrow> 'd lua_State \<Rightarrow> 'd lua_State" where
  "fielded L t h key v L2 =
     L\<lparr>G_heap := (G_heap L2)(t \<mapsto> h\<lparr>t_node := alist_set key v (t_node h)\<rparr>), G_next := G_next L2\<rparr>"

lemma with_key_effect:
  assumes "L_stack L = TTable t # s" "G_heap L t = Some h" "marked L h" "fresh_heap L"
    and key: "p = In_Array \<and> key = TInteger (of_nat i) \<or> (\<exists>k. p = In_Object k \<and> key = TString k \<and> 0 \<notin> set k \<and> i = 1)"
    and push: "push 1 (api_incr_top key L) = ret L2" "pushes (api_incr_top key L) v L2"
  shows "with_key E p i L push = ret (fielded L t h key v L2)"
proof -
  have alive: "a < G_next L" if "G_heap L a = Some x" for a x
    using that assms(4) by (cases "a < G_next L") (auto simp: fresh_heap_def)
  have p: "L2 = (api_incr_top key L)\<lparr>L_stack := v # L_stack (api_incr_top key L), G_heap := G_heap L2, G_next := G_next L2\<rparr>"
    using push(2) unfolding pushes_def by blast
  have p2: "\<forall>a < G_next L. G_heap L2 a = G_heap L a"
    using push(2) unfolding pushes_def stack_push by blast
  obtain H n where L2: "L2 = L\<lparr>L_stack := v # key # TTable t # s, G_heap := H, G_next := n\<rparr>"
    using p assms(1) by (metis api_incr_top_def lua_State.update_convs(1) stack_push(1) stack_update(2))
  have H: "H t = Some h" "marked L2 h"
    using p2 assms(2,3) alive unfolding L2 by (auto simp: marked_def split: option.splits)
  have nk: "\<forall>d. key \<noteq> TFloat d" "key \<noteq> TNil" using key by auto
  have "G_heap L2 t = Some h" using H(1) by (simp add: L2)
  from settable_marked[OF this H(2) nk, of E v]
  have set: "lua_settable E L2 (- 3) = ret (fielded L t h key v L2)"
    using assms(1) by (simp add: lua_settable_def value_at_neg heap_set_def fielded_def L2)
  have "push_key p i L = ret (api_incr_top key L)" "need_key L p = ret True" "(if p = In_Array then 1 else i) = 1"
    using key assms(1) by (auto simp: push_key_def need_key_def lua_pushinteger_def lua_simps lua_istable_def)
  then show ?thesis using push(1) set by (simp add: with_key_def)
qed

subsection \<open>Filling a table\<close>

text \<open>The table at the top holds the values of \<open>ms\<close>; only it and new tables differ from \<open>L\<close>.\<close>

definition table_state :: "'d lua_State \<Rightarrow> nat \<Rightarrow> 'd tvalue list \<Rightarrow> ('d tvalue \<times> 'd json) list \<Rightarrow> bool" where
  "table_state L t s ms \<longleftrightarrow> fresh_heap L \<and> L_stack L = TTable t # s
     \<and> (\<exists>h. G_heap L t = Some h \<and> marked L h
          \<and> list_all2 (\<lambda>e m. fst e = fst m \<and> rep (G_heap L) (Suc t) (G_next L) (snd e) (snd m)) (t_node h) ms)"

definition extends :: "'d lua_State \<Rightarrow> nat \<Rightarrow> 'd lua_State \<Rightarrow> bool" where
  "extends L t L' \<longleftrightarrow> L' = L\<lparr>G_heap := G_heap L', G_next := G_next L'\<rparr> \<and> G_next L \<le> G_next L'
     \<and> (\<forall>a < G_next L. a \<noteq> t \<longrightarrow> G_heap L' a = G_heap L a)
     \<and> map_option t_metatable (G_heap L' t) = map_option t_metatable (G_heap L t)"

lemma extends_refl: "extends L t L"
  by (simp add: extends_def)

lemma extends_trans:
  assumes "extends L t L'" "extends L' t L''"
  shows "extends L t L''"
proof -
  obtain H n where 1: "L' = L\<lparr>G_heap := H, G_next := n\<rparr>" using assms(1) unfolding extends_def by blast
  obtain H' n' where 2: "L'' = L'\<lparr>G_heap := H', G_next := n'\<rparr>" using assms(2) unfolding extends_def by blast
  show ?thesis using assms unfolding extends_def 1 2 by simp
qed

lemma list_all2_alist_set:
  "list_all2 (\<lambda>e m. fst e = fst m \<and> R (snd e) (snd m)) es ms \<Longrightarrow> R v j
     \<Longrightarrow> list_all2 (\<lambda>e m. fst e = fst m \<and> R (snd e) (snd m)) (alist_set k v es) (alist_set k j ms)"
  by (induction es ms rule: list_all2_induct) auto

lemma store_step:
  assumes st: "table_state L t s ms" and h: "G_heap L t = Some h"
    and push: "pushes (api_incr_top key L) v L2" "rep (G_heap L2) (G_next L) (G_next L2) v j"
  shows "extends L t (fielded L t h key v L2) \<and> table_state (fielded L t h key v L2) t s (alist_set key j ms)"
proof -
  let ?L = "fielded L t h key v L2" and ?h = "h\<lparr>t_node := alist_set key v (t_node h)\<rparr>"
  have st': "fresh_heap L" "L_stack L = TTable t # s" "marked L h"
      "list_all2 (\<lambda>e m. fst e = fst m \<and> rep (G_heap L) (Suc t) (G_next L) (snd e) (snd m)) (t_node h) ms"
    using st h unfolding table_state_def by auto
  have alive: "a < G_next L" if "G_heap L a = Some x" for a x
    using that st'(1) by (cases "a < G_next L") (auto simp: fresh_heap_def)
  have p: "G_next L \<le> G_next L2" "fresh_heap L2" "\<And>a. a < G_next L \<Longrightarrow> G_heap L2 a = G_heap L a"
    using push(1) unfolding pushes_def stack_push by blast+
  have L: "G_heap ?L = (G_heap L2)(t \<mapsto> ?h)" "G_next ?L = G_next L2" "L_stack ?L = L_stack L"
    by (simp_all add: fielded_def)
  have tn: "t < G_next L" using alive h .
  have old: "G_heap ?L a = G_heap L a" if "a < G_next L" "a \<noteq> t" for a
    using p(3) that unfolding L(1) by simp
  have "marked ?L ?h"
  proof (cases "t_metatable h")
    case (Some m)
    then have m: "G_heap L m = Some \<lparr>t_node = array_meta, t_metatable = None\<rparr>" using st'(3) by (simp add: marked_def)
    then have "m \<noteq> t" using h Some by auto
    then have "G_heap ?L m = G_heap L m" by (rule old[OF alive[OF m]])
    then show ?thesis using Some m by (simp add: marked_def)
  qed (simp add: marked_def)
  moreover have "list_all2 (\<lambda>e m. fst e = fst m \<and> rep (G_heap ?L) (Suc t) (G_next ?L) (snd e) (snd m)) (t_node ?h) (alist_set key j ms)"
  proof -
    have "rep (G_heap ?L) (Suc t) (G_next ?L) x y" if r: "rep (G_heap L) (Suc t) (G_next L) x y" for x y
      by (rule rep_frame[OF r]) (use old p(1) L(2) in auto)
    then have "list_all2 (\<lambda>e m. fst e = fst m \<and> rep (G_heap ?L) (Suc t) (G_next ?L) (snd e) (snd m)) (t_node h) ms"
      using st'(4) by (auto elim!: list_all2_mono)
    moreover have "rep (G_heap ?L) (Suc t) (G_next ?L) v j"
      by (rule rep_frame[OF push(2)]) (use tn in \<open>auto simp: L\<close>)
    ultimately show ?thesis by (simp add: list_all2_alist_set)
  qed
  moreover have "fresh_heap ?L" using p(2) tn p(1) by (auto simp: fresh_heap_def L)
  ultimately have "table_state ?L t s (alist_set key j ms)"
    using st'(2) unfolding table_state_def L(1,3) by auto
  moreover have "extends L t ?L"
    using p(1) old h unfolding extends_def L by (auto simp: fielded_def)
  ultimately show ?thesis by blast
qed

fun store_elems :: "nat \<Rightarrow> 'd json list \<Rightarrow> ('d tvalue \<times> 'd json) list \<Rightarrow> ('d tvalue \<times> 'd json) list" where
  "store_elems i [] ms = ms"
| "store_elems i (e # es) ms = store_elems (i + 1) es (alist_set (TInteger (of_nat i)) e ms)"

definition store_members :: "(bytes \<times> 'd json) list \<Rightarrow> ('d tvalue \<times> 'd json) list \<Rightarrow> ('d tvalue \<times> 'd json) list" where
  "store_members kvs ms = fold (\<lambda>(k, v). alist_set (TString k) v) kvs ms"

text \<open>Trees with strings without NUL and arrays of at most \<open>n\<close> elements.\<close>

fun lua_json :: "nat \<Rightarrow> 'd json \<Rightarrow> bool"
  and lua_elems :: "nat \<Rightarrow> 'd json list \<Rightarrow> bool"
  and lua_members :: "nat \<Rightarrow> (bytes \<times> 'd json) list \<Rightarrow> bool" where
  "lua_json n (JString s) \<longleftrightarrow> 0 \<notin> set s"
| "lua_json n (JArray es) \<longleftrightarrow> length es \<le> n \<and> lua_elems n es"
| "lua_json n (JObject ms) \<longleftrightarrow> lua_members n ms"
| "lua_json n j \<longleftrightarrow> True"
| "lua_elems n [] \<longleftrightarrow> True"
| "lua_elems n (e # es) \<longleftrightarrow> lua_json n e \<and> lua_elems n es"
| "lua_members n [] \<longleftrightarrow> True"
| "lua_members n ((k, v) # ms) \<longleftrightarrow> 0 \<notin> set k \<and> lua_json n v \<and> lua_members n ms"

lemma dedup_elems_length [simp]: "length (dedup_elems es) = length es"
  by (induction es) auto

lemma store_elems_zip:
  "i + length es < 2 ^ 64 \<Longrightarrow> map fst ms = map (\<lambda>i. TInteger (of_nat i)) [1..<i] \<Longrightarrow> 1 \<le> i
     \<Longrightarrow> store_elems i es ms = ms @ zip (map (\<lambda>i. TInteger (of_nat i)) [i..<i + length es]) es"
proof (induction es arbitrary: i ms)
  case (Cons e es)
  have "TInteger (of_nat i) \<notin> fst ` set ms"
  proof
    assume "TInteger (of_nat i) \<in> fst ` set ms"
    then have "TInteger (of_nat i) \<in> set (map fst ms)" by simp
    then obtain k where k: "1 \<le> k" "k < i" "(of_nat k :: 64 word) = of_nat i" unfolding Cons.prems(2) by auto
    have "unat (of_nat k :: 64 word) = k" "unat (of_nat i :: 64 word) = i"
      using k(1,2) Cons.prems(1) by (simp_all add: unat_of_nat_size del: of_nat_less_iff)
    then show False using k(2,3) by (metis less_irrefl)
  qed
  then have "alist_set (TInteger (of_nat i)) e ms = ms @ [(TInteger (of_nat i), e)]" by (rule alist_set_new)
  moreover have "[i..<i + length (e # es)] = i # [Suc i..<Suc i + length es]"
    using upt_conv_Cons[of i "i + length (e # es)"] by simp
  ultimately show ?case
    using Cons.IH[of "Suc i" "ms @ [(TInteger (of_nat i), e)]"] Cons.prems by simp
qed simp

lemma alist_set_map: "inj f \<Longrightarrow> alist_set (f k) v (map (apfst f) ms) = map (apfst f) (alist_set k v ms)"
  by (induction ms) (auto simp: inj_eq)

lemma store_members_map:
  "store_members kvs (map (apfst TString) ms) = map (apfst TString) (fold (\<lambda>(k, v). alist_set k v) kvs ms)"
proof (induction kvs arbitrary: ms)
  case (Cons kv kvs)
  then show ?case
    by (cases kv) (simp add: store_members_def alist_set_map[of TString] inj_def)
qed (simp add: store_members_def)

lemma CreateArray_effect:
  assumes "fresh_heap L"
  shows "\<exists>L'. SetTableAsJsonArray E (lua_createtable L) (lua_gettop (lua_createtable L)) = ret L'
     \<and> pushes L (TTable (G_next L)) L' \<and> G_next L' = G_next L + 2
     \<and> G_heap L' (G_next L) = Some \<lparr>t_node = [], t_metatable = Some (G_next L + 1)\<rparr>
     \<and> G_heap L' (G_next L + 1) = Some \<lparr>t_node = array_meta, t_metatable = None\<rparr>"
proof -
  let ?t = "G_next L"
  let ?L0 = "L\<lparr>L_stack := TTable ?t # L_stack L, G_heap := (G_heap L)(?t \<mapsto> \<lparr>t_node = [], t_metatable = None\<rparr>), G_next := ?t + 1\<rparr>"
  let ?L1 = "?L0\<lparr>L_stack := TTable (?t + 1) # TTable ?t # L_stack L,
      G_heap := (G_heap ?L0)(?t + 1 \<mapsto> \<lparr>t_node = array_meta, t_metatable = None\<rparr>), G_next := ?t + 2\<rparr>"
  let ?L2 = "?L1\<lparr>L_stack := TTable ?t # L_stack L,
      G_heap := (G_heap ?L1)(?t \<mapsto> \<lparr>t_node = [], t_metatable = Some (?t + 1)\<rparr>)\<rparr>"
  have c: "lua_createtable L = ?L0" by (simp add: lua_createtable_def api_incr_top_def)
  have v: "value_at ?L0 (lua_gettop ?L0) = ret (TTable ?t)" by (simp add: lua_gettop_def value_at_def index2addr_def Let_def)
  have m: "lua_getmetatable ?L0 (lua_gettop ?L0) = ret (False, ?L0)"
    using v by (simp add: lua_getmetatable_def metatable_of_def hvalue_def)
  have "(0::byte) \<notin> set JSON_ARRAY_METAFIELD" by (simp add: JSON_ARRAY_METAFIELD_def str_def)
  then have ps: "lua_pushstring (lua_createtable ?L0) (Some (JSON_ARRAY_METAFIELD @ [0]))
      = ret (api_incr_top (TString JSON_ARRAY_METAFIELD) (lua_createtable ?L0))" by (simp add: lua_simps)
  have st: "lua_settable E (lua_pushboolean (api_incr_top (TString JSON_ARRAY_METAFIELD) (lua_createtable ?L0)) True) (- 3) = ret ?L1"
    by (simp add: lua_pushboolean_def lua_simps lua_createtable_def)
       (simp add: api_incr_top_def array_meta_def)
  have "value_at ?L1 (lua_gettop ?L0) = ret (TTable ?t)"
    using value_at_below[of ?L1 "[TTable (?t + 1)]" ?L0 "lua_gettop ?L0"] v by (simp add: lua_gettop_def)
  then have "lua_setmetatable ?L1 (lua_gettop ?L0) = ret ?L2"
    by (simp add: lua_setmetatable_def lua_simps hvalue_def heap_set_def)
  then have "SetTableAsJsonArray E (lua_createtable L) (lua_gettop (lua_createtable L)) = ret ?L2"
    unfolding c SetTableAsJsonArray_def m using ps st by (simp add: lua_gettop_def)
  moreover have "pushes L (TTable ?t) ?L2" using assms by (simp add: pushes_def fresh_heap_def)
  ultimately show ?thesis by (intro exI[of _ ?L2]) simp
qed

lemma createtable_state:
  "fresh_heap L \<Longrightarrow> table_state (lua_createtable L) (G_next L) (L_stack L) [] \<and> pushes L (TTable (G_next L)) (lua_createtable L)"
  by (auto simp: table_state_def pushes_def fresh_heap_def lua_createtable_def marked_def api_incr_top_def)

text \<open>A table that was created and then filled.\<close>

lemma pushes_extends:
  assumes "pushes L (TTable (G_next L)) L1" "extends L1 (G_next L) L2" "fresh_heap L2"
  shows "pushes L (TTable (G_next L)) L2"
proof -
  obtain H n where 1: "L1 = L\<lparr>L_stack := TTable (G_next L) # L_stack L, G_heap := H, G_next := n\<rparr>"
    using assms(1) unfolding pushes_def by blast
  obtain H' n' where 2: "L2 = L1\<lparr>G_heap := H', G_next := n'\<rparr>" using assms(2) unfolding extends_def by blast
  show ?thesis using assms unfolding pushes_def extends_def 1 2 by simp
qed

subsection \<open>The tree that is built\<close>

lemma to_lua:
  shows value_to_lua: "lua_json n j \<Longrightarrow> n < 2 ^ 64 - 1 \<Longrightarrow> fresh_heap L
      \<Longrightarrow> \<exists>v L'. push_value E j 1 L = ret L' \<and> pushes L v L' \<and> rep (G_heap L') (G_next L) (G_next L') v (dedup j)"
    and elems_to_lua: "lua_elems n es \<Longrightarrow> n < 2 ^ 64 - 1 \<Longrightarrow> table_state L t s ms
      \<Longrightarrow> \<exists>L'. JsonToLua_elems E es i L = ret L' \<and> extends L t L' \<and> table_state L' t s (store_elems i (dedup_elems es) ms)"
    and members_to_lua: "lua_members n kvs \<Longrightarrow> n < 2 ^ 64 - 1 \<Longrightarrow> table_state L t s ms
      \<Longrightarrow> \<exists>L'. JsonToLua_members E kvs L = ret L' \<and> extends L t L' \<and> table_state L' t s (store_members (dedup_members kvs) ms)"
proof (induction j and es and kvs arbitrary: L and L t s ms i and L t s ms rule: dedup_dedup_elems_dedup_members.induct)
  case 1
  then show ?case by (auto simp: push_value_def lua_pushnil_def intro: pushes_same)
next
  case (2 b)
  then show ?case by (auto simp: push_value_def lua_pushboolean_def intro: pushes_same)
next
  case (3 s')
  then show ?case by (auto simp: push_value_def lua_simps intro: pushes_same)
next
  case (4 d)
  then show ?case by (auto simp: push_value_def lua_pushnumber_def intro: pushes_same)
next
  case (5 es)
  let ?t = "G_next L"
  obtain L1 where L1: "SetTableAsJsonArray E (lua_createtable L) (lua_gettop (lua_createtable L)) = ret L1"
      "pushes L (TTable ?t) L1" "G_next L1 = ?t + 2"
      "G_heap L1 ?t = Some \<lparr>t_node = [], t_metatable = Some (?t + 1)\<rparr>"
      "G_heap L1 (?t + 1) = Some \<lparr>t_node = array_meta, t_metatable = None\<rparr>"
    using CreateArray_effect[OF 5(4), of E] by blast
  have f1: "fresh_heap L1" "L_stack L1 = TTable ?t # L_stack L"
    using L1(2) unfolding pushes_def by (blast, metis lua_State.select_convs(1) lua_State.surjective lua_State.update_convs(1,3,4))
  have ts: "table_state L1 ?t (L_stack L) []"
    using f1 L1(4,5) by (auto simp: table_state_def marked_def)
  have le: "lua_elems n es" "length es \<le> n" using 5(2) by simp_all
  then obtain L2 where L2: "JsonToLua_elems E es 1 L1 = ret L2" "extends L1 ?t L2"
      "table_state L2 ?t (L_stack L) (store_elems 1 (dedup_elems es) [])"
    using 5(1)[OF le(1) 5(3) ts] by blast
  have st: "store_elems 1 (dedup_elems es) [] = zip (array_keys (length (dedup_elems es))) (dedup_elems es)"
    using le 5(3) by (subst store_elems_zip) (auto simp: array_keys_def)
  obtain h where h: "G_heap L2 ?t = Some h" "fresh_heap L2"
      "list_all2 (\<lambda>e m. fst e = fst m \<and> rep (G_heap L2) (Suc ?t) (G_next L2) (snd e) (snd m)) (t_node h) (zip (array_keys (length (dedup_elems es))) (dedup_elems es))"
    using L2(3) unfolding table_state_def st by blast
  have mt: "t_metatable h = Some (?t + 1)" "G_heap L2 (?t + 1) = Some \<lparr>t_node = array_meta, t_metatable = None\<rparr>" "?t + 1 < G_next L2"
    using L2(2) L1(3-5) h(1) unfolding extends_def by auto
  have "G_heap L2 ?t = Some \<lparr>t_node = t_node h, t_metatable = Some (?t + 1)\<rparr>" using h(1) mt(1) by simp
  then have "rep (G_heap L2) ?t (G_next L2) (TTable ?t) (JArray (dedup_elems es))"
    using mt h(3) by (intro rep_array) auto
  moreover have "pushes L (TTable ?t) L2" by (rule pushes_extends[OF L1(2) L2(2) h(2)])
  ultimately show ?case using L1(1) L2(1) by (auto simp: push_value_def Let_def)
next
  case (6 kvs)
  let ?t = "G_next L"
  have st: "table_state (lua_createtable L) ?t (L_stack L) []" "pushes L (TTable ?t) (lua_createtable L)"
    using createtable_state[OF 6(4)] by blast+
  then obtain L2 where L2: "JsonToLua_members E kvs (lua_createtable L) = ret L2" "extends (lua_createtable L) ?t L2"
      "table_state L2 ?t (L_stack L) (store_members (dedup_members kvs) [])"
    using 6(1)[OF _ 6(3) st(1)] 6(2) by auto
  have m: "store_members (dedup_members kvs) [] = map (apfst TString) (fold (\<lambda>(k, v). alist_set k v) (dedup_members kvs) [])"
    using store_members_map[of "dedup_members kvs" "[]"] by simp
  obtain h where h: "G_heap L2 ?t = Some h" "fresh_heap L2"
      "list_all2 (\<lambda>e m. fst e = fst m \<and> rep (G_heap L2) (Suc ?t) (G_next L2) (snd e) (snd m)) (t_node h)
         (map (apfst TString) (fold (\<lambda>(k, v). alist_set k v) (dedup_members kvs) []))"
    using L2(3) unfolding table_state_def m by blast
  have mt: "t_metatable h = None" "?t < G_next L2"
    using L2(2) h(1) unfolding extends_def by (auto simp: lua_createtable_def)
  have "G_heap L2 ?t = Some \<lparr>t_node = t_node h, t_metatable = None\<rparr>" using h(1) mt(1) by simp
  then have "rep (G_heap L2) ?t (G_next L2) (TTable ?t) (dedup (JObject kvs))"
    using mt h(3) by (auto simp: list_all2_map2 intro!: rep_object)
  moreover have "pushes L (TTable ?t) L2" by (rule pushes_extends[OF st(2) L2(2) h(2)])
  ultimately show ?case using L2(1) by (auto simp: push_value_def Let_def)
next
  case 7
  then show ?case by (auto simp: extends_refl)
next
  case (8 e es)
  let ?key = "TInteger (of_nat i)"
  obtain h where h: "G_heap L t = Some h" "L_stack L = TTable t # s" "marked L h" "fresh_heap L"
    using 8(5) unfolding table_state_def by blast
  have "fresh_heap (api_incr_top ?key L)" using h(4) by (simp add: fresh_heap_def)
  then obtain v L2 where L2: "push_value E e 1 (api_incr_top ?key L) = ret L2" "pushes (api_incr_top ?key L) v L2"
      "rep (G_heap L2) (G_next L) (G_next L2) v (dedup e)"
    using 8(1)[of "api_incr_top ?key L"] 8(3,4) by auto
  have v: "JsonToLuaValuePrivate E In_Array e i L = ret (fielded L t h ?key v L2)"
    unfolding ValuePrivate_push by (rule with_key_effect[where push = "push_value E e", OF h(2,1,3,4) _ L2(1,2)]) simp
  have s: "extends L t (fielded L t h ?key v L2)" "table_state (fielded L t h ?key v L2) t s (alist_set ?key (dedup e) ms)"
    using store_step[OF 8(5) h(1) L2(2,3)] by blast+
  obtain L' where "JsonToLua_elems E es (i + 1) (fielded L t h ?key v L2) = ret L'" "extends (fielded L t h ?key v L2) t L'"
      "table_state L' t s (store_elems (i + 1) (dedup_elems es) (alist_set ?key (dedup e) ms))"
    using 8(2)[OF _ 8(4) s(2)] 8(3) by auto
  then show ?case using v extends_trans[OF s(1)] by auto
next
  case 9
  then show ?case by (auto simp: extends_refl store_members_def)
next
  case (10 k v' kvs)
  let ?key = "TString k"
  obtain h where h: "G_heap L t = Some h" "L_stack L = TTable t # s" "marked L h" "fresh_heap L"
    using 10(5) unfolding table_state_def by blast
  have "fresh_heap (api_incr_top ?key L)" using h(4) by (simp add: fresh_heap_def)
  then obtain v L2 where L2: "push_value E v' 1 (api_incr_top ?key L) = ret L2" "pushes (api_incr_top ?key L) v L2"
      "rep (G_heap L2) (G_next L) (G_next L2) v (dedup v')"
    using 10(1)[of "api_incr_top ?key L"] 10(3,4) by auto
  have v: "JsonToLuaValuePrivate E (In_Object k) v' 1 L = ret (fielded L t h ?key v L2)"
    unfolding ValuePrivate_push using 10(3) by (intro with_key_effect[where push = "push_value E v'", OF h(2,1,3,4) _ L2(1,2)]) simp
  have s: "extends L t (fielded L t h ?key v L2)" "table_state (fielded L t h ?key v L2) t s (alist_set ?key (dedup v') ms)"
    using store_step[OF 10(5) h(1) L2(2,3)] by blast+
  obtain L' where "JsonToLua_members E kvs (fielded L t h ?key v L2) = ret L'" "extends (fielded L t h ?key v L2) t L'"
      "table_state L' t s (store_members (dedup_members kvs) (alist_set ?key (dedup v') ms))"
    using 10(2)[OF _ 10(4) s(2)] 10(3) by auto
  then show ?case using v extends_trans[OF s(1)] by (auto simp: store_members_def)
qed

end
