(* ===== verification/JsonLuaEncode.thy ===== *)
theory JsonLuaEncode
  imports JsonLuaDecode
begin

text \<open>
  What \<open>LuaValueToJson\<close> makes of the tables of the theory JsonLuaDecode: the same tree without its
  nulls, with the table of references back in its state. Decoding and encoding compose to the
  normal form of the tree.
\<close>

subsection \<open>The tree that is printed\<close>

fun drop_nulls :: "'d json \<Rightarrow> 'd json"
  and drop_elems :: "'d json list \<Rightarrow> 'd json list"
  and drop_members :: "(bytes \<times> 'd json) list \<Rightarrow> (bytes \<times> 'd json) list" where
  "drop_nulls JNull = JNull"
| "drop_nulls (JBool b) = JBool b"
| "drop_nulls (JString s) = JString s"
| "drop_nulls (JNumber d) = JNumber d"
| "drop_nulls (JArray es) = JArray (drop_elems es)"
| "drop_nulls (JObject ms) = JObject (drop_members ms)"
| "drop_elems [] = []"
| "drop_elems (e # es) = (if e = JNull then drop_elems es else drop_nulls e # drop_elems es)"
| "drop_members [] = []"
| "drop_members ((k, v) # ms) = (if v = JNull then drop_members ms else (k, drop_nulls v) # drop_members ms)"

text \<open>The values of a table with the keys \<open>ks\<close>, in the order a traversal visits the keys.\<close>

definition in_order :: "'d lua_env \<Rightarrow> 'd tvalue list \<Rightarrow> 'v list \<Rightarrow> 'v list" where
  "in_order E ks xs = map snd (traversal E (zip ks xs))"

text \<open>The tree with the members of every object and the elements of every array in the order their
  table is visited.\<close>

fun visited :: "'d lua_env \<Rightarrow> 'd json \<Rightarrow> 'd json"
  and visited_elems :: "'d lua_env \<Rightarrow> 'd json list \<Rightarrow> 'd json list"
  and visited_members :: "'d lua_env \<Rightarrow> (bytes \<times> 'd json) list \<Rightarrow> (bytes \<times> 'd json) list" where
  "visited E JNull = JNull"
| "visited E (JBool b) = JBool b"
| "visited E (JString s) = JString s"
| "visited E (JNumber d) = JNumber d"
| "visited E (JArray es) = JArray (in_order E (array_keys (length es)) (visited_elems E es))"
| "visited E (JObject ms) = JObject (in_order E (map (\<lambda>m. TString (fst m)) ms) (visited_members E ms))"
| "visited_elems E [] = []"
| "visited_elems E (e # es) = visited E e # visited_elems E es"
| "visited_members E [] = []"
| "visited_members E ((k, v) # ms) = (k, visited E v) # visited_members E ms"

lemma visited_elems_map: "visited_elems E es = map (visited E) es"
  by (induction es) auto

lemma visited_members_map: "visited_members E ms = map (\<lambda>m. (fst m, visited E (snd m))) ms"
  by (induction ms) auto

lemma visited_null [simp]: "visited E j = JNull \<longleftrightarrow> j = JNull"
  by (cases j) auto

lemma in_order_mset: "distinct ks \<Longrightarrow> length xs = length ks \<Longrightarrow> mset (in_order E ks xs) = mset xs"
  unfolding in_order_def mset_map by (subst traversal_mset) (simp_all flip: mset_map)

lemma array_keys_distinct:
  assumes "n < 2 ^ 64 - 1"
  shows "distinct (array_keys n)"
  unfolding array_keys_def distinct_map
proof (intro conjI inj_onI)
  fix a b assume ab: "a \<in> set [1..<n + 1]" "b \<in> set [1..<n + 1]"
    "(TInteger (of_nat a) :: 'a tvalue) = TInteger (of_nat b)"
  have "a < 2 ^ 64" "b < 2 ^ 64" using ab(1,2) assms by auto
  then have "unat (of_nat a :: 64 word) = a" "unat (of_nat b :: 64 word) = b" by (simp_all add: unat_of_nat)
  then show "a = b" using ab(3) by (metis tvalue.inject(2))
qed simp

lemma array_keys_length: "length (array_keys n) = n"
  unfolding array_keys_def by (simp only: length_map length_upt)

text \<open>Two trees that differ in the order of members and elements only.\<close>

inductive reordered :: "'d json \<Rightarrow> 'd json \<Rightarrow> bool" where
  reordered_null: "reordered JNull JNull"
| reordered_bool: "reordered (JBool b) (JBool b)"
| reordered_string: "reordered (JString s) (JString s)"
| reordered_number: "reordered (JNumber d) (JNumber d)"
| reordered_array: "list_all2 reordered es es' \<Longrightarrow> mset es' = mset es'' \<Longrightarrow> reordered (JArray es) (JArray es'')"
| reordered_object: "list_all2 (\<lambda>m m'. fst m = fst m' \<and> reordered (snd m) (snd m')) ms ms' \<Longrightarrow> mset ms' = mset ms''
     \<Longrightarrow> reordered (JObject ms) (JObject ms'')"

lemma in_order_map:
  assumes "distinct ks" "length xs = length ks"
  shows "in_order E ks (map f xs) = map f (in_order E ks xs)"
proof -
  have "the (map_of (zip ks (map f xs)) k) = f (the (map_of (zip ks xs) k))" if k: "k \<in> set ks" for k
  proof -
    obtain x where "map_of (zip ks xs) k = Some x" using k map_of_zip_is_Some[OF assms(2)[symmetric], of k] by blast
    then show ?thesis by (simp add: zip_map2 map_of_map)
  qed
  then show ?thesis
    using assms by (auto simp: in_order_def traversal_def visit_order_def dest: mset_eq_setD)
qed

text \<open>Entries and values that are related one by one are related in the order of the traversal.\<close>

lemma in_order_rel:
  assumes "map fst es = ks" "distinct ks" "length xs = length es" "\<And>i. i < length es \<Longrightarrow> P (es ! i) (xs ! i)"
  shows "list_all2 P (traversal E es) (in_order E ks xs)"
proof -
  have len: "length ks = length es" using assms(1) by auto
  have "P (k, the (map_of es k)) (the (map_of (zip ks xs) k))" if k: "k \<in> set ks" for k
  proof -
    obtain i where i: "i < length ks" "k = ks ! i" using k by (auto simp: in_set_conv_nth)
    have "fst (es ! i) = k" using i(1) len unfolding i(2) assms(1)[symmetric] by simp
    then obtain v where e: "es ! i = (k, v)" by (cases "es ! i") simp
    then have "(k, v) \<in> set es" using i(1) len by (metis nth_mem)
    moreover have "distinct (map fst es)" using assms(1,2) by blast
    ultimately have "map_of es k = Some v" by (metis map_of_is_SomeI)
    moreover have "map_of (zip ks xs) k = Some (xs ! i)"
      using i assms(2,3) len by (intro map_of_is_SomeI) (auto simp: in_set_zip)
    ultimately show ?thesis using assms(4)[of i] e i(1) len by simp
  qed
  moreover have "set (visit_order E ks) = set ks" by (metis set_mset_mset visit_order_mset)
  ultimately show ?thesis
    using assms(1,3) len by (simp add: in_order_def traversal_def list.rel_map list_all2_same)
qed

subsection \<open>The table of references\<close>

text \<open>Only the table \<open>r\<close> may differ, and a lookup in it gives the same.\<close>

definition same_refs :: "nat \<Rightarrow> 'd lua_State \<Rightarrow> 'd lua_State \<Rightarrow> bool" where
  "same_refs r L L' \<longleftrightarrow> L' = L\<lparr>G_heap := (G_heap L)(r := G_heap L' r)\<rparr>
     \<and> (\<exists>ps ps'. plain_table L r ps \<and> plain_table L' r ps' \<and> lookup ps' = lookup ps)"

lemma same_refs_refl: "plain_table L r ps \<Longrightarrow> same_refs r L L"
  by (auto simp: same_refs_def)

lemma same_refsI:
  "plain_table L r ps \<Longrightarrow> lookup ps' = lookup ps
     \<Longrightarrow> same_refs r L (L\<lparr>G_heap := (G_heap L)(r \<mapsto> \<lparr>t_node = ps', t_metatable = None\<rparr>)\<rparr>)"
  by (simp add: same_refs_def plain_table_def)

lemma same_refsE:
  assumes "same_refs r L L'" "plain_table L r ps"
  obtains ps' where "L' = L\<lparr>G_heap := (G_heap L)(r \<mapsto> \<lparr>t_node = ps', t_metatable = None\<rparr>)\<rparr>" "lookup ps' = lookup ps"
proof -
  obtain qs ps' where e: "L' = L\<lparr>G_heap := (G_heap L)(r := G_heap L' r)\<rparr>" "plain_table L r qs" "plain_table L' r ps'" "lookup ps' = lookup qs"
    using assms(1) unfolding same_refs_def by blast
  have "qs = ps" using assms(2) e(2) by (simp add: plain_table_def)
  then show thesis using e by (intro that[of ps']) (simp_all add: plain_table_def)
qed

lemma lookup_alist_set [simp]: "lookup (alist_set k v ps) = (lookup ps)(k := v)"
  by (auto simp: lookup_def map_of_alist_set fun_eq_iff)

lemma upvalue_value [lua_simps]: "L_upvalue L = [v] \<Longrightarrow> value_at L (lua_upvalueindex 1) = ret v"
  by (simp add: value_at_def index2addr_def lua_upvalueindex_def LUA_REGISTRYINDEX_def Let_def)

lemma top_value:
  assumes "L_stack L = v # s"
  shows "value_at L (lua_gettop L) = ret v" "lua_type_of L (lua_gettop L) = ret (ttnov v)"
    "lua_gettop L = int (length s) + 1" "lua_pushvalue L (lua_gettop L) = ret (api_incr_top v L)"
  using assms by (simp_all add: lua_gettop_def value_at_def index2addr_def lua_type_of_def lua_pushvalue_def Let_def nat_add_distrib)

text \<open>The metatable of the strings is not the table of references and has no \<open>__tostring\<close>.\<close>

definition string_meta :: "'d lua_env \<Rightarrow> nat \<Rightarrow> 'd lua_State \<Rightarrow> bool" where
  "string_meta E r L \<longleftrightarrow> (case G_mt L LUA_TSTRING of None \<Rightarrow> True
     | Some m \<Rightarrow> m \<noteq> r \<and> (\<exists>h. G_heap L m = Some h \<and> luaH_get E h (TString (str ''__tostring'')) = TNil))"

lemma string_meta_update [simp]:
  "string_meta E r (L\<lparr>L_stack := s\<rparr>) = string_meta E r L"
  "string_meta E r (L\<lparr>G_heap := (G_heap L)(r \<mapsto> h)\<rparr>) = string_meta E r L"
  "string_meta E r (L\<lparr>L_stack := s, G_heap := (G_heap L)(r \<mapsto> h)\<rparr>) = string_meta E r L"
  by (auto simp: string_meta_def split: option.splits)

lemma tolstring_at:
  assumes "value_at L idx = ret (TString b)" "lua_absindex L idx = idx" "lua_pushvalue L idx = ret (api_incr_top (TString b) L)"
    "string_meta E r L"
  shows "luaL_tolstring E L idx = ret (Some b, api_incr_top (TString b) L)"
proof -
  have "luaL_getmetafield E L idx (str ''__tostring'') = ret (LUA_TNIL, L)"
    using assms(1,4) by (cases "G_mt L LUA_TSTRING")
      (auto simp: string_meta_def luaL_getmetafield_def lua_getmetatable_def metatable_of_def hvalue_def lua_rawget_def
        lua_simps Let_def set_top_def stack_same)
  then show ?thesis using assms(1-3) by (simp add: luaL_tolstring_def luaL_callmeta_def lua_tolstring_def lua_simps Let_def)
qed

lemma IsRefCycle_effect:
  assumes "L_stack L = TTable t # s" "L_upvalue L = [TTable r]" "plain_table L r ps"
  shows "IsRefCycle E L JSON_REF_TABLE_IDX (lua_gettop L) = ret (lookup ps (TTable t) \<noteq> TNil, L)"
proof -
  have "luaH_get E \<lparr>t_node = ps, t_metatable = None\<rparr> (TTable t) = lookup ps (TTable t)"
    by (simp add: luaH_get_def norm_key_def lookup_def)
  moreover have "ttnov (lookup ps (TTable t)) \<noteq> LUA_TNIL \<longleftrightarrow> lookup ps (TTable t) \<noteq> TNil"
    by (cases "lookup ps (TTable t)") simp_all
  ultimately show ?thesis
    using assms gettable_plain[of "api_incr_top (TTable t) L" r ps E "TTable t"] top_value(4)[OF assms(1)]
    by (simp add: IsRefCycle_def JSON_REF_TABLE_IDX_def lua_gettable_def lua_simps stack_same)
qed

lemma TableRef_effect:
  assumes "L_stack L = TTable t # s" "L_upvalue L = [TTable r]" "plain_table L r ps"
  shows "AddTableRef E L JSON_REF_TABLE_IDX (lua_gettop L)
       = ret (L\<lparr>G_heap := (G_heap L)(r \<mapsto> \<lparr>t_node = alist_set (TTable t) (TBoolean True) ps, t_metatable = None\<rparr>)\<rparr>)"
    and "RemoveTableRef E L JSON_REF_TABLE_IDX (lua_gettop L)
       = ret (L\<lparr>G_heap := (G_heap L)(r \<mapsto> \<lparr>t_node = alist_set (TTable t) TNil ps, t_metatable = None\<rparr>)\<rparr>)"
proof -
  have "lua_settable E (api_incr_top v (api_incr_top (TTable t) L)) (lua_upvalueindex 1)
      = ret (L\<lparr>G_heap := (G_heap L)(r \<mapsto> \<lparr>t_node = alist_set (TTable t) v ps, t_metatable = None\<rparr>)\<rparr>)" for v
    using assms(2,3) by (subst lua_settable_eval[of _ v "TTable t" "L_stack L" _ r "\<lparr>t_node = ps, t_metatable = None\<rparr>"])
      (simp_all add: lua_simps plain_table_def api_incr_top_def)
  then show "AddTableRef E L JSON_REF_TABLE_IDX (lua_gettop L)
       = ret (L\<lparr>G_heap := (G_heap L)(r \<mapsto> \<lparr>t_node = alist_set (TTable t) (TBoolean True) ps, t_metatable = None\<rparr>)\<rparr>)"
    and "RemoveTableRef E L JSON_REF_TABLE_IDX (lua_gettop L)
       = ret (L\<lparr>G_heap := (G_heap L)(r \<mapsto> \<lparr>t_node = alist_set (TTable t) TNil ps, t_metatable = None\<rparr>)\<rparr>)"
    using top_value(4)[OF assms(1)]
    by (simp_all add: AddTableRef_def RemoveTableRef_def JSON_REF_TABLE_IDX_def lua_pushboolean_def lua_pushnil_def)
qed

lemma IsJsonArray_effect:
  assumes "L_stack L = TTable t # s" "G_heap L t = Some h" "marked L h"
  shows "LuaTableIsJsonArray E L (lua_gettop L) = ret (t_metatable h \<noteq> None, L)"
proof (cases "t_metatable h")
  case None
  then show ?thesis
    using assms(2) top_value(1)[OF assms(1)]
    by (simp add: LuaTableIsJsonArray_def luaL_getmetafield_def lua_getmetatable_def metatable_of_def hvalue_def)
next
  case (Some m)
  then have m: "G_heap L m = Some \<lparr>t_node = array_meta, t_metatable = None\<rparr>" using assms(3) by (simp add: marked_def)
  have "luaH_get E \<lparr>t_node = array_meta, t_metatable = None\<rparr> (TString JSON_ARRAY_METAFIELD) = TBoolean True"
    by (simp add: array_meta_def)
  then show ?thesis
    using assms(1,2) top_value(1)[OF assms(1)] Some m
    by (simp add: LuaTableIsJsonArray_def luaL_getmetafield_def lua_getmetatable_def metatable_of_def hvalue_def
        lua_rawget_def lua_simps Let_def set_top_def stack_same)
qed

subsection \<open>Traversing a table\<close>

text \<open>The key an entry gets: its string, or in an array anything that fits the buffer.\<close>

definition key_of :: "'d json_c \<Rightarrow> bool \<Rightarrow> 'd tvalue \<Rightarrow> bytes \<Rightarrow> bool" where
  "key_of C as_array k kb \<longleftrightarrow>
     (if as_array then (\<exists>i kb'. k = TInteger i \<and> number_key C (jc_of_integer C i) = ret kb') \<and> kb = []
      else k = TString kb \<and> 0 \<notin> set kb)"

lemma table_key_effect:
  assumes "key_of C as_array k kb" "L_stack L = v # k # s" "string_meta E r L"
  shows "\<exists>key. table_key C E L (int (length s) + 1) = ret (key, L) \<and> (if as_array then [] else takeWhile (\<lambda>c. c \<noteq> 0) key) = kb"
proof -
  have v: "value_at L (int (length s) + 1) = ret k" "lua_type_of L (int (length s) + 1) = ret (ttnov k)"
    "lua_pushvalue L (int (length s) + 1) = ret (api_incr_top k L)"
    using assms(2) by (simp_all add: value_at_def index2addr_def lua_type_of_def lua_pushvalue_def Let_def nat_add_distrib)
  show ?thesis
  proof (cases as_array)
    case True
    then show ?thesis using assms(1) v by (auto simp: key_of_def table_key_def lua_tonumber_def)
  next
    case False
    then have k: "k = TString kb" "0 \<notin> set kb" using assms(1) by (simp_all add: key_of_def)
    have "luaL_tolstring E L (int (length s) + 1) = ret (Some kb, api_incr_top k L)"
      unfolding k(1) using v k(1) assms(3) by (intro tolstring_at) (simp_all add: lua_absindex_def)
    moreover have "takeWhile (\<lambda>c. c \<noteq> 0) kb = kb" using k(2) by (auto simp: takeWhile_eq_all_conv)
    ultimately show ?thesis using v k False by (simp add: table_key_def lua_simps stack_same)
  qed
qed

text \<open>\<open>v\<close> becomes \<open>j\<close> in every state whose tables below \<open>hi\<close> are those of \<open>H\<close> and whose table of
  references \<open>r\<close> has no table from \<open>lo\<close> on.\<close>

definition encodes ::
  "'d json_c \<Rightarrow> 'd lua_env \<Rightarrow> (nat \<Rightarrow> 'd ltable option) \<Rightarrow> nat \<Rightarrow> nat \<Rightarrow> nat \<Rightarrow> 'd tvalue \<Rightarrow> 'd json \<Rightarrow> bool" where
  "encodes C E H r lo hi v j \<longleftrightarrow>
     (\<forall>L s fuel ps. L_stack L = v # s \<longrightarrow> L_upvalue L = [TTable r] \<longrightarrow> string_meta E r L
        \<longrightarrow> (\<forall>a < hi. G_heap L a = H a) \<longrightarrow> plain_table L r ps \<longrightarrow> (\<forall>t \<ge> lo. lookup ps (TTable t) = TNil)
        \<longrightarrow> hi - lo < fuel \<longrightarrow> (\<exists>L'. LuaValueToJson C E fuel L = ret (Some j, L') \<and> same_refs r L L'))"

lemma encodesD:
  assumes "encodes C E H r lo hi v j" "L_stack L = v # s" "L_upvalue L = [TTable r]" "string_meta E r L"
    "\<forall>a < hi. G_heap L a = H a" "plain_table L r ps" "\<forall>t \<ge> lo. lookup ps (TTable t) = TNil" "hi - lo < fuel"
  shows "\<exists>L'. LuaValueToJson C E fuel L = ret (Some j, L') \<and> same_refs r L L'"
  using assms unfolding encodes_def by blast

text \<open>One entry of a table: a nil is skipped, another value becomes a child.\<close>

definition entry_encodes ::
  "'d json_c \<Rightarrow> 'd lua_env \<Rightarrow> (nat \<Rightarrow> 'd ltable option) \<Rightarrow> nat \<Rightarrow> nat \<Rightarrow> nat \<Rightarrow> bool \<Rightarrow> 'd tvalue \<times> 'd tvalue \<Rightarrow> bytes \<times> 'd json \<Rightarrow> bool" where
  "entry_encodes C E H r lo hi as_array e m \<longleftrightarrow>
     key_of C as_array (fst e) (fst m) \<and> (snd e = TNil \<longleftrightarrow> snd m = JNull) \<and> encodes C E H r lo hi (snd e) (drop_nulls (snd m))"

lemma drop_members_Cons: "drop_members (m # ms) = (if snd m = JNull then drop_members ms else (fst m, drop_nulls (snd m)) # drop_members ms)"
  by (cases m) simp

lemma loop_children:
  assumes "list_all2 (entry_encodes C E H r lo hi as_array) post ms"
    and h: "H t = Some h" "t < hi" "hi \<le> r" "distinct (map fst (t_node h))" "traversal E (t_node h) = pre @ post"
    and L: "L_stack L = k # TTable t # s" "L_upvalue L = [TTable r]" "string_meta E r L"
      "\<forall>a < hi. G_heap L a = H a" "plain_table L r ps" "\<forall>t \<ge> lo. lookup ps (TTable t) = TNil" "hi - lo < fuel"
      "luaH_next E h k = ret (next_entry post)"
  shows "\<exists>L'. LuaTableToJson_loop (LuaValueToJson C E fuel) C E (int (length s) + 1) as_array children L = ret (children @ drop_members ms, L')
     \<and> same_refs r (L\<lparr>L_stack := TTable t # s\<rparr>) L'"
  using assms(1) h(5) L
proof (induction post ms arbitrary: pre L k ps children rule: list_all2_induct)
  case Nil
  have v: "value_at L (int (length s) + 1) = ret (TTable t)"
    using Nil.prems(2) by (simp add: value_at_def index2addr_def Let_def nat_add_distrib)
  have "G_heap L t = Some h" using Nil.prems(5) h(1,2) by simp
  then have "lua_next E L (int (length s) + 1) = ret (False, L\<lparr>L_stack := TTable t # s\<rparr>)"
    using v Nil.prems(2,9) by (simp add: lua_next_def hvalue_def lua_simps)
  then have "LuaTableToJson_loop (LuaValueToJson C E fuel) C E (int (length s) + 1) as_array children L
      = ret (children, L\<lparr>L_stack := TTable t # s\<rparr>)"
    by (subst LuaTableToJson_loop.simps) simp
  moreover have "same_refs r (L\<lparr>L_stack := TTable t # s\<rparr>) (L\<lparr>L_stack := TTable t # s\<rparr>)"
    using Nil.prems(6) by (intro same_refs_refl[of _ r ps]) simp
  ultimately show ?case by auto
next
  case (Cons e post m ms)
  have en: "key_of C as_array (fst e) (fst m)" "snd e = TNil \<longleftrightarrow> snd m = JNull" "encodes C E H r lo hi (snd e) (drop_nulls (snd m))"
    using Cons.hyps(1) unfolding entry_encodes_def by blast+
  show ?case
  proof (cases "snd e = TNil")
    case True
    have p: "traversal E (t_node h) = (pre @ [e]) @ post" using Cons.prems(1) by simp
    have nx: "luaH_next E h k = ret (next_entry post)" using Cons.prems(9) True by simp
    show ?thesis
      using Cons.IH[OF p Cons.prems(2-8) nx, of children] True en(2) by (simp add: drop_members_Cons)
  next
    case False
    let ?L1 = "L\<lparr>L_stack := snd e # fst e # TTable t # s\<rparr>"
    have v: "value_at L (int (length s) + 1) = ret (TTable t)"
      using Cons.prems(2) by (simp add: value_at_def index2addr_def Let_def nat_add_distrib)
    have "G_heap L t = Some h" using Cons.prems(5) h(1,2) by simp
    moreover have "luaH_next E h k = ret (Some e)" using Cons.prems(9) False by simp
    ultimately have nx: "lua_next E L (int (length s) + 1) = ret (True, ?L1)"
      using v Cons.prems(2) by (cases e) (simp add: lua_next_def hvalue_def lua_simps)
    obtain key where key: "table_key C E ?L1 (int (length s) + 1 + 1) = ret (key, ?L1)"
        "(if as_array then [] else takeWhile (\<lambda>c. c \<noteq> 0) key) = fst m"
      using table_key_effect[OF en(1), of ?L1 "snd e" "TTable t # s" E] Cons.prems(4) by (auto simp: add.commute)
    have p1: "plain_table ?L1 r ps" using Cons.prems(6) by simp
    obtain L2 where L2: "LuaValueToJson C E fuel ?L1 = ret (Some (drop_nulls (snd m)), L2)" "same_refs r ?L1 L2"
      using encodesD[OF en(3) _ _ _ _ p1 Cons.prems(7,8), of "fst e # TTable t # s"] Cons.prems(3-5) by auto
    obtain ps' where ps': "L2 = ?L1\<lparr>G_heap := (G_heap ?L1)(r \<mapsto> \<lparr>t_node = ps', t_metatable = None\<rparr>)\<rparr>" "lookup ps' = lookup ps"
      using same_refsE[OF L2(2) p1] by blast
    let ?L3 = "L\<lparr>L_stack := fst e # TTable t # s, G_heap := (G_heap L)(r \<mapsto> \<lparr>t_node = ps', t_metatable = None\<rparr>)\<rparr>"
    have pop: "lua_pop L2 1 = ret ?L3" unfolding ps'(1) by (simp add: lua_simps)
    have p: "traversal E (t_node h) = (pre @ [e]) @ post" using Cons.prems(1) by simp
    have "fst e \<noteq> TNil" "\<forall>d. fst e \<noteq> TFloat d" using en(1) by (auto simp: key_of_def split: if_splits)
    then have nx3: "luaH_next E h (fst e) = ret (next_entry post)"
      using luaH_next_after[of E h pre "fst e" "snd e" post] Cons.prems(1) h(4) by simp
    have hp: "\<forall>a < hi. G_heap ?L3 a = H a" using Cons.prems(5) h(3) by simp
    have p3: "plain_table ?L3 r ps'" by (simp add: plain_table_def)
    obtain L' where L': "LuaTableToJson_loop (LuaValueToJson C E fuel) C E (int (length s) + 1) as_array
          (children @ [(fst m, drop_nulls (snd m))]) ?L3 = ret ((children @ [(fst m, drop_nulls (snd m))]) @ drop_members ms, L')"
        "same_refs r (?L3\<lparr>L_stack := TTable t # s\<rparr>) L'"
      using Cons.IH[OF p _ _ _ hp p3 _ Cons.prems(8) nx3, of "children @ [(fst m, drop_nulls (snd m))]"] Cons.prems(3,4,7) ps'(2)
      by auto
    have "LuaTableToJson_loop (LuaValueToJson C E fuel) C E (int (length s) + 1) as_array children L
        = ret (children @ drop_members (m # ms), L')"
      using nx key L2(1) pop L'(1) False en(2) by (subst LuaTableToJson_loop.simps) (simp add: drop_members_Cons)
    moreover have "same_refs r (L\<lparr>L_stack := TTable t # s\<rparr>) L'"
    proof -
      have "plain_table (?L3\<lparr>L_stack := TTable t # s\<rparr>) r ps'" by (simp add: plain_table_def)
      then obtain qs where qs: "L' = ?L3\<lparr>L_stack := TTable t # s\<rparr>\<lparr>G_heap := (G_heap (?L3\<lparr>L_stack := TTable t # s\<rparr>))(r \<mapsto> \<lparr>t_node = qs, t_metatable = None\<rparr>)\<rparr>"
          "lookup qs = lookup ps'"
        by (rule same_refsE[OF L'(2)])
      have "L' = (L\<lparr>L_stack := TTable t # s\<rparr>)\<lparr>G_heap := (G_heap (L\<lparr>L_stack := TTable t # s\<rparr>))(r \<mapsto> \<lparr>t_node = qs, t_metatable = None\<rparr>)\<rparr>"
        unfolding qs(1) by simp
      moreover have "plain_table (L\<lparr>L_stack := TTable t # s\<rparr>) r ps" using Cons.prems(6) by simp
      ultimately show ?thesis using same_refsI[of "L\<lparr>L_stack := TTable t # s\<rparr>" r ps qs] qs(2) ps'(2) by simp
    qed
    ultimately show ?thesis by blast
  qed
qed

subsection \<open>Well-formed trees\<close>

fun wf_json :: "nat \<Rightarrow> 'd json \<Rightarrow> bool"
  and wf_elems :: "nat \<Rightarrow> 'd json list \<Rightarrow> bool"
  and wf_members :: "nat \<Rightarrow> (bytes \<times> 'd json) list \<Rightarrow> bool" where
  "wf_json n JNull \<longleftrightarrow> True"
| "wf_json n (JBool b) \<longleftrightarrow> True"
| "wf_json n (JString s) \<longleftrightarrow> 0 \<notin> set s"
| "wf_json n (JNumber d) \<longleftrightarrow> True"
| "wf_json n (JArray es) \<longleftrightarrow> length es \<le> n \<and> wf_elems n es"
| "wf_json n (JObject ms) \<longleftrightarrow> distinct (map fst ms) \<and> wf_members n ms"
| "wf_elems n [] \<longleftrightarrow> True"
| "wf_elems n (e # es) \<longleftrightarrow> wf_json n e \<and> wf_elems n es"
| "wf_members n [] \<longleftrightarrow> True"
| "wf_members n ((k, v) # ms) \<longleftrightarrow> 0 \<notin> set k \<and> wf_json n v \<and> wf_members n ms"

lemma wf_elems_iff: "wf_elems n es \<longleftrightarrow> (\<forall>e \<in> set es. wf_json n e)"
  by (induction es) auto

lemma wf_members_iff: "wf_members n ms \<longleftrightarrow> (\<forall>m \<in> set ms. 0 \<notin> set (fst m) \<and> wf_json n (snd m))"
  by (induction ms) auto

lemma wf_alist_set: "wf_members n ms \<Longrightarrow> 0 \<notin> set k \<Longrightarrow> wf_json n v \<Longrightarrow> wf_members n (alist_set k v ms)"
  by (induction ms) auto

lemma wf_fold:
  "wf_members n kvs \<Longrightarrow> wf_members n ms \<Longrightarrow> distinct (map fst ms)
     \<Longrightarrow> distinct (map fst (fold (\<lambda>(k, v). alist_set k v) kvs ms)) \<and> wf_members n (fold (\<lambda>(k, v). alist_set k v) kvs ms)"
  by (induction kvs arbitrary: ms) (auto simp: alist_set_distinct wf_alist_set)

lemma dedup_wf:
  fixes j :: "'d json" and es :: "'d json list" and ms :: "(bytes \<times> 'd json) list"
  shows "lua_json n j \<Longrightarrow> wf_json n (dedup j)" "lua_elems n es \<Longrightarrow> wf_elems n (dedup_elems es)"
    "lua_members n ms \<Longrightarrow> wf_members n (dedup_members ms)"
  by (induction j and es and ms rule: dedup_dedup_elems_dedup_members.induct) (simp_all add: wf_fold)

lemma visited_reordered:
  fixes j :: "'d json" and es :: "'d json list" and ms :: "(bytes \<times> 'd json) list"
  assumes "n < 2 ^ 64 - 1"
  shows "wf_json n j \<Longrightarrow> reordered j (visited E j)"
    "wf_elems n es \<Longrightarrow> list_all2 reordered es (visited_elems E es)"
    "wf_members n ms \<Longrightarrow> list_all2 (\<lambda>m m'. fst m = fst m' \<and> reordered (snd m) (snd m')) ms (visited_members E ms)"
proof (induction j and es and ms rule: visited_visited_elems_visited_members.induct)
  case (5 E es)
  have "mset (in_order E (array_keys (length es)) (visited_elems E es)) = mset (visited_elems E es)"
    using 5 assms by (intro in_order_mset array_keys_distinct) (simp_all add: array_keys_length visited_elems_map)
  then show ?case using 5 by (auto intro: reordered_array)
next
  case (6 E ms)
  have "mset (in_order E (map (\<lambda>m. TString (fst m)) ms) (visited_members E ms)) = mset (visited_members E ms)"
    using 6 by (intro in_order_mset) (auto simp: visited_members_map distinct_map inj_on_def)
  then show ?case using 6 by (auto intro: reordered_object)
qed (auto intro: reordered.intros)

subsection \<open>Every table built by the decoder\<close>

lemma drop_array: "map snd (drop_members (map (\<lambda>j. ([], j)) js)) = drop_elems js"
  by (induction js) auto

lemma encode_table:
  assumes H: "H t = Some h" "lo \<le> t" "t < hi" "hi \<le> r" "distinct (map fst (t_node h))"
    and mark: "case t_metatable h of None \<Rightarrow> True | Some m \<Rightarrow> H m = Some \<lparr>t_node = array_meta, t_metatable = None\<rparr> \<and> m < hi"
    and es: "list_all2 (entry_encodes C E H r (Suc t) hi (t_metatable h \<noteq> None)) (traversal E (t_node h)) ms"
  shows "encodes C E H r lo hi (TTable t)
     (if t_metatable h \<noteq> None then JArray (map snd (drop_members ms)) else JObject (drop_members ms))"
  unfolding encodes_def
proof (intro allI impI)
  fix L s fuel ps
  assume L: "L_stack L = TTable t # s" "L_upvalue L = [TTable r]" "string_meta E r L"
    "\<forall>a < hi. G_heap L a = H a" "plain_table L r ps" "\<forall>t \<ge> lo. lookup ps (TTable t) = TNil" "hi - lo < fuel"
  obtain f where f: "fuel = Suc f" "hi - Suc t < f" using L(7) H(2,3) by (cases fuel) auto
  let ?ps1 = "alist_set (TTable t) (TBoolean True) ps"
  let ?L1 = "L\<lparr>G_heap := (G_heap L)(r \<mapsto> \<lparr>t_node = ?ps1, t_metatable = None\<rparr>)\<rparr>"
  let ?L2 = "?L1\<lparr>L_stack := TNil # TTable t # s\<rparr>"
  have st1: "L_stack ?L1 = TTable t # s" using L(1) by simp
  have p1: "plain_table ?L1 r ?ps1" "plain_table ?L2 r ?ps1" by (simp_all add: plain_table_def)
  have h1: "\<forall>a < hi. G_heap ?L1 a = H a" using L(4) H(4) by simp
  have m1: "marked ?L1 h" using mark h1 by (auto simp: marked_def split: option.splits)
  have hh: "G_heap ?L1 t = Some h" using h1 H(1,3) by simp
  have arr: "LuaTableIsJsonArray E ?L1 (lua_gettop ?L1) = ret (t_metatable h \<noteq> None, ?L1)"
    by (rule IsJsonArray_effect[OF st1 hh m1])
  have top: "lua_gettop L = int (length s) + 1" "lua_gettop ?L1 = int (length s) + 1" using L(1) by (simp_all add: lua_gettop_def)
  have lk: "\<forall>u \<ge> Suc t. lookup ?ps1 (TTable u) = TNil" using L(6) H(2) by simp
  have nx: "luaH_next E h TNil = ret (next_entry (traversal E (t_node h)))" by (rule luaH_next_first)
  obtain L' where L': "LuaTableToJson_loop (LuaValueToJson C E f) C E (int (length s) + 1) (t_metatable h \<noteq> None) [] ?L2 = ret (drop_members ms, L')"
      "same_refs r (?L2\<lparr>L_stack := TTable t # s\<rparr>) L'"
    using loop_children[OF es H(1,3,4,5), of "[]" ?L2 TNil s ?ps1 f "[]"] L(2,3) h1 p1(2) lk f(2) nx by auto
  have e12: "?L2\<lparr>L_stack := TTable t # s\<rparr> = ?L1" using L(1) by simp
  obtain qs where qs: "L' = ?L1\<lparr>G_heap := (G_heap ?L1)(r \<mapsto> \<lparr>t_node = qs, t_metatable = None\<rparr>)\<rparr>" "lookup qs = lookup ?ps1"
    using same_refsE[OF L'(2)[unfolded e12] p1(1)] by blast
  have st': "L_stack L' = TTable t # s" "L_upvalue L' = [TTable r]" "plain_table L' r qs" "lua_gettop L' = int (length s) + 1"
    using L(1,2) by (simp_all add: qs(1) plain_table_def lua_gettop_def)
  let ?qs = "alist_set (TTable t) TNil qs"
  let ?L3 = "L'\<lparr>G_heap := (G_heap L')(r \<mapsto> \<lparr>t_node = ?qs, t_metatable = None\<rparr>)\<rparr>"
  have rm: "RemoveTableRef E L' JSON_REF_TABLE_IDX (int (length s) + 1) = ret ?L3"
    using TableRef_effect(2)[OF st'(1-3), of E] st'(4) by simp
  have cyc: "IsRefCycle E L JSON_REF_TABLE_IDX (int (length s) + 1) = ret (False, L)"
    using IsRefCycle_effect[OF L(1,2,5), of E] L(6) H(2) top(1) by simp
  have add: "AddTableRef E L JSON_REF_TABLE_IDX (int (length s) + 1) = ret ?L1"
    using TableRef_effect(1)[OF L(1,2,5), of E] top(1) by simp
  have nil: "lua_pushnil ?L1 = ?L2" using L(1) by (simp add: lua_pushnil_def api_incr_top_def)
  have "LuaValueToJson C E fuel L
      = ret (Some (if t_metatable h \<noteq> None then JArray (map snd (drop_members ms)) else JObject (drop_members ms)), ?L3)"
    using top_value(2)[OF L(1)] cyc add arr L'(1) rm nil
    by (simp add: f(1) Let_def top LuaTableToJsonPrivate_def)
  moreover have "lookup ?qs = lookup ps" using qs(2) L(6) H(2) by (auto simp: fun_eq_iff)
  moreover have "?L3 = L\<lparr>G_heap := (G_heap L)(r \<mapsto> \<lparr>t_node = ?qs, t_metatable = None\<rparr>)\<rparr>" unfolding qs(1) by simp
  ultimately show "\<exists>L'. LuaValueToJson C E fuel L
      = ret (Some (if t_metatable h \<noteq> None then JArray (map snd (drop_members ms)) else JObject (drop_members ms)), L') \<and> same_refs r L L'"
    using same_refsI[OF L(5), of ?qs] by metis
qed

lemma list_all2_keys: "list_all2 (\<lambda>e m. fst e = f m \<and> P e m) es ms \<Longrightarrow> map fst es = map f ms"
  by (induction es ms rule: list_all2_induct) auto

lemma rep_encodes:
  assumes "rep H lo hi v j" "wf_json n j" "hi \<le> r" "n < 2 ^ 64 - 1"
    and keys: "\<forall>i \<le> n. \<exists>kb. number_key C (jc_of_integer C (of_nat i)) = ret kb"
  shows "encodes C E H r lo hi v (drop_nulls (visited E j))"
  using assms(1-3)
proof (induction rule: rep.induct)
  case (rep_string lo hi s)
  have tw: "takeWhile (\<lambda>c. c \<noteq> 0) s = s" using rep_string by (auto simp: takeWhile_eq_all_conv)
  show ?case unfolding encodes_def
  proof (intro allI impI)
    fix L :: "'a lua_State" and sa fuel ps
    assume L: "L_stack L = TString s # sa" "string_meta E r L" "plain_table L r ps" "hi - lo < fuel"
    then obtain f where f: "fuel = Suc f" by (cases fuel) auto
    have "luaL_tolstring E L (lua_gettop L) = ret (Some s, api_incr_top (TString s) L)"
      by (rule tolstring_at[OF top_value(1)[OF L(1)] _ top_value(4)[OF L(1)] L(2)])
        (simp add: lua_absindex_def top_value(3)[OF L(1)])
    then have "LuaValueToJson C E fuel L = ret (Some (drop_nulls (visited E (JString s))), L)"
      using top_value(2)[OF L(1)] tw by (simp add: f Let_def lua_simps stack_same)
    then show "\<exists>L'. LuaValueToJson C E fuel L = ret (Some (drop_nulls (visited E (JString s))), L') \<and> same_refs r L L'"
      using same_refs_refl[OF L(3)] by blast
  qed
next
  case (rep_object t es lo hi ms)
  have wf: "distinct (map fst ms)" "wf_members n ms" using rep_object.prems(1) by simp_all
  have k: "map fst es = map (\<lambda>m. TString (fst m)) ms"
    by (rule list_all2_keys[OF rep_object.IH])
  then have "distinct (map fst es)" using wf(1) by (simp add: distinct_map inj_on_def)
  moreover have "list_all2 (entry_encodes C E H r (Suc t) hi False) (traversal E es)
      (in_order E (map (\<lambda>m. TString (fst m)) ms) (visited_members E ms))"
  proof (rule in_order_rel[OF k])
    show "distinct (map (\<lambda>m. TString (fst m) :: 'a tvalue) ms)" using wf(1) by (simp add: distinct_map inj_on_def)
    show le: "length (visited_members E ms) = length es"
      using list_all2_lengthD[OF rep_object.IH] by (simp add: visited_members_map)
    fix i assume i: "i < length es"
    then have i': "i < length ms" "ms ! i \<in> set ms" using le by (simp_all add: visited_members_map)
    have "fst (es ! i) = TString (fst (ms ! i)) \<and> rep H (Suc t) hi (snd (es ! i)) (snd (ms ! i)) \<and>
        (wf_json n (snd (ms ! i)) \<longrightarrow> hi \<le> r \<longrightarrow> encodes C E H r (Suc t) hi (snd (es ! i)) (drop_nulls (visited E (snd (ms ! i)))))"
      by (rule list_all2_nthD[OF rep_object.IH i])
    then show "entry_encodes C E H r (Suc t) hi False (es ! i) (visited_members E ms ! i)"
      using wf(2) rep_object.prems(2) rep_null_iff[of H "Suc t" hi "snd (es ! i)" "snd (ms ! i)"] i'
      by (simp add: entry_encodes_def key_of_def wf_members_iff visited_members_map)
  qed
  ultimately show ?case
    using encode_table[of H t "\<lparr>t_node = es, t_metatable = None\<rparr>" lo hi r C E "in_order E (map (\<lambda>m. TString (fst m)) ms) (visited_members E ms)"]
      rep_object.hyps(1-3) rep_object.prems(2) by simp
next
  case (rep_array t es mt lo hi js)
  have wf: "length js \<le> n" "wf_elems n js" using rep_array.prems(1) by simp_all
  have lk: "length (array_keys (length js)) = length js" unfolding array_keys_def by (simp only: length_map length_upt)
  have k: "map fst es = array_keys (length js)"
    using list_all2_keys[OF rep_array.IH] map_fst_zip[OF lk] by (rule trans)
  have "distinct (map fst es)" unfolding k using wf(1) assms(4) by (intro array_keys_distinct) simp
  moreover have "list_all2 (entry_encodes C E H r (Suc t) hi True) (traversal E es)
      (in_order E (array_keys (length js)) (map (\<lambda>j. ([], j)) (visited_elems E js)))"
  proof (rule in_order_rel[OF k])
    show "distinct (array_keys (length js) :: 'a tvalue list)" using calculation unfolding k .
    have le: "length es = length js" using k lk by (metis length_map)
    then show "length (map (\<lambda>j. ([], j)) (visited_elems E js)) = length es" by (simp add: visited_elems_map)
    fix i assume "i < length es"
    then have i: "i < length js" using le by simp
    have z: "zip (array_keys (length js)) js ! i = (TInteger (of_nat (i + 1)), js ! i)"
      using i lk by (simp add: array_keys_def del: upt_Suc)
    have p: "fst (es ! i) = TInteger (of_nat (i + 1)) \<and> rep H (Suc t) hi (snd (es ! i)) (js ! i) \<and>
        (wf_json n (js ! i) \<longrightarrow> hi \<le> r \<longrightarrow> encodes C E H r (Suc t) hi (snd (es ! i)) (drop_nulls (visited E (js ! i))))"
      using list_all2_nthD[OF rep_array.IH, of i] i le unfolding z by simp
    have "wf_json n (js ! i)" using wf(2) i by (simp add: wf_elems_iff)
    moreover have "\<exists>kb. number_key C (jc_of_integer C (of_nat (i + 1))) = ret kb"
      by (rule keys[rule_format]) (use i wf(1) in linarith)
    ultimately show "entry_encodes C E H r (Suc t) hi True (es ! i) (map (\<lambda>j. ([], j)) (visited_elems E js) ! i)"
      using p i rep_array.prems(2) rep_null_iff[of H "Suc t" hi "snd (es ! i)" "js ! i"]
      by (auto simp: entry_encodes_def key_of_def visited_elems_map simp del: of_nat_Suc of_nat_add)
  qed
  moreover have "in_order E (array_keys (length js)) (map (\<lambda>j. ([] :: bytes, j)) (visited_elems E js))
      = map (\<lambda>j. ([], j)) (in_order E (array_keys (length js)) (visited_elems E js))"
    using calculation(1) lk unfolding k by (intro in_order_map) (simp_all only: visited_elems_map length_map lk)
  ultimately show ?case
    using encode_table[of H t "\<lparr>t_node = es, t_metatable = Some mt\<rparr>" lo hi r C E
        "in_order E (array_keys (length js)) (map (\<lambda>j. ([], j)) (visited_elems E js))"] rep_array.hyps rep_array.prems(2)
    by (simp add: drop_array)
qed (auto simp: encodes_def top_value lua_tonumber_def lua_toboolean_def index2addr_def lua_gettop_def Let_def lua_type_of_def
      nat_add_distrib value_at_def gr0_conv_Suc dest!: less_imp_Suc_add intro: same_refs_refl)

end
