(* ===== verification/JsonLuaTrip.thy ===== *)
theory JsonLuaTrip
  imports JsonLuaEncode
begin

text \<open>
  \<open>json.decode\<close> followed by \<open>json.encode\<close> on one Lua state, and the values \<open>json.encode\<close> cannot
  take: a value of a type JSON does not have, and a number as a key with too many digits.
\<close>

text \<open>The strings have no metamethod \<open>__tostring\<close>.\<close>

definition no_tostring :: "'d lua_env \<Rightarrow> 'd lua_State \<Rightarrow> bool" where
  "no_tostring E L \<longleftrightarrow> (case G_mt L LUA_TSTRING of None \<Rightarrow> True
     | Some m \<Rightarrow> (\<exists>h. G_heap L m = Some h \<and> luaH_get E h (TString (str ''__tostring'')) = TNil))"

lemma no_tostring_later:
  assumes "no_tostring E L" "fresh_heap L" "G_mt L' = G_mt L" "\<forall>a < G_next L. G_heap L' a = G_heap L a" "G_next L \<le> r"
  shows "string_meta E r L'"
proof (cases "G_mt L LUA_TSTRING")
  case (Some m)
  then obtain h where h: "G_heap L m = Some h" "luaH_get E h (TString (str ''__tostring'')) = TNil"
    using assms(1) by (auto simp: no_tostring_def)
  then have "m < G_next L" using assms(2) by (cases "m < G_next L") (auto simp: fresh_heap_def)
  then show ?thesis using h assms(3-5) Some by (auto simp: string_meta_def)
qed (simp add: string_meta_def assms(3))

lemma JsonToLuaValue_effect:
  assumes "lua_json n j" "n < 2 ^ 64 - 1" "fresh_heap L"
  shows "\<exists>v L'. JsonToLuaValue E j L = ret L' \<and> pushes L v L' \<and> rep (G_heap L') (G_next L) (G_next L') v (dedup j)"
  using value_to_lua[OF assms, of E]
  by (auto simp: JsonToLuaValue_def ValuePrivate_push with_key_def need_key_def)

lemma JsonDecode_effect:
  assumes "L_stack L = [TString text]" "fresh_heap L" "json_decode (jc_strtod C) (text @ [0]) = ret (Some j)"
    "lua_json n j" "n < 2 ^ 64 - 1"
  shows "\<exists>v L'. LuaDB_JsonDecode C E L = ret (1, L') \<and> pushes L v L' \<and> rep (G_heap L') (G_next L) (G_next L') v (dedup j)"
proof -
  have "lua_tolstring E L 1 = ret (Some text, L)"
    using assms(1) by (simp add: lua_tolstring_def value_at_def index2addr_def Let_def)
  then show ?thesis
    using assms(3) JsonToLuaValue_effect[OF assms(4,5,2), of E] by (auto simp: LuaDB_JsonDecode_def)
qed

text \<open>The call of the encoder: a new table of references, and the value in a frame of its own.\<close>

lemma JsonEncode_effect:
  assumes "L_stack L = v # s" "fresh_heap L" "string_meta E (G_next L) L"
    "rep (G_heap L) lo (G_next L) v j" "wf_json n j" "n < 2 ^ 64 - 1"
    "\<forall>i \<le> n. \<exists>kb. number_key C (jc_of_integer C (of_nat i)) = ret kb"
    "json_encode (jc_fmt C) (drop_nulls (visited E j)) = ret out" "0 \<notin> set out"
  shows "\<exists>L'. LuaDB_JsonEncode C E L = ret (1, L') \<and> L_stack L' = TString out # s"
proof -
  let ?r = "G_next L"
  let ?L1 = "(lua_createtable L)\<lparr>L_stack := [v], L_upvalue := [TTable ?r]\<rparr>"
  have enc: "encodes C E (G_heap L) ?r lo ?r v (drop_nulls (visited E j))"
    by (rule rep_encodes[OF assms(4,5) _ assms(6,7)]) simp
  have p: "plain_table ?L1 ?r []" "\<forall>a < ?r. G_heap ?L1 a = G_heap L a" "string_meta E ?r ?L1"
    using assms(3) by (auto simp: plain_table_def lua_createtable_def string_meta_def api_incr_top_def split: option.splits)
  have "\<exists>L'. LuaValueToJson C E (G_next ?L1 + 1) ?L1 = ret (Some (drop_nulls (visited E j)), L') \<and> same_refs ?r ?L1 L'"
    by (rule encodesD[OF enc _ _ p(3,2,1)]) (simp_all add: lookup_def lua_createtable_def)
  then obtain L2 where L2: "LuaValueToJson C E (G_next ?L1 + 1) ?L1 = ret (Some (drop_nulls (visited E j)), L2)" "same_refs ?r ?L1 L2"
    by blast
  have "JsonEncodePrivate C E ?L1 = ret (1, api_incr_top (TString out) L2)"
    using L2(1) assms(8,9) by (simp add: JsonEncodePrivate_def lua_simps)
  then show ?thesis
    using assms(1) by (simp add: LuaDB_JsonEncode_def lua_createtable_def Let_def api_incr_top_def value_at_neg(1))
qed

subsection \<open>Properties\<close>

text \<open>C13: decoding a JSON text into Lua tables and encoding the result again gives the JSON text of the
  normal form of the tree: of several members with one key the last value, no nulls, in objects as in
  arrays, and the members of an object and the elements of an array in the order in which \<open>lua_next\<close> visits
  their table, whatever that order is; no member and no element is lost or repeated. The tables, the metatables
  that mark arrays and the table of references are those of the Lua state, and no reference cycle is reported.\<close>

theorem LuaDB_JsonDecode_JsonEncode:
  assumes "L_stack L = [TString text]" "fresh_heap L" "no_tostring E L"
    and "json_decode (jc_strtod C) (text @ [0]) = ret (Some j)" "lua_json n j" "n < 2 ^ 64 - 1"
    and "\<forall>i \<le> n. \<exists>kb. number_key C (jc_of_integer C (of_nat i)) = ret kb"
    and "json_ok (jc_fmt C) (drop_nulls (visited E (dedup j)))"
  shows "\<exists>v L1 L2. LuaDB_JsonDecode C E L = ret (1, L1) \<and> L_stack L1 = v # L_stack L
       \<and> LuaDB_JsonEncode C E (L1\<lparr>L_stack := [v]\<rparr>) = ret (1, L2)
       \<and> L_stack L2 = [TString (value_text (jc_fmt C) (drop_nulls (visited E (dedup j))))]
       \<and> reordered (dedup j) (visited E (dedup j))"
proof -
  obtain v L1 where L1: "LuaDB_JsonDecode C E L = ret (1, L1)" "pushes L v L1"
      "rep (G_heap L1) (G_next L) (G_next L1) v (dedup j)"
    using JsonDecode_effect[OF assms(1,2,4-6)] by blast
  have p: "L_stack L1 = v # L_stack L" "fresh_heap L1" "G_next L \<le> G_next L1" "\<forall>a < G_next L. G_heap L1 a = G_heap L a"
      "G_mt L1 = G_mt L"
    using L1(2) unfolding pushes_def by (metis lua_State.select_convs(1,5) lua_State.surjective lua_State.update_convs(1,3,4))+
  let ?L = "L1\<lparr>L_stack := [v]\<rparr>"
  have m: "string_meta E (G_next ?L) ?L" using no_tostring_later[OF assms(3,2), of ?L] p by simp
  have f: "fresh_heap ?L" using p(2) by (simp add: fresh_heap_def)
  have r: "rep (G_heap ?L) (G_next L) (G_next ?L) v (dedup j)" using L1(3) by simp
  obtain L2 where "LuaDB_JsonEncode C E ?L = ret (1, L2)" "L_stack L2 = [TString (value_text (jc_fmt C) (drop_nulls (visited E (dedup j))))]"
    using JsonEncode_effect[OF _ f m r dedup_wf(1)[OF assms(5)] assms(6,7) json_encode_value[OF assms(8)] text_no_NUL(1)[OF assms(8)]]
    by auto
  then show ?thesis using L1(1) p(1) visited_reordered(1)[OF assms(6) dedup_wf(1)[OF assms(5)]] by blast
qed

definition example_json_c :: "unit json_c" where
  "example_json_c = \<lparr>jc_of_integer = \<lambda>_. (), jc_to_integer = \<lambda>_. 0, jc_diff_zero = \<lambda>_ _. True,
     jc_fmt_f = \<lambda>_. [], jc_fmt = \<lambda>_. [0x31], jc_strtod = \<lambda>_. ()\<rparr>"

definition example_json :: "unit json" where
  "example_json = JObject [([0x61], JBool True), ([0x62], JArray [JNumber (), JNull, JObject []]), ([0x61], JNumber ())]"

lemma example_decodes:
  "json_decode (jc_strtod example_json_c) (value_text (jc_fmt example_json_c) example_json @ [0]) = ret (Some example_json)"
proof (rule json_decode_value)
  have "number_is_valid [0x31, 0] = ret True" by code_simp
  then show "exact (jc_fmt example_json_c) example_json"
    using utf8_validate_True by (simp add: example_json_def example_json_c_def)
  show "json_ok (jc_fmt example_json_c) example_json"
    using utf8_validate_True by (simp add: example_json_def example_json_c_def utf8_validate.simps utf8_validate_cz_def)
qed (simp add: reads_back_def)

text \<open>An environment whose tables are visited backwards.\<close>

abbreviation backwards_env :: "unit lua_env" where
  "backwards_env \<equiv> example_env\<lparr>le_order := rev\<rparr>"

lemma example_visited:
  "drop_nulls (visited backwards_env (dedup example_json))
    = JObject [([0x62], JArray [JObject [], JNumber ()]), ([0x61], JNumber ())]"
  by (simp add: example_json_def in_order_def traversal_def visit_order_def array_keys_def numeral_eq_Suc)

theorem LuaDB_JsonDecode_JsonEncode_witness:
  "\<exists>v L1 L2. LuaDB_JsonDecode example_json_c backwards_env
         (example_state\<lparr>L_stack := [TString (value_text (jc_fmt example_json_c) example_json)]\<rparr>) = ret (1, L1)
     \<and> LuaDB_JsonEncode example_json_c backwards_env (L1\<lparr>L_stack := [v]\<rparr>) = ret (1, L2)
     \<and> L_stack L2 = [TString (value_text (jc_fmt example_json_c)
           (JObject [([0x62], JArray [JObject [], JNumber ()]), ([0x61], JNumber ())]))]"
proof -
  let ?L = "example_state\<lparr>L_stack := [TString (value_text (jc_fmt example_json_c) example_json)]\<rparr>"
  have "\<exists>v L1 L2. LuaDB_JsonDecode example_json_c backwards_env ?L = ret (1, L1) \<and> L_stack L1 = v # L_stack ?L
     \<and> LuaDB_JsonEncode example_json_c backwards_env (L1\<lparr>L_stack := [v]\<rparr>) = ret (1, L2)
     \<and> L_stack L2 = [TString (value_text (jc_fmt example_json_c) (drop_nulls (visited backwards_env (dedup example_json))))]
     \<and> reordered (dedup example_json) (visited backwards_env (dedup example_json))"
  proof (rule LuaDB_JsonDecode_JsonEncode[where n = 3])
    show "json_ok (jc_fmt example_json_c) (drop_nulls (visited backwards_env (dedup example_json)))"
      unfolding example_visited using utf8_validate_True
      by (simp add: example_json_c_def utf8_validate.simps utf8_validate_cz_def)
  next
    show "json_decode (jc_strtod example_json_c) (value_text (jc_fmt example_json_c) example_json @ [0]) = ret (Some example_json)"
      by (rule example_decodes)
  qed (simp_all add: fresh_heap_def example_state_def no_tostring_def number_key_def LuaDB_NumberIsInt_def
      example_json_c_def example_json_def int_dec_def nat_dec.simps JSON_STRING_KEY_DIGITS_def)
  then show ?thesis unfolding example_visited by blast
qed

text \<open>C40: \<open>json.encode\<close> of a value of a type that JSON does not have, a function or a userdata, is not
  a Lua error: no node is made for it and the printer follows the null pointer.\<close>

theorem LuaDB_JsonEncode_null_node:
  assumes "L_stack L = v # s" "ttnov v \<in> {LUA_TFUNCTION, LUA_TUSERDATA}"
  shows "LuaDB_JsonEncode C E L = throw Null_Deref"
proof -
  let ?L = "(lua_createtable L)\<lparr>L_stack := [v], L_upvalue := [TTable (G_next L)]\<rparr>"
  have "lua_type_of ?L (lua_gettop ?L) = ret (ttnov v)" by (rule top_value(2)) simp
  then have "LuaValueToJson C E (G_next ?L + 1) ?L = ret (None, ?L)"
    using assms(2) by (auto simp: Let_def)
  then show ?thesis
    using assms(1) by (simp add: LuaDB_JsonEncode_def JsonEncodePrivate_def lua_createtable_def Let_def api_incr_top_def)
qed

theorem LuaDB_JsonEncode_null_node_witness:
  "LuaDB_JsonEncode example_json_c example_env (example_state\<lparr>L_stack := [TUserdata 0]\<rparr>) = throw Null_Deref"
  by (rule LuaDB_JsonEncode_null_node[where v = "TUserdata 0" and s = "[]"]) simp_all

text \<open>An array is converted with its indices as keys, so the buffer of the key bounds its length.\<close>

lemma table_key_overrun:
  assumes "L_stack L = v # TInteger i # s" "LuaDB_NumberIsInt C (jc_of_integer C i) = Some i"
    "JSON_STRING_KEY_DIGITS \<le> length (int_dec (sint i))"
  shows "table_key C E L (int (length s) + 1) = throw Out_Of_Bounds"
  using assms
  by (simp add: table_key_def lua_type_of_def value_at_def index2addr_def Let_def nat_add_distrib lua_tonumber_def number_key_def)

end
