(* ===== verification/MdbMidl.thy ===== *)
theory MdbMidl
  imports Prelude
begin

text \<open>
  The ID lists of \<open>src/src/deps/lmdb/midl.c\<close>: lists of page numbers in descending order, the list of
  dirty pages in ascending order.

  An \<open>MDB_IDL\<close> that is only read and written from \<open>ids[0]\<close> on, the number of its elements, is the
  list of its words from there to the end of the block. Where \<open>ids[-1]\<close>, the room for elements, is
  used it is a record. A word outside the block is the fault \<open>Out_Of_Bounds\<close>. A variable of type
  \<open>unsigned\<close> is a 32-bit word and wraps around; the indices of type \<open>int\<close> of \<open>mdb_midl_sort\<close> are
  natural numbers, and the one sum of two of them is checked. \<open>malloc n\<close> gives the contents of a new
  block of \<open>n\<close> words, \<open>None\<close> is NULL.
\<close>

type_synonym MDB_ID = size_t

record midl =
  m_alloclen :: MDB_ID
  m_ids :: "MDB_ID list"

definition MDB_IDL_UM_SIZE :: nat where "MDB_IDL_UM_SIZE = 131072"
definition MDB_IDL_UM_MAX :: nat where "MDB_IDL_UM_MAX = MDB_IDL_UM_SIZE - 1"
definition ENOMEM :: int where "ENOMEM = 12"

definition get :: "'a list \<Rightarrow> nat \<Rightarrow> 'a exec" where
  "get xs i = (if i < length xs then ret (xs ! i) else throw Out_Of_Bounds)"

definition put :: "'a list \<Rightarrow> nat \<Rightarrow> 'a \<Rightarrow> 'a list exec" where
  "put xs i x = (if i < length xs then ret (xs[i := x]) else throw Out_Of_Bounds)"

definition CMP :: "MDB_ID \<Rightarrow> MDB_ID \<Rightarrow> int" where
  "CMP x y = (if x < y then - 1 else if x > y then 1 else 0)"

subsection \<open>Binary search\<close>

text \<open>The loop of both searches; \<open>cmp\<close> compares an element with what is searched for.\<close>

function midl_search_loop :: "('a \<Rightarrow> int) \<Rightarrow> 'a list \<Rightarrow> 32 word \<Rightarrow> 32 word \<Rightarrow> int \<Rightarrow> 32 word \<Rightarrow> 32 word exec" where
  "midl_search_loop cmp ids base cursor val n =
     (if 0 < n then
        let pivot = drop_bit 1 n; cursor = base + pivot + 1
        in xbind (get ids (unat cursor)) (\<lambda>x.
           let val = cmp x
           in if val < 0 then midl_search_loop cmp ids base cursor val pivot
              else if val > 0 then midl_search_loop cmp ids cursor cursor val (n - (pivot + 1))
              else ret cursor)
      else ret (if val > 0 then cursor + 1 else cursor))"
  by pat_completeness auto

lemma half_word:
  fixes n :: "32 word"
  shows "0 < n \<Longrightarrow> unat (drop_bit 1 n) < unat n \<and> unat (n - (drop_bit 1 n + 1)) < unat n"
proof -
  assume n: "0 < n"
  have d: "unat (drop_bit 1 n) = unat n div 2" by (simp add: drop_bit_eq_div unat_div)
  have p: "0 < unat n" using n by (simp add: word_less_nat_alt)
  then have s: "unat (drop_bit 1 n + 1 :: 32 word) = unat n div 2 + 1"
    using d p unsigned_less[of n, where ?'a = nat] by (simp add: unat_word_ariths(1))
  then have "drop_bit 1 n + 1 \<le> n" using p by (simp add: word_le_nat_alt)
  then show ?thesis using d s p by (simp add: unat_sub)
qed

termination midl_search_loop
  by (relation "measure (\<lambda>(cmp, ids, base, cursor, val, n). unat n)") (use half_word in simp_all)

definition mdb_midl_search :: "MDB_ID list \<Rightarrow> MDB_ID \<Rightarrow> 32 word exec" where
  "mdb_midl_search ids key = xbind (get ids 0) (\<lambda>n. midl_search_loop (\<lambda>x. CMP x key) ids 0 1 0 (ucast n))"

subsection \<open>Allocation\<close>

definition mdb_midl_alloc :: "(nat \<Rightarrow> MDB_ID list option) \<Rightarrow> nat \<Rightarrow> midl option exec" where
  "mdb_midl_alloc malloc num =
     (case malloc (num + 2) of
        None \<Rightarrow> ret None
      | Some b \<Rightarrow>
          xbind (put b 0 (of_nat num)) (\<lambda>b.
          xbind (put b 1 0) (\<lambda>b. ret (Some \<lparr>m_alloclen = b ! 0, m_ids = tl b\<rparr>))))"

text \<open>\<open>realloc\<close> to \<open>n\<close> words keeps what fits.\<close>

definition realloc :: "(nat \<Rightarrow> MDB_ID list option) \<Rightarrow> midl \<Rightarrow> nat \<Rightarrow> midl option" where
  "realloc malloc m n =
     (case malloc n of
        None \<Rightarrow> None
      | Some b \<Rightarrow> (case take n (m_alloclen m # m_ids m) @ drop (Suc (length (m_ids m))) b of
          [] \<Rightarrow> None
        | c # ids \<Rightarrow> Some \<lparr>m_alloclen = c, m_ids = ids\<rparr>))"

definition mdb_midl_shrink :: "(nat \<Rightarrow> MDB_ID list option) \<Rightarrow> midl \<Rightarrow> bool \<times> midl" where
  "mdb_midl_shrink malloc m =
     (if m_alloclen m > of_nat MDB_IDL_UM_MAX then
        case realloc malloc m (MDB_IDL_UM_MAX + 1) of
          Some m \<Rightarrow> (True, m\<lparr>m_alloclen := of_nat MDB_IDL_UM_MAX\<rparr>)
        | None \<Rightarrow> (False, m)
      else (False, m))"

definition mdb_midl_grow :: "(nat \<Rightarrow> MDB_ID list option) \<Rightarrow> midl \<Rightarrow> MDB_ID \<Rightarrow> int \<times> midl" where
  "mdb_midl_grow malloc m num =
     (case realloc malloc m (unat (m_alloclen m + num + 2)) of
        None \<Rightarrow> (ENOMEM, m)
      | Some m \<Rightarrow> (0, m\<lparr>m_alloclen := m_alloclen m + num\<rparr>))"

definition mdb_midl_need :: "(nat \<Rightarrow> MDB_ID list option) \<Rightarrow> midl \<Rightarrow> 32 word \<Rightarrow> (int \<times> midl) exec" where
  "mdb_midl_need malloc m num =
     xbind (get (m_ids m) 0) (\<lambda>len.
     let num = num + ucast len
     in if ucast num > m_alloclen m then
          let num = (num + num div 4 + (256 + 2)) AND - 256
          in case realloc malloc m (unat num) of
               None \<Rightarrow> ret (ENOMEM, m)
             | Some m \<Rightarrow> ret (0, m\<lparr>m_alloclen := ucast (num - 2)\<rparr>)
        else ret (0, m))"

subsection \<open>Appending\<close>

definition mdb_midl_xappend :: "MDB_ID list \<Rightarrow> MDB_ID \<Rightarrow> MDB_ID list exec" where
  "mdb_midl_xappend ids key =
     xbind (get ids 0) (\<lambda>len.
     xbind (put ids 0 (len + 1)) (\<lambda>ids. put ids (unat (len + 1)) key))"

definition mdb_midl_append :: "(nat \<Rightarrow> MDB_ID list option) \<Rightarrow> midl \<Rightarrow> MDB_ID \<Rightarrow> (int \<times> midl) exec" where
  "mdb_midl_append malloc m key =
     xbind (get (m_ids m) 0) (\<lambda>len.
     let (rc, m) = (if len \<ge> m_alloclen m then mdb_midl_grow malloc m (of_nat MDB_IDL_UM_MAX) else (0, m))
     in if rc \<noteq> 0 then ret (ENOMEM, m)
        else xbind (mdb_midl_xappend (m_ids m) key) (\<lambda>ids. ret (0, m\<lparr>m_ids := ids\<rparr>)))"

text \<open>\<open>memcpy(&dst[i], &src[j], n)\<close> of words.\<close>

definition copy_ids :: "MDB_ID list \<Rightarrow> nat \<Rightarrow> MDB_ID list \<Rightarrow> nat \<Rightarrow> nat \<Rightarrow> MDB_ID list exec" where
  "copy_ids dst i src j n =
     (if i + n \<le> length dst \<and> j + n \<le> length src
      then ret (take i dst @ take n (drop j src) @ drop (i + n) dst) else throw Out_Of_Bounds)"

definition mdb_midl_append_list :: "(nat \<Rightarrow> MDB_ID list option) \<Rightarrow> midl \<Rightarrow> MDB_ID list \<Rightarrow> (int \<times> midl) exec" where
  "mdb_midl_append_list malloc m app =
     xbind (get (m_ids m) 0) (\<lambda>len.
     xbind (get app 0) (\<lambda>n.
     let (rc, m) = (if len + n \<ge> m_alloclen m then mdb_midl_grow malloc m (scast (ucast n :: 32 word)) else (0, m))
     in if rc \<noteq> 0 then ret (ENOMEM, m)
        else
          xbind (copy_ids (m_ids m) (unat (len + 1)) app 1 (unat n)) (\<lambda>ids.
          xbind (put ids 0 (len + n)) (\<lambda>ids. ret (0, m\<lparr>m_ids := ids\<rparr>)))))"

text \<open>The loop that writes the ids; the word at \<open>base + n\<close> is \<open>ids[n]\<close>.\<close>

fun append_range_loop :: "MDB_ID list \<Rightarrow> nat \<Rightarrow> MDB_ID \<Rightarrow> nat \<Rightarrow> MDB_ID list exec" where
  "append_range_loop ids base key 0 = ret ids"
| "append_range_loop ids base key (Suc n) =
     xbind (put ids (base + Suc n) key) (\<lambda>ids. append_range_loop ids base (key + 1) n)"

definition mdb_midl_append_range :: "(nat \<Rightarrow> MDB_ID list option) \<Rightarrow> midl \<Rightarrow> MDB_ID \<Rightarrow> 32 word \<Rightarrow> (int \<times> midl) exec" where
  "mdb_midl_append_range malloc m key n =
     xbind (get (m_ids m) 0) (\<lambda>len.
     let (rc, m) = (if len + ucast n > m_alloclen m
                    then mdb_midl_grow malloc m (scast (n OR of_nat MDB_IDL_UM_MAX)) else (0, m))
     in if rc \<noteq> 0 then ret (ENOMEM, m)
        else
          xbind (put (m_ids m) 0 (len + ucast n)) (\<lambda>ids.
          xbind (append_range_loop ids (unat len) key (unat n)) (\<lambda>ids. ret (0, m\<lparr>m_ids := ids\<rparr>))))"

subsection \<open>Merging\<close>

text \<open>The inner loop. \<open>k\<close> is the sum of \<open>j\<close> and of the number of ids still to be merged, the one at
  hand included, so it is not 0 where the code decrements it.\<close>

fun xmerge_shift :: "MDB_ID list \<Rightarrow> MDB_ID \<Rightarrow> MDB_ID \<Rightarrow> nat \<Rightarrow> nat \<Rightarrow> (MDB_ID list \<times> MDB_ID \<times> nat \<times> nat) exec" where
  "xmerge_shift idl merge_id old_id 0 k =
     (if old_id < merge_id then throw Out_Of_Bounds else ret (idl, old_id, 0, k))"
| "xmerge_shift idl merge_id old_id (Suc j) k =
     (if old_id < merge_id then
        xbind (put idl k old_id) (\<lambda>idl.
        xbind (get idl j) (\<lambda>old_id. xmerge_shift idl merge_id old_id j (k - 1)))
      else ret (idl, old_id, Suc j, k))"

fun xmerge_loop :: "MDB_ID list \<Rightarrow> MDB_ID list \<Rightarrow> MDB_ID \<Rightarrow> nat \<Rightarrow> nat \<Rightarrow> nat \<Rightarrow> MDB_ID list exec" where
  "xmerge_loop idl merge old_id 0 j k = ret idl"
| "xmerge_loop idl merge old_id (Suc i) j k =
     xbind (get merge (Suc i)) (\<lambda>merge_id.
     xbind (xmerge_shift idl merge_id old_id j k) (\<lambda>(idl, old_id, j, k).
     xbind (put idl k merge_id) (\<lambda>idl. xmerge_loop idl merge old_id i j (k - 1))))"

definition mdb_midl_xmerge :: "MDB_ID list \<Rightarrow> MDB_ID list \<Rightarrow> MDB_ID list exec" where
  "mdb_midl_xmerge idl merge =
     xbind (get merge 0) (\<lambda>i.
     xbind (get idl 0) (\<lambda>j.
     let total = i + j
     in xbind (put idl 0 (- 1)) (\<lambda>idl.
        xbind (get idl (unat j)) (\<lambda>old_id.
        xbind (xmerge_loop idl merge old_id (unat i) (unat j) (unat total)) (\<lambda>idl. put idl 0 total)))))"

subsection \<open>Sorting\<close>

definition SMALL :: nat where "SMALL = 8"
definition ISTACK_SIZE :: nat where "ISTACK_SIZE = 64"

definition swap :: "MDB_ID list \<Rightarrow> nat \<Rightarrow> nat \<Rightarrow> MDB_ID list exec" where
  "swap ids a b = xbind (get ids a) (\<lambda>x. xbind (get ids b) (\<lambda>y. xbind (put ids a y) (\<lambda>ids. put ids b x)))"

definition swap_if_less :: "MDB_ID list \<Rightarrow> nat \<Rightarrow> nat \<Rightarrow> MDB_ID list exec" where
  "swap_if_less ids a b = xbind (get ids a) (\<lambda>x. xbind (get ids b) (\<lambda>y. if x < y then swap ids a b else ret ids))"

text \<open>The insertion sort: the inner loop leaves the place for \<open>a\<close> behind \<open>i\<close>.\<close>

fun insert_shift :: "MDB_ID list \<Rightarrow> MDB_ID \<Rightarrow> nat \<Rightarrow> (MDB_ID list \<times> nat) exec" where
  "insert_shift ids a 0 = ret (ids, 0)"
| "insert_shift ids a (Suc i) =
     xbind (get ids (Suc i)) (\<lambda>x.
     if x \<ge> a then ret (ids, Suc i)
     else xbind (put ids (Suc i + 1) x) (\<lambda>ids. insert_shift ids a i))"

function insertion_sort :: "MDB_ID list \<Rightarrow> nat \<Rightarrow> nat \<Rightarrow> MDB_ID list exec" where
  "insertion_sort ids j ir =
     (if j \<le> ir then
        xbind (get ids j) (\<lambda>a.
        xbind (insert_shift ids a (j - 1)) (\<lambda>(ids, i).
        xbind (put ids (i + 1) a) (\<lambda>ids. insertion_sort ids (j + 1) ir)))
      else ret ids)"
  by pat_completeness auto
termination by (relation "measure (\<lambda>(ids, j, ir). Suc ir - j)") auto

text \<open>\<open>do i++; while(ids[i] > a);\<close> and \<open>do j--; while(ids[j] < a);\<close>\<close>

function scan_up :: "MDB_ID list \<Rightarrow> MDB_ID \<Rightarrow> nat \<Rightarrow> nat exec" where
  "scan_up ids a i = xbind (get ids (i + 1)) (\<lambda>x. if x > a then scan_up ids a (i + 1) else ret (i + 1))"
  by pat_completeness auto
termination by (relation "measure (\<lambda>(ids, a, i). length ids - i)") (auto simp: get_def split: if_splits)

fun scan_down :: "MDB_ID list \<Rightarrow> MDB_ID \<Rightarrow> nat \<Rightarrow> nat exec" where
  "scan_down ids a 0 = throw Out_Of_Bounds"
| "scan_down ids a (Suc j) = xbind (get ids j) (\<lambda>x. if x < a then scan_down ids a j else ret j)"

partial_function (option) partition_loop ::
  "MDB_ID list \<Rightarrow> MDB_ID \<Rightarrow> nat \<Rightarrow> nat \<Rightarrow> (MDB_ID list \<times> nat \<times> nat) exec" where
  "partition_loop ids a i j =
     xbind (scan_up ids a i) (\<lambda>i.
     xbind (scan_down ids a j) (\<lambda>j.
     if j < i then ret (ids, i, j)
     else xbind (swap ids i j) (\<lambda>ids. partition_loop ids a i j)))"

text \<open>The partition of \<open>l\<close> to \<open>ir\<close> around the median of three.\<close>

definition median_of_three :: "MDB_ID list \<Rightarrow> nat \<Rightarrow> nat \<Rightarrow> MDB_ID list exec" where
  "median_of_three ids l ir =
     xbind (if l + ir < 2 ^ 31 then ret ((l + ir) div 2) else throw Signed_Overflow) (\<lambda>k.
     xbind (swap ids k (l + 1)) (\<lambda>ids.
     xbind (swap_if_less ids l ir) (\<lambda>ids.
     xbind (swap_if_less ids (l + 1) ir) (\<lambda>ids. swap_if_less ids l (l + 1)))))"

definition partition_ids :: "MDB_ID list \<Rightarrow> nat \<Rightarrow> nat \<Rightarrow> (MDB_ID list \<times> nat \<times> nat) exec" where
  "partition_ids ids l ir =
     xbind (median_of_three ids l ir) (\<lambda>ids.
     xbind (get ids (l + 1)) (\<lambda>a.
     xbind (partition_loop ids a (l + 1) ir) (\<lambda>(ids, i, j).
     xbind (get ids j) (\<lambda>x.
     xbind (put ids (l + 1) x) (\<lambda>ids.
     xbind (put ids j a) (\<lambda>ids. ret (ids, i, j)))))))"

text \<open>\<open>istack\<close> from the top: \<open>jstack\<close> is twice its length, and the pairs are pushed at
  \<open>istack[jstack]\<close> and \<open>istack[jstack-1]\<close>.\<close>

partial_function (option) midl_sort_loop :: "MDB_ID list \<Rightarrow> nat \<Rightarrow> nat \<Rightarrow> (nat \<times> nat) list \<Rightarrow> MDB_ID list exec" where
  "midl_sort_loop ids l ir istack =
     (if ir < l + SMALL then
        xbind (insertion_sort ids (l + 1) ir) (\<lambda>ids.
        case istack of
          [] \<Rightarrow> ret ids
        | (l, ir) # istack \<Rightarrow> midl_sort_loop ids l ir istack)
      else
        xbind (partition_ids ids l ir) (\<lambda>(ids, i, j).
        if 2 * length istack + 2 \<ge> ISTACK_SIZE then throw Out_Of_Bounds
        else if ir + 1 + l \<ge> j + i then midl_sort_loop ids l (j - 1) ((i, ir) # istack)
        else midl_sort_loop ids i ir ((l, j - 1) # istack)))"

definition mdb_midl_sort :: "MDB_ID list \<Rightarrow> MDB_ID list exec" where
  "mdb_midl_sort ids = xbind (get ids 0) (\<lambda>n. midl_sort_loop ids 1 (nat (sint (ucast n :: 32 word))) [])"

subsection \<open>Lists of dirty pages\<close>

record 'p MDB_ID2 =
  mid :: MDB_ID
  mptr :: 'p

definition mdb_mid2l_search :: "'p MDB_ID2 list \<Rightarrow> MDB_ID \<Rightarrow> 32 word exec" where
  "mdb_mid2l_search ids key =
     xbind (get ids 0) (\<lambda>e. midl_search_loop (\<lambda>x. CMP key (mid x)) ids 0 1 0 (ucast (mid e)))"

fun mid2l_shift :: "'p MDB_ID2 list \<Rightarrow> nat \<Rightarrow> nat \<Rightarrow> 'p MDB_ID2 list exec" where
  "mid2l_shift ids x 0 = ret ids"
| "mid2l_shift ids x (Suc i) =
     (if Suc i > x then xbind (get ids i) (\<lambda>e. xbind (put ids (Suc i) e) (\<lambda>ids. mid2l_shift ids x i)) else ret ids)"

definition mid2l_count :: "'p MDB_ID2 list \<Rightarrow> MDB_ID exec" where
  "mid2l_count ids = xbind (get ids 0) (\<lambda>e. ret (mid e))"

definition mid2l_incr :: "'p MDB_ID2 list \<Rightarrow> 'p MDB_ID2 list exec" where
  "mid2l_incr ids = xbind (get ids 0) (\<lambda>e. put ids 0 (e\<lparr>mid := mid e + 1\<rparr>))"

definition mdb_mid2l_insert :: "'p MDB_ID2 list \<Rightarrow> 'p MDB_ID2 \<Rightarrow> (int \<times> 'p MDB_ID2 list) exec" where
  "mdb_mid2l_insert ids e =
     xbind (mdb_mid2l_search ids (mid e)) (\<lambda>x.
     if x < 1 then ret (- 2, ids)
     else
       xbind (mid2l_count ids) (\<lambda>n.
       xbind (if ucast x \<le> n then xbind (get ids (unat x)) (\<lambda>y. ret (mid y = mid e)) else ret False) (\<lambda>dup.
       if dup then ret (- 1, ids)
       else if n \<ge> of_nat MDB_IDL_UM_MAX then ret (- 2, ids)
       else
         xbind (mid2l_incr ids) (\<lambda>ids.
         xbind (mid2l_count ids) (\<lambda>n.
         xbind (mid2l_shift ids (unat x) (unat (ucast n :: 32 word))) (\<lambda>ids.
         xbind (put ids (unat x) e) (\<lambda>ids. ret (0, ids))))))))"

definition mdb_mid2l_append :: "'p MDB_ID2 list \<Rightarrow> 'p MDB_ID2 \<Rightarrow> (int \<times> 'p MDB_ID2 list) exec" where
  "mdb_mid2l_append ids e =
     xbind (mid2l_count ids) (\<lambda>n.
     if n \<ge> of_nat MDB_IDL_UM_MAX then ret (- 2, ids)
     else
       xbind (mid2l_incr ids) (\<lambda>ids.
       xbind (mid2l_count ids) (\<lambda>n. xbind (put ids (unat n) e) (\<lambda>ids. ret (0, ids)))))"

end
