(* ===== verification/MdbMidlSort.thy ===== *)
theory MdbMidlSort
  imports MdbMidl "HOL-Library.Multiset"
begin

text \<open>
  \<open>mdb_midl_sort\<close> sorts into descending order, permutes the list, and stays inside the list and inside
  \<open>istack\<close>. \<open>ordered S ids n\<close> says that two ids out of order lie in one of the pending segments \<open>S\<close>;
  it holds at every iteration, and \<open>S\<close> is empty at the end.
\<close>

subsection \<open>Access\<close>

lemma get_ret [simp]: "i < length xs \<Longrightarrow> get xs i = ret (xs ! i)"
  by (simp add: get_def)

lemma put_ret [simp]: "i < length xs \<Longrightarrow> put xs i x = ret (xs[i := x])"
  by (simp add: put_def)

lemma swap_ret: "a < length xs \<Longrightarrow> b < length xs \<Longrightarrow> swap xs a b = ret (xs[a := xs ! b, b := xs ! a])"
  by (simp add: swap_def)

subsection \<open>Permuting a segment\<close>

definition permutes_seg :: "nat \<Rightarrow> nat \<Rightarrow> 'a list \<Rightarrow> 'a list \<Rightarrow> bool" where
  "permutes_seg l r xs ys \<longleftrightarrow> mset ys = mset xs \<and> (\<forall>k. k < l \<or> r < k \<longrightarrow> ys ! k = xs ! k)"

lemma permutes_seg_length: "permutes_seg l r xs ys \<Longrightarrow> length ys = length xs"
  unfolding permutes_seg_def by (metis size_mset)

lemma permutes_seg_refl [simp]: "permutes_seg l r xs xs"
  by (simp add: permutes_seg_def)

lemma permutes_seg_trans: "permutes_seg l r xs ys \<Longrightarrow> permutes_seg l r ys zs \<Longrightarrow> permutes_seg l r xs zs"
  by (simp add: permutes_seg_def)

lemma permutes_seg_mono: "permutes_seg l r xs ys \<Longrightarrow> l' \<le> l \<Longrightarrow> r \<le> r' \<Longrightarrow> permutes_seg l' r' xs ys"
  by (simp add: permutes_seg_def)

lemma permutes_seg_swap:
  assumes "a < length xs" "b < length xs" "l \<le> a" "a \<le> r" "l \<le> b" "b \<le> r"
  shows "permutes_seg l r xs (xs[a := xs ! b, b := xs ! a])"
  using assms by (auto simp: permutes_seg_def mset_swap nth_list_update)

text \<open>The values in a permuted segment are the old ones.\<close>

lemma permutes_seg_values:
  assumes "permutes_seg l r xs ys" "r < length xs" "l \<le> k" "k \<le> r"
  shows "\<exists>m. l \<le> m \<and> m \<le> r \<and> ys ! k = xs ! m"
proof -
  have len: "length ys = length xs" by (rule permutes_seg_length[OF assms(1)])
  have split: "mset zs = image_mset ((!) zs) (mset_set {l..r}) + image_mset ((!) zs) (mset_set ({..<length xs} - {l..r}))"
    if "length zs = length xs" for zs :: "'a list"
  proof -
    have "mset zs = image_mset ((!) zs) (mset_set {..<length xs})"
      using that by (metis atLeast0LessThan map_nth mset_map mset_upt)
    moreover have "{..<length xs} = {l..r} \<union> ({..<length xs} - {l..r})" using assms(2) by auto
    moreover have "mset_set ({l..r} \<union> ({..<length xs} - {l..r})) = mset_set {l..r} + mset_set ({..<length xs} - {l..r})"
      by (rule mset_set_Union) auto
    ultimately show ?thesis by (metis image_mset_union)
  qed
  have "image_mset ((!) ys) (mset_set ({..<length xs} - {l..r})) = image_mset ((!) xs) (mset_set ({..<length xs} - {l..r}))"
    using assms(1) by (intro image_mset_cong) (auto simp: permutes_seg_def)
  then have "image_mset ((!) ys) (mset_set {l..r}) = image_mset ((!) xs) (mset_set {l..r})"
    using split[OF refl] split[OF len] assms(1) by (simp add: permutes_seg_def)
  then have "set_mset (image_mset ((!) ys) (mset_set {l..r})) = set_mset (image_mset ((!) xs) (mset_set {l..r}))" by simp
  then have "(!) ys ` {l..r} = (!) xs ` {l..r}" by simp
  then show ?thesis using assms(3,4) by (metis atLeastAtMost_iff imageE imageI)
qed

subsection \<open>The insertion sort\<close>

abbreviation desc :: "MDB_ID list \<Rightarrow> bool" where
  "desc \<equiv> sorted_wrt (\<ge>)"

lemma desc_last: "desc p \<Longrightarrow> v \<in> set p \<Longrightarrow> last p \<le> v"
  by (induction p) auto

lemma insert_shift_effect:
  assumes "us \<noteq> []" "length us = 1 \<or> a \<le> last us"
  shows "\<exists>p q y. vs = p @ q \<and> (\<forall>v \<in> set q. v < a) \<and> (p = [] \<or> a \<le> last p)
     \<and> insert_shift (us @ vs @ x # ws) a (length us + length vs - 1) = ret (us @ p @ y # q @ ws, length us + length p - 1)"
proof (induction vs arbitrary: x ws rule: rev_induct)
  case Nil
  show ?case
  proof (cases "length us = 1")
    case False
    then obtain m where m: "length us = Suc (Suc m)" using assms(1) by (cases us; cases "tl us") auto
    have "(us @ x # ws) ! Suc m = last us" using m assms(1) by (simp add: nth_append last_conv_nth)
    then have "insert_shift (us @ x # ws) a (Suc m) = ret (us @ x # ws, Suc m)" using False assms(2) m by simp
    then show ?thesis using m by auto
  qed simp
next
  case (snoc v vs)
  obtain m where m: "length us = Suc m" using assms(1) by (cases us) auto
  have v: "(us @ vs @ v # x # ws) ! Suc (m + length vs) = v" by (simp add: nth_append m)
  show ?case
  proof (cases "v \<ge> a")
    case True
    then have "insert_shift (us @ (vs @ [v]) @ x # ws) a (length us + length (vs @ [v]) - 1)
        = ret (us @ (vs @ [v]) @ x # [] @ ws, length us + length (vs @ [v]) - 1)"
      using v by (simp add: m)
    then show ?thesis using True by (intro exI[of _ "vs @ [v]"] exI[of _ "[]"] exI[of _ x]) simp
  next
    case False
    have upd: "(us @ vs @ v # x # ws)[Suc (Suc (m + length vs)) := v] = us @ vs @ v # v # ws"
      by (simp add: list_update_append m)
    obtain p q y where pq: "vs = p @ q" "\<forall>v \<in> set q. v < a" "p = [] \<or> a \<le> last p"
        "insert_shift (us @ vs @ v # v # ws) a (length us + length vs - 1) = ret (us @ p @ y # q @ v # ws, length us + length p - 1)"
      using snoc.IH[of v "v # ws"] by blast
    have "insert_shift (us @ (vs @ [v]) @ x # ws) a (length us + length (vs @ [v]) - 1)
        = ret (us @ p @ y # (q @ [v]) @ ws, length us + length p - 1)"
      using v upd False pq(4) by (simp add: m)
    then show ?thesis
      using pq(1-3) False by (intro exI[of _ p] exI[of _ "q @ [v]"] exI[of _ y]) auto
  qed
qed

lemma insertion_sort_effect:
  assumes "us \<noteq> []"
  shows "desc vs \<Longrightarrow> length us = 1 \<or> (\<forall>x \<in> set (vs @ zs). x \<le> last us) \<Longrightarrow> Suc ir = length us + length vs + length zs
    \<Longrightarrow> \<exists>vs'. insertion_sort (us @ vs @ zs @ ws) (length us + length vs) ir = ret (us @ vs' @ ws)
          \<and> desc vs' \<and> mset vs' = mset vs + mset zs"
proof (induction zs arbitrary: vs)
  case Nil
  then show ?case by simp
next
  case (Cons a zs)
  have le: "length us = 1 \<or> a \<le> last us" using Cons.prems(2) by auto
  obtain p q y where pq: "vs = p @ q" "\<forall>v \<in> set q. v < a" "p = [] \<or> a \<le> last p"
      "insert_shift (us @ vs @ a # zs @ ws) a (length us + length vs - 1) = ret (us @ p @ y # q @ zs @ ws, length us + length p - 1)"
    using insert_shift_effect[OF assms le, of vs a "zs @ ws"] by blast
  have d: "desc (p @ a # q)"
  proof -
    have "\<forall>v \<in> set p. a \<le> v"
    proof
      fix v assume v: "v \<in> set p"
      then have "last p \<le> v" using Cons.prems(1) pq(1)
        by (intro desc_last) (simp_all add: sorted_wrt_append)
      then show "a \<le> v" using pq(3) v by auto
    qed
    then show ?thesis using Cons.prems(1) pq(1,2) by (auto simp: sorted_wrt_append)
  qed
  have j: "(us @ vs @ a # zs @ ws) ! (length us + length vs) = a" by (simp add: nth_append)
  have i: "length us + length p - 1 + 1 = length us + length p" using assms by (cases us) simp_all
  have upd: "(us @ p @ y # q @ zs @ ws)[length us + length p := a] = us @ (p @ a # q) @ zs @ ws"
    by (simp add: list_update_append)
  obtain vs' where vs': "insertion_sort (us @ (p @ a # q) @ zs @ ws) (length us + length (p @ a # q)) ir = ret (us @ vs' @ ws)"
      "desc vs'" "mset vs' = mset (p @ a # q) + mset zs"
    using Cons.IH[OF d] Cons.prems(2,3) pq(1) by auto
  have "insertion_sort (us @ vs @ a # zs @ ws) (length us + length vs) ir
      = insertion_sort (us @ (p @ a # q) @ zs @ ws) (length us + length vs + 1) ir"
    using j i upd Cons.prems(3) pq(1,4) by (subst insertion_sort.simps) simp
  moreover have "length us + length vs + 1 = length us + length (p @ a # q)" using pq(1) by simp
  ultimately show ?case using vs' pq(1) by auto
qed

subsection \<open>The partition\<close>

lemma scan_up_effect:
  "i < m \<Longrightarrow> m < length ids \<Longrightarrow> ids ! m \<le> a
     \<Longrightarrow> \<exists>i'. scan_up ids a i = ret i' \<and> i < i' \<and> i' \<le> m \<and> ids ! i' \<le> a \<and> (\<forall>k. i < k \<and> k < i' \<longrightarrow> a \<le> ids ! k)"
proof (induction "m - i" arbitrary: i)
  case (Suc d)
  show ?case
  proof (cases "a < ids ! (i + 1)")
    case True
    then have "i + 1 < m" using Suc.prems by (cases "i + 1 = m") auto
    moreover have "d = m - (i + 1)" using Suc.hyps(2) by simp
    ultimately obtain i' where i': "scan_up ids a (i + 1) = ret i'" "i + 1 < i'" "i' \<le> m" "ids ! i' \<le> a"
        "\<forall>k. i + 1 < k \<and> k < i' \<longrightarrow> a \<le> ids ! k"
      using Suc.hyps(1)[of "i + 1", OF _ _ Suc.prems(2,3)] by blast
    have "scan_up ids a i = ret i'" using True i'(1) Suc.prems by (subst scan_up.simps) simp
    moreover have "\<forall>k. i < k \<and> k < i' \<longrightarrow> a \<le> ids ! k"
    proof (intro allI impI)
      fix k assume "i < k \<and> k < i'"
      then show "a \<le> ids ! k" using i'(5) True by (cases "k = i + 1") auto
    qed
    ultimately show ?thesis using i' by (intro exI[of _ i']) auto
  next
    case False
    then have "scan_up ids a i = ret (i + 1)" using Suc.prems by (subst scan_up.simps) simp
    then show ?thesis using False Suc.prems by (intro exI[of _ "i + 1"]) auto
  qed
qed simp

lemma scan_down_effect:
  "m < j \<Longrightarrow> j \<le> length ids \<Longrightarrow> a \<le> ids ! m
     \<Longrightarrow> \<exists>j'. scan_down ids a j = ret j' \<and> m \<le> j' \<and> j' < j \<and> a \<le> ids ! j' \<and> (\<forall>k. j' < k \<and> k < j \<longrightarrow> ids ! k \<le> a)"
proof (induction j)
  case (Suc j)
  show ?case
  proof (cases "ids ! j < a")
    case True
    then have "m < j" using Suc.prems by (cases "m = j") auto
    then obtain j' where j': "scan_down ids a j = ret j'" "m \<le> j'" "j' < j" "a \<le> ids ! j'" "\<forall>k. j' < k \<and> k < j \<longrightarrow> ids ! k \<le> a"
      using Suc.IH Suc.prems by auto
    have "scan_down ids a (Suc j) = ret j'" using True j'(1) Suc.prems by simp
    moreover have "\<forall>k. j' < k \<and> k < Suc j \<longrightarrow> ids ! k \<le> a"
      using j'(5) True by (metis less_SucE less_imp_le)
    ultimately show ?thesis using j' by (intro exI[of _ j']) auto
  next
    case False
    then have "scan_down ids a (Suc j) = ret j" using Suc.prems by simp
    then show ?thesis using False Suc.prems by (intro exI[of _ j]) auto
  qed
qed simp

text \<open>The state at the head of the partition loop, and what it leaves.\<close>

definition part_inv :: "MDB_ID \<Rightarrow> nat \<Rightarrow> nat \<Rightarrow> MDB_ID list \<Rightarrow> nat \<Rightarrow> nat \<Rightarrow> bool" where
  "part_inv a l ir ids i j \<longleftrightarrow> ir < length ids \<and> l + 1 \<le> i \<and> i \<le> j \<and> j \<le> ir \<and> i < ir \<and> (i < j \<or> l + 2 \<le> i)
     \<and> (\<forall>k. l + 1 \<le> k \<and> k \<le> i \<longrightarrow> a \<le> ids ! k) \<and> (\<forall>k. j \<le> k \<and> k \<le> ir \<longrightarrow> ids ! k \<le> a)"

definition part_post :: "MDB_ID \<Rightarrow> nat \<Rightarrow> nat \<Rightarrow> MDB_ID list \<Rightarrow> nat \<Rightarrow> nat \<Rightarrow> bool" where
  "part_post a l ir ids i j \<longleftrightarrow> j < i \<and> l + 1 \<le> j \<and> j < ir \<and> i \<le> ir
     \<and> (\<forall>k. l + 1 \<le> k \<and> k < i \<longrightarrow> a \<le> ids ! k) \<and> (\<forall>k. j < k \<and> k \<le> ir \<longrightarrow> ids ! k \<le> a)"

lemma part_scans:
  assumes "part_inv a l ir ids i j"
  obtains i' j' where "scan_up ids a i = ret i'" "scan_down ids a j = ret j'"
    "i < i'" "i' \<le> ir" "i' \<le> j \<or> i' \<le> i + 1" "l + 1 \<le> j'" "j' < j" "ids ! i' \<le> a" "a \<le> ids ! j'"
    "\<forall>k. l + 1 \<le> k \<and> k < i' \<longrightarrow> a \<le> ids ! k" "\<forall>k. j' < k \<and> k \<le> ir \<longrightarrow> ids ! k \<le> a"
proof -
  have inv: "ir < length ids" "l + 1 \<le> i" "i \<le> j" "j \<le> ir" "i < ir" "i < j \<or> l + 2 \<le> i"
      "\<forall>k. l + 1 \<le> k \<and> k \<le> i \<longrightarrow> a \<le> ids ! k" "\<forall>k. j \<le> k \<and> k \<le> ir \<longrightarrow> ids ! k \<le> a"
    using assms unfolding part_inv_def by blast+
  obtain m where m: "i < m" "m \<le> ir" "ids ! m \<le> a" "m \<le> j \<or> m \<le> i + 1"
    using inv by (cases "i < j") (auto intro: that[of j] that[of "i + 1"])
  obtain i' where i': "scan_up ids a i = ret i'" "i < i'" "i' \<le> m" "ids ! i' \<le> a" "\<forall>k. i < k \<and> k < i' \<longrightarrow> a \<le> ids ! k"
    using scan_up_effect[OF m(1) _ m(3)] m(2) inv(1) by auto
  obtain m' where m': "m' < j" "l + 1 \<le> m'" "a \<le> ids ! m'"
    using inv by (cases "i < j") (auto intro: that[of i] that[of "j - 1"])
  obtain j' where j': "scan_down ids a j = ret j'" "m' \<le> j'" "j' < j" "a \<le> ids ! j'" "\<forall>k. j' < k \<and> k < j \<longrightarrow> ids ! k \<le> a"
    using scan_down_effect[OF m'(1) _ m'(3)] inv(1,4) by auto
  show thesis
  proof (rule that[OF i'(1) j'(1) i'(2)])
    show "\<forall>k. l + 1 \<le> k \<and> k < i' \<longrightarrow> a \<le> ids ! k" using inv(7) i'(5) by (metis not_le)
    show "\<forall>k. j' < k \<and> k \<le> ir \<longrightarrow> ids ! k \<le> a" using inv(8) j'(5) by (metis not_le)
  qed (use i' j' m m' in auto)
qed

lemma partition_loop_effect:
  "part_inv a l ir ids i j
     \<Longrightarrow> \<exists>ids' i' j'. partition_loop ids a i j = ret (ids', i', j') \<and> permutes_seg (l + 2) ir ids ids' \<and> part_post a l ir ids' i' j'"
proof (induction j arbitrary: ids i rule: less_induct)
  case (less j)
  have inv: "ir < length ids" "l + 1 \<le> i" "j \<le> ir" using less.prems unfolding part_inv_def by blast+
  obtain i' j' where s: "scan_up ids a i = ret i'" "scan_down ids a j = ret j'"
    "i < i'" "i' \<le> ir" "i' \<le> j \<or> i' \<le> i + 1" "l + 1 \<le> j'" "j' < j" "ids ! i' \<le> a" "a \<le> ids ! j'"
    "\<forall>k. l + 1 \<le> k \<and> k < i' \<longrightarrow> a \<le> ids ! k" "\<forall>k. j' < k \<and> k \<le> ir \<longrightarrow> ids ! k \<le> a"
    by (rule part_scans[OF less.prems])
  show ?case
  proof (cases "j' < i'")
    case True
    then have "partition_loop ids a i j = ret (ids, i', j')" using s(1,2) by (subst partition_loop.simps) simp
    moreover have "part_post a l ir ids i' j'" using True s inv unfolding part_post_def by auto
    ultimately show ?thesis by auto
  next
    case False
    let ?ids = "ids[i' := ids ! j', j' := ids ! i']"
    have sw: "swap ids i' j' = ret ?ids" using s inv False by (intro swap_ret) auto
    have p: "permutes_seg (l + 2) ir ids ?ids" using s inv False by (intro permutes_seg_swap) auto
    have v: "?ids ! k = (if k = j' then ids ! i' else if k = i' then ids ! j' else ids ! k)" if "k \<le> ir" for k
      using that False s(7) inv(1,3) by (simp add: nth_list_update)
    have "part_inv a l ir ?ids i' j'"
      unfolding part_inv_def using False s inv by (auto simp: v)
    from less.IH[OF s(7) this] obtain ids' i'' j'' where
      r: "partition_loop ?ids a i' j' = ret (ids', i'', j'')" "permutes_seg (l + 2) ir ?ids ids'" "part_post a l ir ids' i'' j''"
      by blast
    have "partition_loop ids a i j = ret (ids', i'', j'')"
      using s(1,2) False sw r(1) by (subst partition_loop.simps) simp
    then show ?thesis using permutes_seg_trans[OF p r(2)] r(3) by blast
  qed
qed

lemma swap_if_less_effect:
  assumes "a < length ids" "b < length ids" "a \<noteq> b" "l \<le> a" "a \<le> r" "l \<le> b" "b \<le> r"
  shows "\<exists>ids'. swap_if_less ids a b = ret ids' \<and> permutes_seg l r ids ids' \<and> ids' ! a = max (ids ! a) (ids ! b)
     \<and> ids' ! b = min (ids ! a) (ids ! b) \<and> (\<forall>k. k \<noteq> a \<and> k \<noteq> b \<longrightarrow> ids' ! k = ids ! k)"
  using assms permutes_seg_swap[OF assms(1,2,4-7)]
  by (cases "ids ! a < ids ! b") (auto simp: swap_if_less_def swap_ret nth_list_update max_def min_def)

lemma min_max_three:
  fixes x y z :: MDB_ID
  shows "min (max x y) (max z (min x y)) \<le> max (max x y) (max z (min x y))"
    and "min z (min x y) \<le> min (max x y) (max z (min x y))"
  by (auto simp: min_def max_def)

lemma median_of_three_effect:
  assumes "l + 2 \<le> ir" "ir < length ids" "l + ir < 2 ^ 31"
  shows "\<exists>ids'. median_of_three ids l ir = ret ids' \<and> permutes_seg l ir ids ids'
     \<and> ids' ! (l + 1) \<le> ids' ! l \<and> ids' ! ir \<le> ids' ! (l + 1)"
proof -
  let ?k = "(l + ir) div 2"
  let ?i0 = "ids[?k := ids ! (l + 1), l + 1 := ids ! ?k]"
  have k: "l \<le> ?k" "?k \<le> ir" using assms(1) by auto
  have s0: "swap ids ?k (l + 1) = ret ?i0" "permutes_seg l ir ids ?i0"
    using assms k by (intro swap_ret permutes_seg_swap; simp)+
  obtain i1 where i1: "swap_if_less ?i0 l ir = ret i1" "permutes_seg l ir ?i0 i1" "i1 ! l = max (?i0 ! l) (?i0 ! ir)"
      "i1 ! ir = min (?i0 ! l) (?i0 ! ir)"
    using swap_if_less_effect[of l ?i0 ir l ir] assms by auto
  have n1: "length i1 = length ids" using permutes_seg_length[OF i1(2)] by simp
  obtain i2 where i2: "swap_if_less i1 (l + 1) ir = ret i2" "permutes_seg l ir i1 i2" "i2 ! (l + 1) = max (i1 ! (l + 1)) (i1 ! ir)"
      "i2 ! ir = min (i1 ! (l + 1)) (i1 ! ir)" "i2 ! l = i1 ! l"
    using swap_if_less_effect[of "l + 1" i1 ir l ir] assms n1 by auto
  have n2: "length i2 = length ids" using permutes_seg_length[OF i2(2)] n1 by simp
  obtain i3 where i3: "swap_if_less i2 l (l + 1) = ret i3" "permutes_seg l ir i2 i3" "i3 ! l = max (i2 ! l) (i2 ! (l + 1))"
      "i3 ! (l + 1) = min (i2 ! l) (i2 ! (l + 1))" "i3 ! ir = i2 ! ir"
    using swap_if_less_effect[of l i2 "l + 1" l ir] assms n2 by auto
  have "median_of_three ids l ir = ret i3"
    using assms(3) s0(1) i1(1) i2(1) i3(1) by (simp add: median_of_three_def)
  moreover have "permutes_seg l ir ids i3"
    using permutes_seg_trans[OF permutes_seg_trans[OF permutes_seg_trans[OF s0(2) i1(2)] i2(2)] i3(2)] .
  moreover have "i3 ! (l + 1) \<le> i3 ! l" "i3 ! ir \<le> i3 ! (l + 1)"
    unfolding i3(3-5) i2(3-5) i1(3,4) by (rule min_max_three)+
  ultimately show ?thesis by blast
qed

lemma partition_ids_effect:
  assumes "l + 2 \<le> ir" "ir < length ids" "l + ir < 2 ^ 31"
  shows "\<exists>ids' i j a. partition_ids ids l ir = ret (ids', i, j) \<and> permutes_seg l ir ids ids' \<and> l + 1 \<le> j \<and> j < i \<and> i \<le> ir
     \<and> (\<forall>k. l \<le> k \<and> k < i \<longrightarrow> a \<le> ids' ! k) \<and> (\<forall>k. j \<le> k \<and> k \<le> ir \<longrightarrow> ids' ! k \<le> a)"
proof -
  obtain i1 where i1: "median_of_three ids l ir = ret i1" "permutes_seg l ir ids i1" "i1 ! (l + 1) \<le> i1 ! l" "i1 ! ir \<le> i1 ! (l + 1)"
    using median_of_three_effect[OF assms] by blast
  have n1: "length i1 = length ids" using permutes_seg_length[OF i1(2)] by simp
  let ?a = "i1 ! (l + 1)"
  have "part_inv ?a l ir i1 (l + 1) ir"
    unfolding part_inv_def using assms n1 i1(4) by (auto simp: le_antisym)
  then obtain i2 i j where i2: "partition_loop i1 ?a (l + 1) ir = ret (i2, i, j)" "permutes_seg (l + 2) ir i1 i2"
      "part_post ?a l ir i2 i j"
    using partition_loop_effect by blast
  have n2: "length i2 = length ids" using permutes_seg_length[OF i2(2)] n1 by simp
  have post: "j < i" "l + 1 \<le> j" "j < ir" "i \<le> ir" "\<forall>k. l + 1 \<le> k \<and> k < i \<longrightarrow> ?a \<le> i2 ! k"
      "\<forall>k. j < k \<and> k \<le> ir \<longrightarrow> i2 ! k \<le> ?a"
    using i2(3) unfolding part_post_def by blast+
  have out: "i2 ! (l + 1) = ?a" "i2 ! l = i1 ! l" using i2(2) unfolding permutes_seg_def by simp_all
  let ?ids = "i2[l + 1 := i2 ! j, j := ?a]"
  have "permutes_seg l ir i2 ?ids" using permutes_seg_swap[of "l + 1" i2 j l ir] n2 assms post out by simp
  then have p: "permutes_seg l ir ids ?ids"
    using permutes_seg_trans[OF permutes_seg_trans[OF i1(2)]] permutes_seg_mono[OF i2(2), of l ir] by simp
  have "partition_ids ids l ir = ret (?ids, i, j)"
    using i1(1) i2(1) n1 n2 assms post by (simp add: partition_ids_def)
  moreover have v: "?ids ! k = (if k = j then ?a else if k = l + 1 then i2 ! j else i2 ! k)" if "k \<le> ir" for k
    using that n2 assms by (simp add: nth_list_update)
  have "\<forall>k. l \<le> k \<and> k < i \<longrightarrow> ?a \<le> ?ids ! k"
  proof (intro allI impI)
    fix k assume k: "l \<le> k \<and> k < i"
    then show "?a \<le> ?ids ! k" using post v[of k] out i1(3) by (cases "k = l") auto
  qed
  moreover have "\<forall>k. j \<le> k \<and> k \<le> ir \<longrightarrow> ?ids ! k \<le> ?a"
  proof (intro allI impI)
    fix k assume k: "j \<le> k \<and> k \<le> ir"
    then show "?ids ! k \<le> ?a" using post v[of k] by (cases "k = j") auto
  qed
  ultimately show ?thesis using p post(1,2,4) by blast
qed

subsection \<open>Pending segments\<close>

definition together :: "(nat \<times> nat) list \<Rightarrow> nat \<Rightarrow> nat \<Rightarrow> bool" where
  "together S p q \<longleftrightarrow> (\<exists>(l, r) \<in> set S. l \<le> p \<and> q \<le> r)"

definition ordered :: "(nat \<times> nat) list \<Rightarrow> nat \<Rightarrow> MDB_ID list \<Rightarrow> bool" where
  "ordered S n ids \<longleftrightarrow> (\<forall>p q. 1 \<le> p \<and> p < q \<and> q \<le> n \<longrightarrow> ids ! q \<le> ids ! p \<or> together S p q)"

definition apart :: "nat \<times> nat \<Rightarrow> nat \<times> nat \<Rightarrow> bool" where
  "apart s t \<longleftrightarrow> snd s < fst t \<or> snd t < fst s"

definition segments :: "nat \<Rightarrow> (nat \<times> nat) list \<Rightarrow> bool" where
  "segments n S \<longleftrightarrow> sorted_wrt apart S \<and> (\<forall>(l, r) \<in> set S. 1 \<le> l \<and> l \<le> r + 1 \<and> r \<le> n)"

lemma together_Cons: "together ((l, r) # S) p q \<longleftrightarrow> l \<le> p \<and> q \<le> r \<or> together S p q"
  by (auto simp: together_def)

lemma together_Nil [simp]: "\<not> together [] p q"
  by (simp add: together_def)

lemma apart_together: "segments n ((l, r) # S) \<Longrightarrow> together S p q \<Longrightarrow> p < q \<Longrightarrow> q < l \<or> r < p"
  by (fastforce simp: segments_def together_def apart_def)

lemma ordered_step:
  assumes "ordered ((l, r) # S) n ids" "segments n ((l, r) # S)" "permutes_seg l r ids ids'" "n < length ids"
    and new: "\<And>p q. l \<le> p \<Longrightarrow> p < q \<Longrightarrow> q \<le> r \<Longrightarrow> ids' ! q \<le> ids' ! p \<or> together (T @ S) p q"
  shows "ordered (T @ S) n ids'"
  unfolding ordered_def
proof (intro allI impI)
  fix p q assume pq: "1 \<le> p \<and> p < q \<and> q \<le> n"
  have r: "r < length ids" "1 \<le> l" using assms(2,4) by (auto simp: segments_def)
  have S: "together (T @ S) p' q'" if "together S p' q'" for p' q' using that by (auto simp: together_def)
  have out: "ids' ! k = ids ! k" if "k < l \<or> r < k" for k using assms(3) that by (auto simp: permutes_seg_def)
  have old: "ids ! q' \<le> ids ! p' \<or> l \<le> p' \<and> q' \<le> r \<or> together S p' q'" if "1 \<le> p'" "p' < q'" "q' \<le> n" for p' q'
    using assms(1) that unfolding ordered_def together_Cons by blast
  consider "l \<le> p" "q \<le> r" | "p < l" "l \<le> q" "q \<le> r" | "l \<le> p" "p \<le> r" "r < q"
    | "p < l \<or> r < p" "q < l \<or> r < q" by linarith
  then show "ids' ! q \<le> ids' ! p \<or> together (T @ S) p q"
  proof cases
    case 1
    then show ?thesis using new pq by blast
  next
    case 2
    then obtain m where m: "l \<le> m" "m \<le> r" "ids' ! q = ids ! m" using permutes_seg_values[OF assms(3) r(1)] by blast
    have "r \<le> n" using assms(2) by (auto simp: segments_def)
    then have "ids ! m \<le> ids ! p" using old[of p m] apart_together[OF assms(2), of p m] 2 m pq by auto
    then show ?thesis using m(3) out[of p] 2 by simp
  next
    case 3
    then obtain m where m: "l \<le> m" "m \<le> r" "ids' ! p = ids ! m" using permutes_seg_values[OF assms(3) r(1)] by blast
    then have "ids ! q \<le> ids ! m" using old[of m q] apart_together[OF assms(2), of m q] 3 pq r(2) by auto
    then show ?thesis using m(3) out[of q] 3 by simp
  next
    case 4
    then show ?thesis using old[of p q] pq out S by auto
  qed
qed

text \<open>A part at least as small as its rest: the stack holds segments of at least half the size of
  what is left, so its depth is logarithmic.\<close>

definition seg_size :: "nat \<times> nat \<Rightarrow> nat" where
  "seg_size s = snd s + 1 - fst s"

fun depth_ok :: "nat \<Rightarrow> (nat \<times> nat) list \<Rightarrow> bool" where
  "depth_ok n [] \<longleftrightarrow> True"
| "depth_ok n (s # S) \<longleftrightarrow> seg_size s * 2 ^ length S \<le> n \<and> depth_ok n S"

lemma depth_push:
  assumes "depth_ok n (s # S)" "2 * seg_size a \<le> seg_size s" "seg_size b \<le> seg_size s"
  shows "depth_ok n (a # b # S)"
proof -
  have n: "seg_size s * 2 ^ length S \<le> n" "depth_ok n S" using assms(1) by simp_all
  have "seg_size b * 2 ^ length S \<le> n" by (rule le_trans[OF mult_le_mono1[OF assms(3)] n(1)])
  moreover have "2 * seg_size a * 2 ^ length S \<le> n" by (rule le_trans[OF mult_le_mono1[OF assms(2)] n(1)])
  ultimately show ?thesis using n(2) by (simp add: mult.assoc mult.left_commute)
qed

lemma depth_bound:
  assumes "depth_ok n (s # S)" "8 < seg_size s" "n < 2 ^ 30"
  shows "2 * length S + 2 < ISTACK_SIZE"
proof -
  have "1 * 2 ^ length S \<le> seg_size s * 2 ^ length S" using assms(2) by (intro mult_le_mono1) simp
  also have "\<dots> \<le> n" using assms(1) by simp
  finally have "(2 :: nat) ^ length S < 2 ^ 30" using assms(3) by simp
  then have "length S < 30" by (rule power_less_imp_less_exp[rotated]) simp
  then show ?thesis by (simp add: ISTACK_SIZE_def)
qed

subsection \<open>The loop\<close>

lemma insertion_sort_seg:
  assumes "ordered ((l, r) # S) n ids" "segments n ((l, r) # S)" "n < length ids"
  shows "\<exists>ids'. insertion_sort ids (l + 1) r = ret ids' \<and> permutes_seg l r ids ids'
     \<and> (\<forall>p q. l \<le> p \<and> p < q \<and> q \<le> r \<longrightarrow> ids' ! q \<le> ids' ! p)"
proof (cases "l < r")
  case False
  then show ?thesis by (intro exI[of _ ids]) auto
next
  case True
  have lr: "1 \<le> l" "r \<le> n" using assms(2) by (auto simp: segments_def)
  let ?us = "take l ids" and ?zs = "take (r - l) (drop (l + 1) ids)" and ?ws = "drop (r + 1) ids"
  have len: "length ?us = l" "length ?zs = r - l" using True lr assms(3) by auto
  have ids: "ids = ?us @ [ids ! l] @ ?zs @ ?ws"
  proof -
    have "drop (l + 1) ids = ?zs @ ?ws"
      using True append_take_drop_id[of "r - l" "drop (l + 1) ids"] by simp
    then show ?thesis using id_take_nth_drop[of l ids] True lr assms(3) by simp
  qed
  have bound: "length ?us = 1 \<or> (\<forall>x \<in> set ([ids ! l] @ ?zs). x \<le> last ?us)"
  proof (cases "l = 1")
    case False
    have "x \<le> last ?us" if x: "x \<in> set ([ids ! l] @ ?zs)" for x
    proof -
      obtain k where k: "k < length ([ids ! l] @ ?zs)" "([ids ! l] @ ?zs) ! k = x"
        using x unfolding in_set_conv_nth by blast
      then have m: "x = ids ! (l + k)" "l + k \<le> r"
        using len True lr assms(3) by (auto simp: nth_append nth_Cons split: nat.splits)
      have "\<not> together ((l, r) # S) (l - 1) (l + k)"
        using apart_together[OF assms(2), of "l - 1" "l + k"] lr(1) True by (cases l) (auto simp: together_Cons)
      moreover have "1 \<le> l - 1 \<and> l - 1 < l + k \<and> l + k \<le> n" using m(2) lr False by auto
      ultimately have "ids ! (l + k) \<le> ids ! (l - 1)" using assms(1) unfolding ordered_def by blast
      moreover have "last ?us = ids ! (l - 1)" using lr True assms(3) by (subst last_conv_nth) auto
      ultimately show ?thesis using m(1) by simp
    qed
    then show ?thesis by blast
  qed (use len in simp)
  have "?us \<noteq> []" using len lr by auto
  from insertion_sort_effect[OF this, of "[ids ! l]" ?zs r ?ws] bound len True
  obtain vs' where vs': "insertion_sort ids (l + 1) r = ret (?us @ vs' @ ?ws)" "desc vs'" "mset vs' = mset ([ids ! l] @ ?zs)"
    using ids by auto
  have lv: "length vs' = r + 1 - l" using arg_cong[OF vs'(3), of size] len True by simp
  have "mset (?us @ vs' @ ?ws) = mset ids" using vs'(3) arg_cong[OF ids, of mset] by (simp only: mset_append ac_simps)
  moreover have "(?us @ vs' @ ?ws) ! k = ids ! k" if "k < l \<or> r < k" for k
    using that lv len True lr assms(3) by (auto simp: nth_append)
  moreover have "(?us @ vs' @ ?ws) ! q \<le> (?us @ vs' @ ?ws) ! p" if "l \<le> p" "p < q" "q \<le> r" for p q
  proof -
    have "p - l < q - l" "q - l < length vs'" using that lv by auto
    then have "vs' ! (q - l) \<le> vs' ! (p - l)" using vs'(2) by (simp add: sorted_wrt_iff_nth_less)
    then show ?thesis using that lv len by (simp add: nth_append)
  qed
  ultimately show ?thesis using vs'(1) unfolding permutes_seg_def by blast
qed

lemma segments_split:
  assumes "segments n ((l, r) # S)" "l + 1 \<le> j" "j < i" "i \<le> r"
  shows "segments n ((l, j - 1) # (i, r) # S)" "segments n ((i, r) # (l, j - 1) # S)"
  using assms by (auto simp: segments_def apart_def)

definition pending :: "(nat \<times> nat) list \<Rightarrow> nat" where
  "pending S = sum_list (map (\<lambda>s. 2 * seg_size s + 1) S)"

lemma midl_sort_loop_effect:
  "ordered ((l, r) # S) n ids \<Longrightarrow> segments n ((l, r) # S) \<Longrightarrow> depth_ok n ((l, r) # S) \<Longrightarrow> n < length ids \<Longrightarrow> n < 2 ^ 30
     \<Longrightarrow> \<exists>ids'. midl_sort_loop ids l r S = ret ids' \<and> permutes_seg 1 n ids ids' \<and> ordered [] n ids'"
proof (induction "pending ((l, r) # S)" arbitrary: ids l r S rule: less_induct)
  case less
  note ord = less.prems(1) and seg = less.prems(2) and dep = less.prems(3) and n = less.prems(4,5)
  have lr: "1 \<le> l" "r \<le> n" "l \<le> r + 1" using seg by (auto simp: segments_def)
  show ?case
  proof (cases "r < l + SMALL")
    case True
    obtain ids' where ids': "insertion_sort ids (l + 1) r = ret ids'" "permutes_seg l r ids ids'"
        "\<And>p q. l \<le> p \<Longrightarrow> p < q \<Longrightarrow> q \<le> r \<Longrightarrow> ids' ! q \<le> ids' ! p"
      using insertion_sort_seg[OF ord seg n(1)] by blast
    have o: "ordered S n ids'" using ordered_step[OF ord seg ids'(2) n(1), of "[]"] ids'(3) by simp
    have p: "permutes_seg 1 n ids ids'" using permutes_seg_mono[OF ids'(2)] lr by simp
    have n': "n < length ids'" using permutes_seg_length[OF ids'(2)] n(1) by simp
    show ?thesis
    proof (cases S)
      case Nil
      then have "midl_sort_loop ids l r S = ret ids'" using True ids'(1) by (subst midl_sort_loop.simps) simp
      then show ?thesis using o p Nil by auto
    next
      case (Cons s S')
      obtain l' r' where s: "s = (l', r')" by (cases s) auto
      have "pending ((l', r') # S') < pending ((l, r) # S)" by (simp add: pending_def Cons s)
      moreover have "segments n ((l', r') # S')" "depth_ok n ((l', r') # S')"
        using seg dep by (auto simp: segments_def Cons s)
      ultimately obtain ids'' where ids'': "midl_sort_loop ids' l' r' S' = ret ids''" "permutes_seg 1 n ids' ids''" "ordered [] n ids''"
        using less.hyps[of l' r' S' ids'] o n' n(2) unfolding Cons s by blast
      have "midl_sort_loop ids l r S = ret ids''" using True ids'(1) ids''(1) by (subst midl_sort_loop.simps) (simp add: Cons s)
      then show ?thesis using permutes_seg_trans[OF p ids''(2)] ids''(3) by blast
    qed
  next
    case False
    then have big: "l + 8 \<le> r" by (simp add: SMALL_def)
    obtain ids' i j a where part: "partition_ids ids l r = ret (ids', i, j)" "permutes_seg l r ids ids'" "l + 1 \<le> j" "j < i" "i \<le> r"
        "\<forall>k. l \<le> k \<and> k < i \<longrightarrow> a \<le> ids' ! k" "\<forall>k. j \<le> k \<and> k \<le> r \<longrightarrow> ids' ! k \<le> a"
      using partition_ids_effect[of l r ids] big lr n by auto
    let ?A = "(l, j - 1)" and ?B = "(i, r)"
    have new: "ids' ! q \<le> ids' ! p \<or> together (T @ S) p q"
      if "l \<le> p" "p < q" "q \<le> r" "set T = {?A, ?B}" for T p q
    proof (cases "p < i \<and> j \<le> q")
      case True
      then show ?thesis using part(6,7) that by (meson order_trans)
    next
      case False
      then show ?thesis using that by (auto simp: together_def)
    qed
    have o: "ordered ([?A, ?B] @ S) n ids'"
      by (rule ordered_step[OF ord seg part(2) n(1)], rule new) auto
    have o2: "ordered ([?B, ?A] @ S) n ids'"
      by (rule ordered_step[OF ord seg part(2) n(1)], rule new) auto
    have p: "permutes_seg 1 n ids ids'" using permutes_seg_mono[OF part(2)] lr by simp
    have n': "n < length ids'" using permutes_seg_length[OF part(2)] n(1) by simp
    have st: "\<not> 2 * length S + 2 \<ge> ISTACK_SIZE" using depth_bound[OF dep _ n(2)] big by (simp add: seg_size_def not_le)
    have sz: "seg_size ?A + seg_size ?B < seg_size (l, r)" using part(3-5) by (simp add: seg_size_def)
    have pend: "pending (?A # ?B # S) < pending ((l, r) # S)" "pending (?B # ?A # S) < pending ((l, r) # S)"
      using sz by (simp_all add: pending_def)
    show ?thesis
    proof (cases "r + 1 + l \<ge> j + i")
      case True
      have "depth_ok n (?A # ?B # S)"
        by (rule depth_push[OF dep]) (use True sz part(3-5) in \<open>auto simp: seg_size_def\<close>)
      then obtain ids'' where ids'': "midl_sort_loop ids' l (j - 1) (?B # S) = ret ids''" "permutes_seg 1 n ids' ids''" "ordered [] n ids''"
        using less.hyps[OF pend(1), of ids'] o segments_split(1)[OF seg part(3-5)] n' n(2) by auto
      have "midl_sort_loop ids l r S = ret ids''" using False part(1) st True ids''(1) by (subst midl_sort_loop.simps) simp
      then show ?thesis using permutes_seg_trans[OF p ids''(2)] ids''(3) by blast
    next
      case no: False
      have "depth_ok n (?B # ?A # S)"
        by (rule depth_push[OF dep]) (use no sz part(3-5) in \<open>auto simp: seg_size_def\<close>)
      then obtain ids'' where ids'': "midl_sort_loop ids' i r (?A # S) = ret ids''" "permutes_seg 1 n ids' ids''" "ordered [] n ids''"
        using less.hyps[OF pend(2), of ids'] o2 segments_split(2)[OF seg part(3-5)] n' n(2) by auto
      have "midl_sort_loop ids l r S = ret ids''" using False part(1) st no ids''(1) by (subst midl_sort_loop.simps) simp
      then show ?thesis using permutes_seg_trans[OF p ids''(2)] ids''(3) by blast
    qed
  qed
qed

lemma int_of_count:
  assumes "n < 2 ^ 31"
  shows "nat (sint (ucast (of_nat n :: MDB_ID) :: 32 word)) = n"
proof -
  have "(ucast (of_nat n :: MDB_ID) :: 32 word) = of_nat n" using assms by (simp add: unsigned_of_nat take_bit_nat_eq_self)
  moreover have "sint (of_nat n :: 32 word) = int n"
    using assms by (simp add: sint_uint unsigned_of_nat signed_take_bit_int_eq_self take_bit_nat_eq_self)
  ultimately show ?thesis by simp
qed

lemma mdb_midl_sort_effect:
  assumes "length xs < 2 ^ 30"
  shows "\<exists>ys. mdb_midl_sort (of_nat (length xs) # xs @ rest) = ret (of_nat (length xs) # ys @ rest) \<and> mset ys = mset xs \<and> desc ys"
proof -
  let ?n = "length xs" and ?ids = "of_nat (length xs) # xs @ rest"
  have "ordered [(1, ?n)] ?n ?ids" by (auto simp: ordered_def together_Cons)
  moreover have "segments ?n [(1, ?n)]" by (simp add: segments_def)
  moreover have "depth_ok ?n [(1, ?n)]" by (simp add: seg_size_def)
  ultimately obtain ids' where ids': "midl_sort_loop ?ids 1 ?n [] = ret ids'" "permutes_seg 1 ?n ?ids ids'" "ordered [] ?n ids'"
    using midl_sort_loop_effect[of 1 ?n "[]" ?n ?ids] assms by auto
  have len: "length ids' = length ?ids" by (rule permutes_seg_length[OF ids'(2)])
  have out: "ids' ! k = ?ids ! k" if "k < 1 \<or> ?n < k" for k using ids'(2) that unfolding permutes_seg_def by blast
  define ys where "ys = take ?n (drop 1 ids')"
  have lys: "length ys = ?n" using len by (simp add: ys_def)
  have e: "ids' = of_nat ?n # ys @ rest"
  proof (rule nth_equalityI)
    show "length ids' = length (of_nat ?n # ys @ rest)" using len lys by simp
    fix k assume k: "k < length ids'"
    then show "ids' ! k = (of_nat ?n # ys @ rest) ! k"
      using out[of k] len lys by (cases k) (auto simp: ys_def nth_append)
  qed
  have "mset ys = mset xs" using ids'(2) unfolding permutes_seg_def e by simp
  moreover have "desc ys"
    unfolding sorted_wrt_iff_nth_less
  proof (intro allI impI)
    fix p q assume pq: "p < q" "q < length ys"
    then have "1 \<le> Suc p \<and> Suc p < Suc q \<and> Suc q \<le> ?n" using lys by simp
    then have "ids' ! Suc q \<le> ids' ! Suc p" using ids'(3) unfolding ordered_def together_def by fastforce
    then show "ys ! q \<le> ys ! p" using pq by (simp add: e nth_append)
  qed
  moreover have "mdb_midl_sort ?ids = ret ids'" using ids'(1) assms by (simp add: mdb_midl_sort_def int_of_count)
  ultimately show ?thesis using e by blast
qed

subsection \<open>Property\<close>

text \<open>C14: \<open>mdb_midl_sort\<close> returns for every list of fewer than \<open>2 ^ 30\<close> ids: it sorts the ids into
  descending order, keeps each as often as it was there, changes nothing behind them, never
  reads or writes outside the list, and never needs more than the 64 entries of \<open>istack\<close>.\<close>

theorem mdb_midl_sort_sorts:
  assumes "length xs < 2 ^ 30"
  shows "\<exists>ys. mdb_midl_sort (of_nat (length xs) # xs @ rest) = ret (of_nat (length xs) # ys @ rest) \<and> mset ys = mset xs
     \<and> sorted_wrt (\<ge>) ys"
  using assms by (rule mdb_midl_sort_effect)

theorem mdb_midl_sort_sorts_witness:
  "\<exists>ys. mdb_midl_sort (of_nat (length [3, 1, 4, 1, 5, 9, 2, 6, 5, 3, 5 :: MDB_ID]) # [3, 1, 4, 1, 5, 9, 2, 6, 5, 3, 5] @ [7])
       = ret (of_nat (length [3, 1, 4, 1, 5, 9, 2, 6, 5, 3, 5 :: MDB_ID]) # ys @ [7])
     \<and> mset ys = mset [3, 1, 4, 1, 5, 9, 2, 6, 5, 3, 5] \<and> sorted_wrt (\<ge>) ys"
  by (rule mdb_midl_sort_sorts) simp

end
