(* ===== verification/MdbMidlSearch.thy ===== *)
theory MdbMidlSearch
  imports MdbMidlSort
begin

text \<open>
  The binary searches and the insertion into a list of dirty pages: the result of a search is the
  position after the elements that come first, and \<open>mdb_mid2l_insert\<close> refines the insertion into a
  sorted list.
\<close>

subsection \<open>Searching\<close>

text \<open>\<open>cmp\<close> is positive on a prefix, 0 at one element at most, and negative on the rest.\<close>

definition search_sorted :: "('a \<Rightarrow> int) \<Rightarrow> 'a list \<Rightarrow> bool" where
  "search_sorted cmp xs \<longleftrightarrow> sorted_wrt (\<lambda>x y. 0 < cmp x \<or> cmp y < 0) xs"

definition before :: "('a \<Rightarrow> int) \<Rightarrow> 'a list \<Rightarrow> nat" where
  "before cmp xs = length (takeWhile (\<lambda>x. 0 < cmp x) xs)"

lemma before_le: "before cmp xs \<le> length xs"
  unfolding before_def by (rule length_takeWhile_le)

lemma before_cmp:
  assumes "search_sorted cmp xs" "k < length xs"
  shows "0 < cmp (xs ! k) \<longleftrightarrow> k < before cmp xs" "cmp (xs ! k) = 0 \<Longrightarrow> k = before cmp xs"
proof -
  let ?c = "before cmp xs"
  have lt: "0 < cmp (xs ! k)" if "k < ?c" for k
    using that nth_length_takeWhile[of "\<lambda>x. 0 < cmp x" xs] takeWhile_nth[of k "\<lambda>x. 0 < cmp x" xs]
    by (metis before_def nth_mem set_takeWhileD)
  have c: "\<not> 0 < cmp (xs ! ?c)" if "?c < length xs"
    using that nth_length_takeWhile[of "\<lambda>x. 0 < cmp x" xs] by (simp add: before_def)
  have gt: "cmp (xs ! k) < 0" if "?c < k" "k < length xs" for k
    using assms(1) c that by (auto simp: search_sorted_def sorted_wrt_iff_nth_less)
  show "0 < cmp (xs ! k) \<longleftrightarrow> k < ?c" using lt[of k] c gt[of k] assms(2) by (metis linorder_neqE_nat not_less_iff_gr_or_eq)
  show "cmp (xs ! k) = 0 \<Longrightarrow> k = ?c" using lt[of k] gt[of k] assms(2) by (metis less_irrefl linorder_neqE_nat)
qed

lemma unat_of_nat32: "m < 2 ^ 32 \<Longrightarrow> unat (of_nat m :: 32 word) = m"
  by (simp add: unsigned_of_nat take_bit_nat_eq_self)

declare midl_search_loop.simps [simp del]

lemma drop_bit_of_nat:
  assumes "m < 2 ^ 32"
  shows "drop_bit 1 (of_nat m :: 32 word) = of_nat (m div 2)"
  using assms by (simp add: word_unat_eq_iff drop_bit_eq_div unat_div unat_of_nat32)

lemma midl_search_step:
  assumes "0 < n" "get ids (unat (base + drop_bit 1 n + 1)) = ret x"
  shows "midl_search_loop cmp ids base cursor val n =
     (if cmp x < 0 then midl_search_loop cmp ids base (base + drop_bit 1 n + 1) (cmp x) (drop_bit 1 n)
      else if 0 < cmp x
      then midl_search_loop cmp ids (base + drop_bit 1 n + 1) (base + drop_bit 1 n + 1) (cmp x) (n - (drop_bit 1 n + 1))
      else ret (base + drop_bit 1 n + 1))"
  using assms by (subst midl_search_loop.simps) (simp add: Let_def)

lemma midl_search_loop_effect:
  fixes xs :: "'a list"
  assumes "search_sorted cmp xs" "length xs < 2 ^ 32 - 1"
  shows "b \<le> before cmp xs \<Longrightarrow> before cmp xs \<le> b + m \<Longrightarrow> b + m \<le> length xs
    \<Longrightarrow> (0 < val \<longrightarrow> cursor = of_nat b) \<Longrightarrow> (val < 0 \<longrightarrow> cursor = of_nat (b + m + 1)) \<Longrightarrow> (val = 0 \<longrightarrow> cursor = 1 \<and> b = 0)
    \<Longrightarrow> midl_search_loop cmp (h # xs @ rest) (of_nat b) cursor val (of_nat m) = ret (of_nat (before cmp xs + 1))"
proof (induction m arbitrary: b cursor val rule: less_induct)
  case (less m)
  let ?c = "before cmp xs" and ?ids = "h # xs @ rest"
  have m: "m < 2 ^ 32" using less.prems(3) assms(2) by simp
  show ?case
  proof (cases "m = 0")
    case True
    then have "b = ?c" using less.prems(1,2) by simp
    then show ?thesis
      using True less.prems(4-6) by (subst midl_search_loop.simps) (cases "0 < val"; cases "val < 0"; simp add: add.commute)
  next
    case False
    let ?k = "b + m div 2" and ?cur = "of_nat b + drop_bit 1 (of_nat m) + 1 :: 32 word"
    have k: "?k < length xs" using False less.prems(3) by auto
    have pos: "(0 :: 32 word) < of_nat m" using False m by (simp add: word_less_nat_alt unat_of_nat32)
    have piv: "drop_bit 1 (of_nat m :: 32 word) = of_nat (m div 2)" by (rule drop_bit_of_nat[OF m])
    then have cur: "?cur = of_nat (?k + 1)" by simp
    have "unat ?cur = ?k + 1" unfolding cur using k assms(2) by (intro unat_of_nat32) simp
    then have at: "get ?ids (unat ?cur) = ret (xs ! ?k)" using k by (simp add: nth_append)
    have half: "m div 2 < m" "m - (m div 2 + 1) < m" "m div 2 + 1 \<le> m" using False by auto
    note cmp = before_cmp[OF assms(1) k]
    consider "cmp (xs ! ?k) < 0" | "0 < cmp (xs ! ?k)" | "cmp (xs ! ?k) = 0" by linarith
    then show ?thesis
    proof cases
      case 1
      then have "?c \<le> ?k" using cmp(1) by linarith
      then have "midl_search_loop cmp ?ids (of_nat b) ?cur (cmp (xs ! ?k)) (of_nat (m div 2)) = ret (of_nat (?c + 1))"
        using 1 less.prems(1) k cur by (intro less.IH[OF half(1)]) auto
      then show ?thesis using midl_search_step[OF pos at] 1 by (simp only: piv if_True)
    next
      case 2
      have n: "(of_nat m :: 32 word) - (of_nat (m div 2) + 1) = of_nat (m - (m div 2 + 1))"
        using half(3) by (simp add: of_nat_diff)
      have "?k + 1 \<le> ?c" using cmp(1) 2 by linarith
      then have "midl_search_loop cmp ?ids (of_nat (?k + 1)) ?cur (cmp (xs ! ?k)) (of_nat (m - (m div 2 + 1))) = ret (of_nat (?c + 1))"
        using 2 less.prems(2,3) half(3) cur by (intro less.IH[OF half(2)]) auto
      then show ?thesis using midl_search_step[OF pos at] 2 less_not_sym[OF 2] n piv cur by (simp only: if_True if_False)
    next
      case 3
      then have "?k = ?c" using cmp(2) by simp
      then show ?thesis using midl_search_step[OF pos at] 3 cur by (simp only: less_irrefl if_False)
    qed
  qed
qed

lemma search_effect:
  fixes xs :: "'a list"
  assumes "search_sorted cmp xs" "length xs < 2 ^ 32 - 1"
  shows "midl_search_loop cmp (h # xs @ rest) 0 1 0 (of_nat (length xs)) = ret (of_nat (before cmp xs + 1))"
  using midl_search_loop_effect[OF assms, of 0 "length xs" 0 1 h rest] before_le[of cmp xs] by simp

lemma ucast_count: "n < 2 ^ 32 \<Longrightarrow> (ucast (of_nat n :: MDB_ID) :: 32 word) = of_nat n"
  by (simp add: unsigned_of_nat take_bit_nat_eq_self)

lemma search_sorted_desc: "sorted_wrt (>) xs \<Longrightarrow> search_sorted (\<lambda>x. CMP x key) xs"
  unfolding search_sorted_def by (erule sorted_wrt_mono_rel[rotated]) (auto simp: CMP_def)

lemma search_sorted_asc: "sorted_wrt (\<lambda>a b. mid a < mid b) xs \<Longrightarrow> search_sorted (\<lambda>x. CMP key (mid x)) xs"
  unfolding search_sorted_def by (erule sorted_wrt_mono_rel[rotated]) (auto simp: CMP_def)

subsection \<open>Inserting\<close>

lemma mid2l_shift_effect:
  "\<exists>z. mid2l_shift (h # ys @ zs @ r # rest) (length ys + 1) (length ys + length zs + 1) = ret (h # ys @ z # zs @ rest)"
proof (induction zs arbitrary: r rest rule: rev_induct)
  case (snoc y zs)
  have i: "get (h # ys @ (zs @ [y]) @ r # rest) (length ys + length zs + 1) = ret y"
    by (simp add: nth_append)
  have p: "put (h # ys @ (zs @ [y]) @ r # rest) (Suc (length ys + length zs + 1)) y = ret (h # ys @ zs @ y # y # rest)"
    by (simp add: list_update_append)
  obtain z where "mid2l_shift (h # ys @ zs @ y # y # rest) (length ys + 1) (length ys + length zs + 1) = ret (h # ys @ z # zs @ y # rest)"
    using snoc.IH[of y "y # rest"] by blast
  moreover have "mid2l_shift (h # ys @ (zs @ [y]) @ r # rest) (length ys + 1) (Suc (length ys + length zs + 1))
      = mid2l_shift (h # ys @ zs @ y # y # rest) (length ys + 1) (length ys + length zs + 1)"
    unfolding mid2l_shift.simps(2) i p xbind_simps by simp
  ultimately have "mid2l_shift (h # ys @ (zs @ [y]) @ r # rest) (length ys + 1) (length ys + length (zs @ [y]) + 1)
      = ret (h # ys @ z # (zs @ [y]) @ rest)"
    by (simp del: mid2l_shift.simps)
  then show ?case by blast
qed simp

text \<open>The specification: insertion into a list that is sorted by \<open>mid\<close>.\<close>

definition insert_by_mid :: "'p MDB_ID2 \<Rightarrow> 'p MDB_ID2 list \<Rightarrow> 'p MDB_ID2 list" where
  "insert_by_mid e xs = takeWhile (\<lambda>x. mid x < mid e) xs @ e # dropWhile (\<lambda>x. mid x < mid e) xs"

lemma dropWhile_above:
  "sorted_wrt (\<lambda>a b. mid a < mid b) xs \<Longrightarrow> mid e \<notin> mid ` set xs \<Longrightarrow> \<forall>x \<in> set (dropWhile (\<lambda>x. mid x < mid e) xs). mid e < mid x"
  by (induction xs) (auto simp: not_less le_less)

lemma sorted_wrt_between:
  "sorted_wrt R (ts @ ds) \<Longrightarrow> \<forall>x \<in> set ts. R x e \<Longrightarrow> \<forall>x \<in> set ds. R e x \<Longrightarrow> sorted_wrt R (ts @ e # ds)"
  by (auto simp: sorted_wrt_append)

lemma insert_by_mid_sorted:
  assumes "sorted_wrt (\<lambda>a b. mid a < mid b) xs" "mid e \<notin> mid ` set xs"
  shows "sorted_wrt (\<lambda>a b. mid a < mid b) (insert_by_mid e xs)"
proof -
  let ?t = "takeWhile (\<lambda>x. mid x < mid e) xs" and ?d = "dropWhile (\<lambda>x. mid x < mid e) xs"
  have "sorted_wrt (\<lambda>a b. mid a < mid b) (?t @ ?d)" unfolding takeWhile_dropWhile_id by (rule assms(1))
  moreover have "\<forall>x \<in> set ?t. mid x < mid e" by (auto dest: set_takeWhileD)
  ultimately show ?thesis
    unfolding insert_by_mid_def using dropWhile_above[OF assms] by (rule sorted_wrt_between)
qed

lemma duplicate_position:
  assumes "sorted_wrt (\<lambda>a b. mid a < mid b) xs"
  shows "mid e \<in> mid ` set xs \<longleftrightarrow>
    before (\<lambda>x. CMP (mid e) (mid x)) xs < length xs \<and> mid (xs ! before (\<lambda>x. CMP (mid e) (mid x)) xs) = mid e"
    (is "?l \<longleftrightarrow> ?c < length xs \<and> ?r")
proof
  assume ?l
  then obtain x where "x \<in> set xs" "mid x = mid e" by auto
  then obtain k where k: "k < length xs" "mid (xs ! k) = mid e" by (metis in_set_conv_nth)
  then have "k = ?c" using before_cmp(2)[OF search_sorted_asc[OF assms] k(1), of "mid e"] by (simp add: CMP_def)
  then show "?c < length xs \<and> ?r" using k by simp
next
  assume "?c < length xs \<and> ?r"
  then show ?l by (metis image_eqI nth_mem)
qed

lemma insert_by_mid_split:
  "insert_by_mid e xs = take (before (\<lambda>x. CMP (mid e) (mid x)) xs) xs @ e # drop (before (\<lambda>x. CMP (mid e) (mid x)) xs) xs"
proof -
  have "(0 < CMP (mid e) (mid x)) = (mid x < mid e)" for x :: "'a MDB_ID2" by (auto simp: CMP_def)
  then show ?thesis
    by (simp add: insert_by_mid_def before_def takeWhile_eq_take[symmetric] dropWhile_eq_drop[symmetric])
qed

lemma mdb_mid2l_insert_effect:
  assumes "mid h = of_nat (length xs)" "length (h # xs @ rest) = MDB_IDL_UM_SIZE" "sorted_wrt (\<lambda>a b. mid a < mid b) xs"
  shows "mdb_mid2l_insert (h # xs @ rest) e =
     (if mid e \<in> mid ` set xs then ret (- 1, h # xs @ rest)
      else if rest = [] then ret (- 2, h # xs @ rest)
      else ret (0, h\<lparr>mid := of_nat (length xs + 1)\<rparr> # insert_by_mid e xs @ tl rest))"
proof -
  let ?n = "length xs" and ?c = "before (\<lambda>x. CMP (mid e) (mid x)) xs" and ?arr = "h # xs @ rest"
  have n: "?n + length rest = 131071" using assms(2) by (simp add: MDB_IDL_UM_SIZE_def)
  have cn: "?c \<le> ?n" by (rule before_le)
  have s: "mdb_mid2l_search ?arr (mid e) = ret (of_nat (?c + 1))"
    using search_effect[OF search_sorted_asc[OF assms(3)], of "mid e" h rest] n
    by (simp add: mdb_mid2l_search_def assms(1) ucast_count)
  have u: "unat (of_nat (?c + 1) :: 32 word) = ?c + 1" using cn n by (intro unat_of_nat32) simp
  have ux: "(ucast (of_nat (?c + 1) :: 32 word) :: MDB_ID) = of_nat (?c + 1)"
    using cn n by (simp only: unsigned_of_nat) (simp add: take_bit_nat_eq_self)
  have u64: "unat (of_nat k :: MDB_ID) = k" if "k \<le> 131072" for k using that by (intro unat_of_nat_size) simp
  have not1: "\<not> (of_nat (?c + 1) :: 32 word) < 1" using u by (simp add: word_less_nat_alt)
  have cnt: "mid2l_count ?arr = ret (of_nat ?n)" by (simp add: mid2l_count_def assms(1))
  have le: "(of_nat (?c + 1) :: MDB_ID) \<le> of_nat ?n \<longleftrightarrow> ?c < ?n"
    using cn n by (simp add: word_le_nat_alt u64 Suc_le_eq del: of_nat_Suc of_nat_add)
  have dup: "(if ucast (of_nat (?c + 1) :: 32 word) \<le> (of_nat ?n :: MDB_ID)
       then xbind (get ?arr (?c + 1)) (\<lambda>y. ret (mid y = mid e)) else ret False) = ret (mid e \<in> mid ` set xs)"
    unfolding ux le duplicate_position[OF assms(3)] by (simp add: nth_append)
  have full: "(of_nat MDB_IDL_UM_MAX :: MDB_ID) \<le> of_nat ?n \<longleftrightarrow> rest = []"
    using n by (cases rest) (auto simp: word_le_nat_alt u64 MDB_IDL_UM_MAX_def MDB_IDL_UM_SIZE_def)
  show ?thesis
  proof (cases "mid e \<in> mid ` set xs \<or> rest = []")
    case True
    then show ?thesis
      unfolding mdb_mid2l_insert_def s xbind_simps if_not_P[OF not1] cnt u dup full by (elim disjE) (simp_all only: if_True if_cancel simp_thms)
  next
    case False
    then obtain r rest' where r: "rest = r # rest'" by (cases rest) auto
    let ?h = "h\<lparr>mid := of_nat (?n + 1)\<rparr>" and ?ys = "take ?c xs" and ?zs = "drop ?c xs"
    have inc: "mid2l_incr ?arr = ret (?h # ?ys @ ?zs @ r # rest')"
      by (simp add: mid2l_incr_def assms(1) r add.commute)
    have cnt1: "mid2l_count (?h # ?ys @ ?zs @ r # rest') = ret (of_nat (?n + 1))" by (simp add: mid2l_count_def)
    have "unat (ucast (of_nat (?n + 1) :: MDB_ID) :: 32 word) = ?n + 1"
      using n ucast_count[of "?n + 1"] unat_of_nat32[of "?n + 1"] by simp
    moreover have "length ?ys = ?c" "length ?zs = ?n - ?c" using cn by simp_all
    moreover obtain z where "mid2l_shift (?h # ?ys @ ?zs @ r # rest') (length ?ys + 1) (length ?ys + length ?zs + 1)
        = ret (?h # ?ys @ z # ?zs @ rest')"
      using mid2l_shift_effect by blast
    ultimately have sh: "mid2l_shift (?h # ?ys @ ?zs @ r # rest') (?c + 1) (unat (ucast (of_nat (?n + 1) :: MDB_ID) :: 32 word))
        = ret (?h # ?ys @ z # ?zs @ rest')"
      using cn by (simp del: mid2l_shift.simps)
    have pt: "put (?h # ?ys @ z # ?zs @ rest') (?c + 1) e = ret (?h # insert_by_mid e xs @ rest')"
      using cn by (simp add: insert_by_mid_split list_update_append)
    show ?thesis
      unfolding mdb_mid2l_insert_def s xbind_simps if_not_P[OF not1] cnt u dup full inc cnt1 sh pt
      using False by (simp only: if_False simp_thms de_Morgan_disj r list.sel)
  qed
qed

subsection \<open>Properties\<close>

text \<open>C18: on a list of ids without repetition, in descending order as LMDB keeps them,
  \<open>mdb_midl_search\<close> returns 1 plus the number of greater ids: the position of the id, or of the first
  smaller one. It ends after halving the list to nothing, without an index outside it.\<close>

theorem mdb_midl_search_position:
  assumes "sorted_wrt (>) xs" "length xs < 2 ^ 32 - 1"
  shows "mdb_midl_search (of_nat (length xs) # xs @ rest) key = ret (of_nat (length (filter (\<lambda>x. key < x) xs) + 1))"
proof -
  have "takeWhile (\<lambda>x. 0 < CMP x key) xs = filter (\<lambda>x. key < x) xs"
    using assms(1) by (induction xs) (auto simp: CMP_def intro!: filter_False[symmetric] dest: less_trans)
  then show ?thesis
    using search_effect[OF search_sorted_desc[OF assms(1)] assms(2), of key "of_nat (length xs)" rest] assms(2)
    by (simp add: mdb_midl_search_def ucast_count before_def)
qed

theorem mdb_midl_search_position_witness:
  "mdb_midl_search (of_nat (length [9, 7, 4 :: MDB_ID]) # [9, 7, 4] @ [0]) 5 = ret (of_nat (length (filter (\<lambda>x. 5 < x) [9, 7, 4 :: MDB_ID]) + 1))"
  by (rule mdb_midl_search_position) simp_all

text \<open>C15: \<open>mdb_mid2l_insert\<close> on the array of dirty pages refines the insertion into a list sorted by
  page number: a page that is there is refused with -1, one that does not fit with -2, and both
  leave the array as it was; otherwise the entries after it move up by one place and the result
  is sorted.\<close>

theorem mdb_mid2l_insert_refines:
  assumes "mid h = of_nat (length xs)" "length (h # xs @ rest) = MDB_IDL_UM_SIZE" "sorted_wrt (\<lambda>a b. mid a < mid b) xs"
  shows "mdb_mid2l_insert (h # xs @ rest) e =
       (if mid e \<in> mid ` set xs then ret (- 1, h # xs @ rest)
        else if rest = [] then ret (- 2, h # xs @ rest)
        else ret (0, h\<lparr>mid := of_nat (length xs + 1)\<rparr> # insert_by_mid e xs @ tl rest))
     \<and> (mid e \<in> mid ` set xs \<or> sorted_wrt (\<lambda>a b. mid a < mid b) (insert_by_mid e xs))"
  using mdb_mid2l_insert_effect[OF assms] insert_by_mid_sorted[OF assms(3)] by blast

theorem mdb_mid2l_insert_refines_witness:
  "mdb_mid2l_insert (\<lparr>mid = of_nat (length [\<lparr>mid = 3, mptr = True\<rparr>]), mptr = True\<rparr> # [\<lparr>mid = 3, mptr = True\<rparr>]
         @ replicate 131070 \<lparr>mid = 0, mptr = True\<rparr>) \<lparr>mid = 2, mptr = False\<rparr> =
       (if mid \<lparr>mid = 2, mptr = False\<rparr> \<in> mid ` set [\<lparr>mid = 3, mptr = True\<rparr>]
        then ret (- 1, \<lparr>mid = of_nat (length [\<lparr>mid = 3, mptr = True\<rparr>]), mptr = True\<rparr> # [\<lparr>mid = 3, mptr = True\<rparr>]
          @ replicate 131070 \<lparr>mid = 0, mptr = True\<rparr>)
        else if replicate 131070 \<lparr>mid = 0, mptr = True\<rparr> = []
        then ret (- 2, \<lparr>mid = of_nat (length [\<lparr>mid = 3, mptr = True\<rparr>]), mptr = True\<rparr> # [\<lparr>mid = 3, mptr = True\<rparr>]
          @ replicate 131070 \<lparr>mid = 0, mptr = True\<rparr>)
        else ret (0, (\<lparr>mid = of_nat (length [\<lparr>mid = 3, mptr = True\<rparr>]), mptr = True\<rparr>)\<lparr>mid := of_nat (length [\<lparr>mid = 3, mptr = True\<rparr>] + 1)\<rparr>
          # insert_by_mid \<lparr>mid = 2, mptr = False\<rparr> [\<lparr>mid = 3, mptr = True\<rparr>] @ tl (replicate 131070 \<lparr>mid = 0, mptr = True\<rparr>)))
     \<and> (mid \<lparr>mid = 2, mptr = False\<rparr> \<in> mid ` set [\<lparr>mid = 3, mptr = True\<rparr>]
        \<or> sorted_wrt (\<lambda>a b. mid a < mid b) (insert_by_mid \<lparr>mid = 2, mptr = False\<rparr> [\<lparr>mid = 3, mptr = True\<rparr>]))"
  by (rule mdb_mid2l_insert_refines) (simp_all add: MDB_IDL_UM_SIZE_def del: replicate.simps)

end
