(* ===== verification/MdbMidlList.thy ===== *)
theory MdbMidlList
  imports MdbMidlSearch
begin

text \<open>
  Merging and appending: \<open>mdb_midl_xmerge\<close> merges two descending lists in place, and the appending
  operations keep an ID list inside the block it was allocated with.
\<close>

subsection \<open>Merging\<close>

lemma nth_last: "(m # xs) ! length xs = last (m # xs)"
  by (simp add: last_conv_nth)

lemma xmerge_shift_effect:
  "g \<noteq> [] \<Longrightarrow> \<exists>p q g'. xs = p @ q \<and> (\<forall>x \<in> set q. x < y) \<and> (p = [] \<or> y \<le> last p) \<and> length g' = length g
     \<and> xmerge_shift (- 1 # xs @ g @ zs) y (last (- 1 # xs)) (length xs) (length xs + length g)
       = ret (- 1 # p @ g' @ q @ zs, last (- 1 # p), length p, length p + length g)"
proof (induction xs arbitrary: g zs rule: rev_induct)
  case Nil
  have "\<not> (- 1 :: MDB_ID) < y" by (simp add: word_order.extremum_strict)
  then show ?case by (intro exI[of _ "[]"] exI[of _ g]) simp
next
  case (snoc x xs)
  obtain g1 w where g: "g = g1 @ [w]" using snoc.prems by (metis append_butlast_last_id)
  show ?case
  proof (cases "x < y")
    case False
    then show ?thesis by (intro exI[of _ "xs @ [x]"] exI[of _ "[]"] exI[of _ g]) simp
  next
    case True
    have pt: "put (- 1 # (xs @ [x]) @ g @ zs) (length (xs @ [x]) + length g) x = ret (- 1 # xs @ (x # g1) @ x # zs)"
      by (simp add: g list_update_append)
    have gt: "get (- 1 # xs @ (x # g1) @ x # zs) (length xs) = ret (last (- 1 # xs))"
      using nth_last[of "- 1" xs] by (simp add: get_def nth_append split: nat.splits) (simp add: nth_Cons split: nat.splits)
    have lx: "last (- 1 # xs @ [x]) = x" by simp
    obtain p q g' where pq: "xs = p @ q" "\<forall>x \<in> set q. x < y" "p = [] \<or> y \<le> last p" "length g' = length (x # g1)"
        "xmerge_shift (- 1 # xs @ (x # g1) @ x # zs) y (last (- 1 # xs)) (length xs) (length xs + length (x # g1))
           = ret (- 1 # p @ g' @ q @ x # zs, last (- 1 # p), length p, length p + length (x # g1))"
      using snoc.IH[of "x # g1" "x # zs"] by blast
    have "xmerge_shift (- 1 # (xs @ [x]) @ g @ zs) y (last (- 1 # xs @ [x])) (Suc (length xs)) (length (xs @ [x]) + length g)
        = xmerge_shift (- 1 # xs @ (x # g1) @ x # zs) y (last (- 1 # xs)) (length xs) (length xs + length g)"
      unfolding xmerge_shift.simps(2) lx if_P[OF True] pt xbind_simps gt by simp
    then have "xmerge_shift (- 1 # (xs @ [x]) @ g @ zs) y (last (- 1 # xs @ [x])) (length (xs @ [x])) (length (xs @ [x]) + length g)
        = ret (- 1 # p @ g' @ (q @ [x]) @ zs, last (- 1 # p), length p, length p + length g)"
      using pq(5) by (simp add: g)
    then show ?thesis
      using pq(1-4) True by (intro exI[of _ p] exI[of _ "q @ [x]"] exI[of _ g']) (auto simp: g)
  qed
qed

lemma xmerge_loop_effect:
  assumes "desc xs" "desc ys" "length g = length ys"
  shows "\<exists>ms. xmerge_loop (- 1 # xs @ g @ zs) (m0 # ys @ mrest) (last (- 1 # xs)) (length ys) (length xs) (length xs + length ys)
       = ret (- 1 # ms @ zs) \<and> mset ms = mset xs + mset ys \<and> desc ms"
  using assms
proof (induction ys arbitrary: xs g zs mrest rule: rev_induct)
  case (snoc y ys)
  have g: "g \<noteq> []" using snoc.prems(3) by auto
  obtain p q g' where pq: "xs = p @ q" "\<forall>x \<in> set q. x < y" "p = [] \<or> y \<le> last p" "length g' = length g"
      "xmerge_shift (- 1 # xs @ g @ zs) y (last (- 1 # xs)) (length xs) (length xs + length g)
         = ret (- 1 # p @ g' @ q @ zs, last (- 1 # p), length p, length p + length g)"
    using xmerge_shift_effect[OF g] by blast
  have dp: "desc p" "desc q" "desc ys" "\<forall>v \<in> set ys. y \<le> v"
    using snoc.prems(1,2) pq(1) by (simp_all add: sorted_wrt_append)
  have py: "\<forall>v \<in> set p. y \<le> v" using desc_last[OF dp(1)] pq(3) by (metis empty_iff empty_set order_trans)
  have lg: "length g' = Suc (length ys)" using pq(4) snoc.prems(3) by simp
  then obtain g1 w where g': "g' = g1 @ [w]" by (metis append_butlast_last_id list.size(3) nat.distinct(1))
  then have lg1: "length g1 = length ys" using lg by simp
  have gt: "get (m0 # (ys @ [y]) @ mrest) (Suc (length ys)) = ret y" by (simp add: nth_append)
  have lg2: "length g = Suc (length ys)" using snoc.prems(3) by simp
  have pt: "put (- 1 # p @ g' @ q @ zs) (length p + length g) y = ret (- 1 # p @ g1 @ y # q @ zs)"
    using lg1 by (simp add: lg2 g' list_update_append)
  obtain ms where ms: "xmerge_loop (- 1 # p @ g1 @ y # q @ zs) (m0 # ys @ y # mrest) (last (- 1 # p)) (length ys) (length p) (length p + length ys)
       = ret (- 1 # ms @ y # q @ zs)" "mset ms = mset p + mset ys" "desc ms"
    using snoc.IH[OF dp(1,3) lg1, of "y # q @ zs" "y # mrest"] by blast
  have k: "length p + length g - 1 = length p + length ys" using lg pq(4) by simp
  have "xmerge_loop (- 1 # xs @ g @ zs) (m0 # (ys @ [y]) @ mrest) (last (- 1 # xs)) (Suc (length ys)) (length xs) (length xs + length g)
      = ret (- 1 # (ms @ y # q) @ zs)"
    unfolding xmerge_loop.simps(2) gt xbind_simps pq(5) prod.case pt k using ms(1) by simp
  moreover have "desc (ms @ y # q)"
  proof (rule sorted_wrt_between)
    have "set ms = set p \<union> set ys" using ms(2) by (metis set_mset_mset set_mset_union)
    then show ms_y: "\<forall>v \<in> set ms. y \<le> v" using py dp(4) by auto
    show "\<forall>x \<in> set q. x \<le> y" using pq(2) by auto
    then show "desc (ms @ q)" using ms(3) dp(2) ms_y by (auto simp: sorted_wrt_append intro: order_trans)
  qed
  moreover have "mset (ms @ y # q) = mset xs + mset (ys @ [y])" using ms(2) pq(1) by simp
  ultimately show ?case using snoc.prems(3) by (intro exI[of _ "ms @ y # q"]) simp
qed simp

lemma mdb_midl_xmerge_effect:
  assumes "desc xs" "desc ys" "length ys \<le> length rest" "length xs + length ys < 2 ^ 64"
  shows "\<exists>ms. mdb_midl_xmerge (of_nat (length xs) # xs @ rest) (of_nat (length ys) # ys @ mrest)
       = ret (of_nat (length xs + length ys) # ms @ drop (length ys) rest) \<and> mset ms = mset xs + mset ys \<and> desc ms"
proof -
  let ?g = "take (length ys) rest" and ?zs = "drop (length ys) rest"
  have u: "unat (of_nat (length xs) :: MDB_ID) = length xs" "unat (of_nat (length ys) :: MDB_ID) = length ys"
      "unat (of_nat (length xs + length ys) :: MDB_ID) = length xs + length ys"
    using assms(4) by (intro unat_of_nat_size; simp)+
  have tot: "of_nat (length ys) + of_nat (length xs) = (of_nat (length xs + length ys) :: MDB_ID)" by simp
  have lg: "length ?g = length ys" using assms(3) by simp
  obtain ms where ms: "xmerge_loop (- 1 # xs @ ?g @ ?zs) (of_nat (length ys) # ys @ mrest) (last (- 1 # xs)) (length ys) (length xs) (length xs + length ys)
       = ret (- 1 # ms @ ?zs)" "mset ms = mset xs + mset ys" "desc ms"
    using xmerge_loop_effect[OF assms(1,2) lg, of ?zs "of_nat (length ys)" mrest] by blast
  have gt: "get (- 1 # xs @ rest) (length xs) = ret (last (- 1 # xs))"
    using nth_last[of "- 1" xs] by (simp add: get_def nth_append nth_Cons split: nat.splits)
  have z: "get (n # us) 0 = ret n" "put (n # us) 0 n' = ret (n' # us)" for n n' :: MDB_ID and us by simp_all
  have "mdb_midl_xmerge (of_nat (length xs) # xs @ rest) (of_nat (length ys) # ys @ mrest)
       = ret (of_nat (length xs + length ys) # ms @ ?zs)"
    using ms(1) unfolding mdb_midl_xmerge_def z xbind_simps Let_def tot u gt append_take_drop_id by (simp only: z xbind_simps)
  then show ?thesis using ms(2,3) by blast
qed

subsection \<open>The block of a list\<close>

text \<open>The room is what was allocated, and the count fits into it.\<close>

definition idl_ok :: "midl \<Rightarrow> bool" where
  "idl_ok m \<longleftrightarrow> length (m_ids m) = unat (m_alloclen m) + 1 \<and> unat (m_ids m ! 0) \<le> unat (m_alloclen m)"

definition idl_elements :: "midl \<Rightarrow> MDB_ID list" where
  "idl_elements m = take (unat (m_ids m ! 0)) (tl (m_ids m))"

text \<open>\<open>malloc\<close> gives a block of the size it is asked for.\<close>

definition alloc_ok :: "(nat \<Rightarrow> MDB_ID list option) \<Rightarrow> bool" where
  "alloc_ok malloc \<longleftrightarrow> (\<forall>n b. malloc n = Some b \<longrightarrow> length b = n)"

lemma idl_okE:
  assumes "idl_ok m"
  obtains xs rest where "m_ids m = of_nat (length xs) # xs @ rest" "idl_elements m = xs"
    "unat (m_alloclen m) = length xs + length rest"
proof -
  obtain n ids where ids: "m_ids m = n # ids" using assms by (cases "m_ids m") (auto simp: idl_ok_def)
  let ?xs = "take (unat n) ids" and ?rest = "drop (unat n) ids"
  have "unat n \<le> length ids" "unat (m_alloclen m) = length ids" using assms by (auto simp: idl_ok_def ids)
  then show thesis using ids by (intro that[of ?xs ?rest]) (auto simp: idl_elements_def)
qed

lemma idl_okI:
  assumes "m_ids m = of_nat (length xs) # xs @ rest" "unat (m_alloclen m) = length xs + length rest"
  shows "idl_ok m \<and> idl_elements m = xs"
proof -
  have "unat (of_nat (length xs) :: MDB_ID) = length xs"
    using assms(2) unsigned_less[of "m_alloclen m", where ?'a = nat] by (intro unat_of_nat_size) simp
  then show ?thesis using assms by (simp add: idl_ok_def idl_elements_def)
qed

lemma realloc_ok:
  assumes "alloc_ok malloc" "m_ids m = n # ids" "length ids \<le> k" "malloc (k + 2) \<noteq> None"
  shows "\<exists>more. realloc malloc m (k + 2) = Some \<lparr>m_alloclen = m_alloclen m, m_ids = n # ids @ more\<rparr> \<and> length more = k - length ids"
proof -
  obtain b where b: "malloc (k + 2) = Some b" "length b = k + 2" using assms(1,4) by (auto simp: alloc_ok_def)
  have "take (k + 2) (m_alloclen m # m_ids m) = m_alloclen m # n # ids" using assms(2,3) by simp
  then show ?thesis using assms(2) b by (simp add: realloc_def)
qed

lemma grow_ok:
  assumes "alloc_ok malloc" "m_ids m = n # ids" "unat (m_alloclen m) = length ids" "unat (m_alloclen m) + unat num + 2 < 2 ^ 64"
  shows "mdb_midl_grow malloc m num = (ENOMEM, m) \<or> (\<exists>more. mdb_midl_grow malloc m num =
     (0, \<lparr>m_alloclen = m_alloclen m + num, m_ids = n # ids @ more\<rparr>) \<and> length more = unat num)"
proof -
  have u: "unat (m_alloclen m + num + 2) = (length ids + unat num) + 2"
    using assms(3,4) by (simp add: unat_word_ariths)
  show ?thesis
  proof (cases "malloc (length ids + unat num + 2)")
    case None
    then show ?thesis using u by (simp add: mdb_midl_grow_def realloc_def)
  next
    case (Some b)
    then show ?thesis
      using realloc_ok[OF assms(1,2), of "length ids + unat num"] u by (auto simp: mdb_midl_grow_def)
  qed
qed

text \<open>Either the call fails and changes nothing, or \<open>ys\<close> has been added.\<close>

definition idl_added :: "midl \<Rightarrow> MDB_ID list \<Rightarrow> int \<times> midl \<Rightarrow> bool" where
  "idl_added m ys r \<longleftrightarrow> idl_ok (snd r) \<and> (r = (ENOMEM, m) \<or> fst r = 0 \<and> idl_elements (snd r) = idl_elements m @ ys)"

text \<open>The list after a call that made room for \<open>k\<close> more, or that saw there is room.\<close>

lemma room_cases:
  assumes "alloc_ok malloc" "idl_ok m" "unat (m_alloclen m) + unat num + 2 < 2 ^ 64"
    and "grow \<longrightarrow> k \<le> unat num" "\<not> grow \<longrightarrow> length (idl_elements m) + k \<le> unat (m_alloclen m)"
  obtains "(if grow then mdb_midl_grow malloc m num else (0, m)) = (ENOMEM, m)"
    | m' rest where "(if grow then mdb_midl_grow malloc m num else (0, m)) = (0, m')"
      "m_ids m' = of_nat (length (idl_elements m)) # idl_elements m @ rest" "k \<le> length rest"
      "unat (m_alloclen m') = length (idl_elements m) + length rest"
proof -
  obtain xs rest where m: "m_ids m = of_nat (length xs) # xs @ rest" "idl_elements m = xs" "unat (m_alloclen m) = length xs + length rest"
    by (rule idl_okE[OF assms(2)])
  show thesis
  proof (cases grow)
    case False
    then show thesis using m assms(5) by (intro that(2)[of m rest]) auto
  next
    case True
    have "unat (m_alloclen m + num) = unat (m_alloclen m) + unat num" using assms(3) by (simp add: unat_word_ariths)
    then show thesis
      using grow_ok[OF assms(1) m(1) _ assms(3)] m True assms(4) that(1)
      by (auto intro: that(2)[of "\<lparr>m_alloclen = m_alloclen m + num, m_ids = of_nat (length xs) # (xs @ rest) @ more\<rparr>" "rest @ more" for more])
  qed
qed

lemma count_word:
  assumes "unat (m_alloclen m) = length xs + length rest" "m_ids m = of_nat (length xs) # xs @ rest"
  shows "unat (of_nat (length xs) :: MDB_ID) = length xs" "get (m_ids m) 0 = ret (of_nat (length xs))"
proof -
  show "unat (of_nat (length xs) :: MDB_ID) = length xs"
    using assms(1) unsigned_less[of "m_alloclen m", where ?'a = nat] by (intro unat_of_nat_size) simp
qed (simp add: assms(2))

lemma added_ids:
  assumes "m_ids m' = of_nat (length (xs @ ys)) # (xs @ ys) @ rest" "unat (m_alloclen m') = length (xs @ ys) + length rest" "idl_elements m = xs"
  shows "idl_added m ys (0, m')"
  using idl_okI[OF assms(1,2)] assms(3) by (simp add: idl_added_def)

lemma mdb_midl_append_effect:
  assumes "alloc_ok malloc" "idl_ok m" "unat (m_alloclen m) < 2 ^ 62"
  shows "\<exists>r. mdb_midl_append malloc m key = ret r \<and> idl_added m [key] r"
proof -
  obtain xs rest where m: "m_ids m = of_nat (length xs) # xs @ rest" "idl_elements m = xs" "unat (m_alloclen m) = length xs + length rest"
    by (rule idl_okE[OF assms(2)])
  note cw = count_word[OF m(3,1)]
  let ?g = "of_nat (length xs) \<ge> m_alloclen m"
  have full: "?g \<longleftrightarrow> rest = []" using m(3) cw(1) by (simp add: word_le_nat_alt)
  have num: "unat (of_nat MDB_IDL_UM_MAX :: MDB_ID) = 131071" by (simp add: MDB_IDL_UM_MAX_def MDB_IDL_UM_SIZE_def)
  have "\<not> ?g \<longrightarrow> length (idl_elements m) + 1 \<le> unat (m_alloclen m)" using m(2,3) full by (cases rest) auto
  then show ?thesis
  proof (rule room_cases[OF assms(1,2), of "of_nat MDB_IDL_UM_MAX" ?g 1, rotated 2])
    assume "(if ?g then mdb_midl_grow malloc m (of_nat MDB_IDL_UM_MAX) else (0, m)) = (ENOMEM, m)"
    then show ?thesis using cw(2) assms(2) by (simp add: mdb_midl_append_def Let_def idl_added_def ENOMEM_def)
  next
    fix m' rest' assume r: "(if ?g then mdb_midl_grow malloc m (of_nat MDB_IDL_UM_MAX) else (0, m)) = (0, m')"
      "m_ids m' = of_nat (length (idl_elements m)) # idl_elements m @ rest'" "1 \<le> length rest'"
      "unat (m_alloclen m') = length (idl_elements m) + length rest'"
    obtain y ys where y: "rest' = y # ys" using r(3) by (cases rest') auto
    have u: "unat (of_nat (length xs + 1) :: MDB_ID) = length xs + 1"
      using r(4) m(2) y unsigned_less[of "m_alloclen m'", where ?'a = nat] by (intro unat_of_nat_size) simp
    have "mdb_midl_xappend (m_ids m') key = ret (of_nat (length (xs @ [key])) # (xs @ [key]) @ ys)"
      using r(2) m(2) u by (simp add: mdb_midl_xappend_def y list_update_append add.commute)
    then have "mdb_midl_append malloc m key = ret (0, m'\<lparr>m_ids := of_nat (length (xs @ [key])) # (xs @ [key]) @ ys\<rparr>)"
      using cw(2) r(1) by (simp add: mdb_midl_append_def Let_def)
    moreover have "idl_added m [key] (0, m'\<lparr>m_ids := of_nat (length (xs @ [key])) # (xs @ [key]) @ ys\<rparr>)"
      using r(4) m(2) y by (intro added_ids[OF _ _ m(2)]) simp_all
    ultimately show ?thesis by blast
  qed (use assms(3) num in auto)
qed

text \<open>The ids of a range, the greatest first.\<close>

definition id_range :: "MDB_ID \<Rightarrow> nat \<Rightarrow> MDB_ID list" where
  "id_range key n = rev (map (\<lambda>i. key + of_nat i) [0..<n])"

lemma id_range_Suc: "id_range key (Suc n) = id_range (key + 1) n @ [key]"
proof -
  have "[0..<Suc n] = 0 # map Suc [0..<n]" by (metis map_Suc_upt upt_conv_Cons zero_less_Suc)
  then show ?thesis by (simp add: id_range_def comp_def algebra_simps del: upt_Suc)
qed

lemma append_range_loop_effect:
  "length ys = n \<Longrightarrow> append_range_loop (h # xs @ ys @ zs) (length xs) key n = ret (h # xs @ id_range key n @ zs)"
proof (induction n arbitrary: ys key zs)
  case (Suc n)
  obtain ys' y where ys: "ys = ys' @ [y]" "length ys' = n" using Suc.prems by (cases ys rule: rev_cases) auto
  have "put (h # xs @ ys @ zs) (length xs + Suc n) key = ret (h # xs @ ys' @ key # zs)"
    using ys by (simp add: list_update_append)
  then show ?case using Suc.IH[OF ys(2), where key = "key + 1" and zs = "key # zs"] by (simp add: id_range_Suc)
qed (simp add: id_range_def)

lemma scast_small:
  fixes w :: "32 word"
  assumes "unat w < 2 ^ 31"
  shows "unat (scast w :: MDB_ID) = unat w"
proof -
  have "uint w < 2 ^ 31" using of_nat_less_iff[of "unat w" "2 ^ 31", where ?'a = int] assms by simp
  moreover have "- (2 ^ 31) \<le> uint w" by (rule order_trans[of _ 0]) simp_all
  ultimately have "sint w = uint w" by (simp add: sint_uint signed_take_bit_int_eq_self)
  then have "sint w = int (unat w)" by simp
  then have "(scast w :: MDB_ID) = of_nat (unat w)" by (metis of_int_of_nat_eq scast_eq)
  moreover have "unat w < 2 ^ 64" by (rule less_trans[OF assms]) simp
  ultimately show ?thesis by (simp only: unat_of_nat_size)
qed

lemma or_bounds:
  fixes n :: "32 word"
  assumes "unat n < 2 ^ 31"
  shows "unat n \<le> unat (n OR of_nat MDB_IDL_UM_MAX)" "unat (n OR of_nat MDB_IDL_UM_MAX) < 2 ^ 31"
proof -
  let ?m = "of_nat MDB_IDL_UM_MAX :: 32 word"
  have m: "uint ?m = 131071" by (simp add: MDB_IDL_UM_MAX_def MDB_IDL_UM_SIZE_def)
  have o: "uint (n OR ?m) = uint n OR 131071" by (simp add: uint_or m)
  have "uint n \<le> uint n OR 131071" by (rule or_greater_eq) simp
  then show "unat n \<le> unat (n OR ?m)" unfolding of_nat_le_iff[symmetric, where ?'a = int] using o by simp
  have "uint n < 2 ^ 31" using of_nat_less_iff[of "unat n" "2 ^ 31", where ?'a = int] assms by simp
  then have "uint n OR 131071 < 2 ^ 31" by (intro OR_upper) simp_all
  then show "unat (n OR ?m) < 2 ^ 31" unfolding of_nat_less_iff[symmetric, where ?'a = int] using o by simp
qed

lemma mdb_midl_append_range_effect:
  assumes "alloc_ok malloc" "idl_ok m" "unat (m_alloclen m) < 2 ^ 62" "unat n < 2 ^ 31"
  shows "\<exists>r. mdb_midl_append_range malloc m key n = ret r \<and> idl_added m (id_range key (unat n)) r"
proof -
  obtain xs rest where m: "m_ids m = of_nat (length xs) # xs @ rest" "idl_elements m = xs" "unat (m_alloclen m) = length xs + length rest"
    by (rule idl_okE[OF assms(2)])
  note cw = count_word[OF m(3,1)]
  let ?len = "of_nat (length xs) :: MDB_ID" and ?num = "scast (n OR of_nat MDB_IDL_UM_MAX) :: MDB_ID"
  let ?g = "?len + ucast n > m_alloclen m"
  have num: "unat n \<le> unat ?num" "unat ?num < 2 ^ 31" using or_bounds[OF assms(4)] by (simp_all add: scast_small)
  have un: "unat (ucast n :: MDB_ID) = unat n" using unsigned_less[of n, where ?'a = nat] by (simp add: unsigned_ucast_eq take_bit_nat_eq_self)
  have sum: "unat (?len + ucast n) = length xs + unat n"
    using m(3) assms(3,4) cw(1) un by (simp add: unat_word_ariths)
  have "\<not> ?g \<longrightarrow> length (idl_elements m) + unat n \<le> unat (m_alloclen m)"
    using m(2) sum by (simp add: word_less_nat_alt)
  then show ?thesis
  proof (rule room_cases[OF assms(1,2), of ?num ?g "unat n", rotated 2])
    assume "(if ?g then mdb_midl_grow malloc m ?num else (0, m)) = (ENOMEM, m)"
    then show ?thesis using cw(2) assms(2) by (simp add: mdb_midl_append_range_def Let_def idl_added_def ENOMEM_def)
  next
    fix m' rest' assume r: "(if ?g then mdb_midl_grow malloc m ?num else (0, m)) = (0, m')"
      "m_ids m' = of_nat (length (idl_elements m)) # idl_elements m @ rest'" "unat n \<le> length rest'"
      "unat (m_alloclen m') = length (idl_elements m) + length rest'"
    let ?ys = "take (unat n) rest'" and ?zs = "drop (unat n) rest'" and ?new = "id_range key (unat n)"
    have ln: "length ?ys = unat n" "length ?new = unat n" using r(3) by (simp_all add: id_range_def)
    have al: "m_alloclen (m'\<lparr>m_ids := ids\<rparr>) = m_alloclen m'" for ids by simp
    have lz: "unat n + length ?zs = length rest'" using r(3) by (simp only: length_drop le_add_diff_inverse)
    have n: "ucast n = (of_nat (length ?new) :: MDB_ID)" unfolding ln(2) by simp
    have "append_range_loop ((?len + ucast n) # xs @ ?ys @ ?zs) (length xs) key (unat n) = ret ((?len + ucast n) # xs @ ?new @ ?zs)"
      by (rule append_range_loop_effect[OF ln(1)])
    then have "mdb_midl_append_range malloc m key n = ret (0, m'\<lparr>m_ids := of_nat (length (xs @ ?new)) # (xs @ ?new) @ ?zs\<rparr>)"
      using cw r(1,2) m(2) by (simp add: mdb_midl_append_range_def Let_def n)
    moreover have "idl_added m ?new (0, m'\<lparr>m_ids := of_nat (length (xs @ ?new)) # (xs @ ?new) @ ?zs\<rparr>)"
    proof (rule added_ids[OF _ _ m(2)])
      show "unat (m_alloclen (m'\<lparr>m_ids := of_nat (length (xs @ ?new)) # (xs @ ?new) @ ?zs\<rparr>)) = length (xs @ ?new) + length ?zs"
        using r(4) lz al unfolding m(2) length_append ln(2) by (simp only: add.assoc)
    qed simp
    ultimately show ?thesis by blast
  qed (use assms(3) num in auto)
qed

lemma mdb_midl_append_list_effect:
  assumes "alloc_ok malloc" "idl_ok m" "unat (m_alloclen m) < 2 ^ 62" "length ys < 2 ^ 31"
  shows "\<exists>r. mdb_midl_append_list malloc m (of_nat (length ys) # ys @ arest) = ret r \<and> idl_added m ys r"
proof -
  obtain xs rest where m: "m_ids m = of_nat (length xs) # xs @ rest" "idl_elements m = xs" "unat (m_alloclen m) = length xs + length rest"
    by (rule idl_okE[OF assms(2)])
  note cw = count_word[OF m(3,1)]
  let ?len = "of_nat (length xs) :: MDB_ID" and ?n = "of_nat (length ys) :: MDB_ID"
  let ?num = "scast (ucast ?n :: 32 word) :: MDB_ID"
  let ?g = "?len + ?n \<ge> m_alloclen m"
  have un: "unat ?n = length ys" by (rule unat_of_nat_size) (use assms(4) in simp)
  have u32: "unat (ucast ?n :: 32 word) = length ys"
    using assms(4) ucast_count[of "length ys"] unat_of_nat32[of "length ys"] by simp
  have num: "unat ?num = length ys" using scast_small[of "ucast ?n"] u32 assms(4) by simp
  have sum: "unat (?len + ?n) = length xs + length ys"
    using m(3) assms(3,4) cw(1) un by (simp add: unat_word_ariths)
  have "\<not> ?g \<longrightarrow> length (idl_elements m) + length ys \<le> unat (m_alloclen m)"
    using m(2) sum by (simp add: word_le_nat_alt)
  then show ?thesis
  proof (rule room_cases[OF assms(1,2), of ?num ?g "length ys", rotated 2])
    assume "(if ?g then mdb_midl_grow malloc m ?num else (0, m)) = (ENOMEM, m)"
    then show ?thesis using cw(2) assms(2) by (simp add: mdb_midl_append_list_def Let_def idl_added_def ENOMEM_def)
  next
    fix m' rest' assume r: "(if ?g then mdb_midl_grow malloc m ?num else (0, m)) = (0, m')"
      "m_ids m' = of_nat (length (idl_elements m)) # idl_elements m @ rest'" "length ys \<le> length rest'"
      "unat (m_alloclen m') = length (idl_elements m) + length rest'"
    let ?zs = "drop (length ys) rest'"
    have lz: "length ys + length ?zs = length rest'" using r(3) by (simp only: length_drop le_add_diff_inverse)
    have u1: "unat (?len + 1) = length xs + 1"
      using m(3) assms(3) cw(1) by (simp add: unat_word_ariths)
    have cp: "copy_ids (?len # xs @ rest') (length xs + 1) (?n # ys @ arest) 1 (length ys) = ret (?len # xs @ ys @ ?zs)"
      using r(3) by (simp add: copy_ids_def)
    have "mdb_midl_append_list malloc m (?n # ys @ arest) = ret (0, m'\<lparr>m_ids := of_nat (length (xs @ ys)) # (xs @ ys) @ ?zs\<rparr>)"
      using cw r(1,2) m(2) cp u1 un by (simp add: mdb_midl_append_list_def Let_def)
    moreover have "idl_added m ys (0, m'\<lparr>m_ids := of_nat (length (xs @ ys)) # (xs @ ys) @ ?zs\<rparr>)"
    proof (rule added_ids[OF _ _ m(2)])
      have al: "m_alloclen (m'\<lparr>m_ids := ids\<rparr>) = m_alloclen m'" for ids by simp
      show "unat (m_alloclen (m'\<lparr>m_ids := of_nat (length (xs @ ys)) # (xs @ ys) @ ?zs\<rparr>)) = length (xs @ ys) + length ?zs"
        using r(4) lz al unfolding m(2) length_append by (simp only: add.assoc)
    qed simp
    ultimately show ?thesis by blast
  qed (use assms(3,4) num in auto)
qed

lemma round_down:
  fixes w :: "32 word"
  shows "unat (w AND - 256) = unat w - unat w mod 256"
proof -
  have "(- 256 :: 32 word) = NOT (mask 8)" by (simp add: mask_eq_exp_minus_1)
  moreover have "w AND NOT (mask 8) = push_bit 8 (drop_bit 8 w)" by (rule bit_word_eqI) (auto simp: bit_simps not_less)
  moreover have "unat (push_bit 8 (drop_bit 8 w)) = unat w div 256 * 256"
  proof -
    have "unat w div 256 * 256 < 2 ^ 32"
      using unsigned_less[of w, where ?'a = nat] by (intro le_less_trans[OF div_times_less_eq_dividend]) simp
    then show ?thesis by (simp add: push_bit_eq_mult drop_bit_eq_div unat_word_ariths unat_div)
  qed
  ultimately show ?thesis by (simp add: minus_mod_eq_div_mult)
qed

lemma mdb_midl_need_effect:
  assumes "alloc_ok malloc" "idl_ok m" "length (idl_elements m) + unat num < 2 ^ 31"
  shows "\<exists>rc m'. mdb_midl_need malloc m num = ret (rc, m') \<and> idl_added m [] (rc, m')
     \<and> (rc = 0 \<longrightarrow> length (idl_elements m) + unat num \<le> unat (m_alloclen m'))"
proof -
  obtain xs rest where m: "m_ids m = of_nat (length xs) # xs @ rest" "idl_elements m = xs" "unat (m_alloclen m) = length xs + length rest"
    by (rule idl_okE[OF assms(2)])
  note cw = count_word[OF m(3,1)]
  let ?N = "length xs + unat num" and ?num = "num + ucast (of_nat (length xs) :: MDB_ID) :: 32 word"
  have N: "?N < 2 ^ 31" using assms(3) m(2) by simp
  have "unat (ucast (of_nat (length xs) :: MDB_ID) :: 32 word) = length xs"
    using N ucast_count[of "length xs"] unat_of_nat32[of "length xs"] by simp
  then have u: "unat ?num = ?N" using N by (simp add: unat_word_ariths)
  have u64: "unat (ucast ?num :: MDB_ID) = ?N"
    using N u by (simp add: unsigned_ucast_eq take_bit_nat_eq_self)
  show ?thesis
  proof (cases "ucast ?num > m_alloclen m")
    case False
    then have "mdb_midl_need malloc m num = ret (0, m)" using cw(2) by (simp add: mdb_midl_need_def Let_def)
    moreover have "?N \<le> unat (m_alloclen m)" using False u64 by (simp add: word_less_nat_alt)
    ultimately show ?thesis using assms(2) m(2) by (simp add: idl_added_def)
  next
    case True
    then have grow: "length xs + length rest < ?N" using u64 m(3) by (simp add: word_less_nat_alt)
    let ?w = "?num + ?num div 4 + (256 + 2)" and ?s = "(?num + ?num div 4 + (256 + 2)) AND - 256"
    have w: "unat ?w = ?N + ?N div 4 + 258"
      using N u by (simp add: unat_word_ariths unat_div)
    have "unat ?w mod 256 < 256" by simp
    then have s: "?N + 3 \<le> unat ?s" using round_down[of ?w] w by linarith
    have s32: "unat ?s < 2 ^ 32" using unsigned_less[of ?s, where ?'a = nat] by simp
    define k where "k = unat ?s - 2"
    have k: "unat ?s = k + 2" "length (xs @ rest) \<le> k" "?N \<le> k" using s grow by (auto simp: k_def)
    have s2: "unat (ucast (?s - 2) :: MDB_ID) = k"
      using s s32 k(1) unat_sub[of 2 ?s] by (simp add: unsigned_ucast_eq take_bit_nat_eq_self word_le_nat_alt)
    show ?thesis
    proof (cases "malloc (k + 2)")
      case None
      then have "mdb_midl_need malloc m num = ret (ENOMEM, m)"
        using cw(2) True k(1) by (simp add: mdb_midl_need_def Let_def realloc_def del: add_2_eq_Suc add_2_eq_Suc')
      then show ?thesis using assms(2) by (simp add: idl_added_def ENOMEM_def)
    next
      case (Some b)
      obtain more where more: "realloc malloc m (k + 2) = Some \<lparr>m_alloclen = m_alloclen m, m_ids = of_nat (length xs) # (xs @ rest) @ more\<rparr>"
          "length more = k - length (xs @ rest)"
        using realloc_ok[OF assms(1) m(1) k(2)] Some by auto
      let ?m = "\<lparr>m_alloclen = ucast (?s - 2), m_ids = of_nat (length xs) # xs @ (rest @ more)\<rparr>"
      have "mdb_midl_need malloc m num = ret (0, ?m)"
        using cw(2) True k(1) more(1) by (simp add: mdb_midl_need_def Let_def del: add_2_eq_Suc add_2_eq_Suc')
      moreover have "idl_ok ?m \<and> idl_elements ?m = xs"
        using s2 k(2) more(2) by (intro idl_okI[of _ xs "rest @ more"]) auto
      ultimately show ?thesis using s2 k(3) m(2) by (simp add: idl_added_def)
    qed
  qed
qed

subsection \<open>Properties\<close>

text \<open>C17: \<open>mdb_midl_xmerge\<close> merges a descending list into another one in place: with room for the sum,
  the result holds the ids of both, in descending order, and what lies behind is not touched. The
  word \<open>ids[0]\<close>, set to the greatest id for the time being, ends the scan.\<close>

theorem mdb_midl_xmerge_merges:
  assumes "sorted_wrt (\<ge>) xs" "sorted_wrt (\<ge>) ys" "length ys \<le> length rest" "length xs + length ys < 2 ^ 64"
  shows "\<exists>ms. mdb_midl_xmerge (of_nat (length xs) # xs @ rest) (of_nat (length ys) # ys @ mrest)
       = ret (of_nat (length xs + length ys) # ms @ drop (length ys) rest) \<and> mset ms = mset xs + mset ys \<and> sorted_wrt (\<ge>) ms"
  using assms by (rule mdb_midl_xmerge_effect)

theorem mdb_midl_xmerge_merges_witness:
  "\<exists>ms. mdb_midl_xmerge (of_nat (length [9, 5, 2 :: MDB_ID]) # [9, 5, 2] @ [0, 0, 7]) (of_nat (length [10, 3 :: MDB_ID]) # [10, 3] @ [])
       = ret (of_nat (length [9, 5, 2 :: MDB_ID] + length [10, 3 :: MDB_ID]) # ms @ drop (length [10, 3 :: MDB_ID]) [0, 0, 7])
     \<and> mset ms = mset [9, 5, 2] + mset [10, 3] \<and> sorted_wrt (\<ge>) ms"
  by (rule mdb_midl_xmerge_merges) simp_all

text \<open>C16: appending one id, a list or a range to an ID list, and making room in it, return without
  a write outside the block: either \<open>realloc\<close> fails, the call gives \<open>ENOMEM\<close> and the list is as
  it was, or the ids have been added behind those that were there, the count still fits into the
  room, and the room is the size of the block. After \<open>mdb_midl_need\<close> there is room for the number asked for.\<close>

theorem mdb_midl_appends_in_bounds:
  assumes "alloc_ok malloc" "idl_ok m" "unat (m_alloclen m) < 2 ^ 30"
    and "unat n < 2 ^ 30" "length ys < 2 ^ 30"
  shows "(\<exists>r. mdb_midl_append malloc m key = ret r \<and> idl_added m [key] r)
     \<and> (\<exists>r. mdb_midl_append_list malloc m (of_nat (length ys) # ys @ arest) = ret r \<and> idl_added m ys r)
     \<and> (\<exists>r. mdb_midl_append_range malloc m key n = ret r \<and> idl_added m (id_range key (unat n)) r)
     \<and> (\<exists>rc m'. mdb_midl_need malloc m n = ret (rc, m') \<and> idl_added m [] (rc, m')
          \<and> (rc = 0 \<longrightarrow> length (idl_elements m) + unat n \<le> unat (m_alloclen m')))"
proof -
  have b: "unat (m_alloclen m) < 2 ^ 62" "unat n < 2 ^ 31" "length ys < 2 ^ 31" using assms(3-5) by simp_all
  have "length (idl_elements m) \<le> unat (m_alloclen m)" using assms(2) by (auto simp: idl_ok_def idl_elements_def)
  then have "length (idl_elements m) + unat n < 2 ^ 31" using assms(3,4) by simp
  then show ?thesis
    using mdb_midl_append_effect[OF assms(1,2) b(1)] mdb_midl_append_list_effect[OF assms(1,2) b(1,3)]
      mdb_midl_append_range_effect[OF assms(1,2) b(1,2)] mdb_midl_need_effect[OF assms(1,2)] by blast
qed

definition example_malloc :: "nat \<Rightarrow> MDB_ID list option" where
  "example_malloc n = (if n < 1000000 then Some (replicate n 0) else None)"

theorem mdb_midl_appends_in_bounds_witness:
  "(\<exists>r. mdb_midl_append example_malloc \<lparr>m_alloclen = 2, m_ids = [1, 8, 0]\<rparr> 5 = ret r \<and> idl_added \<lparr>m_alloclen = 2, m_ids = [1, 8, 0]\<rparr> [5] r)
     \<and> (\<exists>r. mdb_midl_append_list example_malloc \<lparr>m_alloclen = 2, m_ids = [1, 8, 0]\<rparr> (of_nat (length [6, 4 :: MDB_ID]) # [6, 4] @ []) = ret r
          \<and> idl_added \<lparr>m_alloclen = 2, m_ids = [1, 8, 0]\<rparr> [6, 4] r)
     \<and> (\<exists>r. mdb_midl_append_range example_malloc \<lparr>m_alloclen = 2, m_ids = [1, 8, 0]\<rparr> 5 3 = ret r
          \<and> idl_added \<lparr>m_alloclen = 2, m_ids = [1, 8, 0]\<rparr> (id_range 5 (unat (3 :: 32 word))) r)
     \<and> (\<exists>rc m'. mdb_midl_need example_malloc \<lparr>m_alloclen = 2, m_ids = [1, 8, 0]\<rparr> 3 = ret (rc, m')
          \<and> idl_added \<lparr>m_alloclen = 2, m_ids = [1, 8, 0]\<rparr> [] (rc, m')
          \<and> (rc = 0 \<longrightarrow> length (idl_elements \<lparr>m_alloclen = 2, m_ids = [1, 8, 0]\<rparr>) + unat (3 :: 32 word) \<le> unat (m_alloclen m')))"
  by (rule mdb_midl_appends_in_bounds) (simp_all add: alloc_ok_def example_malloc_def idl_ok_def split: if_splits)

end
