(* ===== verification/LuaDbPaths.thy ===== *)
theory LuaDbPaths
  imports Fcgi JsonLua LmdbLib
begin

text \<open>
  The string helpers of \<open>src/src/util.c\<close>, the library \<open>uuid\<close> of \<open>src/src/uuid.c\<close> and the Lua state of
  \<open>src/src/state.c\<close> with its \<open>package.path\<close>.

  A \<open>char *\<close> to a string is the list of the bytes from it to the end of its object; what a function
  makes with \<open>malloc\<close> is the part it wrote. A path has the separator of a build that is not for
  Windows. \<open>dirname\<close> is the one of POSIX. The state after \<open>luaL_newstate\<close> and \<open>luaL_openlibs\<close>, and the
  system's source of random numbers and UUIDs, are arguments.
\<close>

definition LUADB_PATH_SEPARATOR :: bytes where "LUADB_PATH_SEPARATOR = str ''/''"

subsection \<open>Joining paths\<close>

definition EndsWithPathSeparator :: "bytes \<Rightarrow> size_t \<Rightarrow> bool exec" where
  "EndsWithPathSeparator s len = xbind (rd s (len - 1)) (\<lambda>c. ret (c = LUADB_PATH_SEPARATOR ! 0))"

text \<open>\<open>snprintf\<close> writes at most \<open>len - 1\<close> bytes and a NUL.\<close>

definition LuaDB_PathJoinLen :: "bytes \<Rightarrow> size_t \<Rightarrow> bytes \<Rightarrow> size_t \<Rightarrow> (bytes option) exec" where
  "LuaDB_PathJoinLen x xlen y ylen =
     xbind (EndsWithPathSeparator x xlen) (\<lambda>hassep.
     let len = xlen + ylen + (if hassep then 1 else 2)
     in if \<not> malloc_ok len then ret None
        else
          xbind (c_string x) (\<lambda>xs.
          xbind (c_string y) (\<lambda>ys.
          ret (Some (take (unat len - 1) (xs @ (if hassep then [] else LUADB_PATH_SEPARATOR) @ ys) @ [0])))))"

definition LuaDB_PathJoin :: "bytes \<Rightarrow> bytes \<Rightarrow> (bytes option) exec" where
  "LuaDB_PathJoin x y = xbind (strlen x) (\<lambda>xlen. xbind (strlen y) (\<lambda>ylen. LuaDB_PathJoinLen x xlen y ylen))"

definition LuaDB_StrDupLen :: "bytes \<Rightarrow> size_t \<Rightarrow> (bytes option) exec" where
  "LuaDB_StrDupLen inp n =
     (if \<not> malloc_ok (n + 1) then ret None
      else if unat n \<le> length inp then ret (Some (take (unat n) inp @ [0])) else throw Out_Of_Bounds)"

definition LuaDB_StrDup :: "bytes \<Rightarrow> (bytes option) exec" where
  "LuaDB_StrDup inp = xbind (strlen inp) (\<lambda>n. LuaDB_StrDupLen inp n)"

subsection \<open>The search path of Lua\<close>

text \<open>\<open>dirname\<close>, on the characters of the path.\<close>

definition drop_last_while :: "(byte \<Rightarrow> bool) \<Rightarrow> bytes \<Rightarrow> bytes" where
  "drop_last_while P s = rev (dropWhile P (rev s))"

definition dirname :: "bytes \<Rightarrow> bytes" where
  "dirname path =
     (let sep = (\<lambda>c. c = LUADB_PATH_SEPARATOR ! 0); p = drop_last_while sep path
      in if p = [] then (if path = [] then str ''.'' else str ''/'')
         else
           let d = drop_last_while (\<lambda>c. \<not> sep c) p
           in if d = [] then str ''.''
              else let d = drop_last_while sep d in if d = [] then str ''/'' else d)"

definition ENDS_WITH_SEP :: "bytes \<Rightarrow> size_t \<Rightarrow> bool exec" where
  "ENDS_WITH_SEP s len = xbind (rd s (len - 1)) (\<lambda>c. ret (c = LUADB_PATH_SEPARATOR ! 0))"

text \<open>\<open>sprintf\<close> into the \<open>len + pathlen + 6 + 2\<close> bytes of \<open>newpath\<close>.\<close>

definition AppendLuaDbPath :: "bytes option \<Rightarrow> size_t \<Rightarrow> bytes \<Rightarrow> bool \<Rightarrow> (bytes option) exec" where
  "AppendLuaDbPath cur_path len path trunc =
     xbind (strlen path) (\<lambda>pathlen.
     if \<not> malloc_ok (pathlen + 1) then ret None
     else
       let pathcpy = take (unat pathlen) path @ [0]
       in xbind (c_string pathcpy) (\<lambda>p.
          let dir = (if trunc then dirname p @ [0] else pathcpy); size = len + pathlen + 6 + 2
          in if \<not> malloc_ok size then ret None
             else
               xbind (if trunc then xbind (strlen dir) (\<lambda>n. ENDS_WITH_SEP dir n) else ENDS_WITH_SEP path pathlen) (\<lambda>has_sep.
               case cur_path of
                 None \<Rightarrow> throw Null_Deref
               | Some cur_path \<Rightarrow>
                   xbind (c_string (cur_path @ [0])) (\<lambda>cur.
                   xbind (c_string dir) (\<lambda>dir.
                   let text = cur @ str '';'' @ dir @ (if has_sep then [] else LUADB_PATH_SEPARATOR) @ str ''?.lua'' @ [0]
                   in if length text \<le> unat size then ret (Some text) else throw Out_Of_Bounds)))))"

definition UpdateLuaPackagePath :: "'d lua_env \<Rightarrow> 'd lua_State \<Rightarrow> bytes \<Rightarrow> bool \<Rightarrow> 'd lua_State exec" where
  "UpdateLuaPackagePath E L path trunc =
     xbind (lua_getglobal E L (str ''package'')) (\<lambda>(t, L).
     xbind (lua_getfield E L (- 1) (str ''path'')) (\<lambda>(t, L).
     xbind (lua_tolstring E L (- 1)) (\<lambda>(cur_path, L).
     xbind (AppendLuaDbPath cur_path (case cur_path of None \<Rightarrow> 0 | Some s \<Rightarrow> of_nat (length s)) path trunc) (\<lambda>newpath.
     case newpath of
       None \<Rightarrow> ret L
     | Some newpath \<Rightarrow>
         xbind (lua_pop L 1) (\<lambda>L.
         xbind (lua_pushstring L (Some newpath)) (\<lambda>L.
         xbind (lua_setfield E L (- 2) (str ''path'')) (\<lambda>L. lua_pop L 1)))))))"

definition LuaDB_PathAddRelative :: "'d lua_env \<Rightarrow> 'd lua_State \<Rightarrow> bytes \<Rightarrow> 'd lua_State exec" where
  "LuaDB_PathAddRelative E L path = UpdateLuaPackagePath E L path True"

definition LuaDB_PathAddAbsolute :: "'d lua_env \<Rightarrow> 'd lua_State \<Rightarrow> bytes \<Rightarrow> 'd lua_State exec" where
  "LuaDB_PathAddAbsolute E L path = UpdateLuaPackagePath E L path False"

subsection \<open>UUIDs\<close>

text \<open>Of the two builds that are not for Windows. \<open>uuid_unparse\<close> writes 36 characters and a NUL; the
  37 and 38 bytes are always there, the \<open>RAND_MAX\<close> bytes of the other build may not be.\<close>

record uuid_source =
  us_uuid_lib :: bool
  us_unparse :: bytes
  us_rand_max :: size_t
  us_malloc :: "size_t \<Rightarrow> bool"
  us_rand :: "32 word"

definition RandUuidCreate :: "uuid_source \<Rightarrow> bytes option" where
  "RandUuidCreate U =
     (if \<not> us_malloc U (us_rand_max U) then None else Some (int_dec (sint (us_rand U)) @ [0]))"

definition UuidLibUuidCreate :: "uuid_source \<Rightarrow> bytes option" where
  "UuidLibUuidCreate U = (if \<not> us_malloc U 38 then None else Some (us_unparse U @ [0]))"

definition LuaDB_CreateGuid :: "uuid_source \<Rightarrow> bytes option" where
  "LuaDB_CreateGuid U = (if us_uuid_lib U then UuidLibUuidCreate U else RandUuidCreate U)"

definition LuaDB_UuidUuid :: "uuid_source \<Rightarrow> 'd lua_State \<Rightarrow> (nat \<times> 'd lua_State) exec" where
  "LuaDB_UuidUuid U L =
     (case LuaDB_CreateGuid U of
        None \<Rightarrow> ret (1, lua_pushnil L)
      | Some uuid \<Rightarrow> xbind (lua_pushstring L (Some uuid)) (\<lambda>L. ret (1, L)))"

definition uuid_lib_funcs :: "(bytes \<times> nat) list" where
  "uuid_lib_funcs = [(str ''uuid'', 44)]"

definition LuaDB_UuidAddLib :: "'d lua_env \<Rightarrow> 'd lua_State \<Rightarrow> 'd lua_State exec" where
  "LuaDB_UuidAddLib E L =
     xbind (luaL_setfuncs E (lua_createtable L) uuid_lib_funcs) (\<lambda>L. lua_setglobal E L (str ''uuid''))"

subsection \<open>A new state\<close>

text \<open>\<open>newstate\<close> is NULL or the state with the standard libraries. \<open>paths\<close> is NULL or the array.\<close>

fun add_paths :: "'d lua_env \<Rightarrow> bytes list \<Rightarrow> 'd lua_State \<Rightarrow> 'd lua_State exec" where
  "add_paths E [] L = ret L"
| "add_paths E (p # ps) L = xbind (LuaDB_PathAddAbsolute E L p) (\<lambda>L. add_paths E ps L)"

definition LuaDB_NewStateWithPaths ::
  "'d lua_env \<Rightarrow> 'd lua_State option \<Rightarrow> bytes list option \<Rightarrow> ('d lua_State option) exec" where
  "LuaDB_NewStateWithPaths E newstate paths =
     (case newstate of
        None \<Rightarrow> ret None
      | Some L \<Rightarrow>
          xbind (LuaDB_JsonAddLib E L) (\<lambda>L.
          xbind (LuaDB_LmdbAddLib E L) (\<lambda>L.
          xbind (LuaDB_UuidAddLib E L) (\<lambda>L.
          xbind (case paths of None \<Rightarrow> ret L | Some ps \<Rightarrow> add_paths E ps L) (\<lambda>L. ret (Some L))))))"

definition LuaDB_NewState :: "'d lua_env \<Rightarrow> 'd lua_State option \<Rightarrow> ('d lua_State option) exec" where
  "LuaDB_NewState E newstate = LuaDB_NewStateWithPaths E newstate None"

end
