(* ===== verification/LuaDbState.thy ===== *)
theory LuaDbState
  imports LuaDbPaths
begin

text \<open>
  Facts about paths, and the Lua state LuaDB starts with: registering the libraries leaves
  \<open>package.path\<close> alone, and each path given is added to its end.
\<close>

subsection \<open>Paths\<close>

lemma EndsWith_last:
  assumes "s \<noteq> []" "length s < 2 ^ 64"
  shows "EndsWithPathSeparator (s @ r) (of_nat (length s)) = ret (last s = 0x2F)"
    and "ENDS_WITH_SEP (s @ r) (of_nat (length s)) = ret (last s = 0x2F)"
proof -
  have "of_nat (length s) - 1 = (of_nat (length s - 1) :: size_t)" using assms(1) by (cases s) simp_all
  moreover have "unat (of_nat (length s - 1) :: size_t) = length s - 1" using assms(2) by (intro unat_of_nat_size) simp
  moreover have "length s - 1 < length s + length r" using assms(1) by (cases s) simp_all
  ultimately have "rd (s @ r) (of_nat (length s) - 1) = ret (last s)"
    using assms(1) by (simp add: rd_def nth_append last_conv_nth)
  then show "EndsWithPathSeparator (s @ r) (of_nat (length s)) = ret (last s = 0x2F)"
    and "ENDS_WITH_SEP (s @ r) (of_nat (length s)) = ret (last s = 0x2F)"
    by (simp_all add: EndsWithPathSeparator_def ENDS_WITH_SEP_def LUADB_PATH_SEPARATOR_def str_def)
qed

definition joined :: "bytes \<Rightarrow> bytes \<Rightarrow> bytes" where
  "joined x y = x @ (if last x = 0x2F then [] else LUADB_PATH_SEPARATOR) @ y"

lemma LuaDB_PathJoinLen_joined:
  assumes "x \<noteq> []" "0 \<notin> set x" "0 \<notin> set y" "length x + length y + 2 < 2 ^ 63"
  shows "LuaDB_PathJoinLen (x @ 0 # r) (of_nat (length x)) (y @ 0 # r') (of_nat (length y)) = ret (Some (joined x y @ [0]))"
proof -
  let ?d = "if last x = 0x2F then 1 else 2 :: nat"
  have "of_nat (length x) + of_nat (length y) + (if last x = 0x2F then 1 else 2) = (of_nat (length x + length y + ?d) :: size_t)" by simp
  moreover have "unat (of_nat (length x + length y + ?d) :: size_t) = length x + length y + ?d"
    using assms(4) by (intro unat_of_nat_size) auto
  moreover have "length (joined x y) = length x + length y + ?d - 1"
    by (simp add: joined_def LUADB_PATH_SEPARATOR_def str_def)
  ultimately show ?thesis
    using assms EndsWith_last(1)[OF assms(1), of "0 # r"] by (simp add: LuaDB_PathJoinLen_def c_string_append malloc_ok_def joined_def)
qed

subsection \<open>package.path\<close>

definition path_entry :: "bytes \<Rightarrow> bytes" where
  "path_entry dir = str '';'' @ dir @ (if last dir = 0x2F then [] else LUADB_PATH_SEPARATOR) @ str ''?.lua''"

lemma path_entry_text:
  "0 \<notin> set dir \<Longrightarrow> 0 \<notin> set (path_entry dir)" "length (path_entry dir) \<le> length dir + 7"
  by (auto simp: path_entry_def LUADB_PATH_SEPARATOR_def str_def)

lemma dirname_props: "dirname p \<noteq> []" "0 \<notin> set p \<Longrightarrow> 0 \<notin> set (dirname p)" "p \<noteq> [] \<Longrightarrow> length (dirname p) \<le> length p"
proof -
  have sub: "set (drop_last_while P s) \<subseteq> set s" "length (drop_last_while P s) \<le> length s" for P s
    using set_dropWhileD[of _ P "rev s"] length_dropWhile_le[of P "rev s"] by (auto simp: drop_last_while_def)
  let ?sep = "\<lambda>c. c = LUADB_PATH_SEPARATOR ! 0"
  let ?p = "drop_last_while ?sep p"
  let ?d = "drop_last_while (\<lambda>c. \<not> ?sep c) ?p"
  show "dirname p \<noteq> []" by (simp add: dirname_def Let_def str_def)
  show "0 \<notin> set p \<Longrightarrow> 0 \<notin> set (dirname p)"
    using sub(1)[of ?sep p] sub(1)[of "\<lambda>c. \<not> ?sep c" ?p] sub(1)[of ?sep ?d] by (auto simp: dirname_def Let_def str_def)
  have "p \<noteq> [] \<Longrightarrow> 1 \<le> length p" by (cases p) auto
  then show "p \<noteq> [] \<Longrightarrow> length (dirname p) \<le> length p"
    using sub(2)[of ?sep p] sub(2)[of "\<lambda>c. \<not> ?sep c" ?p] sub(2)[of ?sep ?d]
    by (auto simp: dirname_def Let_def str_def)
qed

lemma AppendLuaDbPath_entry:
  assumes "p \<noteq> []" "0 \<notin> set p" "0 \<notin> set cur" "length cur + length p + 8 < 2 ^ 63"
  shows "AppendLuaDbPath (Some cur) (of_nat (length cur)) (p @ 0 # r) trunc
     = ret (Some (cur @ path_entry (if trunc then dirname p else p) @ [0]))"
proof -
  let ?dir = "if trunc then dirname p else p"
  have len: "unat (of_nat (length p) :: size_t) = length p" using assms(4) by (intro unat_of_nat_size) simp
  have ok: "malloc_ok (of_nat (length p) + 1)"
    using assms(4) unat_of_nat_size[of "length p + 1"] by (simp add: malloc_ok_def add.commute)
  have sum: "of_nat (length cur) + of_nat (length p) + 6 + 2 = (of_nat (length cur + length p + 8) :: size_t)" by simp
  have size: "unat (of_nat (length cur) + of_nat (length p) + 6 + 2 :: size_t) = length cur + length p + 8"
    unfolding sum using assms(4) by (intro unat_of_nat_size) simp
  have d: "?dir \<noteq> []" "0 \<notin> set ?dir" "length ?dir \<le> length p" using dirname_props[of p] assms(1,2) by auto
  have sep: "(if trunc then xbind (strlen (dirname p @ [0])) (\<lambda>n. ENDS_WITH_SEP (dirname p @ [0]) n)
        else ENDS_WITH_SEP (p @ 0 # r) (of_nat (length p))) = ret (last ?dir = 0x2F)"
    using EndsWith_last(2)[of ?dir "[0]"] EndsWith_last(2)[of p "0 # r"] strlen_C[of ?dir "[]"] d assms by auto
  have cs: "c_string (take (length p) (p @ 0 # r) @ [0]) = ret p" "c_string ((if trunc then dirname p @ [0] else p @ [0])) = ret ?dir"
      "c_string (cur @ [0]) = ret cur"
    using c_string_append[of p "[]"] c_string_append[of ?dir "[]"] c_string_append[of cur "[]"] assms(2,3) d(2) by auto
  have "length (path_entry ?dir) \<le> length p + 7" using path_entry_text(2)[of ?dir] d(3) by simp
  then have fits: "length (cur @ path_entry ?dir @ [0]) \<le> unat (of_nat (length cur) + of_nat (length p) + 6 + 2 :: size_t)"
    unfolding size by simp
  have tx: "cur @ str '';'' @ ?dir @ (if last ?dir = 0x2F then [] else LUADB_PATH_SEPARATOR) @ str ''?.lua'' @ [0] = cur @ path_entry ?dir @ [0]"
    by (simp add: path_entry_def)
  have ok2: "malloc_ok (of_nat (length cur) + of_nat (length p) + 6 + 2)" using size assms(4) by (simp add: malloc_ok_def)
  have pc: "take (length p) (p @ 0 # r) @ [0] = p @ [0]" by simp
  show ?thesis
    unfolding AppendLuaDbPath_def strlen_C[OF assms(2)] xbind_simps len pc Let_def
    using cs ok ok2 sep fits tx by (cases trunc) (simp_all add: path_entry_def)
qed

text \<open>\<open>package.path\<close> is the string \<open>p\<close>; the tables involved are ordinary ones.\<close>

definition has_path :: "'d lua_State \<Rightarrow> bytes \<Rightarrow> bool" where
  "has_path L p \<longleftrightarrow> (\<exists>gs t ps. plain_table L (G_globals L) gs \<and> lookup gs (TString (str ''package'')) = TTable t
     \<and> t \<noteq> G_globals L \<and> t \<noteq> G_registry L \<and> plain_table L t ps \<and> lookup ps (TString (str ''path'')) = TString p)"

lemma getglobal_plain:
  assumes "plain_table L (G_globals L) gs"
  shows "lua_getglobal E L name = ret (ttnov (lookup gs (TString name)), api_incr_top (lookup gs (TString name)) L)"
  using assms gettable_plain[of "api_incr_top (TString name) L" "G_globals L" gs E "TString name"]
  by (simp add: lua_getglobal_def lookup_def set_top_def api_incr_top_def)

lemma getfield_plain:
  assumes "plain_table L t ps" "value_at L idx = ret (TTable t)"
  shows "lua_getfield E L idx k = ret (ttnov (lookup ps (TString k)), api_incr_top (lookup ps (TString k)) L)"
  using assms gettable_plain[of "api_incr_top (TString k) L" t ps E "TString k"]
  by (simp add: lua_getfield_def lookup_def set_top_def api_incr_top_def)

lemma UpdateLuaPackagePath_effect:
  assumes "has_path L cur" "p \<noteq> []" "0 \<notin> set p" "0 \<notin> set cur" "length cur + length p + 8 < 2 ^ 63"
  shows "\<exists>L'. UpdateLuaPackagePath E L (p @ 0 # r) trunc = ret L' \<and> L_stack L' = L_stack L
     \<and> has_path L' (cur @ path_entry (if trunc then dirname p else p))"
proof -
  let ?new = "cur @ path_entry (if trunc then dirname p else p)"
  obtain gs t ps where g: "plain_table L (G_globals L) gs" "lookup gs (TString (str ''package'')) = TTable t"
      "t \<noteq> G_globals L" "t \<noteq> G_registry L" "plain_table L t ps" "lookup ps (TString (str ''path'')) = TString cur"
    using assms(1) unfolding has_path_def by blast
  let ?L1 = "api_incr_top (TTable t) L" and ?L2 = "api_incr_top (TString cur) (api_incr_top (TTable t) L)"
  have 1: "lua_getglobal E L (str ''package'') = ret (LUA_TTABLE, ?L1)" using getglobal_plain[OF g(1), of E] g(2) by simp
  have 2: "lua_getfield E ?L1 (- 1) (str ''path'') = ret (LUA_TSTRING, ?L2)"
    using getfield_plain[of ?L1 t ps "- 1" E "str ''path''"] g(5,6) by (simp add: lua_simps)
  have 3: "lua_tolstring E ?L2 (- 1) = ret (Some cur, ?L2)" by (simp add: lua_tolstring_def lua_simps)
  have nz: "0 \<notin> set ?new" using path_entry_text(1) dirname_props(2)[OF assms(3)] assms(3,4) by auto
  let ?L3 = "api_incr_top (TString ?new) ?L1"
  have 4: "lua_pushstring ?L1 (Some (?new @ [0])) = ret ?L3" using lua_pushstring_simp(1)[OF nz, of ?L1 "[]"] by simp
  have pop: "lua_pop ?L2 1 = ret ?L1" by (simp add: lua_simps api_incr_top_def)
  let ?L4 = "?L1\<lparr>G_heap := (G_heap L)(t \<mapsto> \<lparr>t_node = alist_set (TString (str ''path'')) (TString ?new) ps, t_metatable = None\<rparr>)\<rparr>"
  have 5: "lua_setfield E ?L3 (- 2) (str ''path'') = ret ?L4"
    using g(5) by (subst lua_setfield_plain[of _ t ps "TString ?new" "L_stack ?L1"]) (simp_all add: lua_simps api_incr_top_def)
  let ?L5 = "L\<lparr>G_heap := (G_heap L)(t \<mapsto> \<lparr>t_node = alist_set (TString (str ''path'')) (TString ?new) ps, t_metatable = None\<rparr>)\<rparr>"
  have 6: "lua_pop ?L4 1 = ret ?L5" by (simp add: lua_simps api_incr_top_def)
  have "UpdateLuaPackagePath E L (p @ 0 # r) trunc = ret ?L5"
    using AppendLuaDbPath_entry[OF assms(2-5), of r trunc]
    by (simp add: UpdateLuaPackagePath_def 1 2 3 4[simplified] 5[simplified] 6 pop)
  moreover have "has_path ?L5 ?new"
    unfolding has_path_def
    using g(1-4) by (intro exI[of _ gs] exI[of _ t] exI[of _ "alist_set (TString (str ''path'')) (TString ?new) ps"])
      (auto simp: plain_table_def lookup_def map_of_alist_set)
  ultimately show ?thesis by (intro exI[of _ ?L5]) simp
qed

lemma add_paths_effect:
  "has_path L cur \<Longrightarrow> \<forall>p \<in> set ps. p \<noteq> [] \<and> 0 \<notin> set p \<Longrightarrow> 0 \<notin> set cur
     \<Longrightarrow> length cur + sum_list (map (\<lambda>p. length p + 8) ps) < 2 ^ 63
     \<Longrightarrow> \<exists>L'. add_paths E (map (\<lambda>p. p @ [0]) ps) L = ret L' \<and> L_stack L' = L_stack L \<and> has_path L' (cur @ concat (map path_entry ps))"
proof (induction ps arbitrary: L cur)
  case (Cons p ps)
  have p: "p \<noteq> []" "0 \<notin> set p" "length cur + length p + 8 < 2 ^ 63" using Cons.prems(2,4) by auto
  obtain L1 where L1: "LuaDB_PathAddAbsolute E L (p @ [0]) = ret L1" "L_stack L1 = L_stack L" "has_path L1 (cur @ path_entry p)"
    using UpdateLuaPackagePath_effect[OF Cons.prems(1) p(1,2) Cons.prems(3) p(3), of E "[]" False]
    by (auto simp: LuaDB_PathAddAbsolute_def)
  have nz: "0 \<notin> set (cur @ path_entry p)" using path_entry_text(1)[OF p(2)] Cons.prems(3) by simp
  have "length (cur @ path_entry p) + sum_list (map (\<lambda>p. length p + 8) ps) < 2 ^ 63"
    using path_entry_text(2)[of p] Cons.prems(4) by simp
  then show ?case using Cons.IH[OF L1(3) _ nz] L1(1,2) Cons.prems(2) by simp
qed simp

subsection \<open>A new state\<close>

text \<open>\<open>luaL_newlib\<close> and \<open>lua_setglobal\<close>.\<close>

lemma newlib_effect:
  assumes "plain_table L (G_globals L) gs" "G_globals L < G_next L"
  shows "xbind (luaL_setfuncs E (lua_createtable L) funcs) (\<lambda>L. lua_setglobal E L name)
     = ret (L\<lparr>G_heap := (G_heap L)(G_next L \<mapsto> \<lparr>t_node = put_functions funcs [], t_metatable = None\<rparr>,
           G_globals L \<mapsto> \<lparr>t_node = alist_set (TString name) (TTable (G_next L)) gs, t_metatable = None\<rparr>),
         G_next := G_next L + 1\<rparr>)"
proof -
  let ?n = "G_next L" and ?g = "G_globals L"
  let ?L1 = "L\<lparr>L_stack := TTable ?n # L_stack L,
      G_heap := (G_heap L)(?n \<mapsto> \<lparr>t_node = put_functions funcs [], t_metatable = None\<rparr>), G_next := ?n + 1\<rparr>"
  have 1: "luaL_setfuncs E (lua_createtable L) funcs = ret ?L1"
    using luaL_setfuncs_plain[of "lua_createtable L" ?n "[]" "L_stack L" E funcs]
    by (simp add: lua_createtable_def api_incr_top_def plain_table_def)
  have g: "plain_table ?L1 ?g gs" using assms by (simp add: plain_table_def)
  have "luaV_settable E (api_incr_top (TString name) ?L1) (TTable ?g) (TString name) (TTable ?n)
      = ret (heap_set (api_incr_top (TString name) ?L1) ?g \<lparr>t_node = alist_set (TString name) (TTable ?n) gs, t_metatable = None\<rparr>)"
    by (rule settable_plain) (use g in simp_all)
  then show ?thesis by (simp add: 1 lua_setglobal_def lua_simps heap_set_def api_incr_top_def)
qed

text \<open>A state with the standard libraries.\<close>

definition base_state :: "'d lua_State \<Rightarrow> bytes \<Rightarrow> bool" where
  "base_state L p \<longleftrightarrow> has_path L p \<and> (\<forall>a. G_next L \<le> a \<longrightarrow> G_heap L a = None) \<and> G_registry L \<noteq> G_globals L
     \<and> (\<exists>ps. registry_is L ps)"

lemma base_below: "base_state L p \<Longrightarrow> plain_table L a ps \<Longrightarrow> a < G_next L"
  unfolding base_state_def plain_table_def by (metis not_le option.distinct(1))

lemma newlib_base:
  assumes "base_state L p" "name \<noteq> str ''package''"
  shows "\<exists>L'. xbind (luaL_setfuncs E (lua_createtable L) funcs) (\<lambda>L. lua_setglobal E L name) = ret L' \<and> base_state L' p
     \<and> L_stack L' = L_stack L \<and> G_registry L' = G_registry L \<and> (\<forall>ps. registry_is L ps \<longrightarrow> registry_is L' ps)"
proof -
  obtain gs t ps where g: "plain_table L (G_globals L) gs" "lookup gs (TString (str ''package'')) = TTable t"
      "t \<noteq> G_globals L" "t \<noteq> G_registry L" "plain_table L t ps" "lookup ps (TString (str ''path'')) = TString p"
    using assms(1) unfolding base_state_def has_path_def by blast
  obtain rs where r: "registry_is L rs" using assms(1) unfolding base_state_def by blast
  have b: "G_globals L < G_next L" "t < G_next L" "G_registry L < G_next L" "G_registry L \<noteq> G_globals L"
    using base_below[OF assms(1)] g(1,5) r assms(1) by (auto simp: registry_is_def base_state_def)
  let ?L = "L\<lparr>G_heap := (G_heap L)(G_next L \<mapsto> \<lparr>t_node = put_functions funcs [], t_metatable = None\<rparr>,
           G_globals L \<mapsto> \<lparr>t_node = alist_set (TString name) (TTable (G_next L)) gs, t_metatable = None\<rparr>),
         G_next := G_next L + 1\<rparr>"
  have reg: "registry_is ?L rs'" if "registry_is L rs'" for rs' using that b by (simp add: registry_is_def plain_table_def)
  have "has_path ?L p"
    unfolding has_path_def using g b assms(2)
    by (intro exI[of _ "alist_set (TString name) (TTable (G_next L)) gs"] exI[of _ t] exI[of _ ps])
      (auto simp: plain_table_def lookup_def map_of_alist_set)
  moreover have "\<forall>a. G_next ?L \<le> a \<longrightarrow> G_heap ?L a = None" using assms(1) b by (auto simp: base_state_def)
  ultimately have "base_state ?L p" using reg[OF r] b unfolding base_state_def by auto
  then show ?thesis using newlib_effect[OF g(1) b(1)] reg by (intro exI[of _ ?L]) simp
qed

lemma LmdbAddLib_base:
  assumes "base_state L p" "registry_is L rs"
    and "lookup rs (TString LMDB_ENV_REGISTRY_NAME) = TNil" "lookup rs (TString LMDB_TX_REGISTRY_NAME) = TNil"
      "lookup rs (TString LMDB_CURSOR_REGISTRY_NAME) = TNil"
  shows "\<exists>L'. LuaDB_LmdbAddLib E L = ret L' \<and> base_state L' p"
proof -
  obtain gs t ps where g: "plain_table L (G_globals L) gs" "lookup gs (TString (str ''package'')) = TTable t"
      "t \<noteq> G_globals L" "t \<noteq> G_registry L" "plain_table L t ps" "lookup ps (TString (str ''path'')) = TString p"
    using assms(1) unfolding base_state_def has_path_def by blast
  have tn: "t < G_next L" "G_registry L \<noteq> G_globals L" using base_below[OF assms(1) g(5)] assms(1) by (auto simp: base_state_def)
  have "fresh_lua L" using assms g(1) unfolding fresh_lua_def base_state_def by blast
  from AddLib_effect[OF this, of E] obtain L' ps' where L': "LuaDB_LmdbAddLib E L = ret L'" "registry_is L' ps'"
      "G_registry L' = G_registry L" "\<forall>a. G_next L' \<le> a \<longrightarrow> G_heap L' a = None" "G_globals L' = G_globals L"
      "plain_table L' (G_globals L) (alist_set (TString (str ''lmdb'')) (TTable (G_next L + 3)) gs)"
      "\<forall>a < G_next L. a \<noteq> G_globals L \<longrightarrow> a \<noteq> G_registry L \<longrightarrow> G_heap L' a = G_heap L a"
    using g(1) by blast
  have "plain_table L' t ps" using L'(7) tn g(3-5) by (simp add: plain_table_def)
  then have "has_path L' p"
    unfolding has_path_def using g L'(3,5,6)
    by (intro exI[of _ "alist_set (TString (str ''lmdb'')) (TTable (G_next L + 3)) gs"] exI[of _ t] exI[of _ ps])
      (auto simp: lookup_def map_of_alist_set str_def)
  then show ?thesis using L'(1-5) tn(2) unfolding base_state_def by auto
qed

text \<open>The libraries, then the paths.\<close>

lemma NewState_libs:
  assumes "base_state L cur" "registry_is L rs"
    and "lookup rs (TString LMDB_ENV_REGISTRY_NAME) = TNil" "lookup rs (TString LMDB_TX_REGISTRY_NAME) = TNil"
      "lookup rs (TString LMDB_CURSOR_REGISTRY_NAME) = TNil"
  shows "\<exists>L'. has_path L' cur
     \<and> (\<forall>ps. LuaDB_NewStateWithPaths E (Some L) (Some ps) = xbind (add_paths E ps L') (\<lambda>L. ret (Some L)))"
proof -
  obtain L1 where L1: "LuaDB_JsonAddLib E L = ret L1" "base_state L1 cur" "registry_is L1 rs"
    using newlib_base[OF assms(1), of "str ''json''" E json_lib_funcs] assms(2)
    by (auto simp: LuaDB_JsonAddLib_def str_def)
  obtain L2 where L2: "LuaDB_LmdbAddLib E L1 = ret L2" "base_state L2 cur"
    using LmdbAddLib_base[OF L1(2,3) assms(3-5)] by blast
  obtain L3 where L3: "LuaDB_UuidAddLib E L2 = ret L3" "base_state L3 cur"
    using newlib_base[OF L2(2), of "str ''uuid''" E uuid_lib_funcs] by (auto simp: LuaDB_UuidAddLib_def str_def)
  then show ?thesis using L1(1) L2(1) by (intro exI[of _ L3]) (simp add: LuaDB_NewStateWithPaths_def base_state_def)
qed

lemma NewState_effect:
  assumes "base_state L cur" "registry_is L rs"
    and "lookup rs (TString LMDB_ENV_REGISTRY_NAME) = TNil" "lookup rs (TString LMDB_TX_REGISTRY_NAME) = TNil"
      "lookup rs (TString LMDB_CURSOR_REGISTRY_NAME) = TNil"
    and "\<forall>p \<in> set ps. p \<noteq> [] \<and> 0 \<notin> set p" "0 \<notin> set cur" "length cur + sum_list (map (\<lambda>p. length p + 8) ps) < 2 ^ 63"
  shows "\<exists>L'. LuaDB_NewStateWithPaths E (Some L) (Some (map (\<lambda>p. p @ [0]) ps)) = ret (Some L')
     \<and> has_path L' (cur @ concat (map path_entry ps))"
proof -
  obtain L1 where L1: "has_path L1 cur"
      "\<forall>ps. LuaDB_NewStateWithPaths E (Some L) (Some ps) = xbind (add_paths E ps L1) (\<lambda>L. ret (Some L))"
    using NewState_libs[OF assms(1-5), of E] by blast
  then show ?thesis using add_paths_effect[OF L1(1) assms(6-8), of E] by auto
qed

subsection \<open>Properties\<close>

text \<open>A new Lua state has \<open>package.path\<close> as the standard libraries set it, followed for each path
  given by a semicolon, the path, a separator if it does not end in one, and \<open>?.lua\<close>, in the order
  given. Registering the three libraries changes no existing field, and every string fits the
  buffer that was allocated for it.\<close>

theorem LuaDB_NewStateWithPaths_path:
  assumes "base_state L cur" "registry_is L rs"
    and "lookup rs (TString LMDB_ENV_REGISTRY_NAME) = TNil" "lookup rs (TString LMDB_TX_REGISTRY_NAME) = TNil"
      "lookup rs (TString LMDB_CURSOR_REGISTRY_NAME) = TNil"
    and "\<forall>p \<in> set ps. p \<noteq> [] \<and> 0 \<notin> set p" "0 \<notin> set cur" "length cur + sum_list (map (\<lambda>p. length p + 8) ps) < 2 ^ 63"
  shows "\<exists>L'. LuaDB_NewStateWithPaths E (Some L) (Some (map (\<lambda>p. p @ [0]) ps)) = ret (Some L')
     \<and> has_path L' (cur @ concat (map path_entry ps))"
  using assms by (rule NewState_effect)

definition example_base :: "unit lua_State" where
  "example_base = \<lparr>L_stack = [], L_upvalue = [],
     G_heap = Map.empty(0 \<mapsto> \<lparr>t_node = [], t_metatable = None\<rparr>,
       1 \<mapsto> \<lparr>t_node = [(TString (str ''package''), TTable 2)], t_metatable = None\<rparr>,
       2 \<mapsto> \<lparr>t_node = [(TString (str ''path''), TString (str ''./?.lua''))], t_metatable = None\<rparr>),
     G_next = 3, G_mt = \<lambda>_. None, G_udmt = Map.empty, G_registry = 0, G_globals = 1\<rparr>"

lemma example_base_ok: "base_state example_base (str ''./?.lua'')" "registry_is example_base []"
proof -
  show r: "registry_is example_base []" by (simp add: example_base_def registry_is_def plain_table_def)
  have "has_path example_base (str ''./?.lua'')"
    unfolding has_path_def
    by (intro exI[of _ "[(TString (str ''package''), TTable 2)]"] exI[of _ 2] exI[of _ "[(TString (str ''path''), TString (str ''./?.lua''))]"])
      (simp add: example_base_def plain_table_def lookup_def)
  then show "base_state example_base (str ''./?.lua'')" using r by (auto simp: base_state_def example_base_def)
qed

theorem LuaDB_NewStateWithPaths_path_witness:
  "\<exists>L'. LuaDB_NewStateWithPaths example_env (Some example_base) (Some (map (\<lambda>p. p @ [0]) [str ''/srv/lib'', str ''/opt/''])) = ret (Some L')
     \<and> has_path L' (str ''./?.lua'' @ concat (map path_entry [str ''/srv/lib'', str ''/opt/'']))"
  by (rule LuaDB_NewStateWithPaths_path[OF example_base_ok]) (simp_all add: lookup_def str_def)

text \<open>An empty path is an access outside its object: \<open>ENDS_WITH_SEP\<close> reads the byte before an
  empty path that is taken as it is, and the directory of an empty script name, a dot, with its
  separator is one byte longer than the buffer.\<close>

theorem AppendLuaDbPath_empty:
  assumes "0 \<notin> set cur" "length cur < 2 ^ 62" "length r < 2 ^ 62"
  shows "AppendLuaDbPath (Some cur) (of_nat (length cur)) (0 # r) trunc = throw Out_Of_Bounds"
proof -
  have size: "unat (of_nat (length cur) + 8 :: size_t) = length cur + 8"
    using assms(2) unat_of_nat_size[of "length cur + 8"] by (simp add: add.commute)
  then have size2: "unat (8 + of_nat (length cur) :: size_t) = length cur + 8" by (simp only: add.commute)
  have cs: "c_string (cur @ [0]) = ret cur" "c_string (str ''.'' @ [0]) = ret (str ''.'')" "c_string [0] = ret []"
    using c_string_append[of cur "[]"] c_string_append[of "str ''.''" "[]"] c_string_append[of "[]" "[]"] assms(1) by (auto simp: str_def)
  have d: "dirname [] = str ''.''" by (simp add: dirname_def drop_last_while_def)
  have w: "unat (- 1 :: size_t) = 2 ^ 64 - 1" by (simp add: unsigned_minus_1_eq_mask mask_eq_exp_minus_1)
  show ?thesis
  proof (cases trunc)
    case True
    have "strlen (str ''.'' @ [0]) = ret 1" "rd (str ''.'' @ [0]) 0 = ret 0x2E" by (simp_all add: str_def rd_def)
    then show ?thesis
      using True cs d size size2 assms(2)
      by (simp add: AppendLuaDbPath_def malloc_ok_def ENDS_WITH_SEP_def Let_def LUADB_PATH_SEPARATOR_def) (simp add: str_def)
  next
    case False
    have "rd (0 # r) (- 1) = throw Out_Of_Bounds" using assms(3) by (simp add: rd_def w)
    then show ?thesis
      using False cs size2 assms(2) by (simp add: AppendLuaDbPath_def malloc_ok_def ENDS_WITH_SEP_def Let_def)
  qed
qed

theorem AppendLuaDbPath_empty_witness:
  "AppendLuaDbPath (Some (str ''./?.lua'')) (of_nat (length (str ''./?.lua''))) (0 # []) True = throw Out_Of_Bounds"
  by (rule AppendLuaDbPath_empty) (simp_all add: str_def)

end
