(* ===== verification/LuaDbConfig.thy ===== *)
theory LuaDbConfig
  imports LuaDbState JsonLuaTrip
begin

text \<open>
  The configuration of the environment, \<open>src/src/config.c\<close>: the four settings are read from the
  table a configuration file returns. \<open>def->offset\<close> is the update of the field it is the offset
  of. Running the file is an argument. A block that cannot be allocated is a fault here, while the
  code stores NULL and fails later. \<open>luaL_checkstack\<close> is not called by this file.
\<close>

definition LUADB_CONFIG_FOLDER :: bytes where "LUADB_CONFIG_FOLDER = str ''/etc/luadb/''"
definition LUADB_DEFAULT_CONFIG_FILE :: bytes where "LUADB_DEFAULT_CONFIG_FILE = str ''config.lua''"
definition LUADB_WEB_ROOT :: bytes where "LUADB_WEB_ROOT = str ''/var/www/luadb/''"

record DefaultConfig =
  dc_name :: bytes
  dc_len :: nat
  dc_val :: bytes
  dc_offset :: "LuaDB_Setting \<Rightarrow> LuaDB_EnvConfig \<Rightarrow> LuaDB_EnvConfig"
  dc_fmt :: "(LuaDB_EnvConfig \<Rightarrow> bytes \<Rightarrow> size_t \<Rightarrow> (bytes option) exec) option"
  dc_validate :: "(bytes \<Rightarrow> size_t \<Rightarrow> bool) option"

definition FormatRouter :: "LuaDB_EnvConfig \<Rightarrow> bytes \<Rightarrow> size_t \<Rightarrow> (bytes option) exec" where
  "FormatRouter config val len = LuaDB_PathJoinLen (st_val (cfg_root config)) (st_len (cfg_root config)) val len"

definition default_cfg :: "DefaultConfig list" where
  "default_cfg =
     [\<lparr>dc_name = str ''root'', dc_len = 4, dc_val = LUADB_WEB_ROOT @ [0], dc_offset = (\<lambda>s c. c\<lparr>cfg_root := s\<rparr>),
       dc_fmt = None, dc_validate = None\<rparr>,
      \<lparr>dc_name = str ''router'', dc_len = 6, dc_val = str ''reqhandler.lua'' @ [0], dc_offset = (\<lambda>s c. c\<lparr>cfg_router := s\<rparr>),
       dc_fmt = Some FormatRouter, dc_validate = None\<rparr>,
      \<lparr>dc_name = str ''fcgi_query'', dc_len = 10, dc_val = str ''QUERY_STRING'' @ [0],
       dc_offset = (\<lambda>s c. c\<lparr>cfg_fcgi_query := s\<rparr>), dc_fmt = None, dc_validate = None\<rparr>,
      \<lparr>dc_name = str ''fcgi_header_prefix'', dc_len = 18, dc_val = str ''HTTP_'' @ [0],
       dc_offset = (\<lambda>s c. c\<lparr>cfg_fcgi_header_prefix := s\<rparr>), dc_fmt = None, dc_validate = None\<rparr>]"

text \<open>\<open>s->val = ...; s->len = ...\<close> with the length given, or that of the string.\<close>

definition set_setting :: "DefaultConfig \<Rightarrow> bytes option \<Rightarrow> size_t option \<Rightarrow> LuaDB_EnvConfig \<Rightarrow> LuaDB_EnvConfig exec" where
  "set_setting def val len config =
     (case val of
        None \<Rightarrow> throw Null_Deref
      | Some v \<Rightarrow>
          xbind (case len of Some n \<Rightarrow> ret n | None \<Rightarrow> strlen v) (\<lambda>n.
          ret (dc_offset def \<lparr>st_val = v, st_len = n\<rparr> config)))"

definition ApplyDefaultConfig :: "LuaDB_EnvConfig \<Rightarrow> DefaultConfig \<Rightarrow> LuaDB_EnvConfig exec" where
  "ApplyDefaultConfig config def =
     xbind (strlen (dc_val def)) (\<lambda>len.
     xbind (LuaDB_StrDupLen (dc_val def) len) (\<lambda>val.
     xbind (set_setting def val (Some len) config) (\<lambda>config.
     case dc_fmt def of
       None \<Rightarrow> ret config
     | Some fmt \<Rightarrow>
         (case val of
            None \<Rightarrow> throw Null_Deref
          | Some val \<Rightarrow> xbind (fmt config val len) (\<lambda>newval. set_setting def newval None config)))))"

definition LoadConfigSetting ::
  "'d lua_env \<Rightarrow> 'd lua_State \<Rightarrow> LuaDB_EnvConfig \<Rightarrow> DefaultConfig \<Rightarrow> (LuaDB_EnvConfig \<times> 'd lua_State) exec" where
  "LoadConfigSetting E L config def =
     xbind (lua_pushlstring L (Some (dc_name def)) (dc_len def)) (\<lambda>L.
     xbind (lua_gettable E L (- 2)) (\<lambda>(t, L).
     if t \<noteq> LUA_TNIL then
       xbind (luaL_tolstring E L (- 1)) (\<lambda>(setval, L).
       case setval of
         None \<Rightarrow> throw Null_Deref
       | Some s \<Rightarrow>
           let len = of_nat (length s); setval = s @ [0]
           in if (case dc_validate def of None \<Rightarrow> False | Some validate \<Rightarrow> \<not> validate setval len) then
                xbind (ApplyDefaultConfig config def) (\<lambda>config. xbind (lua_pop L 2) (\<lambda>L. ret (config, L)))
              else
                xbind (case dc_fmt def of
                         Some fmt \<Rightarrow> xbind (fmt config setval len) (\<lambda>val. set_setting def val None config)
                       | None \<Rightarrow> xbind (LuaDB_StrDupLen setval len) (\<lambda>val. set_setting def val (Some len) config)) (\<lambda>config.
                xbind (lua_pop L 2) (\<lambda>L. ret (config, L))))
     else xbind (ApplyDefaultConfig config def) (\<lambda>config. ret (config, L))))"

fun LoadConfigSettings ::
  "'d lua_env \<Rightarrow> DefaultConfig list \<Rightarrow> 'd lua_State \<Rightarrow> LuaDB_EnvConfig \<Rightarrow> (LuaDB_EnvConfig \<times> 'd lua_State) exec" where
  "LoadConfigSettings E [] L config = ret (config, L)"
| "LoadConfigSettings E (def # defs) L config =
     xbind (LoadConfigSetting E L config def) (\<lambda>(config, L). LoadConfigSettings E defs L config)"

definition LoadConfigFromLua :: "'d lua_env \<Rightarrow> 'd lua_State \<Rightarrow> LuaDB_EnvConfig \<Rightarrow> (LuaDB_EnvConfig \<times> 'd lua_State) exec" where
  "LoadConfigFromLua E L config = LoadConfigSettings E default_cfg L config"

text \<open>\<open>dofile\<close> runs the file of that name: whether it failed, and the state it leaves.\<close>

definition LuaDB_ReadEnvironmentConfig ::
  "'d lua_env \<Rightarrow> 'd lua_State option \<Rightarrow> (bytes \<Rightarrow> 'd lua_State \<Rightarrow> (bool \<times> 'd lua_State) exec) \<Rightarrow> LuaDB_EnvConfig
     \<Rightarrow> (bool \<times> LuaDB_EnvConfig) exec" where
  "LuaDB_ReadEnvironmentConfig E newstate dofile config =
     xbind (LuaDB_PathJoin (LUADB_CONFIG_FOLDER @ [0]) (LUADB_DEFAULT_CONFIG_FILE @ [0])) (\<lambda>cfgfile.
     case cfgfile of
       None \<Rightarrow> ret (False, config)
     | Some cfgfile \<Rightarrow>
         xbind (LuaDB_NewState E newstate) (\<lambda>L.
         case L of
           None \<Rightarrow> ret (False, config)
         | Some L \<Rightarrow>
             xbind (dofile cfgfile L) (\<lambda>(err, L).
             if err then ret (False, config)
             else xbind (LoadConfigFromLua E L config) (\<lambda>(config, L). ret (True, config)))))"

subsection \<open>One setting\<close>

lemma tolstring_top:
  assumes "L_stack L = TString b # s" "no_tostring E L"
  shows "luaL_tolstring E L (- 1) = ret (Some b, api_incr_top (TString b) L)"
proof -
  have abs: "lua_absindex L (- 1) = lua_gettop L" using assms(1) by (simp add: lua_absindex_def lua_gettop_def LUA_REGISTRYINDEX_def)
  have "luaL_getmetafield E L (lua_gettop L) (str ''__tostring'') = ret (LUA_TNIL, L)"
    using top_value(1)[OF assms(1)] assms(2) by (cases "G_mt L LUA_TSTRING")
      (auto simp: no_tostring_def luaL_getmetafield_def lua_getmetatable_def metatable_of_def hvalue_def lua_rawget_def
        lua_simps Let_def set_top_def stack_same)
  then show ?thesis
    using assms(1) by (simp add: luaL_tolstring_def luaL_callmeta_def abs lua_tolstring_def lua_simps Let_def)
qed

lemma no_tostring_stack [simp]: "no_tostring E (L\<lparr>L_stack := s\<rparr>) = no_tostring E L"
  by (cases "G_mt L LUA_TSTRING") (auto simp: no_tostring_def)

lemma gettable_name:
  assumes "L_stack L = TTable t # s" "plain_table L t ps" "dc_len def = length (dc_name def)"
  shows "xbind (lua_pushlstring L (Some (dc_name def)) (dc_len def)) (\<lambda>L. lua_gettable E L (- 2))
     = ret (ttnov (lookup ps (TString (dc_name def))), L\<lparr>L_stack := lookup ps (TString (dc_name def)) # TTable t # s\<rparr>)"
proof -
  have "plain_table (api_incr_top (TString (dc_name def)) L) t ps" using assms(2) by simp
  then show ?thesis
    using assms(1,3) gettable_plain[of "api_incr_top (TString (dc_name def)) L" t ps E "TString (dc_name def)"]
    by (simp add: lua_simps lua_gettable_def lookup_def set_top_def api_incr_top_def)
qed

lemma xbind_prefix: "xbind m f = ret y \<Longrightarrow> xbind m (\<lambda>x. xbind (f x) g) = g y"
  by (simp flip: xbind_assoc)

text \<open>The two ways a setting is found: a string, with and without a function that formats it.\<close>

lemma setting_string:
  assumes "L_stack L = TTable t # s" "plain_table L t ps" "no_tostring E L" "dc_len def = length (dc_name def)"
    and "lookup ps (TString (dc_name def)) = TString v" "dc_validate def = None" "length v < 2 ^ 62"
  shows "dc_fmt def = None
      \<Longrightarrow> LoadConfigSetting E L config def = ret (dc_offset def \<lparr>st_val = v @ [0], st_len = of_nat (length v)\<rparr> config, L)"
    and "dc_fmt def = Some f \<Longrightarrow> f config (v @ [0]) (of_nat (length v)) = ret (Some (w @ [0])) \<Longrightarrow> 0 \<notin> set w
      \<Longrightarrow> LoadConfigSetting E L config def = ret (dc_offset def \<lparr>st_val = w @ [0], st_len = of_nat (length w)\<rparr> config, L)"
proof -
  let ?L1 = "L\<lparr>L_stack := TString v # TTable t # s\<rparr>"
  have 1: "xbind (lua_pushlstring L (Some (dc_name def)) (dc_len def)) (\<lambda>L. lua_gettable E L (- 2)) = ret (LUA_TSTRING, ?L1)"
    using gettable_name[OF assms(1,2,4), of E] assms(5) by simp
  have 2: "luaL_tolstring E ?L1 (- 1) = ret (Some v, api_incr_top (TString v) ?L1)"
    by (rule tolstring_top) (use assms(3) in simp_all)
  have 3: "lua_pop (api_incr_top (TString v) ?L1) 2 = ret L"
    using assms(1) by (simp add: lua_simps api_incr_top_def)
  have len: "unat (of_nat (length v) :: size_t) = length v" using assms(7) by (intro unat_of_nat_size) simp
  have ok: "malloc_ok (of_nat (length v) + 1)"
    using assms(7) unat_of_nat_size[of "length v + 1"] by (simp add: malloc_ok_def add.commute)
  have 4: "LuaDB_StrDupLen (v @ [0]) (of_nat (length v)) = ret (Some (v @ [0]))" using ok len by (simp add: LuaDB_StrDupLen_def)
  show "LoadConfigSetting E L config def = ret (dc_offset def \<lparr>st_val = v @ [0], st_len = of_nat (length v)\<rparr> config, L)"
    if "dc_fmt def = None"
    using 2 3 4 that assms(6) by (simp add: LoadConfigSetting_def xbind_prefix[OF 1] set_setting_def)
  show "LoadConfigSetting E L config def = ret (dc_offset def \<lparr>st_val = w @ [0], st_len = of_nat (length w)\<rparr> config, L)"
    if "dc_fmt def = Some f" "f config (v @ [0]) (of_nat (length v)) = ret (Some (w @ [0]))" "0 \<notin> set w"
    using 2 3 that assms(6) strlen_C[of w "[]"] by (simp add: LoadConfigSetting_def xbind_prefix[OF 1] set_setting_def)
qed

lemma setting_nil:
  assumes "L_stack L = TTable t # s" "plain_table L t ps" "dc_len def = length (dc_name def)"
    and "lookup ps (TString (dc_name def)) = TNil" "ApplyDefaultConfig config def = ret config'"
  shows "LoadConfigSetting E L config def = ret (config', L\<lparr>L_stack := TNil # TTable t # s\<rparr>)"
proof -
  have 1: "xbind (lua_pushlstring L (Some (dc_name def)) (dc_len def)) (\<lambda>L. lua_gettable E L (- 2))
      = ret (LUA_TNIL, L\<lparr>L_stack := TNil # TTable t # s\<rparr>)"
    using gettable_name[OF assms(1-3), of E] assms(4) by simp
  show ?thesis using assms(5) by (simp add: LoadConfigSetting_def xbind_prefix[OF 1])
qed

lemma setting_after_nil:
  assumes "L_stack L = TNil # s" "G_mt L LUA_TNIL = None" "dc_len def = length (dc_name def)"
  shows "LoadConfigSetting E L config def = lua_throw ''attempt to index a value''"
proof -
  have "luaT_gettmbyobj E (api_incr_top (TString (dc_name def)) L) TNil ''__index'' = ret TNil"
    using assms(2) by (intro no_metatable) simp_all
  from gettable_error[OF _ this] show ?thesis
    using assms(1,3) by (simp add: LoadConfigSetting_def lua_gettable_def lua_simps lua_throw_def)
qed

text \<open>The defaults.\<close>

abbreviation setting :: "bytes \<Rightarrow> LuaDB_Setting" where
  "setting s \<equiv> \<lparr>st_val = s @ [0], st_len = of_nat (length s)\<rparr>"

lemma default_plain:
  assumes "dc_val def = v @ [0]" "0 \<notin> set v" "length v < 2 ^ 62"
  shows "dc_fmt def = None \<Longrightarrow> ApplyDefaultConfig config def = ret (dc_offset def (setting v) config)"
    and "dc_fmt def = Some f \<Longrightarrow> f (dc_offset def (setting v) config) (v @ [0]) (of_nat (length v)) = ret (Some (w @ [0])) \<Longrightarrow> 0 \<notin> set w
      \<Longrightarrow> ApplyDefaultConfig config def = ret (dc_offset def (setting w) (dc_offset def (setting v) config))"
proof -
  have len: "unat (of_nat (length v) :: size_t) = length v" using assms(3) by (intro unat_of_nat_size) simp
  have "malloc_ok (of_nat (length v) + 1)"
    using assms(3) unat_of_nat_size[of "length v + 1"] by (simp add: malloc_ok_def add.commute)
  then have dup: "LuaDB_StrDupLen (v @ [0]) (of_nat (length v)) = ret (Some (v @ [0]))" using len by (simp add: LuaDB_StrDupLen_def)
  show "ApplyDefaultConfig config def = ret (dc_offset def (setting v) config)" if "dc_fmt def = None"
    using that dup strlen_C[OF assms(2), of "[]"] assms(1) by (simp add: ApplyDefaultConfig_def set_setting_def)
  show "ApplyDefaultConfig config def = ret (dc_offset def (setting w) (dc_offset def (setting v) config))"
    if "dc_fmt def = Some f" "f (dc_offset def (setting v) config) (v @ [0]) (of_nat (length v)) = ret (Some (w @ [0]))" "0 \<notin> set w"
    using that dup strlen_C[OF assms(2), of "[]"] strlen_C[of w "[]"] assms(1) by (simp add: ApplyDefaultConfig_def set_setting_def)
qed

lemma FormatRouter_joined:
  assumes "cfg_root config = setting root" "root \<noteq> []" "0 \<notin> set root" "0 \<notin> set v" "length root + length v + 2 < 2 ^ 63"
  shows "FormatRouter config (v @ [0]) (of_nat (length v)) = ret (Some (joined root v @ [0]))" "0 \<notin> set (joined root v)"
  using LuaDB_PathJoinLen_joined[OF assms(2-5), of "[]" "[]"] assms
  by (auto simp: FormatRouter_def joined_def LUADB_PATH_SEPARATOR_def str_def)

subsection \<open>Properties\<close>

lemma default_list: "default_cfg = [default_cfg ! 0, default_cfg ! Suc 0, default_cfg ! 2, default_cfg ! 3]"
  by (simp add: default_cfg_def)

lemma default_entries:
  "dc_name (default_cfg ! 0) = str ''root''" "dc_name (default_cfg ! Suc 0) = str ''router''"
  "dc_name (default_cfg ! 2) = str ''fcgi_query''" "dc_name (default_cfg ! 3) = str ''fcgi_header_prefix''"
  "dc_len (default_cfg ! 0) = length (str ''root'')" "dc_len (default_cfg ! Suc 0) = length (str ''router'')"
  "dc_len (default_cfg ! 2) = length (str ''fcgi_query'')" "dc_len (default_cfg ! 3) = length (str ''fcgi_header_prefix'')"
  "dc_fmt (default_cfg ! 0) = None" "dc_fmt (default_cfg ! Suc 0) = Some FormatRouter"
  "dc_fmt (default_cfg ! 2) = None" "dc_fmt (default_cfg ! 3) = None"
  "dc_val (default_cfg ! 0) = LUADB_WEB_ROOT @ [0]" "dc_val (default_cfg ! Suc 0) = str ''reqhandler.lua'' @ [0]"
  "dc_val (default_cfg ! 2) = str ''QUERY_STRING'' @ [0]" "dc_val (default_cfg ! 3) = str ''HTTP_'' @ [0]"
  "dc_validate (default_cfg ! 0) = None" "dc_validate (default_cfg ! Suc 0) = None"
  "dc_validate (default_cfg ! 2) = None" "dc_validate (default_cfg ! 3) = None"
  "dc_offset (default_cfg ! 0) = (\<lambda>s c. c\<lparr>cfg_root := s\<rparr>)" "dc_offset (default_cfg ! Suc 0) = (\<lambda>s c. c\<lparr>cfg_router := s\<rparr>)"
  "dc_offset (default_cfg ! 2) = (\<lambda>s c. c\<lparr>cfg_fcgi_query := s\<rparr>)" "dc_offset (default_cfg ! 3) = (\<lambda>s c. c\<lparr>cfg_fcgi_header_prefix := s\<rparr>)"
  by (simp_all add: default_cfg_def str_def)

text \<open>The configuration from the four texts.\<close>

definition config_of :: "bytes \<Rightarrow> bytes \<Rightarrow> bytes \<Rightarrow> bytes \<Rightarrow> LuaDB_EnvConfig" where
  "config_of root router query prefix = \<lparr>cfg_root = setting root, cfg_router = setting (joined root router),
     cfg_fcgi_query = setting query, cfg_fcgi_header_prefix = setting prefix\<rparr>"

text \<open>Settings that are short texts.\<close>

definition setting_text :: "bytes \<Rightarrow> bool" where
  "setting_text s \<longleftrightarrow> 0 \<notin> set s \<and> length s < 2 ^ 61"

lemma default_texts:
  "setting_text LUADB_WEB_ROOT" "LUADB_WEB_ROOT \<noteq> []" "setting_text (str ''reqhandler.lua'')" "setting_text (str ''QUERY_STRING'')"
  "setting_text (str ''HTTP_'')"
  by (simp_all add: setting_text_def LUADB_WEB_ROOT_def str_def)

text \<open>One setting, present or not.\<close>

lemma plain_setting:
  assumes "L_stack L = TTable t # s" "plain_table L t ps" "no_tostring E L" "dc_len def = length (dc_name def)"
    and "dc_validate def = None" "dc_fmt def = None" "dc_val def = d @ [0]" "setting_text d"
  shows "lookup ps (TString (dc_name def)) = TString v \<Longrightarrow> setting_text v
      \<Longrightarrow> LoadConfigSetting E L config def = ret (dc_offset def (setting v) config, L)"
    and "lookup ps (TString (dc_name def)) = TNil
      \<Longrightarrow> LoadConfigSetting E L config def = ret (dc_offset def (setting d) config, L\<lparr>L_stack := TNil # TTable t # s\<rparr>)"
  using setting_string(1)[OF assms(1-4) _ assms(5) _ assms(6), of v config] setting_nil[OF assms(1,2,4), of config _ E]
    default_plain(1)[OF assms(7) _ _ assms(6), of config] assms(8)
  by (auto simp: setting_text_def)

lemma router_setting:
  assumes "L_stack L = TTable t # s" "plain_table L t ps" "no_tostring E L"
    and "cfg_root config = setting root" "root \<noteq> []" "setting_text root"
  shows "lookup ps (TString (str ''router'')) = TString v \<Longrightarrow> setting_text v
      \<Longrightarrow> LoadConfigSetting E L config (default_cfg ! Suc 0) = ret (config\<lparr>cfg_router := setting (joined root v)\<rparr>, L)"
    and "lookup ps (TString (str ''router'')) = TNil
      \<Longrightarrow> \<exists>config'. LoadConfigSetting E L config (default_cfg ! Suc 0) = ret (config', L\<lparr>L_stack := TNil # TTable t # s\<rparr>)"
proof -
  have n: "dc_len (default_cfg ! Suc 0) = length (dc_name (default_cfg ! Suc 0))" by (simp add: default_entries)
  show "LoadConfigSetting E L config (default_cfg ! Suc 0) = ret (config\<lparr>cfg_router := setting (joined root v)\<rparr>, L)"
    if v: "lookup ps (TString (str ''router'')) = TString v" "setting_text v"
    using setting_string(2)[OF assms(1-3) n _ default_entries(18) _ default_entries(10), of v config "joined root v"]
      FormatRouter_joined[OF assms(4,5), of v] v assms(6) by (auto simp: default_entries setting_text_def)
  show "\<exists>config'. LoadConfigSetting E L config (default_cfg ! Suc 0) = ret (config', L\<lparr>L_stack := TNil # TTable t # s\<rparr>)"
    if v: "lookup ps (TString (str ''router'')) = TNil"
  proof -
    have "\<exists>config'. ApplyDefaultConfig config (default_cfg ! Suc 0) = ret config'"
      using default_plain(2)[OF default_entries(14) _ _ default_entries(10), of config "joined root (str ''reqhandler.lua'')"]
        FormatRouter_joined[of "config\<lparr>cfg_router := setting (str ''reqhandler.lua'')\<rparr>" root "str ''reqhandler.lua''"]
        assms(4-6) default_texts(3) by (auto simp: default_entries setting_text_def)
    then show ?thesis using setting_nil[OF assms(1,2) n] v by (auto simp: default_entries)
  qed
qed

lemma load_steps:
  assumes "L_stack L = TTable t # s" "plain_table L t ps" "no_tostring E L"
  shows "lookup ps (TString (str ''root'')) = TString v \<Longrightarrow> setting_text v
      \<Longrightarrow> LoadConfigSetting E L config (default_cfg ! 0) = ret (config\<lparr>cfg_root := setting v\<rparr>, L)"
    and "lookup ps (TString (str ''root'')) = TNil
      \<Longrightarrow> LoadConfigSetting E L config (default_cfg ! 0) = ret (config\<lparr>cfg_root := setting LUADB_WEB_ROOT\<rparr>, L\<lparr>L_stack := TNil # TTable t # s\<rparr>)"
    and "lookup ps (TString (str ''fcgi_query'')) = TString v \<Longrightarrow> setting_text v
      \<Longrightarrow> LoadConfigSetting E L config (default_cfg ! 2) = ret (config\<lparr>cfg_fcgi_query := setting v\<rparr>, L)"
    and "lookup ps (TString (str ''fcgi_query'')) = TNil
      \<Longrightarrow> LoadConfigSetting E L config (default_cfg ! 2) = ret (config\<lparr>cfg_fcgi_query := setting (str ''QUERY_STRING'')\<rparr>, L\<lparr>L_stack := TNil # TTable t # s\<rparr>)"
    and "lookup ps (TString (str ''fcgi_header_prefix'')) = TString v \<Longrightarrow> setting_text v
      \<Longrightarrow> LoadConfigSetting E L config (default_cfg ! 3) = ret (config\<lparr>cfg_fcgi_header_prefix := setting v\<rparr>, L)"
    and "lookup ps (TString (str ''fcgi_header_prefix'')) = TNil
      \<Longrightarrow> LoadConfigSetting E L config (default_cfg ! 3) = ret (config\<lparr>cfg_fcgi_header_prefix := setting (str ''HTTP_'')\<rparr>, L\<lparr>L_stack := TNil # TTable t # s\<rparr>)"
  using plain_setting(1)[OF assms, of "default_cfg ! 0" LUADB_WEB_ROOT v config] default_texts(1) apply (simp add: default_entries)
  using plain_setting(2)[OF assms, of "default_cfg ! 0" LUADB_WEB_ROOT config] default_texts(1) apply (simp add: default_entries)
  using plain_setting(1)[OF assms, of "default_cfg ! 2" "str ''QUERY_STRING''" v config] default_texts(4) apply (simp add: default_entries)
  using plain_setting(2)[OF assms, of "default_cfg ! 2" "str ''QUERY_STRING''" config] default_texts(4) apply (simp add: default_entries)
  using plain_setting(1)[OF assms, of "default_cfg ! 3" "str ''HTTP_''" v config] default_texts(5) apply (simp add: default_entries)
  using plain_setting(2)[OF assms, of "default_cfg ! 3" "str ''HTTP_''" config] default_texts(5) apply (simp add: default_entries)
  done

lemma ret_pair: "(\<lambda>(a, b). ret (a, b)) = ret"
  by (simp add: fun_eq_iff)

lemma load_unfold:
  "LoadConfigFromLua E L config =
     xbind (LoadConfigSetting E L config (default_cfg ! 0)) (\<lambda>(config, L).
     xbind (LoadConfigSetting E L config (default_cfg ! Suc 0)) (\<lambda>(config, L).
     xbind (LoadConfigSetting E L config (default_cfg ! 2)) (\<lambda>(config, L).
     LoadConfigSetting E L config (default_cfg ! 3))))"
  unfolding LoadConfigFromLua_def by (subst default_list) (simp add: ret_pair)

text \<open>C5: a configuration file that gives the first three settings as strings is read as it says: the
  root, the script of the router below the root, the variable of the query, and the prefix of the
  headers, for which \<open>HTTP_\<close> is the default.\<close>

theorem LoadConfigFromLua_reads:
  assumes "L_stack L = TTable t # s" "plain_table L t ps" "no_tostring E L"
    and "lookup ps (TString (str ''root'')) = TString root" "root \<noteq> []"
      "lookup ps (TString (str ''router'')) = TString router" "lookup ps (TString (str ''fcgi_query'')) = TString query"
      "lookup ps (TString (str ''fcgi_header_prefix'')) = (case prefix of None \<Rightarrow> TNil | Some p \<Rightarrow> TString p)"
    and "\<forall>v \<in> {root, router, query} \<union> set_option prefix. setting_text v"
  shows "LoadConfigFromLua E L config = ret (config_of root router query (case prefix of None \<Rightarrow> str ''HTTP_'' | Some p \<Rightarrow> p),
     if prefix = None then L\<lparr>L_stack := TNil # L_stack L\<rparr> else L)"
proof -
  note st = load_steps[OF assms(1-3)]
  let ?c = "config\<lparr>cfg_root := setting root\<rparr>"
  have "LoadConfigSetting E L ?c (default_cfg ! Suc 0) = ret (?c\<lparr>cfg_router := setting (joined root router)\<rparr>, L)"
    using router_setting(1)[OF assms(1-3) _ assms(5), of ?c router] assms(6,9) by simp
  then show ?thesis
    using st(1)[OF assms(4)] st(3)[OF assms(7)] st(5,6) assms(1,8,9) by (cases prefix) (simp_all add: load_unfold config_of_def)
qed

definition example_conf :: "(unit tvalue \<times> unit tvalue) list" where
  "example_conf = [(TString (str ''root''), TString (str ''/srv'')), (TString (str ''router''), TString (str ''app.lua'')),
     (TString (str ''fcgi_query''), TString (str ''Q''))]"

abbreviation example_conf_state :: "(unit tvalue \<times> unit tvalue) list \<Rightarrow> unit lua_State" where
  "example_conf_state ps \<equiv> example_state\<lparr>G_heap := Map.empty(0 \<mapsto> \<lparr>t_node = ps, t_metatable = None\<rparr>)\<rparr>"

theorem LoadConfigFromLua_reads_witness:
  "LoadConfigFromLua example_env (example_conf_state example_conf) (config_of [] [] [] [])
     = ret (config_of (str ''/srv'') (str ''app.lua'') (str ''Q'') (case None of None \<Rightarrow> str ''HTTP_'' | Some p \<Rightarrow> p),
        if None = (None :: bytes option) then (example_conf_state example_conf)\<lparr>L_stack := TNil # L_stack (example_conf_state example_conf)\<rparr>
        else example_conf_state example_conf)"
  by (rule LoadConfigFromLua_reads[where ps = example_conf])
    (simp_all add: example_state_def plain_table_def no_tostring_def example_conf_def lookup_def str_def setting_text_def)

text \<open>C39: a configuration file without a value for one of the first three settings does not get the
  default: the nil that was looked up stays on the stack, and the next look-up indexes it, which
  raises an error outside of any protected call.\<close>

theorem LoadConfigFromLua_missing:
  assumes "L_stack L = TTable t # s" "plain_table L t ps" "no_tostring E L" "G_mt L LUA_TNIL = None"
    and "\<forall>n \<in> {str ''root'', str ''router'', str ''fcgi_query''}. lookup ps (TString n) = TNil
       \<or> (\<exists>v. lookup ps (TString n) = TString v \<and> setting_text v \<and> v \<noteq> [])"
    and "\<exists>n \<in> {str ''root'', str ''router'', str ''fcgi_query''}. lookup ps (TString n) = TNil"
  shows "LoadConfigFromLua E L config = lua_throw ''attempt to index a value''"
proof -
  note st = load_steps[OF assms(1-3)]
  let ?N = "L\<lparr>L_stack := TNil # TTable t # s\<rparr>"
  have err: "LoadConfigSetting E ?N c (default_cfg ! i) = lua_throw ''attempt to index a value''" if "i \<in> {Suc 0, 2, 3}" for c i
    by (rule setting_after_nil) (use that assms(4) in \<open>auto simp: default_entries\<close>)
  consider "lookup ps (TString (str ''root'')) = TNil"
    | v where "lookup ps (TString (str ''root'')) = TString v" "setting_text v" "v \<noteq> []" using assms(5) by auto
  then show ?thesis
  proof cases
    case 1 then show ?thesis using st(2) err by (simp add: load_unfold lua_throw_def)
  next
    case (2 root)
    let ?c = "config\<lparr>cfg_root := setting root\<rparr>"
    have r: "LoadConfigSetting E L config (default_cfg ! 0) = ret (?c, L)" using st(1) 2 by simp
    consider "lookup ps (TString (str ''router'')) = TNil"
      | v where "lookup ps (TString (str ''router'')) = TString v" "setting_text v" using assms(5) by auto
    then show ?thesis
    proof cases
      case 1
      then obtain c' where "LoadConfigSetting E L ?c (default_cfg ! Suc 0) = ret (c', ?N)"
        using router_setting(2)[OF assms(1-3) _ 2(3,2), of ?c] by auto
      then show ?thesis using r err by (simp add: load_unfold lua_throw_def)
    next
      case (2 v)
      then have "LoadConfigSetting E L ?c (default_cfg ! Suc 0) = ret (?c\<lparr>cfg_router := setting (joined root v)\<rparr>, L)"
        using router_setting(1)[OF assms(1-3), of ?c root v] \<open>setting_text root\<close> \<open>root \<noteq> []\<close> by simp
      moreover have "lookup ps (TString (str ''fcgi_query'')) = TNil"
        using assms(6) 2(1) \<open>lookup ps (TString (str ''root'')) = TString root\<close> by auto
      ultimately show ?thesis using r err st(4) by (simp add: load_unfold lua_throw_def)
    qed
  qed
qed

theorem LoadConfigFromLua_missing_witness:
  "LoadConfigFromLua example_env (example_conf_state [(TString (str ''root''), TString (str ''/srv''))])
     (config_of [] [] [] []) = lua_throw ''attempt to index a value''"
  by (rule LoadConfigFromLua_missing[where ps = "[(TString (str ''root''), TString (str ''/srv''))]"])
    (auto simp: example_state_def plain_table_def no_tostring_def lookup_def str_def setting_text_def)

end
