(* ===== verification/LuaDbMain.thy ===== *)
theory LuaDbMain
  imports LuaDbConfig
begin

text \<open>
  The program, \<open>src/src/main.c\<close> and the start of a worker in \<open>src/src/fcgi.c\<close>, of a build that is not
  for Windows.

  The options are the list of what \<open>getopt\<close> returns, each with \<open>optarg\<close>; the file name is
  \<open>argv[optind]\<close>. What the program is given by its surroundings is a record: the outcome of each
  \<open>malloc\<close>, the byte \<open>malloc\<close> leaves at the end of a path that is not zeroed, the state with the
  standard libraries, what running a file or a line of Lua does to a state, the outcome of \<open>fork\<close> and of the
  FastCGI library's calls, the requests it accepts, and the lines the user types. Printing is left
  out, except that a NULL is not a string \<open>%s\<close> can print. A \<open>char *\<close> is the list of the bytes from it to the
  end of its object.
\<close>

datatype fork_result = Fork_Failed | Fork_Child | Fork_Parent

record 'd surroundings =
  sys_malloc :: "size_t \<Rightarrow> bool"
  sys_realloc :: "size_t \<Rightarrow> bool"
  sys_stale :: "nat \<Rightarrow> byte"
  sys_newstate :: "'d lua_State option"
  sys_dofile :: "bytes \<Rightarrow> 'd lua_State \<Rightarrow> (bool \<times> 'd lua_State) exec"
  sys_dostring :: "bytes \<Rightarrow> 'd lua_State \<Rightarrow> (bool \<times> 'd lua_State) exec"
  sys_fork :: fork_result
  sys_FCGX_Init :: int
  sys_FCGX_OpenSocket :: "bytes \<Rightarrow> int"
  sys_FCGX_InitRequest :: "int \<Rightarrow> int"
  sys_requests :: "FCGX_Request list"
  sys_lines :: "bytes list"

definition EXIT_SUCCESS :: int where "EXIT_SUCCESS = 0"
definition EXIT_FAILURE :: int where "EXIT_FAILURE = 1"

subsection \<open>A FastCGI worker\<close>

definition InitFcgxRequest :: "'d surroundings \<Rightarrow> bytes \<Rightarrow> bool" where
  "InitFcgxRequest S device =
     (if sys_FCGX_Init S \<noteq> 0 then False
      else
        let sock = sys_FCGX_OpenSocket S device
        in if sock = - 1 then False else if sys_FCGX_InitRequest S sock \<noteq> 0 then False else True)"

text \<open>The first two calls of \<open>ProcessFcgxRequest\<close>.\<close>

definition request_state :: "'d lua_env \<Rightarrow> 'd surroundings \<Rightarrow> bytes list \<Rightarrow> LuaDB_EnvConfig \<Rightarrow> ('d lua_State option) exec" where
  "request_state E S paths config =
     xbind (LuaDB_NewStateWithPaths E (sys_newstate S) (Some paths)) (\<lambda>r.
     case r of
       None \<Rightarrow> ret None
     | Some L \<Rightarrow> xbind (LuaDB_PathAddAbsolute E L (st_val (cfg_root config))) (\<lambda>L. ret (Some L)))"

text \<open>The configuration starts as the uninitialised variable it is. The result has the requests as
  they were processed.\<close>

definition LuaDB_FcgiStartWorkerWithPaths ::
  "'d lua_env \<Rightarrow> 'd surroundings \<Rightarrow> LuaDB_EnvConfig \<Rightarrow> bytes \<Rightarrow> bytes list \<Rightarrow> (int \<times> FCGX_Request list) exec" where
  "LuaDB_FcgiStartWorkerWithPaths E S config device paths =
     xbind (LuaDB_ReadEnvironmentConfig E (sys_newstate S) (sys_dofile S) config) (\<lambda>(ok, config).
     if \<not> ok then ret (EXIT_FAILURE, [])
     else if \<not> InitFcgxRequest S device then ret (EXIT_FAILURE, [])
     else
       xbind (worker_loop
           (\<lambda>req. ProcessFcgxRequest E (request_state E S paths config) (sys_dofile S (st_val (cfg_router config))) req config)
           (sys_requests S)) (\<lambda>(ok, reqs).
       ret (if ok then EXIT_SUCCESS else EXIT_FAILURE, reqs)))"

definition StartFcgiWorker ::
  "'d lua_env \<Rightarrow> 'd surroundings \<Rightarrow> LuaDB_EnvConfig \<Rightarrow> bytes \<Rightarrow> bool \<Rightarrow> bytes list \<Rightarrow> (int \<times> FCGX_Request list) exec" where
  "StartFcgiWorker E S config fcgi_dev should_fork paths =
     (if \<not> should_fork then LuaDB_FcgiStartWorkerWithPaths E S config fcgi_dev paths
      else
        case sys_fork S of
          Fork_Failed \<Rightarrow> ret (EXIT_FAILURE, [])
        | Fork_Child \<Rightarrow> LuaDB_FcgiStartWorkerWithPaths E S config fcgi_dev paths
        | Fork_Parent \<Rightarrow> ret (EXIT_SUCCESS, []))"

subsection \<open>Scripts\<close>

text \<open>The message of an error: \<open>lua_tostring\<close> is printed with \<open>%s\<close>, then popped.\<close>

definition report_error :: "'d lua_env \<Rightarrow> 'd lua_State \<Rightarrow> 'd lua_State exec" where
  "report_error E L =
     xbind (lua_tolstring E L (- 1)) (\<lambda>(msg, L). case msg of None \<Rightarrow> throw Null_Deref | Some _ \<Rightarrow> lua_pop L 1)"

text \<open>The loop over the lines; at their end \<open>linenoise\<close> returns NULL. \<open>lua_close\<close> of no state
  dereferences it.\<close>

fun repl_loop :: "'d lua_env \<Rightarrow> 'd surroundings \<Rightarrow> bytes list \<Rightarrow> 'd lua_State \<Rightarrow> 'd lua_State exec" where
  "repl_loop E S [] L = ret L"
| "repl_loop E S (buf # bufs) L =
     xbind (sys_dostring S buf L) (\<lambda>(err, L).
     xbind (if err then report_error E L else ret L) (\<lambda>L. repl_loop E S bufs L))"

definition StartLuaRepl :: "'d lua_env \<Rightarrow> 'd surroundings \<Rightarrow> bytes list \<Rightarrow> int exec" where
  "StartLuaRepl E S paths =
     xbind (LuaDB_NewStateWithPaths E (sys_newstate S) (Some paths)) (\<lambda>r.
     case r of
       None \<Rightarrow> throw Null_Deref
     | Some L \<Rightarrow> xbind (repl_loop E S (sys_lines S) L) (\<lambda>L. ret EXIT_SUCCESS))"

definition RunLuaScript :: "'d lua_env \<Rightarrow> 'd surroundings \<Rightarrow> bytes \<Rightarrow> bytes list \<Rightarrow> int exec" where
  "RunLuaScript E S fname paths =
     xbind (LuaDB_NewStateWithPaths E (sys_newstate S) (Some paths)) (\<lambda>r.
     case r of
       None \<Rightarrow> ret EXIT_FAILURE
     | Some L \<Rightarrow>
         xbind (LuaDB_PathAddRelative E L fname) (\<lambda>L.
         xbind (sys_dofile S fname L) (\<lambda>(err, L).
         if err then xbind (report_error E L) (\<lambda>L. ret EXIT_FAILURE) else ret EXIT_SUCCESS)))"

subsection \<open>The command line\<close>

text \<open>The variables of the parser: \<open>cs_size\<close> is the number of bytes of the block \<open>paths\<close> points to,
  \<open>cs_paths\<close> the strings its first \<open>npaths\<close> pointers point to.\<close>

record cli =
  cs_is_fcgi :: bool
  cs_should_fork :: bool
  cs_fcgi_dev :: bytes
  cs_size :: size_t
  cs_paths :: "bytes list"
  cs_maxpaths :: size_t

definition cs_npaths :: "cli \<Rightarrow> size_t" where
  "cs_npaths cs = of_nat (length (cs_paths cs))"

text \<open>\<open>-i\<close>: the block is enlarged when it is full, and the path is copied with \<open>strncpy\<close>, which adds
  no NUL.\<close>

definition add_path :: "'d surroundings \<Rightarrow> cli \<Rightarrow> bytes \<Rightarrow> cli exec" where
  "add_path S cs optarg =
     (let cs = (if cs_npaths cs \<ge> cs_maxpaths cs then
                  if sys_realloc S (cs_npaths cs * 2)
                  then cs\<lparr>cs_size := cs_npaths cs * 2, cs_maxpaths := cs_maxpaths cs * 2\<rparr>
                  else cs
                else cs)
      in xbind (strlen optarg) (\<lambda>pathlen.
         if 8 * (unat (cs_npaths cs) + 1) > unat (cs_size cs) then throw Out_Of_Bounds
         else if sys_malloc S (pathlen + 1)
         then ret (cs\<lparr>cs_paths := cs_paths cs @ [take (unat pathlen) optarg @ [sys_stale S (length (cs_paths cs))]]\<rparr>)
         else ret cs))"

text \<open>The loop over the options: the exit code at once, or the variables after it.\<close>

fun options_loop :: "'d surroundings \<Rightarrow> (char \<times> bytes option) list \<Rightarrow> cli \<Rightarrow> (int + cli) exec" where
  "options_loop S [] cs = ret (Inr cs)"
| "options_loop S ((c, optarg) # opts) cs =
     (if c = CHR ''h'' then ret (Inl EXIT_SUCCESS)
      else if c = CHR ''p'' then
        options_loop S opts (cs\<lparr>cs_fcgi_dev := (case optarg of Some s \<Rightarrow> s | None \<Rightarrow> str '':8000'' @ [0]), cs_is_fcgi := True\<rparr>)
      else if c = CHR ''f'' then options_loop S opts (cs\<lparr>cs_should_fork := False\<rparr>)
      else if c = CHR ''i'' then
        (case optarg of
           None \<Rightarrow> options_loop S opts cs
         | Some s \<Rightarrow> xbind (add_path S cs s) (\<lambda>cs. options_loop S opts cs))
      else ret (Inl EXIT_FAILURE))"

definition ParseCommandLineArguments ::
  "'d lua_env \<Rightarrow> 'd surroundings \<Rightarrow> LuaDB_EnvConfig \<Rightarrow> (char \<times> bytes option) list \<Rightarrow> bytes option
     \<Rightarrow> (int \<times> FCGX_Request list) exec" where
  "ParseCommandLineArguments E S config opts fname =
     (if \<not> sys_malloc S (8 * 5) then ret (EXIT_FAILURE, [])
      else
        xbind (options_loop S opts
            \<lparr>cs_is_fcgi = False, cs_should_fork = True, cs_fcgi_dev = [], cs_size = 8 * 5, cs_paths = [], cs_maxpaths = 5\<rparr>) (\<lambda>r.
        case r of
          Inl exit_code \<Rightarrow> ret (exit_code, [])
        | Inr cs \<Rightarrow>
            if cs_is_fcgi cs then StartFcgiWorker E S config (cs_fcgi_dev cs) (cs_should_fork cs) (cs_paths cs)
            else
              case fname of
                None \<Rightarrow> xbind (StartLuaRepl E S (cs_paths cs)) (\<lambda>code. ret (code, []))
              | Some fname \<Rightarrow> xbind (RunLuaScript E S fname (cs_paths cs)) (\<lambda>code. ret (code, []))))"

subsection \<open>Facts\<close>

text \<open>Options that do not end the program, and the paths they give.\<close>

definition option_ok :: "char \<times> bytes option \<Rightarrow> bool" where
  "option_ok o' \<longleftrightarrow> fst o' \<in> {CHR ''f'', CHR ''p''}
     \<or> fst o' = CHR ''i'' \<and> (\<exists>p r. snd o' = Some (p @ 0 # r) \<and> 0 \<notin> set p \<and> p \<noteq> [] \<and> length p < 2 ^ 60)"

fun given_paths :: "(char \<times> bytes option) list \<Rightarrow> bytes list" where
  "given_paths [] = []"
| "given_paths ((c, a) # opts) =
     (case a of Some s \<Rightarrow> if c = CHR ''i'' then takeWhile (\<lambda>b. b \<noteq> 0) s # given_paths opts else given_paths opts
      | None \<Rightarrow> given_paths opts)"

lemma takeWhile_C: "0 \<notin> set p \<Longrightarrow> takeWhile (\<lambda>b. b \<noteq> 0) (p @ 0 # r) = (p :: bytes)"
  by (induction p) auto

lemma given_paths_ok: "\<forall>o' \<in> set opts. option_ok o' \<Longrightarrow> p \<in> set (given_paths opts) \<Longrightarrow> p \<noteq> [] \<and> 0 \<notin> set p \<and> length p < 2 ^ 60"
  by (induction opts rule: given_paths.induct) (auto simp: option_ok_def takeWhile_C split: option.splits if_splits)

text \<open>The paths as they are stored.\<close>

definition stored :: "'d surroundings \<Rightarrow> nat \<Rightarrow> bytes list \<Rightarrow> bytes list" where
  "stored S n ps = map (\<lambda>i. ps ! i @ [sys_stale S (n + i)]) [0 ..< length ps]"

lemma stored_simps: "stored S n [] = []" "stored S n (p # ps) = (p @ [sys_stale S n]) # stored S (Suc n) ps"
  by (simp_all add: stored_def upt_conv_Cons map_Suc_upt [symmetric] del: upt_Suc)

text \<open>The parser before a path: the block of five pointers, as \<open>malloc\<close> made it.\<close>

definition fresh_block :: "cli \<Rightarrow> bool" where
  "fresh_block cs \<longleftrightarrow> cs_size cs = 8 * 5 \<and> cs_maxpaths cs = 5 \<and> length (cs_paths cs) \<le> 5"

lemma add_path_result:
  assumes "fresh_block cs" "0 \<notin> set p" "length p < 2 ^ 60" "\<forall>n. sys_malloc S n"
  shows "add_path S cs (p @ 0 # r) =
    (if length (cs_paths cs) < 5 then ret (cs\<lparr>cs_paths := cs_paths cs @ [p @ [sys_stale S (length (cs_paths cs))]]\<rparr>) else throw Out_Of_Bounds)"
proof -
  have n: "unat (cs_npaths cs) = length (cs_paths cs)"
    using assms(1) unfolding cs_npaths_def fresh_block_def by (intro unat_of_nat_size) simp
  have p: "unat (of_nat (length p) :: size_t) = length p" using assms(3) by (intro unat_of_nat_size) simp
  have ge: "cs_npaths cs \<ge> 5 \<longleftrightarrow> length (cs_paths cs) \<ge> 5" by (simp add: word_le_nat_alt n)
  show ?thesis
  proof (cases "length (cs_paths cs) < 5")
    case True
    then show ?thesis using assms n p ge strlen_C[OF assms(2), of r] by (simp add: add_path_def fresh_block_def)
  next
    case False
    then have five: "cs_npaths cs = 5" using assms(1) by (simp add: cs_npaths_def fresh_block_def)
    then show ?thesis using assms(1) False strlen_C[OF assms(2), of r] 
      by (simp add: add_path_def fresh_block_def cs_npaths_def)
  qed
qed

lemma options_loop_result:
  assumes "\<forall>o' \<in> set opts. option_ok o'" "\<forall>n. sys_malloc S n" "fresh_block cs"
  shows "length (cs_paths cs) + length (given_paths opts) \<le> 5
      \<Longrightarrow> \<exists>cs'. options_loop S opts cs = ret (Inr cs') \<and> cs_paths cs' = cs_paths cs @ stored S (length (cs_paths cs)) (given_paths opts)
         \<and> cs_is_fcgi cs' = (cs_is_fcgi cs \<or> CHR ''p'' \<in> fst ` set opts)
         \<and> cs_should_fork cs' = (cs_should_fork cs \<and> CHR ''f'' \<notin> fst ` set opts)"
    and "length (cs_paths cs) + length (given_paths opts) > 5 \<Longrightarrow> options_loop S opts cs = throw Out_Of_Bounds"
  using assms
proof (induction opts arbitrary: cs)
  case Nil
  { case 1 then show ?case by (simp add: stored_simps) }
  { case 2 then show ?case by (simp add: fresh_block_def) }
next
  case (Cons o' opts)
  obtain c a where o': "o' = (c, a)" by (cases o')
  { case 1
    then consider "c = CHR ''f''" | "c = CHR ''p''"
      | p r where "c = CHR ''i''" "a = Some (p @ 0 # r)" "0 \<notin> set p" "length p < 2 ^ 60" by (auto simp: o' option_ok_def)
    then show ?case
    proof cases
      case one: 1
      show ?thesis using Cons.IH(1)[of "cs\<lparr>cs_should_fork := False\<rparr>"] 1 one by (auto simp: o' fresh_block_def split: option.splits)
    next
      case 2
      let ?dev = "case a of Some s \<Rightarrow> s | None \<Rightarrow> str '':8000'' @ [0]"
      show ?thesis using Cons.IH(1)[of "cs\<lparr>cs_fcgi_dev := ?dev, cs_is_fcgi := True\<rparr>"] 1 2
        by (auto simp: o' fresh_block_def split: option.splits)
    next
      case (3 p r)
      let ?cs = "cs\<lparr>cs_paths := cs_paths cs @ [p @ [sys_stale S (length (cs_paths cs))]]\<rparr>"
      have "add_path S cs (p @ 0 # r) = ret ?cs" using add_path_result[of cs p S r] 1 3 by (simp add: o' takeWhile_C)
      then show ?thesis using Cons.IH(1)[of ?cs] 1 3 by (auto simp: o' fresh_block_def takeWhile_C stored_simps)
    qed
  }
  { case 2
    then consider "c = CHR ''f''" | "c = CHR ''p''"
      | p r where "c = CHR ''i''" "a = Some (p @ 0 # r)" "0 \<notin> set p" "length p < 2 ^ 60" by (auto simp: o' option_ok_def)
    then show ?case
    proof cases
      case 1
      show ?thesis using Cons.IH(2)[of "cs\<lparr>cs_should_fork := False\<rparr>"] 1 2 by (auto simp: o' fresh_block_def split: option.splits)
    next
      case two: 2
      let ?dev = "case a of Some s \<Rightarrow> s | None \<Rightarrow> str '':8000'' @ [0]"
      show ?thesis using Cons.IH(2)[of "cs\<lparr>cs_fcgi_dev := ?dev, cs_is_fcgi := True\<rparr>"] 2 two
        by (auto simp: o' fresh_block_def split: option.splits)
    next
      case (3 p r)
      let ?cs = "cs\<lparr>cs_paths := cs_paths cs @ [p @ [sys_stale S (length (cs_paths cs))]]\<rparr>"
      have "add_path S cs (p @ 0 # r) = (if length (cs_paths cs) < 5 then ret ?cs else throw Out_Of_Bounds)"
        using add_path_result[of cs p S r] 2 3 by simp
      then show ?thesis using Cons.IH(2)[of ?cs] 2 3 by (auto simp: o' fresh_block_def takeWhile_C)
    qed
  }
qed

subsection \<open>A path without a NUL\<close>

lemma strlen_unterminated: "0 \<notin> set s \<Longrightarrow> strlen s = throw Out_Of_Bounds"
  by (induction s) auto

lemma UpdateLuaPackagePath_unterminated:
  assumes "has_path L cur" "0 \<notin> set p"
  shows "UpdateLuaPackagePath E L p trunc = throw Out_Of_Bounds"
proof -
  obtain gs t ps where g: "plain_table L (G_globals L) gs" "lookup gs (TString (str ''package'')) = TTable t"
      "plain_table L t ps" "lookup ps (TString (str ''path'')) = TString cur"
    using assms(1) unfolding has_path_def by blast
  let ?L1 = "api_incr_top (TTable t) L" and ?L2 = "api_incr_top (TString cur) (api_incr_top (TTable t) L)"
  have 1: "lua_getglobal E L (str ''package'') = ret (LUA_TTABLE, ?L1)" using getglobal_plain[OF g(1), of E] g(2) by simp
  have 2: "lua_getfield E ?L1 (- 1) (str ''path'') = ret (LUA_TSTRING, ?L2)"
    using getfield_plain[of ?L1 t ps "- 1" E "str ''path''"] g(3,4) by (simp add: lua_simps)
  have 3: "lua_tolstring E ?L2 (- 1) = ret (Some cur, ?L2)" by (simp add: lua_tolstring_def lua_simps)
  show ?thesis by (simp add: UpdateLuaPackagePath_def 1 2 3 AppendLuaDbPath_def strlen_unterminated[OF assms(2)])
qed

subsection \<open>Properties\<close>

text \<open>The state the libraries have not registered anything in.\<close>

definition new_lua_state :: "'d lua_State \<Rightarrow> bytes \<Rightarrow> bool" where
  "new_lua_state L cur \<longleftrightarrow> base_state L cur \<and> 0 \<notin> set cur \<and> (\<exists>rs. registry_is L rs
     \<and> lookup rs (TString LMDB_ENV_REGISTRY_NAME) = TNil \<and> lookup rs (TString LMDB_TX_REGISTRY_NAME) = TNil
     \<and> lookup rs (TString LMDB_CURSOR_REGISTRY_NAME) = TNil)"

lemma stored_terminated: "\<forall>n. sys_stale S n = 0 \<Longrightarrow> stored S n ps = map (\<lambda>p. p @ [0]) ps"
  by (induction ps arbitrary: n) (simp_all add: stored_simps)

lemma parse_first:
  assumes "\<forall>o' \<in> set opts. option_ok o'" "\<forall>n. sys_malloc S n"
  shows "length (given_paths opts) > 5 \<Longrightarrow> ParseCommandLineArguments E S config opts fname = throw Out_Of_Bounds"
    and "length (given_paths opts) \<le> 5 \<Longrightarrow> CHR ''p'' \<notin> fst ` set opts
      \<Longrightarrow> ParseCommandLineArguments E S config opts fname =
        (case fname of None \<Rightarrow> xbind (StartLuaRepl E S (stored S 0 (given_paths opts))) (\<lambda>code. ret (code, []))
         | Some f \<Rightarrow> xbind (RunLuaScript E S f (stored S 0 (given_paths opts))) (\<lambda>code. ret (code, [])))"
proof -
  let ?cs = "\<lparr>cs_is_fcgi = False, cs_should_fork = True, cs_fcgi_dev = [], cs_size = 8 * 5, cs_paths = [], cs_maxpaths = 5\<rparr>"
  have b: "fresh_block ?cs" by (simp add: fresh_block_def)
  note r = options_loop_result[OF assms b]
  show "ParseCommandLineArguments E S config opts fname = throw Out_Of_Bounds" if "length (given_paths opts) > 5"
    using r(2) that assms(2) by (simp add: ParseCommandLineArguments_def)
  show "ParseCommandLineArguments E S config opts fname =
        (case fname of None \<Rightarrow> xbind (StartLuaRepl E S (stored S 0 (given_paths opts))) (\<lambda>code. ret (code, []))
         | Some f \<Rightarrow> xbind (RunLuaScript E S f (stored S 0 (given_paths opts))) (\<lambda>code. ret (code, [])))"
    if p: "length (given_paths opts) \<le> 5" "CHR ''p'' \<notin> fst ` set opts"
  proof -
    obtain cs' where cs': "options_loop S opts ?cs = ret (Inr cs')" "cs_paths cs' = stored S 0 (given_paths opts)" "\<not> cs_is_fcgi cs'"
      using r(1) p by auto
    show ?thesis using cs' assms(2) unfolding ParseCommandLineArguments_def by (cases fname) simp_all
  qed
qed


text \<open>C40: a sixth path on the command line is written outside of the block of pointers: \<open>realloc\<close> is
  given a number of bytes twice the number of pointers, which makes the block smaller.\<close>

theorem ParseCommandLineArguments_sixth_path:
  assumes "\<forall>o' \<in> set opts. option_ok o'" "\<forall>n. sys_malloc S n" "length (given_paths opts) > 5"
  shows "ParseCommandLineArguments E S config opts fname = throw Out_Of_Bounds"
  using assms by (rule parse_first(1))

text \<open>A path given with \<open>-i\<close> whose memory was not zero before has no NUL, and reading it goes past the
  end of its block.\<close>

theorem ParseCommandLineArguments_unterminated:
  assumes "\<forall>o' \<in> set opts. option_ok o'" "CHR ''p'' \<notin> fst ` set opts" "length (given_paths opts) \<le> 5" "given_paths opts \<noteq> []"
    and "\<forall>n. sys_malloc S n" "\<forall>n. sys_stale S n \<noteq> 0" "sys_newstate S = Some L" "new_lua_state L cur"
  shows "ParseCommandLineArguments E S config opts fname = throw Out_Of_Bounds"
proof -
  obtain p ps where p: "given_paths opts = p # ps" using assms(4) by (auto simp: neq_Nil_conv)
  let ?p = "p @ [sys_stale S 0]"
  have nul: "0 \<notin> set ?p" using given_paths_ok[OF assms(1), of p] p assms(6) by auto
  obtain rs where rs: "base_state L cur" "registry_is L rs" "lookup rs (TString LMDB_ENV_REGISTRY_NAME) = TNil"
      "lookup rs (TString LMDB_TX_REGISTRY_NAME) = TNil" "lookup rs (TString LMDB_CURSOR_REGISTRY_NAME) = TNil"
    using assms(8) unfolding new_lua_state_def by blast
  from NewState_libs[OF this, of E] obtain L1 where "has_path L1 cur"
      "\<forall>ps. LuaDB_NewStateWithPaths E (Some L) (Some ps) = xbind (add_paths E ps L1) (\<lambda>L. ret (Some L))" by blast
  then have "LuaDB_NewStateWithPaths E (Some L) (Some (stored S 0 (given_paths opts))) = throw Out_Of_Bounds"
    using UpdateLuaPackagePath_unterminated[OF _ nul, of L1 cur E False] by (simp add: p stored_simps LuaDB_PathAddAbsolute_def)
  then show ?thesis
    using parse_first(2)[OF assms(1,5,3,2), of E config fname] assms(7)
    by (cases fname) (simp_all add: RunLuaScript_def StartLuaRepl_def)
qed

definition example_sys :: "byte \<Rightarrow> unit surroundings" where
  "example_sys b = \<lparr>sys_malloc = (\<lambda>n. True), sys_realloc = (\<lambda>n. True), sys_stale = (\<lambda>n. b), sys_newstate = Some example_base,
     sys_dofile = (\<lambda>f L. ret (False, L)), sys_dostring = (\<lambda>f L. ret (False, L)), sys_fork = Fork_Parent, sys_FCGX_Init = 0,
     sys_FCGX_OpenSocket = (\<lambda>d. 3), sys_FCGX_InitRequest = (\<lambda>s. 0), sys_requests = [], sys_lines = []\<rparr>"

lemma example_new_state: "new_lua_state example_base (str ''./?.lua'')"
  using example_base_ok unfolding new_lua_state_def by (auto simp: lookup_def str_def intro!: exI[of _ "[]"])

text \<open>\<open>luadb -f -i /srv/lib -i /opt app/main.lua\<close>.\<close>

definition example_opts :: "(char \<times> bytes option) list" where
  "example_opts = [(CHR ''f'', None), (CHR ''i'', Some (str ''/srv/lib'' @ 0 # [])), (CHR ''i'', Some (str ''/opt'' @ 0 # []))]"

lemma example_opts_ok: "\<forall>o' \<in> set example_opts. option_ok o'" "given_paths example_opts = [str ''/srv/lib'', str ''/opt'']"
  "CHR ''p'' \<notin> fst ` set example_opts"
proof -
  have i: "option_ok (CHR ''i'', Some (p @ 0 # r))" if "0 \<notin> set p" "p \<noteq> []" "length p < 2 ^ 60" for p r
    unfolding option_ok_def using that by auto
  show "\<forall>o' \<in> set example_opts. option_ok o'"
    using i[of "str ''/srv/lib''" "[]"] i[of "str ''/opt''" "[]"] by (simp add: example_opts_def option_ok_def str_def)
qed (simp_all add: example_opts_def str_def)


theorem ParseCommandLineArguments_sixth_path_witness:
  "ParseCommandLineArguments example_env (example_sys 0) (config_of [] [] [] []) (example_opts @ example_opts @ example_opts) None
     = throw Out_Of_Bounds"
  by (rule ParseCommandLineArguments_sixth_path) (use example_opts_ok(1) in \<open>auto simp: example_sys_def example_opts_def\<close>)

theorem ParseCommandLineArguments_unterminated_witness:
  "ParseCommandLineArguments example_env (example_sys 7) (config_of [] [] [] []) example_opts None = throw Out_Of_Bounds"
  by (rule ParseCommandLineArguments_unterminated[OF example_opts_ok(1,3) _ _ _ _ _ example_new_state])
    (simp_all add: example_opts_ok(2) example_sys_def)

end
