(* ===== verification/JsonNode.thy ===== *)
theory JsonNode
  imports JsonParse
begin

text \<open>
  The nodes of \<open>deps/json/json.c\<close> as they lie in memory: each node points to its parent, its
  neighbours in the list of its parent's children, and the first and last of its own. The
  functions here make nodes, put them into a list and take them out, delete a tree, look for a child and
  check the whole structure.

  A pointer is the number of its node, and the heap says which nodes are allocated; looking at another is the
  fault \<open>Use_After_Free\<close>. A number is not used again. Keys and strings belong to their node and are given without the
  NUL. The members of the union are fields of their own, of which the code reads the one the tag
  names. Memory can always be allocated, as \<open>out_of_memory\<close> exits.
\<close>

datatype JsonTag = JSON_NULL | JSON_BOOL | JSON_STRING | JSON_NUMBER | JSON_ARRAY | JSON_OBJECT

record 'd JsonNode =
  jn_parent :: "nat option"
  jn_prev :: "nat option"
  jn_next :: "nat option"
  jn_key :: "bytes option"
  jn_tag :: JsonTag
  jn_bool :: bool
  jn_string :: "bytes option"
  jn_number :: 'd
  jn_head :: "nat option"
  jn_tail :: "nat option"

record 'd jheap =
  jh_nodes :: "nat \<Rightarrow> 'd JsonNode option"
  jh_next :: nat

definition node_at :: "'d jheap \<Rightarrow> nat \<Rightarrow> 'd JsonNode exec" where
  "node_at h p = (case jh_nodes h p of None \<Rightarrow> throw Use_After_Free | Some n \<Rightarrow> ret n)"

definition node_upd :: "'d jheap \<Rightarrow> nat \<Rightarrow> ('d JsonNode \<Rightarrow> 'd JsonNode) \<Rightarrow> 'd jheap exec" where
  "node_upd h p f = xbind (node_at h p) (\<lambda>n. ret (h\<lparr>jh_nodes := (jh_nodes h)(p \<mapsto> f n)\<rparr>))"

definition node_free :: "'d jheap \<Rightarrow> nat \<Rightarrow> 'd jheap exec" where
  "node_free h p = xbind (node_at h p) (\<lambda>n. ret (h\<lparr>jh_nodes := (jh_nodes h)(p := None)\<rparr>))"

subsection \<open>Making nodes\<close>

text \<open>\<open>calloc\<close> gives zeroed memory: null pointers, false and the number zero.\<close>

definition mknode :: "('d :: zero) jheap \<Rightarrow> JsonTag \<Rightarrow> nat \<times> 'd jheap" where
  "mknode h tag =
     (jh_next h,
      \<lparr>jh_nodes = (jh_nodes h)(jh_next h \<mapsto>
         \<lparr>jn_parent = None, jn_prev = None, jn_next = None, jn_key = None, jn_tag = tag, jn_bool = False, jn_string = None,
           jn_number = 0, jn_head = None, jn_tail = None\<rparr>),
       jh_next = jh_next h + 1\<rparr>)"

definition json_mknull :: "('d :: zero) jheap \<Rightarrow> (nat \<times> 'd jheap) exec" where
  "json_mknull h = ret (mknode h JSON_NULL)"

definition json_mkbool :: "('d :: zero) jheap \<Rightarrow> bool \<Rightarrow> (nat \<times> 'd jheap) exec" where
  "json_mkbool h b = (let (p, h) = mknode h JSON_BOOL in xbind (node_upd h p (jn_bool_update (\<lambda>_. b))) (\<lambda>h. ret (p, h)))"

definition mkstring :: "('d :: zero) jheap \<Rightarrow> bytes \<Rightarrow> (nat \<times> 'd jheap) exec" where
  "mkstring h s = (let (p, h) = mknode h JSON_STRING in xbind (node_upd h p (jn_string_update (\<lambda>_. Some s))) (\<lambda>h. ret (p, h)))"

definition json_strdup :: "bytes \<Rightarrow> bytes exec" where
  "json_strdup str = c_string str"

definition json_mkstring :: "('d :: zero) jheap \<Rightarrow> bytes \<Rightarrow> (nat \<times> 'd jheap) exec" where
  "json_mkstring h s = xbind (json_strdup s) (\<lambda>s. mkstring h s)"

definition json_mknumber :: "('d :: zero) jheap \<Rightarrow> 'd \<Rightarrow> (nat \<times> 'd jheap) exec" where
  "json_mknumber h n = (let (p, h) = mknode h JSON_NUMBER in xbind (node_upd h p (jn_number_update (\<lambda>_. n))) (\<lambda>h. ret (p, h)))"

definition json_mkarray :: "('d :: zero) jheap \<Rightarrow> (nat \<times> 'd jheap) exec" where
  "json_mkarray h = ret (mknode h JSON_ARRAY)"

definition json_mkobject :: "('d :: zero) jheap \<Rightarrow> (nat \<times> 'd jheap) exec" where
  "json_mkobject h = ret (mknode h JSON_OBJECT)"

subsection \<open>Putting nodes into lists\<close>

definition append_node :: "'d jheap \<Rightarrow> nat \<Rightarrow> nat \<Rightarrow> 'd jheap exec" where
  "append_node h parent child =
     xbind (node_upd h child (\<lambda>n. n\<lparr>jn_parent := Some parent\<rparr>)) (\<lambda>h.
     xbind (node_at h parent) (\<lambda>pn.
     xbind (node_upd h child (\<lambda>n. n\<lparr>jn_prev := jn_tail pn, jn_next := None\<rparr>)) (\<lambda>h.
     xbind (case jn_tail pn of
              Some tail \<Rightarrow> node_upd h tail (\<lambda>n. n\<lparr>jn_next := Some child\<rparr>)
            | None \<Rightarrow> node_upd h parent (\<lambda>n. n\<lparr>jn_head := Some child\<rparr>)) (\<lambda>h.
     node_upd h parent (\<lambda>n. n\<lparr>jn_tail := Some child\<rparr>)))))"

definition prepend_node :: "'d jheap \<Rightarrow> nat \<Rightarrow> nat \<Rightarrow> 'd jheap exec" where
  "prepend_node h parent child =
     xbind (node_upd h child (\<lambda>n. n\<lparr>jn_parent := Some parent, jn_prev := None\<rparr>)) (\<lambda>h.
     xbind (node_at h parent) (\<lambda>pn.
     xbind (node_upd h child (\<lambda>n. n\<lparr>jn_next := jn_head pn\<rparr>)) (\<lambda>h.
     xbind (case jn_head pn of
              Some head \<Rightarrow> node_upd h head (\<lambda>n. n\<lparr>jn_prev := Some child\<rparr>)
            | None \<Rightarrow> node_upd h parent (\<lambda>n. n\<lparr>jn_tail := Some child\<rparr>)) (\<lambda>h.
     node_upd h parent (\<lambda>n. n\<lparr>jn_head := Some child\<rparr>)))))"

definition append_member :: "'d jheap \<Rightarrow> nat \<Rightarrow> bytes \<Rightarrow> nat \<Rightarrow> 'd jheap exec" where
  "append_member h object key value =
     xbind (node_upd h value (\<lambda>n. n\<lparr>jn_key := Some key\<rparr>)) (\<lambda>h. append_node h object value)"

text \<open>The assertions of the public functions.\<close>

definition may_join :: "'d jheap \<Rightarrow> JsonTag \<Rightarrow> nat \<Rightarrow> nat \<Rightarrow> unit exec" where
  "may_join h tag parent child =
     xbind (node_at h parent) (\<lambda>pn.
     xbind (c_assert (jn_tag pn = tag)) (\<lambda>_.
     xbind (node_at h child) (\<lambda>cn. c_assert (jn_parent cn = None))))"

definition json_append_element :: "'d jheap \<Rightarrow> nat \<Rightarrow> nat \<Rightarrow> 'd jheap exec" where
  "json_append_element h array element = xbind (may_join h JSON_ARRAY array element) (\<lambda>_. append_node h array element)"

definition json_prepend_element :: "'d jheap \<Rightarrow> nat \<Rightarrow> nat \<Rightarrow> 'd jheap exec" where
  "json_prepend_element h array element = xbind (may_join h JSON_ARRAY array element) (\<lambda>_. prepend_node h array element)"

definition json_append_member :: "'d jheap \<Rightarrow> nat \<Rightarrow> bytes \<Rightarrow> nat \<Rightarrow> 'd jheap exec" where
  "json_append_member h object key value =
     xbind (may_join h JSON_OBJECT object value) (\<lambda>_. xbind (json_strdup key) (\<lambda>key. append_member h object key value))"

definition json_prepend_member :: "'d jheap \<Rightarrow> nat \<Rightarrow> bytes \<Rightarrow> nat \<Rightarrow> 'd jheap exec" where
  "json_prepend_member h object key value =
     xbind (may_join h JSON_OBJECT object value) (\<lambda>_.
     xbind (json_strdup key) (\<lambda>key.
     xbind (node_upd h value (\<lambda>n. n\<lparr>jn_key := Some key\<rparr>)) (\<lambda>h. prepend_node h object value)))"

definition json_remove_from_parent :: "'d jheap \<Rightarrow> nat \<Rightarrow> 'd jheap exec" where
  "json_remove_from_parent h node =
     xbind (node_at h node) (\<lambda>n.
     case jn_parent n of
       None \<Rightarrow> ret h
     | Some parent \<Rightarrow>
         xbind (case jn_prev n of
                  Some prev \<Rightarrow> node_upd h prev (\<lambda>m. m\<lparr>jn_next := jn_next n\<rparr>)
                | None \<Rightarrow> node_upd h parent (\<lambda>m. m\<lparr>jn_head := jn_next n\<rparr>)) (\<lambda>h.
         xbind (node_at h node) (\<lambda>n.
         xbind (case jn_next n of
                  Some next \<Rightarrow> node_upd h next (\<lambda>m. m\<lparr>jn_prev := jn_prev n\<rparr>)
                | None \<Rightarrow> node_upd h parent (\<lambda>m. m\<lparr>jn_tail := jn_prev n\<rparr>)) (\<lambda>h.
         node_upd h node (\<lambda>m. m\<lparr>jn_key := None, jn_parent := None, jn_prev := None, jn_next := None\<rparr>)))))"

subsection \<open>Looking for children\<close>

definition json_first_child :: "'d jheap \<Rightarrow> nat option \<Rightarrow> (nat option) exec" where
  "json_first_child h node =
     (case node of
        None \<Rightarrow> ret None
      | Some p \<Rightarrow> xbind (node_at h p) (\<lambda>n. ret (if jn_tag n = JSON_ARRAY \<or> jn_tag n = JSON_OBJECT then jn_head n else None)))"

text \<open>The loops of \<open>json_foreach\<close>. The counter is an \<open>int\<close>, which a list of fewer than \<open>2 ^ 31\<close> elements
  does not overflow.\<close>

partial_function (option) find_element_loop :: "'d jheap \<Rightarrow> int \<Rightarrow> nat option \<Rightarrow> int \<Rightarrow> (nat option) exec" where
  "find_element_loop h index element i =
     (case element of
        None \<Rightarrow> ret None
      | Some e \<Rightarrow>
          if i = index then ret (Some e)
          else xbind (node_at h e) (\<lambda>n. find_element_loop h index (jn_next n) (i + 1)))"

definition json_find_element :: "'d jheap \<Rightarrow> nat option \<Rightarrow> int \<Rightarrow> (nat option) exec" where
  "json_find_element h array index =
     (case array of
        None \<Rightarrow> ret None
      | Some a \<Rightarrow>
          xbind (node_at h a) (\<lambda>n.
          if jn_tag n \<noteq> JSON_ARRAY then ret None
          else xbind (json_first_child h array) (\<lambda>element. find_element_loop h index element 0)))"

partial_function (option) find_member_loop :: "'d jheap \<Rightarrow> bytes \<Rightarrow> nat option \<Rightarrow> (nat option) exec" where
  "find_member_loop h name member =
     (case member of
        None \<Rightarrow> ret None
      | Some m \<Rightarrow>
          xbind (node_at h m) (\<lambda>n.
          case jn_key n of
            None \<Rightarrow> throw Null_Deref
          | Some key \<Rightarrow>
              xbind (c_string name) (\<lambda>s. if key = s then ret (Some m) else find_member_loop h name (jn_next n))))"

definition json_find_member :: "'d jheap \<Rightarrow> nat option \<Rightarrow> bytes \<Rightarrow> (nat option) exec" where
  "json_find_member h object name =
     (case object of
        None \<Rightarrow> ret None
      | Some p \<Rightarrow>
          xbind (node_at h p) (\<lambda>n.
          if jn_tag n \<noteq> JSON_OBJECT then ret None
          else xbind (json_first_child h object) (\<lambda>member. find_member_loop h name member)))"

subsection \<open>Deleting\<close>

text \<open>\<open>json_delete\<close> of a node, given the loop over the children, which calls it.\<close>

definition delete_node :: "('d jheap \<Rightarrow> nat option \<Rightarrow> 'd jheap exec) \<Rightarrow> 'd jheap \<Rightarrow> nat \<Rightarrow> 'd jheap exec" where
  "delete_node children h node =
     xbind (json_remove_from_parent h node) (\<lambda>h.
     xbind (node_at h node) (\<lambda>n.
     xbind (if jn_tag n = JSON_ARRAY \<or> jn_tag n = JSON_OBJECT then children h (jn_head n) else ret h) (\<lambda>h.
     node_free h node)))"

lemma delete_node_mono [partial_function_mono]:
  "(\<And>h p. mono_option (\<lambda>f. F f h p)) \<Longrightarrow> mono_option (\<lambda>f. delete_node (F f) h node)"
  unfolding delete_node_def by (intro partial_function_mono) simp_all

partial_function (option) delete_children :: "'d jheap \<Rightarrow> nat option \<Rightarrow> 'd jheap exec" where
  "delete_children h child =
     (case child of
        None \<Rightarrow> ret h
      | Some c \<Rightarrow>
          xbind (node_at h c) (\<lambda>n.
          xbind (delete_node (\<lambda>h p. delete_children h p) h c) (\<lambda>h. delete_children h (jn_next n))))"

definition json_delete :: "'d jheap \<Rightarrow> nat option \<Rightarrow> 'd jheap exec" where
  "json_delete h node = (case node of None \<Rightarrow> ret h | Some p \<Rightarrow> delete_node delete_children h p)"

subsection \<open>Checking\<close>

text \<open>\<open>json_check\<close> of a node, given the loop over its children, which returns the last one or \<open>None\<close> for a
  problem. A tag is always one of the enumeration, and a Boolean always one of its two values.\<close>

definition check_node ::
  "('d jheap \<Rightarrow> nat \<Rightarrow> JsonTag \<Rightarrow> nat \<Rightarrow> nat option \<Rightarrow> nat option \<Rightarrow> (nat option option) exec) \<Rightarrow> 'd jheap \<Rightarrow> nat \<Rightarrow> bool exec" where
  "check_node children h node =
     xbind (node_at h node) (\<lambda>n.
     xbind (case jn_key n of None \<Rightarrow> ret True | Some key \<Rightarrow> utf8_validate (key @ [0])) (\<lambda>ok.
     if \<not> ok then ret False
     else if jn_tag n = JSON_STRING then
       (case jn_string n of None \<Rightarrow> ret False | Some s \<Rightarrow> utf8_validate (s @ [0]))
     else if jn_tag n = JSON_ARRAY \<or> jn_tag n = JSON_OBJECT then
       (case jn_head n of
          None \<Rightarrow> ret (jn_tail n = None)
        | Some head \<Rightarrow>
            if jn_tail n = None then ret False
            else
              xbind (node_at h head) (\<lambda>hn.
              if jn_prev hn \<noteq> None then ret False
              else
                xbind (children h node (jn_tag n) head (Some head) None) (\<lambda>r.
                case r of None \<Rightarrow> ret False | Some last_child \<Rightarrow> ret (last_child = jn_tail n))))
     else ret True))"

lemma option_case_mono:
  "mono_option A \<Longrightarrow> (\<And>y. mono_option (\<lambda>f. B f y)) \<Longrightarrow> mono_option (\<lambda>f. case x of None \<Rightarrow> A f | Some y \<Rightarrow> B f y)"
  by (cases x) simp_all

lemma check_node_mono [partial_function_mono]:
  "(\<And>h p t b c l. mono_option (\<lambda>f. F f h p t b c l)) \<Longrightarrow> mono_option (\<lambda>f. check_node (F f) h node)"
  unfolding check_node_def
  by (intro partial_function_mono option_case_mono) simp_all

partial_function (option) check_children ::
  "'d jheap \<Rightarrow> nat \<Rightarrow> JsonTag \<Rightarrow> nat \<Rightarrow> nat option \<Rightarrow> nat option \<Rightarrow> (nat option option) exec" where
  "check_children h node tag head child last_child =
     (case child of
        None \<Rightarrow> ret (Some last_child)
      | Some c \<Rightarrow>
          if c = node then ret None
          else
            xbind (node_at h c) (\<lambda>n.
            if jn_next n = Some c \<or> jn_next n = Some head \<or> jn_parent n \<noteq> Some node then ret None
            else
              xbind (case jn_next n of None \<Rightarrow> ret True | Some m \<Rightarrow> xbind (node_at h m) (\<lambda>mn. ret (jn_prev mn = Some c))) (\<lambda>back.
              if \<not> back \<or> tag = JSON_ARRAY \<and> jn_key n \<noteq> None \<or> tag = JSON_OBJECT \<and> jn_key n = None then ret None
              else
                xbind (check_node (\<lambda>h p t b c l. check_children h p t b c l) h c) (\<lambda>ok.
                if \<not> ok then ret None else check_children h node tag head (jn_next n) (Some c)))))"

definition json_check :: "'d jheap \<Rightarrow> nat \<Rightarrow> bool exec" where
  "json_check h node = check_node check_children h node"

end
