(* ===== verification/JsonNodeTree.thy ===== *)
theory JsonNodeTree
  imports JsonNode
begin

text \<open>
  Well-formed trees of nodes. A \<open>ptree\<close> is the shape of a tree with the addresses of its nodes; \<open>wf_tree\<close>
  says that the heap has this tree, with every list of children linked in both directions, and
  \<open>node_value\<close> is the JSON value it stands for. The nodes of a well-formed tree are distinct, which
  follows from the links.
\<close>

subsection \<open>Lists of children\<close>

datatype ptree = PT (addr: nat) (kids: "ptree list")

definition first_or :: "nat list \<Rightarrow> nat option \<Rightarrow> nat option" where
  "first_or cs nx = (case cs of [] \<Rightarrow> nx | c # _ \<Rightarrow> Some c)"

definition last_or :: "nat option \<Rightarrow> nat list \<Rightarrow> nat option" where
  "last_or pr cs = (if cs = [] then pr else Some (last cs))"

lemma first_or_simps [simp]: "first_or [] nx = nx" "first_or (c # cs) nx = Some c"
  "first_or (xs @ ys) nx = first_or xs (first_or ys nx)"
  by (cases xs; simp add: first_or_def)+

lemma last_or_simps [simp]: "last_or pr [] = pr" "last_or pr (c # cs) = last_or (Some c) cs"
  "last_or pr (xs @ ys) = last_or (last_or pr xs) ys"
  by (auto simp: last_or_def)

text \<open>The nodes \<open>cs\<close> are children of \<open>p\<close> in this order, between the neighbours \<open>pr\<close> and \<open>nx\<close>.\<close>

fun links :: "'d jheap \<Rightarrow> nat \<Rightarrow> nat option \<Rightarrow> nat list \<Rightarrow> nat option \<Rightarrow> bool" where
  "links h p pr [] nx \<longleftrightarrow> True"
| "links h p pr (c # cs) nx \<longleftrightarrow>
     (\<exists>n. jh_nodes h c = Some n \<and> jn_parent n = Some p \<and> jn_prev n = pr \<and> jn_next n = first_or cs nx)
     \<and> links h p (Some c) cs nx"

lemma links_append:
  "links h p pr (xs @ ys) nx \<longleftrightarrow> links h p pr xs (first_or ys nx) \<and> links h p (last_or pr xs) ys nx"
  by (induction xs arbitrary: pr) auto

lemma links_cong: "\<forall>c \<in> set cs. jh_nodes h' c = jh_nodes h c \<Longrightarrow> links h' p pr cs nx = links h p pr cs nx"
  by (induction cs arbitrary: pr) auto

lemma links_in: "links h p pr cs nx \<Longrightarrow> c \<in> set cs \<Longrightarrow> \<exists>n. jh_nodes h c = Some n \<and> jn_parent n = Some p"
  by (induction cs arbitrary: pr) auto

lemma links_prev:
  "links h p pr cs nx \<Longrightarrow> i < length cs
     \<Longrightarrow> \<exists>n. jh_nodes h (cs ! i) = Some n \<and> jn_prev n = (if i = 0 then pr else Some (cs ! (i - 1)))"
proof (induction cs arbitrary: pr i)
  case (Cons c cs)
  show ?case
  proof (cases i)
    case (Suc j)
    then show ?thesis using Cons.IH[of "Some c" j] Cons.prems by (cases j) auto
  qed (use Cons.prems in auto)
qed simp

lemma links_distinct:
  assumes "links h p None cs nx"
  shows "distinct cs"
proof -
  have "i < j \<Longrightarrow> j < length cs \<Longrightarrow> cs ! i \<noteq> cs ! j" for i j
  proof (induction i arbitrary: j)
    case 0
    then have "0 < length cs" by linarith
    then show ?case using links_prev[OF assms, of 0] links_prev[OF assms, of j] 0 by auto
  next
    case (Suc i)
    have "cs ! i \<noteq> cs ! (j - 1)" using Suc.IH[of "j - 1"] Suc.prems by simp
    then show ?case using links_prev[OF assms, of "Suc i"] links_prev[OF assms, of j] Suc.prems by auto
  qed
  then show ?thesis by (auto simp: distinct_conv_nth) (metis linorder_neqE_nat)
qed

definition children_of :: "'d jheap \<Rightarrow> nat \<Rightarrow> nat list \<Rightarrow> bool" where
  "children_of h p cs \<longleftrightarrow>
     (\<exists>n. jh_nodes h p = Some n \<and> jn_head n = first_or cs None \<and> jn_tail n = last_or None cs) \<and> links h p None cs None"

subsection \<open>Trees\<close>

fun addrs :: "ptree \<Rightarrow> nat set" where
  "addrs (PT p ts) = insert p (\<Union>t \<in> set ts. addrs t)"

definition text_ok :: "bytes \<Rightarrow> bool" where
  "text_ok s \<longleftrightarrow> utf8_validate (s @ [0]) = ret True"

definition container :: "JsonTag \<Rightarrow> bool" where
  "container t \<longleftrightarrow> t = JSON_ARRAY \<or> t = JSON_OBJECT"

definition local_ok :: "'d JsonNode \<Rightarrow> bool" where
  "local_ok n \<longleftrightarrow> (\<forall>k. jn_key n = Some k \<longrightarrow> text_ok k)
     \<and> (jn_tag n = JSON_STRING \<longrightarrow> (\<exists>s. jn_string n = Some s \<and> text_ok s))"

definition key_fits :: "JsonTag \<Rightarrow> bytes option \<Rightarrow> bool" where
  "key_fits tag key \<longleftrightarrow> (tag = JSON_ARRAY \<longrightarrow> key = None) \<and> (tag = JSON_OBJECT \<longrightarrow> key \<noteq> None)"

fun wf_tree :: "'d jheap \<Rightarrow> ptree \<Rightarrow> bool" where
  "wf_tree h (PT p ts) \<longleftrightarrow>
     (\<exists>n. jh_nodes h p = Some n \<and> local_ok n
        \<and> (if container (jn_tag n)
           then children_of h p (map addr ts) \<and> (\<forall>t \<in> set ts. \<exists>cn. jh_nodes h (addr t) = Some cn \<and> key_fits (jn_tag n) (jn_key cn))
           else ts = []))
     \<and> (\<forall>t \<in> set ts. wf_tree h t)"

lemma addr_in_addrs [simp]: "addr t \<in> addrs t"
  by (cases t) simp

lemma wf_children: "wf_tree h (PT p ts) \<Longrightarrow> ts \<noteq> [] \<Longrightarrow> children_of h p (map addr ts)"
  by (auto split: if_splits)

lemma wf_child_parent:
  assumes "wf_tree h (PT p ts)" "t \<in> set ts"
  shows "\<exists>n. jh_nodes h (addr t) = Some n \<and> jn_parent n = Some p"
proof -
  have "children_of h p (map addr ts)" using assms by (intro wf_children) auto
  then show ?thesis using assms(2) by (auto simp: children_of_def intro!: links_in)
qed

text \<open>A heap has one tree at an address.\<close>

lemma links_same:
  "links h p pr cs None \<Longrightarrow> links h p pr' ds None \<Longrightarrow> first_or cs None = first_or ds None \<Longrightarrow> cs = ds"
proof (induction cs arbitrary: pr pr' ds)
  case Nil then show ?case by (cases ds) auto
next
  case (Cons c cs)
  then obtain es where "ds = c # es" by (cases ds) auto
  then show ?case using Cons by auto
qed

lemma wf_tree_unique: "wf_tree h t \<Longrightarrow> wf_tree h u \<Longrightarrow> addr t = addr u \<Longrightarrow> t = u"
proof (induction t arbitrary: u)
  case (PT p ts)
  obtain us where u: "u = PT p us" using PT.prems(3) by (cases u) simp
  have m: "map addr ts = map addr us"
    using PT.prems(1,2) unfolding u by (auto simp: children_of_def split: if_splits intro!: links_same)
  have "ts = us"
  proof (rule nth_equalityI)
    show len: "length ts = length us" using m by (metis length_map)
    fix i assume i: "i < length ts"
    then show "ts ! i = us ! i"
      using PT.IH[of "ts ! i" "us ! i"] PT.prems(1,2) u m len by (metis nth_map nth_mem wf_tree.simps)
  qed
  then show ?case by (simp add: u)
qed

lemma addrs_subtree: "q \<in> addrs t \<Longrightarrow> wf_tree h t \<Longrightarrow> \<exists>s. wf_tree h s \<and> addr s = q \<and> size s \<le> size t"
proof (induction t)
  case (PT p ts)
  show ?case
  proof (cases "q = p")
    case True then show ?thesis using PT.prems(2) by (intro exI[of _ "PT p ts"]) simp
  next
    case False
    then obtain t where t: "t \<in> set ts" "q \<in> addrs t" using PT.prems(1) by auto
    then obtain s where "wf_tree h s" "addr s = q" "size s \<le> size t" using PT.IH[OF t] PT.prems(2) by auto
    moreover have "size t < size (PT p ts)" using t(1) by (simp add: size_list_estimation' less_Suc_eq_le)
    ultimately show ?thesis by (intro exI[of _ s]) simp
  qed
qed

text \<open>No node lies below itself.\<close>

lemma root_not_below: "wf_tree h (PT p ts) \<Longrightarrow> t \<in> set ts \<Longrightarrow> p \<notin> addrs t"
proof
  assume a: "wf_tree h (PT p ts)" "t \<in> set ts" "p \<in> addrs t"
  then have "wf_tree h t" by simp
  then obtain s where s: "wf_tree h s" "addr s = p" "size s \<le> size t" using addrs_subtree[OF a(3)] by blast
  then have "s = PT p ts" using wf_tree_unique[OF s(1) a(1)] by simp
  moreover have "size t < size (PT p ts)" using a(2) by (simp add: size_list_estimation' less_Suc_eq_le)
  ultimately show False using s(3) by simp
qed

text \<open>Two trees that share a node: the root of one lies in the other.\<close>

lemma parent_in_addrs:
  "wf_tree h t \<Longrightarrow> q \<in> addrs t \<Longrightarrow> q \<noteq> addr t \<Longrightarrow> jh_nodes h q = Some n \<Longrightarrow> \<exists>p. jn_parent n = Some p \<and> p \<in> addrs t"
proof (induction t)
  case (PT p ts)
  then obtain t where t: "t \<in> set ts" "q \<in> addrs t" by auto
  show ?case
  proof (cases "q = addr t")
    case True then show ?thesis using wf_child_parent[OF PT.prems(1) t(1)] PT.prems(4) by auto
  next
    case False then show ?thesis using PT.IH[OF t(1) _ t(2)] PT.prems(1,4) t(1) by auto
  qed
qed

lemma addrs_overlap:
  assumes "wf_tree h u"
  shows "wf_tree h t \<Longrightarrow> q \<in> addrs t \<Longrightarrow> q \<in> addrs u \<Longrightarrow> addr t \<in> addrs u \<or> addr u \<in> addrs t"
proof (induction t)
  case (PT p ts)
  show ?case
  proof (cases "q = p")
    case False
    then obtain t where t: "t \<in> set ts" "q \<in> addrs t" using PT.prems(2) by auto
    then have "addr t \<in> addrs u \<or> addr u \<in> addrs t" using PT.IH[OF t(1) _ t(2) PT.prems(3)] PT.prems(1) by simp
    moreover have "p \<in> addrs u" if u: "addr t \<in> addrs u" "addr t \<noteq> addr u"
      using parent_in_addrs[OF assms u] wf_child_parent[OF PT.prems(1) t(1)] by auto
    ultimately show ?thesis using t(1) by (metis UN_I addr_in_addrs addrs.simps insertCI ptree.sel(1))
  qed (use PT.prems(3) in auto)
qed

lemma siblings_disjoint:
  assumes "wf_tree h (PT p (xs @ t # ys))" "u \<in> set (xs @ ys)"
  shows "addrs t \<inter> addrs u = {}"
proof -
  have wf: "wf_tree h t" "wf_tree h u" "t \<in> set (xs @ t # ys)" "u \<in> set (xs @ t # ys)" using assms by auto
  have "distinct (map addr (xs @ t # ys))" using wf_children[OF assms(1)] links_distinct unfolding children_of_def by blast
  then have ne: "addr t \<noteq> addr u" using assms(2) by auto
  have "addr v \<notin> addrs w" if v: "addr v \<noteq> addr w" "v \<in> set (xs @ t # ys)" "w \<in> set (xs @ t # ys)" for v w
    using parent_in_addrs[of h w "addr v"] wf_child_parent[OF assms(1) v(2)] root_not_below[OF assms(1) v(3)] assms(1) v(1,3) by auto
  then show ?thesis using addrs_overlap[OF wf(2) wf(1)] ne wf(3,4) by (metis disjoint_iff)
qed

end
