(* ===== verification/JsonNodeCheck.thy ===== *)
theory JsonNodeCheck
  imports JsonNodeTree
begin

text \<open>
  \<open>json_check\<close> accepts exactly the well-formed trees, and the look-up functions return what the
  value of the tree says.
\<close>

lemma node_at_simps [simp]:
  "jh_nodes h p = Some n \<Longrightarrow> node_at h p = ret n" "jh_nodes h p = None \<Longrightarrow> node_at h p = throw Use_After_Free"
  by (simp_all add: node_at_def)

lemma node_at_ret_iff: "node_at h p = ret n \<longleftrightarrow> jh_nodes h p = Some n"
  by (cases "jh_nodes h p") simp_all

subsection \<open>Well-formed trees pass\<close>

lemma check_children_complete:
  assumes "links h p pr (map addr ts) None" "\<forall>t \<in> set ts. check_node check_children h (addr t) = ret True"
    and "\<forall>t \<in> set ts. \<exists>n. jh_nodes h (addr t) = Some n \<and> key_fits tag (jn_key n)"
    and "p \<notin> addr ` set ts" "distinct (map addr ts)" "head \<notin> addr ` set (tl ts)"
  shows "check_children h p tag head (first_or (map addr ts) None) lst = ret (Some (last_or lst (map addr ts)))"
  using assms
proof (induction ts arbitrary: pr lst)
  case Nil then show ?case by (simp add: check_children.simps)
next
  case (Cons t ts)
  obtain n where n: "jh_nodes h (addr t) = Some n" "jn_parent n = Some p" "jn_next n = first_or (map addr ts) None" "key_fits tag (jn_key n)"
    using Cons.prems(1,3) by auto
  have l: "links h p (Some (addr t)) (map addr ts) None" using Cons.prems(1) by simp
  have backlink: "(case jn_next n of None \<Rightarrow> ret True | Some m \<Rightarrow> xbind (node_at h m) (\<lambda>mn. ret (jn_prev mn = Some (addr t)))) = ret True"
    using n(3) l by (cases ts) auto
  have nx: "jn_next n \<noteq> Some (addr t)" "jn_next n \<noteq> Some head" using n(3) Cons.prems(5,6) by (cases ts; auto)+
  have rest: "check_children h p tag head (first_or (map addr ts) None) (Some (addr t)) = ret (Some (last_or (Some (addr t)) (map addr ts)))"
    by (rule Cons.IH[OF l]) (use Cons.prems in \<open>(cases ts; auto)+\<close>)
  have "\<not> (tag = JSON_ARRAY \<and> jn_key n \<noteq> None \<or> tag = JSON_OBJECT \<and> jn_key n = None)" using n(4) by (auto simp: key_fits_def)
  then show ?case
    using n(1,2) nx backlink rest Cons.prems(2,4) by (subst check_children.simps) (simp add: n(3)[symmetric])
qed

lemma check_complete: "wf_tree h t \<Longrightarrow> check_node check_children h (addr t) = ret True"
proof (induction t)
  case (PT p ts)
  obtain n where n: "jh_nodes h p = Some n" "local_ok n"
      "container (jn_tag n) \<Longrightarrow> children_of h p (map addr ts)"
      "container (jn_tag n) \<Longrightarrow> \<forall>t \<in> set ts. \<exists>cn. jh_nodes h (addr t) = Some cn \<and> key_fits (jn_tag n) (jn_key cn)"
    using PT.prems by (auto split: if_splits)
  have key: "(case jn_key n of None \<Rightarrow> ret True | Some key \<Rightarrow> utf8_validate (key @ [0])) = ret True"
    using n(2) by (auto simp: local_ok_def text_ok_def split: option.split)
  show ?case
  proof (cases "container (jn_tag n)")
    case False
    then show ?thesis using n(1,2) key by (auto simp: check_node_def container_def local_ok_def text_ok_def)
  next
    case True
    have hd: "jn_head n = first_or (map addr ts) None" "jn_tail n = last_or None (map addr ts)" "links h p None (map addr ts) None"
      using n(1) n(3)[OF True] by (auto simp: children_of_def)
    show ?thesis
    proof (cases ts)
      case Nil
      then show ?thesis using n(1) key hd(1,2) True by (auto simp: check_node_def container_def)
    next
      case (Cons t us)
      have np: "p \<notin> addr ` set ts" using root_not_below[OF PT.prems] addr_in_addrs by fastforce
      have d: "distinct (map addr ts)" using links_distinct[OF hd(3)] .
      obtain hn where hn: "jh_nodes h (addr t) = Some hn" "jn_prev hn = None" using hd(3) Cons by auto
      have "check_children h p (jn_tag n) (addr t) (first_or (map addr ts) None) None = ret (Some (last_or None (map addr ts)))"
        by (rule check_children_complete[OF hd(3)])
          (use PT.IH PT.prems n(4)[OF True] np d Cons in auto)
      moreover have "last_or None (map addr ts) \<noteq> None" "jn_head n = Some (addr t)" using Cons hd(1) by (auto simp: last_or_def)
      ultimately show ?thesis
        using n(1) key hd(1,2) True hn Cons by (auto simp: check_node_def container_def)
    qed
  qed
qed

subsection \<open>What passes is well-formed\<close>

text \<open>What the loop over the children has established when it returns.\<close>

definition checked_list ::
  "'d jheap \<Rightarrow> nat \<Rightarrow> JsonTag \<Rightarrow> nat option \<Rightarrow> nat option \<Rightarrow> nat option \<Rightarrow> bool" where
  "checked_list h p tag child lst r \<longleftrightarrow>
     (\<forall>pr. (\<forall>c. child = Some c \<longrightarrow> (\<exists>n. jh_nodes h c = Some n \<and> jn_prev n = pr)) \<longrightarrow>
       (\<exists>ts. child = first_or (map addr ts) None \<and> links h p pr (map addr ts) None \<and> r = last_or lst (map addr ts)
          \<and> (\<forall>t \<in> set ts. wf_tree h t \<and> (\<exists>n. jh_nodes h (addr t) = Some n \<and> key_fits tag (jn_key n)))))"

lemma check_node_sound:
  assumes "check_node children h p = ret True"
    and "\<And>q tag hd child lst r. children h q tag hd child lst = ret (Some r) \<Longrightarrow> checked_list h q tag child lst r"
  shows "\<exists>ts. wf_tree h (PT p ts)"
proof -
  obtain n where n: "jh_nodes h p = Some n" using assms(1) by (cases "jh_nodes h p") (auto simp: check_node_def)
  have key: "\<forall>k. jn_key n = Some k \<longrightarrow> text_ok k"
    using assms(1) n by (auto simp: check_node_def text_ok_def xbind_ret_iff split: if_splits)
  consider "\<not> container (jn_tag n)" | "container (jn_tag n)" "jn_head n = None" | c where "container (jn_tag n)" "jn_head n = Some c"
    by (cases "jn_head n") auto
  then show ?thesis
  proof cases
    case 1
    then have "local_ok n"
      using assms(1) n key by (auto simp: check_node_def local_ok_def text_ok_def container_def xbind_ret_iff split: if_splits option.splits)
    then show ?thesis using 1 n by (intro exI[of _ "[]"]) simp
  next
    case 2
    then have "jn_tail n = None" using assms(1) n by (auto simp: check_node_def container_def xbind_ret_iff split: if_splits)
    then have "children_of h p []" using n 2 by (simp add: children_of_def)
    then show ?thesis using 2 n key by (intro exI[of _ "[]"]) (auto simp: local_ok_def container_def)
  next
    case (3 c)
    then obtain hn where r: "jh_nodes h c = Some hn" "jn_prev hn = None"
        "children h p (jn_tag n) c (Some c) None = ret (Some (jn_tail n))"
      using assms(1) n by (auto simp: check_node_def container_def xbind_ret_iff node_at_ret_iff split: if_splits option.splits)
    from assms(2)[OF r(3)] r(1,2) obtain ts where ts: "Some c = first_or (map addr ts) None" "links h p None (map addr ts) None"
        "jn_tail n = last_or None (map addr ts)" "\<forall>t \<in> set ts. wf_tree h t \<and> (\<exists>m. jh_nodes h (addr t) = Some m \<and> key_fits (jn_tag n) (jn_key m))"
      unfolding checked_list_def by fastforce
    then have "children_of h p (map addr ts)" using 3 n by (simp add: children_of_def)
    then show ?thesis using 3 n key ts(4) by (intro exI[of _ ts]) (auto simp: local_ok_def container_def)
  qed
qed

lemma check_children_sound:
  assumes "check_children h p tag head child lst = ret (Some r)"
  shows "checked_list h p tag child lst r"
proof -
  have "\<forall>r. y = Inr (Some r) \<longrightarrow> checked_list h p tag child lst r" if "check_children h p tag head child lst = Some y" for y
  proof (rule check_children.raw_induct[OF _ that], goal_cases)
    case (1 f h p tag head child lst y)
    have IH: "f h p tag head child lst = ret (Some r) \<Longrightarrow> checked_list h p tag child lst r" for h p tag head child lst r
      using 1(1) by blast
    show ?case
    proof (cases child)
      case None
      then show ?thesis using 1(2) by (auto simp: checked_list_def intro!: exI[of _ "[]"])
    next
      case (Some c)
      show ?thesis
      proof (intro allI impI)
        fix r assume "y = Inr (Some r)"
        with 1(2) Some obtain n where n: "jh_nodes h c = Some n" "jn_parent n = Some p" "key_fits tag (jn_key n)"
            "\<And>m. jn_next n = Some m \<Longrightarrow> \<exists>mn. jh_nodes h m = Some mn \<and> jn_prev mn = Some c"
            "check_node (\<lambda>h p t b c l. f h p t b c l) h c = ret True" "f h p tag head (jn_next n) (Some c) = ret (Some r)"
          by (auto simp: xbind_ret_iff node_at_ret_iff key_fits_def split: if_splits option.splits)
        obtain us where t: "wf_tree h (PT c us)" using check_node_sound[OF n(5)] IH by blast
        from IH[OF n(6)] n(4) obtain ts where ts: "jn_next n = first_or (map addr ts) None" "links h p (Some c) (map addr ts) None"
            "r = last_or (Some c) (map addr ts)"
            "\<forall>t \<in> set ts. wf_tree h t \<and> (\<exists>m. jh_nodes h (addr t) = Some m \<and> key_fits tag (jn_key m))"
          unfolding checked_list_def by blast
        show "checked_list h p tag child lst r"
          unfolding checked_list_def Some
          using n(1-3) t ts by (auto intro!: exI[of _ "PT c us # ts"])
      qed
    qed
  qed
  then show ?thesis using assms by blast
qed

subsection \<open>The property\<close>

text \<open>C6: \<open>json_check\<close> returns true exactly for the roots of well-formed trees: the lists of children
  are linked in both directions, each child points to its parent, members have keys and elements have none,
  keys and strings are UTF-8, and no node lies below itself.\<close>

theorem json_check_accepts: "json_check h p = ret True \<longleftrightarrow> (\<exists>ts. wf_tree h (PT p ts))"
proof
  assume "json_check h p = ret True"
  then show "\<exists>ts. wf_tree h (PT p ts)"
    unfolding json_check_def by (rule check_node_sound) (rule check_children_sound)
next
  assume "\<exists>ts. wf_tree h (PT p ts)"
  then show "json_check h p = ret True" unfolding json_check_def using check_complete[of h "PT p _"] by auto
qed

end
