(* ===== verification/JsonNodeOps.thy ===== *)
theory JsonNodeOps
  imports JsonNodeCheck
begin

text \<open>
  What the operations do to a well-formed tree: putting a tree into the list of another's children,
  taking it out and deleting it. Nodes other than the ones involved keep their place and their contents.
\<close>

subsection \<open>The value of a tree\<close>

definition node_key :: "'d jheap \<Rightarrow> nat \<Rightarrow> bytes option" where
  "node_key h p = (case jh_nodes h p of None \<Rightarrow> None | Some n \<Rightarrow> jn_key n)"

fun node_value :: "'d jheap \<Rightarrow> ptree \<Rightarrow> 'd json" where
  "node_value h (PT p ts) =
     (case jh_nodes h p of
        None \<Rightarrow> JNull
      | Some n \<Rightarrow>
          (case jn_tag n of
             JSON_NULL \<Rightarrow> JNull
           | JSON_BOOL \<Rightarrow> JBool (jn_bool n)
           | JSON_STRING \<Rightarrow> JString (case jn_string n of None \<Rightarrow> [] | Some s \<Rightarrow> s)
           | JSON_NUMBER \<Rightarrow> JNumber (jn_number n)
           | JSON_ARRAY \<Rightarrow> JArray (map (node_value h) ts)
           | JSON_OBJECT \<Rightarrow> JObject (map (\<lambda>t. (case node_key h (addr t) of None \<Rightarrow> [] | Some k \<Rightarrow> k, node_value h t)) ts)))"

text \<open>A tree depends on its nodes only, and on its root only apart from the root's place.\<close>

definition inner :: "'d JsonNode \<Rightarrow> 'd JsonNode" where
  "inner n = n\<lparr>jn_parent := None, jn_prev := None, jn_next := None\<rparr>"

lemma inner_fields: 
  assumes "inner n = inner m"
  shows "jn_key n = jn_key m" "jn_tag n = jn_tag m" "jn_bool n = jn_bool m" "jn_string n = jn_string m" "jn_number n = jn_number m"
    "jn_head n = jn_head m" "jn_tail n = jn_tail m"
  using assms by (cases n; cases m; simp add: inner_def)+

lemma wf_tree_cong: "\<forall>q \<in> addrs t. jh_nodes h' q = jh_nodes h q \<Longrightarrow> wf_tree h' t = wf_tree h t \<and> node_value h' t = node_value h t"
proof (induction t)
  case (PT p ts)
  have p: "jh_nodes h' p = jh_nodes h p" using PT.prems by simp
  have IH: "wf_tree h' t = wf_tree h t" "node_value h' t = node_value h t" "jh_nodes h' (addr t) = jh_nodes h (addr t)"
    if "t \<in> set ts" for t using PT.IH[OF that] PT.prems that addr_in_addrs[of t] by auto
  have ch: "children_of h' p (map addr ts) = children_of h p (map addr ts)"
    using links_cong[of "map addr ts" h' h p None None] IH(3) p by (simp add: children_of_def)
  have "node_value h' (PT p ts) = node_value h (PT p ts)"
    using IH p by (auto simp: node_key_def cong: map_cong split: option.split JsonTag.split)
  moreover have "wf_tree h' (PT p ts) = wf_tree h (PT p ts)"
    using IH p ch by (simp cong: ball_cong)
  ultimately show ?case by blast
qed

lemma wf_tree_frame:
  assumes "\<forall>q \<in> addrs t - {addr t}. jh_nodes h' q = jh_nodes h q"
    and "map_option inner (jh_nodes h' (addr t)) = map_option inner (jh_nodes h (addr t))" "wf_tree h t"
  shows "wf_tree h' t" "node_value h' t = node_value h t" "node_key h' (addr t) = node_key h (addr t)"
proof -
  obtain p ts where t: "t = PT p ts" by (cases t)
  obtain n where n: "jh_nodes h p = Some n" using assms(3) t by auto
  then obtain n' where n': "jh_nodes h' p = Some n'" "inner n' = inner n" using assms(2) t by auto
  note f = inner_fields[OF n'(2)]
  have below: "p \<notin> addrs u" if "u \<in> set ts" for u using root_not_below[of h p ts u] assms(3) t that by simp
  have kid: "wf_tree h' u = wf_tree h u" "node_value h' u = node_value h u" "jh_nodes h' (addr u) = jh_nodes h (addr u)"
    if "u \<in> set ts" for u
  proof -
    have "\<forall>q \<in> addrs u. jh_nodes h' q = jh_nodes h q" using assms(1) below[OF that] t that by auto
    then show "wf_tree h' u = wf_tree h u" "node_value h' u = node_value h u" "jh_nodes h' (addr u) = jh_nodes h (addr u)"
      using wf_tree_cong by auto
  qed
  have l: "links h' p None (map addr ts) None = links h p None (map addr ts) None" using kid(3) by (intro links_cong) auto
  have ch: "children_of h' p (map addr ts) = children_of h p (map addr ts)" using n n' f l by (simp add: children_of_def)
  have lo: "local_ok n' = local_ok n" by (simp add: local_ok_def f)
  show "wf_tree h' t" using assms(3) n n' f lo ch kid unfolding t by (simp cong: ball_cong)
  show "node_value h' t = node_value h t"
    unfolding t using n n' f kid by (auto simp: node_key_def cong: map_cong split: JsonTag.split)
  show "node_key h' (addr t) = node_key h (addr t)" unfolding t using n n' f by (simp add: node_key_def)
qed

text \<open>After the links of \<open>a\<close>'s children were changed, the tree over a new list of children.\<close>

lemma wf_relinked:
  assumes "jh_nodes h a = Some an" "local_ok an" "container (jn_tag an)"
    and "jh_nodes h' a = Some an'" "inner an' = inner (an\<lparr>jn_head := jn_head an', jn_tail := jn_tail an'\<rparr>)"
    and "children_of h' a (map addr us)"
    and "\<forall>u \<in> set us. wf_tree h u \<and> a \<notin> addrs u \<and> key_fits (jn_tag an) (node_key h (addr u))"
    and "\<forall>q. q \<notin> insert a R \<longrightarrow> jh_nodes h' q = jh_nodes h q"
    and "\<forall>q \<in> R - {a}. map_option inner (jh_nodes h' q) = map_option inner (jh_nodes h q)"
    and "\<forall>u \<in> set us. (addrs u - {addr u}) \<inter> R = {}"
  shows "wf_tree h' (PT a us)" "\<forall>u \<in> set us. node_value h' u = node_value h u \<and> node_key h' (addr u) = node_key h (addr u)"
proof -
  have u: "wf_tree h' u" "node_value h' u = node_value h u" "node_key h' (addr u) = node_key h (addr u)" if "u \<in> set us" for u
  proof -
    have "addr u \<noteq> a" using assms(7) that addr_in_addrs[of u] by metis
    then have "map_option inner (jh_nodes h' (addr u)) = map_option inner (jh_nodes h (addr u))"
      using assms(8,9) by (cases "addr u \<in> R") auto
    moreover have "\<forall>q \<in> addrs u - {addr u}. jh_nodes h' q = jh_nodes h q" using assms(7,8,10) that by fastforce
    ultimately show "wf_tree h' u" "node_value h' u = node_value h u" "node_key h' (addr u) = node_key h (addr u)"
      using wf_tree_frame assms(7) that by blast+
  qed
  have f: "jn_key an' = jn_key an" "jn_tag an' = jn_tag an" "jn_string an' = jn_string an" using inner_fields[OF assms(5)] by simp_all
  then have lo: "local_ok an'" using assms(2) by (simp add: local_ok_def)
  have "\<exists>cn. jh_nodes h' (addr u) = Some cn \<and> key_fits (jn_tag an') (jn_key cn)" if "u \<in> set us" for u
    using u(1,3)[OF that] assms(7) that f(2) by (cases u) (auto simp: node_key_def split: option.splits)
  then show "wf_tree h' (PT a us)" using assms(3,4,6) lo f u(1) by simp
  show "\<forall>u \<in> set us. node_value h' u = node_value h u \<and> node_key h' (addr u) = node_key h (addr u)" using u by blast
qed

subsection \<open>Changing a list of children\<close>

lemma node_upd_simp [simp]: "jh_nodes h p = Some n \<Longrightarrow> node_upd h p f = ret (h\<lparr>jh_nodes := (jh_nodes h)(p \<mapsto> f n)\<rparr>)"
  by (simp add: node_upd_def)

lemma inner_links [simp]: "inner (n\<lparr>jn_parent := a\<rparr>) = inner n" "inner (n\<lparr>jn_prev := b\<rparr>) = inner n" "inner (n\<lparr>jn_next := b\<rparr>) = inner n"
  by (simp_all add: inner_def)

text \<open>What an operation on the children of \<open>p\<close> leaves: their new list \<open>cs'\<close>, and the nodes \<open>R\<close> it changed
  only in their links.\<close>

definition relinked :: "'d jheap \<Rightarrow> 'd jheap \<Rightarrow> nat \<Rightarrow> nat list \<Rightarrow> nat set \<Rightarrow> bool" where
  "relinked h h' p cs' R \<longleftrightarrow> jh_next h' = jh_next h \<and> children_of h' p cs'
     \<and> (\<exists>n. jh_nodes h p = Some n \<and> jh_nodes h' p = Some (n\<lparr>jn_head := first_or cs' None, jn_tail := last_or None cs'\<rparr>))
     \<and> (\<forall>q. q \<notin> insert p R \<longrightarrow> jh_nodes h' q = jh_nodes h q)
     \<and> (\<forall>q \<in> R - {p}. map_option inner (jh_nodes h' q) = map_option inner (jh_nodes h q))"

lemma append_node_effect:
  assumes "jh_nodes h p = Some pn" "jh_nodes h e = Some en" "children_of h p cs" "e \<notin> set cs" "e \<noteq> p" "p \<notin> set cs"
  shows "\<exists>h'. append_node h p e = ret h' \<and> relinked h h' p (cs @ [e]) (insert e (set cs))"
proof (cases cs rule: rev_cases)
  case Nil
  then have t: "jn_tail pn = None" "jn_head pn = None" using assms(1,3) by (auto simp: children_of_def)
  show ?thesis
    using assms(1,2,5) Nil t
    by (intro exI[of _ "h\<lparr>jh_nodes := (jh_nodes h)(e \<mapsto> en\<lparr>jn_parent := Some p, jn_prev := None, jn_next := None\<rparr>,
        p \<mapsto> pn\<lparr>jn_head := Some e, jn_tail := Some e\<rparr>)\<rparr>"])
      (simp add: append_node_def relinked_def children_of_def)
next
  case (snoc ds l)
  then have t: "jn_tail pn = Some l" "jn_head pn = first_or ds (Some l)" "links h p None ds (Some l)"
    and l: "links h p (last_or None ds) [l] None"
    using assms(1,3) by (auto simp: children_of_def links_append)
  obtain ln where ln: "jh_nodes h l = Some ln" "jn_parent ln = Some p" "jn_prev ln = last_or None ds" using l by auto
  have d: "distinct cs" using assms(3) links_distinct by (auto simp: children_of_def)
  then have ne: "l \<noteq> e" "l \<noteq> p" "l \<notin> set ds" "e \<notin> set ds" "p \<notin> set ds" using snoc assms(4-6) by auto
  let ?h = "h\<lparr>jh_nodes := (jh_nodes h)(e \<mapsto> en\<lparr>jn_parent := Some p, jn_prev := Some l, jn_next := None\<rparr>,
      l \<mapsto> ln\<lparr>jn_next := Some e\<rparr>, p \<mapsto> pn\<lparr>jn_tail := Some e\<rparr>)\<rparr>"
  have "append_node h p e = ret ?h"
    using assms(1,2,5) t(1) ln(1) ne by (simp add: append_node_def fun_upd_twist)
  moreover have "links ?h p None ds (Some l)" using t(3) ne by (subst links_cong[of _ _ h]) auto
  ultimately show ?thesis
    using assms(1,2,5) t ln ne by (intro exI[of _ ?h]) (simp add: relinked_def children_of_def links_append snoc)
qed

lemma prepend_node_effect:
  assumes "jh_nodes h p = Some pn" "jh_nodes h e = Some en" "children_of h p cs" "e \<notin> set cs" "e \<noteq> p" "p \<notin> set cs"
  shows "\<exists>h'. prepend_node h p e = ret h' \<and> relinked h h' p (e # cs) (insert e (set cs))"
proof (cases cs)
  case Nil
  then have t: "jn_tail pn = None" "jn_head pn = None" using assms(1,3) by (auto simp: children_of_def)
  show ?thesis
    using assms(1,2,5) Nil t
    by (intro exI[of _ "h\<lparr>jh_nodes := (jh_nodes h)(e \<mapsto> en\<lparr>jn_parent := Some p, jn_prev := None, jn_next := None\<rparr>,
        p \<mapsto> pn\<lparr>jn_tail := Some e, jn_head := Some e\<rparr>)\<rparr>"])
      (simp add: prepend_node_def relinked_def children_of_def)
next
  case (Cons c ds)
  then have t: "jn_tail pn = last_or (Some c) ds" "jn_head pn = Some c" "links h p (Some c) ds None"
    and l: "links h p None [c] (first_or ds None)"
    using assms(1,3) by (auto simp: children_of_def)
  obtain cn where cn: "jh_nodes h c = Some cn" "jn_parent cn = Some p" "jn_next cn = first_or ds None" using l by auto
  have d: "distinct cs" using assms(3) links_distinct by (auto simp: children_of_def)
  then have ne: "c \<noteq> e" "c \<noteq> p" "c \<notin> set ds" "e \<notin> set ds" "p \<notin> set ds" using Cons assms(4-6) by auto
  let ?h = "h\<lparr>jh_nodes := (jh_nodes h)(e \<mapsto> en\<lparr>jn_parent := Some p, jn_prev := None, jn_next := Some c\<rparr>,
      c \<mapsto> cn\<lparr>jn_prev := Some e\<rparr>, p \<mapsto> pn\<lparr>jn_head := Some e\<rparr>)\<rparr>"
  have "prepend_node h p e = ret ?h"
    using assms(1,2,5) t(2) cn(1) ne by (simp add: prepend_node_def fun_upd_twist)
  moreover have "links ?h p (Some c) ds None" using t(3) ne by (subst links_cong[of _ _ h]) auto
  ultimately show ?thesis
    using assms(1,2,5) t cn ne by (intro exI[of _ ?h]) (simp add: relinked_def children_of_def Cons)
qed

text \<open>Taking \<open>e\<close> out: the heap is compared to the one in which its key is gone.\<close>

definition without_key :: "'d jheap \<Rightarrow> nat \<Rightarrow> 'd jheap" where
  "without_key h e = h\<lparr>jh_nodes := (jh_nodes h)(e := map_option (\<lambda>n. n\<lparr>jn_key := None\<rparr>) (jh_nodes h e))\<rparr>"

lemma remove_effect:
  assumes "jh_nodes h p = Some pn" "children_of h p (xs @ e # ys)" "p \<notin> set (xs @ e # ys)"
  shows "\<exists>h' en. json_remove_from_parent h e = ret h' \<and> relinked (without_key h e) h' p (xs @ ys) (insert e (set xs \<union> set ys))
    \<and> jh_nodes h e = Some en
    \<and> jh_nodes h' e = Some (en\<lparr>jn_key := None, jn_parent := None, jn_prev := None, jn_next := None\<rparr>)"
proof -
  have l: "links h p None xs (Some e)" "links h p (Some e) ys None" "links h p (last_or None xs) [e] (first_or ys None)"
      "jn_head pn = first_or xs (Some e)" "jn_tail pn = last_or (Some e) ys"
    using assms(1,2) by (auto simp: children_of_def links_append)
  obtain en where en: "jh_nodes h e = Some en" "jn_parent en = Some p" "jn_prev en = last_or None xs" "jn_next en = first_or ys None"
    using l(3) by auto
  have d: "distinct (xs @ e # ys)" using assms(2) links_distinct by (auto simp only: children_of_def)
  let ?en = "en\<lparr>jn_key := None, jn_parent := None, jn_prev := None, jn_next := None\<rparr>"
  have key: "jh_nodes (without_key h e) q = (if q = e then Some (en\<lparr>jn_key := None\<rparr>) else jh_nodes h q)" for q
    using en(1) by (simp add: without_key_def)
  have nxt: "jh_next (without_key h e) = jh_next h" by (simp add: without_key_def)
  show ?thesis
  proof (cases xs rule: rev_cases)
    case Nil
    show ?thesis
    proof (cases ys)
      case Nil': Nil
      let ?h = "h\<lparr>jh_nodes := (jh_nodes h)(p \<mapsto> pn\<lparr>jn_head := None, jn_tail := None\<rparr>, e \<mapsto> ?en)\<rparr>"
      have "json_remove_from_parent h e = ret ?h"
        using en assms(1,3) Nil Nil' by (simp add: json_remove_from_parent_def fun_upd_twist)
      then show ?thesis using assms(1,3) en Nil Nil' nxt
        by (intro exI[of _ ?h] exI[of _ en]) (auto simp: relinked_def children_of_def key)
    next
      case (Cons c zs)
      obtain cn where cn: "jh_nodes h c = Some cn" "jn_parent cn = Some p" "jn_next cn = first_or zs None" using l(2) Cons by auto
      have ne: "c \<noteq> e" "c \<noteq> p" "c \<notin> set zs" "e \<notin> set zs" "p \<notin> set zs" "p \<noteq> e" using d assms(3) Cons by auto
      let ?h = "h\<lparr>jh_nodes := (jh_nodes h)(p \<mapsto> pn\<lparr>jn_head := Some c\<rparr>, c \<mapsto> cn\<lparr>jn_prev := None\<rparr>, e \<mapsto> ?en)\<rparr>"
      have "json_remove_from_parent h e = ret ?h"
        using en assms(1) cn Nil Cons ne by (simp add: json_remove_from_parent_def fun_upd_twist)
      moreover have "links ?h p (Some c) zs None" using l(2) Cons ne by (subst links_cong[of _ _ h]) auto
      ultimately show ?thesis using assms(1) en cn l(5) Nil Cons ne nxt
        by (intro exI[of _ ?h] exI[of _ en]) (auto simp: relinked_def children_of_def key)
    qed
  next
    case (snoc ds b)
    obtain bn where bn: "jh_nodes h b = Some bn" "jn_parent bn = Some p" "jn_prev bn = last_or None ds" "links h p None ds (Some b)"
      using l(1) snoc by (auto simp: links_append)
    have nb: "b \<noteq> e" "b \<noteq> p" "b \<notin> set ds" "e \<notin> set ds" "p \<notin> set ds" "p \<noteq> e" "b \<notin> set ys" using d assms(3) snoc by auto
    show ?thesis
    proof (cases ys)
      case Nil
      let ?h = "h\<lparr>jh_nodes := (jh_nodes h)(b \<mapsto> bn\<lparr>jn_next := None\<rparr>, p \<mapsto> pn\<lparr>jn_tail := Some b\<rparr>, e \<mapsto> ?en)\<rparr>"
      have "json_remove_from_parent h e = ret ?h"
        using en assms(1) bn snoc Nil nb by (simp add: json_remove_from_parent_def fun_upd_twist)
      moreover have "links ?h p None ds (Some b)" using bn(4) nb by (subst links_cong[of _ _ h]) auto
      ultimately show ?thesis using assms(1) en bn l(4) snoc Nil nb nxt
        by (intro exI[of _ ?h] exI[of _ en]) (auto simp: relinked_def children_of_def key links_append)
    next
      case (Cons c zs)
      obtain cn where cn: "jh_nodes h c = Some cn" "jn_parent cn = Some p" "jn_next cn = first_or zs None" using l(2) Cons by auto
      have ne: "c \<noteq> e" "c \<noteq> p" "c \<noteq> b" "c \<notin> set zs" "c \<notin> set ds" "e \<notin> set zs" "p \<notin> set zs" "b \<notin> set zs" using d assms(3) Cons snoc by auto
      let ?h = "h\<lparr>jh_nodes := (jh_nodes h)(b \<mapsto> bn\<lparr>jn_next := Some c\<rparr>, c \<mapsto> cn\<lparr>jn_prev := Some b\<rparr>, e \<mapsto> ?en)\<rparr>"
      have "json_remove_from_parent h e = ret ?h"
        using en assms(1) bn cn snoc Cons nb ne by (simp add: json_remove_from_parent_def fun_upd_twist)
      moreover have "links ?h p None ds (Some b)" using bn(4) nb ne by (subst links_cong[of _ _ h]) auto
      moreover have "links ?h p (Some c) zs None" using l(2) Cons nb ne by (subst links_cong[of _ _ h]) auto
      ultimately show ?thesis using assms(1) en bn cn l(4,5) snoc Cons nb ne nxt
        by (intro exI[of _ ?h] exI[of _ en]) (auto simp: relinked_def children_of_def key links_append)
    qed
  qed
qed

subsection \<open>Changing a tree\<close>

lemma wf_root: "wf_tree h t \<Longrightarrow> \<exists>n. jh_nodes h (addr t) = Some n"
  by (cases t) auto

lemma wf_tree_key:
  assumes "wf_tree h t" "jh_nodes h (addr t) = Some n" "\<forall>k. key = Some k \<longrightarrow> text_ok k"
    and "\<forall>q. q \<noteq> addr t \<longrightarrow> jh_nodes h' q = jh_nodes h q" "jh_nodes h' (addr t) = Some (n\<lparr>jn_key := key\<rparr>)"
  shows "wf_tree h' t" "node_value h' t = node_value h t"
proof -
  obtain p ts where t: "t = PT p ts" by (cases t)
  have below: "p \<notin> addrs u" if "u \<in> set ts" for u using root_not_below[of h p ts u] assms(1) t that by simp
  have kid: "wf_tree h' u = wf_tree h u" "node_value h' u = node_value h u" "jh_nodes h' (addr u) = jh_nodes h (addr u)"
    if "u \<in> set ts" for u
  proof -
    have same: "\<forall>q \<in> addrs u. jh_nodes h' q = jh_nodes h q" using assms(4) below[OF that] t by auto
    then show "wf_tree h' u = wf_tree h u" "node_value h' u = node_value h u" using wf_tree_cong by auto
    show "jh_nodes h' (addr u) = jh_nodes h (addr u)" using same addr_in_addrs by metis
  qed
  have l: "links h' p None (map addr ts) None = links h p None (map addr ts) None" using kid(3) by (intro links_cong) auto
  have ch: "children_of h' p (map addr ts) = children_of h p (map addr ts)" using assms(2,5) t l by (simp add: children_of_def)
  have lo: "local_ok n \<Longrightarrow> local_ok (n\<lparr>jn_key := key\<rparr>)" using assms(3) by (simp add: local_ok_def)
  show "wf_tree h' t" using assms(1,2,5) lo ch kid unfolding t by (simp cong: ball_cong)
  show "node_value h' t = node_value h t"
    unfolding t using assms(2,5) t kid by (auto simp: node_key_def cong: map_cong split: JsonTag.split)
qed

text \<open>A tree \<open>t\<close> that is not in a list is put among the children of \<open>a\<close>.\<close>

lemma root_apart:
  assumes "wf_tree h (PT a ts)" "jh_nodes h (addr t) = Some n" "jn_parent n = None" "a \<notin> addrs t"
  shows "addr t \<notin> addrs (PT a ts)" "addr t \<notin> addr ` set ts" "addr t \<noteq> a"
proof -
  show "addr t \<noteq> a" using assms(4) addr_in_addrs[of t] by metis
  then show "addr t \<notin> addrs (PT a ts)" using parent_in_addrs[OF assms(1), of "addr t" n] assms(2,3) by auto
  then show "addr t \<notin> addr ` set ts" by auto
qed

lemma join_tree:
  assumes "wf_tree h (PT a ts)" "wf_tree h t" "jh_nodes h a = Some an" "container (jn_tag an)"
    and "jh_nodes h (addr t) = Some n" "jn_parent n = None" "a \<notin> addrs t" "key_fits (jn_tag an) (jn_key n)"
    and "relinked h h' a (map addr us) (insert (addr t) (addr ` set ts))" "set us = insert t (set ts)"
  shows "wf_tree h' (PT a us)" "\<forall>u \<in> set us. node_value h' u = node_value h u \<and> node_key h' (addr u) = node_key h (addr u)"
    "\<exists>an'. jh_nodes h' a = Some an' \<and> jn_tag an' = jn_tag an"
proof -
  let ?R = "insert (addr t) (addr ` set ts)"
  note r = assms(9)[unfolded relinked_def]
  have an': "jh_nodes h' a = Some (an\<lparr>jn_head := first_or (map addr us) None, jn_tail := last_or None (map addr us)\<rparr>)"
    using r assms(3) by auto
  then show "\<exists>an'. jh_nodes h' a = Some an' \<and> jn_tag an' = jn_tag an" by auto
  have lo: "local_ok an" using assms(1,3) by auto
  have kid: "\<exists>cn. jh_nodes h (addr u) = Some cn \<and> key_fits (jn_tag an) (jn_key cn)" if "u \<in> set ts" for u
    using assms(1,3,4) that by auto
  have ok: "\<forall>u \<in> set us. wf_tree h u \<and> a \<notin> addrs u \<and> key_fits (jn_tag an) (node_key h (addr u))"
    using assms(1,2,5,7,8,10) root_not_below[OF assms(1)] kid by (fastforce simp: node_key_def)
  have roots: "(addrs u - {addr u}) \<inter> ?R = {}" if u: "u \<in> set us" for u
  proof -
    have "q \<notin> ?R" if q: "q \<in> addrs u" "q \<noteq> addr u" for q
    proof
      assume "q \<in> ?R"
      then obtain m where "jh_nodes h q = Some m" "jn_parent m = None \<or> jn_parent m = Some a"
        using assms(5,6) wf_child_parent[OF assms(1)] by auto
      then show False using parent_in_addrs[of h u q] ok u q by auto
    qed
    then show ?thesis by blast
  qed
  note w = wf_relinked[OF assms(3) lo assms(4) an', where us = us and R = "?R"]
  show "wf_tree h' (PT a us)" by (rule w(1)) (use r ok roots in \<open>auto simp: inner_def\<close>)
  show "\<forall>u \<in> set us. node_value h' u = node_value h u \<and> node_key h' (addr u) = node_key h (addr u)"
    by (rule w(2)) (use r ok roots in \<open>auto simp: inner_def\<close>)
qed

lemma value_array:
  assumes "wf_tree h (PT a ts)" "node_value h (PT a ts) = JArray vs"
  shows "\<exists>an. jh_nodes h a = Some an \<and> jn_tag an = JSON_ARRAY" "vs = map (node_value h) ts"
  using assms by (auto split: option.splits JsonTag.splits)

definition member_of :: "'d jheap \<Rightarrow> ptree \<Rightarrow> bytes \<times> 'd json" where
  "member_of h t = (case node_key h (addr t) of None \<Rightarrow> [] | Some k \<Rightarrow> k, node_value h t)"

lemma value_object:
  assumes "wf_tree h (PT a ts)" "node_value h (PT a ts) = JObject ms"
  shows "\<exists>an. jh_nodes h a = Some an \<and> jn_tag an = JSON_OBJECT" "ms = map (member_of h) ts"
  using assms by (auto simp: member_of_def split: option.splits JsonTag.splits)

lemma wf_children_of: "wf_tree h (PT a ts) \<Longrightarrow> jh_nodes h a = Some an \<Longrightarrow> container (jn_tag an) \<Longrightarrow> children_of h a (map addr ts)"
  by auto

lemma root_not_child: "wf_tree h (PT a ts) \<Longrightarrow> a \<notin> addr ` set ts"
  using root_not_below by (metis addr_in_addrs imageE)

lemma elements_join:
  assumes "wf_tree h (PT a ts)" "node_value h (PT a ts) = JArray vs" "wf_tree h t"
    and "jh_nodes h (addr t) = Some n" "jn_parent n = None" "jn_key n = None" "a \<notin> addrs t"
  shows "\<exists>h'. json_append_element h a (addr t) = ret h' \<and> wf_tree h' (PT a (ts @ [t]))
      \<and> node_value h' (PT a (ts @ [t])) = JArray (vs @ [node_value h t])"
    and "\<exists>h'. json_prepend_element h a (addr t) = ret h' \<and> wf_tree h' (PT a (t # ts))
      \<and> node_value h' (PT a (t # ts)) = JArray (node_value h t # vs)"
proof -
  obtain an where an: "jh_nodes h a = Some an" "jn_tag an = JSON_ARRAY" using value_array(1)[OF assms(1,2)] by blast
  have c: "container (jn_tag an)" "key_fits (jn_tag an) (jn_key n)" using an assms(6) by (simp_all add: container_def key_fits_def)
  note ch = wf_children_of[OF assms(1) an(1) c(1)] and apart = root_apart[OF assms(1,4,5,7)]
  have p: "a \<notin> set (map addr ts)" "addr t \<notin> set (map addr ts)" using root_not_child[OF assms(1)] apart(2) by simp_all
  have may: "may_join h JSON_ARRAY a (addr t) = ret ()" using an assms(4,5) by (simp add: may_join_def)
  have val: "node_value h' (PT a us) = JArray (map (node_value h) us)"
    if "\<forall>u \<in> set us. node_value h' u = node_value h u \<and> node_key h' (addr u) = node_key h (addr u)" "jh_nodes h' a = Some an'" "jn_tag an' = jn_tag an"
    for h' us an' using that an(2) by simp
  note join = join_tree[OF assms(1,3) an(1) c(1) assms(4,5,7) c(2)]
  obtain h' where h': "append_node h a (addr t) = ret h'" "relinked h h' a (map addr (ts @ [t])) (insert (addr t) (addr ` set ts))"
    using append_node_effect[OF an(1) assms(4) ch p(2) apart(3) p(1)] by auto
  from join[OF h'(2)] show "\<exists>h'. json_append_element h a (addr t) = ret h' \<and> wf_tree h' (PT a (ts @ [t]))
      \<and> node_value h' (PT a (ts @ [t])) = JArray (vs @ [node_value h t])"
    using h'(1) may val[of "ts @ [t]" h'] value_array(2)[OF assms(1,2)]
    by (intro exI[of _ h']) (auto simp: json_append_element_def simp del: wf_tree.simps node_value.simps)
  obtain h' where h': "prepend_node h a (addr t) = ret h'" "relinked h h' a (map addr (t # ts)) (insert (addr t) (addr ` set ts))"
    using prepend_node_effect[OF an(1) assms(4) ch p(2) apart(3) p(1)] by auto
  from join[OF h'(2)] show "\<exists>h'. json_prepend_element h a (addr t) = ret h' \<and> wf_tree h' (PT a (t # ts))
      \<and> node_value h' (PT a (t # ts)) = JArray (node_value h t # vs)"
    using h'(1) may val[of "t # ts" h'] value_array(2)[OF assms(1,2)]
    by (intro exI[of _ h']) (auto simp: json_prepend_element_def simp del: wf_tree.simps node_value.simps)
qed

lemma members_join:
  assumes "wf_tree h (PT a ts)" "node_value h (PT a ts) = JObject ms" "wf_tree h t"
    and "jh_nodes h (addr t) = Some n" "jn_parent n = None" "a \<notin> addrs t" "0 \<notin> set k" "text_ok k"
  shows "\<exists>h'. json_append_member h a (k @ 0 # r) (addr t) = ret h' \<and> wf_tree h' (PT a (ts @ [t]))
      \<and> node_value h' (PT a (ts @ [t])) = JObject (ms @ [(k, node_value h t)])"
    and "\<exists>h'. json_prepend_member h a (k @ 0 # r) (addr t) = ret h' \<and> wf_tree h' (PT a (t # ts))
      \<and> node_value h' (PT a (t # ts)) = JObject ((k, node_value h t) # ms)"
proof -
  obtain an where an: "jh_nodes h a = Some an" "jn_tag an = JSON_OBJECT" using value_object(1)[OF assms(1,2)] by blast
  note apart = root_apart[OF assms(1,4,5,6)]
  have may: "may_join h JSON_OBJECT a (addr t) = ret ()" using an assms(4,5) by (simp add: may_join_def)
  have dup: "json_strdup (k @ 0 # r) = ret k" by (simp add: json_strdup_def c_string_append[OF assms(7)])
  let ?n = "n\<lparr>jn_key := Some k\<rparr>"
  let ?h = "h\<lparr>jh_nodes := (jh_nodes h)(addr t \<mapsto> ?n)\<rparr>"
  have same: "wf_tree ?h (PT a ts)" "node_value ?h (PT a ts) = JObject ms"
    using wf_tree_cong[of "PT a ts" ?h h] apart(1) assms(1,2) by (auto simp del: wf_tree.simps node_value.simps addrs.simps)
  have t: "wf_tree ?h t" "node_value ?h t = node_value h t" using wf_tree_key[OF assms(3,4), of "Some k" ?h] assms(8) by auto
  have a: "jh_nodes ?h a = Some an" "jh_nodes ?h (addr t) = Some ?n" "jn_parent ?n = None" using an(1) apart(3) assms(5) by auto
  have c: "container (jn_tag an)" "key_fits (jn_tag an) (jn_key ?n)" using an by (simp_all add: container_def key_fits_def)
  note ch = wf_children_of[OF same(1) a(1) c(1)]
  have p: "a \<notin> set (map addr ts)" "addr t \<notin> set (map addr ts)" using root_not_child[OF assms(1)] apart(2) by simp_all
  have val: "node_value h' (PT a us) = JObject (map (member_of ?h) us)"
    if "\<forall>u \<in> set us. node_value h' u = node_value ?h u \<and> node_key h' (addr u) = node_key ?h (addr u)" "jh_nodes h' a = Some an'" "jn_tag an' = jn_tag an"
    for h' us an' using that an(2) by (simp add: member_of_def)
  have m: "member_of ?h t = (k, node_value h t)" using t(2) by (simp add: member_of_def node_key_def)
  note join = join_tree[OF same(1) t(1) a(1) c(1) a(2,3) assms(6) c(2)]
  obtain h' where h': "append_node ?h a (addr t) = ret h'" "relinked ?h h' a (map addr (ts @ [t])) (insert (addr t) (addr ` set ts))"
    using append_node_effect[OF a(1,2) ch p(2) apart(3) p(1)] by auto
  from join[OF h'(2)] show "\<exists>h'. json_append_member h a (k @ 0 # r) (addr t) = ret h' \<and> wf_tree h' (PT a (ts @ [t]))
      \<and> node_value h' (PT a (ts @ [t])) = JObject (ms @ [(k, node_value h t)])"
    using h'(1) may dup assms(4) m val[of "ts @ [t]" h'] value_object(2)[OF same]
    by (intro exI[of _ h']) (auto simp: json_append_member_def append_member_def simp del: wf_tree.simps node_value.simps)
  obtain h' where h': "prepend_node ?h a (addr t) = ret h'" "relinked ?h h' a (map addr (t # ts)) (insert (addr t) (addr ` set ts))"
    using prepend_node_effect[OF a(1,2) ch p(2) apart(3) p(1)] by auto
  from join[OF h'(2)] show "\<exists>h'. json_prepend_member h a (k @ 0 # r) (addr t) = ret h' \<and> wf_tree h' (PT a (t # ts))
      \<and> node_value h' (PT a (t # ts)) = JObject ((k, node_value h t) # ms)"
    using h'(1) may dup assms(4) m val[of "t # ts" h'] value_object(2)[OF same]
    by (intro exI[of _ h']) (auto simp: json_prepend_member_def simp del: wf_tree.simps node_value.simps)
qed

end
