(* ===== verification/JsonNodeDelete.thy ===== *)
theory JsonNodeDelete
  imports JsonNodeOps
begin

text \<open>
  Taking a tree out of its parent's list, deleting a tree, and finding a child; and the properties of the
  nodes' operations.
\<close>

declare wf_tree.simps [simp del] node_value.simps [simp del]

lemma remove_tree:
  assumes "wf_tree h (PT a (xs @ t # ys))"
  shows "\<exists>h' n. json_remove_from_parent h (addr t) = ret h' \<and> jh_next h' = jh_next h
    \<and> wf_tree h' (PT a (xs @ ys)) \<and> (\<forall>u \<in> set (xs @ ys). node_value h' u = node_value h u \<and> node_key h' (addr u) = node_key h (addr u))
    \<and> wf_tree h' t \<and> node_value h' t = node_value h t \<and> jh_nodes h' (addr t) = Some n \<and> jn_parent n = None \<and> jn_key n = None
    \<and> (\<forall>q. q \<notin> insert a (addr ` set (xs @ t # ys)) \<longrightarrow> jh_nodes h' q = jh_nodes h q)"
proof -
  let ?ts = "xs @ t # ys" and ?R = "addr ` set (xs @ t # ys)"
  obtain an where an: "jh_nodes h a = Some an" "local_ok an" "container (jn_tag an)" "children_of h a (map addr ?ts)"
      "\<forall>u \<in> set ?ts. \<exists>cn. jh_nodes h (addr u) = Some cn \<and> key_fits (jn_tag an) (jn_key cn)"
    and wf: "\<forall>u \<in> set ?ts. wf_tree h u"
    using assms unfolding wf_tree.simps by (fastforce split: if_splits)
  have na: "a \<notin> set (map addr ?ts)" using root_not_child[OF assms] by auto
  obtain h' en where h': "json_remove_from_parent h (addr t) = ret h'"
      "relinked (without_key h (addr t)) h' a (map addr xs @ map addr ys) (insert (addr t) (set (map addr xs) \<union> set (map addr ys)))"
      "jh_nodes h (addr t) = Some en" "jh_nodes h' (addr t) = Some (en\<lparr>jn_key := None, jn_parent := None, jn_prev := None, jn_next := None\<rparr>)"
    using remove_effect[OF an(1) an(4)[unfolded map_append list.map]] na unfolding map_append list.map by blast
  let ?k = "without_key h (addr t)"
  have R: "insert (addr t) (set (map addr xs) \<union> set (map addr ys)) = ?R" by auto
  note r = h'(2)[unfolded relinked_def R]
  have kn: "jh_nodes ?k q = (if q = addr t then Some (en\<lparr>jn_key := None\<rparr>) else jh_nodes h q)" for q
    using h'(3) by (simp add: without_key_def)
  have ta: "addr t \<noteq> a" using na by auto
  have apart: "addr t \<notin> addrs u" "addr u \<noteq> addr t" if "u \<in> set (xs @ ys)" for u
    using siblings_disjoint[OF assms that] addr_in_addrs by (metis disjoint_iff)+
  have k: "wf_tree ?k u \<and> node_value ?k u = node_value h u \<and> node_key ?k (addr u) = node_key h (addr u)" if "u \<in> set (xs @ ys)" for u
    using wf_tree_cong[of u ?k h] apart[OF that] wf that kn by (auto simp: node_key_def)
  have roots: "(addrs u - {addr u}) \<inter> ?R = {}" if u: "u \<in> set ?ts" for u
  proof -
    have "q \<notin> ?R" if q: "q \<in> addrs u" "q \<noteq> addr u" for q
    proof
      assume "q \<in> ?R"
      then obtain m where "jh_nodes h q = Some m" "jn_parent m = Some a" using wf_child_parent[OF assms] by auto
      then show False using parent_in_addrs[of h u q] wf u q root_not_below[OF assms u] by auto
    qed
    then show ?thesis by blast
  qed
  have ok: "\<forall>u \<in> set (xs @ ys). wf_tree ?k u \<and> a \<notin> addrs u \<and> key_fits (jn_tag an) (node_key ?k (addr u))"
  proof
    fix u assume u: "u \<in> set (xs @ ys)"
    then have m: "u \<in> set ?ts" by auto
    then obtain cn where "jh_nodes h (addr u) = Some cn" "key_fits (jn_tag an) (jn_key cn)" using an(5) by blast
    then show "wf_tree ?k u \<and> a \<notin> addrs u \<and> key_fits (jn_tag an) (node_key ?k (addr u))"
      using k[OF u] root_not_below[OF assms m] by (simp add: node_key_def)
  qed
  let ?an = "an\<lparr>jn_head := first_or (map addr (xs @ ys)) None, jn_tail := last_or None (map addr (xs @ ys))\<rparr>"
  have a: "jh_nodes ?k a = Some an" "jh_nodes h' a = Some ?an"
    using an(1) r[THEN conjunct2, THEN conjunct2, THEN conjunct1] ta kn by auto
  have r1: "children_of h' a (map addr (xs @ ys))" using r[THEN conjunct2, THEN conjunct1] by simp
  note r2 = r[THEN conjunct2, THEN conjunct2, THEN conjunct2, THEN conjunct1]
    and r3 = r[THEN conjunct2, THEN conjunct2, THEN conjunct2, THEN conjunct2]
  have inn: "inner ?an = inner (an\<lparr>jn_head := jn_head ?an, jn_tail := jn_tail ?an\<rparr>)" by (simp add: inner_def)
  have roots': "\<forall>u \<in> set (xs @ ys). (addrs u - {addr u}) \<inter> ?R = {}"
    by (intro ballI roots) auto
  note w = wf_relinked[OF a(1) an(2,3) a(2) inn r1 ok r2 r3 roots']
  have tk: "wf_tree ?k t" "node_value ?k t = node_value h t"
    using wf_tree_key[of h t en None ?k] wf h'(3) kn by auto
  have "\<forall>q \<in> addrs t - {addr t}. jh_nodes h' q = jh_nodes ?k q" using r2 roots[of t] root_not_below[OF assms, of t] by auto
  moreover have "map_option inner (jh_nodes h' (addr t)) = map_option inner (jh_nodes ?k (addr t))" using h'(4) kn by (simp add: inner_def)
  ultimately have t: "wf_tree h' t" "node_value h' t = node_value h t" using wf_tree_frame[of t h' ?k] tk by auto
  have val: "\<forall>u \<in> set (xs @ ys). node_value h' u = node_value h u \<and> node_key h' (addr u) = node_key h (addr u)"
    using w(2) k by (metis (no_types))
  have frame: "\<forall>q. q \<notin> insert a ?R \<longrightarrow> jh_nodes h' q = jh_nodes h q" using r2 kn by (metis imageI in_set_conv_decomp insertCI)
  have nxt: "jh_next h' = jh_next h" using r[THEN conjunct1] by (simp add: without_key_def)
  show ?thesis
    by (rule exI[of _ h'], rule exI[of _ "en\<lparr>jn_key := None, jn_parent := None, jn_prev := None, jn_next := None\<rparr>"])
      (intro conjI h'(1) nxt w(1) val t h'(4) frame; simp)
qed

subsection \<open>Deleting\<close>

text \<open>Once a node is out of its list, deleting it does not look at a list again.\<close>

lemma delete_removed:
  assumes "json_remove_from_parent h c = ret h1" "jh_nodes h1 c = Some n" "jn_parent n = None"
  shows "delete_node f h c = delete_node f h1 c"
proof -
  have "json_remove_from_parent h1 c = ret h1" using assms(2,3) by (simp add: json_remove_from_parent_def)
  then show ?thesis using assms(1) by (simp add: delete_node_def)
qed

definition freed :: "'d jheap \<Rightarrow> nat set \<Rightarrow> 'd jheap" where
  "freed h A = h\<lparr>jh_nodes := (\<lambda>q. if q \<in> A then None else jh_nodes h q)\<rparr>"

definition all_addrs :: "ptree list \<Rightarrow> nat set" where
  "all_addrs ts = (\<Union>t \<in> set ts. addrs t)"

text \<open>The loop over the children, when each child is deleted as it should be.\<close>

lemma delete_children_effect:
  assumes "\<And>t h n. t \<in> set ts \<Longrightarrow> wf_tree h t \<Longrightarrow> jh_nodes h (addr t) = Some n \<Longrightarrow> jn_parent n = None
      \<Longrightarrow> delete_node delete_children h (addr t) = ret (freed (h :: 'd jheap) (addrs t))"
  shows "wf_tree (h :: 'd jheap) (PT p ts) \<Longrightarrow> \<exists>h'. delete_children h (first_or (map addr ts) None) = ret h' \<and> jh_next h' = jh_next h
     \<and> jh_nodes h' p \<noteq> None
     \<and> (\<forall>q. q \<noteq> p \<longrightarrow> jh_nodes h' q = (if q \<in> all_addrs ts then None else jh_nodes h q))"
  using assms
proof (induction ts arbitrary: h)
  case Nil
  then show ?case by (simp add: delete_children.simps all_addrs_def wf_tree.simps) auto
next
  case (Cons t ts)
  obtain h1 n1 where h1: "json_remove_from_parent h (addr t) = ret h1" "jh_next h1 = jh_next h" "wf_tree h1 (PT p ts)" "wf_tree h1 t"
      "jh_nodes h1 (addr t) = Some n1" "jn_parent n1 = None"
      "\<forall>q. q \<notin> insert p (addr ` set (t # ts)) \<longrightarrow> jh_nodes h1 q = jh_nodes h q"
    using remove_tree[of h p "[]" t ts] Cons.prems(1) by auto
  have "delete_node delete_children h (addr t) = delete_node delete_children h1 (addr t)"
    by (rule delete_removed[OF h1(1,5,6)])
  also have "\<dots> = ret (freed h1 (addrs t))" using Cons.prems(2)[OF _ h1(4,5,6)] by simp
  finally have d: "delete_node delete_children h (addr t) = ret (freed h1 (addrs t))" .
  have ch: "children_of h p (map addr (t # ts))" using Cons.prems(1) wf_children by blast
  then obtain n where n: "jh_nodes h (addr t) = Some n" "jn_next n = first_or (map addr ts) None" by (auto simp: children_of_def)
  have out: "addrs t \<inter> addrs (PT p ts) = {}"
    using siblings_disjoint[of h p "[]" t ts] root_not_below[OF Cons.prems(1), of t] Cons.prems(1) by auto
  then have "\<forall>q \<in> addrs (PT p ts). jh_nodes (freed h1 (addrs t)) q = jh_nodes h1 q" by (auto simp: freed_def simp del: addrs.simps)
  from wf_tree_cong[OF this] have "wf_tree (freed h1 (addrs t)) (PT p ts)" using h1(3) by simp
  from Cons.IH[OF this] Cons.prems(2) obtain h' where h': "delete_children (freed h1 (addrs t)) (first_or (map addr ts) None) = ret h'"
      "jh_next h' = jh_next (freed h1 (addrs t))" "jh_nodes h' p \<noteq> None"
      "\<forall>q. q \<noteq> p \<longrightarrow> jh_nodes h' q = (if q \<in> all_addrs ts then None else jh_nodes (freed h1 (addrs t)) q)" by (metis list.set_intros(2))
  have "delete_children h (first_or (map addr (t # ts)) None) = ret h'"
    using n d h'(1) by (subst delete_children.simps) simp
  moreover have "jh_nodes h' q = (if q \<in> all_addrs (t # ts) then None else jh_nodes h q)" if "q \<noteq> p" for q
  proof -
    have "addr u \<in> all_addrs (t # ts)" if "u \<in> set (t # ts)" for u
      unfolding all_addrs_def using that addr_in_addrs by blast
    then have "q \<notin> all_addrs (t # ts) \<Longrightarrow> q \<notin> addr ` set (t # ts)" by blast
    then show ?thesis using h'(4) h1(7) that by (auto simp: all_addrs_def freed_def)
  qed
  ultimately show ?case using h'(2,3) h1(2) by (auto simp: freed_def)
qed

lemma delete_tree:
  "wf_tree (h :: 'd jheap) t \<Longrightarrow> jh_nodes h (addr t) = Some n \<Longrightarrow> jn_parent n = None
     \<Longrightarrow> delete_node delete_children h (addr t) = ret (freed h (addrs t))"
proof (induction t arbitrary: h n)
  case (PT p ts)
  have rem: "json_remove_from_parent h p = ret h" using PT.prems(2,3) by (simp add: json_remove_from_parent_def)
  have below: "p \<notin> all_addrs ts" using root_not_below[OF PT.prems(1)] by (auto simp: all_addrs_def)
  have free: "node_free h' p = ret (freed h (addrs (PT p ts)))"
    if "jh_next h' = jh_next h" "jh_nodes h' p \<noteq> None"
      "\<forall>q. q \<noteq> p \<longrightarrow> jh_nodes h' q = (if q \<in> all_addrs ts then None else jh_nodes h q)" for h'
    using that by (auto simp: node_free_def freed_def all_addrs_def intro!: jheap.equality ext)
  show ?case
  proof (cases "container (jn_tag n)")
    case True
    then have hd: "jn_head n = first_or (map addr ts) None" using PT.prems(1,2) by (auto simp: wf_tree.simps children_of_def)
    obtain h' where "delete_children h (first_or (map addr ts) None) = ret h'" "jh_next h' = jh_next h" "jh_nodes h' p \<noteq> None"
        "\<forall>q. q \<noteq> p \<longrightarrow> jh_nodes h' q = (if q \<in> all_addrs ts then None else jh_nodes h q)"
      using delete_children_effect[of ts h p, OF _ PT.prems(1)] PT.IH by blast
    then show ?thesis using rem PT.prems(2) hd free True by (simp add: delete_node_def container_def)
  next
    case False
    then have "ts = []" using PT.prems(1,2) by (simp add: wf_tree.simps)
    then show ?thesis using rem PT.prems(2) free[of h] False by (simp add: delete_node_def container_def all_addrs_def)
  qed
qed

subsection \<open>Finding children\<close>

lemma find_member_loop_find:
  assumes "0 \<notin> set name"
  shows "links h p pr (map addr ts) None \<Longrightarrow> \<forall>t \<in> set ts. node_key h (addr t) \<noteq> None
    \<Longrightarrow> find_member_loop h (name @ 0 # r) (first_or (map addr ts) None)
       = ret (map_option addr (find (\<lambda>t. node_key h (addr t) = Some name) ts))"
proof (induction ts arbitrary: pr)
  case Nil then show ?case by (simp add: find_member_loop.simps)
next
  case (Cons t ts)
  then show ?case
    by (subst find_member_loop.simps) (auto simp: node_key_def c_string_append[OF assms] split: option.splits)
qed

lemma find_element_loop_nth:
  "links h p pr (map addr ts) None
    \<Longrightarrow> find_element_loop h index (first_or (map addr ts) None) i
       = ret (if i \<le> index \<and> index < i + int (length ts) then Some (addr (ts ! nat (index - i))) else None)"
proof (induction ts arbitrary: pr i)
  case Nil then show ?case by (simp add: find_element_loop.simps)
next
  case (Cons t ts)
  have "nat (index - i) = Suc (nat (index - (i + 1)))" if "i < index" using that by simp
  then show ?case using Cons by (subst find_element_loop.simps) auto
qed

lemma json_find_element_nth:
  assumes "wf_tree h (PT a ts)" "node_value h (PT a ts) = JArray vs"
  shows "json_find_element h (Some a) index = ret (if 0 \<le> index \<and> index < int (length ts) then Some (addr (ts ! nat index)) else None)"
proof -
  obtain an where an: "jh_nodes h a = Some an" "jn_tag an = JSON_ARRAY" using value_array(1)[OF assms] by blast
  then have ch: "children_of h a (map addr ts)" using assms(1) by (auto simp: wf_tree.simps container_def)
  then show ?thesis using an find_element_loop_nth[of h a None ts index 0]
    by (auto simp: json_find_element_def json_first_child_def children_of_def)
qed

subsection \<open>Properties\<close>

text \<open>C8: putting a tree that has no parent at either end of an array gives a well-formed array whose value
  has the new element at that end. The tree must not contain the array.\<close>

theorem json_array_refines_list:
  assumes "wf_tree h (PT a ts)" "node_value h (PT a ts) = JArray vs" "wf_tree h t"
    and "jh_nodes h (addr t) = Some n" "jn_parent n = None" "jn_key n = None" "a \<notin> addrs t"
  shows "(\<exists>h'. json_append_element h a (addr t) = ret h' \<and> wf_tree h' (PT a (ts @ [t]))
        \<and> node_value h' (PT a (ts @ [t])) = JArray (vs @ [node_value h t]))
    \<and> (\<exists>h'. json_prepend_element h a (addr t) = ret h' \<and> wf_tree h' (PT a (t # ts))
        \<and> node_value h' (PT a (t # ts)) = JArray (node_value h t # vs))"
  using elements_join[OF assms] by blast

text \<open>C7: putting a tree that has no parent at either end of an object gives a well-formed object whose
  value has the new member, with the key up to its NUL, at that end.\<close>

theorem json_object_refines_list:
  assumes "wf_tree h (PT a ts)" "node_value h (PT a ts) = JObject ms" "wf_tree h t"
    and "jh_nodes h (addr t) = Some n" "jn_parent n = None" "a \<notin> addrs t" "0 \<notin> set k" "text_ok k"
  shows "(\<exists>h'. json_append_member h a (k @ 0 # r) (addr t) = ret h' \<and> wf_tree h' (PT a (ts @ [t]))
        \<and> node_value h' (PT a (ts @ [t])) = JObject (ms @ [(k, node_value h t)]))
    \<and> (\<exists>h'. json_prepend_member h a (k @ 0 # r) (addr t) = ret h' \<and> wf_tree h' (PT a (t # ts))
        \<and> node_value h' (PT a (t # ts)) = JObject ((k, node_value h t) # ms))"
  using members_join[OF assms] by blast

text \<open>C9: removing a child leaves the tree of the other children, in their order and with their values and
  keys, and the child as a tree of its own without parent and key.\<close>

theorem json_remove_from_parent_removes:
  assumes "wf_tree h (PT a (xs @ t # ys))"
  shows "\<exists>h' n. json_remove_from_parent h (addr t) = ret h' \<and> wf_tree h' (PT a (xs @ ys))
    \<and> (\<forall>u \<in> set (xs @ ys). node_value h' u = node_value h u \<and> node_key h' (addr u) = node_key h (addr u))
    \<and> wf_tree h' t \<and> node_value h' t = node_value h t \<and> jh_nodes h' (addr t) = Some n \<and> jn_parent n = None \<and> jn_key n = None"
  using remove_tree[OF assms] by blast

text \<open>C10: deleting a tree returns, frees each of its nodes once and changes no other node.\<close>

theorem json_delete_frees:
  assumes "wf_tree h t" "jh_nodes h (addr t) = Some n" "jn_parent n = None"
  shows "json_delete h (Some (addr t)) = ret (h\<lparr>jh_nodes := (\<lambda>q. if q \<in> addrs t then None else jh_nodes h q)\<rparr>)"
  using delete_tree[OF assms] by (simp add: json_delete_def freed_def)

text \<open>C11: looking up a member of an object returns the node of the first member with the key, as looking the
  key up in the value does, or NULL if there is none.\<close>

theorem json_find_member_finds:
  assumes "wf_tree h (PT a ts)" "node_value h (PT a ts) = JObject ms" "0 \<notin> set name"
  shows "\<exists>q. json_find_member h (Some a) (name @ 0 # r) = ret q
    \<and> (case q of None \<Rightarrow> map_of ms name = None
       | Some p \<Rightarrow> \<exists>t \<in> set ts. addr t = p \<and> map_of ms name = Some (node_value h t))"
proof -
  obtain an where an: "jh_nodes h a = Some an" "jn_tag an = JSON_OBJECT" using value_object(1)[OF assms(1,2)] by blast
  have ch: "children_of h a (map addr ts)" "\<forall>t \<in> set ts. node_key h (addr t) \<noteq> None"
    using assms(1) an by (auto simp: wf_tree.simps container_def key_fits_def node_key_def split: option.splits)
  have "json_find_member h (Some a) (name @ 0 # r) = ret (map_option addr (find (\<lambda>t. node_key h (addr t) = Some name) ts))"
    using an ch find_member_loop_find[OF assms(3), of h a None ts r]
    by (auto simp: json_find_member_def json_first_child_def children_of_def)
  moreover have "case map_option addr (find (\<lambda>t. node_key h (addr t) = Some name) us) of None \<Rightarrow> map_of (map (member_of h) us) name = None
       | Some p \<Rightarrow> \<exists>t \<in> set us. addr t = p \<and> map_of (map (member_of h) us) name = Some (node_value h t)"
    if "\<forall>t \<in> set us. node_key h (addr t) \<noteq> None" for us
    using that by (induction us) (auto simp: member_of_def split: option.splits)
  ultimately show ?thesis using value_object(2)[OF assms(1,2)] ch(2) by blast
qed

subsection \<open>Witnesses\<close>

text \<open>The object \<open>{"k": [1]}\<close>, and a null that stands alone.\<close>

definition example_node :: "int JsonNode" where
  "example_node = \<lparr>jn_parent = None, jn_prev = None, jn_next = None, jn_key = None, jn_tag = JSON_NULL, jn_bool = False,
     jn_string = None, jn_number = 0, jn_head = None, jn_tail = None\<rparr>"

definition example_heap :: "int jheap" where
  "example_heap = \<lparr>jh_nodes = [
      0 \<mapsto> example_node\<lparr>jn_tag := JSON_OBJECT, jn_head := Some 1, jn_tail := Some 1\<rparr>,
      1 \<mapsto> example_node\<lparr>jn_tag := JSON_ARRAY, jn_parent := Some 0, jn_key := Some ([0x6B]), jn_head := Some 2, jn_tail := Some 2\<rparr>,
      2 \<mapsto> example_node\<lparr>jn_tag := JSON_NUMBER, jn_number := 1, jn_parent := Some 1\<rparr>,
      3 \<mapsto> example_node], jh_next = 4\<rparr>"


lemma example_trees: "wf_tree example_heap (PT 0 [PT 1 [PT 2 []]])" "wf_tree example_heap (PT 1 [PT 2 []])" "wf_tree example_heap (PT 3 [])"
proof -
  have "text_ok ([0x6B])" by (simp add: text_ok_def utf8_validate.simps utf8_validate_cz_def)
  then show "wf_tree example_heap (PT 0 [PT 1 [PT 2 []]])" "wf_tree example_heap (PT 1 [PT 2 []])" "wf_tree example_heap (PT 3 [])"
    by (simp_all add: wf_tree.simps example_heap_def example_node_def local_ok_def container_def children_of_def key_fits_def)
qed

lemma example_values: "node_value example_heap (PT 1 [PT 2 []]) = JArray [JNumber 1]" "node_value example_heap (PT 3 []) = JNull"
    "node_value example_heap (PT 0 [PT 1 [PT 2 []]]) = JObject [([0x6B], JArray [JNumber 1])]"
  by (simp_all add: node_value.simps example_heap_def example_node_def node_key_def)

theorem json_array_refines_list_witness:
  "(\<exists>h'. json_append_element example_heap 1 (addr (PT 3 [])) = ret h' \<and> wf_tree h' (PT 1 ([PT 2 []] @ [PT 3 []]))
        \<and> node_value h' (PT 1 ([PT 2 []] @ [PT 3 []])) = JArray ([JNumber 1] @ [node_value example_heap (PT 3 [])]))
    \<and> (\<exists>h'. json_prepend_element example_heap 1 (addr (PT 3 [])) = ret h' \<and> wf_tree h' (PT 1 (PT 3 [] # [PT 2 []]))
        \<and> node_value h' (PT 1 (PT 3 [] # [PT 2 []])) = JArray (node_value example_heap (PT 3 []) # [JNumber 1]))"
  by (rule json_array_refines_list[OF example_trees(2) example_values(1) example_trees(3), where n = example_node])
    (simp_all add: example_heap_def example_node_def)

theorem json_object_refines_list_witness:
  "(\<exists>h'. json_append_member example_heap 0 ([0x62] @ 0 # []) (addr (PT 3 [])) = ret h' \<and> wf_tree h' (PT 0 ([PT 1 [PT 2 []]] @ [PT 3 []]))
        \<and> node_value h' (PT 0 ([PT 1 [PT 2 []]] @ [PT 3 []]))
          = JObject ([([0x6B], JArray [JNumber 1])] @ [([0x62], node_value example_heap (PT 3 []))]))
    \<and> (\<exists>h'. json_prepend_member example_heap 0 ([0x62] @ 0 # []) (addr (PT 3 [])) = ret h' \<and> wf_tree h' (PT 0 (PT 3 [] # [PT 1 [PT 2 []]]))
        \<and> node_value h' (PT 0 (PT 3 [] # [PT 1 [PT 2 []]]))
          = JObject (([0x62], node_value example_heap (PT 3 [])) # [([0x6B], JArray [JNumber 1])]))"
  by (rule json_object_refines_list[OF example_trees(1) example_values(3) example_trees(3), where n = example_node])
    (simp_all add: example_heap_def example_node_def text_ok_def utf8_validate.simps utf8_validate_cz_def)

theorem json_remove_from_parent_removes_witness:
  "\<exists>h' n. json_remove_from_parent example_heap (addr (PT 1 [PT 2 []])) = ret h' \<and> wf_tree h' (PT 0 ([] @ []))
    \<and> (\<forall>u \<in> set ([] @ []). node_value h' u = node_value example_heap u \<and> node_key h' (addr u) = node_key example_heap (addr u))
    \<and> wf_tree h' (PT 1 [PT 2 []]) \<and> node_value h' (PT 1 [PT 2 []]) = node_value example_heap (PT 1 [PT 2 []])
    \<and> jh_nodes h' (addr (PT 1 [PT 2 []])) = Some n \<and> jn_parent n = None \<and> jn_key n = None"
  by (rule json_remove_from_parent_removes) (use example_trees(1) in simp)

theorem json_delete_frees_witness:
  "json_delete example_heap (Some (addr (PT 0 [PT 1 [PT 2 []]])))
     = ret (example_heap\<lparr>jh_nodes := (\<lambda>q. if q \<in> addrs (PT 0 [PT 1 [PT 2 []]]) then None else jh_nodes example_heap q)\<rparr>)"
  by (rule json_delete_frees[OF example_trees(1), where n = "example_node\<lparr>jn_tag := JSON_OBJECT, jn_head := Some 1, jn_tail := Some 1\<rparr>"])
    (simp_all add: example_heap_def example_node_def)

theorem json_find_member_finds_witness:
  "\<exists>q. json_find_member example_heap (Some 0) ([0x6B] @ 0 # []) = ret q
    \<and> (case q of None \<Rightarrow> map_of [([0x6B :: byte], JArray [JNumber (1 :: int)])] ([0x6B]) = None
       | Some p \<Rightarrow> \<exists>t \<in> set [PT 1 [PT 2 []]]. addr t = p
           \<and> map_of [([0x6B :: byte], JArray [JNumber (1 :: int)])] ([0x6B]) = Some (node_value example_heap t))"
  by (rule json_find_member_finds[OF example_trees(1) example_values(3)]) simp

end
