(* ===== verification/Spec2Isabelle.thy ===== *)
theory Spec2Isabelle
  imports LmdbOrder LmdbDump JsonValidate FcgiRequest LmdbEnvMisuse JsonLuaTrip MdbMidlList LuaDbMain JsonNodeDelete
begin

text \<open>
  A verification development for LuaDB (C sources under \<open>src/src\<close>).

  \<^bold>\<open>The program.\<close> LuaDB is a Lua interpreter that serves web requests. \<open>main.c\<close> parses the
  command line and runs a script, a REPL or a FastCGI worker. \<open>state.c\<close> makes a Lua state with three
  libraries: \<open>json\<close> (\<open>json.c\<close> over \<open>deps/json\<close>), \<open>lmdb\<close> (\<open>lmdb.c\<close> over \<open>deps/lmdb\<close>) and \<open>uuid\<close> (\<open>uuid.c\<close>).
  A worker (\<open>fcgi.c\<close> over \<open>deps/fcgi\<close>) reads its configuration (\<open>config.c\<close>), and for each request
  makes a state, runs the router script in it, builds a request table from the FastCGI parameters
  and the query string (\<open>query.c\<close>), calls the router and sends the table it returns. The \<open>lmdb\<close> library
  stores values under keys of several segments: a codec packs the segments into an LMDB key, a
  comparison function orders the packed keys, and the methods of transactions read, write and
  enumerate.

  \<^bold>\<open>Conventions\<close> (theory Prelude). A computation is an \<open>exec\<close>: \<open>None\<close> does not return, \<open>throw f\<close> goes
  wrong with the fault \<open>f\<close> (an access outside an object, a null pointer, a freed object, a failed assertion, a
  signed overflow, a Lua error), \<open>ret x\<close> returns. A C buffer is the list of its bytes and every access is
  checked against its length; a pointer into a string is the list of the bytes from it to the end of
  its object. A \<open>size_t\<close> is a 64-bit word, a \<open>char\<close> an 8-bit word, and both wrap; an \<open>int\<close> that could
  overflow is checked. Loops that may not end are \<open>partial_function (option)\<close>, so that not returning is a value.

  \<^bold>\<open>Keys\<close> (\<open>lmdb.c\<close>, the private key utilities). LuaDbKey has the codec: \<open>GenerateLuaDbKey\<close>, the
  segment iterators, \<open>CompareKeys\<close>, \<open>ReplaceLastKeySegment\<close>, \<open>ComputeNextLexicalValue\<close>. KeyOrder and
  LuaDbOrder show that \<open>CompareKeys\<close> computes a linear order on stored keys, which makes it an
  interpretation of the locale \<open>key_order\<close>.

  \<^bold>\<open>LMDB\<close> (\<open>deps/lmdb/mdb.c\<close>, \<open>midl.c\<close>). Mdb has \<open>mdb_get\<close>, \<open>mdb_put\<close>, \<open>mdb_del\<close> and the cursor
  operations on one sorted page, with the binary search of \<open>mdb_node_search\<close>; its locale \<open>key_order\<close> states what LMDB asks of a
  comparison function, and the lemmas proved in it say that the page is a finite map. MdbTxn has
  the life of environments and transactions: flags, the writer mutex, the reader slots and which
  structs are allocated. MdbMidl, MdbMidlSort, MdbMidlSearch and MdbMidlList are the lists of page numbers of
  \<open>midl.c\<close>: sorting, searching, merging and appending.

  \<^bold>\<open>The lmdb library\<close> (\<open>lmdb.c\<close>). LmdbTx has the methods of a transaction over a page, LmdbOrder the iterator of
  \<open>tx:order\<close>, LmdbDump the dump of a key. LmdbEnv has opening and closing environments and
  beginning, committing and closing transactions, on a Lua state and the C heap of MdbTxn; LmdbLib
  registers the library. LmdbEnvSafe defines the runs, LmdbEnvInv the invariant, LmdbEnvRun
  what holds in every run, and LmdbEnvMisuse what happens after a garbage collection or a failed commit.

  \<^bold>\<open>Lua\<close> (\<open>deps/lua\<close>). LuaValue and LuaApi model the part of the C API that LuaDB calls: the stack,
  tables with metatables, conversion, protected and unprotected calls. A state is a record of the
  stack (its first element is the top), the heap of tables, the metatables and the registry. What Lua code does when
  called, and the texts of floats, are arguments (\<open>lua_env\<close>). LuaApiLemmas has the facts the components use; its
  locale \<open>map_store\<close> is the contract of a table.

  \<^bold>\<open>JSON.\<close> StringBuffer, Utf8, JsonParse and JsonEmit model \<open>deps/json/json.c\<close>; the locale \<open>byte_sink\<close> is the
  contract of the buffer with its writers. JsonSafe shows that parsing a C string is safe and ends, JsonText that
  printing gives the text of the tree, JsonRoundtrip and JsonValidate relate parsing to printing and to
  validation. There a tree is a value; JsonNode has the nodes as they lie in memory, with the functions that link, remove,
  delete, find and check them, and JsonNodeTree, JsonNodeCheck, JsonNodeOps and JsonNodeDelete show what they do to
  well-formed trees. JsonLua models \<open>json.c\<close>; JsonLuaDecode, JsonLuaEncode and JsonLuaTrip relate
  the tables made from a tree to the tree made from the tables.

  \<^bold>\<open>The web side.\<close> QueryString models \<open>query.c\<close>. FcgiStream models the buffered streams of
  \<open>deps/fcgi/fcgiapp.c\<close>, with the locale \<open>byte_source\<close> as the contract of a reader. Fcgi models \<open>fcgi.c\<close>
  and FcgiRequest shows what is put into the request table and what is sent.

  \<^bold>\<open>The program.\<close> LuaDbPaths models \<open>util.c\<close>, \<open>uuid.c\<close> and \<open>state.c\<close>, LuaDbConfig \<open>config.c\<close>, and LuaDbMain
  \<open>main.c\<close> and the start of a worker; LuaDbState shows what \<open>package.path\<close> a new state has.

  \<^bold>\<open>What the properties show.\<close> The comparison of keys is an order, so that what \<open>tx:put\<close> stores
  \<open>tx:get\<close> returns and \<open>tx:order\<close> enumerates the children of a key. The codecs of keys, JSON, UTF-8 and query strings
  are inverse to their parsers where the code makes them so, and the properties say exactly where it does not. In every run no
  transaction object has a dangling pointer. The lists of page numbers are sorted, merged and searched within
  their bounds. Several properties state a defect of the code as a fact about it: a
  fault that is reached, a loop that does not end, an error that is raised.

  \<^bold>\<open>Bounds and fuel.\<close> \<open>json_decode\<close> recurses on \<open>json_fuel\<close>, which grows with the length of the text;
  JsonSafe shows that it is never used up. \<open>LuaValueToJson\<close> recurses on the number of allocated tables plus one, more
  than the depth of any tree of tables; on a cyclic table, where the code overflows the C stack, the fuel ends. \<open>MAXTAGLOOP\<close> is the
  bound of \<open>lvm.c\<close>. Sorting assumes a list of less than \<open>2 ^ 30\<close> ids, above which the code overflows an \<open>int\<close>.
  Other bounds on lengths, far above what an address space holds, keep \<open>size_t\<close> from wrapping.

  \<^bold>\<open>Arguments.\<close> What is not the program is an argument of the definitions: the results of the
  operating system and of \<open>malloc\<close>, \<open>strtod\<close> and \<open>sprintf\<close> of doubles, the state \<open>luaL_openlibs\<close> leaves, what user
  scripts do.

  \<^bold>\<open>Not modelled.\<close> The rest of LMDB (page allocation, B+tree splitting and balancing, the free list, the
  reader table, copying), of Lua (compiler, interpreter, collector, standard libraries) and of the FastCGI library (the
  record protocol, sockets, Windows); \<open>linenoise\<close>; logging; the Lua scripts of \<open>config\<close> and \<open>web\<close>; tests and
  build files. Freeing memory is modelled where a dangling pointer can matter, in the
  life-cycle of environments and transactions, and left out elsewhere.
\<close>

end
